(* ===== verification/Prelude.thy ===== *)
theory Prelude
  imports Main "HOL-Library.Word" "HOL-Library.List_Lexorder" "HOL-Library.Product_Lexorder"
    "HOL-Library.Code_Target_Nat"
begin

text \<open>
  Shared vocabulary of the development: the machine types of the Rust sources, the storage
  error type, the two result monads the storage code is written in, and the generic lemmas on
  lists and results that the component theories use.

  \<^item> \<open>bytes\<close> is \<^verbatim>\<open>Vec<u8>\<close> or \<^verbatim>\<open>&[u8]\<close>; a Rust \<^verbatim>\<open>String\<close> is its UTF-8 bytes (\<open>ustr\<close>).
  \<^item> \<open>i64\<close> is \<open>int\<close>, with the range predicate \<open>in_i64\<close> wherever overflow matters; \<^verbatim>\<open>u64\<close>
    and \<^verbatim>\<open>u32\<close> are words; a \<^verbatim>\<open>usize\<close> length is \<open>nat\<close>.
  \<^item> \<open>'a res\<close> is \<^verbatim>\<open>StorageResult<T>\<close>; \<open>and_then\<close> is the \<^verbatim>\<open>?\<close> operator.
  \<^item> \<open>'a chk\<close> is a computation that takes a cancellation hook
    \<^verbatim>\<open>check: &dyn Fn() -> StorageResult<()>\<close>: how many times it calls the hook, and what it
    returns when every call succeeds. \<open>run_checked\<close> runs it against the answers of a hook.
\<close>

section \<open>Machine types\<close>

type_synonym byte = "8 word"
type_synonym bytes = "byte list"
type_synonym ustr = "byte list"
type_synonym i64 = int
type_synonym i32 = int
type_synonym u64 = "64 word"
type_synonym u32 = "32 word"
type_synonym hash_id = "byte list"

named_theorems codec_simps \<open>equations that compute encoders and decoders\<close>
named_theorems res_simps \<open>equations of the result monads\<close>

definition in_i64 :: "int \<Rightarrow> bool" where
  "in_i64 v \<longleftrightarrow> - (2 ^ 63) \<le> v \<and> v < 2 ^ 63"

definition in_i32 :: "int \<Rightarrow> bool" where
  "in_i32 v \<longleftrightarrow> - (2 ^ 31) \<le> v \<and> v < 2 ^ 31"

text \<open>The largest length of a Rust allocation (\<^verbatim>\<open>usize\<close> on the supported 64-bit targets).\<close>

definition usize_max :: nat where
  "usize_max = 2 ^ 64 - 1"

text \<open>Rust byte-string literals and the bytes of an ASCII literal.\<close>

definition ascii :: "string \<Rightarrow> bytes" where
  "ascii s = map (\<lambda>c. of_nat (of_char c)) s"

text \<open>\<^verbatim>\<open>str::split\<close> and \<^verbatim>\<open>str::split_once\<close> at an ASCII character.\<close>

fun split_at_byte :: "byte \<Rightarrow> bytes \<Rightarrow> bytes list" where
  "split_at_byte sep [] = [[]]"
| "split_at_byte sep (b # bs) =
     (if b = sep then [] # split_at_byte sep bs
      else (case split_at_byte sep bs of [] \<Rightarrow> [[b]] | s # ss \<Rightarrow> (b # s) # ss))"

fun split_once :: "byte \<Rightarrow> bytes \<Rightarrow> (bytes \<times> bytes) option" where
  "split_once sep [] = None"
| "split_once sep (b # bs) =
     (if b = sep then Some ([], bs) else map_option (\<lambda>(l, r). (b # l, r)) (split_once sep bs))"

section \<open>Errors\<close>

text \<open>
  \<^verbatim>\<open>StorageError\<close>. The payload of \<open>Corrupt\<close> and \<open>NotFound\<close> is the message; where the source
  formats an argument into it, the model keeps the literal part of the format string.
\<close>

datatype sqlite_error =
    QueryReturnedNoRows
  | ConstraintViolation
  | InvalidColumnType
  | Interrupted
  | TooBig

datatype storage_error =
    Sqlite sqlite_error
  | Corrupt string
  | NotFound string
  | BranchHeadMoved

type_synonym 'a res = "storage_error + 'a"

fun and_then :: "'e + 'a \<Rightarrow> ('a \<Rightarrow> 'e + 'b) \<Rightarrow> 'e + 'b" where
  "and_then (Inl e) f = Inl e"
| "and_then (Inr x) f = f x"

lemma and_then_cong [fundef_cong]:
  "m = m' \<Longrightarrow> (\<And>x. m' = Inr x \<Longrightarrow> f x = g x) \<Longrightarrow> and_then m f = and_then m' g"
  by (cases m') auto

lemma and_then_Inr_iff [simp]:
  "and_then m f = Inr y \<longleftrightarrow> (\<exists>x. m = Inr x \<and> f x = Inr y)"
  by (cases m) auto

lemma and_then_Inl_iff:
  "and_then m f = Inl e \<longleftrightarrow> m = Inl e \<or> (\<exists>x. m = Inr x \<and> f x = Inl e)"
  by (cases m) auto

lemma and_then_Inr [res_simps]: "and_then m Inr = m"
  by (cases m) auto

lemma and_then_assoc [res_simps]:
  "and_then (and_then m f) g = and_then m (\<lambda>x. and_then (f x) g)"
  by (cases m) auto

text \<open>For evaluation: the continuation is not entered before the result is known.\<close>

lemma and_then_case [code_unfold]: "and_then m f = (case m of Inl e \<Rightarrow> Inl e | Inr x \<Rightarrow> f x)"
  by (cases m) simp_all

text \<open>\<^verbatim>\<open>Option::ok_or\<close>.\<close>

definition ok_or :: "'a option \<Rightarrow> storage_error \<Rightarrow> 'a res" where
  "ok_or x e = (case x of None \<Rightarrow> Inl e | Some y \<Rightarrow> Inr y)"

lemma ok_or_simps [simp]:
  "ok_or None e = Inl e" "ok_or (Some x) e = Inr x"
  by (simp_all add: ok_or_def)

lemma ok_or_Inr_iff [simp]: "ok_or x e = Inr y \<longleftrightarrow> x = Some y"
  by (cases x) auto

text \<open>A loop \<^verbatim>\<open>for x in xs { acc = f(acc, x)? }\<close>.\<close>

fun fold_res :: "('a \<Rightarrow> 's \<Rightarrow> 'e + 's) \<Rightarrow> 'a list \<Rightarrow> 's \<Rightarrow> 'e + 's" where
  "fold_res f [] s = Inr s"
| "fold_res f (x # xs) s = and_then (f x s) (fold_res f xs)"

lemma fold_res_append:
  "fold_res f (xs @ ys) s = and_then (fold_res f xs s) (fold_res f ys)"
proof (induction xs arbitrary: s)
  case (Cons x xs)
  then show ?case by (cases "f x s") auto
qed simp

lemma fold_res_Inr_fold:
  assumes "\<And>x s. x \<in> set xs \<Longrightarrow> f x s = Inr (g x s)"
  shows "fold_res f xs s = Inr (fold g xs s)"
  using assms by (induction xs arbitrary: s) auto

lemma fold_res_pure [simp]: "fold_res (\<lambda>x s. Inr (g x s)) xs s = Inr (fold g xs s)"
  by (rule fold_res_Inr_fold) simp

lemma fold_res_invariant:
  assumes "fold_res f xs s = Inr t" and "P s"
    and "\<And>x s t. x \<in> set xs \<Longrightarrow> P s \<Longrightarrow> f x s = Inr t \<Longrightarrow> P t"
  shows "P t"
  using assms
proof (induction xs arbitrary: s)
  case (Cons x xs)
  then obtain u where u: "f x s = Inr u" "fold_res f xs u = Inr t" by auto
  show ?case by (rule Cons.IH [OF u(2)]) (use Cons.prems u in auto)
qed simp

text \<open>A loop that only validates: every element must pass.\<close>

fun all_res :: "('a \<Rightarrow> 'e + unit) \<Rightarrow> 'a list \<Rightarrow> 'e + unit" where
  "all_res f [] = Inr ()"
| "all_res f (x # xs) = and_then (f x) (\<lambda>_. all_res f xs)"

lemma all_res_Inr_iff [simp]: "all_res f xs = Inr u \<longleftrightarrow> (\<forall>x \<in> set xs. f x = Inr ())"
  by (induction xs) auto

text \<open>Collecting the results of a fallible map.\<close>

fun map_res :: "('a \<Rightarrow> 'e + 'b) \<Rightarrow> 'a list \<Rightarrow> 'e + 'b list" where
  "map_res f [] = Inr []"
| "map_res f (x # xs) = and_then (f x) (\<lambda>y. and_then (map_res f xs) (\<lambda>ys. Inr (y # ys)))"

lemma map_res_Inr_iff: "map_res f xs = Inr ys \<longleftrightarrow> list_all2 (\<lambda>x y. f x = Inr y) xs ys"
  by (induction xs arbitrary: ys) (auto simp: list_all2_Cons1)

lemma map_res_map:
  assumes "\<And>x. x \<in> set xs \<Longrightarrow> f x = Inr (g x)"
  shows "map_res f xs = Inr (map g xs)"
  using assms by (induction xs) auto

lemma map_res_map_fun: "map_res f (map g xs) = map_res (\<lambda>x. f (g x)) xs"
  by (induction xs) simp_all

section \<open>Computations with a cancellation hook\<close>

type_synonym 'a chk = "nat \<times> 'a res"

definition chk_ok :: "'a \<Rightarrow> 'a chk" where
  "chk_ok x = (0, Inr x)"

definition chk_err :: "storage_error \<Rightarrow> 'a chk" where
  "chk_err e = (0, Inl e)"

definition chk_res :: "'a res \<Rightarrow> 'a chk" where
  "chk_res r = (0, r)"

text \<open>One call \<^verbatim>\<open>check()?\<close> of the hook.\<close>

definition check :: "unit chk" where
  "check = (1, Inr ())"

definition chk_then :: "'a chk \<Rightarrow> ('a \<Rightarrow> 'b chk) \<Rightarrow> 'b chk" where
  "chk_then m f =
     (case snd m of Inl e \<Rightarrow> (fst m, Inl e) | Inr x \<Rightarrow> (fst m + fst (f x), snd (f x)))"

lemma chk_then_cong [fundef_cong]:
  "m = m' \<Longrightarrow> (\<And>x. snd m' = Inr x \<Longrightarrow> f x = g x) \<Longrightarrow> chk_then m f = chk_then m' g"
  by (auto simp: chk_then_def split: sum.splits)

lemma chk_then_case [code_unfold]:
  "chk_then m f =
     (case m of (n, r) \<Rightarrow>
        (case r of Inl e \<Rightarrow> (n, Inl e) | Inr x \<Rightarrow> (case f x of (k, s) \<Rightarrow> (n + k, s))))"
  by (cases m) (simp add: chk_then_def split: sum.splits prod.splits)

text \<open>The result of a computation whose hook never fails: \<open>snd\<close> is a monad morphism.\<close>

lemma snd_chk [simp]:
  "snd (chk_ok x) = Inr x" "snd (chk_err e) = Inl e" "snd (chk_res r) = r" "snd check = Inr ()"
  "snd (chk_then m f) = and_then (snd m) (\<lambda>x. snd (f x))"
  by (simp_all add: chk_ok_def chk_err_def chk_res_def check_def chk_then_def split: sum.splits)

definition chk_if :: "bool \<Rightarrow> storage_error \<Rightarrow> unit chk" where
  "chk_if b e = (if b then chk_ok () else chk_err e)"

lemma snd_chk_if [simp]: "snd (chk_if b e) = (if b then Inr () else Inl e)"
  by (simp add: chk_if_def)

fun chk_fold :: "('a \<Rightarrow> 's \<Rightarrow> 's chk) \<Rightarrow> 'a list \<Rightarrow> 's \<Rightarrow> 's chk" where
  "chk_fold f [] s = chk_ok s"
| "chk_fold f (x # xs) s = chk_then (f x s) (chk_fold f xs)"

lemma snd_chk_fold [simp]: "snd (chk_fold f xs s) = fold_res (\<lambda>x s. snd (f x s)) xs s"
  by (induction xs arbitrary: s) auto

fun chk_map :: "('a \<Rightarrow> 'b chk) \<Rightarrow> 'a list \<Rightarrow> 'b list chk" where
  "chk_map f [] = chk_ok []"
| "chk_map f (x # xs) = chk_then (f x) (\<lambda>y. chk_then (chk_map f xs) (\<lambda>ys. chk_ok (y # ys)))"

lemma snd_chk_map [simp]: "snd (chk_map f xs) = map_res (\<lambda>x. snd (f x)) xs"
  by (induction xs) auto

fun chk_all :: "('a \<Rightarrow> unit chk) \<Rightarrow> 'a list \<Rightarrow> unit chk" where
  "chk_all f [] = chk_ok ()"
| "chk_all f (x # xs) = chk_then (f x) (\<lambda>_. chk_all f xs)"

lemma snd_chk_all [simp]: "snd (chk_all f xs) = all_res (\<lambda>x. snd (f x)) xs"
  by (induction xs) auto

lemma map_res_cong [fundef_cong]:
  "xs = ys \<Longrightarrow> (\<And>x. x \<in> set ys \<Longrightarrow> f x = g x) \<Longrightarrow> map_res f xs = map_res g ys"
  by (induction xs arbitrary: ys) auto

lemma chk_map_cong [fundef_cong]:
  "xs = ys \<Longrightarrow> (\<And>x. x \<in> set ys \<Longrightarrow> f x = g x) \<Longrightarrow> chk_map f xs = chk_map g ys"
  by (induction xs arbitrary: ys) auto

lemma all_res_cong [fundef_cong]:
  "xs = ys \<Longrightarrow> (\<And>x. x \<in> set ys \<Longrightarrow> f x = g x) \<Longrightarrow> all_res f xs = all_res g ys"
  by (induction xs arbitrary: ys) auto

text \<open>
  Running a computation against a hook: \<open>hook n\<close> is what the hook answers to its call number
  \<open>n\<close> (\<open>None\<close> is \<^verbatim>\<open>Ok(())\<close>). The first error answered ends the computation with it.
\<close>

fun first_failure :: "(nat \<Rightarrow> storage_error option) \<Rightarrow> nat \<Rightarrow> nat \<Rightarrow> storage_error option" where
  "first_failure hook n 0 = None"
| "first_failure hook n (Suc k) =
     (case hook n of Some e \<Rightarrow> Some e | None \<Rightarrow> first_failure hook (Suc n) k)"

definition run_checked :: "(nat \<Rightarrow> storage_error option) \<Rightarrow> nat \<Rightarrow> 'a chk \<Rightarrow> 'a res" where
  "run_checked hook n m =
     (case first_failure hook n (fst m) of Some e \<Rightarrow> Inl e | None \<Rightarrow> snd m)"

lemma first_failure_None_iff: "first_failure hook n k = None \<longleftrightarrow> (\<forall>i < k. hook (n + i) = None)"
proof (induction k arbitrary: n)
  case (Suc k)
  show ?case
  proof (cases "hook n")
    case None
    have "(\<forall>i < Suc k. hook (n + i) = None) \<longleftrightarrow> hook n = None \<and> (\<forall>i < k. hook (Suc n + i) = None)"
      by (auto simp: less_Suc_eq_0_disj)
    with None Suc show ?thesis by simp
  qed auto
qed simp

lemma first_failure_SomeD: "first_failure hook n k = Some e \<Longrightarrow> \<exists>i < k. hook (n + i) = Some e"
proof (induction k arbitrary: n)
  case (Suc k)
  then show ?case by (cases "hook n") (fastforce dest: Suc.IH)+
qed simp

lemma run_checked_no_hook [simp]: "run_checked (\<lambda>_. None) n m = snd m"
  by (simp add: run_checked_def first_failure_None_iff [THEN iffD2])

lemma run_checked_cases:
  "run_checked hook n m = snd m \<or> (\<exists>i < fst m. \<exists>e. hook (n + i) = Some e \<and> run_checked hook n m = Inl e)"
  by (auto simp: run_checked_def split: option.splits dest!: first_failure_SomeD)

section \<open>Lists\<close>

lemma take_drop_slice: "a \<le> b \<Longrightarrow> b \<le> length xs \<Longrightarrow> take a xs @ take (b - a) (drop a xs) @ drop b xs = xs"
  by (metis append_assoc append_take_drop_id drop_drop le_add_diff_inverse2)

lemma drop_plus: "drop (c + k) xs = drop k (drop c xs)"
  by (simp add: add.commute)

lemma drop_eq_ConsD: "drop n xs = y # ys \<Longrightarrow> n < length xs \<and> xs ! n = y \<and> drop (Suc n) xs = ys"
  by (metis drop_all linorder_not_less list.distinct(1) list.inject Cons_nth_drop_Suc)

text \<open>\<^verbatim>\<open>slice.chunks(n)\<close>.\<close>

function chunks :: "nat \<Rightarrow> 'a list \<Rightarrow> 'a list list" where
  "chunks n xs = (if n = 0 \<or> xs = [] then [] else take n xs # chunks n (drop n xs))"
  by pat_completeness auto
termination by (relation "measure (\<lambda>(n, xs). length xs)") auto

declare chunks.simps [simp del]

lemma chunks_Nil [simp]: "chunks n [] = []"
  by (simp add: chunks.simps)

text \<open>Evaluation on short inputs never splits them.\<close>

lemma chunks_code [code]:
  "chunks n xs = (if n = 0 \<or> xs = [] then [] else if length xs \<le> n then [xs]
                  else take n xs # chunks n (drop n xs))"
  by (subst chunks.simps) simp

lemma concat_chunks [simp]: "0 < n \<Longrightarrow> concat (chunks n xs) = xs"
  by (induction n xs rule: chunks.induct) (subst chunks.simps, auto)

text \<open>\<^verbatim>\<open>slice.as_chunks::<N>()\<close>: the full chunks and the remainder.\<close>

function as_chunks :: "nat \<Rightarrow> 'a list \<Rightarrow> 'a list list \<times> 'a list" where
  "as_chunks n xs =
     (if n = 0 \<or> length xs < n then ([], xs)
      else let (cs, r) = as_chunks n (drop n xs) in (take n xs # cs, r))"
  by pat_completeness auto
termination by (relation "measure (\<lambda>(n, xs). length xs)") auto

declare as_chunks.simps [simp del]

lemma as_chunks_concat:
  assumes "0 < n" "\<forall>c \<in> set cs. length c = n" "length r < n"
  shows "as_chunks n (concat cs @ r) = (cs, r)"
  using assms(2)
proof (induction cs)
  case Nil
  then show ?case using assms by (subst as_chunks.simps) simp
next
  case (Cons c cs)
  then show ?case using assms(1) by (subst as_chunks.simps) simp
qed

lemma as_chunks_split:
  assumes "0 < n"
  shows "concat (fst (as_chunks n xs)) @ snd (as_chunks n xs) = xs
    \<and> (\<forall>c \<in> set (fst (as_chunks n xs)). length c = n) \<and> length (snd (as_chunks n xs)) < n"
  using assms
proof (induction n xs rule: as_chunks.induct)
  case (1 n xs)
  show ?case
  proof (cases "length xs < n")
    case True
    then show ?thesis by (subst (1 2 3 4) as_chunks.simps) simp
  next
    case False
    define p where "p = as_chunks n (drop n xs)"
    have "as_chunks n xs = (take n xs # fst p, snd p)"
      using False "1.prems" by (subst as_chunks.simps) (simp add: p_def case_prod_beta)
    moreover have "concat (fst p) @ snd p = drop n xs \<and> (\<forall>c \<in> set (fst p). length c = n) \<and> length (snd p) < n"
      unfolding p_def by (rule "1.IH") (use False "1.prems" in auto)
    ultimately show ?thesis using False by simp
  qed
qed

lemma length_concat_same: "\<forall>c \<in> set cs. length c = n \<Longrightarrow> length (concat cs) = n * length cs"
  by (induction cs) auto

lemma as_chunks_exact:
  assumes "0 < n" "length xs = n * k"
  shows "snd (as_chunks n xs) = []" "length (fst (as_chunks n xs)) = k" "concat (fst (as_chunks n xs)) = xs"
proof -
  let ?cs = "fst (as_chunks n xs)" and ?r = "snd (as_chunks n xs)"
  note sp = as_chunks_split [OF assms(1), of xs]
  have "n * k = n * length ?cs + length ?r"
    using sp assms(2) length_concat_same [of ?cs n] by (metis length_append)
  moreover have "length ?r < n" using sp by simp
  ultimately have rem: "(n * k) mod n = length ?r" by simp
  then have "length ?r = 0" by simp
  moreover from this have "k = length ?cs" using \<open>n * k = n * length ?cs + length ?r\<close> assms(1) by simp
  ultimately have k: "k = length ?cs" "length ?r = 0" by simp_all
  then show "?r = []" "length ?cs = k" by simp_all
  then show "concat ?cs = xs" using sp by simp
qed

end
