(* ===== verification/Encoding.thy ===== *)
theory Encoding
  imports Prelude
begin

unbundle bit_operations_syntax

text \<open>
  The LCE1 canonical encoding (\<^verbatim>\<open>storage/encoding.rs\<close>): unsigned LEB128 lengths, fixed-width
  little-endian integers, length-delimited records and the cursor-based readers over them.
  Everything that is hashed or stored as a canonical blob goes through this module, so what matters
  is that the encoding is injective, that the readers accept exactly the encoder's output, and that
  the streaming and cancellable variants produce the same bytes as the plain ones.
\<close>

section \<open>Little-endian integers\<close>

fun le_bytes :: "nat \<Rightarrow> nat \<Rightarrow> bytes" where
  "le_bytes 0 v = []"
| "le_bytes (Suc n) v = of_nat (v mod 256) # le_bytes n (v div 256)"

fun le_value :: "bytes \<Rightarrow> nat" where
  "le_value [] = 0"
| "le_value (b # bs) = unat b + 256 * le_value bs"

definition i64_bytes :: "i64 \<Rightarrow> bytes" where
  "i64_bytes v = le_bytes 8 (nat (v mod 2 ^ 64))"

definition i32_bytes :: "i32 \<Rightarrow> bytes" where
  "i32_bytes v = le_bytes 4 (nat (v mod 2 ^ 32))"

definition u64_bytes :: "u64 \<Rightarrow> bytes" where
  "u64_bytes v = le_bytes 8 (unat v)"

definition u32_bytes :: "u32 \<Rightarrow> bytes" where
  "u32_bytes v = le_bytes 4 (unat v)"

definition fixed :: "nat \<Rightarrow> bytes \<Rightarrow> bytes res" where
  "fixed n bs =
     (if length bs = n then Inr bs
      else Inl (Corrupt ''expected fixed-width LCE1 field of N bytes''))"

definition i64_from_le :: "bytes \<Rightarrow> i64" where
  "i64_from_le bs = (let n = int (le_value bs) in if n < 2 ^ 63 then n else n - 2 ^ 64)"

definition i32_from_le :: "bytes \<Rightarrow> i32" where
  "i32_from_le bs = (let n = int (le_value bs) in if n < 2 ^ 31 then n else n - 2 ^ 32)"

definition decode_i64 :: "bytes \<Rightarrow> i64 res" where
  "decode_i64 bs = and_then (fixed 8 bs) (\<lambda>b. Inr (i64_from_le b))"

definition decode_i32 :: "bytes \<Rightarrow> i32 res" where
  "decode_i32 bs = and_then (fixed 4 bs) (\<lambda>b. Inr (i32_from_le b))"

definition decode_u64 :: "bytes \<Rightarrow> u64 res" where
  "decode_u64 bs = and_then (fixed 8 bs) (\<lambda>b. Inr (of_nat (le_value b)))"

definition decode_u32 :: "bytes \<Rightarrow> u32 res" where
  "decode_u32 bs = and_then (fixed 4 bs) (\<lambda>b. Inr (of_nat (le_value b)))"

section \<open>Unsigned LEB128\<close>

function put_uleb :: "u64 \<Rightarrow> bytes \<Rightarrow> bytes" where
  "put_uleb v out =
     (let byte = ucast (v AND 0x7f) :: byte;
          v' = drop_bit 7 v;
          byte' = (if v' \<noteq> 0 then byte OR 0x80 else byte);
          out' = out @ [byte']
      in if v' = 0 then out' else put_uleb v' out')"
  by pat_completeness auto

function uleb_array_loop :: "u64 \<Rightarrow> bytes \<Rightarrow> nat \<Rightarrow> (bytes \<times> nat) option" where
  "uleb_array_loop v arr len =
     (let byte = ucast (v AND 0x7f) :: byte;
          v' = drop_bit 7 v;
          byte' = (if v' \<noteq> 0 then byte OR 0x80 else byte)
      in if length arr \<le> len then None
         else let arr' = arr[len := byte']; len' = len + 1
              in if v' = 0 then Some (arr', len') else uleb_array_loop v' arr' len')"
  by pat_completeness auto

function uleb_len :: "u64 \<Rightarrow> nat" where
  "uleb_len v = (if v \<ge> 0x80 then uleb_len (drop_bit 7 v) + 1 else 1)"
  by pat_completeness auto

lemma unat_drop_bit_7 [simp]: "unat (drop_bit 7 (v :: u64)) = unat v div 128"
  by (simp only: unat_drop_bit_eq) (simp add: drop_bit_eq_div)

lemma drop_bit_7_eq_0_iff: "drop_bit 7 (v :: u64) = 0 \<longleftrightarrow> unat v < 128"
  by (simp add: unat_eq_zero [symmetric] div_eq_0_iff)

termination put_uleb
  by (relation "measure (\<lambda>(v, out). unat v)") (auto simp: drop_bit_7_eq_0_iff)

termination uleb_array_loop
  by (relation "measure (\<lambda>(v, arr, len). unat v)") (auto simp: drop_bit_7_eq_0_iff)

termination uleb_len
  by (relation "measure unat") (auto simp: word_le_nat_alt)

declare put_uleb.simps [simp del] uleb_array_loop.simps [simp del] uleb_len.simps [simp del]

text \<open>\<open>None\<close> is the index-out-of-bounds panic on the ten-byte array.\<close>

definition uleb_array :: "u64 \<Rightarrow> (bytes \<times> nat) option" where
  "uleb_array v = uleb_array_loop v (replicate 10 0) 0"

definition uleb_bytes :: "u64 \<Rightarrow> bytes" where
  "uleb_bytes v = put_uleb v []"

fun read_uleb_loop :: "bytes \<Rightarrow> nat \<Rightarrow> nat list \<Rightarrow> nat \<Rightarrow> u64 \<Rightarrow> (u64 \<times> nat) res" where
  "read_uleb_loop bs start [] cursor v = Inl (Corrupt ''LCE1 ULEB128 overflows u64'')"
| "read_uleb_loop bs start (shift # shifts) cursor v =
     (if length bs \<le> cursor then Inl (Corrupt ''truncated LCE1 ULEB128'')
      else let byte = bs ! cursor;
               cursor' = cursor + 1;
               payload = ucast (byte AND 0x7f) :: u64
           in if shift = 63 \<and> payload > 1 then Inl (Corrupt ''LCE1 ULEB128 overflows u64'')
              else let v' = v OR push_bit shift payload
                   in if byte AND 0x80 = 0
                      then (if cursor' - start \<noteq> uleb_len v'
                            then Inl (Corrupt ''LCE1 ULEB128 is not minimally encoded'')
                            else Inr (v', cursor'))
                      else read_uleb_loop bs start shifts cursor' v')"

definition read_uleb :: "bytes \<Rightarrow> nat \<Rightarrow> (u64 \<times> nat) res" where
  "read_uleb bs cursor = read_uleb_loop bs cursor [0, 7, 14, 21, 28, 35, 42, 49, 56, 63] cursor 0"

definition decode_uleb_field :: "bytes \<Rightarrow> u64 res" where
  "decode_uleb_field bs =
     and_then (read_uleb bs 0) (\<lambda>(v, cursor).
       if cursor \<noteq> length bs then Inl (Corrupt ''ULEB128 field has trailing bytes'') else Inr v)"

section \<open>Optional fields and floats\<close>

fun optional_bytes :: "bytes option \<Rightarrow> bytes" where
  "optional_bytes (Some v) = 1 # v"
| "optional_bytes None = [0]"

definition optional_string :: "ustr option \<Rightarrow> bytes" where
  "optional_string v = optional_bytes v"

text \<open>A float is its IEEE bits; \<^verbatim>\<open>is_nan\<close> reads the exponent and the fraction.\<close>

definition f64_is_nan :: "u64 \<Rightarrow> bool" where
  "f64_is_nan b \<longleftrightarrow> b AND 0x7ff0000000000000 = 0x7ff0000000000000 \<and> b AND 0x000fffffffffffff \<noteq> 0"

definition f32_is_nan :: "u32 \<Rightarrow> bool" where
  "f32_is_nan b \<longleftrightarrow> b AND 0x7f800000 = 0x7f800000 \<and> b AND 0x007fffff \<noteq> 0"

definition canonical_f64_bits :: "u64 \<Rightarrow> u64" where
  "canonical_f64_bits b = (if f64_is_nan b then 0x7ff8000000000000 else b)"

definition canonical_f32_bits :: "u32 \<Rightarrow> u32" where
  "canonical_f32_bits b = (if f32_is_nan b then 0x7fc00000 else b)"

section \<open>Records\<close>

definition MAGIC :: bytes where
  "MAGIC = ascii ''LCE1''"

definition put_len :: "nat \<Rightarrow> bytes \<Rightarrow> bytes" where
  "put_len n out = put_uleb (of_nat n) out"

definition put_field :: "bytes \<Rightarrow> bytes \<Rightarrow> bytes" where
  "put_field field out = put_len (length field) out @ field"

definition lce1_record :: "ustr \<Rightarrow> bytes list \<Rightarrow> bytes" where
  "lce1_record domain fields =
     fold put_field fields
       (put_len (length fields) (put_len (length domain) MAGIC @ domain))"

definition encoded_field_len :: "nat \<Rightarrow> nat \<Rightarrow> nat res" where
  "encoded_field_len prefix field =
     (if prefix + uleb_len (of_nat field) \<le> usize_max
         \<and> prefix + uleb_len (of_nat field) + field \<le> usize_max
      then Inr (prefix + uleb_len (of_nat field) + field)
      else Inl (Corrupt ''LCE1 encoded field size overflow''))"

definition append_checked :: "bytes \<Rightarrow> bytes \<Rightarrow> bytes chk" where
  "append_checked out bs =
     chk_fold (\<lambda>chunk out. chk_then check (\<lambda>_. chk_ok (out @ chunk))) (chunks 65536 bs) out"

definition copy_bytes_checked :: "bytes \<Rightarrow> bytes chk" where
  "copy_bytes_checked bs =
     chk_then check (\<lambda>_. chk_then (append_checked [] bs) (\<lambda>out. chk_then check (\<lambda>_. chk_ok out)))"

definition put_field_checked :: "bytes \<Rightarrow> bytes \<Rightarrow> bytes chk" where
  "put_field_checked field out =
     chk_then check (\<lambda>_. append_checked (put_len (length field) out) field)"

definition measure_fields :: "bytes list \<Rightarrow> nat \<Rightarrow> nat chk" where
  "measure_fields fields len =
     chk_fold (\<lambda>field len. chk_then check (\<lambda>_. chk_res (encoded_field_len len (length field)))) fields len"

definition record_checked :: "ustr \<Rightarrow> bytes list \<Rightarrow> bytes chk" where
  "record_checked domain fields =
     chk_then check (\<lambda>_.
     chk_then (measure_fields fields
       (length MAGIC + uleb_len (of_nat (length domain)) + length domain
        + uleb_len (of_nat (length fields)))) (\<lambda>_.
     chk_then (append_checked (put_len (length domain) MAGIC) domain) (\<lambda>out.
     chk_then (chk_fold put_field_checked fields (put_len (length fields) out)) (\<lambda>out.
     chk_then check (\<lambda>_. chk_ok out)))))"

definition encode_counted :: "bytes list \<Rightarrow> bytes" where
  "encode_counted items = fold put_field items (put_len (length items) [])"

definition encode_counted_checked :: "bytes list \<Rightarrow> bytes chk" where
  "encode_counted_checked items =
     chk_then check (\<lambda>_.
     chk_then (measure_fields items (uleb_len (of_nat (length items)))) (\<lambda>_.
     chk_then (chk_fold put_field_checked items (put_len (length items) [])) (\<lambda>out.
     chk_then check (\<lambda>_. chk_ok out))))"

definition equal_bytes_checked :: "bytes \<Rightarrow> bytes \<Rightarrow> bool chk" where
  "equal_bytes_checked left right =
     chk_then check (\<lambda>_.
     if length left \<noteq> length right then chk_ok False
     else chk_then
       (chk_fold (\<lambda>(l, r) same. if same then chk_then check (\<lambda>_. chk_ok (l = r)) else chk_ok False)
          (zip (chunks 65536 left) (chunks 65536 right)) True)
       (\<lambda>same. if same then chk_then check (\<lambda>_. chk_ok True) else chk_ok False))"

section \<open>The streaming hasher\<close>

text \<open>
  A \<^verbatim>\<open>blake3::Hasher\<close> is what has been fed to it: feeding pieces and finalising gives the digest
  of their concatenation, by the hasher's documentation. The digest itself is the parameter
  \<open>blake3\<close>.
\<close>

record RecordHasher =
  hasher :: bytes

definition hash_uleb :: "u64 \<Rightarrow> bytes \<Rightarrow> bytes" where
  "hash_uleb v h = (case uleb_array v of None \<Rightarrow> h | Some (arr, len) \<Rightarrow> h @ take len arr)"

definition hasher_new :: "ustr \<Rightarrow> nat \<Rightarrow> RecordHasher" where
  "hasher_new domain field_count =
     \<lparr>hasher = hash_uleb (of_nat field_count) (hash_uleb (of_nat (length domain)) MAGIC @ domain)\<rparr>"

definition hasher_field :: "bytes \<Rightarrow> RecordHasher \<Rightarrow> RecordHasher" where
  "hasher_field field h = h\<lparr>hasher := hash_uleb (of_nat (length field)) (hasher h) @ field\<rparr>"

definition hasher_field_checked :: "bytes \<Rightarrow> RecordHasher \<Rightarrow> RecordHasher chk" where
  "hasher_field_checked field h =
     chk_fold (\<lambda>chunk h. chk_then check (\<lambda>_. chk_ok (h\<lparr>hasher := hasher h @ chunk\<rparr>)))
       (chunks 65536 field) (h\<lparr>hasher := hash_uleb (of_nat (length field)) (hasher h)\<rparr>)"

definition hasher_finish :: "(bytes \<Rightarrow> hash_id) \<Rightarrow> RecordHasher \<Rightarrow> hash_id" where
  "hasher_finish blake3 h = blake3 (hasher h)"

section \<open>Readers\<close>

definition usize_from_u64 :: "u64 \<Rightarrow> nat res" where
  "usize_from_u64 v =
     (if unat v \<le> usize_max then Inr (unat v) else Inl (Corrupt ''length exceeds addressable size''))"

definition take_field :: "bytes \<Rightarrow> nat \<Rightarrow> nat \<Rightarrow> (bytes \<times> nat) res" where
  "take_field bs cursor len =
     (if cursor + len > usize_max then Inl (Corrupt ''LCE1 field length overflow'')
      else if cursor + len > length bs then Inl (Corrupt ''truncated LCE1 field'')
      else Inr (take len (drop cursor bs), cursor + len))"

record BorrowedFields =
  bf_bytes :: bytes
  bf_cursor :: nat
  bf_remaining :: nat

definition bf_finish :: "BorrowedFields \<Rightarrow> unit res" where
  "bf_finish f =
     (if bf_remaining f \<noteq> 0 \<or> bf_cursor f \<noteq> length (bf_bytes f)
      then Inl (Corrupt ''LCE1 fields have missing items or trailing bytes'') else Inr ())"

definition next_field :: "BorrowedFields \<Rightarrow> (bytes option \<times> BorrowedFields) res" where
  "next_field f =
     (if bf_remaining f = 0 then and_then (bf_finish f) (\<lambda>_. Inr (None, f))
      else and_then (read_uleb (bf_bytes f) (bf_cursor f)) (\<lambda>(v, cursor).
           and_then (usize_from_u64 v) (\<lambda>len.
           and_then (take_field (bf_bytes f) cursor len) (\<lambda>(field, cursor).
             Inr (Some field, f\<lparr>bf_cursor := cursor, bf_remaining := bf_remaining f - 1\<rparr>)))))"

definition borrowed_fields_after_count :: "bytes \<Rightarrow> nat \<Rightarrow> BorrowedFields res" where
  "borrowed_fields_after_count bs cursor =
     and_then (read_uleb bs cursor) (\<lambda>(v, cursor).
     and_then (usize_from_u64 v) (\<lambda>remaining.
       if remaining > length bs - cursor
       then Inl (Corrupt ''LCE1 field count exceeds remaining encoded bytes'')
       else Inr \<lparr>bf_bytes = bs, bf_cursor = cursor, bf_remaining = remaining\<rparr>))"

definition borrowed_record_fields :: "bytes \<Rightarrow> ustr \<Rightarrow> BorrowedFields res" where
  "borrowed_record_fields bs expected_domain =
     (if length bs < length MAGIC \<or> take (length MAGIC) bs \<noteq> MAGIC
      then Inl (Corrupt ''LCE1 record is missing its magic prefix'')
      else and_then (read_uleb bs (length MAGIC)) (\<lambda>(v, cursor).
           and_then (usize_from_u64 v) (\<lambda>domain_len.
           and_then (take_field bs cursor domain_len) (\<lambda>(domain, cursor).
             if domain \<noteq> expected_domain then Inl (Corrupt ''expected LCE1 record'')
             else borrowed_fields_after_count bs cursor))))"

definition borrowed_counted_fields :: "bytes \<Rightarrow> BorrowedFields res" where
  "borrowed_counted_fields bs = borrowed_fields_after_count bs 0"

definition borrowed_length_prefixed_field :: "bytes \<Rightarrow> bytes res" where
  "borrowed_length_prefixed_field bs =
     and_then (read_uleb bs 0) (\<lambda>(v, cursor).
     and_then (usize_from_u64 v) (\<lambda>len.
     and_then (take_field bs cursor len) (\<lambda>(field, _). Inr field)))"

section \<open>LEB128: encoder and reader agree\<close>

subsection \<open>Bits and arithmetic\<close>

lemma unat_and_7f: "unat (v AND 0x7f :: u64) = unat v mod 128"
proof -
  have "v AND 0x7f = take_bit 7 v" by (simp add: take_bit_eq_mask mask_eq_exp_minus_1)
  then show ?thesis by (simp only: unsigned_take_bit_eq) (simp add: take_bit_eq_mod)
qed

lemma unat_and_7f_byte: "unat (b AND 0x7f :: byte) = unat b mod 128"
proof -
  have "b AND 0x7f = take_bit 7 b" by (simp add: take_bit_eq_mask mask_eq_exp_minus_1)
  then show ?thesis by (simp only: unsigned_take_bit_eq) (simp add: take_bit_eq_mod)
qed

lemma byte_high_bit: "(b :: byte) AND 0x80 = 0 \<longleftrightarrow> unat b < 128"
proof -
  have "b AND 0x80 = 0 \<longleftrightarrow> \<not> bit b 7"
    using and_exp_eq_0_iff_not_bit [of b 7] by simp
  also have "bit b 7 \<longleftrightarrow> bit (unat b) 7"
    by (simp add: bit_unsigned_iff)
  also have "bit (unat b) 7 \<longleftrightarrow> odd (unat b div 128)"
    by (simp add: bit_iff_odd)
  also have "odd (unat b div 128) \<longleftrightarrow> \<not> unat b < 128"
  proof (cases "unat b < 128")
    case False
    moreover have "unat b < 256" using unsigned_less [of b] by simp
    ultimately have "unat b div 128 = 1" by (intro div_nat_eqI) auto
    with False show ?thesis by simp
  qed simp
  finally show ?thesis by simp
qed

lemma byte_or_80: "unat (b :: byte) < 128 \<Longrightarrow> b OR 0x80 = b + 0x80"
  by (simp add: disjunctive_add_eq_or byte_high_bit)

lemma unat_or_push:
  fixes v p :: u64
  assumes "unat v < 2 ^ s" and "unat v + unat p * 2 ^ s < 2 ^ 64"
  shows "unat (v OR push_bit s p) = unat v + unat p * 2 ^ s"
proof -
  have v: "take_bit s v = v"
    using assms(1) by (simp add: word_unat_eq_iff unsigned_take_bit_eq take_bit_nat_eq_self)
  have "take_bit s v AND push_bit s p = 0"
    by (auto simp: bit_eq_iff bit_simps)
  then have "v OR push_bit s p = v + push_bit s p"
    using v by (simp add: disjunctive_add_eq_or)
  moreover have "unat (push_bit s p) = unat p * 2 ^ s"
    using assms(2) by (simp only: unsigned_push_bit_eq)
      (simp add: push_bit_eq_mult take_bit_nat_eq_self)
  ultimately show ?thesis
    using assms(2) by (simp add: unat_word_ariths)
qed

subsection \<open>The encoder over natural numbers\<close>

text \<open>\<open>uleb_pad k n\<close>: the \<open>k\<close>-byte LEB128 form of \<open>n\<close>, minimal or not.\<close>

fun uleb_pad :: "nat \<Rightarrow> nat \<Rightarrow> bytes" where
  "uleb_pad 0 n = []"
| "uleb_pad (Suc 0) n = [of_nat n]"
| "uleb_pad (Suc (Suc k)) n = of_nat (n mod 128 + 128) # uleb_pad (Suc k) (n div 128)"

fun uleb_size :: "nat \<Rightarrow> nat" where
  "uleb_size n = (if n < 128 then 1 else Suc (uleb_size (n div 128)))"

declare uleb_size.simps [simp del]

abbreviation uleb_nat :: "nat \<Rightarrow> bytes" where
  "uleb_nat n \<equiv> uleb_pad (uleb_size n) n"

lemma length_uleb_pad [simp]: "length (uleb_pad k n) = k"
  by (induction k n rule: uleb_pad.induct) auto

lemma uleb_size_pos [simp]: "0 < uleb_size n"
  by (subst uleb_size.simps) simp

lemma uleb_nat_unfold:
  "uleb_nat n = (if n < 128 then [of_nat n] else of_nat (n mod 128 + 128) # uleb_nat (n div 128))"
proof (cases "n < 128")
  case False
  then have "uleb_size n = Suc (uleb_size (n div 128))" by (subst uleb_size.simps) simp
  moreover obtain k where "uleb_size (n div 128) = Suc k"
    using uleb_size_pos gr0_conv_Suc by blast
  ultimately show ?thesis using False by simp
qed (simp add: uleb_size.simps [of n])

lemma uleb_len_eq: "uleb_len v = uleb_size (unat v)"
proof (induction v rule: uleb_len.induct)
  case (1 v)
  then show ?case
    by (subst uleb_len.simps, subst uleb_size.simps) (auto simp: word_le_nat_alt)
qed

lemma low_byte: "ucast (v AND 0x7f :: u64) = (of_nat (unat v mod 128) :: byte)"
  by (metis of_nat_unat unat_and_7f)

lemma put_uleb_eq: "put_uleb v out = out @ uleb_nat (unat v)"
proof (induction v out rule: put_uleb.induct)
  case (1 v out)
  have or: "(of_nat (unat v mod 128) :: byte) OR 0x80 = of_nat (unat v mod 128 + 128)"
    by (subst byte_or_80) (simp_all add: unat_of_nat)
  show ?case
  proof (cases "unat v < 128")
    case True
    then show ?thesis
      by (subst put_uleb.simps) (simp add: Let_def drop_bit_7_eq_0_iff low_byte uleb_nat_unfold [of "unat v"])
  next
    case False
    then show ?thesis
      by (subst put_uleb.simps, subst uleb_nat_unfold)
        (simp add: Let_def drop_bit_7_eq_0_iff low_byte or 1 del: of_nat_add)
  qed
qed

lemma uleb_bytes_eq: "uleb_bytes v = uleb_nat (unat v)"
  by (simp add: uleb_bytes_def put_uleb_eq)

subsection \<open>The reader\<close>

lemma uleb_pad_byte:
  "uleb_pad (Suc k) n = (if k = 0 then [of_nat n] else of_nat (n mod 128 + 128) # uleb_pad k (n div 128))"
  by (cases k) auto

lemma high_byte: "unat (of_nat (n mod 128 + 128) :: byte) = n mod 128 + 128"
proof -
  have "n mod 128 + 128 < 256" using mod_less_divisor [of 128 n] by linarith
  then show ?thesis by (simp only: unat_of_nat) simp
qed

text \<open>One round of the loop at byte \<open>b\<close>, its effect on the accumulated value.\<close>

lemma payload: "unat (ucast (b AND 0x7f :: byte) :: u64) = unat b mod 128"
proof -
  have "unat b mod 128 < 128" by simp
  also have "\<dots> < (2::nat) ^ 64" by simp
  finally have "unat b mod 128 < 2 ^ 64" .
  then show ?thesis by (simp only: unsigned_ucast_eq unat_and_7f_byte) (simp add: take_bit_nat_eq_self)
qed

lemma pow128: "(2::nat) ^ (7 * i) = 128 ^ i"
  by (simp add: power_mult)

abbreviation shifts_from :: "nat \<Rightarrow> nat list" where
  "shifts_from i \<equiv> map ((*) 7) [i..<10]"

lemma shifts_from_Suc: "i < 10 \<Longrightarrow> shifts_from i = 7 * i # shifts_from (Suc i)"
  by (simp add: upt_conv_Cons)

lemma read_uleb_loop_step:
  assumes "i < 10" "unat v < 128 ^ i" "drop cursor bs = b # rest"
  shows "read_uleb_loop bs start (shifts_from i) cursor v =
    (let t = unat v + unat b mod 128 * 128 ^ i in
     if 2 ^ 64 \<le> t then Inl (Corrupt ''LCE1 ULEB128 overflows u64'')
     else if unat b < 128
       then (if cursor + 1 - start \<noteq> uleb_size t
             then Inl (Corrupt ''LCE1 ULEB128 is not minimally encoded'')
             else Inr (of_nat t, cursor + 1))
     else read_uleb_loop bs start (shifts_from (Suc i)) (cursor + 1) (of_nat t))"
proof -
  let ?p = "ucast (b AND 0x7f) :: u64" and ?t = "unat v + unat b mod 128 * 128 ^ i"
  from assms(3) have b: "cursor < length bs" "bs ! cursor = b"
    by (auto dest: drop_eq_ConsD)
  have overflow: "(7 * i = 63 \<and> ?p > 1) \<longleftrightarrow> 2 ^ 64 \<le> ?t"
  proof (cases "i = 9")
    case True
    have "?p > 1 \<longleftrightarrow> 2 \<le> unat b mod 128"
      by (simp only: word_less_nat_alt payload) auto
    moreover have "2 \<le> m \<longleftrightarrow> 2 ^ 64 \<le> unat v + m * 128 ^ 9" for m :: nat
    proof
      assume "2 \<le> m"
      then have "2 * 128 ^ 9 \<le> m * 128 ^ 9" by (rule mult_right_mono) simp
      then show "2 ^ 64 \<le> unat v + m * 128 ^ 9" by simp
    next
      assume le: "2 ^ 64 \<le> unat v + m * 128 ^ 9"
      show "2 \<le> m"
      proof (rule ccontr)
        assume "\<not> 2 \<le> m"
        then have "m * 128 ^ 9 \<le> 1 * 128 ^ 9" by (intro mult_right_mono) auto
        with le assms(2) True show False by simp
      qed
    qed
    ultimately show ?thesis using True by simp
  next
    case False
    then have "i \<le> 8" using assms(1) by simp
    have "?t < 128 ^ i + 127 * 128 ^ i"
      using assms(2) by (intro add_less_le_mono mult_right_mono) auto
    also have "\<dots> = 128 ^ Suc i" by simp
    also have "\<dots> \<le> 128 ^ 9" using \<open>i \<le> 8\<close> by (intro power_increasing) auto
    finally have "?t < 2 ^ 64" by simp
    with False show ?thesis by simp
  qed
  have "unat (v OR push_bit (7 * i) ?p) = ?t" if "?t < 2 ^ 64"
    using unat_or_push [of v "7 * i" ?p] that assms(2) by (simp add: payload pow128)
  then have acc: "v OR push_bit (7 * i) ?p = of_nat ?t" if "?t < 2 ^ 64"
    using that by (metis of_nat_unat ucast_id)
  have unfold: "read_uleb_loop bs start (shifts_from i) cursor v =
    (if 7 * i = 63 \<and> ?p > 1 then Inl (Corrupt ''LCE1 ULEB128 overflows u64'')
     else let v' = v OR push_bit (7 * i) ?p in
       if unat b < 128
       then (if cursor + 1 - start \<noteq> uleb_len v'
             then Inl (Corrupt ''LCE1 ULEB128 is not minimally encoded'') else Inr (v', cursor + 1))
       else read_uleb_loop bs start (shifts_from (Suc i)) (cursor + 1) v')"
    using b by (simp add: shifts_from_Suc [OF assms(1)] byte_high_bit Let_def)
  show ?thesis
  proof (cases "2 ^ 64 \<le> ?t")
    case True
    then show ?thesis by (simp only: unfold overflow Let_def if_True)
  next
    case False
    then have less: "?t < 2 ^ 64" by simp
    then have sz: "uleb_len (of_nat ?t) = uleb_size ?t"
      by (simp only: uleb_len_eq unat_of_nat) simp
    from False show ?thesis
      by (simp only: unfold overflow acc [OF less] sz Let_def if_False)
  qed
qed

lemma read_uleb_loop_pad:
  assumes "drop cursor bs = uleb_pad k m @ rest" "0 < k" "m < 128 ^ k" "i + k \<le> 10"
    "unat v < 128 ^ i" "unat v + m * 128 ^ i < 2 ^ 64"
  shows "read_uleb_loop bs start (shifts_from i) cursor v =
    (let t = unat v + m * 128 ^ i in
     if cursor + k - start \<noteq> uleb_size t
     then Inl (Corrupt ''LCE1 ULEB128 is not minimally encoded'') else Inr (of_nat t, cursor + k))"
  using assms
proof (induction k arbitrary: cursor m i v)
  case (Suc k)
  have i: "i < 10" using Suc.prems by simp
  show ?case
  proof (cases "k = 0")
    case True
    then have b: "drop cursor bs = of_nat m # rest" and m: "m < 128"
      using Suc.prems by (simp_all add: uleb_pad_byte)
    have "unat (of_nat m :: byte) = m" using m by (simp add: unat_of_nat)
    then show ?thesis
      using read_uleb_loop_step [OF i Suc.prems(5) b, of start] Suc.prems(6) True m
      by (simp add: Let_def not_le)
  next
    case False
    let ?b = "of_nat (m mod 128 + 128) :: byte" and ?v = "of_nat (unat v + m mod 128 * 128 ^ i) :: u64"
    have b: "drop cursor bs = ?b # uleb_pad k (m div 128) @ rest"
      using Suc.prems(1) False by (simp add: uleb_pad_byte)
    have le: "unat v + m mod 128 * 128 ^ i \<le> unat v + m * 128 ^ i"
      by (intro add_left_mono mult_right_mono) simp_all
    with Suc.prems(6) have less: "unat v + m mod 128 * 128 ^ i < 2 ^ 64" by linarith
    then have v: "unat ?v = unat v + m mod 128 * 128 ^ i"
      by (simp only: unat_of_nat) simp
    have "unat v + m mod 128 * 128 ^ i < 128 ^ i + 127 * 128 ^ i"
      using Suc.prems(5) by (intro add_less_le_mono mult_right_mono) auto
    then have v_less: "unat ?v < 128 ^ Suc i" using v by simp
    have split: "m mod 128 * 128 ^ i + (m div 128) * 128 ^ Suc i = m * 128 ^ i"
    proof -
      have "m * 128 ^ i = (m div 128 * 128 + m mod 128) * 128 ^ i" by (simp only: div_mult_mod_eq)
      then show ?thesis by (simp only: distrib_right power_Suc mult.assoc add.commute)
    qed
    have step: "read_uleb_loop bs start (shifts_from i) cursor v =
        read_uleb_loop bs start (shifts_from (Suc i)) (cursor + 1) ?v"
    proof -
      have "unat ?b mod 128 = m mod 128" "\<not> unat ?b < 128" by (simp_all only: high_byte) simp_all
      then show ?thesis
        using less by (simp only: read_uleb_loop_step [OF i Suc.prems(5) b] Let_def not_le [symmetric] if_False)
    qed
    have "drop (cursor + 1) bs = uleb_pad k (m div 128) @ rest"
      using b by (auto dest: drop_eq_ConsD)
    moreover have "m div 128 < 128 ^ k"
      using Suc.prems(3) by (simp add: less_mult_imp_div_less mult.commute)
    ultimately have "read_uleb_loop bs start (shifts_from (Suc i)) (cursor + 1) ?v =
      (let t = unat ?v + (m div 128) * 128 ^ Suc i in
       if cursor + 1 + k - start \<noteq> uleb_size t
       then Inl (Corrupt ''LCE1 ULEB128 is not minimally encoded'') else Inr (of_nat t, cursor + 1 + k))"
      using Suc.prems False v_less v split by (intro Suc.IH) (simp_all add: add.assoc)
    then show ?thesis unfolding step using v split by (simp add: Let_def add.assoc)
  qed
qed simp

lemma uleb_size_bound: "n < 128 ^ uleb_size n"
proof (induction n rule: uleb_size.induct)
  case (1 n)
  show ?case
  proof (cases "n < 128")
    case False
    have "n < 128 * (n div 128 + 1)" by simp
    also have "\<dots> \<le> 128 * 128 ^ uleb_size (n div 128)"
      using "1" [OF False] by (intro mult_left_mono) auto
    finally show ?thesis using False by (subst uleb_size.simps) simp
  qed (simp add: uleb_size.simps)
qed

lemma uleb_size_le: "n < 128 ^ k \<Longrightarrow> 0 < k \<Longrightarrow> uleb_size n \<le> k"
proof (induction k arbitrary: n)
  case (Suc k)
  show ?case
  proof (cases "n < 128")
    case False
    then have "k \<noteq> 0" using Suc.prems(1) by (cases k) auto
    moreover have "n div 128 < 128 ^ k" using Suc.prems(1) by (simp add: less_mult_imp_div_less mult.commute)
    ultimately have "uleb_size (n div 128) \<le> k" using Suc.IH by simp
    then show ?thesis using False by (subst uleb_size.simps) simp
  qed (simp add: uleb_size.simps)
qed simp

lemma uleb_size_u64: "n < 2 ^ 64 \<Longrightarrow> uleb_size n \<le> 10"
  by (rule uleb_size_le) (simp_all add: order.strict_trans)

lemma read_uleb_put:
  assumes "drop cursor bs = uleb_bytes v @ rest"
  shows "read_uleb bs cursor = Inr (v, cursor + uleb_len v)"
proof -
  have "read_uleb_loop bs cursor (shifts_from 0) cursor 0 =
     (let t = unat (0 :: u64) + unat v * 128 ^ 0 in
      if cursor + uleb_size (unat v) - cursor \<noteq> uleb_size t
      then Inl (Corrupt ''LCE1 ULEB128 is not minimally encoded'')
      else Inr (of_nat t, cursor + uleb_size (unat v)))"
    using assms unsigned_less [of v, where 'a = nat]
    by (intro read_uleb_loop_pad) (simp_all add: uleb_bytes_eq uleb_size_bound uleb_size_u64)
  moreover have "shifts_from 0 = [0, 7, 14, 21, 28, 35, 42, 49, 56, 63]"
    by (simp add: upt_rec)
  ultimately show ?thesis
    by (simp add: read_uleb_def uleb_len_eq)
qed

lemma byte_split: "128 \<le> unat (b :: byte) \<Longrightarrow> of_nat (unat b mod 128 + 128) = b"
proof -
  assume hi: "128 \<le> unat b"
  have "unat b < 256" using unsigned_less [of b, where 'a = nat] by simp
  then have "(unat b - 128) mod 128 = unat b - 128" by simp
  with hi have "unat b mod 128 + 128 = unat b" by (simp add: le_mod_geq)
  then show ?thesis by (metis of_nat_unat ucast_id)
qed

lemma read_uleb_loop_sound:
  assumes "read_uleb_loop bs start (shifts_from i) cursor v = Inr (r, c)" "unat v < 128 ^ i" "i \<le> 10"
  shows "\<exists>k m rest. 0 < k \<and> m < 128 ^ k \<and> drop cursor bs = uleb_pad k m @ rest \<and> c = cursor + k
    \<and> unat v + m * 128 ^ i < 2 ^ 64 \<and> r = of_nat (unat v + m * 128 ^ i)
    \<and> c - start = uleb_size (unat v + m * 128 ^ i)"
  using assms
proof (induction "10 - i" arbitrary: i cursor v)
  case 0
  then show ?case by simp
next
  case (Suc j)
  then have i: "i < 10" by simp
  have "cursor < length bs"
    using Suc.prems(1) i by (auto simp: shifts_from_Suc split: if_splits)
  then obtain b rest where b: "drop cursor bs = b # rest" by (metis Cons_nth_drop_Suc)
  define t where "t = unat v + unat b mod 128 * 128 ^ i"
  note step = read_uleb_loop_step [OF i Suc.prems(2) b, of start, folded t_def, unfolded Let_def]
  have t: "t < 2 ^ 64"
    using Suc.prems(1) step by (auto split: if_splits)
  have t': "unat (of_nat t :: u64) = t" using t by (simp only: unat_of_nat) simp
  show ?case
  proof (cases "unat b < 128")
    case True
    then have "drop cursor bs = uleb_pad 1 (unat b) @ rest" "t = unat v + unat b * 128 ^ i"
      using b by (simp_all add: t_def)
    then show ?thesis
      using Suc.prems(1) step t True
      by (intro exI [of _ 1] exI [of _ "unat b"] exI [of _ rest]) (auto split: if_splits)
  next
    case False
    have "t < 128 ^ i + 127 * 128 ^ i"
      unfolding t_def using Suc.prems(2) by (intro add_less_le_mono mult_right_mono) auto
    then have "unat (of_nat t :: u64) < 128 ^ Suc i" using t' by simp
    moreover have "read_uleb_loop bs start (shifts_from (Suc i)) (cursor + 1) (of_nat t) = Inr (r, c)"
      using Suc.prems(1) step t False by (simp split: if_splits)
    moreover have "j = 10 - Suc i" "Suc i \<le> 10" using Suc.hyps(2) i by simp_all
    ultimately obtain k m rest' where k: "0 < k" "m < 128 ^ k"
      "drop (cursor + 1) bs = uleb_pad k m @ rest'" "c = cursor + 1 + k"
      "t + m * 128 ^ Suc i < 2 ^ 64" "r = of_nat (t + m * 128 ^ Suc i)"
      "c - start = uleb_size (t + m * 128 ^ Suc i)"
      using Suc.hyps(1) [of "Suc i" "cursor + 1" "of_nat t"] unfolding t' by blast
    define m' where "m' = unat b mod 128 + 128 * m"
    have sum: "t + m * 128 ^ Suc i = unat v + m' * 128 ^ i"
      by (simp add: t_def m'_def algebra_simps)
    have m': "m' mod 128 = unat b mod 128" "m' div 128 = m" by (simp_all add: m'_def)
    have "m' < 128 * (m + 1)" by (simp add: m'_def)
    also have "\<dots> \<le> 128 ^ Suc k" using k(2) by simp
    finally have "m' < 128 ^ Suc k" .
    moreover have "drop cursor bs = uleb_pad (Suc k) m' @ rest'"
    proof -
      have "rest = uleb_pad k m @ rest'" using b k(3) by (auto dest: drop_eq_ConsD)
      then show ?thesis using b k(1) m' False byte_split [of b] by (simp only: uleb_pad_byte) simp
    qed
    moreover have "0 < Suc k" "c = cursor + Suc k" using k(4) by simp_all
    ultimately show ?thesis using k(5-7) unfolding sum by blast
  qed
qed

lemma read_uleb_sound:
  assumes "read_uleb bs cursor = Inr (v, c)"
  shows "c = cursor + uleb_len v \<and> c \<le> length bs \<and> drop cursor bs = uleb_bytes v @ drop c bs"
proof -
  have sh: "shifts_from 0 = [0, 7, 14, 21, 28, 35, 42, 49, 56, 63]" by (simp add: upt_rec)
  obtain k m rest where k: "0 < k" "m < 128 ^ k" "drop cursor bs = uleb_pad k m @ rest"
    "c = cursor + k" "m < 2 ^ 64" "v = of_nat m" "k = uleb_size m"
    using read_uleb_loop_sound [of bs cursor 0 cursor 0 v c] assms by (auto simp: read_uleb_def sh)
  have m: "unat v = m" using k(5,6) by (simp only: unat_of_nat) simp
  have "drop c bs = rest" using k(3,4) by (metis append_eq_conv_conj drop_drop add.commute length_uleb_pad)
  moreover have "c \<le> length bs"
    using k(1,3,4) by (metis append_is_Nil_conv drop_all le_cases length_drop length_append length_uleb_pad
      le_add1 le_diff_conv2 add.commute less_numeral_extra(3) list.size(3) nat_le_linear)
  ultimately show ?thesis using k m by (simp add: uleb_len_eq uleb_bytes_eq)
qed
section \<open>Fixed-width integers\<close>

lemma length_le_bytes [simp]: "length (le_bytes n v) = n"
  by (induction n arbitrary: v) auto

lemma le_value_le_bytes: "le_value (le_bytes n v) = v mod 256 ^ n"
proof (induction n arbitrary: v)
  case (Suc n)
  have "unat (of_nat (v mod 256) :: byte) = v mod 256" by (simp only: unat_of_nat) simp
  with Suc show ?case
    by (simp only: le_bytes.simps le_value.simps power_Suc mod_mult2_eq)
qed simp

lemma le_value_less: "le_value bs < 256 ^ length bs"
proof (induction bs)
  case (Cons b bs)
  have "unat b < 256" using unsigned_less [of b, where 'a = nat] by simp
  then have "unat b + 256 * le_value bs < 256 * (le_value bs + 1)" by simp
  also have "\<dots> \<le> 256 * 256 ^ length bs" using Cons.IH by (intro mult_left_mono) auto
  finally show ?case by simp
qed simp

lemma le_bytes_le_value: "le_bytes (length bs) (le_value bs) = bs"
proof (induction bs)
  case (Cons b bs)
  have b: "unat b < 256" using unsigned_less [of b, where 'a = nat] by simp
  then have "(unat b + 256 * le_value bs) mod 256 = unat b" "(unat b + 256 * le_value bs) div 256 = le_value bs"
    by simp_all
  then show ?case using Cons.IH by simp
qed simp

lemma length_int_bytes [simp]:
  "length (i64_bytes v) = 8" "length (i32_bytes w) = 4" "length (u64_bytes x) = 8" "length (u32_bytes y) = 4"
  by (simp_all add: i64_bytes_def i32_bytes_def u64_bytes_def u32_bytes_def)

lemma i64_from_le_bytes: "in_i64 v \<Longrightarrow> i64_from_le (i64_bytes v) = v"
proof -
  assume v: "in_i64 v"
  have "le_value (i64_bytes v) = nat (v mod 2 ^ 64) mod 256 ^ 8"
    by (simp only: i64_bytes_def le_value_le_bytes)
  moreover have "nat (v mod 2 ^ 64) < 256 ^ 8" by simp
  ultimately have n: "int (le_value (i64_bytes v)) = v mod 2 ^ 64" by simp
  show ?thesis
  proof (cases "0 \<le> v")
    case True
    then have "v mod 2 ^ 64 = v" using v by (simp add: in_i64_def)
    then show ?thesis using n v by (simp add: i64_from_le_def in_i64_def)
  next
    case False
    have "v mod 2 ^ 64 = (v + 2 ^ 64) mod 2 ^ 64" by simp
    also have "\<dots> = v + 2 ^ 64" using v False by (intro mod_pos_pos_trivial) (auto simp: in_i64_def)
    finally show ?thesis using n v by (simp add: i64_from_le_def in_i64_def)
  qed
qed

lemma i32_from_le_bytes: "in_i32 v \<Longrightarrow> i32_from_le (i32_bytes v) = v"
proof -
  assume v: "in_i32 v"
  have "le_value (i32_bytes v) = nat (v mod 2 ^ 32) mod 256 ^ 4"
    by (simp only: i32_bytes_def le_value_le_bytes)
  moreover have "nat (v mod 2 ^ 32) < 256 ^ 4" by simp
  ultimately have n: "int (le_value (i32_bytes v)) = v mod 2 ^ 32" by simp
  show ?thesis
  proof (cases "0 \<le> v")
    case True
    then have "v mod 2 ^ 32 = v" using v by (simp add: in_i32_def)
    then show ?thesis using n v by (simp add: i32_from_le_def in_i32_def)
  next
    case False
    have "v mod 2 ^ 32 = (v + 2 ^ 32) mod 2 ^ 32" by simp
    also have "\<dots> = v + 2 ^ 32" using v False by (intro mod_pos_pos_trivial) (auto simp: in_i32_def)
    finally show ?thesis using n v by (simp add: i32_from_le_def in_i32_def)
  qed
qed

lemma in_i64_from_le: "length bs = 8 \<Longrightarrow> in_i64 (i64_from_le bs)"
  using le_value_less [of bs] by (auto simp: i64_from_le_def in_i64_def Let_def)

lemma in_i32_from_le: "length bs = 4 \<Longrightarrow> in_i32 (i32_from_le bs)"
  using le_value_less [of bs] by (auto simp: i32_from_le_def in_i32_def Let_def)

lemma u64_value_bytes: "of_nat (le_value (u64_bytes v)) = v"
proof -
  have "unat v < 256 ^ 8" using unsigned_less [of v, where 'a = nat] by simp
  then show ?thesis by (simp add: u64_bytes_def le_value_le_bytes)
qed

lemma u32_value_bytes: "of_nat (le_value (u32_bytes v)) = v"
proof -
  have "unat v < 256 ^ 4" using unsigned_less [of v, where 'a = nat] by simp
  then show ?thesis by (simp add: u32_bytes_def le_value_le_bytes)
qed

lemma u64_bytes_value: "length bs = 8 \<Longrightarrow> u64_bytes (of_nat (le_value bs)) = bs"
proof -
  assume l: "length bs = 8"
  have "unat (of_nat (le_value bs) :: u64) = le_value bs"
    using le_value_less [of bs] l by (simp only: unat_of_nat) simp
  then show ?thesis using le_bytes_le_value [of bs] l by (simp add: u64_bytes_def)
qed

lemma u32_bytes_value: "length bs = 4 \<Longrightarrow> u32_bytes (of_nat (le_value bs)) = bs"
proof -
  assume l: "length bs = 4"
  have "unat (of_nat (le_value bs) :: u32) = le_value bs"
    using le_value_less [of bs] l by (simp only: unat_of_nat) simp
  then show ?thesis using le_bytes_le_value [of bs] l by (simp add: u32_bytes_def)
qed

lemma decode_int_bytes [simp, codec_simps]:
  "in_i64 v \<Longrightarrow> decode_i64 (i64_bytes v) = Inr v"
  "in_i32 w \<Longrightarrow> decode_i32 (i32_bytes w) = Inr w"
  "decode_u64 (u64_bytes x) = Inr x"
  "decode_u32 (u32_bytes y) = Inr y"
  by (simp_all add: decode_i64_def decode_i32_def decode_u64_def decode_u32_def fixed_def
      i64_from_le_bytes i32_from_le_bytes u64_value_bytes u32_value_bytes)

lemma i64_bytes_inject: "in_i64 v \<Longrightarrow> in_i64 w \<Longrightarrow> i64_bytes v = i64_bytes w \<Longrightarrow> v = w"
  by (metis i64_from_le_bytes)

lemma canonical_f64_idem [simp]: "canonical_f64_bits (canonical_f64_bits b) = canonical_f64_bits b"
  by (simp add: canonical_f64_bits_def)

lemma canonical_f32_idem [simp]: "canonical_f32_bits (canonical_f32_bits b) = canonical_f32_bits b"
  by (simp add: canonical_f32_bits_def)


section \<open>Records: shape, injectivity, reading\<close>

definition enc_field :: "bytes \<Rightarrow> bytes" where
  "enc_field f = uleb_bytes (of_nat (length f)) @ f"

abbreviation enc_fields :: "bytes list \<Rightarrow> bytes" where
  "enc_fields fs \<equiv> concat (map enc_field fs)"

text \<open>Lengths fit \<^verbatim>\<open>usize\<close>, as every Rust slice length does.\<close>

definition short :: "'a list \<Rightarrow> bool" where
  "short xs \<longleftrightarrow> length xs \<le> usize_max"

lemma put_uleb_append: "put_uleb v out = out @ uleb_bytes v"
  by (simp add: put_uleb_eq uleb_bytes_eq)

lemma length_uleb_bytes [simp]: "length (uleb_bytes v) = uleb_len v"
  by (simp add: uleb_bytes_eq uleb_len_eq)

lemma fold_put_field: "fold put_field fs out = out @ enc_fields fs"
  by (induction fs arbitrary: out) (simp_all add: put_field_def put_len_def put_uleb_append enc_field_def)

lemma lce1_record_eq:
  "lce1_record d fs = MAGIC @ enc_field d @ uleb_bytes (of_nat (length fs)) @ enc_fields fs"
  by (simp add: lce1_record_def fold_put_field put_len_def put_uleb_append enc_field_def)

lemma encode_counted_eq: "encode_counted items = uleb_bytes (of_nat (length items)) @ enc_fields items"
  by (simp add: encode_counted_def fold_put_field put_len_def put_uleb_append)

lemma uleb_bytes_prefix_free: "uleb_bytes a @ x = uleb_bytes b @ y \<Longrightarrow> a = b \<and> x = y"
proof -
  assume eq: "uleb_bytes a @ x = uleb_bytes b @ y"
  have "read_uleb (uleb_bytes a @ x) 0 = Inr (a, uleb_len a)"
    "read_uleb (uleb_bytes a @ x) 0 = Inr (b, uleb_len b)"
    using read_uleb_put [of 0 "uleb_bytes a @ x" a x] read_uleb_put [of 0 "uleb_bytes a @ x" b y] eq by simp_all
  then show ?thesis using eq by simp
qed

lemma unat_of_short: "short xs \<Longrightarrow> unat (of_nat (length xs) :: u64) = length xs"
  by (simp only: unat_of_nat) (simp add: short_def usize_max_def)

lemma of_nat_length_inject:
  "short xs \<Longrightarrow> short ys \<Longrightarrow> (of_nat (length xs) :: u64) = of_nat (length ys) \<Longrightarrow> length xs = length ys"
  by (metis unat_of_short)

lemma enc_field_prefix_free:
  "short f \<Longrightarrow> short g \<Longrightarrow> enc_field f @ x = enc_field g @ y \<Longrightarrow> f = g \<and> x = y"
  using uleb_bytes_prefix_free [of "of_nat (length f)" "f @ x" "of_nat (length g)" "g @ y"]
    of_nat_length_inject [of f g]
  by (simp add: enc_field_def)

lemma enc_fields_inject:
  "length fs = length gs \<Longrightarrow> \<forall>f \<in> set fs. short f \<Longrightarrow> \<forall>g \<in> set gs. short g \<Longrightarrow>
   enc_fields fs @ x = enc_fields gs @ y \<Longrightarrow> fs = gs \<and> x = y"
proof (induction fs gs rule: list_induct2)
  case (Cons f fs g gs)
  then show ?case using enc_field_prefix_free [of f g "enc_fields fs @ x" "enc_fields gs @ y"] by auto
qed simp

lemma lce1_record_inject:
  assumes "short d" "short e" "short fs" "short gs"
    and "\<forall>f \<in> set fs. short f" "\<forall>g \<in> set gs. short g"
    and "lce1_record d fs = lce1_record e gs"
  shows "d = e \<and> fs = gs"
proof -
  have "enc_field d @ uleb_bytes (of_nat (length fs)) @ enc_fields fs =
        enc_field e @ uleb_bytes (of_nat (length gs)) @ enc_fields gs"
    using assms(7) by (simp add: lce1_record_eq)
  then have de: "d = e" and "uleb_bytes (of_nat (length fs)) @ enc_fields fs = uleb_bytes (of_nat (length gs)) @ enc_fields gs"
    using enc_field_prefix_free [OF assms(1,2)] by blast+
  then have "(of_nat (length fs) :: u64) = of_nat (length gs)" "enc_fields fs @ [] = enc_fields gs @ []"
    by (auto dest: uleb_bytes_prefix_free)
  then have "fs = gs" using assms(3-6) enc_fields_inject by (metis of_nat_length_inject)
  with de show ?thesis by simp
qed

subsection \<open>Reading back\<close>

text \<open>A reader positioned before the encoded fields \<open>fs\<close>, followed by \<open>rest\<close>.\<close>

definition at_fields :: "BorrowedFields \<Rightarrow> bytes list \<Rightarrow> bytes \<Rightarrow> bool" where
  "at_fields f fs rest \<longleftrightarrow> drop (bf_cursor f) (bf_bytes f) = enc_fields fs @ rest
     \<and> bf_cursor f \<le> length (bf_bytes f) \<and> bf_remaining f = length fs
     \<and> length (bf_bytes f) \<le> usize_max"

lemma usize_from_u64_ok [simp]: "usize_from_u64 v = Inr (unat v)"
  using unsigned_less [of v, where 'a = nat] by (auto simp: usize_from_u64_def usize_max_def)

lemma read_take_field:
  assumes "drop c bs = enc_field x @ rest" "length bs \<le> usize_max" "c \<le> length bs"
  shows "read_uleb bs c = Inr (of_nat (length x), c + uleb_len (of_nat (length x)))"
    "take_field bs (c + uleb_len (of_nat (length x))) (unat (of_nat (length x) :: u64))
       = Inr (x, c + length (enc_field x))"
    "drop (c + length (enc_field x)) bs = rest" "c + length (enc_field x) \<le> length bs"
proof -
  have len: "length bs - c = length (enc_field x) + length rest"
    using arg_cong [OF assms(1), of length] by simp
  then show le: "c + length (enc_field x) \<le> length bs" using assms(3) by linarith
  have x: "short x" using len assms(2) by (simp add: short_def enc_field_def)
  show "read_uleb bs c = Inr (of_nat (length x), c + uleb_len (of_nat (length x)))"
    using assms(1) by (intro read_uleb_put [of _ _ _ "x @ rest"]) (simp add: enc_field_def)
  have "drop (c + uleb_len (of_nat (length x))) bs = x @ rest"
    using assms(1) by (simp add: enc_field_def drop_plus del: drop_drop)
  then show "take_field bs (c + uleb_len (of_nat (length x))) (unat (of_nat (length x) :: u64))
       = Inr (x, c + length (enc_field x))"
    using le assms(2) by (simp add: take_field_def unat_of_short [OF x] enc_field_def)
  show "drop (c + length (enc_field x)) bs = rest"
    using assms(1) by (simp add: drop_plus del: drop_drop)
qed

lemma next_field_at:
  assumes "at_fields f (x # fs) rest"
  shows "\<exists>f'. next_field f = Inr (Some x, f') \<and> at_fields f' fs rest \<and> bf_bytes f' = bf_bytes f"
proof -
  have d: "drop (bf_cursor f) (bf_bytes f) = enc_field x @ enc_fields fs @ rest"
    and l: "length (bf_bytes f) \<le> usize_max" "bf_cursor f \<le> length (bf_bytes f)"
    and r: "bf_remaining f = Suc (length fs)"
    using assms by (simp_all add: at_fields_def)
  note rt = read_take_field [OF d l]
  show ?thesis
    using rt l(1) r by (simp add: next_field_def at_fields_def)
qed

lemma next_field_end:
  assumes "at_fields f [] []"
  shows "next_field f = Inr (None, f)" "bf_finish f = Inr ()"
proof -
  have "bf_cursor f = length (bf_bytes f)" "bf_remaining f = 0"
    using assms by (auto simp: at_fields_def)
  then show "next_field f = Inr (None, f)" "bf_finish f = Inr ()"
    by (simp_all add: next_field_def bf_finish_def)
qed

lemma length_enc_fields: "length fs \<le> length (enc_fields fs)"
proof (induction fs)
  case (Cons f fs)
  have "0 < uleb_len v" for v by (simp add: uleb_len_eq)
  then have "1 \<le> length (enc_field f)" by (simp add: enc_field_def Suc_le_eq)
  with Cons show ?case by simp
qed simp

lemma fields_after_count_at:
  assumes "drop c bs = uleb_bytes (of_nat (length fs)) @ enc_fields fs @ rest"
    and "c \<le> length bs" "length bs \<le> usize_max"
  shows "\<exists>f. borrowed_fields_after_count bs c = Inr f \<and> at_fields f fs rest \<and> bf_bytes f = bs"
proof -
  let ?c = "c + uleb_len (of_nat (length fs))"
  have len: "length bs - c = uleb_len (of_nat (length fs)) + length (enc_fields fs) + length rest"
    using arg_cong [OF assms(1), of length] by simp
  then have fs: "length fs \<le> length bs - ?c" "?c \<le> length bs"
    using length_enc_fields [of fs] assms(2) by linarith+
  then have "short fs" using assms(3) by (simp add: short_def)
  moreover have "read_uleb bs c = Inr (of_nat (length fs), ?c)"
    by (rule read_uleb_put [OF assms(1)])
  moreover have "drop ?c bs = enc_fields fs @ rest"
    using assms(1) by (simp add: drop_plus del: drop_drop)
  ultimately show ?thesis
    using fs assms(3) by (simp add: borrowed_fields_after_count_def at_fields_def unat_of_short not_less)
qed

lemma borrowed_record_fields_record:
  assumes "length (lce1_record d fs) \<le> usize_max"
  shows "\<exists>f. borrowed_record_fields (lce1_record d fs) d = Inr f \<and> at_fields f fs []"
proof -
  let ?bs = "lce1_record d fs"
  have d: "drop (length MAGIC) ?bs = enc_field d @ uleb_bytes (of_nat (length fs)) @ enc_fields fs"
    "length MAGIC \<le> length ?bs"
    by (simp_all add: lce1_record_eq)
  note rt = read_take_field [OF d(1) assms d(2)]
  obtain f where "borrowed_fields_after_count ?bs (length MAGIC + length (enc_field d)) = Inr f" "at_fields f fs []"
    using fields_after_count_at [of "length MAGIC + length (enc_field d)" ?bs fs "[]"] rt(3,4) assms by auto
  then show ?thesis
    using rt by (simp add: borrowed_record_fields_def) (simp add: lce1_record_eq)
qed

lemma borrowed_counted_fields_counted:
  assumes "length (encode_counted fs) \<le> usize_max"
  shows "\<exists>f. borrowed_counted_fields (encode_counted fs) = Inr f \<and> at_fields f fs []"
  using fields_after_count_at [of 0 "encode_counted fs" fs "[]"] assms
  by (auto simp: borrowed_counted_fields_def encode_counted_eq)

lemma decode_uleb_field_bytes [simp, codec_simps]: "decode_uleb_field (uleb_bytes v) = Inr v"
  using read_uleb_put [of 0 "uleb_bytes v" v "[]"] by (simp add: decode_uleb_field_def)

section \<open>The cancellable and streaming variants\<close>

lemma snd_append_checked [simp]: "snd (append_checked out bs) = Inr (out @ bs)"
proof -
  have "fold (\<lambda>x s. s @ x) cs out = out @ concat cs" for cs and out :: bytes
    by (induction cs arbitrary: out) auto
  then show ?thesis by (simp add: append_checked_def)
qed

lemma snd_copy_bytes_checked [simp]: "snd (copy_bytes_checked bs) = Inr bs"
  by (simp add: copy_bytes_checked_def)

lemma snd_put_field_checked [simp]: "snd (put_field_checked f out) = Inr (put_field f out)"
  by (simp add: put_field_checked_def put_field_def)

lemma snd_measure_fields_ok:
  "len + length (enc_fields fs) \<le> usize_max \<Longrightarrow> snd (measure_fields fs len) = Inr (len + length (enc_fields fs))"
  unfolding measure_fields_def
  by (induction fs arbitrary: len) (auto simp: encoded_field_len_def enc_field_def)

lemma record_checked_eq:
  "snd (record_checked d fs) =
     and_then (snd (measure_fields fs (length MAGIC + length (enc_field d) + uleb_len (of_nat (length fs)))))
       (\<lambda>_. Inr (lce1_record d fs))"
  by (simp add: record_checked_def lce1_record_def enc_field_def put_len_def add.assoc res_simps)

lemma record_checked_Inr: "snd (record_checked d fs) = Inr r \<Longrightarrow> r = lce1_record d fs"
  by (auto simp: record_checked_eq)

lemma record_checked_ok:
  "length (lce1_record d fs) \<le> usize_max \<Longrightarrow> snd (record_checked d fs) = Inr (lce1_record d fs)"
  unfolding record_checked_eq by (subst snd_measure_fields_ok) (simp_all add: lce1_record_eq)

lemma encode_counted_checked_eq:
  "snd (encode_counted_checked fs) =
     and_then (snd (measure_fields fs (uleb_len (of_nat (length fs))))) (\<lambda>_. Inr (encode_counted fs))"
  by (simp add: encode_counted_checked_def encode_counted_def res_simps)

lemma encode_counted_checked_ok:
  "length (encode_counted fs) \<le> usize_max \<Longrightarrow> snd (encode_counted_checked fs) = Inr (encode_counted fs)"
  unfolding encode_counted_checked_eq by (subst snd_measure_fields_ok) (simp_all add: encode_counted_eq)

lemma encode_counted_checked_Inr: "snd (encode_counted_checked fs) = Inr r \<Longrightarrow> r = encode_counted fs"
  by (auto simp: encode_counted_checked_eq)

lemma length_chunks_cong: "length xs = length ys \<Longrightarrow> length (chunks n xs) = length (chunks n ys)"
proof (induction n xs arbitrary: ys rule: chunks.induct)
  case (1 n xs)
  have "xs = [] \<longleftrightarrow> ys = []" using "1.prems" by auto
  moreover have "\<not> (n = 0 \<or> xs = []) \<Longrightarrow> length (chunks n (drop n xs)) = length (chunks n (drop n ys))"
    using "1.prems" by (intro "1.IH") auto
  ultimately show ?case by (subst (1 2) chunks.simps) auto
qed

lemma zip_chunks_eq_iff:
  assumes "0 < n" "length xs = length ys"
  shows "(\<forall>(l, r) \<in> set (zip (chunks n xs) (chunks n ys)). l = r) \<longleftrightarrow> xs = ys"
proof
  assume all: "\<forall>(l, r) \<in> set (zip (chunks n xs) (chunks n ys)). l = r"
  have "chunks n xs = chunks n ys"
  proof (rule nth_equalityI)
    show len: "length (chunks n xs) = length (chunks n ys)" by (rule length_chunks_cong [OF assms(2)])
    fix i assume "i < length (chunks n xs)"
    then have "(chunks n xs ! i, chunks n ys ! i) \<in> set (zip (chunks n xs) (chunks n ys))"
      unfolding in_set_zip using len by (intro exI [of _ i]) simp
    from bspec [OF all this] show "chunks n xs ! i = chunks n ys ! i" by simp
  qed
  then show "xs = ys" using assms(1) by (metis concat_chunks)
qed (auto simp: set_zip)

lemma snd_equal_bytes_checked [simp]: "snd (equal_bytes_checked l r) = Inr (l = r)"
proof -
  have "fold_res (\<lambda>x same. snd ((case x of (l, r) \<Rightarrow> \<lambda>same.
      if same then chk_then check (\<lambda>_. chk_ok (l = r)) else chk_ok False) same)) ps b
    = (Inr (b \<and> (\<forall>(l, r) \<in> set ps. l = r)) :: bool res)" for ps :: "(bytes \<times> bytes) list" and b
    by (induction ps arbitrary: b) auto
  then show ?thesis
    using zip_chunks_eq_iff [of 65536 l r] by (auto simp: equal_bytes_checked_def split: if_splits)
qed

subsection \<open>Streaming\<close>

lemma uleb_array_loop_eq:
  assumes "len + uleb_size (unat v) \<le> length arr"
  shows "\<exists>arr'. uleb_array_loop v arr len = Some (arr', len + uleb_size (unat v))
     \<and> take (len + uleb_size (unat v)) arr' = take len arr @ uleb_nat (unat v)"
  using assms
proof (induction v arr len rule: uleb_array_loop.induct)
  case (1 v arr len)
  let ?b = "if drop_bit 7 v \<noteq> 0 then ucast (v AND 0x7f) OR 0x80 else ucast (v AND 0x7f) :: byte"
  have len: "len < length arr" using "1.prems" uleb_size_pos [of "unat v"] by linarith
  then have tk: "take (Suc len) (arr[len := b]) = take len arr @ [b]" for b
    by (simp add: take_Suc_conv_app_nth)
  have or: "(of_nat (unat v mod 128) :: byte) OR 0x80 = of_nat (unat v mod 128 + 128)"
    by (subst byte_or_80) (simp_all add: unat_of_nat)
  show ?case
  proof (cases "unat v < 128")
    case True
    then have "uleb_size (unat v) = 1" by (simp add: uleb_size.simps)
    with True len tk show ?thesis
      by (subst uleb_array_loop.simps) (simp add: Let_def drop_bit_7_eq_0_iff low_byte)
  next
    case False
    then have sz: "uleb_size (unat v) = Suc (uleb_size (unat v div 128))" by (simp add: uleb_size.simps)
    have "\<exists>arr'. uleb_array_loop (drop_bit 7 v) (arr[len := ?b]) (len + 1)
        = Some (arr', len + 1 + uleb_size (unat (drop_bit 7 v)))
      \<and> take (len + 1 + uleb_size (unat (drop_bit 7 v))) arr'
        = take (len + 1) (arr[len := ?b]) @ uleb_nat (unat (drop_bit 7 v))"
      by (rule "1.IH") (use False len "1.prems" sz in \<open>simp_all add: drop_bit_7_eq_0_iff\<close>)
    moreover have "uleb_array_loop v arr len = uleb_array_loop (drop_bit 7 v) (arr[len := ?b]) (len + 1)"
      using False len by (subst uleb_array_loop.simps) (simp add: Let_def drop_bit_7_eq_0_iff)
    moreover have "?b = of_nat (unat v mod 128 + 128)"
      using False by (simp add: drop_bit_7_eq_0_iff low_byte or)
    moreover have "uleb_nat (unat v) = of_nat (unat v mod 128 + 128) # uleb_nat (unat v div 128)"
      using False by (subst uleb_nat_unfold) simp
    ultimately show ?thesis using sz tk by (auto simp del: of_nat_add)
  qed
qed

lemma uleb_array_ok: "\<exists>arr. uleb_array v = Some (arr, uleb_len v) \<and> take (uleb_len v) arr = uleb_bytes v"
proof -
  have "uleb_size (unat v) \<le> 10"
    using unsigned_less [of v, where 'a = nat] by (intro uleb_size_u64) simp
  then show ?thesis
    using uleb_array_loop_eq [of 0 v "replicate 10 0"] by (auto simp: uleb_array_def uleb_len_eq uleb_bytes_eq)
qed

lemma hash_uleb_eq [simp]: "hash_uleb v h = h @ uleb_bytes v"
  using uleb_array_ok [of v] by (auto simp: hash_uleb_def)

lemma hasher_new_eq: "hasher (hasher_new d n) = MAGIC @ enc_field d @ uleb_bytes (of_nat n)"
  by (simp add: hasher_new_def enc_field_def)

lemma hasher_field_eq [simp]: "hasher (hasher_field f h) = hasher h @ enc_field f"
  by (simp add: hasher_field_def enc_field_def)

lemma snd_hasher_field_checked [simp]: "snd (hasher_field_checked f h) = Inr (hasher_field f h)"
proof -
  have "fold (\<lambda>c h. h\<lparr>hasher := hasher h @ c\<rparr>) cs h = h\<lparr>hasher := hasher h @ concat cs\<rparr>"
    for cs and h :: RecordHasher
    by (induction cs arbitrary: h) auto
  then show ?thesis by (simp add: hasher_field_checked_def hasher_field_def)
qed

lemma hasher_fold_field [simp]: "hasher (fold hasher_field fs h) = hasher h @ enc_fields fs"
  by (induction fs arbitrary: h) auto

lemma record_hasher_finish:
  "hasher_finish blake3 (fold hasher_field fs (hasher_new d (length fs))) = blake3 (lce1_record d fs)"
  by (simp add: hasher_finish_def hasher_new_eq lce1_record_eq)

lemma measure_fields_Inr:
  "snd (measure_fields fs len) = Inr n \<Longrightarrow> n = len + length (enc_fields fs) \<and> (fs = [] \<or> n \<le> usize_max)"
  unfolding measure_fields_def
proof (induction fs arbitrary: len)
  case (Cons f fs)
  then obtain l where l: "encoded_field_len len (length f) = Inr l"
    "snd (chk_fold (\<lambda>field len. chk_then check (\<lambda>_. chk_res (encoded_field_len len (length field)))) fs l) = Inr n"
    by auto
  then have "l = len + length (enc_field f)" "l \<le> usize_max"
    by (auto simp: encoded_field_len_def enc_field_def split: if_splits)
  with Cons.IH [OF l(2)] l show ?case by auto
qed simp

lemma record_checked_short:
  "snd (record_checked d fs) = Inr r \<Longrightarrow> fs \<noteq> [] \<Longrightarrow> r = lce1_record d fs \<and> length (lce1_record d fs) \<le> usize_max"
  by (auto simp: record_checked_eq lce1_record_eq dest!: measure_fields_Inr)

lemma encode_counted_checked_short:
  "snd (encode_counted_checked fs) = Inr r \<Longrightarrow> r = encode_counted fs \<and> length (encode_counted fs) \<le> usize_max"
proof -
  have "uleb_len 0 \<le> usize_max" by (simp add: uleb_len.simps usize_max_def)
  then show "snd (encode_counted_checked fs) = Inr r \<Longrightarrow> ?thesis"
    by (cases "fs = []") (auto simp: encode_counted_checked_eq encode_counted_eq dest!: measure_fields_Inr)
qed

end
