(* ===== verification/Utf8.thy ===== *)
theory Utf8
  imports Prelude
begin

text \<open>
  Text handling of the storage layer: \<^verbatim>\<open>utf8_checked\<close> (\<^verbatim>\<open>storage/value.rs\<close>) validates a byte field in
  64 KiB chunks so that cancellation stays responsive, and \<^verbatim>\<open>copy_text_checked\<close>
  (\<^verbatim>\<open>storage/property.rs\<close>) copies a string in chunks cut at character boundaries. Both lean on
  \<^verbatim>\<open>std::str::from_utf8\<close>, whose validation automaton is modelled here. What matters is that
  chunking is invisible: the chunked validator accepts exactly the valid strings, and the chunked
  copy returns its input, for every position of the chunk borders.
\<close>

section \<open>\<open>std::str::from_utf8\<close>\<close>

text \<open>
  One step of the validator at the front of the input: no input left, a character of \<open>n\<close> bytes, an
  invalid sequence (with \<^verbatim>\<open>error_len\<close>), or an input that ends inside a character.
\<close>

datatype utf8_step = Done | Char nat | Invalid nat | Truncated

definition between :: "byte \<Rightarrow> byte \<Rightarrow> byte \<Rightarrow> bool" where
  "between lo hi b \<longleftrightarrow> lo \<le> b \<and> b \<le> hi"

abbreviation continuation :: "byte \<Rightarrow> bool" where
  "continuation \<equiv> between 0x80 0xBF"

fun utf8_tail :: "(byte \<Rightarrow> bool) list \<Rightarrow> nat \<Rightarrow> bytes \<Rightarrow> utf8_step" where
  "utf8_tail [] k bs = Char k"
| "utf8_tail (p # ps) k [] = Truncated"
| "utf8_tail (p # ps) k (b # bs) = (if p b then utf8_tail ps (Suc k) bs else Invalid k)"

text \<open>The admissible continuations of a first byte (\<^verbatim>\<open>UTF8_CHAR_WIDTH\<close> and the range table).\<close>

definition utf8_follow :: "byte \<Rightarrow> (byte \<Rightarrow> bool) list option" where
  "utf8_follow b =
     (if b < 0x80 then Some []
      else if between 0xC2 0xDF b then Some [continuation]
      else if b = 0xE0 then Some [between 0xA0 0xBF, continuation]
      else if between 0xE1 0xEC b then Some [continuation, continuation]
      else if b = 0xED then Some [between 0x80 0x9F, continuation]
      else if between 0xEE 0xEF b then Some [continuation, continuation]
      else if b = 0xF0 then Some [between 0x90 0xBF, continuation, continuation]
      else if between 0xF1 0xF3 b then Some [continuation, continuation, continuation]
      else if b = 0xF4 then Some [between 0x80 0x8F, continuation, continuation]
      else None)"

fun utf8_front :: "bytes \<Rightarrow> utf8_step" where
  "utf8_front [] = Done"
| "utf8_front (b # bs) =
     (case utf8_follow b of None \<Rightarrow> Invalid 1 | Some ps \<Rightarrow> utf8_tail ps 1 bs)"

lemma utf8_tail_Char: "utf8_tail ps k bs = Char n \<Longrightarrow> n = k + length ps \<and> length ps \<le> length bs"
  by (induction ps k bs rule: utf8_tail.induct) (auto split: if_splits)

lemma utf8_front_Char: "utf8_front bs = Char n \<Longrightarrow> 0 < n \<and> n \<le> length bs \<and> n \<le> 4"
  by (cases bs) (auto simp: utf8_follow_def split: option.splits if_splits dest!: utf8_tail_Char)

record Utf8Error =
  valid_up_to :: nat
  error_len :: "nat option"

function utf8_scan :: "bytes \<Rightarrow> nat \<Rightarrow> Utf8Error option" where
  "utf8_scan bs pos =
     (case utf8_front bs of
        Done \<Rightarrow> None
      | Char n \<Rightarrow> utf8_scan (drop n bs) (pos + n)
      | Invalid k \<Rightarrow> Some \<lparr>valid_up_to = pos, error_len = Some k\<rparr>
      | Truncated \<Rightarrow> Some \<lparr>valid_up_to = pos, error_len = None\<rparr>)"
  by pat_completeness auto
termination
  by (relation "measure (\<lambda>(bs, pos). length bs)") (auto dest: utf8_front_Char)

declare utf8_scan.simps [simp del]

definition from_utf8 :: "bytes \<Rightarrow> Utf8Error + ustr" where
  "from_utf8 bs = (case utf8_scan bs 0 of None \<Rightarrow> Inr bs | Some e \<Rightarrow> Inl e)"

definition utf8_valid :: "bytes \<Rightarrow> bool" where
  "utf8_valid bs \<longleftrightarrow> utf8_scan bs 0 = None"

section \<open>Facts about the validator\<close>

lemma utf8_tail_append:
  "utf8_tail ps k xs \<noteq> Truncated \<Longrightarrow> utf8_tail ps k (xs @ ys) = utf8_tail ps k xs"
  by (induction ps k xs rule: utf8_tail.induct) auto

lemma utf8_tail_Truncated: "utf8_tail ps k bs = Truncated \<Longrightarrow> length bs < length ps"
  by (induction ps k bs rule: utf8_tail.induct) (auto split: if_splits)

lemma utf8_tail_not_Done [simp]: "utf8_tail ps k bs \<noteq> Done"
  by (induction ps k bs rule: utf8_tail.induct) auto

lemma utf8_front_Done_iff [simp]: "utf8_front bs = Done \<longleftrightarrow> bs = []"
  by (cases bs) (auto split: option.splits)

lemma utf8_front_append:
  "utf8_front xs \<noteq> Truncated \<Longrightarrow> xs \<noteq> [] \<Longrightarrow> utf8_front (xs @ ys) = utf8_front xs"
  by (cases xs) (auto split: option.splits intro: utf8_tail_append)

lemma utf8_front_Truncated: "utf8_front bs = Truncated \<Longrightarrow> length bs \<le> 3"
  by (cases bs) (auto simp: utf8_follow_def split: option.splits if_splits dest!: utf8_tail_Truncated)

text \<open>The position is only an offset of the reported error.\<close>

lemma utf8_scan_pos:
  "utf8_scan bs (p + q) = map_option (\<lambda>e. e\<lparr>valid_up_to := p + valid_up_to e\<rparr>) (utf8_scan bs q)"
proof (induction bs q rule: utf8_scan.induct)
  case (1 bs q)
  show ?case
  proof (cases "utf8_front bs")
    case (Char n)
    then show ?thesis
      using "1.IH" [OF Char] by (subst (1 2) utf8_scan.simps) (simp add: add.assoc)
  qed (auto simp: utf8_scan.simps [of bs] utf8_scan.simps [of "[]"])
qed

lemma utf8_scan_None_iff: "utf8_scan bs p = None \<longleftrightarrow> utf8_valid bs"
  using utf8_scan_pos [of bs p 0] by (simp add: utf8_valid_def)

lemma utf8_valid_Nil [simp]: "utf8_valid []"
  by (simp add: utf8_valid_def utf8_scan.simps)

lemma utf8_valid_Char: "utf8_front bs = Char n \<Longrightarrow> utf8_valid bs \<longleftrightarrow> utf8_valid (drop n bs)"
proof -
  assume "utf8_front bs = Char n"
  then have "utf8_scan bs 0 = utf8_scan (drop n bs) n" by (simp add: utf8_scan.simps [of bs])
  then show ?thesis by (metis utf8_scan_None_iff)
qed

lemma utf8_valid_cases: "utf8_valid bs \<Longrightarrow> bs = [] \<or> (\<exists>n. utf8_front bs = Char n)"
  by (cases "utf8_front bs") (auto simp: utf8_valid_def utf8_scan.simps [of bs])

lemma utf8_valid_append: "utf8_valid xs \<Longrightarrow> utf8_valid (xs @ ys) \<longleftrightarrow> utf8_valid ys"
proof (induction "length xs" arbitrary: xs rule: less_induct)
  case less
  show ?case
  proof (cases "xs = []")
    case False
    then obtain n where n: "utf8_front xs = Char n" using less.prems utf8_valid_cases by blast
    then have "utf8_front (xs @ ys) = Char n" using False by (simp add: utf8_front_append)
    moreover have "drop n (xs @ ys) = drop n xs @ ys" "length (drop n xs) < length xs"
      using utf8_front_Char [OF n] False by auto
    moreover have "utf8_valid (drop n xs)" using less.prems n by (simp add: utf8_valid_Char)
    ultimately show ?thesis using less.hyps by (simp add: utf8_valid_Char)
  qed simp
qed

text \<open>
  Where a scan stops: the prefix before the error is valid, and what follows is either a front the
  validator rejects for good or at most three bytes of an unfinished character.
\<close>

lemma utf8_scan_Some:
  assumes "utf8_scan bs 0 = Some e"
  shows "valid_up_to e < length bs \<and> utf8_valid (take (valid_up_to e) bs) \<and>
    (case error_len e of
       Some k \<Rightarrow> utf8_front (drop (valid_up_to e) bs) = Invalid k
     | None \<Rightarrow> utf8_front (drop (valid_up_to e) bs) = Truncated)"
  using assms
proof (induction "length bs" arbitrary: bs e rule: less_induct)
  case less
  show ?case
  proof (cases "utf8_front bs")
    case (Char n)
    note n = utf8_front_Char [OF Char]
    then have scan: "utf8_scan (drop n bs) n = Some e"
      using less.prems Char by (simp add: utf8_scan.simps [of bs])
    then obtain e' where e': "utf8_scan (drop n bs) 0 = Some e'" "e = e'\<lparr>valid_up_to := n + valid_up_to e'\<rparr>"
      using utf8_scan_pos [of "drop n bs" n 0] by (cases "utf8_scan (drop n bs) 0") auto
    have ih: "valid_up_to e' < length (drop n bs) \<and> utf8_valid (take (valid_up_to e') (drop n bs)) \<and>
      (case error_len e' of
         Some k \<Rightarrow> utf8_front (drop (valid_up_to e') (drop n bs)) = Invalid k
       | None \<Rightarrow> utf8_front (drop (valid_up_to e') (drop n bs)) = Truncated)"
      using n e'(1) by (intro less.hyps) auto
    have split: "take (n + valid_up_to e') bs = take n bs @ take (valid_up_to e') (drop n bs)"
      by (simp add: take_add)
    have "utf8_front (take n bs) = Char n"
    proof -
      have "utf8_front (take n bs) \<noteq> Truncated"
      proof
        assume tr: "utf8_front (take n bs) = Truncated"
        obtain b bs' where bs: "bs = b # bs'" using Char by (cases bs) auto
        then obtain ps where ps: "utf8_follow b = Some ps" "utf8_tail ps 1 bs' = Char n"
          using Char by (auto split: option.splits)
        then have "n = Suc (length ps)" "length ps \<le> length bs'" by (auto dest: utf8_tail_Char)
        then show False using tr bs ps by (auto dest!: utf8_tail_Truncated)
      qed
      moreover have "take n bs \<noteq> []" using n by auto
      ultimately show ?thesis
        using utf8_front_append [of "take n bs" "drop n bs"] Char by simp
    qed
    then have "utf8_valid (take n bs)" by (simp add: utf8_valid_Char)
    then have "utf8_valid (take (n + valid_up_to e') bs)"
      using ih by (simp add: split utf8_valid_append)
    moreover have "n + valid_up_to e' < length bs" using conjunct1 [OF ih] n by auto
    ultimately show ?thesis using ih e'(2) by (simp add: add.commute split: option.splits)
  qed (use less.prems in \<open>auto simp: utf8_scan.simps [of bs] utf8_scan.simps [of "[]"]\<close>)
qed

section \<open>Chunked validation\<close>

lemma utf8_truncated_progress:
  assumes "utf8_scan chunk 0 = Some e" "error_len e = None" "4 \<le> length chunk"
  shows "0 < valid_up_to e"
proof -
  have "utf8_front (drop (valid_up_to e) chunk) = Truncated"
    using utf8_scan_Some [OF assms(1)] assms(2) by simp
  then have "length chunk - valid_up_to e \<le> 3" by (auto dest: utf8_front_Truncated)
  with assms(3) show ?thesis by linarith
qed

text \<open>
  The loop of \<^verbatim>\<open>utf8_checked\<close>; \<open>rest\<close> is \<^verbatim>\<open>&bytes[start..]\<close>, so \<^verbatim>\<open>end < bytes.len()\<close> is
  \<open>65536 < length rest\<close>. It always ends: a chunk cut inside a character still validates all but
  its last three bytes.
\<close>

function utf8_loop :: "bytes \<Rightarrow> ustr \<Rightarrow> ustr chk" where
  "utf8_loop rest out =
     (if rest = [] then chk_then check (\<lambda>_. chk_ok out)
      else chk_then check (\<lambda>_.
        let chunk = take 65536 rest in
        (case utf8_scan chunk 0 of
           None \<Rightarrow> utf8_loop (drop (length chunk) rest) (out @ chunk)
         | Some e \<Rightarrow>
             if error_len e = None \<and> 65536 < length rest
             then utf8_loop (drop (valid_up_to e) rest) (out @ take (valid_up_to e) chunk)
             else chk_err (Corrupt ''VALUE string is not valid UTF-8''))))"
  by pat_completeness auto
termination
  by (relation "measure (\<lambda>(rest, out). length rest)")
    (auto simp: utf8_truncated_progress dest: utf8_truncated_progress)

declare utf8_loop.simps [simp del]

definition utf8_checked :: "bytes \<Rightarrow> ustr chk" where
  "utf8_checked bs = chk_then check (\<lambda>_. utf8_loop bs [])"


lemma utf8_invalid_front:
  "utf8_front (drop k bs) = Invalid j \<or> (utf8_front (drop k bs) = Truncated) \<Longrightarrow> utf8_valid (take k bs) \<Longrightarrow> \<not> utf8_valid bs"
  using utf8_valid_append [of "take k bs" "drop k bs"] utf8_valid_cases [of "drop k bs"] by fastforce

lemma snd_utf8_loop:
  "snd (utf8_loop rest out) =
     (if utf8_valid rest then Inr (out @ rest) else Inl (Corrupt ''VALUE string is not valid UTF-8''))"
proof (induction rest out rule: utf8_loop.induct)
  case (1 rest out)
  let ?chunk = "take 65536 rest"
  show ?case
  proof (cases "rest = []")
    case False
    show ?thesis
    proof (cases "utf8_scan ?chunk 0")
      case None
      then have "utf8_valid rest \<longleftrightarrow> utf8_valid (drop (length ?chunk) rest)"
        using utf8_valid_append [of ?chunk "drop (length ?chunk) rest"]
        by (auto simp: utf8_valid_def [of ?chunk] min_def split: if_splits)
      with "1.IH"(1) [OF False _ refl None] False None show ?thesis
        by (subst utf8_loop.simps) (auto simp: Let_def min_def split: if_splits)
    next
      case (Some e)
      note e = utf8_scan_Some [OF Some]
      let ?k = "valid_up_to e"
      have k: "?k < length ?chunk" "take ?k ?chunk = take ?k rest"
        using conjunct1 [OF e] by (auto simp: min_def split: if_splits)
      have prefix: "utf8_valid (take ?k rest)" using e unfolding k(2) [symmetric] by blast
      show ?thesis
      proof (cases "error_len e = None \<and> 65536 < length rest")
        case True
        from prefix have "utf8_valid rest \<longleftrightarrow> utf8_valid (drop ?k rest)"
          using utf8_valid_append [of "take ?k rest" "drop ?k rest"] by simp
        with "1.IH"(2) [OF False _ refl Some True] True False Some k(2) show ?thesis
          by (subst utf8_loop.simps) (simp add: Let_def)
      next
        case stop: False
        have "\<not> utf8_valid rest"
        proof (cases "error_len e")
          case None
          with stop have "?chunk = rest" by simp
          then show ?thesis using e None utf8_invalid_front [of ?k rest] by simp
        next
          case (Some j)
          then have "utf8_front (drop ?k ?chunk) = Invalid j" using e by simp
          moreover have "drop ?k rest = drop ?k ?chunk @ drop 65536 rest"
            using k(1) by (simp add: drop_take) (metis append_take_drop_id drop_drop le_add_diff_inverse2 less_imp_le_nat min_less_iff_conj)
          moreover have "drop ?k ?chunk \<noteq> []" using k(1) by (auto simp: min_def)
          ultimately have "utf8_front (drop ?k rest) = Invalid j" by (simp add: utf8_front_append)
          then show ?thesis using prefix utf8_invalid_front [of ?k rest j] by simp
        qed
        with stop False Some show ?thesis by (subst utf8_loop.simps) (auto simp: Let_def)
      qed
    qed
  qed (simp add: utf8_loop.simps)
qed

lemma snd_utf8_checked:
  "snd (utf8_checked bs) =
     (if utf8_valid bs then Inr bs else Inl (Corrupt ''VALUE string is not valid UTF-8''))"
  by (simp add: utf8_checked_def snd_utf8_loop)

section \<open>Chunked copying\<close>

definition is_char_boundary :: "ustr \<Rightarrow> nat \<Rightarrow> bool" where
  "is_char_boundary s i \<longleftrightarrow> i = 0 \<or> i = length s \<or> (i < length s \<and> \<not> continuation (s ! i))"

fun boundary_before :: "ustr \<Rightarrow> nat \<Rightarrow> nat" where
  "boundary_before s 0 = 0"
| "boundary_before s (Suc i) = (if is_char_boundary s (Suc i) then Suc i else boundary_before s i)"

text \<open>
  A \<^verbatim>\<open>&str\<close> holds valid UTF-8, and for such a string every chunk ends past its start
  (\<open>copy_text_progress\<close> below); the branch where it would not is unreachable.
\<close>

function copy_text_loop :: "ustr \<Rightarrow> nat \<Rightarrow> ustr \<Rightarrow> ustr chk" where
  "copy_text_loop s start out =
     (if start < length s
      then chk_then check (\<lambda>_.
        let end = boundary_before s (min (start + 65536) (length s)) in
        if end \<le> start then chk_ok out
        else copy_text_loop s end (out @ take (end - start) (drop start s)))
      else chk_ok out)"
  by pat_completeness auto
termination
  by (relation "measure (\<lambda>(s, start, out). length s - start)") auto

declare copy_text_loop.simps [simp del]

definition copy_text_checked :: "ustr \<Rightarrow> ustr chk" where
  "copy_text_checked s = chk_then check (\<lambda>_. copy_text_loop s 0 [])"

lemma boundary_before_le: "boundary_before s i \<le> i"
  by (induction i) auto

lemma boundary_before_ge: "is_char_boundary s j \<Longrightarrow> j \<le> i \<Longrightarrow> j \<le> boundary_before s i"
  by (induction i) (auto simp: le_Suc_eq)

text \<open>Characters start at boundaries, and a character has at most four bytes.\<close>

lemma utf8_front_not_continuation: "utf8_front (b # bs) = Char n \<Longrightarrow> \<not> continuation b"
  by (auto simp: utf8_follow_def between_def word_le_nat_alt word_less_nat_alt unat_arith_simps
      split: option.splits if_splits)

lemma utf8_boundary_near:
  assumes "utf8_valid (drop p s)" "p \<le> i" "i \<le> length s"
  shows "\<exists>j. p \<le> j \<and> j \<le> i \<and> i < j + 4 \<and> (is_char_boundary s j \<or> j = p) \<and> utf8_valid (drop j s)"
  using assms
proof (induction "length s - p" arbitrary: p rule: less_induct)
  case less
  show ?case
  proof (cases "i < p + 4")
    case False
    then have "drop p s \<noteq> []" using less.prems by auto
    then obtain n where n: "utf8_front (drop p s) = Char n" using less.prems utf8_valid_cases by blast
    note n' = utf8_front_Char [OF n]
    have v: "utf8_valid (drop (p + n) s)"
      using less.prems(1) n by (simp add: utf8_valid_Char add.commute)
    obtain j where j: "p + n \<le> j" "j \<le> i" "i < j + 4" "is_char_boundary s j \<or> j = p + n" "utf8_valid (drop j s)"
      using less.hyps [of "p + n"] n' v False less.prems by force
    have "is_char_boundary s (p + n)"
    proof (cases "drop (p + n) s")
      case Nil
      then have "p + n = length s" using n' less.prems(2,3) by auto
      then show ?thesis by (simp add: is_char_boundary_def)
    next
      case (Cons b bs)
      then obtain m where "utf8_front (b # bs) = Char m" using v utf8_valid_cases by fastforce
      then have "\<not> continuation b" by (rule utf8_front_not_continuation)
      then show ?thesis
        using drop_eq_ConsD [OF Cons] by (simp add: is_char_boundary_def)
    qed
    with j show ?thesis by (intro exI [of _ j]) auto
  qed (use less.prems in auto)
qed

lemma copy_text_progress:
  assumes "utf8_valid s" "start < length s"
  shows "start < boundary_before s (min (start + 65536) (length s))"
proof (cases "length s \<le> start + 65536")
  case True
  have "is_char_boundary s (length s)" by (simp add: is_char_boundary_def)
  then have "length s \<le> boundary_before s (length s)" by (rule boundary_before_ge) simp
  with True assms(2) show ?thesis by (simp add: min_def)
next
  case False
  let ?i = "start + 65536"
  obtain j where j: "j \<le> ?i" "?i < j + 4" "is_char_boundary s j \<or> j = 0"
    using utf8_boundary_near [of 0 s ?i] assms(1) False by auto
  then have "is_char_boundary s j" by (auto simp: is_char_boundary_def)
  then have "j \<le> boundary_before s ?i" using j(1) by (rule boundary_before_ge)
  with j(2) False show ?thesis by (simp add: min_def)
qed

lemma snd_copy_text_loop:
  "utf8_valid s \<Longrightarrow> start \<le> length s \<Longrightarrow> snd (copy_text_loop s start out) = Inr (out @ drop start s)"
proof (induction s start out rule: copy_text_loop.induct)
  case (1 s start out)
  let ?stop = "boundary_before s (min (start + 65536) (length s))"
  show ?case
  proof (cases "start < length s")
    case True
    have gt: "start < ?stop" by (rule copy_text_progress [OF "1.prems"(1) True])
    have le: "?stop \<le> length s" using boundary_before_le [of s "min (start + 65536) (length s)"] by simp
    have "take (?stop - start) (drop start s) @ drop ?stop s = drop start s"
      using gt by (metis append_take_drop_id drop_drop le_add_diff_inverse2 less_imp_le_nat)
    then show ?thesis
      using "1.IH" [OF True _ refl] gt le "1.prems" True by (subst copy_text_loop.simps) (simp add: Let_def)
  qed (use "1.prems" in \<open>simp add: copy_text_loop.simps\<close>)
qed

lemma snd_copy_text_checked: "utf8_valid s \<Longrightarrow> snd (copy_text_checked s) = Inr s"
  by (simp add: copy_text_checked_def snd_copy_text_loop)

end
