(* ===== verification/Value.thy ===== *)
theory Value
  imports Encoding Utf8
begin

text \<open>
  Property values and their canonical LCE1 form (\<^verbatim>\<open>storage/value.rs\<close>). A value is encoded as a
  \<^verbatim>\<open>VALUE\<close> record whose first field is the type tag; the decoder dispatches on the tag, rebuilds the
  value and re-encodes it, and rejects bytes that are not the canonical encoding of what they decode
  to. Canonical means: minimal lengths, exact field counts, and the one NaN payload.
\<close>

section \<open>Values\<close>

record ZonedDateTimeValue =
  epoch_seconds :: i64
  zdt_nanoseconds :: u32
  zone_id :: ustr

record PointValue =
  crs :: i64
  coordinates :: "u64 list"

datatype VectorCoordinateType = I8 | I16 | I32 | I64 | F32 | F64

record VectorValue =
  coordinate_type :: VectorCoordinateType
  dimension :: u64
  packed :: bytes

datatype PropertyValue =
    VBoolean bool
  | VInteger i64
  | VFloat u64
  | VString ustr
  | VList "PropertyValue list"
  | VDate i64
  | VLocalTime u64
  | VTime u64 i32
  | VLocalDateTime i64 u64
  | VZonedDateTime ZonedDateTimeValue
  | VDuration i64 i64 i64 i64
  | VPoint PointValue
  | VVector VectorValue
  | VUuid bytes

abbreviation BOOLEAN :: byte where "BOOLEAN \<equiv> 1"
abbreviation INTEGER :: byte where "INTEGER \<equiv> 2"
abbreviation FLOAT :: byte where "FLOAT \<equiv> 3"
abbreviation STRING :: byte where "STRING \<equiv> 4"
abbreviation LIST :: byte where "LIST \<equiv> 5"
abbreviation DATE :: byte where "DATE \<equiv> 6"
abbreviation LOCAL_TIME :: byte where "LOCAL_TIME \<equiv> 7"
abbreviation TIME :: byte where "TIME \<equiv> 8"
abbreviation LOCAL_DATETIME :: byte where "LOCAL_DATETIME \<equiv> 9"
abbreviation ZONED_DATETIME :: byte where "ZONED_DATETIME \<equiv> 10"
abbreviation DURATION :: byte where "DURATION \<equiv> 11"
abbreviation POINT :: byte where "POINT \<equiv> 12"
abbreviation VECTOR :: byte where "VECTOR \<equiv> 13"
abbreviation UUID :: byte where "UUID \<equiv> 14"

fun type_tag_u8 :: "PropertyValue \<Rightarrow> byte" where
  "type_tag_u8 (VBoolean _) = BOOLEAN"
| "type_tag_u8 (VInteger _) = INTEGER"
| "type_tag_u8 (VFloat _) = FLOAT"
| "type_tag_u8 (VString _) = STRING"
| "type_tag_u8 (VList _) = LIST"
| "type_tag_u8 (VDate _) = DATE"
| "type_tag_u8 (VLocalTime _) = LOCAL_TIME"
| "type_tag_u8 (VTime _ _) = TIME"
| "type_tag_u8 (VLocalDateTime _ _) = LOCAL_DATETIME"
| "type_tag_u8 (VZonedDateTime _) = ZONED_DATETIME"
| "type_tag_u8 (VDuration _ _ _ _) = DURATION"
| "type_tag_u8 (VPoint _) = POINT"
| "type_tag_u8 (VVector _) = VECTOR"
| "type_tag_u8 (VUuid _) = UUID"

definition type_tag :: "PropertyValue \<Rightarrow> i64" where
  "type_tag v = int (unat (type_tag_u8 v))"

fun list_element_family :: "PropertyValue \<Rightarrow> nat option" where
  "list_element_family (VBoolean _) = Some 1"
| "list_element_family (VInteger _) = Some 2"
| "list_element_family (VFloat _) = Some 3"
| "list_element_family (VString _) = Some 4"
| "list_element_family (VDate _) = Some 5"
| "list_element_family (VLocalTime _) = Some 6"
| "list_element_family (VTime _ _) = Some 7"
| "list_element_family (VLocalDateTime _ _) = Some 8"
| "list_element_family (VZonedDateTime _) = Some 9"
| "list_element_family (VDuration _ _ _ _) = Some 10"
| "list_element_family (VPoint _) = Some 11"
| "list_element_family (VUuid _) = Some 12"
| "list_element_family (VList _) = None"
| "list_element_family (VVector _) = None"

fun same_family_loop :: "nat \<Rightarrow> PropertyValue list \<Rightarrow> bool chk" where
  "same_family_loop family [] = chk_ok True"
| "same_family_loop family (v # vs) =
     chk_then check (\<lambda>_.
       if list_element_family v \<noteq> Some family then chk_ok False else same_family_loop family vs)"

definition is_property_value_checked :: "PropertyValue \<Rightarrow> bool chk" where
  "is_property_value_checked v =
     chk_then check (\<lambda>_.
       case v of
         VList values \<Rightarrow>
           (case values of
              [] \<Rightarrow> chk_ok True
            | first # _ \<Rightarrow>
                (case list_element_family first of
                   None \<Rightarrow> chk_ok False
                 | Some family \<Rightarrow> same_family_loop family values))
       | _ \<Rightarrow> chk_ok True)"

definition is_property_value :: "PropertyValue \<Rightarrow> bool" where
  "is_property_value v = (case snd (is_property_value_checked v) of Inr b \<Rightarrow> b | Inl _ \<Rightarrow> False)"

section \<open>Encoding\<close>

definition coordinate_width :: "VectorCoordinateType \<Rightarrow> nat" where
  "coordinate_width t = (case t of I8 \<Rightarrow> 1 | I16 \<Rightarrow> 2 | I32 \<Rightarrow> 4 | F32 \<Rightarrow> 4 | I64 \<Rightarrow> 8 | F64 \<Rightarrow> 8)"

definition coordinate_tag :: "VectorCoordinateType \<Rightarrow> byte" where
  "coordinate_tag t = (case t of I8 \<Rightarrow> 1 | I16 \<Rightarrow> 2 | I32 \<Rightarrow> 3 | I64 \<Rightarrow> 4 | F32 \<Rightarrow> 5 | F64 \<Rightarrow> 6)"

definition canonicalize_float_vector :: "nat \<Rightarrow> (bytes \<Rightarrow> bytes) \<Rightarrow> bytes \<Rightarrow> bytes chk" where
  "canonicalize_float_vector n canonicalize bs =
     chk_then (copy_bytes_checked bs) (\<lambda>out.
     chk_then (chk_map (\<lambda>chunk. chk_then check (\<lambda>_. chk_ok (canonicalize chunk))) (fst (as_chunks n out)))
       (\<lambda>cs. chk_ok (concat cs @ snd (as_chunks n out))))"

definition canonicalize_vector_bytes :: "VectorValue \<Rightarrow> bytes chk" where
  "canonicalize_vector_bytes v =
     chk_then check (\<lambda>_.
       let width = coordinate_width (coordinate_type v) in
       chk_then (chk_res (usize_from_u64 (dimension v))) (\<lambda>dim.
       if dim * width > usize_max
       then chk_err (Corrupt ''Vector dimension overflows addressable size'')
       else if length (packed v) \<noteq> dim * width
       then chk_err (Corrupt ''Vector payload length does not match dimension'')
       else (case coordinate_type v of
           F32 \<Rightarrow> canonicalize_float_vector 4
                    (\<lambda>c. u32_bytes (canonical_f32_bits (of_nat (le_value c)))) (packed v)
         | F64 \<Rightarrow> canonicalize_float_vector 8
                    (\<lambda>c. u64_bytes (canonical_f64_bits (of_nat (le_value c)))) (packed v)
         | _ \<Rightarrow> copy_bytes_checked (packed v))))"

definition vector_fields :: "VectorValue \<Rightarrow> bytes list chk" where
  "vector_fields v =
     chk_then (canonicalize_vector_bytes v) (\<lambda>payload.
       chk_ok [[VECTOR], [coordinate_tag (coordinate_type v)], uleb_bytes (dimension v), payload])"

definition point_fields :: "PointValue \<Rightarrow> bytes list chk" where
  "point_fields p =
     chk_then check (\<lambda>_.
     chk_then (chk_fold (\<lambda>c packed. chk_then check (\<lambda>_.
         chk_ok (packed @ u64_bytes (canonical_f64_bits c)))) (coordinates p) []) (\<lambda>packed.
       chk_ok [[POINT], i64_bytes (crs p), uleb_bytes (of_nat (length (coordinates p))), packed]))"

text \<open>The fields of a value that is not a list.\<close>

fun scalar_fields :: "PropertyValue \<Rightarrow> bytes list chk" where
  "scalar_fields (VBoolean v) = chk_ok [[BOOLEAN], [if v then 1 else 0]]"
| "scalar_fields (VInteger v) = chk_ok [[INTEGER], i64_bytes v]"
| "scalar_fields (VFloat v) = chk_ok [[FLOAT], u64_bytes (canonical_f64_bits v)]"
| "scalar_fields (VString v) = chk_then (copy_bytes_checked v) (\<lambda>s. chk_ok [[STRING], s])"
| "scalar_fields (VDate days) = chk_ok [[DATE], i64_bytes days]"
| "scalar_fields (VLocalTime nanos) = chk_ok [[LOCAL_TIME], u64_bytes nanos]"
| "scalar_fields (VTime nanos offset) = chk_ok [[TIME], u64_bytes nanos, i32_bytes offset]"
| "scalar_fields (VLocalDateTime day nanos) = chk_ok [[LOCAL_DATETIME], i64_bytes day, u64_bytes nanos]"
| "scalar_fields (VZonedDateTime z) =
     chk_then (copy_bytes_checked (zone_id z)) (\<lambda>zone.
       chk_ok [[ZONED_DATETIME], i64_bytes (epoch_seconds z), u32_bytes (zdt_nanoseconds z), zone])"
| "scalar_fields (VDuration months days seconds nanos) =
     chk_ok [[DURATION], i64_bytes months, i64_bytes days, i64_bytes seconds, i64_bytes nanos]"
| "scalar_fields (VPoint p) = point_fields p"
| "scalar_fields (VVector v) = vector_fields v"
| "scalar_fields (VUuid u) = chk_ok [[UUID], u]"
| "scalar_fields (VList vs) = chk_ok []"

fun canonical_bytes_checked :: "PropertyValue \<Rightarrow> bytes chk" where
  "canonical_bytes_checked v =
     chk_then check (\<lambda>_.
     chk_then
       (case v of
          VList values \<Rightarrow>
            chk_then (chk_map (\<lambda>v. chk_then check (\<lambda>_. canonical_bytes_checked v)) values) (\<lambda>items.
            chk_then (encode_counted_checked items) (\<lambda>payload. chk_ok [[LIST], payload]))
        | _ \<Rightarrow> scalar_fields v)
       (\<lambda>fs. record_checked (ascii ''VALUE'') fs))"

declare canonical_bytes_checked.simps [simp del]

definition canonical_bytes :: "PropertyValue \<Rightarrow> bytes res" where
  "canonical_bytes v = snd (canonical_bytes_checked v)"

section \<open>Decoding\<close>

definition value_field :: "bytes list \<Rightarrow> nat \<Rightarrow> bytes res" where
  "value_field fs index =
     (if index < length fs then Inr (fs ! index)
      else Inl (Corrupt ''VALUE record is missing a required field''))"

definition one_byte :: "bytes list \<Rightarrow> nat \<Rightarrow> byte res" where
  "one_byte fs index =
     and_then (value_field fs index) (\<lambda>bs.
       case bs of [b] \<Rightarrow> Inr b | _ \<Rightarrow> Inl (Corrupt ''VALUE field must contain exactly one byte''))"

definition expected_field_count :: "byte \<Rightarrow> nat res" where
  "expected_field_count tag =
     (if tag \<in> {BOOLEAN, INTEGER, FLOAT, STRING, LIST, DATE, LOCAL_TIME, UUID} then Inr 2
      else if tag \<in> {TIME, LOCAL_DATETIME} then Inr 3
      else if tag \<in> {ZONED_DATETIME, POINT, VECTOR} then Inr 4
      else if tag = DURATION then Inr 5
      else Inl (Corrupt ''unknown property type tag''))"

fun read_fields :: "nat \<Rightarrow> BorrowedFields \<Rightarrow> (bytes list \<times> BorrowedFields) chk" where
  "read_fields 0 f = chk_ok ([], f)"
| "read_fields (Suc n) f =
     chk_then check (\<lambda>_.
     chk_then (chk_res (next_field f)) (\<lambda>(item, f).
       case item of
         None \<Rightarrow> chk_err (Corrupt ''VALUE record is missing a field'')
       | Some x \<Rightarrow> chk_then (read_fields n f) (\<lambda>(xs, f). chk_ok (x # xs, f))))"

definition borrowed_value_fields :: "bytes \<Rightarrow> bytes list chk" where
  "borrowed_value_fields bs =
     chk_then (chk_res (borrowed_record_fields bs (ascii ''VALUE''))) (\<lambda>input.
       let count = bf_remaining input in
       if count = 0 \<or> count > 5 then chk_err (Corrupt ''VALUE record has invalid field count'')
       else chk_then (read_fields count input) (\<lambda>(fs, input).
            chk_then (chk_res (bf_finish input)) (\<lambda>_. chk_ok fs)))"

definition decode_zoned_datetime :: "bytes list \<Rightarrow> PropertyValue chk" where
  "decode_zoned_datetime fs =
     chk_then (chk_res (and_then (value_field fs 0) decode_i64)) (\<lambda>secs.
     chk_then (chk_res (and_then (value_field fs 1) decode_u32)) (\<lambda>nanos.
     chk_then (chk_res (value_field fs 2)) (\<lambda>zone.
     chk_then (utf8_checked zone) (\<lambda>zone.
       chk_ok (VZonedDateTime \<lparr>epoch_seconds = secs, zdt_nanoseconds = nanos, zone_id = zone\<rparr>)))))"

definition decode_duration :: "bytes list \<Rightarrow> PropertyValue res" where
  "decode_duration fs =
     and_then (and_then (value_field fs 0) decode_i64) (\<lambda>months.
     and_then (and_then (value_field fs 1) decode_i64) (\<lambda>days.
     and_then (and_then (value_field fs 2) decode_i64) (\<lambda>seconds.
     and_then (and_then (value_field fs 3) decode_i64) (\<lambda>nanos.
       Inr (VDuration months days seconds nanos)))))"

definition decode_point :: "bytes list \<Rightarrow> PropertyValue chk" where
  "decode_point fs =
     chk_then (chk_res (and_then (value_field fs 0) decode_i64)) (\<lambda>crs.
     chk_then (chk_res (and_then (and_then (value_field fs 1) decode_uleb_field) usize_from_u64)) (\<lambda>count.
     chk_then (chk_res (value_field fs 2)) (\<lambda>bs.
       if count * 8 > usize_max
       then chk_err (Corrupt ''Point coordinate payload length overflows'')
       else if length bs \<noteq> count * 8
       then chk_err (Corrupt ''Point coordinate payload has invalid length'')
       else chk_then check (\<lambda>_.
            chk_then (chk_map (\<lambda>chunk. chk_then check (\<lambda>_. chk_ok (of_nat (le_value chunk))))
                        (fst (as_chunks 8 bs))) (\<lambda>coords.
              chk_ok (VPoint \<lparr>crs = crs, coordinates = coords\<rparr>))))))"

definition coordinate_type_of :: "byte \<Rightarrow> VectorCoordinateType res" where
  "coordinate_type_of b =
     (if b = 1 then Inr I8 else if b = 2 then Inr I16 else if b = 3 then Inr I32
      else if b = 4 then Inr I64 else if b = 5 then Inr F32 else if b = 6 then Inr F64
      else Inl (Corrupt ''unknown vector coordinate tag''))"

definition decode_vector :: "bytes list \<Rightarrow> PropertyValue chk" where
  "decode_vector fs =
     chk_then (chk_res (and_then (one_byte fs 0) coordinate_type_of)) (\<lambda>ty.
     chk_then (chk_res (and_then (value_field fs 1) decode_uleb_field)) (\<lambda>dim.
     chk_then (chk_res (usize_from_u64 dim)) (\<lambda>n.
     chk_then (chk_res (value_field fs 2)) (\<lambda>bs.
       if n * coordinate_width ty > usize_max
       then chk_err (Corrupt ''Vector payload length overflows addressable size'')
       else if length bs \<noteq> n * coordinate_width ty
       then chk_err (Corrupt ''Vector payload length does not match dimension'')
       else chk_then (copy_bytes_checked bs) (\<lambda>packed.
         chk_ok (VVector \<lparr>coordinate_type = ty, dimension = dim, packed = packed\<rparr>))))))"

definition decode_uuid :: "bytes list \<Rightarrow> PropertyValue res" where
  "decode_uuid fs =
     and_then (value_field fs 0) (\<lambda>bs.
       if length bs = 16 then Inr (VUuid bs)
       else Inl (Corrupt ''UUID property must contain exactly 16 bytes''))"

definition decode_boolean :: "bytes list \<Rightarrow> PropertyValue res" where
  "decode_boolean fs =
     and_then (one_byte fs 0) (\<lambda>b.
       if b = 0 then Inr (VBoolean False) else if b = 1 then Inr (VBoolean True)
       else Inl (Corrupt ''Boolean VALUE payload must be 0 or 1''))"

text \<open>
  \<^verbatim>\<open>decode_basic_value\<close> decodes list elements by calling back into the value decoder; that call is
  the argument \<open>decode_list\<close>, tied to the recursive function below.
\<close>

definition decode_basic_value ::
    "(bytes list \<Rightarrow> PropertyValue chk) \<Rightarrow> byte \<Rightarrow> bytes list \<Rightarrow> PropertyValue chk" where
  "decode_basic_value decode_list tag fs =
     (if tag = BOOLEAN then chk_res (decode_boolean fs)
      else if tag = INTEGER
      then chk_res (and_then (and_then (value_field fs 0) decode_i64) (\<lambda>v. Inr (VInteger v)))
      else if tag = FLOAT
      then chk_res (and_then (and_then (value_field fs 0) decode_u64) (\<lambda>v. Inr (VFloat v)))
      else if tag = STRING
      then chk_then (chk_res (value_field fs 0)) (\<lambda>bs. chk_then (utf8_checked bs) (\<lambda>s. chk_ok (VString s)))
      else if tag = LIST then decode_list fs
      else chk_err (Corrupt ''invalid basic property type tag''))"

definition decode_temporal_value :: "byte \<Rightarrow> bytes list \<Rightarrow> PropertyValue chk" where
  "decode_temporal_value tag fs =
     (if tag = DATE
      then chk_res (and_then (and_then (value_field fs 0) decode_i64) (\<lambda>v. Inr (VDate v)))
      else if tag = LOCAL_TIME
      then chk_res (and_then (and_then (value_field fs 0) decode_u64) (\<lambda>v. Inr (VLocalTime v)))
      else if tag = TIME
      then chk_res (and_then (and_then (value_field fs 0) decode_u64) (\<lambda>nanos.
                    and_then (and_then (value_field fs 1) decode_i32) (\<lambda>offset.
                      Inr (VTime nanos offset))))
      else if tag = LOCAL_DATETIME
      then chk_res (and_then (and_then (value_field fs 0) decode_i64) (\<lambda>day.
                    and_then (and_then (value_field fs 1) decode_u64) (\<lambda>nanos.
                      Inr (VLocalDateTime day nanos))))
      else if tag = ZONED_DATETIME then decode_zoned_datetime fs
      else if tag = DURATION then chk_res (decode_duration fs)
      else chk_err (Corrupt ''invalid temporal property type tag''))"

definition decode_special_value :: "byte \<Rightarrow> bytes list \<Rightarrow> PropertyValue chk" where
  "decode_special_value tag fs =
     (if tag = POINT then decode_point fs
      else if tag = VECTOR then decode_vector fs
      else if tag = UUID then chk_res (decode_uuid fs)
      else chk_err (Corrupt ''invalid special property type tag''))"

definition decode_value ::
    "(bytes list \<Rightarrow> PropertyValue chk) \<Rightarrow> byte \<Rightarrow> bytes list \<Rightarrow> PropertyValue chk" where
  "decode_value decode_list tag fs =
     chk_then check (\<lambda>_.
       if tag \<in> {BOOLEAN, INTEGER, FLOAT, STRING, LIST} then decode_basic_value decode_list tag fs
       else if tag \<in> {DATE, LOCAL_TIME, TIME, LOCAL_DATETIME, ZONED_DATETIME, DURATION}
       then decode_temporal_value tag fs
       else if tag \<in> {POINT, VECTOR, UUID} then decode_special_value tag fs
       else chk_err (Corrupt ''unknown property type tag''))"

lemma decode_value_cong [fundef_cong]:
  "t = t' \<Longrightarrow> fs = fs' \<Longrightarrow> d fs' = d' fs' \<Longrightarrow> decode_value d t fs = decode_value d' t' fs'"
  by (simp add: decode_value_def decode_basic_value_def)

subsection \<open>The recursive decoder\<close>

text \<open>What a reader consumes, for the termination of the decoder.\<close>

lemma uleb_len_pos [simp]: "0 < uleb_len v"
  by (simp add: uleb_len_eq)

lemma read_uleb_progress: "read_uleb bs c = Inr (v, c') \<Longrightarrow> c < c' \<and> c' \<le> length bs"
  using read_uleb_sound [of bs c v c'] uleb_len_pos [of v] by linarith

lemma take_field_Inr: "take_field bs c n = Inr (x, c') \<Longrightarrow> c' = c + n \<and> c' \<le> length bs \<and> length x = n"
  by (auto simp: take_field_def split: if_splits)

lemma next_field_progress:
  assumes "next_field f = Inr (Some x, f')"
  shows "bf_bytes f' = bf_bytes f \<and> bf_cursor f + length x < bf_cursor f' \<and> bf_cursor f' \<le> length (bf_bytes f)"
  using assms
  by (auto simp: next_field_def split: if_splits prod.splits dest!: read_uleb_progress take_field_Inr)

lemma after_count_progress:
  "borrowed_fields_after_count bs c = Inr f \<Longrightarrow> bf_bytes f = bs \<and> c < bf_cursor f \<and> bf_cursor f \<le> length bs"
  by (auto simp: borrowed_fields_after_count_def split: if_splits dest!: read_uleb_progress)

lemma record_fields_bytes: "borrowed_record_fields bs d = Inr f \<Longrightarrow> bf_bytes f = bs"
  by (auto simp: borrowed_record_fields_def split: if_splits prod.splits dest!: after_count_progress)

lemma read_fields_length:
  "snd (read_fields n f) = Inr (xs, f') \<Longrightarrow> length xs = n \<and> (\<forall>x \<in> set xs. length x < length (bf_bytes f))"
proof (induction n arbitrary: f xs f')
  case (Suc n)
  then obtain x g ys where "next_field f = Inr (Some x, g)" "snd (read_fields n g) = Inr (ys, f')" "xs = x # ys"
    by (auto split: prod.splits option.splits)
  with Suc.IH next_field_progress show ?case by fastforce
qed simp

lemma value_fields_length:
  assumes "snd (borrowed_value_fields bs) = Inr xs"
  shows "xs \<noteq> [] \<and> (\<forall>x \<in> set xs. length x < length bs)"
proof -
  obtain f g where f: "borrowed_record_fields bs (ascii ''VALUE'') = Inr f" "bf_remaining f \<noteq> 0"
    "snd (read_fields (bf_remaining f) f) = Inr (xs, g)"
    using assms by (auto simp: borrowed_value_fields_def Let_def split: if_splits prod.splits)
  then show ?thesis using read_fields_length [OF f(3)] record_fields_bytes [OF f(1)] by auto
qed

function (sequential)
  from_canonical_bytes_checked :: "bytes \<Rightarrow> PropertyValue chk" and
  decode_list :: "bytes list \<Rightarrow> PropertyValue chk" and
  decode_items :: "BorrowedFields \<Rightarrow> PropertyValue list chk" where
  "from_canonical_bytes_checked bs =
     chk_then check (\<lambda>_.
     chk_then (borrowed_value_fields bs) (\<lambda>fs.
       case hd fs of
         [tag] \<Rightarrow>
           chk_then (chk_res (expected_field_count tag)) (\<lambda>expected.
           if length fs \<noteq> expected
           then chk_err (Corrupt ''VALUE type tag requires another number of fields'')
           else chk_then (decode_value (\<lambda>xs. decode_list xs) tag (tl fs)) (\<lambda>v.
                chk_then (canonical_bytes_checked v) (\<lambda>canonical.
                chk_then (equal_bytes_checked canonical bs) (\<lambda>same.
                  if same then chk_ok v
                  else chk_err (Corrupt ''VALUE record is not in canonical LCE1 form'')))))
       | _ \<Rightarrow> chk_err (Corrupt ''VALUE type tag must be one byte'')))"
| "decode_list fs =
     chk_then (chk_res (and_then (value_field fs 0) borrowed_counted_fields)) (\<lambda>items.
     chk_then check (\<lambda>_.
     chk_then (decode_items items) (\<lambda>values. chk_ok (VList values))))"
| "decode_items items =
     chk_then (chk_res (next_field items)) (\<lambda>(item, items').
       case item of
         None \<Rightarrow> chk_then (chk_res (bf_finish items')) (\<lambda>_. chk_ok [])
       | Some bs \<Rightarrow>
           chk_then check (\<lambda>_.
           chk_then (from_canonical_bytes_checked bs) (\<lambda>v.
           chk_then (decode_items items') (\<lambda>vs. chk_ok (v # vs)))))"
  by pat_completeness auto

text \<open>
  Each decoder is charged for the bytes it may still read: a field is shorter than its record, and
  an item together with its length prefix is shorter than what is left of the items.
\<close>

fun decoder_measure :: "bytes + (bytes list + BorrowedFields) \<Rightarrow> nat" where
  "decoder_measure (Inl bs) = 2 * length bs + 1"
| "decoder_measure (Inr (Inl fs)) = (if fs = [] then 0 else 2 * length (hd fs))"
| "decoder_measure (Inr (Inr f)) = 2 * (length (bf_bytes f) - bf_cursor f)"

lemma value_fields_list: "snd (borrowed_value_fields bs) = Inr fs \<Longrightarrow> hd fs = [tag] \<Longrightarrow>
    tl fs \<noteq> [] \<Longrightarrow> length (hd (tl fs)) < length bs"
  using value_fields_length [of bs fs] by (cases fs) (auto simp: neq_Nil_conv)

lemma counted_progress:
  "value_field fs 0 = Inr bs \<Longrightarrow> borrowed_counted_fields bs = Inr f \<Longrightarrow>
     fs \<noteq> [] \<and> length (bf_bytes f) - bf_cursor f < length (hd fs)"
  using after_count_progress [of bs 0 f]
  by (auto simp: value_field_def borrowed_counted_fields_def hd_conv_nth split: if_splits)

lemma next_item_progress:
  "next_field f = Inr (Some x, f') \<Longrightarrow>
     length x < length (bf_bytes f) - bf_cursor f
     \<and> length (bf_bytes f') - bf_cursor f' < length (bf_bytes f) - bf_cursor f"
  using next_field_progress [of f x f'] by auto

termination from_canonical_bytes_checked
proof (relation "measure decoder_measure", goal_cases)
  case (2 bs)
  then show ?case by (auto dest!: value_fields_list)
next
  case (3 fs)
  then show ?case using counted_progress by fastforce
qed (auto dest: next_item_progress)

declare from_canonical_bytes_checked.simps [simp del] decode_list.simps [simp del] decode_items.simps [simp del]

section \<open>Canonical values\<close>

definition canonical_chunks :: "nat \<Rightarrow> (bytes \<Rightarrow> bytes) \<Rightarrow> bytes \<Rightarrow> bytes" where
  "canonical_chunks n f bs = concat (map f (fst (as_chunks n bs))) @ snd (as_chunks n bs)"

abbreviation f32_chunk :: "bytes \<Rightarrow> bytes" where
  "f32_chunk c \<equiv> u32_bytes (canonical_f32_bits (of_nat (le_value c)))"

abbreviation f64_chunk :: "bytes \<Rightarrow> bytes" where
  "f64_chunk c \<equiv> u64_bytes (canonical_f64_bits (of_nat (le_value c)))"

definition canonical_payload :: "VectorCoordinateType \<Rightarrow> bytes \<Rightarrow> bytes" where
  "canonical_payload t bs =
     (case t of F32 \<Rightarrow> canonical_chunks 4 f32_chunk bs | F64 \<Rightarrow> canonical_chunks 8 f64_chunk bs | _ \<Rightarrow> bs)"

text \<open>The value a canonical encoding stands for: every NaN is the one quiet NaN.\<close>

fun canonical_value :: "PropertyValue \<Rightarrow> PropertyValue" where
  "canonical_value (VFloat b) = VFloat (canonical_f64_bits b)"
| "canonical_value (VList vs) = VList (map canonical_value vs)"
| "canonical_value (VPoint p) = VPoint (p\<lparr>coordinates := map canonical_f64_bits (coordinates p)\<rparr>)"
| "canonical_value (VVector v) = VVector (v\<lparr>packed := canonical_payload (coordinate_type v) (packed v)\<rparr>)"
| "canonical_value v = v"

text \<open>What the Rust types guarantee of a value: integers in range, strings UTF-8, lengths addressable.\<close>

fun wf_value :: "PropertyValue \<Rightarrow> bool" where
  "wf_value (VInteger i) = in_i64 i"
| "wf_value (VString s) = utf8_valid s"
| "wf_value (VList vs) = (\<forall>v \<in> set vs. wf_value v)"
| "wf_value (VDate d) = in_i64 d"
| "wf_value (VTime n off) = in_i32 off"
| "wf_value (VLocalDateTime d n) = in_i64 d"
| "wf_value (VZonedDateTime z) = (in_i64 (epoch_seconds z) \<and> utf8_valid (zone_id z))"
| "wf_value (VDuration m d s n) = (in_i64 m \<and> in_i64 d \<and> in_i64 s \<and> in_i64 n)"
| "wf_value (VPoint p) = (in_i64 (crs p) \<and> 8 * length (coordinates p) \<le> usize_max)"
| "wf_value (VUuid u) = (length u = 16)"
| "wf_value v = True"

subsection \<open>The fields of a value\<close>

definition value_fields :: "PropertyValue \<Rightarrow> bytes list res" where
  "value_fields v =
     (case v of
        VList vs \<Rightarrow> and_then (map_res canonical_bytes vs) (\<lambda>items.
                    and_then (snd (encode_counted_checked items)) (\<lambda>payload. Inr [[LIST], payload]))
      | _ \<Rightarrow> snd (scalar_fields v))"

lemma canonical_bytes_eq:
  "canonical_bytes v = and_then (value_fields v) (\<lambda>fs. snd (record_checked (ascii ''VALUE'') fs))"
  unfolding canonical_bytes_def
  by (subst canonical_bytes_checked.simps)
     (cases v; simp add: value_fields_def canonical_bytes_def [abs_def] res_simps)

lemma snd_canonicalize_float_vector [simp]:
  "snd (canonicalize_float_vector n f bs) = Inr (canonical_chunks n f bs)"
  by (simp add: canonicalize_float_vector_def canonical_chunks_def map_res_map [where g = f])

lemma snd_vector_fields:
  "snd (vector_fields v) =
     (if unat (dimension v) * coordinate_width (coordinate_type v) > usize_max
      then Inl (Corrupt ''Vector dimension overflows addressable size'')
      else if length (packed v) \<noteq> unat (dimension v) * coordinate_width (coordinate_type v)
      then Inl (Corrupt ''Vector payload length does not match dimension'')
      else Inr [[VECTOR], [coordinate_tag (coordinate_type v)], uleb_bytes (dimension v),
                canonical_payload (coordinate_type v) (packed v)])"
  by (simp add: vector_fields_def canonicalize_vector_bytes_def Let_def canonical_payload_def
      split: VectorCoordinateType.splits)

lemma snd_point_fields:
  "snd (point_fields p) =
     Inr [[POINT], i64_bytes (crs p), uleb_bytes (of_nat (length (coordinates p))),
          concat (map (\<lambda>c. u64_bytes (canonical_f64_bits c)) (coordinates p))]"
proof -
  have "fold (\<lambda>c out. out @ u64_bytes (canonical_f64_bits c)) cs out
     = out @ concat (map (\<lambda>c. u64_bytes (canonical_f64_bits c)) cs)" for cs and out :: bytes
    by (induction cs arbitrary: out) auto
  then show ?thesis by (simp add: point_fields_def)
qed

lemma canonical_bytes_ok:
  "value_fields v = Inr fs \<Longrightarrow> length (lce1_record (ascii ''VALUE'') fs) \<le> usize_max \<Longrightarrow>
   canonical_bytes v = Inr (lce1_record (ascii ''VALUE'') fs)"
  by (simp add: canonical_bytes_eq record_checked_ok)

subsection \<open>Canonicalising twice is canonicalising once\<close>

lemma canonical_chunks_idem:
  assumes "0 < n" "\<And>c. length c = n \<Longrightarrow> length (f c) = n \<and> f (f c) = f c"
  shows "canonical_chunks n f (canonical_chunks n f bs) = canonical_chunks n f bs"
    "length (canonical_chunks n f bs) = length bs"
proof -
  note sp = as_chunks_split [OF assms(1), of bs]
  have "as_chunks n (concat (map f (fst (as_chunks n bs))) @ snd (as_chunks n bs))
      = (map f (fst (as_chunks n bs)), snd (as_chunks n bs))"
    using sp assms by (intro as_chunks_concat) auto
  then show "canonical_chunks n f (canonical_chunks n f bs) = canonical_chunks n f bs"
    using sp assms by (simp add: canonical_chunks_def cong: map_cong)
  have "length (concat (map f (fst (as_chunks n bs)))) = length (concat (fst (as_chunks n bs)))"
    using sp assms length_concat_same [of "map f (fst (as_chunks n bs))" n]
      length_concat_same [of "fst (as_chunks n bs)" n] by simp
  then show "length (canonical_chunks n f bs) = length bs"
    using sp by (metis canonical_chunks_def length_append)
qed

lemma canonical_payload_idem [simp]:
  "canonical_payload t (canonical_payload t bs) = canonical_payload t bs"
  "length (canonical_payload t bs) = length bs"
  using canonical_chunks_idem [of 4 f32_chunk bs] canonical_chunks_idem [of 8 f64_chunk bs]
  by (cases t; simp add: canonical_payload_def u32_value_bytes u64_value_bytes)+

lemma value_fields_canonical: 
  "(\<And>w. w \<in> set (case v of VList vs \<Rightarrow> vs | _ \<Rightarrow> []) \<Longrightarrow> canonical_bytes (canonical_value w) = canonical_bytes w) \<Longrightarrow>
   value_fields (canonical_value v) = value_fields v"
  by (cases v) (auto simp: value_fields_def snd_vector_fields snd_point_fields o_def map_res_map_fun
      intro!: arg_cong2 [where f = and_then] map_res_cong)

lemma canonical_bytes_canonical_value [simp]: "canonical_bytes (canonical_value v) = canonical_bytes v"
proof (induction v)
  case (VList vs)
  have "value_fields (canonical_value (VList vs)) = value_fields (VList vs)"
    by (rule value_fields_canonical) (simp add: VList)
  then show ?case unfolding canonical_bytes_eq [of "canonical_value (VList vs)"] canonical_bytes_eq [of "VList vs"]
    by simp
qed (simp_all add: canonical_bytes_eq value_fields_def snd_vector_fields snd_point_fields o_def)

section \<open>Round trip\<close>

lemma read_fields_at:
  "at_fields f fs rest \<Longrightarrow> \<exists>f'. snd (read_fields (length fs) f) = Inr (fs, f') \<and> at_fields f' [] rest"
proof (induction fs arbitrary: f)
  case (Cons x fs)
  then obtain g where "next_field f = Inr (Some x, g)" "at_fields g fs rest"
    using next_field_at by blast
  with Cons.IH [of g] show ?case by auto
qed auto

lemma borrowed_value_fields_record:
  assumes "length (lce1_record (ascii ''VALUE'') fs) \<le> usize_max" "fs \<noteq> []" "length fs \<le> 5"
  shows "snd (borrowed_value_fields (lce1_record (ascii ''VALUE'') fs)) = Inr fs"
proof -
  obtain f where f: "borrowed_record_fields (lce1_record (ascii ''VALUE'') fs) (ascii ''VALUE'') = Inr f" "at_fields f fs []"
    using borrowed_record_fields_record [OF assms(1)] by blast
  then have "bf_remaining f = length fs" by (simp add: at_fields_def)
  moreover obtain g where "snd (read_fields (length fs) f) = Inr (fs, g)" "at_fields g [] []"
    using read_fields_at [OF f(2)] by blast
  ultimately show ?thesis
    using f(1) assms(2,3) by (simp add: borrowed_value_fields_def Let_def next_field_end not_less)
qed

text \<open>The decoder, when its hook never fails.\<close>

definition from_canonical_bytes :: "bytes \<Rightarrow> PropertyValue res" where
  "from_canonical_bytes bs = snd (from_canonical_bytes_checked bs)"

lemma from_canonical_bytes_record:
  assumes "length bs \<le> usize_max" "bs = lce1_record (ascii ''VALUE'') ([tag] # fs)"
    and "expected_field_count tag = Inr (Suc (length fs))" "length fs \<le> 4"
    and "snd (decode_value (\<lambda>xs. decode_list xs) tag fs) = Inr v" "canonical_bytes v = Inr bs"
  shows "from_canonical_bytes bs = Inr v"
  using assms borrowed_value_fields_record [of "[tag] # fs"]
  unfolding from_canonical_bytes_def
  by (subst from_canonical_bytes_checked.simps) (simp add: canonical_bytes_def)

lemma decode_items_at:
  assumes "at_fields f items []" "list_all2 (\<lambda>b v. from_canonical_bytes b = Inr v) items vs"
  shows "snd (decode_items f) = Inr vs"
  using assms
proof (induction items arbitrary: f vs)
  case Nil
  then show ?case by (subst decode_items.simps) (simp add: next_field_end)
next
  case (Cons b items)
  obtain g where g: "next_field f = Inr (Some b, g)" "at_fields g items []"
    using next_field_at Cons.prems(1) by blast
  obtain w ws where "vs = w # ws" "from_canonical_bytes b = Inr w"
    "list_all2 (\<lambda>b v. from_canonical_bytes b = Inr v) items ws"
    using Cons.prems(2) by (auto simp: list_all2_Cons1)
  with g Cons.IH [of g ws] show ?case by (subst decode_items.simps) (simp add: from_canonical_bytes_def)
qed

lemma decode_list_counted:
  assumes "length (encode_counted items) \<le> usize_max"
    and "list_all2 (\<lambda>b v. from_canonical_bytes b = Inr v) items vs"
  shows "snd (decode_list [encode_counted items]) = Inr (VList vs)"
proof -
  obtain f where "borrowed_counted_fields (encode_counted items) = Inr f" "at_fields f items []"
    using borrowed_counted_fields_counted [OF assms(1)] by blast
  with decode_items_at [OF _ assms(2), of f] show ?thesis
    by (subst decode_list.simps) (simp add: value_field_def)
qed

lemma decode_point_fields:
  assumes "in_i64 (crs p)" "8 * length (coordinates p) \<le> usize_max"
  shows "snd (decode_point [i64_bytes (crs p), uleb_bytes (of_nat (length (coordinates p))),
            concat (map (\<lambda>c. u64_bytes (canonical_f64_bits c)) (coordinates p))])
       = Inr (canonical_value (VPoint p))"
proof -
  let ?cs = "map (\<lambda>c. u64_bytes (canonical_f64_bits c)) (coordinates p)"
  have "short (coordinates p)" using assms(2) by (simp add: short_def)
  moreover have "as_chunks 8 (concat ?cs) = (?cs, [])"
    using as_chunks_concat [of 8 ?cs "[]"] by simp
  moreover have "length (concat ?cs) = 8 * length (coordinates p)"
    using length_concat_same [of ?cs 8] by simp
  ultimately show ?thesis
    using assms
    by (simp add: decode_point_def value_field_def unat_of_short map_res_map_fun map_res_map u64_value_bytes)
qed

lemma coordinate_type_of_tag [simp]: "coordinate_type_of (coordinate_tag t) = Inr t"
  by (cases t) (simp_all add: coordinate_type_of_def coordinate_tag_def)

lemma decode_vector_fields:
  assumes "unat (dimension v) * coordinate_width (coordinate_type v) \<le> usize_max"
    and "length (packed v) = unat (dimension v) * coordinate_width (coordinate_type v)"
  shows "snd (decode_vector [[coordinate_tag (coordinate_type v)], uleb_bytes (dimension v),
            canonical_payload (coordinate_type v) (packed v)]) = Inr (canonical_value (VVector v))"
  using assms by (simp add: decode_vector_def one_byte_def value_field_def)

lemma expected_field_count_tag:
  "expected_field_count (type_tag_u8 v) =
     Inr (case v of VTime _ _ \<Rightarrow> 3 | VLocalDateTime _ _ \<Rightarrow> 3 | VZonedDateTime _ \<Rightarrow> 4 | VPoint _ \<Rightarrow> 4
                  | VVector _ \<Rightarrow> 4 | VDuration _ _ _ _ \<Rightarrow> 5 | _ \<Rightarrow> 2)"
  by (cases v) (simp_all add: expected_field_count_def)

lemma decode_value_tag:
  "decode_value d (type_tag_u8 v) xs = chk_then check (\<lambda>_.
     case v of
       VBoolean _ \<Rightarrow> chk_res (decode_boolean xs)
     | VInteger _ \<Rightarrow> chk_res (and_then (and_then (value_field xs 0) decode_i64) (\<lambda>v. Inr (VInteger v)))
     | VFloat _ \<Rightarrow> chk_res (and_then (and_then (value_field xs 0) decode_u64) (\<lambda>v. Inr (VFloat v)))
     | VString _ \<Rightarrow> chk_then (chk_res (value_field xs 0)) (\<lambda>bs. chk_then (utf8_checked bs) (\<lambda>s. chk_ok (VString s)))
     | VList _ \<Rightarrow> d xs
     | VPoint _ \<Rightarrow> decode_point xs
     | VVector _ \<Rightarrow> decode_vector xs
     | VUuid _ \<Rightarrow> chk_res (decode_uuid xs)
     | _ \<Rightarrow> decode_temporal_value (type_tag_u8 v) xs)"
  by (cases v) (simp_all add: decode_value_def decode_basic_value_def decode_special_value_def)

lemma decode_boolean_byte [simp]: "decode_boolean [[1]] = Inr (VBoolean True)" "decode_boolean [[0]] = Inr (VBoolean False)"
  unfolding decode_boolean_def one_byte_def value_field_def by simp_all

lemma decode_scalar_fields:
  assumes "wf_value v" "snd (scalar_fields v) = Inr fs" "\<And>vs. v \<noteq> VList vs"
  shows "fs = [type_tag_u8 v] # tl fs \<and> expected_field_count (type_tag_u8 v) = Inr (length fs)
    \<and> length fs \<le> 5 \<and> snd (decode_value (\<lambda>xs. decode_list xs) (type_tag_u8 v) (tl fs)) = Inr (canonical_value v)"
proof (cases v)
  case (VVector x)
  with assms(2) have x: "unat (dimension x) * coordinate_width (coordinate_type x) \<le> usize_max"
    "length (packed x) = unat (dimension x) * coordinate_width (coordinate_type x)"
    "fs = [[VECTOR], [coordinate_tag (coordinate_type x)], uleb_bytes (dimension x),
           canonical_payload (coordinate_type x) (packed x)]"
    by (auto simp: snd_vector_fields not_less split: if_splits)
  with VVector show ?thesis
    using decode_vector_fields [OF x(1,2)] unfolding expected_field_count_tag decode_value_tag by simp
qed (use assms in \<open>unfold expected_field_count_tag decode_value_tag, auto simp: value_field_def decode_temporal_value_def
      decode_zoned_datetime_def decode_duration_def decode_uuid_def snd_utf8_checked snd_point_fields
      decode_point_fields [simplified]\<close>)

lemma decode_list_fields:
  assumes "value_fields (VList vs) = Inr fs"
    and "\<And>w b. w \<in> set vs \<Longrightarrow> canonical_bytes w = Inr b \<Longrightarrow> from_canonical_bytes b = Inr (canonical_value w)"
  shows "\<exists>xs. fs = [LIST] # xs \<and> length xs = 1
    \<and> snd (decode_value (\<lambda>xs. decode_list xs) LIST xs) = Inr (canonical_value (VList vs))"
proof -
  obtain items p where items: "map_res canonical_bytes vs = Inr items"
    "snd (encode_counted_checked items) = Inr p" "fs = [[LIST], p]"
    using assms(1) by (auto simp: value_fields_def)
  have "list_all2 (\<lambda>w b. canonical_bytes w = Inr b) vs items"
    using items(1) by (simp add: map_res_Inr_iff)
  then have "list_all2 (\<lambda>b v. from_canonical_bytes b = Inr v) items (map canonical_value vs)"
    using assms(2) by (auto simp: list_all2_conv_all_nth)
  with items show ?thesis
    using decode_list_counted [of items "map canonical_value vs"] encode_counted_checked_short [OF items(2)]
    using decode_value_tag [of _ "VList []"] by simp
qed

lemma scalar_round_trip:
  assumes "wf_value v" "canonical_bytes v = Inr bs" "\<And>vs. v \<noteq> VList vs"
  shows "from_canonical_bytes bs = Inr (canonical_value v)"
proof -
  obtain fs where fs: "snd (scalar_fields v) = Inr fs" "snd (record_checked (ascii ''VALUE'') fs) = Inr bs"
    using assms(2,3) by (cases v) (auto simp: canonical_bytes_eq value_fields_def)
  obtain xs where xs: "fs = [type_tag_u8 v] # xs" "expected_field_count (type_tag_u8 v) = Inr (Suc (length xs))"
    "length xs \<le> 4" "snd (decode_value (\<lambda>xs. decode_list xs) (type_tag_u8 v) xs) = Inr (canonical_value v)"
    using decode_scalar_fields [OF assms(1) fs(1) assms(3)] by (cases fs) auto
  then show ?thesis
    using record_checked_short [OF fs(2)] assms(2)
    by (intro from_canonical_bytes_record [of bs "type_tag_u8 v" xs]) simp_all
qed

lemma canonical_round_trip:
  "wf_value v \<Longrightarrow> canonical_bytes v = Inr bs \<Longrightarrow> from_canonical_bytes bs = Inr (canonical_value v)"
proof (induction v arbitrary: bs)
  case (VList vs)
  obtain fs where fs: "value_fields (VList vs) = Inr fs" "snd (record_checked (ascii ''VALUE'') fs) = Inr bs"
    using VList.prems(2) by (auto simp: canonical_bytes_eq)
  obtain xs where xs: "fs = [LIST] # xs" "length xs = 1"
    "snd (decode_value (\<lambda>xs. decode_list xs) LIST xs) = Inr (canonical_value (VList vs))"
    using decode_list_fields [OF fs(1)] VList by auto
  show ?case
    using xs record_checked_short [OF fs(2)] VList.prems(2)
      canonical_bytes_canonical_value [of "VList vs"]
    by (intro from_canonical_bytes_record [of bs LIST xs]) (simp_all add: expected_field_count_def)
qed (rule scalar_round_trip; simp)+

section \<open>The decoder accepts only canonical encodings\<close>

lemma from_canonical_bytes_InrE:
  assumes "snd (from_canonical_bytes_checked bs) = Inr v"
  obtains fs tag where "snd (borrowed_value_fields bs) = Inr fs" "hd fs = [tag]"
    "expected_field_count tag = Inr (length fs)" "snd (decode_value decode_list tag (tl fs)) = Inr v"
    "canonical_bytes v = Inr bs"
proof -
  obtain fs where fs: "snd (borrowed_value_fields bs) = Inr fs"
    using assms by (subst (asm) from_canonical_bytes_checked.simps) auto
  obtain tag where tag: "hd fs = [tag]"
    using assms fs by (subst (asm) from_canonical_bytes_checked.simps)
      (cases "hd fs"; cases "tl (hd fs)"; auto)
  show thesis
    using assms fs tag that
    by (subst (asm) from_canonical_bytes_checked.simps) (auto simp: canonical_bytes_def split: if_splits)
qed

lemma from_canonical_bytes_canonical: "from_canonical_bytes bs = Inr v \<Longrightarrow> canonical_bytes v = Inr bs"
  unfolding from_canonical_bytes_def by (elim from_canonical_bytes_InrE)

lemma decode_int_range:
  "decode_i64 bs = Inr v \<Longrightarrow> in_i64 v" "decode_i32 bs = Inr w \<Longrightarrow> in_i32 w"
  by (auto simp: decode_i64_def decode_i32_def fixed_def intro: in_i64_from_le in_i32_from_le split: if_splits)

lemma decode_point_wf:
  assumes "snd (decode_point fs) = Inr v"
  shows "wf_value v"
proof -
  obtain c n bs where "in_i64 c" "length bs = n * 8" "n * 8 \<le> usize_max"
    "v = VPoint \<lparr>crs = c, coordinates = map (\<lambda>c. of_nat (le_value c)) (fst (as_chunks 8 bs))\<rparr>"
    using assms by (auto simp: decode_point_def map_res_map not_less dest: decode_int_range split: if_splits)
  then show ?thesis using as_chunks_exact(2) [of 8 bs n] by (simp add: mult.commute)
qed

lemma decode_vector_wf: "snd (decode_vector fs) = Inr v \<Longrightarrow> wf_value v"
  by (auto simp: decode_vector_def split: if_splits)

lemma decode_temporal_wf: "snd (decode_temporal_value tag fs) = Inr v \<Longrightarrow> wf_value v"
  by (auto simp: decode_temporal_value_def decode_zoned_datetime_def decode_duration_def snd_utf8_checked
      dest: decode_int_range split: if_splits)

lemma decode_special_wf: "snd (decode_special_value tag fs) = Inr v \<Longrightarrow> wf_value v"
  by (auto simp: decode_special_value_def decode_uuid_def split: if_splits
      dest: decode_point_wf decode_vector_wf)

lemma decode_value_wf:
  assumes "snd (decode_value d tag fs) = Inr v" "snd (d fs) = Inr v \<Longrightarrow> wf_value v"
  shows "wf_value v"
  using assms
  by (auto simp: decode_value_def decode_basic_value_def decode_boolean_def snd_utf8_checked
      dest: decode_temporal_wf decode_special_wf decode_int_range split: if_splits)

lemma decoder_wf:
  "snd (from_canonical_bytes_checked bs) = Inr v \<Longrightarrow> wf_value v"
  "snd (decode_list fs) = Inr u \<Longrightarrow> wf_value u"
  "snd (decode_items f) = Inr us \<Longrightarrow> \<forall>u \<in> set us. wf_value u"
proof (induction bs and fs and f arbitrary: v and u and us
    rule: from_canonical_bytes_checked_decode_list_decode_items.induct)
  case (1 bs)
  obtain fs tag where fs: "snd (borrowed_value_fields bs) = Inr fs" "hd fs = [tag]"
    "expected_field_count tag = Inr (length fs)" "snd (decode_value decode_list tag (tl fs)) = Inr v"
    using "1.prems" by (rule from_canonical_bytes_InrE)
  show ?case by (rule decode_value_wf [OF fs(4)]) (rule "1.IH"; use fs in simp)
next
  case (2 fs)
  from "2.prems" show ?case by (subst (asm) decode_list.simps) (auto dest: "2.IH" [rotated 2])
next
  case (3 f)
  show ?case
  proof (cases "us = []")
    case False
    with "3.prems" obtain y g w ws where "next_field f = Inr (Some y, g)"
      "snd (from_canonical_bytes_checked y) = Inr w" "snd (decode_items g) = Inr ws" "us = w # ws"
      by (subst (asm) decode_items.simps) (auto split: option.splits prod.splits)
    with "3.IH" [of "(Some y, g)" "Some y" g y] show ?thesis by auto
  qed simp
qed

lemma decoded_canonical: "from_canonical_bytes bs = Inr v \<Longrightarrow> wf_value v \<and> canonical_value v = v"
  using canonical_round_trip [of v bs] from_canonical_bytes_canonical [of bs v] decoder_wf(1) [of bs v]
  by (auto simp: from_canonical_bytes_def)

section \<open>Values a property may hold\<close>

lemma snd_same_family_loop [simp]:
  "snd (same_family_loop family vs) = Inr (\<forall>v \<in> set vs. list_element_family v = Some family)"
  by (induction vs) auto

lemma snd_is_property_value:
  "snd (is_property_value_checked v) =
     Inr (\<forall>vs. v = VList vs \<longrightarrow> vs \<noteq> [] \<longrightarrow> (\<exists>family. \<forall>w \<in> set vs. list_element_family w = Some family))"
  by (cases v) (auto simp: is_property_value_checked_def split: list.splits option.splits)

section \<open>Properties\<close>

text \<open>C21. Encoding then decoding a property value gives it back, with every NaN replaced by the
  canonical quiet NaN: lists nested to any depth, all fourteen types. The hypotheses are what the Rust
  types guarantee of a value, and that the encoder did not report an error.\<close>

theorem value_round_trip:
  assumes "wf_value v" and "canonical_bytes v = Inr bs"
  shows "from_canonical_bytes bs = Inr (canonical_value v)"
  by (rule canonical_round_trip [OF assms])

theorem value_round_trip_witness:
  "\<exists>bs. canonical_bytes (VList [VFloat 0x7ff0000000000001, VBoolean True]) = Inr bs
     \<and> from_canonical_bytes bs = Inr (VList [VFloat 0x7ff8000000000000, VBoolean True])"
proof -
  let ?v = "VList [VFloat 0x7ff0000000000001, VBoolean True]"
  let ?a = "lce1_record (ascii ''VALUE'') [[FLOAT], u64_bytes 0x7ff8000000000000]"
  let ?b = "lce1_record (ascii ''VALUE'') [[BOOLEAN], [1]]"
  have nan: "canonical_f64_bits 0x7ff0000000000001 = 0x7ff8000000000000" by code_simp
  have "canonical_bytes (VFloat 0x7ff0000000000001) = Inr ?a"
    by (rule canonical_bytes_ok) (simp add: value_fields_def nan, code_simp)
  moreover have "canonical_bytes (VBoolean True) = Inr ?b"
    by (rule canonical_bytes_ok) (simp add: value_fields_def, code_simp)
  moreover have "snd (encode_counted_checked [?a, ?b]) = Inr (encode_counted [?a, ?b])"
    by (rule encode_counted_checked_ok) code_simp
  ultimately have "value_fields ?v = Inr [[LIST], encode_counted [?a, ?b]]"
    by (simp add: value_fields_def)
  then have "canonical_bytes ?v = Inr (lce1_record (ascii ''VALUE'') [[LIST], encode_counted [?a, ?b]])"
    by (rule canonical_bytes_ok) code_simp
  then show ?thesis using value_round_trip [of ?v] by (simp add: nan)
qed

text \<open>C20. The decoder is strict: what it accepts is a well-formed value without non-canonical NaNs, and
  the accepted bytes are exactly the encoding of that value, so a value has one stored form.\<close>

theorem value_decode_strict:
  assumes "from_canonical_bytes bs = Inr v"
  shows "wf_value v \<and> canonical_value v = v \<and> canonical_bytes v = Inr bs"
  using decoded_canonical [OF assms] from_canonical_bytes_canonical [OF assms] by simp

theorem value_decode_strict_witness:
  "canonical_bytes (VBoolean True) = Inr (lce1_record (ascii ''VALUE'') [[BOOLEAN], [1]])"
proof -
  let ?bs = "lce1_record (ascii ''VALUE'') [[BOOLEAN], [1]]"
  have short: "length ?bs \<le> usize_max" by code_simp
  then have "canonical_bytes (VBoolean True) = Inr ?bs"
    by (intro canonical_bytes_ok) (simp_all add: value_fields_def)
  moreover have "decode_value d BOOLEAN [[1]] = chk_then check (\<lambda>_. chk_ok (VBoolean True))" for d
    using decode_value_tag [of d "VBoolean True" "[[1]]"] by (simp add: chk_res_def chk_ok_def)
  ultimately have "from_canonical_bytes ?bs = Inr (VBoolean True)"
    using short by (intro from_canonical_bytes_record [of ?bs BOOLEAN "[[1]]"]) (simp_all add: expected_field_count_def)
  from value_decode_strict [OF this] show ?thesis by simp
qed

text \<open>A value may be stored as a property unless it is a non-empty list whose elements are not all of
  one scalar family; lists of lists and lists of vectors are refused.\<close>

theorem is_property_value_spec:
  "is_property_value v \<longleftrightarrow>
     (case v of VList vs \<Rightarrow> vs = [] \<or> (\<exists>family. list_element_family ` set vs = {Some family}) | _ \<Rightarrow> True)"
proof (cases v)
  case (VList vs)
  have "(list_element_family ` set vs = {Some family}) \<longleftrightarrow> vs \<noteq> [] \<and> (\<forall>w \<in> set vs. list_element_family w = Some family)"
    for family by (cases vs) auto
  with VList show ?thesis by (auto simp: is_property_value_def snd_is_property_value)
qed (simp_all add: is_property_value_def snd_is_property_value)

end
