(* ===== verification/Property.thy ===== *)
theory Property
  imports Value
begin

text \<open>
  The relational form of a property value (\<^verbatim>\<open>storage/property.rs\<close>): a type tag and five nullable
  payload columns, as the property tables of a layer, a checkpoint and a snapshot store it.
\<close>

record PropertyColumns =
  pc_type_tag :: i64
  int_value :: "i64 option"
  real_value :: "u64 option"
  text_value :: "ustr option"
  blob_value :: "bytes option"
  aux_value :: "bytes option"

definition columns_empty :: "i64 \<Rightarrow> PropertyColumns" where
  "columns_empty tag =
     \<lparr>pc_type_tag = tag, int_value = None, real_value = None, text_value = None, blob_value = None,
      aux_value = None\<rparr>"

definition canonical_float_bits :: "u64 \<Rightarrow> bytes" where
  "canonical_float_bits b = u64_bytes (if f64_is_nan b then 0x7ff8000000000000 else b)"

definition checked_u64 :: "u64 \<Rightarrow> i64 res" where
  "checked_u64 v = (if uint v < 2 ^ 63 then Inr (uint v) else Inl (Corrupt '' exceeds INTEGER64''))"

definition checked_i64_to_u64 :: "i64 \<Rightarrow> u64 res" where
  "checked_i64_to_u64 v = (if v < 0 then Inl (Corrupt '' must not be negative'') else Inr (of_int v))"

definition columns_fixed :: "nat \<Rightarrow> bytes \<Rightarrow> bytes res" where
  "columns_fixed n bs = (if length bs = n then Inr bs else Inl (Corrupt '' must contain exactly bytes''))"

text \<open>IEEE equality of two binary64 values given by their bits.\<close>

definition f64_eq :: "u64 \<Rightarrow> u64 \<Rightarrow> bool" where
  "f64_eq a b \<longleftrightarrow> \<not> f64_is_nan a \<and> \<not> f64_is_nan b
     \<and> (a = b \<or> (a AND 0x7fffffffffffffff = 0 \<and> b AND 0x7fffffffffffffff = 0))"

fun column_payload :: "PropertyValue \<Rightarrow> PropertyColumns \<Rightarrow> PropertyColumns chk" where
  "column_payload (VBoolean v) c = chk_ok (c\<lparr>int_value := Some (if v then 1 else 0)\<rparr>)"
| "column_payload (VInteger v) c = chk_ok (c\<lparr>int_value := Some v\<rparr>)"
| "column_payload (VDate v) c = chk_ok (c\<lparr>int_value := Some v\<rparr>)"
| "column_payload (VFloat v) c =
     chk_ok (c\<lparr>real_value := (if f64_is_nan v then None else Some v),
               aux_value := Some (canonical_float_bits v)\<rparr>)"
| "column_payload (VString v) c = chk_then (copy_text_checked v) (\<lambda>s. chk_ok (c\<lparr>text_value := Some s\<rparr>))"
| "column_payload (VLocalTime v) c = chk_then (chk_res (checked_u64 v)) (\<lambda>n. chk_ok (c\<lparr>int_value := Some n\<rparr>))"
| "column_payload (VTime nanos offset) c =
     chk_then (chk_res (checked_u64 nanos)) (\<lambda>n.
       chk_ok (c\<lparr>int_value := Some n, aux_value := Some (i32_bytes offset)\<rparr>))"
| "column_payload (VLocalDateTime day nanos) c =
     chk_ok (c\<lparr>int_value := Some day, aux_value := Some (u64_bytes nanos)\<rparr>)"
| "column_payload (VZonedDateTime z) c =
     chk_then (append_checked (u32_bytes (zdt_nanoseconds z)) (zone_id z)) (\<lambda>aux.
       chk_ok (c\<lparr>int_value := Some (epoch_seconds z), aux_value := Some aux\<rparr>))"
| "column_payload v c =
     chk_then (canonical_bytes_checked v) (\<lambda>bs. chk_ok (c\<lparr>blob_value := Some bs\<rparr>))"

definition from_value_checked :: "PropertyValue \<Rightarrow> PropertyColumns chk" where
  "from_value_checked v =
     chk_then check (\<lambda>_.
     chk_then (column_payload v (columns_empty (type_tag v))) (\<lambda>c.
     chk_then check (\<lambda>_. chk_ok c)))"

definition only_integer_payload :: "PropertyColumns \<Rightarrow> bool" where
  "only_integer_payload c \<longleftrightarrow> int_value c \<noteq> None \<and> real_value c = None \<and> text_value c = None
     \<and> blob_value c = None \<and> aux_value c = None"

definition only_float_payload :: "PropertyColumns \<Rightarrow> bool" where
  "only_float_payload c \<longleftrightarrow> int_value c = None \<and> text_value c = None \<and> blob_value c = None
     \<and> (case aux_value c of None \<Rightarrow> False | Some a \<Rightarrow> length a = 8)"

definition only_text_payload :: "PropertyColumns \<Rightarrow> bool" where
  "only_text_payload c \<longleftrightarrow> int_value c = None \<and> real_value c = None \<and> text_value c \<noteq> None
     \<and> blob_value c = None \<and> aux_value c = None"

definition only_temporal_payload :: "PropertyColumns \<Rightarrow> bool" where
  "only_temporal_payload c \<longleftrightarrow> int_value c \<noteq> None \<and> real_value c = None \<and> text_value c = None
     \<and> blob_value c = None \<and> aux_value c \<noteq> None"

definition only_blob_payload :: "PropertyColumns \<Rightarrow> bool" where
  "only_blob_payload c \<longleftrightarrow> int_value c = None \<and> real_value c = None \<and> text_value c = None
     \<and> blob_value c \<noteq> None \<and> aux_value c = None"

definition validate_columns :: "PropertyColumns \<Rightarrow> unit res" where
  "validate_columns c =
     (let t = pc_type_tag c;
          valid = (if t \<in> {1, 2, 6, 7} then only_integer_payload c
                   else if t = 3 then only_float_payload c
                   else if t = 4 then only_text_payload c
                   else if 8 \<le> t \<and> t \<le> 10 then only_temporal_payload c
                   else if t = 5 \<or> (11 \<le> t \<and> t \<le> 14) then only_blob_payload c
                   else False)
      in if valid then Inr () else Inl (Corrupt ''property payload columns do not match its type tag''))"

definition required_int :: "PropertyColumns \<Rightarrow> i64 res" where
  "required_int c = ok_or (int_value c) (Corrupt ''property is missing integer payload'')"

definition required_text :: "PropertyColumns \<Rightarrow> ustr res" where
  "required_text c = ok_or (text_value c) (Corrupt ''property is missing text payload'')"

definition required_aux :: "PropertyColumns \<Rightarrow> bytes res" where
  "required_aux c = ok_or (aux_value c) (Corrupt ''property is missing auxiliary payload'')"

definition boolean_value :: "PropertyColumns \<Rightarrow> PropertyValue res" where
  "boolean_value c =
     and_then (required_int c) (\<lambda>i.
       if i = 0 then Inr (VBoolean False) else if i = 1 then Inr (VBoolean True)
       else Inl (Corrupt ''Boolean property contains invalid integer payload''))"

definition float_value :: "PropertyColumns \<Rightarrow> PropertyValue res" where
  "float_value c =
     and_then (and_then (required_aux c) (columns_fixed 8)) (\<lambda>bits.
       let raw = of_nat (le_value bits) :: u64 in
       if f64_is_nan raw then
         if real_value c \<noteq> None
         then Inl (Corrupt ''canonical NaN property must not contain SQLite REAL payload'')
         else if raw \<noteq> 0x7ff8000000000000
         then Inl (Corrupt ''Float NaN property does not use the canonical binary64 payload'')
         else Inr (VFloat raw)
       else if \<not> (case real_value c of None \<Rightarrow> False | Some r \<Rightarrow> f64_eq r raw)
       then Inl (Corrupt ''Float REAL payload does not match canonical numeric value'')
       else Inr (VFloat raw))"

definition time_value :: "PropertyColumns \<Rightarrow> PropertyValue res" where
  "time_value c =
     and_then (and_then (required_aux c) (columns_fixed 4)) (\<lambda>aux.
     and_then (and_then (required_int c) checked_i64_to_u64) (\<lambda>nanos.
       Inr (VTime nanos (i32_from_le aux))))"

definition local_datetime_value :: "PropertyColumns \<Rightarrow> PropertyValue res" where
  "local_datetime_value c =
     and_then (and_then (required_aux c) (columns_fixed 8)) (\<lambda>aux.
     and_then (required_int c) (\<lambda>day.
       Inr (VLocalDateTime day (of_nat (le_value aux)))))"

definition zoned_datetime_value :: "PropertyColumns \<Rightarrow> PropertyValue chk" where
  "zoned_datetime_value c =
     chk_then (chk_res (required_aux c)) (\<lambda>aux.
       if length aux < 4 then chk_err (Corrupt ''ZonedDateTime auxiliary payload is truncated'')
       else chk_then (chk_res (columns_fixed 4 (take 4 aux))) (\<lambda>nanos.
         if \<not> utf8_valid (drop 4 aux) then chk_err (Corrupt ''ZonedDateTime zone is not valid UTF-8'')
         else chk_then (chk_res (required_int c)) (\<lambda>secs.
              chk_then (copy_text_checked (drop 4 aux)) (\<lambda>zone.
                chk_ok (VZonedDateTime \<lparr>epoch_seconds = secs, zdt_nanoseconds = of_nat (le_value nanos),
                                        zone_id = zone\<rparr>)))))"

definition complex_value :: "PropertyColumns \<Rightarrow> i64 \<Rightarrow> PropertyValue chk" where
  "complex_value c expected_tag =
     chk_then (chk_res (ok_or (blob_value c) (Corrupt ''property is missing canonical blob payload''))) (\<lambda>blob.
     chk_then (from_canonical_bytes_checked blob) (\<lambda>v.
       if type_tag v \<noteq> expected_tag
       then chk_err (Corrupt ''property canonical blob type does not match type tag'')
       else chk_ok v))"

definition to_value_checked :: "PropertyColumns \<Rightarrow> PropertyValue chk" where
  "to_value_checked c =
     chk_then check (\<lambda>_.
     chk_then (chk_res (validate_columns c)) (\<lambda>_.
       let t = pc_type_tag c in
       if t = 1 then chk_res (boolean_value c)
       else if t = 2 then chk_res (and_then (required_int c) (\<lambda>i. Inr (VInteger i)))
       else if t = 3 then chk_res (float_value c)
       else if t = 4
       then chk_then (chk_res (required_text c)) (\<lambda>s. chk_then (copy_text_checked s) (\<lambda>s. chk_ok (VString s)))
       else if t = 5 then complex_value c 5
       else if t = 6 then chk_res (and_then (required_int c) (\<lambda>i. Inr (VDate i)))
       else if t = 7 then chk_res (and_then (required_int c) (\<lambda>i. Inr (VLocalTime (of_int i))))
       else if t = 8 then chk_res (time_value c)
       else if t = 9 then chk_res (local_datetime_value c)
       else if t = 10 then zoned_datetime_value c
       else if 11 \<le> t \<and> t \<le> 14 then complex_value c t
       else chk_err (Corrupt ''property contains unknown type tag'')))"

definition from_value :: "PropertyValue \<Rightarrow> PropertyColumns res" where
  "from_value v = snd (from_value_checked v)"

definition to_value :: "PropertyColumns \<Rightarrow> PropertyValue res" where
  "to_value c = snd (to_value_checked c)"

section \<open>Round trip\<close>

lemma checked_u64_Inr: "checked_u64 v = Inr i \<longleftrightarrow> i = uint v \<and> uint v < 2 ^ 63"
  by (auto simp: checked_u64_def)

lemma f64_eq_refl [simp]: "f64_eq b b \<longleftrightarrow> \<not> f64_is_nan b"
  by (simp add: f64_eq_def)

lemma f64_canonical_nan [simp]: "f64_is_nan 0x7ff8000000000000"
  by (simp add: f64_is_nan_def)

lemma float_columns:
  "to_value (columns_empty 3\<lparr>real_value := (if f64_is_nan v then None else Some v),
       aux_value := Some (canonical_float_bits v)\<rparr>) = Inr (VFloat (canonical_f64_bits v))"
  by (simp add: to_value_def to_value_checked_def validate_columns_def columns_empty_def only_float_payload_def
      canonical_float_bits_def float_value_def required_aux_def columns_fixed_def u64_value_bytes
      canonical_f64_bits_def)

lemma complex_columns:
  assumes "canonical_bytes v = Inr bs" "wf_value v" "t = type_tag v" "t = 5 \<or> 11 \<le> t \<and> t \<le> 14"
  shows "to_value (columns_empty t\<lparr>blob_value := Some bs\<rparr>) = Inr (canonical_value v)"
proof -
  have "type_tag (canonical_value v) = type_tag v" by (cases v) (simp_all add: type_tag_def)
  moreover have "snd (from_canonical_bytes_checked bs) = Inr (canonical_value v)"
    using canonical_round_trip [OF assms(2,1)] by (simp add: from_canonical_bytes_def)
  ultimately show ?thesis
    using assms(3,4)
    by (auto simp: to_value_def to_value_checked_def validate_columns_def columns_empty_def only_blob_payload_def
        complex_value_def)
qed

lemmas column_reader_defs =
  to_value_def to_value_checked_def validate_columns_def columns_empty_def only_integer_payload_def
  only_text_payload_def only_temporal_payload_def boolean_value_def required_int_def required_text_def
  required_aux_def time_value_def local_datetime_value_def zoned_datetime_value_def columns_fixed_def
  checked_i64_to_u64_def

lemma columns_round_trip:
  assumes "wf_value v" "from_value v = Inr c"
  shows "to_value c = Inr (canonical_value v)"
proof (cases v)
  case (VFloat b)
  with assms(2) float_columns [of b] show ?thesis
    by (auto simp: from_value_def from_value_checked_def type_tag_def)
next
  case (VZonedDateTime z)
  with assms show ?thesis
    by (auto simp: from_value_def from_value_checked_def type_tag_def column_reader_defs snd_copy_text_checked
        u32_value_bytes)
qed (use assms complex_columns [of v] in \<open>auto simp: from_value_def from_value_checked_def type_tag_def
      column_reader_defs canonical_bytes_def checked_u64_Inr snd_copy_text_checked i32_from_le_bytes
      u64_value_bytes\<close>)

lemma to_value_tag: "to_value c = Inr v \<Longrightarrow> validate_columns c = Inr () \<and> type_tag v = pc_type_tag c"
  by (auto simp: to_value_def to_value_checked_def boolean_value_def float_value_def time_value_def
      local_datetime_value_def zoned_datetime_value_def complex_value_def type_tag_def Let_def split: if_splits)

section \<open>Properties\<close>

text \<open>C31. A property value written to its columns and read back is the same value, up to the canonical
  NaN: for every value the Rust types allow whose columns can be written (a time of day above the range
  of a 64-bit column is refused when it is written).\<close>

theorem property_columns_round_trip:
  assumes "wf_value v" and "from_value v = Inr c"
  shows "to_value c = Inr (canonical_value v)"
  by (rule columns_round_trip [OF assms])

theorem property_columns_round_trip_witness:
  "to_value \<lparr>pc_type_tag = 8, int_value = Some 5, real_value = None, text_value = None, blob_value = None,
             aux_value = Some [0xff, 0xff, 0xff, 0xff]\<rparr> = Inr (VTime 5 (- 1))"
proof -
  have "from_value (VTime 5 (- 1)) =
      Inr \<lparr>pc_type_tag = 8, int_value = Some 5, real_value = None, text_value = None, blob_value = None,
           aux_value = Some [0xff, 0xff, 0xff, 0xff]\<rparr>"
    by code_simp
  moreover have "wf_value (VTime 5 (- 1))" by code_simp
  ultimately show ?thesis using property_columns_round_trip [of "VTime 5 (- 1)"] by simp
qed

text \<open>C32. Rows are validated before they are interpreted: columns are read only if exactly the payload
  columns of their type tag are filled, and the value read has that tag.\<close>

theorem property_columns_validated:
  assumes "to_value c = Inr v"
  shows "type_tag v = pc_type_tag c \<and> 1 \<le> pc_type_tag c \<and> pc_type_tag c \<le> 14
    \<and> (int_value c \<noteq> None \<longleftrightarrow> pc_type_tag c \<in> {1, 2, 6, 7, 8, 9, 10})
    \<and> (text_value c \<noteq> None \<longleftrightarrow> pc_type_tag c = 4)
    \<and> (blob_value c \<noteq> None \<longleftrightarrow> pc_type_tag c \<in> {5, 11, 12, 13, 14})
    \<and> (aux_value c \<noteq> None \<longleftrightarrow> pc_type_tag c \<in> {3, 8, 9, 10})
    \<and> (real_value c \<noteq> None \<longrightarrow> pc_type_tag c = 3)"
  using to_value_tag [OF assms]
  by (auto simp: validate_columns_def Let_def only_integer_payload_def only_float_payload_def
      only_text_payload_def only_temporal_payload_def only_blob_payload_def split: if_splits option.splits)

theorem property_columns_validated_witness:
  "to_value (columns_empty 2\<lparr>int_value := Some 7\<rparr>) = Inr (VInteger 7) \<and> type_tag (VInteger 7) = 2"
proof -
  have read: "to_value (columns_empty 2\<lparr>int_value := Some 7\<rparr>) = Inr (VInteger 7)" by code_simp
  then show ?thesis using property_columns_validated [OF read] by (simp add: columns_empty_def)
qed

text \<open>C33. A negative integer column, whatever its value, is refused for a \<^verbatim>\<open>Time\<close> but reinterpreted as an
  unsigned number for a \<^verbatim>\<open>LocalTime\<close>: the row reads as a value of more than 2^63 nanoseconds that can
  not be written back. Of the columns of a \<^verbatim>\<open>LocalTime\<close> exactly those that are not negative are read as a value
  that is written to the same columns.\<close>

theorem negative_local_time_accepted:
  assumes "in_i64 n" and "n < 0"
  shows "to_value (columns_empty 7\<lparr>int_value := Some n\<rparr>) = Inr (VLocalTime (word_of_int n))
    \<and> uint (word_of_int n :: u64) = n + 2 ^ 64
    \<and> from_value (VLocalTime (word_of_int n)) = Inl (Corrupt '' exceeds INTEGER64'')
    \<and> (\<forall>aux. length aux = 4 \<longrightarrow>
         to_value (columns_empty 8\<lparr>int_value := Some n, aux_value := Some aux\<rparr>) = Inl (Corrupt '' must not be negative''))
    \<and> (\<forall>m. in_i64 m \<longrightarrow> (\<exists>v. to_value (columns_empty 7\<lparr>int_value := Some m\<rparr>) = Inr v
         \<and> (from_value v = Inr (columns_empty 7\<lparr>int_value := Some m\<rparr>) \<longleftrightarrow> 0 \<le> m)))"
proof -
  have read: "to_value (columns_empty 7\<lparr>int_value := Some m\<rparr>) = Inr (VLocalTime (word_of_int m))" for m
    by (simp add: column_reader_defs)
  have stored: "from_value (VLocalTime w) = and_then (checked_u64 w) (\<lambda>i. Inr (columns_empty 7\<lparr>int_value := Some i\<rparr>))" for w
    by (cases "checked_u64 w") (simp_all add: from_value_def from_value_checked_def type_tag_def)
  have big: "uint (word_of_int m :: u64) = m + 2 ^ 64" if "in_i64 m" "m < 0" for m
  proof -
    have "m mod 2 ^ 64 = (m + 2 ^ 64) mod 2 ^ 64" by simp
    also have "\<dots> = m + 2 ^ 64" using that by (intro mod_pos_pos_trivial) (simp_all add: in_i64_def)
    finally show ?thesis by (simp add: uint_word_of_int)
  qed
  have small: "uint (word_of_int m :: u64) = m" if "in_i64 m" "0 \<le> m" for m
    using that by (simp add: uint_word_of_int in_i64_def)
  have refused: "from_value (VLocalTime (word_of_int m)) = Inl (Corrupt '' exceeds INTEGER64'')" if "in_i64 m" "m < 0" for m
    using that big [OF that] by (simp add: stored checked_u64_def in_i64_def)
  have kept: "from_value (VLocalTime (word_of_int m)) = Inr (columns_empty 7\<lparr>int_value := Some m\<rparr>)" if "in_i64 m" "0 \<le> m" for m
    using that small [OF that] by (simp add: stored checked_u64_def in_i64_def)
  have "to_value (columns_empty 8\<lparr>int_value := Some n, aux_value := Some aux\<rparr>) = Inl (Corrupt '' must not be negative'')"
    if "length aux = 4" for aux
    using that assms(2) by (simp add: column_reader_defs)
  moreover have "\<exists>v. to_value (columns_empty 7\<lparr>int_value := Some m\<rparr>) = Inr v
         \<and> (from_value v = Inr (columns_empty 7\<lparr>int_value := Some m\<rparr>) \<longleftrightarrow> 0 \<le> m)" if "in_i64 m" for m
    using read [of m] refused [OF that] kept [OF that] by (cases "0 \<le> m") auto
  ultimately show ?thesis using read big [OF assms] refused [OF assms] by blast
qed

theorem negative_local_time_accepted_witness:
  "to_value (columns_empty 7\<lparr>int_value := Some (- 1)\<rparr>) = Inr (VLocalTime 0xffffffffffffffff)
   \<and> from_value (VLocalTime 0xffffffffffffffff) = Inl (Corrupt '' exceeds INTEGER64'')"
proof -
  have w: "(- 1 :: u64) = 0xffffffffffffffff" by simp
  have "to_value (columns_empty 7\<lparr>int_value := Some (- 1)\<rparr>) = Inr (VLocalTime (- 1))
      \<and> from_value (VLocalTime (- 1)) = Inl (Corrupt '' exceeds INTEGER64'')"
    using negative_local_time_accepted [of "- 1"] by (simp add: in_i64_def)
  then show ?thesis unfolding w .
qed

end
