(* ===== verification/Ordered_Map.thy ===== *)
theory Ordered_Map
  imports Prelude
begin

text \<open>
  Finite maps iterated in key order: the model of \<^verbatim>\<open>BTreeMap\<close>, of \<^verbatim>\<open>BTreeSet\<close> (unit values) and of
  a SQLite table stored by its primary key. The representation is the strictly ascending list of
  entries, so two maps with the same lookups are equal and iteration order is determined.

  The locale \<open>kv_store\<close> states what a client of such a map relies on; the client's lemmas are
  proved there once and reach the components through the interpretation \<open>om\<close>.
\<close>

section \<open>The interface\<close>

locale kv_store =
  fixes empty :: 'm
    and put :: "'k \<Rightarrow> 'v \<Rightarrow> 'm \<Rightarrow> 'm"
    and del :: "'k \<Rightarrow> 'm \<Rightarrow> 'm"
    and get :: "'m \<Rightarrow> 'k \<Rightarrow> 'v option"
  assumes get_empty: "get empty = Map.empty"
    and get_put: "get (put k v m) = (get m)(k \<mapsto> v)"
    and get_del: "get (del k m) = (get m)(k := None)"
    and get_inject: "get m = get m' \<Longrightarrow> m = m'"
begin

lemma put_put_same: "put k v (put k w m) = put k v m"
  by (rule get_inject) (simp add: get_put)

lemma put_commute: "k \<noteq> l \<Longrightarrow> put k v (put l w m) = put l w (put k v m)"
  by (rule get_inject) (simp add: get_put fun_upd_twist)

lemma put_get_same: "get m k = Some v \<Longrightarrow> put k v m = m"
  by (rule get_inject) (auto simp: get_put)

lemma del_absent: "get m k = None \<Longrightarrow> del k m = m"
  by (rule get_inject) (auto simp: get_del)

lemma get_fold_put: "get (fold (\<lambda>(k, v). put k v) kvs m) = get m ++ map_of (rev kvs)"
proof (induction kvs arbitrary: m)
  case (Cons kv kvs)
  then show ?case by (cases kv) (simp add: get_put map_add_def fun_eq_iff split: option.splits)
qed simp

lemma get_fold_del: "get (fold del ks m) = (get m) |` (- set ks)"
proof (induction ks arbitrary: m)
  case (Cons k ks)
  then show ?case by (auto simp: get_del restrict_map_def fun_eq_iff)
qed (simp add: restrict_map_def fun_eq_iff)

end

section \<open>Ascending association lists\<close>

abbreviation asc :: "('k::linorder \<times> 'v) list \<Rightarrow> bool" where
  "asc xs \<equiv> sorted_wrt (<) (map fst xs)"

fun al_put :: "'k::linorder \<Rightarrow> 'v \<Rightarrow> ('k \<times> 'v) list \<Rightarrow> ('k \<times> 'v) list" where
  "al_put k v [] = [(k, v)]"
| "al_put k v ((l, w) # xs) =
     (if k < l then (k, v) # (l, w) # xs
      else if k = l then (k, v) # xs
      else (l, w) # al_put k v xs)"

fun al_del :: "'k::linorder \<Rightarrow> ('k \<times> 'v) list \<Rightarrow> ('k \<times> 'v) list" where
  "al_del k [] = []"
| "al_del k ((l, w) # xs) = (if k = l then xs else (l, w) # al_del k xs)"

lemma set_al_put: "fst ` set (al_put k v xs) = insert k (fst ` set xs)"
  by (induction k v xs rule: al_put.induct) auto

lemma set_al_del: "fst ` set (al_del k xs) \<subseteq> fst ` set xs"
  by (induction k xs rule: al_del.induct) auto

lemma asc_al_put: "asc xs \<Longrightarrow> asc (al_put k v xs)"
  by (induction k v xs rule: al_put.induct) (fastforce simp: set_al_put)+

lemma asc_al_del: "asc xs \<Longrightarrow> asc (al_del k xs)"
  by (induction k xs rule: al_del.induct) (use set_al_del in fastforce)+

lemma map_of_al_put: "map_of (al_put k v xs) = (map_of xs)(k \<mapsto> v)"
  by (induction k v xs rule: al_put.induct) (auto simp: fun_eq_iff)

lemma asc_map_of_None: "asc ((k, v) # xs) \<Longrightarrow> map_of xs k = None"
  by (auto simp: map_of_eq_None_iff)

lemma map_of_al_del: "asc xs \<Longrightarrow> map_of (al_del k xs) = (map_of xs)(k := None)"
  by (induction k xs rule: al_del.induct) (auto simp: fun_eq_iff asc_map_of_None)

lemma asc_distinct: "asc xs \<Longrightarrow> distinct (map fst xs)"
  by (simp add: strict_sorted_iff)

lemma asc_filter: "asc xs \<Longrightarrow> asc (filter P xs)"
  by (induction xs) auto

lemma asc_map_snd: "asc (map (\<lambda>(k, v). (k, f k v)) xs) = asc xs"
  by (simp add: comp_def case_prod_beta)

lemma asc_ext:
  assumes "asc xs" "asc ys" "map_of xs = map_of ys"
  shows "xs = ys"
proof -
  have same: "set xs = set ys"
    using assms by (metis asc_distinct map_of_inject_set)
  have "inj_on fst (set xs \<union> set ys)"
    using asc_distinct [OF assms(1)] same by (simp add: distinct_map)
  then show ?thesis
    using assms(1,2) same by (auto simp: strict_sorted_iff intro: map_sorted_distinct_set_unique)
qed

section \<open>Ordered maps\<close>

typedef (overloaded) ('k, 'v) omap = "{xs :: ('k::linorder \<times> 'v) list. asc xs}"
  morphisms om_entries Omap
  by (rule exI [of _ "[]"]) simp

setup_lifting type_definition_omap

lift_definition om_empty :: "('k::linorder, 'v) omap" is "[]"
  by simp

lift_definition om_put :: "'k::linorder \<Rightarrow> 'v \<Rightarrow> ('k, 'v) omap \<Rightarrow> ('k, 'v) omap" is al_put
  by (rule asc_al_put)

lift_definition om_del :: "'k::linorder \<Rightarrow> ('k, 'v) omap \<Rightarrow> ('k, 'v) omap" is al_del
  by (rule asc_al_del)

lift_definition om_filter ::
  "('k::linorder \<Rightarrow> 'v \<Rightarrow> bool) \<Rightarrow> ('k, 'v) omap \<Rightarrow> ('k, 'v) omap" is
  "\<lambda>P. filter (\<lambda>(k, v). P k v)"
  by (rule asc_filter)

lift_definition om_map ::
  "('k::linorder \<Rightarrow> 'v \<Rightarrow> 'w) \<Rightarrow> ('k, 'v) omap \<Rightarrow> ('k, 'w) omap" is
  "\<lambda>f. map (\<lambda>(k, v). (k, f k v))"
  by (simp only: asc_map_snd)

definition om_get :: "('k::linorder, 'v) omap \<Rightarrow> 'k \<Rightarrow> 'v option" where
  "om_get m = map_of (om_entries m)"

definition om_keys :: "('k::linorder, 'v) omap \<Rightarrow> 'k list" where
  "om_keys m = map fst (om_entries m)"

definition om_values :: "('k::linorder, 'v) omap \<Rightarrow> 'v list" where
  "om_values m = map snd (om_entries m)"

definition om_size :: "('k::linorder, 'v) omap \<Rightarrow> nat" where
  "om_size m = length (om_entries m)"

definition om_is_empty :: "('k::linorder, 'v) omap \<Rightarrow> bool" where
  "om_is_empty m \<longleftrightarrow> om_entries m = []"

definition om_has :: "('k::linorder, 'v) omap \<Rightarrow> 'k \<Rightarrow> bool" where
  "om_has m k \<longleftrightarrow> om_get m k \<noteq> None"

text \<open>Inserting a list of entries one after the other, a later one replacing an earlier one.\<close>

definition om_put_all :: "('k::linorder \<times> 'v) list \<Rightarrow> ('k, 'v) omap \<Rightarrow> ('k, 'v) omap" where
  "om_put_all = fold (\<lambda>(k, v). om_put k v)"

definition om_of :: "('k::linorder \<times> 'v) list \<Rightarrow> ('k, 'v) omap" where
  "om_of kvs = om_put_all kvs om_empty"

lemma asc_om_entries [simp]: "asc (om_entries m)"
  using om_entries by blast

lemma distinct_om_keys [simp]: "distinct (map fst (om_entries m))" "distinct (om_keys m)"
  by (simp_all add: asc_distinct om_keys_def)

lemma om_ext: "om_get m = om_get m' \<Longrightarrow> m = m'"
  by (simp add: om_get_def asc_ext om_entries_inject [symmetric])

lemma om_get_empty [simp]: "om_get om_empty = Map.empty"
  by (simp add: om_get_def om_empty.rep_eq)

lemma om_get_put: "om_get (om_put k v m) = (om_get m)(k \<mapsto> v)"
  by (simp add: om_get_def om_put.rep_eq map_of_al_put)

lemma om_get_del: "om_get (om_del k m) = (om_get m)(k := None)"
  by (simp add: om_get_def om_del.rep_eq map_of_al_del)

lemma om_get_put_at [simp]: "om_get (om_put k v m) l = (if l = k then Some v else om_get m l)"
  by (simp add: om_get_put)

lemma om_get_del_at [simp]: "om_get (om_del k m) l = (if l = k then None else om_get m l)"
  by (simp add: om_get_del)

interpretation om: kv_store om_empty om_put om_del om_get
  by unfold_locales (simp_all add: om_get_put om_get_del om_ext)

lemma om_get_put_all: "om_get (om_put_all kvs m) = om_get m ++ map_of (rev kvs)"
  unfolding om_put_all_def by (rule om.get_fold_put)

lemma om_entries_iff: "(k, v) \<in> set (om_entries m) \<longleftrightarrow> om_get m k = Some v"
  by (simp add: om_get_def)

lemma om_keys_iff: "k \<in> set (om_keys m) \<longleftrightarrow> om_get m k \<noteq> None"
  by (simp add: om_keys_def om_get_def map_of_eq_None_iff)

lemma om_has_simps [simp]:
  "om_has om_empty k = False" "om_has (om_put k v m) l = (l = k \<or> om_has m l)"
  "om_has (om_del k m) l = (l \<noteq> k \<and> om_has m l)"
  by (auto simp: om_has_def)

lemma om_get_filter: "om_get (om_filter P m) k = (case om_get m k of None \<Rightarrow> None | Some v \<Rightarrow> if P k v then Some v else None)"
proof -
  have "map_of (filter (\<lambda>(k, v). P k v) xs) k =
      (case map_of xs k of None \<Rightarrow> None | Some v \<Rightarrow> if P k v then Some v else None)"
    if "distinct (map fst xs)" for xs
    using that by (induction xs) (auto split: option.splits simp: map_of_eq_None_iff rev_image_eqI)
  then show ?thesis by (simp add: om_get_def om_filter.rep_eq)
qed

lemma om_get_map: "om_get (om_map f m) k = map_option (f k) (om_get m k)"
proof -
  have "map_of (map (\<lambda>(k, v). (k, f k v)) xs) k = map_option (f k) (map_of xs k)" for xs
    by (induction xs) auto
  then show ?thesis by (simp add: om_get_def om_map.rep_eq)
qed

lemma finite_dom_om_get [simp]: "finite (dom (om_get m))"
  by (simp add: om_get_def finite_dom_map_of)

lemma set_om_keys: "set (om_keys m) = dom (om_get m)"
  by (auto simp: om_keys_iff)

lemma om_size_card: "om_size m = card (dom (om_get m))"
  by (metis distinct_card distinct_om_keys(2) length_map om_keys_def om_size_def set_om_keys)

lemma om_is_empty_iff: "om_is_empty m \<longleftrightarrow> m = om_empty"
  by (simp add: om_is_empty_def om_empty.rep_eq om_entries_inject [symmetric])

lemma om_put_all_entries [simp]: "om_put_all (om_entries m) om_empty = m"
proof (rule om_ext)
  have "map_of (rev (om_entries m)) = map_of (om_entries m)"
    by (rule map_of_inject_set [THEN iffD2]) (simp_all flip: rev_map)
  then show "om_get (om_put_all (om_entries m) om_empty) = om_get m"
    unfolding om_get_put_all by (simp add: om_get_def om_empty.rep_eq)
qed

text \<open>A subset of the same size is the whole map (the slot-count check of a stored layer).\<close>

lemma om_sub_eqI:
  assumes sub: "\<And>k v. om_get m k = Some v \<Longrightarrow> om_get m' k = Some v" and "om_size m = om_size m'"
  shows "m = m'"
proof (rule om_ext)
  have "dom (om_get m) \<subseteq> dom (om_get m')" using sub by blast
  then have "dom (om_get m) = dom (om_get m')"
    using assms(2) by (simp add: om_size_card card_subset_eq)
  then show "om_get m = om_get m'"
    using sub by (metis (no_types, opaque_lifting) domD domIff ext option.exhaust)
qed

text \<open>A condition on every entry.\<close>

definition om_all :: "('k::linorder \<Rightarrow> 'v \<Rightarrow> bool) \<Rightarrow> ('k, 'v) omap \<Rightarrow> bool" where
  "om_all P m \<longleftrightarrow> list_all (\<lambda>(k, v). P k v) (om_entries m)"

lemma om_all_iff: "om_all P m \<longleftrightarrow> (\<forall>k v. om_get m k = Some v \<longrightarrow> P k v)"
  by (auto simp: om_all_def list_all_iff om_entries_iff [symmetric])

lemma om_allD: "om_all P m \<Longrightarrow> om_get m k = Some v \<Longrightarrow> P k v"
  by (simp add: om_all_iff)

lemma om_all_empty [simp]: "om_all P om_empty"
  by (simp add: om_all_iff)

lemma om_all_put: "om_all P m \<Longrightarrow> P k v \<Longrightarrow> om_all P (om_put k v m)"
  by (simp add: om_all_iff)

lemma om_all_map: "om_all P (om_map f m) \<longleftrightarrow> om_all (\<lambda>k v. P k (f k v)) m"
  by (auto simp: om_all_iff om_get_map)

text \<open>Inserting the entries of one map into another under renamed keys.\<close>

definition om_graft :: "('k::linorder \<Rightarrow> 'l::linorder) \<Rightarrow> ('k \<Rightarrow> 'v \<Rightarrow> 'w) \<Rightarrow> ('k, 'v) omap \<Rightarrow> ('l, 'w) omap \<Rightarrow> ('l, 'w) omap" where
  "om_graft f g m t = om_put_all (map (\<lambda>(k, v). (f k, g k v)) (om_entries m)) t"

lemma map_of_rev: "distinct (map fst kvs) \<Longrightarrow> map_of (rev kvs) = map_of kvs"
  by (rule map_of_inject_set [THEN iffD2]) (simp_all flip: rev_map)

lemma om_get_graft:
  assumes "inj f"
  shows "om_get (om_graft f g m t) (f k) = (case om_get m k of None \<Rightarrow> om_get t (f k) | Some v \<Rightarrow> Some (g k v))"
    and "l \<notin> range f \<Longrightarrow> om_get (om_graft f g m t) l = om_get t l"
proof -
  let ?kvs = "map (\<lambda>(k, v). (f k, g k v)) (om_entries m)"
  have "map fst ?kvs = map f (om_keys m)" by (simp add: om_keys_def case_prod_unfold)
  then have d: "distinct (map fst ?kvs)"
    using assms by (simp add: distinct_map inj_on_def inj_def)
  have "map_of (map (\<lambda>(k, v). (f k, g k v)) xs) (f k) = map_option (g k) (map_of xs k)" for xs k
    using assms by (induction xs) (auto simp: inj_def)
  then have "map_of ?kvs (f k) = map_option (g k) (om_get m k)" by (simp add: om_get_def)
  then show "om_get (om_graft f g m t) (f k) = (case om_get m k of None \<Rightarrow> om_get t (f k) | Some v \<Rightarrow> Some (g k v))"
    by (simp add: om_graft_def om_get_put_all map_of_rev [OF d] map_add_def split: option.splits)
  show "om_get (om_graft f g m t) l = om_get t l" if "l \<notin> range f"
  proof -
    have "map_of ?kvs l = None" using that by (auto simp: map_of_eq_None_iff)
    then show ?thesis by (simp add: om_graft_def om_get_put_all map_of_rev [OF d] map_add_def)
  qed
qed

lemma om_put_all_map [simp]: "om_put_all (map (\<lambda>(k, v). (k, g k v)) (om_entries m)) om_empty = om_map g m"
  by (metis om_map.rep_eq om_put_all_entries)

text \<open>The entries below one first component, as a map from the rest of the key.\<close>

lemma asc_slice:
  "asc xs \<Longrightarrow> asc (map (\<lambda>((_, k), v). (k, v)) (filter (\<lambda>((l, _), _). l = i) xs))"
  for xs :: "(('i::linorder \<times> 'k::linorder) \<times> 'v) list"
proof (induction xs)
  case (Cons x xs)
  obtain l k v where x: "x = ((l, k), v)" by (metis prod.collapse)
  have "k < k'" if "((l, k'), v') \<in> set xs" for k' v'
    using Cons.prems that x by (auto simp: less_prod_def' less_prod_def)
  with Cons x show ?case by (fastforce simp: case_prod_unfold)
qed simp

lift_definition om_slice :: "'i::linorder \<Rightarrow> ('i \<times> 'k::linorder, 'v) omap \<Rightarrow> ('k, 'v) omap" is
  "\<lambda>i xs. map (\<lambda>((_, k), v). (k, v)) (filter (\<lambda>((l, _), _). l = i) xs)"
  by (rule asc_slice)

lemma om_get_slice [simp]: "om_get (om_slice i t) k = om_get t (i, k)"
  for i :: "'i::linorder" and k :: "'k::linorder" and t :: "('i \<times> 'k, 'v) omap"
proof -
  have "map_of (map (\<lambda>((_, k), v). (k, v)) (filter (\<lambda>((l, _), _). l = i) xs)) k = map_of xs (i, k)"
    for xs :: "(('i \<times> 'k) \<times> 'v) list"
    by (induction xs) auto
  then show ?thesis by (simp add: om_get_def om_slice.rep_eq)
qed

instantiation omap :: (linorder, equal) equal
begin

definition equal_omap :: "('a, 'b) omap \<Rightarrow> ('a, 'b) omap \<Rightarrow> bool" where
  "equal_omap m m' \<longleftrightarrow> om_entries m = om_entries m'"

instance
  by standard (simp add: equal_omap_def om_entries_inject)

end

end
