(* ===== verification/Storage_Base.thy ===== *)
theory Storage_Base
  imports Property Ordered_Map
begin

text \<open>
  The vocabulary of the storage layer (\<^verbatim>\<open>storage/mod.rs\<close>, \<^verbatim>\<open>storage/layer.rs\<close>): content
  identifiers and their hexadecimal form, property owners, delta operations and commit metadata. The
  errors are in \<^verbatim>\<open>Prelude\<close>.
\<close>

abbreviation (input) STORAGE_FORMAT :: i64 where "STORAGE_FORMAT \<equiv> 3"

section \<open>Content identifiers\<close>

definition hash_from_slice :: "bytes \<Rightarrow> hash_id res" where
  "hash_from_slice bs =
     (if length bs = 32 then Inr bs else Inl (Corrupt ''content hash must contain exactly 32 bytes''))"

text \<open>\<^verbatim>\<open>u8::is_ascii_hexdigit\<close> and the value of a digit.\<close>

definition hex_digit :: "byte \<Rightarrow> nat option" where
  "hex_digit b =
     (let n = unat b in
      if 48 \<le> n \<and> n \<le> 57 then Some (n - 48)
      else if 65 \<le> n \<and> n \<le> 70 then Some (n - 55)
      else if 97 \<le> n \<and> n \<le> 102 then Some (n - 87)
      else None)"

text \<open>\<^verbatim>\<open>u8::from_str_radix(pair, 16)\<close> on two hexadecimal digits.\<close>

definition from_str_radix_16 :: "bytes \<Rightarrow> byte option" where
  "from_str_radix_16 pair =
     (case map hex_digit pair of [Some h, Some l] \<Rightarrow> Some (of_nat (16 * h + l)) | _ \<Rightarrow> None)"

definition hash_from_hex :: "ustr \<Rightarrow> hash_id res" where
  "hash_from_hex text =
     (if length text \<noteq> 64 \<or> \<not> list_all (\<lambda>b. hex_digit b \<noteq> None) text then Inl (NotFound ''Commit'')
      else map_res (\<lambda>pair. ok_or (from_str_radix_16 pair) (NotFound ''Commit'')) (fst (as_chunks 2 text)))"

text \<open>One byte formatted as \<^verbatim>\<open>{byte:02x}\<close>.\<close>

definition hex_char :: "nat \<Rightarrow> byte" where
  "hex_char d = of_nat (if d < 10 then d + 48 else d + 87)"

definition hash_to_hex :: "hash_id \<Rightarrow> ustr" where
  "hash_to_hex h = concat (map (\<lambda>b. [hex_char (unat b div 16), hex_char (unat b mod 16)]) h)"

section \<open>Owners, operations, metadata\<close>

datatype OwnerKind = Node | Relationship

definition owner_i64 :: "OwnerKind \<Rightarrow> i64" where
  "owner_i64 k = (case k of Node \<Rightarrow> 1 | Relationship \<Rightarrow> 2)"

definition owner_from_i64 :: "i64 \<Rightarrow> OwnerKind res" where
  "owner_from_i64 i =
     (if i = 1 then Inr Node else if i = 2 then Inr Relationship
      else Inl (Corrupt ''invalid property owner kind''))"

lemma owner_i64_inject [simp]: "owner_i64 a = owner_i64 b \<longleftrightarrow> a = b"
  by (cases a; cases b) (simp_all add: owner_i64_def)

lemma owner_from_to_i64 [simp]: "owner_from_i64 (owner_i64 k) = Inr k"
  by (cases k) (simp_all add: owner_i64_def owner_from_i64_def)

instantiation OwnerKind :: linorder
begin

definition less_OwnerKind :: "OwnerKind \<Rightarrow> OwnerKind \<Rightarrow> bool" where
  "less_OwnerKind a b \<longleftrightarrow> owner_i64 a < owner_i64 b"

definition less_eq_OwnerKind :: "OwnerKind \<Rightarrow> OwnerKind \<Rightarrow> bool" where
  "less_eq_OwnerKind a b \<longleftrightarrow> owner_i64 a \<le> owner_i64 b"

instance
  by standard (auto simp: less_OwnerKind_def less_eq_OwnerKind_def)

end

datatype DeltaOp = Add | Remove

definition op_i64 :: "DeltaOp \<Rightarrow> i64" where
  "op_i64 d = (case d of Add \<Rightarrow> 1 | Remove \<Rightarrow> 2)"

definition op_from_i64 :: "i64 \<Rightarrow> DeltaOp res" where
  "op_from_i64 i =
     (if i = 1 then Inr Add else if i = 2 then Inr Remove else Inl (Corrupt ''invalid delta operation''))"

lemma op_from_to_i64 [simp]: "op_from_i64 (op_i64 d) = Inr d"
  by (cases d) (simp_all add: op_i64_def op_from_i64_def)

record CommitMetadata =
  author :: "ustr option"
  message :: "ustr option"
  committed_at :: i64

definition metadata_root :: CommitMetadata where
  "metadata_root = \<lparr>author = None, message = None, committed_at = 0\<rparr>"

record RelationshipRecord =
  rel_id :: i64
  source :: i64
  type_id :: i64
  target :: i64

section \<open>Hexadecimal round trip\<close>

text \<open>The lower-case form of an ASCII letter.\<close>

definition ascii_lower :: "byte \<Rightarrow> byte" where
  "ascii_lower b = (if 65 \<le> unat b \<and> unat b \<le> 90 then of_nat (unat b + 32) else b)"

lemma unat_of_nat_byte: "n < 256 \<Longrightarrow> unat (of_nat n :: byte) = n"
  by (simp add: unat_of_nat)

lemma unat_byte_less: "unat (b :: byte) < 256"
  using unsigned_less [of b, where 'a = nat] by simp

lemma unat_byte_div [simp]: "unat (b :: byte) div 16 < 16"
  using unat_byte_less [of b] by simp

lemma hex_digit_char: "d < 16 \<Longrightarrow> hex_digit (hex_char d) = Some d"
  by (auto simp: hex_digit_def hex_char_def Let_def unat_of_nat_byte)

lemma hex_char_digit: "hex_digit b = Some d \<Longrightarrow> d < 16 \<and> hex_char d = ascii_lower b"
  by (auto simp: hex_digit_def hex_char_def ascii_lower_def Let_def split: if_splits)

lemma from_str_radix_byte: "from_str_radix_16 [hex_char (unat b div 16), hex_char (unat b mod 16)] = Some b"
  using unat_byte_less [of b] hex_digit_char [of "unat b div 16"] hex_digit_char [of "unat b mod 16"]
  by (simp add: from_str_radix_16_def)

lemma from_str_radix_pair:
  assumes "from_str_radix_16 [h, l] = Some b"
  shows "[hex_char (unat b div 16), hex_char (unat b mod 16)] = [ascii_lower h, ascii_lower l]"
proof -
  obtain x y where "hex_digit h = Some x" "hex_digit l = Some y" "b = of_nat (16 * x + y)"
    using assms by (auto simp: from_str_radix_16_def split: option.splits)
  moreover from this have "unat b = 16 * x + y" "y < 16" "hex_char x = ascii_lower h" "hex_char y = ascii_lower l"
    using hex_char_digit [of h x] hex_char_digit [of l y] unat_of_nat_byte [of "16 * x + y"] by (auto simp del: of_nat_add)
  ultimately show ?thesis by simp
qed

lemma hash_from_to_hex: "length h = 32 \<Longrightarrow> hash_from_hex (hash_to_hex h) = Inr h"
proof -
  assume h: "length h = 32"
  let ?pair = "\<lambda>b. [hex_char (unat b div 16), hex_char (unat b mod 16)]"
  have "as_chunks 2 (hash_to_hex h) = (map ?pair h, [])"
    unfolding hash_to_hex_def using as_chunks_concat [of 2 "map ?pair h" "[]"] by simp
  moreover have "length (hash_to_hex h) = 64"
    using length_concat_same [of "map ?pair h" 2] h by (simp add: hash_to_hex_def)
  moreover have "list_all (\<lambda>b. hex_digit b \<noteq> None) (hash_to_hex h)"
    by (auto simp: hash_to_hex_def list_all_iff hex_digit_char)
  moreover have "map_res (\<lambda>pair. ok_or (from_str_radix_16 pair) (NotFound ''Commit'')) (map ?pair h) = Inr h"
    by (simp add: map_res_map_fun from_str_radix_byte map_res_map [where g = id])
  ultimately show ?thesis by (simp add: hash_from_hex_def)
qed

lemma pairs_to_hex:
  "list_all2 (\<lambda>p b. from_str_radix_16 p = Some b) ps h \<Longrightarrow> \<forall>p \<in> set ps. length p = 2 \<Longrightarrow>
   hash_to_hex h = map ascii_lower (concat ps)"
proof (induction ps arbitrary: h)
  case (Cons p ps)
  then obtain b bs where b: "h = b # bs" "from_str_radix_16 p = Some b"
    "list_all2 (\<lambda>p b. from_str_radix_16 p = Some b) ps bs"
    by (auto simp: list_all2_Cons1)
  obtain x y where "p = [x, y]" using Cons.prems(2) by (auto simp: length_Suc_conv numeral_2_eq_2)
  with b Cons.IH [OF b(3)] Cons.prems(2) from_str_radix_pair [of x y b] show ?case
    by (simp add: hash_to_hex_def)
qed (simp add: hash_to_hex_def)

lemma hash_to_from_hex:
  assumes "hash_from_hex s = Inr h"
  shows "length h = 32 \<and> hash_to_hex h = map ascii_lower s"
proof -
  let ?ps = "fst (as_chunks 2 s)"
  have len: "length s = 2 * 32" using assms by (simp add: hash_from_hex_def split: if_splits)
  have all2: "list_all2 (\<lambda>p b. from_str_radix_16 p = Some b) ?ps h"
    using assms by (simp add: hash_from_hex_def map_res_Inr_iff split: if_splits)
  note ex = as_chunks_exact [of 2 s 32, OF _ len, simplified]
  have "hash_to_hex h = map ascii_lower (concat ?ps)"
    using pairs_to_hex [OF all2] as_chunks_split [of 2 s] by simp
  then show ?thesis using ex list_all2_lengthD [OF all2] by simp
qed

section \<open>Properties\<close>

text \<open>A commit identifier printed in hexadecimal and parsed again is the same identifier, and parsing
  accepts upper and lower case digits only: whatever it accepts prints as its lower-case form.\<close>

theorem hash_hex_round_trip:
  "(length h = 32 \<longrightarrow> hash_from_hex (hash_to_hex h) = Inr h)
   \<and> (hash_from_hex s = Inr h \<longrightarrow> length h = 32 \<and> hash_to_hex h = map ascii_lower s)"
  using hash_from_to_hex hash_to_from_hex by blast

theorem hash_hex_round_trip_witness:
  "hash_from_hex (hash_to_hex (replicate 32 0xaa)) = Inr (replicate 32 0xaa)
   \<and> hash_to_hex (replicate 32 0xaa) = map ascii_lower (replicate 64 0x41)"
proof -
  have "hash_from_hex (replicate 64 0x41) = Inr (replicate 32 0xaa)" by code_simp
  then show ?thesis using hash_hex_round_trip [of "replicate 32 0xaa" "replicate 64 0x41"] by auto
qed

end
