(* ===== verification/Database.thy ===== *)
theory Database
  imports Storage_Base
begin

text \<open>
  The SQLite database as the storage code sees it: the tables of \<^verbatim>\<open>STORAGE_SCHEMA_STATEMENTS\<close>
  (\<^verbatim>\<open>storage/schema.rs\<close>) as ordered maps from primary key to the other columns, the constraints an
  \<^verbatim>\<open>INSERT\<close> checks, and the monad of a function that takes a \<^verbatim>\<open>&Connection\<close>: it reads and writes the
  tables, may fail, and may be cancelled by the hook of the operation. The tables of the persistent
  Standard Index generations are not part of the model.
\<close>

section \<open>Tables\<close>

record CommitRow =
  cr_format_version :: i64
  cr_parent1 :: "bytes option"
  cr_parent2 :: "bytes option"
  cr_layer_id :: i64
  cr_schema_hash :: bytes
  cr_author :: "ustr option"
  cr_message :: "ustr option"
  cr_committed_at :: i64

record RelationshipRow =
  rr_source_id :: i64
  rr_type_id :: i64
  rr_target_id :: i64

record PropertyDeltaRow =
  pr_op :: i64
  pr_type_tag :: "i64 option"
  pr_int_value :: "i64 option"
  pr_real_value :: "u64 option"
  pr_text_value :: "ustr option"
  pr_blob_value :: "bytes option"
  pr_aux_value :: "bytes option"

record MergeSessionRow =
  ms_target_branch :: ustr
  ms_ours_commit :: bytes
  ms_theirs_commit :: bytes
  ms_revision :: i64
  ms_created_at :: i64

record database =
  tb_sequences :: "(i64, i64) omap"
  tb_labels :: "(i64, ustr) omap"
  tb_rel_types :: "(i64, ustr) omap"
  tb_prop_keys :: "(i64, ustr) omap"
  tb_layers :: "(i64, bytes) omap"
  tb_schema_objects :: "(bytes, bytes) omap"
  tb_commits :: "(bytes, CommitRow) omap"
  tb_branches :: "(ustr, bytes) omap"
  tb_node_delta :: "(i64 \<times> i64, i64) omap"
  tb_label_delta :: "(i64 \<times> i64 \<times> i64, i64) omap"
  tb_rel_delta :: "(i64 \<times> i64, RelationshipRow \<times> i64) omap"
  tb_property_delta :: "(i64 \<times> i64 \<times> i64 \<times> i64, PropertyDeltaRow) omap"
  tb_checkpoints :: "(bytes, i64 \<times> bytes option) omap"
  tb_cp_nodes :: "(bytes \<times> i64, unit) omap"
  tb_cp_labels :: "(bytes \<times> i64 \<times> i64, unit) omap"
  tb_cp_relationships :: "(bytes \<times> i64, RelationshipRow) omap"
  tb_cp_properties :: "(bytes \<times> i64 \<times> i64 \<times> i64, PropertyColumns) omap"
  tb_commit_data :: "(bytes, ustr) omap"
  tb_tags :: "(ustr, bytes) omap"
  tb_merge_sessions :: "(ustr, MergeSessionRow) omap"
  tb_merge_resolutions :: "(ustr \<times> bytes, ustr) omap"

text \<open>The tables \<^verbatim>\<open>create_storage_schema\<close> creates: empty, and the six sequences start at 1.\<close>

definition create_storage_schema :: database where
  "create_storage_schema =
     \<lparr>tb_sequences = om_of (map (\<lambda>kind. (kind, 1)) [1, 2, 3, 4, 5, 6]),
      tb_labels = om_empty, tb_rel_types = om_empty, tb_prop_keys = om_empty, tb_layers = om_empty,
      tb_schema_objects = om_empty, tb_commits = om_empty, tb_branches = om_empty,
      tb_node_delta = om_empty, tb_label_delta = om_empty, tb_rel_delta = om_empty,
      tb_property_delta = om_empty, tb_checkpoints = om_empty, tb_cp_nodes = om_empty,
      tb_cp_labels = om_empty, tb_cp_relationships = om_empty, tb_cp_properties = om_empty,
      tb_commit_data = om_empty, tb_tags = om_empty, tb_merge_sessions = om_empty,
      tb_merge_resolutions = om_empty\<rparr>"

section \<open>Statements\<close>

text \<open>\<^verbatim>\<open>INSERT\<close>: the row's \<^verbatim>\<open>CHECK\<close> constraints and the primary key; with a unique second column.\<close>

definition insert_row :: "bool \<Rightarrow> 'k::linorder \<Rightarrow> 'v \<Rightarrow> ('k, 'v) omap \<Rightarrow> ('k, 'v) omap res" where
  "insert_row ok k v t =
     (if \<not> ok \<or> om_has t k then Inl (Sqlite ConstraintViolation) else Inr (om_put k v t))"

definition insert_unique :: "bool \<Rightarrow> 'k::linorder \<Rightarrow> 'v \<Rightarrow> ('k, 'v) omap \<Rightarrow> ('k, 'v) omap res" where
  "insert_unique ok k v t = (if v \<in> set (om_values t) then Inl (Sqlite ConstraintViolation) else insert_row ok k v t)"

text \<open>\<^verbatim>\<open>INSERT OR IGNORE\<close>: a row that violates a constraint is not inserted.\<close>

definition insert_or_ignore :: "bool \<Rightarrow> 'k::linorder \<Rightarrow> 'v \<Rightarrow> ('k, 'v) omap \<Rightarrow> ('k, 'v) omap" where
  "insert_or_ignore ok k v t = (if \<not> ok \<or> om_has t k then t else om_put k v t)"

text \<open>The key of the first row whose value satisfies a condition, in key order.\<close>

definition om_find :: "('v \<Rightarrow> bool) \<Rightarrow> ('k::linorder, 'v) omap \<Rightarrow> 'k option" where
  "om_find P t = map_option fst (List.find (\<lambda>(k, v). P v) (om_entries t))"

lemma om_find_SomeD: "om_find P t = Some k \<Longrightarrow> \<exists>v. om_get t k = Some v \<and> P v"
  by (auto simp: om_find_def find_Some_iff om_entries_iff [symmetric])
     (metis nth_mem)

lemma om_find_None_iff: "om_find P t = None \<longleftrightarrow> (\<forall>k v. om_get t k = Some v \<longrightarrow> \<not> P v)"
  by (auto simp: om_find_def find_None_iff om_entries_iff [symmetric])

lemma om_values_iff: "v \<in> set (om_values t) \<longleftrightarrow> (\<exists>k. om_get t k = Some v)"
  by (auto simp: om_values_def om_entries_iff [symmetric] rev_image_eqI)

lemma insert_row_Inr_iff [simp]:
  "insert_row ok k v t = Inr t' \<longleftrightarrow> ok \<and> om_get t k = None \<and> t' = om_put k v t"
  by (auto simp: insert_row_def om_has_def)

lemma insert_unique_Inr_iff [simp]:
  "insert_unique ok k v t = Inr t' \<longleftrightarrow>
     ok \<and> om_get t k = None \<and> (\<forall>l. om_get t l \<noteq> Some v) \<and> t' = om_put k v t"
  by (auto simp: insert_unique_def om_values_iff)

section \<open>Functions on a connection\<close>

text \<open>
  The state of a connection while one storage operation runs: the tables, the answers of its
  cancellation hook and how often it has been called. An operation without a hook runs with one that
  always answers \<^verbatim>\<open>Ok\<close>.
\<close>

record conn =
  db :: database
  calls :: nat
  hook :: "nat \<Rightarrow> storage_error option"

type_synonym 'a st = "conn \<Rightarrow> 'a res \<times> conn"

definition st_ret :: "'a \<Rightarrow> 'a st" where
  "st_ret x c = (Inr x, c)"

definition st_res :: "'a res \<Rightarrow> 'a st" where
  "st_res r c = (r, c)"

definition st_err :: "storage_error \<Rightarrow> 'a st" where
  "st_err e c = (Inl e, c)"

definition st_then :: "'a st \<Rightarrow> ('a \<Rightarrow> 'b st) \<Rightarrow> 'b st" where
  "st_then m f c = (case m c of (Inl e, c') \<Rightarrow> (Inl e, c') | (Inr x, c') \<Rightarrow> f x c')"

text \<open>A query: it reads the tables.\<close>

definition st_query :: "(database \<Rightarrow> 'a res) \<Rightarrow> 'a st" where
  "st_query q c = (q (db c), c)"

text \<open>A computation that may call the hook; after a failed call the operation has ended.\<close>

definition st_chk :: "(database \<Rightarrow> 'a chk) \<Rightarrow> 'a st" where
  "st_chk m c = (run_checked (hook c) (calls c) (m (db c)), c\<lparr>calls := calls c + fst (m (db c))\<rparr>)"

definition st_check :: "unit st" where
  "st_check = st_chk (\<lambda>_. check)"

text \<open>A statement that changes the tables or fails.\<close>

definition st_exec :: "(database \<Rightarrow> database res) \<Rightarrow> unit st" where
  "st_exec f c = (case f (db c) of Inl e \<Rightarrow> (Inl e, c) | Inr d \<Rightarrow> (Inr (), c\<lparr>db := d\<rparr>))"

fun st_all :: "('a \<Rightarrow> unit st) \<Rightarrow> 'a list \<Rightarrow> unit st" where
  "st_all f [] = st_ret ()"
| "st_all f (x # xs) = st_then (f x) (\<lambda>_. st_all f xs)"

text \<open>
  \<^verbatim>\<open>with_savepoint\<close>: the tables are restored when the operation fails. The statements
  \<^verbatim>\<open>SAVEPOINT\<close>, \<^verbatim>\<open>RELEASE\<close> and \<^verbatim>\<open>ROLLBACK TO\<close> themselves do not fail in the model.
\<close>

definition with_savepoint :: "'a st \<Rightarrow> 'a st" where
  "with_savepoint m c = (case m c of (Inl e, c') \<Rightarrow> (Inl e, c'\<lparr>db := db c\<rparr>) | (Inr x, c') \<Rightarrow> (Inr x, c'))"

lemma st_then_case [code_unfold]:
  "st_then m f = (\<lambda>c. case m c of (r, c') \<Rightarrow> (case r of Inl e \<Rightarrow> (Inl e, c') | Inr x \<Rightarrow> f x c'))"
  by (rule ext) (simp add: st_then_def split: prod.splits sum.splits)

lemma st_then_Inr [simp]:
  "st_then m f c = (Inr y, c') \<longleftrightarrow> (\<exists>x c1. m c = (Inr x, c1) \<and> f x c1 = (Inr y, c'))"
  by (auto simp: st_then_def split: prod.splits sum.splits)

lemma st_then_Inl:
  "st_then m f c = (Inl e, c') \<longleftrightarrow> m c = (Inl e, c') \<or> (\<exists>x c1. m c = (Inr x, c1) \<and> f x c1 = (Inl e, c'))"
  by (auto simp: st_then_def split: prod.splits sum.splits)

lemma st_ret_iff [simp]: "st_ret x c = (r, c') \<longleftrightarrow> r = Inr x \<and> c' = c"
  by (auto simp: st_ret_def)

lemma st_err_iff [simp]: "st_err e c = (r, c') \<longleftrightarrow> r = Inl e \<and> c' = c"
  by (auto simp: st_err_def)

lemma st_res_iff [simp]: "st_res r' c = (r, c') \<longleftrightarrow> r = r' \<and> c' = c"
  by (auto simp: st_res_def)

lemma st_query_iff [simp]: "st_query q c = (r, c') \<longleftrightarrow> r = q (db c) \<and> c' = c"
  by (auto simp: st_query_def)

lemma run_checked_Inr: "run_checked h n m = Inr x \<Longrightarrow> snd m = Inr x"
  by (auto simp: run_checked_def split: option.splits)

lemma st_chk_Inr: "st_chk m c = (Inr x, c') \<Longrightarrow> snd (m (db c)) = Inr x \<and> db c' = db c \<and> hook c' = hook c"
  by (auto simp: st_chk_def dest: run_checked_Inr)

lemma st_chk_db: "st_chk m c = (r, c') \<Longrightarrow> db c' = db c"
  by (auto simp: st_chk_def)

lemma st_check_db: "st_check c = (r, c') \<Longrightarrow> db c' = db c"
  by (auto simp: st_check_def dest: st_chk_db)

lemma st_exec_Inr [simp]: "st_exec f c = (Inr u, c') \<longleftrightarrow> (\<exists>d. f (db c) = Inr d \<and> c' = c\<lparr>db := d\<rparr>)"
  by (auto simp: st_exec_def split: sum.splits)

lemma st_exec_Inl [simp]: "st_exec f c = (Inl e, c') \<longleftrightarrow> f (db c) = Inl e \<and> c' = c"
  by (auto simp: st_exec_def split: sum.splits)

lemma with_savepoint_Inr [simp]: "with_savepoint m c = (Inr x, c') \<longleftrightarrow> m c = (Inr x, c')"
  by (auto simp: with_savepoint_def split: prod.splits sum.splits)

lemma with_savepoint_Inl: "with_savepoint m c = (Inl e, c') \<Longrightarrow> db c' = db c"
  by (auto simp: with_savepoint_def split: prod.splits sum.splits)

text \<open>A loop that succeeds keeps what each of its steps keeps.\<close>

lemma st_all_invariant:
  assumes "st_all f xs c = (Inr u, c')" "P (db c)"
    and "\<And>x c c' v. x \<in> set xs \<Longrightarrow> P (db c) \<Longrightarrow> f x c = (Inr v, c') \<Longrightarrow> P (db c')"
  shows "P (db c')"
  using assms
proof (induction xs arbitrary: c)
  case (Cons x xs)
  then obtain c1 where "f x c = (Inr (), c1)" "st_all f xs c1 = (Inr u, c')" by auto
  with Cons show ?case by (metis list.set_intros(1,2))
qed auto

lemma st_all_Inr_db:
  assumes "st_all f xs c = (Inr u, c')"
    and "\<And>x c v c'. x \<in> set xs \<Longrightarrow> f x c = (Inr v, c') \<Longrightarrow> db c' = g x (db c)"
  shows "db c' = fold g xs (db c)"
  using assms
proof (induction xs arbitrary: c)
  case (Cons x xs)
  then obtain c1 where c1: "f x c = (Inr (), c1)" "st_all f xs c1 = (Inr u, c')" by auto
  then have "db c1 = g x (db c)" using Cons.prems(2) by auto
  with Cons.IH [OF c1(2)] Cons.prems(2) show ?case by simp
qed auto

text \<open>A function run on a database with no hook.\<close>

definition on_db :: "database \<Rightarrow> conn" where
  "on_db d = \<lparr>db = d, calls = 0, hook = (\<lambda>_. None)\<rparr>"

end
