(* ===== verification/Read_Memory.thy ===== *)
theory Read_Memory
  imports Database
begin

text \<open>
  Sizing a stored property before it is copied (\<^verbatim>\<open>storage/read_memory.rs\<close>, and the row reader of
  \<^verbatim>\<open>storage/snapshot_read.rs\<close>). Every property row is walked once, without allocation, before the
  decoder runs; the walk validates the record structure and adds up the memory the decoder will need.

  Sizes are \<open>nat\<close> with the \<^verbatim>\<open>u64\<close> bound written out. \<^verbatim>\<open>size_of\<close> of a Rust type is a choice of the
  compiler: the sizes are fields of the parameter \<open>platform\<close>, next to the BLAKE3 digest, which is a
  third-party crate. Reservations are made with an optional observer; the model is the code without one.
\<close>

record platform =
  blake3 :: "bytes \<Rightarrow> hash_id"
  value_size :: nat
  vec_size :: nat
  columns_size :: nat

definition memory_overflow :: storage_error where
  "memory_overflow = Corrupt ''canonical property memory size overflows addressable size''"

definition mem_add :: "nat \<Rightarrow> nat \<Rightarrow> nat res" where
  "mem_add a b = (if a + b \<le> usize_max then Inr (a + b) else Inl memory_overflow)"

definition mem_mul :: "nat \<Rightarrow> nat \<Rightarrow> nat res" where
  "mem_mul a b = (if a * b \<le> usize_max then Inr (a * b) else Inl memory_overflow)"

text \<open>\<^verbatim>\<open>for _ in (0..len).step_by(64 * 1024) { check()?; }\<close>\<close>

definition step_checks :: "nat \<Rightarrow> unit chk" where
  "step_checks len = ((len + 65535) div 65536, Inr ())"

definition add_payload :: "nat \<Rightarrow> nat \<Rightarrow> nat chk" where
  "add_payload bs len = chk_then (step_checks len) (\<lambda>_. chk_res (mem_add bs len))"

lemma chk_fold_cong [fundef_cong]:
  "xs = ys \<Longrightarrow> s = t \<Longrightarrow> (\<And>x s. x \<in> set ys \<Longrightarrow> f x s = g x s) \<Longrightarrow> chk_fold f xs s = chk_fold g ys t"
proof (induction ys arbitrary: xs s t)
  case (Cons y ys)
  then have "chk_fold f ys u = chk_fold g ys u" for u by simp
  with Cons.prems show ?case by (auto intro: chk_then_cong)
qed simp

fun property_value_bytes :: "platform \<Rightarrow> PropertyValue \<Rightarrow> nat chk" where
  "property_value_bytes P v =
     chk_then check (\<lambda>_.
       case v of
         VString s \<Rightarrow> add_payload (value_size P) (length s)
       | VList vs \<Rightarrow> chk_fold (\<lambda>w bs. chk_then (property_value_bytes P w) (\<lambda>n. chk_res (mem_add bs n))) vs (value_size P)
       | VZonedDateTime z \<Rightarrow> add_payload (value_size P) (length (zone_id z))
       | VPoint p \<Rightarrow> add_payload (value_size P) (length (coordinates p) * 8)
       | VVector x \<Rightarrow> add_payload (value_size P) (length (packed x))
       | _ \<Rightarrow> chk_ok (value_size P))"

declare property_value_bytes.simps [simp del]

definition memory_field_count :: "byte \<Rightarrow> nat res" where
  "memory_field_count tag =
     (let t = unat tag in
      if (1 \<le> t \<and> t \<le> 7) \<or> t = 14 then Inr 2
      else if t = 8 \<or> t = 9 then Inr 3
      else if t = 10 \<or> t = 12 \<or> t = 13 then Inr 4
      else if t = 11 then Inr 5
      else Inl (Corrupt ''unknown property type tag''))"

definition memory_value_fields :: "bytes \<Rightarrow> bytes list chk" where
  "memory_value_fields bs =
     chk_then (borrowed_value_fields bs) (\<lambda>fs.
       if length fs < 2 then chk_err (Corrupt ''VALUE record has invalid field count'')
       else if length (hd fs) \<noteq> 1 then chk_err (Corrupt ''VALUE type tag must be one byte'')
       else chk_then (chk_res (memory_field_count (hd (hd fs)))) (\<lambda>expected.
         if length fs \<noteq> expected then chk_err (Corrupt ''VALUE type tag has invalid field count'')
         else chk_ok fs))"

text \<open>
  The remaining items are only walked. The first item is returned with its offset in the payload: the
  code keeps the slice, whose address the caller compares with that of the whole record.
\<close>

function skip_items :: "BorrowedFields \<Rightarrow> unit chk" where
  "skip_items items =
     chk_then (chk_res (next_field items)) (\<lambda>(item, items').
       case item of
         None \<Rightarrow> chk_res (bf_finish items')
       | Some _ \<Rightarrow> chk_then check (\<lambda>_. skip_items items'))"
  by pat_completeness auto
termination
  by (relation "measure (\<lambda>f. length (bf_bytes f) - bf_cursor f)") (auto dest: next_item_progress)

declare skip_items.simps [simp del]

definition first_item :: "BorrowedFields \<Rightarrow> (nat \<times> bytes) option chk" where
  "first_item items =
     chk_then (chk_res (next_field items)) (\<lambda>(item, items').
       case item of
         None \<Rightarrow> chk_then (chk_res (bf_finish items')) (\<lambda>_. chk_ok None)
       | Some x \<Rightarrow> chk_then check (\<lambda>_. chk_then (skip_items items') (\<lambda>_.
           chk_ok (Some (bf_cursor items' - length x, x)))))"

definition list_memory :: "platform \<Rightarrow> bytes \<Rightarrow> nat \<Rightarrow> nat \<Rightarrow> ((nat \<times> bytes) option \<times> nat \<times> nat) chk" where
  "list_memory P bs retained temporary =
     chk_then (chk_res (borrowed_counted_fields bs)) (\<lambda>items.
     chk_then (chk_res (and_then (mem_mul (bf_remaining items) (value_size P)) (mem_add retained))) (\<lambda>retained.
     chk_then (chk_res (and_then (mem_mul (bf_remaining items) (vec_size P)) (mem_add temporary))) (\<lambda>temporary.
     chk_then (first_item items) (\<lambda>first. chk_ok (first, retained, temporary)))))"

definition packed_memory :: "bytes \<Rightarrow> bytes \<Rightarrow> nat \<Rightarrow> nat \<Rightarrow> nat chk" where
  "packed_memory count payload width retained =
     chk_then (chk_res (decode_uleb_field count)) (\<lambda>count.
       if unat count > usize_max then chk_err memory_overflow
       else if unat count * width > usize_max then chk_err memory_overflow
       else if length payload \<noteq> unat count * width
       then chk_err (Corrupt ''canonical coordinate payload has invalid length'')
       else add_payload retained (length payload))"

definition vector_width :: "bytes \<Rightarrow> nat res" where
  "vector_width tag =
     (if tag = [1] then Inr 1 else if tag = [2] then Inr 2
      else if tag = [3] \<or> tag = [5] then Inr 4 else if tag = [4] \<or> tag = [6] then Inr 8
      else Inl (Corrupt ''unknown vector coordinate tag''))"

definition value_memory ::
    "platform \<Rightarrow> bytes list \<Rightarrow> nat \<Rightarrow> nat \<Rightarrow> ((nat \<times> bytes) option \<times> nat \<times> nat) chk" where
  "value_memory P fs retained temporary =
     (let tag = unat (hd (hd fs)) in
      if tag = 4
      then chk_then (add_payload retained (length (fs ! 1))) (\<lambda>retained. chk_ok (None, retained, temporary))
      else if tag = 5 then list_memory P (fs ! 1) retained temporary
      else if tag = 10
      then chk_then (add_payload retained (length (fs ! 3))) (\<lambda>retained. chk_ok (None, retained, temporary))
      else if tag = 12
      then chk_then (packed_memory (fs ! 2) (fs ! 3) 8 retained) (\<lambda>retained. chk_ok (None, retained, temporary))
      else if tag = 13
      then chk_then (chk_res (vector_width (fs ! 1))) (\<lambda>width.
           chk_then (packed_memory (fs ! 2) (fs ! 3) width retained) (\<lambda>retained. chk_ok (None, retained, temporary)))
      else chk_ok (None, retained, temporary))"

text \<open>
  The walk. Its position is kept as \<open>rest\<close>, the bytes of the whole record from the current value on,
  and the length of the current value, so \<^verbatim>\<open>end == bytes.len()\<close> is \<open>drop len rest = []\<close>. The first
  child of a list lies in the second field, which ends where the list record ends.
\<close>

definition prefix_len :: "bytes \<Rightarrow> nat" where
  "prefix_len bs = (case read_uleb bs 0 of Inr (_, c) \<Rightarrow> c | Inl _ \<Rightarrow> 0)"

lemma memory_value_fields_InrD:
  assumes "snd (memory_value_fields bs) = Inr fs"
  shows "2 \<le> length fs \<and> (\<forall>x \<in> set fs. length x < length bs)"
proof -
  have "snd (borrowed_value_fields bs) = Inr fs" "2 \<le> length fs"
    using assms by (auto simp: memory_value_fields_def split: if_splits)
  with value_fields_length [of bs fs] show ?thesis by auto
qed

lemma value_memory_child:
  assumes "snd (value_memory P fs r t) = Inr (Some (off, x), r', t')"
  shows "0 < off \<and> off + length x \<le> length (fs ! 1)"
proof -
  obtain items where items: "borrowed_counted_fields (fs ! 1) = Inr items"
    "snd (first_item items) = Inr (Some (off, x))"
    using assms by (auto simp: value_memory_def list_memory_def Let_def split: if_splits)
  then obtain f where "next_field items = Inr (Some x, f)" "off = bf_cursor f - length x"
    by (auto simp: first_item_def split: option.splits prod.splits)
  moreover have "bf_bytes items = fs ! 1"
    using items(1) after_count_progress [of "fs ! 1" 0 items] by (simp add: borrowed_counted_fields_def)
  ultimately show ?thesis using next_field_progress [of items x f] by auto
qed

function canonical_value_loop :: "platform \<Rightarrow> bytes \<Rightarrow> nat \<Rightarrow> nat \<Rightarrow> nat \<Rightarrow> (nat \<times> nat) chk" where
  "canonical_value_loop P rest len retained temporary =
     chk_then (memory_value_fields (take len rest)) (\<lambda>fs.
     chk_then (chk_res (and_then (mem_mul (length fs) (vec_size P)) (mem_add temporary))) (\<lambda>temporary.
     chk_then (value_memory P fs retained temporary) (\<lambda>(child, retained, temporary).
       case child of
         Some (off, x) \<Rightarrow>
           canonical_value_loop P (drop (length (take len rest) - length (fs ! 1) + off) rest) (length x)
             retained temporary
       | None \<Rightarrow>
           (let tail = drop len rest in
            if tail = [] then chk_ok (retained, temporary)
            else chk_then (chk_res (borrowed_length_prefixed_field tail)) (\<lambda>x.
                 canonical_value_loop P (drop (prefix_len tail) tail) (length x) retained temporary)))))"
  by pat_completeness auto
termination
proof (relation "measure (\<lambda>(P, rest, len, r, t). length rest)", goal_cases)
  case (2 P rest len r t fs t1 s child y r2 t2 tail x)
  then have "tail \<noteq> []" "length tail \<le> length rest" "0 < prefix_len tail"
    by (auto simp: prefix_len_def borrowed_length_prefixed_field_def dest: read_uleb_progress)
  then show ?case by (simp add: length_greater_0_conv [symmetric] del: length_greater_0_conv)
next
  case (3 P rest len r t fs t1 s child y r2 t2 p off x)
  then have "0 < off" "rest \<noteq> []"
    using memory_value_fields_InrD [of "take len rest" fs] value_memory_child [of P fs r t1 off x r2 t2]
    by (cases rest; auto)+
  then show ?case by (simp add: length_greater_0_conv [symmetric] del: length_greater_0_conv)
qed simp

declare canonical_value_loop.simps [simp del]

definition canonical_value_bytes :: "platform \<Rightarrow> bytes \<Rightarrow> (nat \<times> nat) chk" where
  "canonical_value_bytes P bs =
     chk_then check (\<lambda>_.
     chk_then (chk_res (mem_mul (length bs) 4)) (\<lambda>temporary.
       canonical_value_loop P bs (length bs) (value_size P) temporary))"

section \<open>The sizes the walk computes\<close>

text \<open>The memory of a decoded value beyond its inline size, and the temporary buffers of its check.\<close>

fun extra_bytes :: "platform \<Rightarrow> PropertyValue \<Rightarrow> nat" where
  "extra_bytes P (VString s) = length s"
| "extra_bytes P (VList vs) = length vs * value_size P + (\<Sum>v \<leftarrow> vs. extra_bytes P v)"
| "extra_bytes P (VZonedDateTime z) = length (zone_id z)"
| "extra_bytes P (VPoint p) = length (coordinates p) * 8"
| "extra_bytes P (VVector x) = length (packed x)"
| "extra_bytes P v = 0"

definition field_count :: "PropertyValue \<Rightarrow> nat" where
  "field_count v = (case v of VTime _ _ \<Rightarrow> 3 | VLocalDateTime _ _ \<Rightarrow> 3 | VZonedDateTime _ \<Rightarrow> 4
     | VPoint _ \<Rightarrow> 4 | VVector _ \<Rightarrow> 4 | VDuration _ _ _ _ \<Rightarrow> 5 | _ \<Rightarrow> 2)"

fun temporary_bytes :: "platform \<Rightarrow> PropertyValue \<Rightarrow> nat" where
  "temporary_bytes P v = field_count v * vec_size P
     + (case v of VList vs \<Rightarrow> length vs * vec_size P + (\<Sum>v \<leftarrow> vs. temporary_bytes P v) | _ \<Rightarrow> 0)"

declare temporary_bytes.simps [simp del]

lemma snd_step_checks [simp]: "snd (step_checks n) = Inr ()"
  by (simp add: step_checks_def)

lemma snd_add_payload [simp]: "snd (add_payload bs n) = mem_add bs n"
  by (simp add: add_payload_def)

lemma mem_add_ok [simp]: "a + b \<le> usize_max \<Longrightarrow> mem_add a b = Inr (a + b)"
  by (simp add: mem_add_def)

lemma mem_mul_ok [simp]: "a * b \<le> usize_max \<Longrightarrow> mem_mul a b = Inr (a * b)"
  by (simp add: mem_mul_def)

lemma fold_mem_add:
  assumes "\<And>w. w \<in> set vs \<Longrightarrow> snd (f w) = Inr (g w)" "n + (\<Sum>v \<leftarrow> vs. g v) \<le> usize_max"
  shows "fold_res (\<lambda>w s. and_then (snd (f w)) (\<lambda>k. mem_add s k)) vs n = Inr (n + (\<Sum>v \<leftarrow> vs. g v))"
  using assms by (induction vs arbitrary: n) (auto simp: add.assoc)

lemma property_value_bytes_ok:
  "value_size P + extra_bytes P v \<le> usize_max \<Longrightarrow> snd (property_value_bytes P v) = Inr (value_size P + extra_bytes P v)"
proof (induction v)
  case (VList vs)
  have sum: "(\<Sum>v \<leftarrow> vs. value_size P + extra_bytes P v) = length vs * value_size P + (\<Sum>v \<leftarrow> vs. extra_bytes P v)"
    by (simp add: sum_list_addf sum_list_triv)
  have "snd (property_value_bytes P w) = Inr (value_size P + extra_bytes P w)" if "w \<in> set vs" for w
  proof (rule VList.IH [OF that])
    have "value_size P + extra_bytes P w \<le> (\<Sum>v \<leftarrow> vs. value_size P + extra_bytes P v)"
      using that by (intro member_le_sum_list) auto
    then show "value_size P + extra_bytes P w \<le> usize_max" using VList.prems sum by simp
  qed
  then show ?case
    using VList.prems sum
    by (subst property_value_bytes.simps) (simp add: fold_mem_add [where g = "\<lambda>v. value_size P + extra_bytes P v"])
qed (subst property_value_bytes.simps, simp)+

subsection \<open>One value\<close>

lemma vector_width_tag [simp]: "vector_width [coordinate_tag t] = Inr (coordinate_width t)"
  by (cases t) (simp_all add: vector_width_def coordinate_tag_def coordinate_width_def)

lemma memory_field_count_tag: "memory_field_count (type_tag_u8 v) = Inr (field_count v)"
  by (cases v) (simp_all add: memory_field_count_def field_count_def)

lemma value_fields_shape:
  assumes "value_fields v = Inr fs"
  shows "hd fs = [type_tag_u8 v] \<and> length fs = field_count v"
  using assms
  by (cases v) (auto simp: value_fields_def field_count_def snd_point_fields snd_vector_fields split: if_splits)

lemma memory_value_fields_record:
  assumes "value_fields v = Inr fs" "length (lce1_record (ascii ''VALUE'') fs) \<le> usize_max"
  shows "snd (memory_value_fields (lce1_record (ascii ''VALUE'') fs)) = Inr fs"
proof -
  have "2 \<le> field_count v" "field_count v \<le> 5" by (simp_all add: field_count_def split: PropertyValue.splits)
  with value_fields_shape [OF assms(1)] have fs: "fs \<noteq> []" "length fs \<le> 5" "2 \<le> length fs"
    "hd fs = [type_tag_u8 v]" "length fs = field_count v" by auto
  have "snd (borrowed_value_fields (lce1_record (ascii ''VALUE'') fs)) = Inr fs"
    by (rule borrowed_value_fields_record [OF assms(2) fs(1,2)])
  then show ?thesis
    using fs memory_field_count_tag [of v] by (simp add: memory_value_fields_def)
qed

lemma packed_memory_ok:
  "length payload = unat c * width \<Longrightarrow> length payload \<le> usize_max \<Longrightarrow> r + length payload \<le> usize_max \<Longrightarrow>
   snd (packed_memory (uleb_bytes c) payload width r) = Inr (r + length payload)"
  using unsigned_less [of c, where 'a = nat] by (simp add: packed_memory_def usize_max_def)

lemma value_memory_scalar:
  assumes "value_fields v = Inr fs" "\<And>vs. v \<noteq> VList vs" "r + extra_bytes P v \<le> usize_max" "wf_value v"
  shows "snd (value_memory P fs r t) = Inr (None, r + extra_bytes P v, t)"
proof (cases v)
  case (VPoint p)
  let ?cs = "map (\<lambda>c. u64_bytes (canonical_f64_bits c)) (coordinates p)"
  have "short (coordinates p)" using assms(4) VPoint by (simp add: short_def)
  then have "snd (packed_memory (uleb_bytes (of_nat (length (coordinates p)))) (concat ?cs) 8 r) = Inr (r + length (concat ?cs))"
    using assms(3) VPoint length_concat_same [of ?cs 8]
    by (intro packed_memory_ok) (simp_all add: unat_of_short)
  then show ?thesis
    using assms(1) VPoint length_concat_same [of ?cs 8]
    by (auto simp: value_memory_def value_fields_def snd_point_fields mult.commute)
next
  case (VVector x)
  then have x: "unat (dimension x) * coordinate_width (coordinate_type x) = length (packed x)"
    "length (packed x) \<le> usize_max"
    "fs = [[VECTOR], [coordinate_tag (coordinate_type x)], uleb_bytes (dimension x),
           canonical_payload (coordinate_type x) (packed x)]"
    using assms(1) by (auto simp: value_fields_def snd_vector_fields split: if_splits)
  then show ?thesis
    using assms(3) VVector packed_memory_ok [of "canonical_payload (coordinate_type x) (packed x)"
        "dimension x" "coordinate_width (coordinate_type x)" r]
    by (simp add: value_memory_def)
qed (use assms in \<open>auto simp: value_memory_def value_fields_def\<close>)

subsection \<open>The items of a list\<close>

lemma skip_items_at: "at_fields f items [] \<Longrightarrow> snd (skip_items f) = Inr ()"
proof (induction items arbitrary: f)
  case Nil
  then show ?case by (subst skip_items.simps) (simp add: next_field_end)
next
  case (Cons x items)
  then obtain g where "next_field f = Inr (Some x, g)" "at_fields g items []"
    using next_field_at by blast
  with Cons.IH [of g] show ?case by (subst skip_items.simps) simp
qed

lemma first_item_at:
  assumes "at_fields f items []"
  shows "snd (first_item f) = Inr (case items of [] \<Rightarrow> None | x # _ \<Rightarrow> Some (bf_cursor f + uleb_len (of_nat (length x)), x))"
proof (cases items)
  case Nil
  with assms show ?thesis by (simp add: first_item_def next_field_end)
next
  case (Cons x xs)
  have d: "drop (bf_cursor f) (bf_bytes f) = enc_field x @ enc_fields xs"
    and l: "length (bf_bytes f) \<le> usize_max" "bf_cursor f \<le> length (bf_bytes f)"
    and r: "bf_remaining f = Suc (length xs)"
    using assms Cons by (simp_all add: at_fields_def)
  note rt = read_take_field [OF d l]
  obtain g where g: "next_field f = Inr (Some x, g)" "at_fields g xs []"
    using next_field_at assms Cons by blast
  moreover have "bf_cursor g = bf_cursor f + length (enc_field x)"
    using g(1) rt r by (auto simp: next_field_def split: if_splits)
  ultimately show ?thesis
    using Cons skip_items_at [OF g(2)] by (simp add: first_item_def enc_field_def)
qed

lemma list_memory_counted:
  assumes "length (encode_counted items) \<le> usize_max"
    and "r + length items * value_size P \<le> usize_max" "t + length items * vec_size P \<le> usize_max"
  shows "\<exists>child. snd (list_memory P (encode_counted items) r t) =
      Inr (child, r + length items * value_size P, t + length items * vec_size P)
    \<and> (case items of [] \<Rightarrow> child = None
       | x # xs \<Rightarrow> \<exists>off. child = Some (off, x) \<and> drop off (encode_counted items) = x @ enc_fields xs
                    \<and> off \<le> length (encode_counted items))"
proof -
  obtain f where f: "borrowed_counted_fields (encode_counted items) = Inr f" "at_fields f items []"
    using borrowed_counted_fields_counted [OF assms(1)] by blast
  have bytes: "bf_bytes f = encode_counted items"
    using f(1) after_count_progress by (auto simp: borrowed_counted_fields_def)
  have "drop (bf_cursor f + uleb_len (of_nat (length x))) (encode_counted items) = x @ enc_fields xs"
    if "items = x # xs" for x xs
    using f(2) that by (simp add: at_fields_def bytes enc_field_def drop_plus del: drop_drop)
  moreover have "bf_cursor f + uleb_len (of_nat (length x)) \<le> length (encode_counted items)" if "items = x # xs" for x xs
  proof -
    have "length (drop (bf_cursor f) (bf_bytes f)) = length (enc_fields items)"
      using f(2) by (simp add: at_fields_def)
    then show ?thesis using f(2) that by (auto simp: at_fields_def bytes enc_field_def)
  qed
  moreover have "bf_remaining f = length items" using f(2) by (simp add: at_fields_def)
  ultimately show ?thesis
    using f(1) first_item_at [OF f(2)] assms(2,3)
    by (cases items) (simp_all add: list_memory_def)
qed

subsection \<open>The walk\<close>

lemma prefixed_field:
  assumes "length (enc_field x @ rest) \<le> usize_max"
  shows "borrowed_length_prefixed_field (enc_field x @ rest) = Inr x"
    "drop (prefix_len (enc_field x @ rest)) (enc_field x @ rest) = x @ rest"
proof -
  have d: "drop 0 (enc_field x @ rest) = enc_field x @ rest" by simp
  note rt = read_take_field [OF d assms le0]
  show "borrowed_length_prefixed_field (enc_field x @ rest) = Inr x"
    using rt(1,2) by (simp add: borrowed_length_prefixed_field_def)
  show "drop (prefix_len (enc_field x @ rest)) (enc_field x @ rest) = x @ rest"
    using rt(1) by (simp add: prefix_len_def) (simp add: enc_field_def)
qed

lemma last_field_of_record:
  "drop (length (lce1_record d [f, g]) - length g) (lce1_record d [f, g] @ rest) = g @ rest"
  by (simp add: lce1_record_eq enc_field_def)

lemma loop_unfold:
  assumes "snd (memory_value_fields b) = Inr fs" "t + length fs * vec_size P \<le> usize_max"
  shows "snd (canonical_value_loop P (b @ rest) (length b) r t) =
    and_then (snd (value_memory P fs r (t + length fs * vec_size P))) (\<lambda>(child, r, t).
      case child of
        Some (off, x) \<Rightarrow> snd (canonical_value_loop P (drop (length b - length (fs ! 1) + off) (b @ rest)) (length x) r t)
      | None \<Rightarrow> if rest = [] then Inr (r, t)
          else and_then (borrowed_length_prefixed_field rest) (\<lambda>x.
            snd (canonical_value_loop P (drop (prefix_len rest) rest) (length x) r t)))"
  using assms
  by (subst canonical_value_loop.simps) (auto simp: Let_def split: prod.splits option.splits intro!: arg_cong2 [where f = and_then])

text \<open>The nodes of the values still to visit.\<close>

definition weight :: "PropertyValue list \<Rightarrow> nat" where
  "weight vs = (\<Sum>v \<leftarrow> vs. size v + 1)"

lemma weight_simps [simp]: "weight [] = 0" "weight (v # vs) = size v + 1 + weight vs" "weight (vs @ ws) = weight vs + weight ws"
  by (simp_all add: weight_def)

lemma weight_list: "weight vs < size (VList vs) + 1"
  by (induction vs) (auto simp: weight_def)

lemma walk:
  assumes "list_all2 (\<lambda>v b. wf_value v \<and> canonical_bytes v = Inr b) (v # ws) (b # bs)"
    and "length (b @ enc_fields bs) \<le> usize_max"
    and "r + (\<Sum>v \<leftarrow> v # ws. extra_bytes P v) \<le> usize_max" "t + (\<Sum>v \<leftarrow> v # ws. temporary_bytes P v) \<le> usize_max"
  shows "snd (canonical_value_loop P (b @ enc_fields bs) (length b) r t) =
    Inr (r + (\<Sum>v \<leftarrow> v # ws. extra_bytes P v), t + (\<Sum>v \<leftarrow> v # ws. temporary_bytes P v))"
  using assms
proof (induction "weight (v # ws)" arbitrary: v ws b bs r t rule: less_induct)
  case less
  have vb: "wf_value v" "canonical_bytes v = Inr b" and wsb: "list_all2 (\<lambda>v b. wf_value v \<and> canonical_bytes v = Inr b) ws bs"
    using less.prems(1) by auto
  obtain fs where fs: "value_fields v = Inr fs" "snd (record_checked (ascii ''VALUE'') fs) = Inr b"
    using vb(2) by (auto simp: canonical_bytes_eq)
  have "fs \<noteq> []" using value_fields_shape [OF fs(1)] by (auto simp: field_count_def split: PropertyValue.splits)
  then have b: "b = lce1_record (ascii ''VALUE'') fs" "length b \<le> usize_max"
    using record_checked_short [OF fs(2)] by auto
  have mf: "snd (memory_value_fields b) = Inr fs"
    using memory_value_fields_record [OF fs(1)] b by simp
  let ?t = "t + field_count v * vec_size P"
  have t: "?t \<le> usize_max" "field_count v * vec_size P \<le> usize_max" "length fs = field_count v"
    using less.prems(4) value_fields_shape [OF fs(1)] by (simp_all add: temporary_bytes.simps [of P v])
  note unfold = loop_unfold [OF mf, of t P "enc_fields bs" r, unfolded t(3), OF t(1)]
  show ?case
  proof (cases "\<exists>x xs. v = VList (x # xs)")
    case False
    have vm: "snd (value_memory P fs r ?t) = Inr (None, r + extra_bytes P v, t + temporary_bytes P v)"
    proof (cases v)
      case (VList vs)
      with False have "vs = []" by (cases vs) auto
      with VList fs(1) have "fs ! 1 = encode_counted []" "hd (hd fs) = LIST"
        by (auto simp: value_fields_def dest: encode_counted_checked_Inr)
      then show ?thesis
        using list_memory_counted [of "[]" r P ?t] VList \<open>vs = []\<close> less.prems(3,4) t(1)
        by (auto simp: value_memory_def temporary_bytes.simps encode_counted_eq uleb_len.simps usize_max_def)
    qed (use value_memory_scalar [OF fs(1) _ _ vb(1), of r P ?t] less.prems(3) in \<open>auto simp: temporary_bytes.simps\<close>)
    show ?thesis
    proof (cases ws)
      case Nil
      with wsb vm unfold show ?thesis by simp
    next
      case (Cons w ws')
      then obtain c cs where bs: "bs = c # cs" using wsb by (auto simp: list_all2_Cons1)
      have short: "length (enc_field c @ enc_fields cs) \<le> usize_max" using less.prems(2) bs by simp
      then have short': "length (c @ enc_fields cs) \<le> usize_max" by (simp add: enc_field_def)
      have "snd (canonical_value_loop P (c @ enc_fields cs) (length c) (r + extra_bytes P v) (t + temporary_bytes P v)) =
          Inr (r + extra_bytes P v + (\<Sum>v \<leftarrow> w # ws'. extra_bytes P v), t + temporary_bytes P v + (\<Sum>v \<leftarrow> w # ws'. temporary_bytes P v))"
        by (rule less.hyps) (use less.prems wsb bs Cons short' in \<open>simp_all add: add.assoc\<close>)
      moreover have "borrowed_length_prefixed_field (enc_fields bs) = Inr c"
        "drop (prefix_len (enc_fields bs)) (enc_fields bs) = c @ enc_fields cs"
        using prefixed_field [OF short] by (simp_all add: bs)
      moreover have "enc_fields bs \<noteq> []"
        using length_enc_fields [of bs] unfolding bs by (metis le_zero_eq length_0_conv list.distinct(1))
      ultimately show ?thesis unfolding unfold vm by (auto simp: Cons add.assoc)
    qed
  next
    case True
    then obtain x xs where v: "v = VList (x # xs)" by blast
    obtain c cs p where items: "canonical_bytes x = Inr c" "map_res canonical_bytes xs = Inr cs"
      "snd (encode_counted_checked (c # cs)) = Inr p" "fs = [[LIST], p]"
      using fs(1) v by (auto simp: value_fields_def)
    note p = encode_counted_checked_short [OF items(3)]
    have len: "length cs = length xs" using items(2) by (auto simp: map_res_Inr_iff dest: list_all2_lengthD)
    obtain off where lm: "snd (list_memory P p r ?t) = Inr (Some (off, c), r + length (x # xs) * value_size P, ?t + length (x # xs) * vec_size P)"
      "drop off p = c @ enc_fields cs" "off \<le> length p"
      using list_memory_counted [of "c # cs" r P ?t] p less.prems(3,4) v len
      by (auto simp: temporary_bytes.simps)
    then have vm: "snd (value_memory P fs r ?t) = Inr (Some (off, c), r + length (x # xs) * value_size P, ?t + length (x # xs) * vec_size P)"
      by (simp add: value_memory_def items(4))
    have at: "drop (length b - length (fs ! 1) + off) (b @ enc_fields bs) = c @ enc_fields (cs @ bs)"
    proof -
      have "drop (length b - length p + off) (b @ enc_fields bs) = drop off (p @ enc_fields bs)"
        unfolding drop_plus b(1) items(4) last_field_of_record by (rule refl)
      then show ?thesis using lm(2,3) by (simp add: items(4))
    qed
    have "list_all2 (\<lambda>v b. wf_value v \<and> canonical_bytes v = Inr b) (x # xs @ ws) (c # cs @ bs)"
    proof -
      have "list_all2 (\<lambda>v b. wf_value v \<and> canonical_bytes v = Inr b) xs cs"
        using items(2) vb(1) v by (auto simp: map_res_Inr_iff list_all2_conv_all_nth)
      then show ?thesis using items(1) vb(1) v wsb by (simp add: list_all2_appendI)
    qed
    moreover have "length (c @ enc_fields (cs @ bs)) \<le> usize_max"
      using less.prems(2) arg_cong [OF at, of length] by simp
    ultimately have "snd (canonical_value_loop P (c @ enc_fields (cs @ bs)) (length c)
        (r + length (x # xs) * value_size P) (?t + length (x # xs) * vec_size P)) =
      Inr (r + length (x # xs) * value_size P + (\<Sum>v \<leftarrow> x # xs @ ws. extra_bytes P v),
           ?t + length (x # xs) * vec_size P + (\<Sum>v \<leftarrow> x # xs @ ws. temporary_bytes P v))"
      using less.prems(3,4) v weight_list [of "x # xs"]
      by (intro less.hyps) (simp_all add: temporary_bytes.simps [of P "VList (x # xs)"])
    then show ?thesis
      unfolding unfold vm using at v by (simp add: temporary_bytes.simps [of P "VList (x # xs)"] add_ac)
  qed
qed

text \<open>The walk of a canonical encoding succeeds when the sizes it adds up fit \<^verbatim>\<open>u64\<close>.\<close>

definition memory_fits :: "platform \<Rightarrow> PropertyValue \<Rightarrow> nat \<Rightarrow> bool" where
  "memory_fits P v len \<longleftrightarrow> value_size P + extra_bytes P v \<le> usize_max
     \<and> 4 * len + temporary_bytes P v \<le> usize_max"

lemma canonical_value_bytes_ok:
  assumes "wf_value v" "canonical_bytes v = Inr bs" "memory_fits P v (length bs)"
  shows "snd (canonical_value_bytes P bs) =
    Inr (value_size P + extra_bytes P v, 4 * length bs + temporary_bytes P v)"
  using assms walk [of v "[]" bs "[]" "value_size P" P "4 * length bs"]
  by (simp add: canonical_value_bytes_def memory_fits_def mult.commute)

section \<open>Reading a property row\<close>

definition resource_overflow :: storage_error where
  "resource_overflow = Sqlite TooBig"

definition resource_add :: "nat \<Rightarrow> nat \<Rightarrow> nat res" where
  "resource_add a b = (if a + b \<le> usize_max then Inr (a + b) else Inl resource_overflow)"

definition column_len :: "bytes option \<Rightarrow> nat" where
  "column_len c = (case c of None \<Rightarrow> 0 | Some bs \<Rightarrow> length bs)"

definition property_row_bytes :: "platform \<Rightarrow> PropertyColumns \<Rightarrow> (nat \<times> nat) chk" where
  "property_row_bytes P c =
     chk_then (chk_res (and_then (resource_add (column_len (text_value c)) (column_len (blob_value c)))
                          (\<lambda>n. resource_add n (column_len (aux_value c))))) (\<lambda>raw.
     chk_then
       (case blob_value c of
          Some bs \<Rightarrow>
            (if pc_type_tag c = 5 \<or> (11 \<le> pc_type_tag c \<and> pc_type_tag c \<le> 14) then canonical_value_bytes P bs
             else chk_ok (value_size P, 0))
        | None \<Rightarrow>
            (if pc_type_tag c = 4
             then chk_res (and_then (resource_add (value_size P) (column_len (text_value c))) (\<lambda>n. Inr (n, 0)))
             else if pc_type_tag c = 10
             then chk_res (and_then (resource_add (value_size P) (column_len (aux_value c) - 4)) (\<lambda>n. Inr (n, 0)))
             else chk_ok (value_size P, 0))) (\<lambda>(retained, decode_temporary).
     chk_then (chk_res (and_then (resource_add raw decode_temporary) (\<lambda>n. resource_add n (columns_size P)))) (\<lambda>temporary.
       chk_ok (retained, temporary))))"

definition owned_text_column :: "ustr option \<Rightarrow> ustr option chk" where
  "owned_text_column c =
     (case c of
        None \<Rightarrow> chk_ok None
      | Some bs \<Rightarrow> if utf8_valid bs then chk_then (copy_text_checked bs) (\<lambda>s. chk_ok (Some s))
                   else chk_err (Corrupt ''property text is not UTF-8''))"

definition owned_blob_column :: "bytes option \<Rightarrow> bytes option chk" where
  "owned_blob_column c =
     (case c of None \<Rightarrow> chk_ok None | Some bs \<Rightarrow> chk_then (append_checked [] bs) (\<lambda>out. chk_ok (Some out)))"

definition property_columns :: "PropertyColumns \<Rightarrow> PropertyColumns chk" where
  "property_columns c =
     chk_then (owned_text_column (text_value c)) (\<lambda>text.
     chk_then (owned_blob_column (blob_value c)) (\<lambda>blob.
     chk_then (owned_blob_column (aux_value c)) (\<lambda>aux.
       chk_ok (c\<lparr>text_value := text, blob_value := blob, aux_value := aux\<rparr>))))"

definition property_from_row :: "platform \<Rightarrow> PropertyColumns \<Rightarrow> PropertyValue chk" where
  "property_from_row P c =
     chk_then check (\<lambda>_.
     chk_then (property_row_bytes P c) (\<lambda>(retained, temporary).
     chk_then (chk_res (resource_add retained 256)) (\<lambda>_.
     chk_then (property_columns c) (\<lambda>c.
     chk_then (to_value_checked c) (\<lambda>v.
     chk_then check (\<lambda>_. chk_ok v))))))"

lemma snd_property_columns: "snd (property_columns c) = Inr c' \<Longrightarrow> c' = c"
  by (cases c) (auto simp: property_columns_def owned_text_column_def owned_blob_column_def snd_copy_text_checked
      split: option.splits if_splits)

lemma property_columns_ok:
  "(\<And>s. text_value c = Some s \<Longrightarrow> utf8_valid s) \<Longrightarrow> snd (property_columns c) = Inr c"
  by (cases c) (auto simp: property_columns_def owned_text_column_def owned_blob_column_def snd_copy_text_checked
      split: option.splits)

lemma property_from_row_Inr: "snd (property_from_row P c) = Inr v \<Longrightarrow> to_value c = Inr v"
  by (auto simp: property_from_row_def to_value_def dest!: snd_property_columns)

text \<open>A value whose row can be sized: the sums of the preflight stay below \<open>2\<^sup>6\<^sup>4\<close>.\<close>

definition stored_length :: "PropertyValue \<Rightarrow> nat" where
  "stored_length v = (case from_value v of Inl _ \<Rightarrow> 0
     | Inr c \<Rightarrow> column_len (text_value c) + column_len (blob_value c) + column_len (aux_value c))"

definition property_fits :: "platform \<Rightarrow> PropertyValue \<Rightarrow> bool" where
  "property_fits P v \<longleftrightarrow> value_size P + extra_bytes P v + 256 \<le> usize_max
     \<and> 5 * stored_length v + temporary_bytes P v + columns_size P \<le> usize_max"

lemma resource_add_ok [simp]: "a + b \<le> usize_max \<Longrightarrow> resource_add a b = Inr (a + b)"
  by (simp add: resource_add_def)

lemma property_row_bytes_ok:
  assumes "wf_value v" "from_value v = Inr c" "property_fits P v"
  shows "\<exists>t. snd (property_row_bytes P c) = Inr (value_size P + extra_bytes P v, t)"
proof -
  let ?n = "column_len (text_value c) + column_len (blob_value c) + column_len (aux_value c)"
  have n: "5 * ?n + temporary_bytes P v + columns_size P \<le> usize_max"
    "value_size P + extra_bytes P v + 256 \<le> usize_max"
    using assms(2,3) by (simp_all add: property_fits_def stored_length_def)
  have cv: "snd (canonical_value_bytes P bs) = Inr (value_size P + extra_bytes P v, 4 * length bs + temporary_bytes P v)"
    if "canonical_bytes v = Inr bs" "length bs \<le> ?n" for bs
    using canonical_value_bytes_ok [OF assms(1) that(1), of P] n that(2) by (simp add: memory_fits_def)
  show ?thesis
    using assms(1,2) n cv
    by (cases v) (auto simp: from_value_def from_value_checked_def columns_empty_def type_tag_def property_row_bytes_def
        column_len_def canonical_bytes_def snd_copy_text_checked canonical_float_bits_def)
qed

lemma property_from_row_ok:
  assumes "wf_value v" "from_value v = Inr c" "property_fits P v"
  shows "snd (property_from_row P c) = Inr (canonical_value v)"
proof -
  have "snd (to_value_checked c) = Inr (canonical_value v)"
    using columns_round_trip [OF assms(1,2)] by (simp add: to_value_def)
  moreover have "snd (property_columns c) = Inr c"
    using assms(1,2) by (intro property_columns_ok)
      (cases v; auto simp: from_value_def from_value_checked_def columns_empty_def snd_copy_text_checked)
  moreover have "resource_add (value_size P + extra_bytes P v) 256 = Inr (value_size P + extra_bytes P v + 256)"
    using assms(3) by (intro resource_add_ok) (simp add: property_fits_def)
  ultimately show ?thesis
    using property_row_bytes_ok [OF assms] by (auto simp: property_from_row_def)
qed

lemma extra_bytes_canonical [simp]: "extra_bytes P (canonical_value v) = extra_bytes P v"
proof (induction v)
  case (VList vs)
  then have "map (extra_bytes P) (map canonical_value vs) = map (extra_bytes P) vs" by simp
  then show ?case by (simp add: o_def del: map_eq_conv)
qed simp_all

section \<open>Properties\<close>

text \<open>C36. The allocation-free walk over a stored value computes exactly the memory the decoded value takes:
  on the canonical encoding of any value, nested lists included, it succeeds, and its first result is what
  \<^verbatim>\<open>property_value_bytes\<close> reports for the decoded value. The hypothesis is that the sums fit \<^verbatim>\<open>u64\<close>.\<close>

theorem preflight_exact:
  assumes "wf_value v" and "canonical_bytes v = Inr bs" and "memory_fits P v (length bs)"
  shows "\<exists>n t. snd (canonical_value_bytes P bs) = Inr (n, t)
    \<and> snd (property_value_bytes P (canonical_value v)) = Inr n
    \<and> from_canonical_bytes bs = Inr (canonical_value v)"
  using canonical_value_bytes_ok [OF assms] property_value_bytes_ok [of P "canonical_value v"] assms(3)
    canonical_round_trip [OF assms(1,2)]
  by (auto simp: memory_fits_def)

theorem preflight_exact_witness:
  "\<exists>bs n t. canonical_bytes (VList [VBoolean True]) = Inr bs
     \<and> snd (canonical_value_bytes \<lparr>blake3 = (\<lambda>_. []), value_size = 48, vec_size = 24, columns_size = 120\<rparr> bs) = Inr (n, t)
     \<and> snd (property_value_bytes \<lparr>blake3 = (\<lambda>_. []), value_size = 48, vec_size = 24, columns_size = 120\<rparr>
              (VList [VBoolean True])) = Inr n"
proof -
  let ?P = "\<lparr>blake3 = (\<lambda>_. []), value_size = 48, vec_size = 24, columns_size = 120\<rparr>"
  let ?b = "lce1_record (ascii ''VALUE'') [[BOOLEAN], [1]]"
  let ?bs = "lce1_record (ascii ''VALUE'') [[LIST], encode_counted [?b]]"
  have "canonical_bytes (VBoolean True) = Inr ?b"
    by (rule canonical_bytes_ok) (simp add: value_fields_def, code_simp)
  moreover have "snd (encode_counted_checked [?b]) = Inr (encode_counted [?b])"
    by (rule encode_counted_checked_ok) code_simp
  ultimately have "value_fields (VList [VBoolean True]) = Inr [[LIST], encode_counted [?b]]"
    by (simp add: value_fields_def)
  then have enc: "canonical_bytes (VList [VBoolean True]) = Inr ?bs"
    by (rule canonical_bytes_ok) code_simp
  have "memory_fits ?P (VList [VBoolean True]) (length ?bs)" by code_simp
  then show ?thesis using preflight_exact [OF _ enc, of ?P] enc by auto
qed

end
