(* ===== verification/Identity.thy ===== *)
theory Identity
  imports Database
begin

text \<open>
  Database-wide identities and the append-only dictionaries (\<^verbatim>\<open>storage/identity.rs\<close>).
\<close>

abbreviation (input) NODE_SEQUENCE :: i64 where "NODE_SEQUENCE \<equiv> 1"
abbreviation (input) RELATIONSHIP_SEQUENCE :: i64 where "RELATIONSHIP_SEQUENCE \<equiv> 2"
abbreviation (input) LABEL_SEQUENCE :: i64 where "LABEL_SEQUENCE \<equiv> 3"
abbreviation (input) RELATIONSHIP_TYPE_SEQUENCE :: i64 where "RELATIONSHIP_TYPE_SEQUENCE \<equiv> 4"
abbreviation (input) PROPERTY_KEY_SEQUENCE :: i64 where "PROPERTY_KEY_SEQUENCE \<equiv> 5"

definition next_id :: "i64 \<Rightarrow> database \<Rightarrow> i64 res" where
  "next_id kind d = ok_or (om_get (tb_sequences d) kind) (Sqlite QueryReturnedNoRows)"

text \<open>The compare-and-set of the sequence; the second result is the number of rows changed.\<close>

definition update_sequence :: "i64 \<Rightarrow> i64 \<Rightarrow> i64 \<Rightarrow> database \<Rightarrow> database \<times> nat" where
  "update_sequence kind new old d =
     (if om_get (tb_sequences d) kind = Some old
      then (d\<lparr>tb_sequences := om_put kind new (tb_sequences d)\<rparr>, 1) else (d, 0))"

definition allocate_id_range :: "i64 \<Rightarrow> u64 \<Rightarrow> i64 st" where
  "allocate_id_range kind count =
     (if count = 0 then st_err (Corrupt ''identity allocation range must contain at least one id'')
      else st_then (st_query (next_id kind)) (\<lambda>current.
        if \<not> in_i64 (uint count) then st_err (Corrupt ''sequence allocation range is too large'')
        else if \<not> in_i64 (current + uint count)
        then st_err (Corrupt ''sequence cannot allocate another positive INTEGER64 identity range'')
        else if current \<le> 0 \<or> current + uint count \<le> current
        then st_err (Corrupt ''sequence cannot allocate another positive INTEGER64 identity range'')
        else st_then (st_exec (\<lambda>d. case update_sequence kind (current + uint count) current d of
               (d', changed) \<Rightarrow> if changed \<noteq> 1 then Inl (Corrupt ''sequence changed while allocating an identity'')
                                else Inr d')) (\<lambda>_.
          st_ret current)))"

definition allocate_id :: "i64 \<Rightarrow> i64 st" where
  "allocate_id kind = allocate_id_range kind 1"

definition allocate_node_id :: "i64 st" where
  "allocate_node_id = allocate_id NODE_SEQUENCE"

definition allocate_relationship_id :: "i64 st" where
  "allocate_relationship_id = allocate_id RELATIONSHIP_SEQUENCE"

definition allocate_layer_id :: "i64 st" where
  "allocate_layer_id = allocate_id 6"

definition allocate_node_id_range :: "u64 \<Rightarrow> i64 st" where
  "allocate_node_id_range count = allocate_id_range NODE_SEQUENCE count"

definition allocate_relationship_id_range :: "u64 \<Rightarrow> i64 st" where
  "allocate_relationship_id_range count = allocate_id_range RELATIONSHIP_SEQUENCE count"

definition id_is_allocated :: "i64 \<Rightarrow> i64 \<Rightarrow> database \<Rightarrow> bool res" where
  "id_is_allocated kind i d = and_then (next_id kind d) (\<lambda>next. Inr (i > 0 \<and> i < next))"

definition node_id_is_allocated :: "i64 \<Rightarrow> database \<Rightarrow> bool res" where
  "node_id_is_allocated = id_is_allocated NODE_SEQUENCE"

definition relationship_id_is_allocated :: "i64 \<Rightarrow> database \<Rightarrow> bool res" where
  "relationship_id_is_allocated = id_is_allocated RELATIONSHIP_SEQUENCE"

text \<open>
  A dictionary table, read and replaced: the source passes the table's name and builds the SQL text
  with it.
\<close>

type_synonym dictionary = "(database \<Rightarrow> (i64, ustr) omap) \<times> ((i64, ustr) omap \<Rightarrow> database \<Rightarrow> database)"

definition labels_table :: dictionary where
  "labels_table = (tb_labels, \<lambda>t d. d\<lparr>tb_labels := t\<rparr>)"

definition rel_types_table :: dictionary where
  "rel_types_table = (tb_rel_types, \<lambda>t d. d\<lparr>tb_rel_types := t\<rparr>)"

definition prop_keys_table :: dictionary where
  "prop_keys_table = (tb_prop_keys, \<lambda>t d. d\<lparr>tb_prop_keys := t\<rparr>)"

definition find_name :: "dictionary \<Rightarrow> ustr \<Rightarrow> database \<Rightarrow> i64 option res" where
  "find_name table name d = Inr (om_find ((=) name) (fst table d))"

definition name_for_id :: "dictionary \<Rightarrow> i64 \<Rightarrow> database \<Rightarrow> ustr option res" where
  "name_for_id table i d = Inr (om_get (fst table d) i)"

definition with_name_for_id :: "dictionary \<Rightarrow> i64 \<Rightarrow> (ustr option \<Rightarrow> 'a res) \<Rightarrow> database \<Rightarrow> 'a res" where
  "with_name_for_id table i visitor d = visitor (om_get (fst table d) i)"

definition intern_name :: "dictionary \<Rightarrow> i64 \<Rightarrow> ustr \<Rightarrow> i64 st" where
  "intern_name table sequence name =
     st_then (st_query (find_name table name)) (\<lambda>found.
       case found of
         Some i \<Rightarrow> st_ret i
       | None \<Rightarrow>
           st_then (allocate_id sequence) (\<lambda>i.
           st_then (st_exec (\<lambda>d. and_then (insert_unique (i > 0) i name (fst table d))
                                   (\<lambda>t. Inr (snd table t d)))) (\<lambda>_.
             st_ret i)))"

definition intern_label :: "ustr \<Rightarrow> i64 st" where
  "intern_label = intern_name labels_table LABEL_SEQUENCE"

definition intern_relationship_type :: "ustr \<Rightarrow> i64 st" where
  "intern_relationship_type = intern_name rel_types_table RELATIONSHIP_TYPE_SEQUENCE"

definition intern_property_key :: "ustr \<Rightarrow> i64 st" where
  "intern_property_key = intern_name prop_keys_table PROPERTY_KEY_SEQUENCE"

definition find_label :: "ustr \<Rightarrow> database \<Rightarrow> i64 option res" where
  "find_label = find_name labels_table"

definition find_relationship_type :: "ustr \<Rightarrow> database \<Rightarrow> i64 option res" where
  "find_relationship_type = find_name rel_types_table"

definition find_property_key :: "ustr \<Rightarrow> database \<Rightarrow> i64 option res" where
  "find_property_key = find_name prop_keys_table"

definition label_name :: "i64 \<Rightarrow> database \<Rightarrow> ustr option res" where
  "label_name = name_for_id labels_table"

definition relationship_type_name :: "i64 \<Rightarrow> database \<Rightarrow> ustr option res" where
  "relationship_type_name = name_for_id rel_types_table"

definition property_key_name :: "i64 \<Rightarrow> database \<Rightarrow> ustr option res" where
  "property_key_name = name_for_id prop_keys_table"

definition with_label_name :: "i64 \<Rightarrow> (ustr option \<Rightarrow> 'a res) \<Rightarrow> database \<Rightarrow> 'a res" where
  "with_label_name = with_name_for_id labels_table"

definition with_relationship_type_name :: "i64 \<Rightarrow> (ustr option \<Rightarrow> 'a res) \<Rightarrow> database \<Rightarrow> 'a res" where
  "with_relationship_type_name = with_name_for_id rel_types_table"

definition with_property_key_name :: "i64 \<Rightarrow> (ustr option \<Rightarrow> 'a res) \<Rightarrow> database \<Rightarrow> 'a res" where
  "with_property_key_name = with_name_for_id prop_keys_table"

section \<open>Allocation\<close>

lemma allocate_id_range_Inr:
  assumes "allocate_id_range kind count c = (Inr i, c')"
  shows "om_get (tb_sequences (db c)) kind = Some i \<and> 0 < i \<and> 0 < uint count \<and> in_i64 (i + uint count)
    \<and> c' = c\<lparr>db := db c\<lparr>tb_sequences := om_put kind (i + uint count) (tb_sequences (db c))\<rparr>\<rparr>"
  using assms
  by (auto simp: allocate_id_range_def next_id_def update_sequence_def less_le [of 0 "uint count"]
      split: if_splits)

lemma allocate_id_range_Inl: "allocate_id_range kind count c = (Inl e, c') \<Longrightarrow> c' = c"
  by (auto simp: allocate_id_range_def st_then_Inl update_sequence_def split: if_splits)

lemma allocate_id_Inr:
  assumes "allocate_id kind c = (Inr i, c')"
  shows "om_get (tb_sequences (db c)) kind = Some i \<and> 0 < i \<and> in_i64 (i + 1)
    \<and> c' = c\<lparr>db := db c\<lparr>tb_sequences := om_put kind (i + 1) (tb_sequences (db c))\<rparr>\<rparr>"
  using allocate_id_range_Inr [of kind 1 c i c'] assms by (simp add: allocate_id_def)

lemma allocate_id_ok:
  assumes "om_get (tb_sequences (db c)) kind = Some i" "0 < i" "i < 2 ^ 63 - 1"
  shows "allocate_id kind c =
    (Inr i, c\<lparr>db := db c\<lparr>tb_sequences := om_put kind (i + 1) (tb_sequences (db c))\<rparr>\<rparr>)"
  using assms
  by (simp add: allocate_id_def allocate_id_range_def st_then_def st_query_def next_id_def st_exec_def
      update_sequence_def st_ret_def in_i64_def)

section \<open>Dictionaries\<close>

text \<open>
  A dictionary interface: reading the table after replacing it gives the new table, and replacing it
  leaves the sequences alone.
\<close>

locale dictionary_table =
  fixes table :: dictionary and sequence :: i64
  assumes get_put: "fst table (snd table t d) = t"
    and put_sequences: "tb_sequences (snd table t d) = tb_sequences d"
    and get_sequences: "fst table (d\<lparr>tb_sequences := s\<rparr>) = fst table d"
begin

text \<open>Identifiers are positive and below the sequence, and names are unique.\<close>

definition wf_dictionary :: "database \<Rightarrow> bool" where
  "wf_dictionary d \<longleftrightarrow>
     (\<exists>n. om_get (tb_sequences d) sequence = Some n \<and> 0 < n \<and> (\<forall>i \<in> dom (om_get (fst table d)). 0 < i \<and> i < n))
     \<and> inj_on (om_get (fst table d)) (dom (om_get (fst table d)))"

lemma find_name_iff:
  assumes "wf_dictionary d"
  shows "find_name table name d = Inr (Some i) \<longleftrightarrow> om_get (fst table d) i = Some name"
proof
  assume "om_get (fst table d) i = Some name"
  then obtain j where j: "om_find ((=) name) (fst table d) = Some j"
    using om_find_None_iff [of "(=) name" "fst table d"] by (cases "om_find ((=) name) (fst table d)") auto
  then have "om_get (fst table d) j = Some name" by (auto dest: om_find_SomeD)
  with \<open>om_get (fst table d) i = Some name\<close> assms have "j = i"
    unfolding wf_dictionary_def by (metis domI inj_onD)
  with j show "find_name table name d = Inr (Some i)" by (simp add: find_name_def)
qed (auto simp: find_name_def dest: om_find_SomeD)

lemma intern_name_Inr:
  assumes "intern_name table sequence name c = (Inr i, c')" "wf_dictionary (db c)"
  shows "wf_dictionary (db c') \<and> om_get (fst table (db c')) i = Some name
    \<and> (\<forall>j n. om_get (fst table (db c)) j = Some n \<longrightarrow> om_get (fst table (db c')) j = Some n)
    \<and> ((\<exists>j. om_get (fst table (db c)) j = Some name) \<longrightarrow> c' = c)"
proof (cases "om_find ((=) name) (fst table (db c))")
  case None
  then have new: "\<forall>j. om_get (fst table (db c)) j \<noteq> Some name" by (auto simp: om_find_None_iff)
  obtain c1 where c1: "allocate_id sequence c = (Inr i, c1)" "om_get (fst table (db c1)) i = None"
    "c' = c1\<lparr>db := snd table (om_put i name (fst table (db c1))) (db c1)\<rparr>"
    using assms(1) None by (auto simp: intern_name_def find_name_def)
  note al = allocate_id_Inr [OF c1(1)]
  have tab: "fst table (db c') = om_put i name (fst table (db c))"
    and seq: "om_get (tb_sequences (db c')) sequence = Some (i + 1)"
    using c1 al by (auto simp: get_put put_sequences get_sequences)
  have below: "\<forall>j \<in> dom (om_get (fst table (db c))). 0 < j \<and> j < i"
    using assms(2) al by (auto simp: wf_dictionary_def)
  then have free: "om_get (fst table (db c)) i = None" by blast
  have "inj_on (om_get (fst table (db c'))) (dom (om_get (fst table (db c'))))"
    using assms(2) new by (auto simp: tab inj_on_def dom_def wf_dictionary_def)
  moreover have "\<forall>j \<in> dom (om_get (fst table (db c'))). 0 < j \<and> j < i + 1"
    using below al by (auto simp: tab dom_def split: if_splits)
  ultimately have "wf_dictionary (db c')"
    using seq al by (simp add: wf_dictionary_def)
  then show ?thesis using new free by (auto simp: tab)
next
  case (Some j)
  with assms show ?thesis by (auto simp: intern_name_def find_name_def dest!: om_find_SomeD)
qed

lemma intern_name_ok:
  assumes "wf_dictionary (db c)" "om_get (tb_sequences (db c)) sequence = Some n" "n < 2 ^ 63 - 1"
  shows "\<exists>i c'. intern_name table sequence name c = (Inr i, c')"
proof (cases "om_find ((=) name) (fst table (db c))")
  case None
  have n: "0 < n" "om_get (fst table (db c)) n = None"
    using assms(1,2) by (auto simp: wf_dictionary_def dom_def)
  have ins: "insert_unique True n name (fst table (db c)) = Inr (om_put n name (fst table (db c)))"
    using n None by (auto simp: om_find_None_iff)
  show ?thesis
    using None allocate_id_ok [OF assms(2) n(1) assms(3)] n(1)
    by (simp add: intern_name_def find_name_def st_then_def st_query_def st_exec_def st_ret_def get_sequences
        ins del: insert_unique_Inr_iff)
qed (auto simp: intern_name_def find_name_def st_then_def st_query_def st_ret_def)

end

interpretation labels: dictionary_table labels_table LABEL_SEQUENCE
  by unfold_locales (simp_all add: labels_table_def)

interpretation rel_types: dictionary_table rel_types_table RELATIONSHIP_TYPE_SEQUENCE
  by unfold_locales (simp_all add: rel_types_table_def)

interpretation prop_keys: dictionary_table prop_keys_table PROPERTY_KEY_SEQUENCE
  by unfold_locales (simp_all add: prop_keys_table_def)

lemmas dictionary_wf_defs = labels.wf_dictionary_def rel_types.wf_dictionary_def prop_keys.wf_dictionary_def

section \<open>Properties\<close>

text \<open>C34. Allocating a range of identities returns the first of \<open>count\<close> positive 64-bit numbers that were
  not allocated before and are allocated afterwards; what was allocated stays so, no other sequence moves,
  and a failed allocation changes nothing.\<close>

theorem allocation_fresh:
  assumes "allocate_id_range kind count c = (r, c')"
  shows "case r of
      Inl e \<Rightarrow> c' = c
    | Inr i \<Rightarrow> 0 < i \<and> in_i64 (i + uint count)
        \<and> (\<forall>j. i \<le> j \<and> j < i + uint count \<longrightarrow>
              id_is_allocated kind j (db c) = Inr False \<and> id_is_allocated kind j (db c') = Inr True)
        \<and> (\<forall>j. id_is_allocated kind j (db c) = Inr True \<longrightarrow> id_is_allocated kind j (db c') = Inr True)
        \<and> (\<forall>k j. k \<noteq> kind \<longrightarrow> id_is_allocated k j (db c') = id_is_allocated k j (db c))"
proof (cases r)
  case (Inl e)
  with assms show ?thesis by (simp add: allocate_id_range_Inl)
next
  case (Inr i)
  with assms show ?thesis
    using allocate_id_range_Inr [of kind count c i c'] by (auto simp: id_is_allocated_def next_id_def)
qed

theorem allocation_fresh_witness:
  "\<exists>c'. allocate_id_range 1 3 (on_db create_storage_schema) = (Inr 1, c')
     \<and> id_is_allocated 1 3 (db (on_db create_storage_schema)) = Inr False \<and> id_is_allocated 1 3 (db c') = Inr True"
proof -
  have "fst (allocate_id_range 1 3 (on_db create_storage_schema)) = Inr 1" by code_simp
  then obtain c' where c': "allocate_id_range 1 3 (on_db create_storage_schema) = (Inr 1, c')"
    by (metis prod.collapse)
  show ?thesis using allocation_fresh [OF c'] c' by auto
qed

text \<open>C35. Interning a label name is idempotent and append-only: the identifier returned is the one that looks
  the name up and is looked up by it, no existing entry changes, names stay unique, a name already interned
  changes nothing, and a dictionary with room in its sequence never refuses a name.\<close>

theorem intern_label_spec:
  assumes "labels.wf_dictionary (db c)"
  shows "(intern_label name c = (Inr i, c') \<longrightarrow>
        labels.wf_dictionary (db c') \<and> label_name i (db c') = Inr (Some name)
        \<and> find_label name (db c') = Inr (Some i) \<and> intern_label name c' = (Inr i, c')
        \<and> (\<forall>j n. label_name j (db c) = Inr (Some n) \<longrightarrow> label_name j (db c') = Inr (Some n))
        \<and> (\<forall>j. label_name j (db c) = Inr (Some name) \<longrightarrow> j = i \<and> c' = c))
    \<and> ((\<forall>n. om_get (tb_sequences (db c)) LABEL_SEQUENCE = Some n \<longrightarrow> n < 2 ^ 63 - 1) \<longrightarrow>
        (\<exists>i c'. intern_label name c = (Inr i, c')))"
proof (intro conjI impI)
  assume "\<forall>n. om_get (tb_sequences (db c)) LABEL_SEQUENCE = Some n \<longrightarrow> n < 2 ^ 63 - 1"
  then show "\<exists>i c'. intern_label name c = (Inr i, c')"
    using assms labels.intern_name_ok [OF assms] by (auto simp: intern_label_def labels.wf_dictionary_def)
next
  assume i: "intern_label name c = (Inr i, c')"
  note sp = labels.intern_name_Inr [OF i [unfolded intern_label_def] assms]
  then have find: "find_name labels_table name (db c') = Inr (Some i)"
    using labels.find_name_iff by blast
  show "labels.wf_dictionary (db c')" using sp by blast
  show "label_name i (db c') = Inr (Some name)" using sp by (simp add: label_name_def name_for_id_def)
  show "find_label name (db c') = Inr (Some i)" using find by (simp add: find_label_def)
  show "intern_label name c' = (Inr i, c')"
    using find by (simp add: intern_label_def intern_name_def st_then_def st_query_def st_ret_def)
  show "\<forall>j n. label_name j (db c) = Inr (Some n) \<longrightarrow> label_name j (db c') = Inr (Some n)"
    using sp by (auto simp: label_name_def name_for_id_def)
  show "\<forall>j. label_name j (db c) = Inr (Some name) \<longrightarrow> j = i \<and> c' = c"
  proof (intro allI impI)
    fix j
    assume "label_name j (db c) = Inr (Some name)"
    then have j: "om_get (fst labels_table (db c)) j = Some name" by (simp add: label_name_def name_for_id_def)
    then have "c' = c" using sp by blast
    with find j labels.find_name_iff [OF assms, of name j] show "j = i \<and> c' = c" by simp
  qed
qed

theorem intern_label_spec_witness:
  "\<exists>c'. intern_label (ascii ''Person'') (on_db create_storage_schema) = (Inr 1, c')
     \<and> label_name 1 (db c') = Inr (Some (ascii ''Person''))"
proof -
  have "labels.wf_dictionary (db (on_db create_storage_schema))"
    unfolding labels.wf_dictionary_def by (simp add: on_db_def create_storage_schema_def labels_table_def om_of_def
        om_put_all_def)
  moreover have "fst (intern_label (ascii ''Person'') (on_db create_storage_schema)) = Inr 1" by code_simp
  then obtain c' where "intern_label (ascii ''Person'') (on_db create_storage_schema) = (Inr 1, c')"
    by (metis prod.collapse)
  ultimately show ?thesis
    using intern_label_spec [of "on_db create_storage_schema" "ascii ''Person''" 1 c'] by auto
qed

end
