(* ===== verification/Layer.thy ===== *)
theory Layer
  imports Read_Memory Identity
begin

text \<open>
  Layers (\<^verbatim>\<open>storage/layer.rs\<close>, \<^verbatim>\<open>storage/layer_read.rs\<close>): the canonical set of graph changes of a
  commit relative to its first parent, its content hash, and its rows in the delta tables.
\<close>

section \<open>The builder\<close>

record RelationshipDelta =
  rd_op :: DeltaOp
  rd_record :: RelationshipRecord

record PropertyDelta =
  pd_op :: DeltaOp
  pd_value :: "PropertyValue option"

record LayerBuilder =
  lb_nodes :: "(i64, DeltaOp) omap"
  lb_labels :: "(i64 \<times> i64, DeltaOp) omap"
  lb_relationships :: "(i64, RelationshipDelta) omap"
  lb_properties :: "(OwnerKind \<times> i64 \<times> i64, PropertyDelta) omap"

definition layer_default :: LayerBuilder where
  "layer_default =
     \<lparr>lb_nodes = om_empty, lb_labels = om_empty, lb_relationships = om_empty, lb_properties = om_empty\<rparr>"

definition layer_is_empty :: "LayerBuilder \<Rightarrow> bool" where
  "layer_is_empty l \<longleftrightarrow> om_is_empty (lb_nodes l) \<and> om_is_empty (lb_labels l)
     \<and> om_is_empty (lb_relationships l) \<and> om_is_empty (lb_properties l)"

definition is_property_only :: "LayerBuilder \<Rightarrow> bool" where
  "is_property_only l \<longleftrightarrow> om_is_empty (lb_nodes l) \<and> om_is_empty (lb_labels l) \<and> om_is_empty (lb_relationships l)"

definition node_changes :: "LayerBuilder \<Rightarrow> (i64 \<times> bool) list" where
  "node_changes l = map (\<lambda>(node, d). (node, d = Add)) (om_entries (lb_nodes l))"

definition label_changes :: "LayerBuilder \<Rightarrow> (i64 \<times> i64 \<times> bool) list" where
  "label_changes l = map (\<lambda>((node, label), d). (node, label, d = Add)) (om_entries (lb_labels l))"

definition relationship_changes :: "LayerBuilder \<Rightarrow> (RelationshipRecord \<times> bool) list" where
  "relationship_changes l = map (\<lambda>d. (rd_record d, rd_op d = Add)) (om_values (lb_relationships l))"

definition property_changes :: "LayerBuilder \<Rightarrow> (OwnerKind \<times> i64 \<times> i64 \<times> PropertyValue option) list" where
  "property_changes l = map (\<lambda>((owner, owner_id, key), d). (owner, owner_id, key, pd_value d)) (om_entries (lb_properties l))"

record LayerDeltaCounts =
  nodes_created :: nat
  nodes_deleted :: nat
  relationships_created :: nat
  relationships_deleted :: nat
  properties_set :: nat
  properties_removed :: nat
  labels_added :: nat
  labels_removed :: nat

definition delta_counts :: "LayerBuilder \<Rightarrow> LayerDeltaCounts" where
  "delta_counts l =
     (let c = \<lparr>nodes_created = 0, nodes_deleted = 0, relationships_created = 0, relationships_deleted = 0,
               properties_set = 0, properties_removed = 0, labels_added = 0, labels_removed = 0\<rparr>;
          c = fold (\<lambda>d c. case d of Add \<Rightarrow> c\<lparr>nodes_created := nodes_created c + 1\<rparr>
                        | Remove \<Rightarrow> c\<lparr>nodes_deleted := nodes_deleted c + 1\<rparr>) (om_values (lb_nodes l)) c;
          c = fold (\<lambda>d c. case d of Add \<Rightarrow> c\<lparr>labels_added := labels_added c + 1\<rparr>
                        | Remove \<Rightarrow> c\<lparr>labels_removed := labels_removed c + 1\<rparr>) (om_values (lb_labels l)) c;
          c = fold (\<lambda>d c. case rd_op d of Add \<Rightarrow> c\<lparr>relationships_created := relationships_created c + 1\<rparr>
                        | Remove \<Rightarrow> c\<lparr>relationships_deleted := relationships_deleted c + 1\<rparr>) (om_values (lb_relationships l)) c;
          c = fold (\<lambda>d c. case pd_op d of Add \<Rightarrow> c\<lparr>properties_set := properties_set c + 1\<rparr>
                        | Remove \<Rightarrow> c\<lparr>properties_removed := properties_removed c + 1\<rparr>) (om_values (lb_properties l)) c
      in c)"

definition require_positive :: "i64 \<Rightarrow> unit res" where
  "require_positive v = (if v > 0 then Inr () else Inl (Corrupt '' must be a positive INTEGER64''))"

definition require_positive_pair :: "i64 \<Rightarrow> i64 \<Rightarrow> unit res" where
  "require_positive_pair a b = and_then (require_positive a) (\<lambda>_. require_positive b)"

definition validate_relationship :: "RelationshipRecord \<Rightarrow> unit res" where
  "validate_relationship r =
     and_then (require_positive (rel_id r)) (\<lambda>_.
     and_then (require_positive (source r)) (\<lambda>_.
     and_then (require_positive (type_id r)) (\<lambda>_.
       require_positive (target r))))"

definition add_node :: "i64 \<Rightarrow> LayerBuilder \<Rightarrow> LayerBuilder res" where
  "add_node node l = and_then (require_positive node) (\<lambda>_. Inr (l\<lparr>lb_nodes := om_put node Add (lb_nodes l)\<rparr>))"

definition remove_node :: "i64 \<Rightarrow> LayerBuilder \<Rightarrow> LayerBuilder res" where
  "remove_node node l = and_then (require_positive node) (\<lambda>_. Inr (l\<lparr>lb_nodes := om_put node Remove (lb_nodes l)\<rparr>))"

definition add_label :: "i64 \<Rightarrow> i64 \<Rightarrow> LayerBuilder \<Rightarrow> LayerBuilder res" where
  "add_label node label l =
     and_then (require_positive_pair node label) (\<lambda>_. Inr (l\<lparr>lb_labels := om_put (node, label) Add (lb_labels l)\<rparr>))"

definition remove_label :: "i64 \<Rightarrow> i64 \<Rightarrow> LayerBuilder \<Rightarrow> LayerBuilder res" where
  "remove_label node label l =
     and_then (require_positive_pair node label) (\<lambda>_. Inr (l\<lparr>lb_labels := om_put (node, label) Remove (lb_labels l)\<rparr>))"

definition add_relationship :: "RelationshipRecord \<Rightarrow> LayerBuilder \<Rightarrow> LayerBuilder res" where
  "add_relationship r l =
     and_then (validate_relationship r) (\<lambda>_.
       Inr (l\<lparr>lb_relationships := om_put (rel_id r) \<lparr>rd_op = Add, rd_record = r\<rparr> (lb_relationships l)\<rparr>))"

definition remove_relationship :: "RelationshipRecord \<Rightarrow> LayerBuilder \<Rightarrow> LayerBuilder res" where
  "remove_relationship r l =
     and_then (validate_relationship r) (\<lambda>_.
       Inr (l\<lparr>lb_relationships := om_put (rel_id r) \<lparr>rd_op = Remove, rd_record = r\<rparr> (lb_relationships l)\<rparr>))"

definition set_property :: "OwnerKind \<Rightarrow> i64 \<Rightarrow> i64 \<Rightarrow> PropertyValue \<Rightarrow> LayerBuilder \<Rightarrow> LayerBuilder res" where
  "set_property kind owner key v l =
     and_then (require_positive_pair owner key) (\<lambda>_.
       Inr (l\<lparr>lb_properties := om_put (kind, owner, key) \<lparr>pd_op = Add, pd_value = Some v\<rparr> (lb_properties l)\<rparr>))"

definition remove_property :: "OwnerKind \<Rightarrow> i64 \<Rightarrow> i64 \<Rightarrow> LayerBuilder \<Rightarrow> LayerBuilder res" where
  "remove_property kind owner key l =
     and_then (require_positive_pair owner key) (\<lambda>_.
       Inr (l\<lparr>lb_properties := om_put (kind, owner, key) \<lparr>pd_op = Remove, pd_value = None\<rparr> (lb_properties l)\<rparr>))"

section \<open>Canonical bytes and content hash\<close>

definition node_record :: "i64 \<Rightarrow> DeltaOp \<Rightarrow> bytes" where
  "node_record node d = lce1_record (ascii ''NODE'') [i64_bytes node, i64_bytes (op_i64 d)]"

definition label_record :: "i64 \<Rightarrow> i64 \<Rightarrow> DeltaOp \<Rightarrow> bytes" where
  "label_record node label d =
     lce1_record (ascii ''LABEL'') [i64_bytes node, i64_bytes label, i64_bytes (op_i64 d)]"

definition relationship_record :: "RelationshipDelta \<Rightarrow> bytes" where
  "relationship_record d =
     lce1_record (ascii ''REL'') [i64_bytes (rel_id (rd_record d)), i64_bytes (source (rd_record d)),
       i64_bytes (type_id (rd_record d)), i64_bytes (target (rd_record d)), i64_bytes (op_i64 (rd_op d))]"

definition property_record :: "OwnerKind \<Rightarrow> i64 \<Rightarrow> i64 \<Rightarrow> PropertyDelta \<Rightarrow> bytes res" where
  "property_record kind owner key d =
     and_then (case pd_value d of None \<Rightarrow> Inr None | Some v \<Rightarrow> and_then (canonical_bytes v) (\<lambda>b. Inr (Some b))) (\<lambda>value_bytes.
       Inr (lce1_record (ascii ''PROPERTY'')
         [i64_bytes (owner_i64 kind), i64_bytes owner, i64_bytes key, i64_bytes (op_i64 (pd_op d)),
          optional_bytes (map_option (\<lambda>v. i64_bytes (type_tag v)) (pd_value d)), optional_bytes value_bytes]))"

definition optional_bytes_checked :: "bytes option \<Rightarrow> bytes chk" where
  "optional_bytes_checked v =
     (case v of
        None \<Rightarrow> chk_ok [0]
      | Some bs \<Rightarrow>
          if length bs + 1 > usize_max then chk_err (Corrupt ''optional property size overflow'')
          else append_checked [1] bs)"

definition property_record_checked :: "OwnerKind \<Rightarrow> i64 \<Rightarrow> i64 \<Rightarrow> PropertyDelta \<Rightarrow> bytes chk" where
  "property_record_checked kind owner key d =
     chk_then (case pd_value d of None \<Rightarrow> chk_ok None
               | Some v \<Rightarrow> chk_then (canonical_bytes_checked v) (\<lambda>b. chk_ok (Some b))) (\<lambda>value_bytes.
     chk_then (optional_bytes_checked value_bytes) (\<lambda>value_bytes.
       record_checked (ascii ''PROPERTY'')
         [i64_bytes (owner_i64 kind), i64_bytes owner, i64_bytes key, i64_bytes (op_i64 (pd_op d)),
          optional_bytes (map_option (\<lambda>v. i64_bytes (type_tag v)) (pd_value d)), value_bytes]))"

definition slot_count :: "LayerBuilder \<Rightarrow> nat" where
  "slot_count l = om_size (lb_nodes l) + om_size (lb_labels l) + om_size (lb_relationships l) + om_size (lb_properties l)"

definition canonical_lce1_checked :: "LayerBuilder \<Rightarrow> bytes chk" where
  "canonical_lce1_checked l =
     chk_then check (\<lambda>_.
     chk_then (chk_map (\<lambda>(node, d). chk_then check (\<lambda>_. chk_ok (node_record node d))) (om_entries (lb_nodes l))) (\<lambda>f1.
     chk_then (chk_map (\<lambda>((node, label), d). chk_then check (\<lambda>_. chk_ok (label_record node label d)))
                 (om_entries (lb_labels l))) (\<lambda>f2.
     chk_then (chk_map (\<lambda>d. chk_then check (\<lambda>_. chk_ok (relationship_record d))) (om_values (lb_relationships l))) (\<lambda>f3.
     chk_then (chk_map (\<lambda>((kind, owner, key), d). property_record_checked kind owner key d)
                 (om_entries (lb_properties l))) (\<lambda>f4.
       record_checked (ascii ''LAYER'') (f1 @ f2 @ f3 @ f4))))))"

definition canonical_lce1 :: "LayerBuilder \<Rightarrow> bytes res" where
  "canonical_lce1 l = snd (canonical_lce1_checked l)"

definition content_hash_checked :: "platform \<Rightarrow> LayerBuilder \<Rightarrow> hash_id chk" where
  "content_hash_checked P l =
     chk_then (chk_fold (\<lambda>(node, d) h. chk_then check (\<lambda>_. chk_ok (hasher_field (node_record node d) h)))
                 (om_entries (lb_nodes l)) (hasher_new (ascii ''LAYER'') (slot_count l))) (\<lambda>h.
     chk_then (chk_fold (\<lambda>((node, label), d) h. chk_then check (\<lambda>_. chk_ok (hasher_field (label_record node label d) h)))
                 (om_entries (lb_labels l)) h) (\<lambda>h.
     chk_then (chk_fold (\<lambda>d h. chk_then check (\<lambda>_. chk_ok (hasher_field (relationship_record d) h)))
                 (om_values (lb_relationships l)) h) (\<lambda>h.
     chk_then (chk_fold (\<lambda>((kind, owner, key), d) h.
                 chk_then (property_record_checked kind owner key d) (\<lambda>r. hasher_field_checked r h))
                 (om_entries (lb_properties l)) h) (\<lambda>h.
       chk_ok (hasher_finish (blake3 P) h)))))"

definition content_hash :: "platform \<Rightarrow> LayerBuilder \<Rightarrow> hash_id res" where
  "content_hash P l = snd (content_hash_checked P l)"

section \<open>Stored rows\<close>

text \<open>\<^verbatim>\<open>SELECT ... WHERE layer_id = ?1 ORDER BY\<close> the rest of the primary key.\<close>

definition layer_rows :: "i64 \<Rightarrow> (i64 \<times> 'k::linorder, 'v) omap \<Rightarrow> ('k \<times> 'v) list" where
  "layer_rows layer t = map (\<lambda>((_, k), v). (k, v)) (filter (\<lambda>((l, _), _). l = layer) (om_entries t))"

definition visit_node_deltas :: "database \<Rightarrow> i64 \<Rightarrow> (i64 \<Rightarrow> DeltaOp \<Rightarrow> 's \<Rightarrow> 's chk) \<Rightarrow> 's \<Rightarrow> 's chk" where
  "visit_node_deltas d layer visitor =
     chk_fold (\<lambda>(node, i) s. chk_then (chk_res (op_from_i64 i)) (\<lambda>p. visitor node p s)) (layer_rows layer (tb_node_delta d))"

definition visit_label_deltas :: "database \<Rightarrow> i64 \<Rightarrow> (i64 \<Rightarrow> i64 \<Rightarrow> DeltaOp \<Rightarrow> 's \<Rightarrow> 's chk) \<Rightarrow> 's \<Rightarrow> 's chk" where
  "visit_label_deltas d layer visitor =
     chk_fold (\<lambda>((node, label), i) s. chk_then (chk_res (op_from_i64 i)) (\<lambda>p. visitor node label p s))
       (layer_rows layer (tb_label_delta d))"

definition relationship_from_row :: "i64 \<Rightarrow> RelationshipRow \<Rightarrow> RelationshipRecord" where
  "relationship_from_row i r =
     \<lparr>rel_id = i, source = rr_source_id r, type_id = rr_type_id r, target = rr_target_id r\<rparr>"

definition visit_relationship_deltas ::
    "database \<Rightarrow> i64 \<Rightarrow> (RelationshipRecord \<Rightarrow> DeltaOp \<Rightarrow> 's \<Rightarrow> 's chk) \<Rightarrow> 's \<Rightarrow> 's chk" where
  "visit_relationship_deltas d layer visitor =
     chk_fold (\<lambda>(rel, r, i) s. chk_then (chk_res (op_from_i64 i)) (\<lambda>p. visitor (relationship_from_row rel r) p s))
       (layer_rows layer (tb_rel_delta d))"

definition ensure_remove_payload_is_empty :: "PropertyDeltaRow \<Rightarrow> unit res" where
  "ensure_remove_payload_is_empty r =
     (if pr_type_tag r \<noteq> None \<or> pr_int_value r \<noteq> None \<or> pr_real_value r \<noteq> None \<or> pr_text_value r \<noteq> None
         \<or> pr_blob_value r \<noteq> None \<or> pr_aux_value r \<noteq> None
      then Inl (Corrupt ''removed property row must not retain a typed payload'') else Inr ())"

definition row_columns :: "i64 \<Rightarrow> PropertyDeltaRow \<Rightarrow> PropertyColumns" where
  "row_columns tag r =
     \<lparr>pc_type_tag = tag, int_value = pr_int_value r, real_value = pr_real_value r, text_value = pr_text_value r,
      blob_value = pr_blob_value r, aux_value = pr_aux_value r\<rparr>"

definition property_delta_from_row :: "platform \<Rightarrow> PropertyDeltaRow \<Rightarrow> PropertyDelta chk" where
  "property_delta_from_row P r =
     chk_then (chk_res (op_from_i64 (pr_op r))) (\<lambda>p.
       if p = Remove
       then chk_then (chk_res (ensure_remove_payload_is_empty r)) (\<lambda>_. chk_ok \<lparr>pd_op = p, pd_value = None\<rparr>)
       else chk_then (chk_res (ok_or (pr_type_tag r) (Corrupt ''set property row is missing type tag''))) (\<lambda>tag.
            chk_then (property_from_row P (row_columns tag r)) (\<lambda>v.
              chk_ok \<lparr>pd_op = p, pd_value = Some v\<rparr>)))"

definition visit_property_deltas ::
    "platform \<Rightarrow> database \<Rightarrow> i64 \<Rightarrow> (OwnerKind \<Rightarrow> i64 \<Rightarrow> i64 \<Rightarrow> PropertyDelta \<Rightarrow> 's \<Rightarrow> 's chk) \<Rightarrow> 's \<Rightarrow> 's chk" where
  "visit_property_deltas P d layer visitor =
     chk_fold (\<lambda>((kind, owner, key), r) s.
       chk_then check (\<lambda>_.
       chk_then (chk_res (owner_from_i64 kind)) (\<lambda>kind.
       chk_then (property_delta_from_row P r) (\<lambda>delta.
         visitor kind owner key delta s))))
       (layer_rows layer (tb_property_delta d))"

definition load_node_deltas :: "database \<Rightarrow> i64 \<Rightarrow> LayerBuilder \<Rightarrow> LayerBuilder chk" where
  "load_node_deltas d layer =
     visit_node_deltas d layer (\<lambda>node p l. chk_ok (l\<lparr>lb_nodes := om_put node p (lb_nodes l)\<rparr>))"

definition load_label_deltas :: "database \<Rightarrow> i64 \<Rightarrow> LayerBuilder \<Rightarrow> LayerBuilder chk" where
  "load_label_deltas d layer =
     visit_label_deltas d layer (\<lambda>node label p l. chk_ok (l\<lparr>lb_labels := om_put (node, label) p (lb_labels l)\<rparr>))"

definition load_relationship_deltas :: "database \<Rightarrow> i64 \<Rightarrow> LayerBuilder \<Rightarrow> LayerBuilder chk" where
  "load_relationship_deltas d layer =
     visit_relationship_deltas d layer (\<lambda>r p l.
       chk_ok (l\<lparr>lb_relationships := om_put (rel_id r) \<lparr>rd_op = p, rd_record = r\<rparr> (lb_relationships l)\<rparr>))"

definition load_property_deltas :: "platform \<Rightarrow> database \<Rightarrow> i64 \<Rightarrow> LayerBuilder \<Rightarrow> LayerBuilder chk" where
  "load_property_deltas P d layer =
     visit_property_deltas P d layer (\<lambda>kind owner key delta l.
       chk_ok (l\<lparr>lb_properties := om_put (kind, owner, key) delta (lb_properties l)\<rparr>))"

definition load_layer :: "platform \<Rightarrow> database \<Rightarrow> i64 \<Rightarrow> LayerBuilder res" where
  "load_layer P d layer =
     snd (chk_then (load_node_deltas d layer layer_default) (\<lambda>l.
          chk_then (load_label_deltas d layer l) (\<lambda>l.
          chk_then (load_relationship_deltas d layer l) (\<lambda>l.
            load_property_deltas P d layer l))))"

section \<open>Persisting\<close>

definition existing_layer_id :: "hash_id \<Rightarrow> database \<Rightarrow> i64 option res" where
  "existing_layer_id h d = Inr (om_find ((=) h) (tb_layers d))"

definition layer_mismatch :: storage_error where
  "layer_mismatch = Corrupt ''Layer does not match its persisted content hash''"

definition require_slot_count :: "nat \<Rightarrow> nat \<Rightarrow> unit res" where
  "require_slot_count actual expected = (if actual \<noteq> expected then Inl layer_mismatch else Inr ())"

definition verify_stored_nodes :: "LayerBuilder \<Rightarrow> i64 \<Rightarrow> database \<Rightarrow> unit chk" where
  "verify_stored_nodes l i d =
     chk_then (visit_node_deltas d i (\<lambda>node p count.
       chk_then check (\<lambda>_. if om_get (lb_nodes l) node \<noteq> Some p then chk_err layer_mismatch else chk_ok (count + 1))) 0) (\<lambda>count.
     chk_res (require_slot_count count (om_size (lb_nodes l))))"

definition verify_stored_labels :: "LayerBuilder \<Rightarrow> i64 \<Rightarrow> database \<Rightarrow> unit chk" where
  "verify_stored_labels l i d =
     chk_then (visit_label_deltas d i (\<lambda>node label p count.
       chk_then check (\<lambda>_. if om_get (lb_labels l) (node, label) \<noteq> Some p then chk_err layer_mismatch else chk_ok (count + 1))) 0) (\<lambda>count.
     chk_res (require_slot_count count (om_size (lb_labels l))))"

definition verify_stored_relationships :: "LayerBuilder \<Rightarrow> i64 \<Rightarrow> database \<Rightarrow> unit chk" where
  "verify_stored_relationships l i d =
     chk_then (visit_relationship_deltas d i (\<lambda>r p count.
       chk_then check (\<lambda>_. if om_get (lb_relationships l) (rel_id r) \<noteq> Some \<lparr>rd_op = p, rd_record = r\<rparr>
         then chk_err layer_mismatch else chk_ok (count + 1))) 0) (\<lambda>count.
     chk_res (require_slot_count count (om_size (lb_relationships l))))"

definition property_values_equal_checked :: "PropertyValue option \<Rightarrow> PropertyValue option \<Rightarrow> bool chk" where
  "property_values_equal_checked left right =
     (case (left, right) of
        (Some v, Some w) \<Rightarrow>
          chk_then (canonical_bytes_checked v) (\<lambda>a.
          chk_then (canonical_bytes_checked w) (\<lambda>b. equal_bytes_checked a b))
      | (None, None) \<Rightarrow> chk_ok True
      | _ \<Rightarrow> chk_ok False)"

definition verify_stored_properties :: "platform \<Rightarrow> LayerBuilder \<Rightarrow> i64 \<Rightarrow> database \<Rightarrow> unit chk" where
  "verify_stored_properties P l i d =
     chk_then (visit_property_deltas P d i (\<lambda>kind owner key delta count.
       chk_then (chk_res (ok_or (om_get (lb_properties l) (kind, owner, key)) layer_mismatch)) (\<lambda>expected.
       if pd_op delta \<noteq> pd_op expected then chk_err layer_mismatch
       else chk_then (property_values_equal_checked (pd_value delta) (pd_value expected)) (\<lambda>same.
         if \<not> same then chk_err layer_mismatch else chk_ok (count + 1)))) 0) (\<lambda>count.
     chk_res (require_slot_count count (om_size (lb_properties l))))"

definition verify_existing_layer_checked :: "platform \<Rightarrow> LayerBuilder \<Rightarrow> i64 \<Rightarrow> database \<Rightarrow> unit chk" where
  "verify_existing_layer_checked P l i d =
     chk_then (verify_stored_nodes l i d) (\<lambda>_.
     chk_then (verify_stored_labels l i d) (\<lambda>_.
     chk_then (verify_stored_relationships l i d) (\<lambda>_.
       verify_stored_properties P l i d)))"

definition persist_node_deltas :: "i64 \<Rightarrow> LayerBuilder \<Rightarrow> unit st" where
  "persist_node_deltas layer l =
     st_all (\<lambda>(node, p). st_then st_check (\<lambda>_.
       st_exec (\<lambda>d. and_then (insert_row (layer > 0 \<and> node > 0) (layer, node) (op_i64 p) (tb_node_delta d))
                      (\<lambda>t. Inr (d\<lparr>tb_node_delta := t\<rparr>))))) (om_entries (lb_nodes l))"

definition persist_label_deltas :: "i64 \<Rightarrow> LayerBuilder \<Rightarrow> unit st" where
  "persist_label_deltas layer l =
     st_all (\<lambda>((node, label), p). st_then st_check (\<lambda>_.
       st_exec (\<lambda>d. and_then (insert_row (layer > 0 \<and> node > 0 \<and> label > 0) (layer, node, label) (op_i64 p) (tb_label_delta d))
                      (\<lambda>t. Inr (d\<lparr>tb_label_delta := t\<rparr>))))) (om_entries (lb_labels l))"

definition persist_relationship_deltas :: "i64 \<Rightarrow> LayerBuilder \<Rightarrow> unit st" where
  "persist_relationship_deltas layer l =
     st_all (\<lambda>delta. st_then st_check (\<lambda>_. let r = rd_record delta in
       st_exec (\<lambda>d. and_then (insert_row (layer > 0 \<and> rel_id r > 0 \<and> source r > 0 \<and> type_id r > 0 \<and> target r > 0)
                      (layer, rel_id r)
                      (\<lparr>rr_source_id = source r, rr_type_id = type_id r, rr_target_id = target r\<rparr>, op_i64 (rd_op delta))
                      (tb_rel_delta d))
                      (\<lambda>t. Inr (d\<lparr>tb_rel_delta := t\<rparr>))))) (om_values (lb_relationships l))"

definition delta_row :: "DeltaOp \<Rightarrow> PropertyColumns option \<Rightarrow> PropertyDeltaRow" where
  "delta_row p c =
     \<lparr>pr_op = op_i64 p, pr_type_tag = map_option pc_type_tag c, pr_int_value = Option.bind c int_value,
      pr_real_value = Option.bind c real_value, pr_text_value = Option.bind c text_value,
      pr_blob_value = Option.bind c blob_value, pr_aux_value = Option.bind c aux_value\<rparr>"

definition persist_property_deltas :: "i64 \<Rightarrow> LayerBuilder \<Rightarrow> unit st" where
  "persist_property_deltas layer l =
     st_all (\<lambda>((kind, owner, key), delta). st_then st_check (\<lambda>_.
       st_then (case pd_value delta of None \<Rightarrow> st_ret None
                | Some v \<Rightarrow> st_then (st_chk (\<lambda>_. from_value_checked v)) (\<lambda>c. st_ret (Some c))) (\<lambda>columns.
       st_exec (\<lambda>d. and_then (insert_row
                        (layer > 0 \<and> owner > 0 \<and> key > 0
                         \<and> (case columns of None \<Rightarrow> True | Some c \<Rightarrow> 1 \<le> pc_type_tag c \<and> pc_type_tag c \<le> 14))
                        (layer, owner_i64 kind, owner, key) (delta_row (pd_op delta) columns) (tb_property_delta d))
                      (\<lambda>t. Inr (d\<lparr>tb_property_delta := t\<rparr>)))))) (om_entries (lb_properties l))"

definition persist_layer_checked :: "platform \<Rightarrow> LayerBuilder \<Rightarrow> (i64 \<times> hash_id) st" where
  "persist_layer_checked P l =
     st_then st_check (\<lambda>_.
     st_then (st_chk (\<lambda>_. content_hash_checked P l)) (\<lambda>h.
     st_then (st_query (existing_layer_id h)) (\<lambda>found.
       case found of
         Some i \<Rightarrow> st_then (st_chk (verify_existing_layer_checked P l i)) (\<lambda>_. st_ret (i, h))
       | None \<Rightarrow>
           st_then allocate_layer_id (\<lambda>i.
           st_then (st_exec (\<lambda>d. and_then (insert_unique (i > 0 \<and> length h = 32) i h (tb_layers d))
                                   (\<lambda>t. Inr (d\<lparr>tb_layers := t\<rparr>)))) (\<lambda>_.
           st_then (persist_node_deltas i l) (\<lambda>_.
           st_then (persist_label_deltas i l) (\<lambda>_.
           st_then (persist_relationship_deltas i l) (\<lambda>_.
           st_then (persist_property_deltas i l) (\<lambda>_.
           st_then st_check (\<lambda>_. st_ret (i, h)))))))))))"

text \<open>\<^verbatim>\<open>persist_layer\<close> is the same with a hook that never fails.\<close>

definition persist_layer :: "platform \<Rightarrow> LayerBuilder \<Rightarrow> database \<Rightarrow> (i64 \<times> hash_id) res \<times> database" where
  "persist_layer P l d = (let (r, c) = persist_layer_checked P l (on_db d) in (r, db c))"

section \<open>Hashing stored rows\<close>

record StoredLayerReferenceMaxima =
  mx_node_id :: i64
  mx_relationship_id :: i64
  mx_label_id :: i64
  mx_relationship_type_id :: i64
  mx_property_key_id :: i64

definition hash_stored_nodes ::
    "database \<Rightarrow> i64 \<Rightarrow> RecordHasher \<times> StoredLayerReferenceMaxima \<Rightarrow> (RecordHasher \<times> StoredLayerReferenceMaxima) chk" where
  "hash_stored_nodes d layer = visit_node_deltas d layer (\<lambda>node p (h, m).
     chk_ok (hasher_field (node_record node p) h, m\<lparr>mx_node_id := max (mx_node_id m) node\<rparr>))"

definition hash_stored_labels ::
    "database \<Rightarrow> i64 \<Rightarrow> RecordHasher \<times> StoredLayerReferenceMaxima \<Rightarrow> (RecordHasher \<times> StoredLayerReferenceMaxima) chk" where
  "hash_stored_labels d layer = visit_label_deltas d layer (\<lambda>node label p (h, m).
     chk_ok (hasher_field (label_record node label p) h, m\<lparr>mx_label_id := max (mx_label_id m) label\<rparr>))"

definition hash_stored_relationships ::
    "database \<Rightarrow> i64 \<Rightarrow> RecordHasher \<times> StoredLayerReferenceMaxima \<Rightarrow> (RecordHasher \<times> StoredLayerReferenceMaxima) chk" where
  "hash_stored_relationships d layer = visit_relationship_deltas d layer (\<lambda>r p (h, m).
     chk_ok (hasher_field (relationship_record \<lparr>rd_op = p, rd_record = r\<rparr>) h,
       m\<lparr>mx_relationship_id := max (mx_relationship_id m) (rel_id r),
         mx_relationship_type_id := max (mx_relationship_type_id m) (type_id r)\<rparr>))"

definition hash_stored_properties ::
    "platform \<Rightarrow> database \<Rightarrow> i64 \<Rightarrow> RecordHasher \<times> StoredLayerReferenceMaxima \<Rightarrow> (RecordHasher \<times> StoredLayerReferenceMaxima) chk" where
  "hash_stored_properties P d layer = visit_property_deltas P d layer (\<lambda>kind owner key delta (h, m).
     chk_then (chk_res (property_record kind owner key delta)) (\<lambda>r.
       chk_ok (hasher_field r h, m\<lparr>mx_property_key_id := max (mx_property_key_id m) key\<rparr>)))"

definition stored_layer_integrity :: "platform \<Rightarrow> database \<Rightarrow> i64 \<Rightarrow> (hash_id \<times> StoredLayerReferenceMaxima) res" where
  "stored_layer_integrity P d layer =
     snd (let slots = length (layer_rows layer (tb_node_delta d)) + length (layer_rows layer (tb_label_delta d))
                      + length (layer_rows layer (tb_rel_delta d)) + length (layer_rows layer (tb_property_delta d));
              m = \<lparr>mx_node_id = 0, mx_relationship_id = 0, mx_label_id = 0, mx_relationship_type_id = 0,
                   mx_property_key_id = 0\<rparr>
          in chk_then (hash_stored_nodes d layer (hasher_new (ascii ''LAYER'') slots, m)) (\<lambda>s.
             chk_then (hash_stored_labels d layer s) (\<lambda>s.
             chk_then (hash_stored_relationships d layer s) (\<lambda>s.
             chk_then (hash_stored_properties P d layer s) (\<lambda>(h, m).
               chk_ok (hasher_finish (blake3 P) h, m))))))"

end
