(* ===== verification/Layer_Laws.thy ===== *)
theory Layer_Laws
  imports Layer
begin

text \<open>
  What layers promise: the streaming content hash is the digest of the canonical bytes, canonical bytes
  determine the layer up to canonical NaNs, and a persisted layer reads back as the canonical layer.
\<close>

section \<open>Slots\<close>

text \<open>A layer as the list of its slots, in the order its fields are written.\<close>

datatype slot =
    SNode i64 DeltaOp
  | SLabel i64 i64 DeltaOp
  | SRelationship RelationshipDelta
  | SProperty OwnerKind i64 i64 PropertyDelta

definition layer_slots :: "LayerBuilder \<Rightarrow> slot list" where
  "layer_slots l =
     map (\<lambda>(node, d). SNode node d) (om_entries (lb_nodes l))
     @ map (\<lambda>((node, label), d). SLabel node label d) (om_entries (lb_labels l))
     @ map SRelationship (om_values (lb_relationships l))
     @ map (\<lambda>((kind, owner, key), d). SProperty kind owner key d) (om_entries (lb_properties l))"

fun slot_bytes :: "slot \<Rightarrow> bytes res" where
  "slot_bytes (SNode node d) = Inr (node_record node d)"
| "slot_bytes (SLabel node label d) = Inr (label_record node label d)"
| "slot_bytes (SRelationship d) = Inr (relationship_record d)"
| "slot_bytes (SProperty kind owner key d) = snd (property_record_checked kind owner key d)"

lemma length_layer_slots: "length (layer_slots l) = slot_count l"
  by (simp add: layer_slots_def slot_count_def om_size_def om_values_def)

lemma map_res_append: "map_res f (xs @ ys) = and_then (map_res f xs) (\<lambda>a. and_then (map_res f ys) (\<lambda>b. Inr (a @ b)))"
  by (induction xs) (simp_all add: res_simps)

lemma map_res_pure [simp]: "map_res (\<lambda>x. Inr (g x)) xs = Inr (map g xs)"
  by (rule map_res_map) simp

lemma layer_slots_bytes:
  "map_res slot_bytes (layer_slots l) =
     and_then (map_res (\<lambda>((kind, owner, key), d). snd (property_record_checked kind owner key d)) (om_entries (lb_properties l)))
       (\<lambda>f4. Inr (map (\<lambda>(node, d). node_record node d) (om_entries (lb_nodes l))
         @ map (\<lambda>((node, label), d). label_record node label d) (om_entries (lb_labels l))
         @ map relationship_record (om_values (lb_relationships l)) @ f4))"
  by (simp add: layer_slots_def map_res_append map_res_map_fun case_prod_unfold res_simps)

lemma canonical_lce1_eq:
  "canonical_lce1 l = and_then (map_res slot_bytes (layer_slots l)) (\<lambda>fs. snd (record_checked (ascii ''LAYER'') fs))"
  by (simp add: canonical_lce1_def canonical_lce1_checked_def layer_slots_bytes case_prod_unfold res_simps)

lemma fold_hasher_res:
  "fold_res (\<lambda>x h. and_then (f x) (\<lambda>r. Inr (hasher_field r h))) xs h =
     and_then (map_res f xs) (\<lambda>rs. Inr (fold hasher_field rs h))"
  by (induction xs arbitrary: h) (auto simp: res_simps intro!: arg_cong2 [where f = and_then])

lemma content_hash_eq:
  "content_hash P l = and_then (map_res slot_bytes (layer_slots l)) (\<lambda>fs. Inr (blake3 P (lce1_record (ascii ''LAYER'') fs)))"
proof -
  have len: "length fs = slot_count l" if "map_res slot_bytes (layer_slots l) = Inr fs" for fs
    using that by (auto simp: map_res_Inr_iff length_layer_slots [symmetric] dest: list_all2_lengthD)
  have "content_hash P l = and_then (map_res slot_bytes (layer_slots l))
      (\<lambda>fs. Inr (hasher_finish (blake3 P) (fold hasher_field fs (hasher_new (ascii ''LAYER'') (slot_count l)))))"
    by (simp add: content_hash_def content_hash_checked_def layer_slots_bytes case_prod_unfold res_simps
        fold_hasher_res fold_map o_def)
  also have "\<dots> = and_then (map_res slot_bytes (layer_slots l)) (\<lambda>fs. Inr (blake3 P (lce1_record (ascii ''LAYER'') fs)))"
    using len record_hasher_finish [of "blake3 P"]
    by (cases "map_res slot_bytes (layer_slots l)") (simp, metis and_then.simps(2))
  finally show ?thesis .
qed

section \<open>Canonical bytes determine the layer\<close>

text \<open>The builder's invariant: identifiers are positive 64-bit integers, a relationship is filed under its
  own identifier, a property delta has a value exactly if it sets one.\<close>

definition id_ok :: "i64 \<Rightarrow> bool" where
  "id_ok i \<longleftrightarrow> 0 < i \<and> in_i64 i"

definition wf_relationship :: "RelationshipRecord \<Rightarrow> bool" where
  "wf_relationship r \<longleftrightarrow> id_ok (rel_id r) \<and> id_ok (source r) \<and> id_ok (type_id r) \<and> id_ok (target r)"

definition wf_delta :: "PropertyDelta \<Rightarrow> bool" where
  "wf_delta d \<longleftrightarrow> (pd_op d = Add \<longleftrightarrow> pd_value d \<noteq> None) \<and> (\<forall>v. pd_value d = Some v \<longrightarrow> wf_value v)"

fun wf_slot :: "slot \<Rightarrow> bool" where
  "wf_slot (SNode node d) = id_ok node"
| "wf_slot (SLabel node label d) = (id_ok node \<and> id_ok label)"
| "wf_slot (SRelationship d) = wf_relationship (rd_record d)"
| "wf_slot (SProperty kind owner key d) = (id_ok owner \<and> id_ok key \<and> wf_delta d)"

definition wf_layer :: "LayerBuilder \<Rightarrow> bool" where
  "wf_layer l \<longleftrightarrow> list_all wf_slot (layer_slots l)
     \<and> (\<forall>i d. om_get (lb_relationships l) i = Some d \<longrightarrow> rel_id (rd_record d) = i)"

definition canonical_delta :: "PropertyDelta \<Rightarrow> PropertyDelta" where
  "canonical_delta d = d\<lparr>pd_value := map_option canonical_value (pd_value d)\<rparr>"

fun canonical_slot :: "slot \<Rightarrow> slot" where
  "canonical_slot (SProperty kind owner key d) = SProperty kind owner key (canonical_delta d)"
| "canonical_slot s = s"

definition canonical_layer :: "LayerBuilder \<Rightarrow> LayerBuilder" where
  "canonical_layer l = l\<lparr>lb_properties := om_map (\<lambda>_. canonical_delta) (lb_properties l)\<rparr>"

lemma short_small: "length xs \<le> 255 \<Longrightarrow> short xs"
  by (simp add: short_def usize_max_def)

lemma short_int [simp]: "short (i64_bytes v)" "short (ascii ''NODE'')" "short (ascii ''LABEL'')" "short (ascii ''REL'')"
  "short (ascii ''PROPERTY'')" "short (ascii ''LAYER'')"
  by (simp_all add: short_small ascii_def)

lemma op_i64_bytes_inject [simp]: "i64_bytes (op_i64 a) = i64_bytes (op_i64 b) \<longleftrightarrow> a = b"
  by (cases a; cases b) (auto simp: op_i64_def dest: i64_bytes_inject [rotated 2] simp: in_i64_def)

lemma owner_i64_bytes_inject [simp]: "i64_bytes (owner_i64 a) = i64_bytes (owner_i64 b) \<longleftrightarrow> a = b"
  by (cases a; cases b) (auto simp: owner_i64_def dest: i64_bytes_inject [rotated 2] simp: in_i64_def)

lemma id_bytes_inject: "id_ok a \<Longrightarrow> id_ok b \<Longrightarrow> i64_bytes a = i64_bytes b \<longleftrightarrow> a = b"
  using i64_bytes_inject by (auto simp: id_ok_def)

lemma optional_bytes_inject [simp]: "optional_bytes a = optional_bytes b \<longleftrightarrow> a = b"
  by (cases a; cases b) auto

lemma property_record_checked_Inr:
  assumes "snd (property_record_checked kind owner key d) = Inr b"
  shows "\<exists>vb. (case pd_value d of None \<Rightarrow> vb = None | Some v \<Rightarrow> \<exists>bs. canonical_bytes v = Inr bs \<and> vb = Some bs)
     \<and> short (optional_bytes vb)
     \<and> b = lce1_record (ascii ''PROPERTY'')
         [i64_bytes (owner_i64 kind), i64_bytes owner, i64_bytes key, i64_bytes (op_i64 (pd_op d)),
          optional_bytes (map_option (\<lambda>v. i64_bytes (type_tag v)) (pd_value d)), optional_bytes vb]"
  using assms
  by (cases "pd_value d")
     (auto simp: property_record_checked_def optional_bytes_checked_def canonical_bytes_def short_def usize_max_def
       dest!: record_checked_Inr split: if_splits)

lemma record_domain: "short d \<Longrightarrow> short e \<Longrightarrow> short fs \<Longrightarrow> short gs \<Longrightarrow> \<forall>f \<in> set fs. short f \<Longrightarrow> \<forall>g \<in> set gs. short g \<Longrightarrow>
   lce1_record d fs = lce1_record e gs \<longleftrightarrow> d = e \<and> fs = gs"
  using lce1_record_inject by blast

lemma domains_differ [simp]:
  "ascii ''NODE'' \<noteq> ascii ''LABEL''" "ascii ''NODE'' \<noteq> ascii ''REL''" "ascii ''NODE'' \<noteq> ascii ''PROPERTY''"
  "ascii ''LABEL'' \<noteq> ascii ''NODE''" "ascii ''LABEL'' \<noteq> ascii ''REL''" "ascii ''LABEL'' \<noteq> ascii ''PROPERTY''"
  "ascii ''REL'' \<noteq> ascii ''NODE''" "ascii ''REL'' \<noteq> ascii ''LABEL''" "ascii ''REL'' \<noteq> ascii ''PROPERTY''"
  "ascii ''PROPERTY'' \<noteq> ascii ''NODE''" "ascii ''PROPERTY'' \<noteq> ascii ''LABEL''" "ascii ''PROPERTY'' \<noteq> ascii ''REL''"
  by (simp_all add: ascii_def)

fun slot_domain :: "slot \<Rightarrow> ustr" where
  "slot_domain (SNode _ _) = ascii ''NODE''"
| "slot_domain (SLabel _ _ _) = ascii ''LABEL''"
| "slot_domain (SRelationship _) = ascii ''REL''"
| "slot_domain (SProperty _ _ _ _) = ascii ''PROPERTY''"

fun slot_has :: "slot \<Rightarrow> bytes list \<Rightarrow> bool" where
  "slot_has (SNode node d) fs = (fs = [i64_bytes node, i64_bytes (op_i64 d)])"
| "slot_has (SLabel node label d) fs = (fs = [i64_bytes node, i64_bytes label, i64_bytes (op_i64 d)])"
| "slot_has (SRelationship d) fs =
     (fs = [i64_bytes (rel_id (rd_record d)), i64_bytes (source (rd_record d)),
       i64_bytes (type_id (rd_record d)), i64_bytes (target (rd_record d)), i64_bytes (op_i64 (rd_op d))])"
| "slot_has (SProperty kind owner key d) fs =
     (\<exists>vb. (case pd_value d of None \<Rightarrow> vb = None | Some v \<Rightarrow> \<exists>bs. canonical_bytes v = Inr bs \<and> vb = Some bs)
       \<and> fs = [i64_bytes (owner_i64 kind), i64_bytes owner, i64_bytes key, i64_bytes (op_i64 (pd_op d)),
          optional_bytes (map_option (\<lambda>v. i64_bytes (type_tag v)) (pd_value d)), optional_bytes vb])"

lemma short_optional_tag [simp]: "short (optional_bytes (map_option (\<lambda>v. i64_bytes (type_tag v)) x))"
  by (cases x) (simp_all add: short_small)

lemma slot_bytes_fields:
  assumes "slot_bytes s = Inr b"
  shows "\<exists>fs. b = lce1_record (slot_domain s) fs \<and> slot_has s fs \<and> short fs \<and> (\<forall>f \<in> set fs. short f)"
proof (cases s)
  case (SProperty kind owner key d)
  with assms property_record_checked_Inr [of kind owner key d b] show ?thesis
    by (fastforce simp: short_small)
qed (use assms in \<open>auto simp: node_record_def label_record_def relationship_record_def short_small\<close>)

lemma slot_has_inject:
  assumes "slot_has s fs" "slot_has s' fs" "slot_domain s = slot_domain s'" "wf_slot s" "wf_slot s'"
  shows "canonical_slot s = canonical_slot s'"
proof (cases s)
  case (SProperty kind owner key d)
  with assms(3) obtain kind' owner' key' d' where s': "s' = SProperty kind' owner' key' d'" by (cases s') auto
  obtain vb where vb: "case pd_value d of None \<Rightarrow> vb = None | Some v \<Rightarrow> \<exists>bs. canonical_bytes v = Inr bs \<and> vb = Some bs"
    "case pd_value d' of None \<Rightarrow> vb = None | Some v \<Rightarrow> \<exists>bs. canonical_bytes v = Inr bs \<and> vb = Some bs"
    and same: "kind = kind'" "owner = owner'" "key = key'" "pd_op d = pd_op d'"
    using assms SProperty s' by (auto simp: id_bytes_inject)
  have "map_option canonical_value (pd_value d) = map_option canonical_value (pd_value d')"
    using vb assms(4,5) SProperty s' canonical_round_trip
    by (auto simp: wf_delta_def split: option.splits) (metis Inr_inject)
  then have "canonical_delta d = canonical_delta d'"
    using same(4) by (cases d; cases d') (simp add: canonical_delta_def)
  then show ?thesis using SProperty s' same by simp
next
  case (SRelationship d)
  with assms(3) obtain d' where "s' = SRelationship d'" by (cases s') auto
  with assms SRelationship show ?thesis
    by (cases d; cases d'; cases "rd_record d"; cases "rd_record d'") (auto simp: wf_relationship_def id_bytes_inject)
qed (use assms in \<open>cases s'; auto simp: id_bytes_inject\<close>)+

lemma slot_bytes_inject:
  assumes "slot_bytes s = Inr b" "slot_bytes s' = Inr b" "wf_slot s" "wf_slot s'"
  shows "canonical_slot s = canonical_slot s'"
proof -
  obtain fs gs where "b = lce1_record (slot_domain s) fs" "slot_has s fs" "short fs" "\<forall>f \<in> set fs. short f"
    "b = lce1_record (slot_domain s') gs" "slot_has s' gs" "short gs" "\<forall>f \<in> set gs. short f"
    using slot_bytes_fields [OF assms(1)] slot_bytes_fields [OF assms(2)] by blast
  moreover have "short (slot_domain t)" for t by (cases t) simp_all
  ultimately have "slot_domain s = slot_domain s'" "slot_has s fs" "slot_has s' fs"
    using lce1_record_inject [of "slot_domain s" "slot_domain s'" fs gs] by auto
  with assms(3,4) show ?thesis by (intro slot_has_inject)
qed

lemma slots_inject:
  "list_all2 (\<lambda>s b. slot_bytes s = Inr b) ss bs \<Longrightarrow> list_all2 (\<lambda>s b. slot_bytes s = Inr b) ts bs \<Longrightarrow>
   list_all wf_slot ss \<Longrightarrow> list_all wf_slot ts \<Longrightarrow> map canonical_slot ss = map canonical_slot ts"
proof (induction ss arbitrary: ts bs)
  case (Cons s ss)
  then obtain b bs' t ts' where "bs = b # bs'" "ts = t # ts'" by (auto simp: list_all2_Cons1 list_all2_Cons2)
  with Cons slot_bytes_inject [of s b t] show ?case by auto
qed auto

text \<open>The slots determine the layer.\<close>

lemma entries_inject: "om_entries m = om_entries m' \<Longrightarrow> m = m'"
  by (simp add: om_entries_inject)

fun slot_node :: "slot \<Rightarrow> (i64 \<times> DeltaOp) list" where
  "slot_node (SNode node d) = [(node, d)]" | "slot_node _ = []"

fun slot_label :: "slot \<Rightarrow> ((i64 \<times> i64) \<times> DeltaOp) list" where
  "slot_label (SLabel node label d) = [((node, label), d)]" | "slot_label _ = []"

fun slot_relationship :: "slot \<Rightarrow> RelationshipDelta list" where
  "slot_relationship (SRelationship d) = [d]" | "slot_relationship _ = []"

fun slot_property :: "slot \<Rightarrow> ((OwnerKind \<times> i64 \<times> i64) \<times> PropertyDelta) list" where
  "slot_property (SProperty kind owner key d) = [((kind, owner, key), d)]" | "slot_property _ = []"

lemma concat_map_Nil [simp]: "concat (map (\<lambda>x. []) xs) = []"
  by (induction xs) simp_all

lemma concat_map_single [simp]: "concat (map (\<lambda>x. [f x]) xs) = map f xs"
  by (induction xs) simp_all

lemma slots_parts:
  "concat (map slot_node (layer_slots l)) = om_entries (lb_nodes l)"
  "concat (map slot_label (layer_slots l)) = om_entries (lb_labels l)"
  "concat (map slot_relationship (layer_slots l)) = om_values (lb_relationships l)"
  "concat (map slot_property (layer_slots l)) = om_entries (lb_properties l)"
  by (simp_all add: layer_slots_def o_def case_prod_unfold)

lemma values_inject:
  assumes "om_values m = om_values m'" "\<And>i d. om_get m i = Some d \<Longrightarrow> f d = i" "\<And>i d. om_get m' i = Some d \<Longrightarrow> f d = i"
  shows "m = m'"
proof -
  have keys: "om_entries n = map (\<lambda>d. (f d, d)) (om_values n)" if "\<And>i d. om_get n i = Some d \<Longrightarrow> f d = i" for n
    using that by (auto simp: om_values_def om_entries_iff [symmetric] intro!: map_idI [symmetric])
  show ?thesis using keys [of m] keys [of m'] assms by (simp add: entries_inject)
qed

lemma layer_slots_inject:
  assumes "layer_slots l = layer_slots l'" "wf_layer l" "wf_layer l'"
  shows "l = l'"
proof -
  have "lb_nodes l = lb_nodes l'" "lb_labels l = lb_labels l'" "lb_properties l = lb_properties l'"
    using assms(1) slots_parts(1,2,4) by (metis entries_inject)+
  moreover have "lb_relationships l = lb_relationships l'"
    using assms slots_parts(3) [of l] slots_parts(3) [of l']
    by (intro values_inject [where f = "\<lambda>d. rel_id (rd_record d)"]) (auto simp: wf_layer_def)
  ultimately show ?thesis by (cases l; cases l') simp
qed

lemma layer_slots_canonical: "layer_slots (canonical_layer l) = map canonical_slot (layer_slots l)"
  by (simp add: layer_slots_def canonical_layer_def om_map.rep_eq case_prod_unfold)

lemma wf_canonical_value: "wf_value v \<Longrightarrow> wf_value (canonical_value v)"
  by (induction v) auto

lemma wf_layer_canonical: "wf_layer l \<Longrightarrow> wf_layer (canonical_layer l)"
proof -
  have "wf_slot s \<Longrightarrow> wf_slot (canonical_slot s)" for s
    by (cases s) (auto simp: wf_delta_def canonical_delta_def wf_canonical_value)
  then show "wf_layer l \<Longrightarrow> wf_layer (canonical_layer l)"
    by (simp add: wf_layer_def layer_slots_canonical list_all_iff) (simp add: canonical_layer_def)
qed

lemma record_fields_short:
  assumes "length (lce1_record d fs) \<le> usize_max"
  shows "short fs \<and> (\<forall>f \<in> set fs. short f)"
proof -
  have "length f \<le> length (enc_fields fs)" if "f \<in> set fs" for f
    using that by (induction fs) (auto simp: enc_field_def)
  then show ?thesis using assms length_enc_fields [of fs] by (fastforce simp: lce1_record_eq short_def)
qed

lemma canonical_lce1_inject:
  assumes "wf_layer l" "wf_layer l'" "canonical_lce1 l = Inr b" "canonical_lce1 l' = Inr b"
  shows "canonical_layer l = canonical_layer l'"
proof -
  obtain fs gs where fs: "map_res slot_bytes (layer_slots l) = Inr fs" "snd (record_checked (ascii ''LAYER'') fs) = Inr b"
    and gs: "map_res slot_bytes (layer_slots l') = Inr gs" "snd (record_checked (ascii ''LAYER'') gs) = Inr b"
    using assms(3,4) by (auto simp: canonical_lce1_eq)
  have sh: "short hs \<and> (\<forall>f \<in> set hs. short f)" if "snd (record_checked (ascii ''LAYER'') hs) = Inr b" for hs
    using that record_checked_short [OF that] record_fields_short [of "ascii ''LAYER''" hs]
    by (cases "hs = []") (auto simp: short_small)
  have "fs = gs"
    using lce1_record_inject [of "ascii ''LAYER''" "ascii ''LAYER''" fs gs] sh [OF fs(2)] sh [OF gs(2)]
      record_checked_Inr [OF fs(2)] record_checked_Inr [OF gs(2)] by auto
  then have "map canonical_slot (layer_slots l) = map canonical_slot (layer_slots l')"
    using fs(1) gs(1) assms(1,2) by (intro slots_inject) (auto simp: map_res_Inr_iff wf_layer_def)
  then show ?thesis
    using assms(1,2) by (intro layer_slots_inject) (simp_all add: layer_slots_canonical wf_layer_canonical)
qed

lemma content_hash_canonical:
  "canonical_lce1 l = Inr b \<Longrightarrow> content_hash P l = Inr (blake3 P b)"
  by (auto simp: canonical_lce1_eq content_hash_eq dest!: record_checked_Inr)

section \<open>Builder operations keep the invariant\<close>

lemma wf_layer_iff:
  "wf_layer l \<longleftrightarrow>
     om_all (\<lambda>n _. id_ok n) (lb_nodes l)
   \<and> om_all (\<lambda>(n, k) _. id_ok n \<and> id_ok k) (lb_labels l)
   \<and> om_all (\<lambda>i d. rel_id (rd_record d) = i \<and> wf_relationship (rd_record d)) (lb_relationships l)
   \<and> om_all (\<lambda>(kind, n, k) d. id_ok n \<and> id_ok k \<and> wf_delta d) (lb_properties l)"
proof -
  have "list_all wf_slot (map SRelationship (om_values m)) \<longleftrightarrow> om_all (\<lambda>_ d. wf_relationship (rd_record d)) m" for m
    by (auto simp: om_all_def om_values_def list_all_iff)
  moreover have "om_all (\<lambda>i d. rel_id (rd_record d) = i \<and> wf_relationship (rd_record d)) m \<longleftrightarrow>
      om_all (\<lambda>_ d. wf_relationship (rd_record d)) m \<and> (\<forall>i d. om_get m i = Some d \<longrightarrow> rel_id (rd_record d) = i)" for m
    by (auto simp: om_all_iff)
  ultimately show ?thesis
    by (auto simp: wf_layer_def layer_slots_def om_all_def list.pred_map o_def case_prod_unfold)
qed

lemma wf_layer_default [simp]: "wf_layer layer_default"
  by (simp add: wf_layer_iff layer_default_def)

lemma require_positive_Inr [simp]: "require_positive v = Inr u \<longleftrightarrow> 0 < v"
  by (simp add: require_positive_def)

lemma require_positive_pair_Inr [simp]: "require_positive_pair v w = Inr u \<longleftrightarrow> 0 < v \<and> 0 < w"
  by (simp add: require_positive_pair_def)

lemma validate_relationship_Inr [simp]:
  "validate_relationship r = Inr u \<longleftrightarrow> 0 < rel_id r \<and> 0 < source r \<and> 0 < type_id r \<and> 0 < target r"
  by (auto simp: validate_relationship_def)

lemma add_node_wf: "add_node n l = Inr l' \<Longrightarrow> in_i64 n \<Longrightarrow> wf_layer l \<Longrightarrow> wf_layer l'"
  by (auto simp: add_node_def wf_layer_iff id_ok_def intro!: om_all_put)

lemma remove_node_wf: "remove_node n l = Inr l' \<Longrightarrow> in_i64 n \<Longrightarrow> wf_layer l \<Longrightarrow> wf_layer l'"
  by (auto simp: remove_node_def wf_layer_iff id_ok_def intro!: om_all_put)

lemma add_label_wf: "add_label n k l = Inr l' \<Longrightarrow> in_i64 n \<Longrightarrow> in_i64 k \<Longrightarrow> wf_layer l \<Longrightarrow> wf_layer l'"
  by (auto simp: add_label_def wf_layer_iff id_ok_def intro!: om_all_put)

lemma remove_label_wf: "remove_label n k l = Inr l' \<Longrightarrow> in_i64 n \<Longrightarrow> in_i64 k \<Longrightarrow> wf_layer l \<Longrightarrow> wf_layer l'"
  by (auto simp: remove_label_def wf_layer_iff id_ok_def intro!: om_all_put)

definition in_i64_relationship :: "RelationshipRecord \<Rightarrow> bool" where
  "in_i64_relationship r \<longleftrightarrow> in_i64 (rel_id r) \<and> in_i64 (source r) \<and> in_i64 (type_id r) \<and> in_i64 (target r)"

lemma add_relationship_wf: "add_relationship r l = Inr l' \<Longrightarrow> in_i64_relationship r \<Longrightarrow> wf_layer l \<Longrightarrow> wf_layer l'"
  by (auto simp: add_relationship_def wf_layer_iff wf_relationship_def in_i64_relationship_def id_ok_def intro!: om_all_put)

lemma remove_relationship_wf: "remove_relationship r l = Inr l' \<Longrightarrow> in_i64_relationship r \<Longrightarrow> wf_layer l \<Longrightarrow> wf_layer l'"
  by (auto simp: remove_relationship_def wf_layer_iff wf_relationship_def in_i64_relationship_def id_ok_def intro!: om_all_put)

lemma set_property_wf:
  "set_property kind n k v l = Inr l' \<Longrightarrow> in_i64 n \<Longrightarrow> in_i64 k \<Longrightarrow> wf_value v \<Longrightarrow> wf_layer l \<Longrightarrow> wf_layer l'"
  by (auto simp: set_property_def wf_layer_iff wf_delta_def id_ok_def intro!: om_all_put)

lemma remove_property_wf:
  "remove_property kind n k l = Inr l' \<Longrightarrow> in_i64 n \<Longrightarrow> in_i64 k \<Longrightarrow> wf_layer l \<Longrightarrow> wf_layer l'"
  by (auto simp: remove_property_def wf_layer_iff wf_delta_def id_ok_def intro!: om_all_put)

section \<open>Properties\<close>

text \<open>C22. The content hash of a layer, computed by streaming its slots through the hasher, is the digest of
  its canonical LCE1 bytes.\<close>

theorem layer_hash_is_digest:
  assumes "canonical_lce1 l = Inr b"
  shows "content_hash P l = Inr (blake3 P b)"
  by (rule content_hash_canonical [OF assms])

lemma one_node_bytes:
  "canonical_lce1 (layer_default\<lparr>lb_nodes := om_put 7 Add om_empty\<rparr>) =
     Inr (lce1_record (ascii ''LAYER'') [node_record 7 Add])"
  by code_simp

theorem layer_hash_is_digest_witness:
  "content_hash \<lparr>blake3 = take 32, value_size = 48, vec_size = 24, columns_size = 120\<rparr>
     (layer_default\<lparr>lb_nodes := om_put 7 Add om_empty\<rparr>) =
   Inr (take 32 (lce1_record (ascii ''LAYER'') [node_record 7 Add]))"
  using layer_hash_is_digest [OF one_node_bytes, of "\<lparr>blake3 = take 32, value_size = 48, vec_size = 24, columns_size = 120\<rparr>"]
  by simp

text \<open>C23. Layers are content addressed: two well-formed layers with the same content hash are the same layer
  up to canonical NaNs, unless the digest collides on their canonical bytes.\<close>

theorem layer_content_addressed:
  assumes "wf_layer l" and "wf_layer l'" and "canonical_lce1 l = Inr b" and "canonical_lce1 l' = Inr b'"
    and "inj_on (blake3 P) {b, b'}" and "content_hash P l = content_hash P l'"
  shows "canonical_layer l = canonical_layer l'"
proof -
  have "b = b'"
    using assms(5,6) content_hash_canonical [OF assms(3), of P] content_hash_canonical [OF assms(4), of P]
    by (metis Inr_inject inj_onD insertI1 insertI2)
  with assms(1-4) show ?thesis by (intro canonical_lce1_inject) auto
qed

definition nan_layer :: "u64 \<Rightarrow> LayerBuilder" where
  "nan_layer b = layer_default\<lparr>lb_properties := om_put (Node, 7, 1) \<lparr>pd_op = Add, pd_value = Some (VFloat b)\<rparr> om_empty\<rparr>"

theorem layer_content_addressed_witness:
  "nan_layer 0x7ff8000000000001 \<noteq> nan_layer 0xfff0000000000002
   \<and> canonical_layer (nan_layer 0x7ff8000000000001) = canonical_layer (nan_layer 0xfff0000000000002)"
proof -
  let ?l = "nan_layer 0x7ff8000000000001" and ?l' = "nan_layer 0xfff0000000000002"
  let ?P = "\<lparr>blake3 = take 32, value_size = 48, vec_size = 24, columns_size = 120\<rparr>"
  have wf: "wf_layer (nan_layer b)" for b
    by (auto simp: nan_layer_def wf_layer_iff layer_default_def id_ok_def in_i64_def wf_delta_def intro!: om_all_put)
  have differ: "?l \<noteq> ?l'" by code_simp
  have nan: "canonical_bytes (VFloat 0x7ff8000000000001) = canonical_bytes (VFloat 0xfff0000000000002)" by code_simp
  have "layer_slots (nan_layer b) = [SProperty Node 7 1 \<lparr>pd_op = Add, pd_value = Some (VFloat b)\<rparr>]" for b
    by (simp add: layer_slots_def nan_layer_def layer_default_def om_values_def om_put.rep_eq om_empty.rep_eq)
  then have "canonical_lce1 ?l' = canonical_lce1 ?l" using nan
    by (simp add: canonical_lce1_eq property_record_checked_def type_tag_def canonical_bytes_def res_simps)
  moreover have "\<not> isl (canonical_lce1 ?l)" by code_simp
  ultimately have "\<exists>b. canonical_lce1 ?l = Inr b \<and> canonical_lce1 ?l' = Inr b" by (cases "canonical_lce1 ?l") auto
  then obtain b where b: "canonical_lce1 ?l = Inr b" "canonical_lce1 ?l' = Inr b" by (cases "canonical_lce1 ?l") auto
  have "content_hash ?P ?l = content_hash ?P ?l'" using content_hash_canonical [OF b(1), of ?P] content_hash_canonical [OF b(2), of ?P] by simp
  from layer_content_addressed [OF wf wf b _ this] differ show ?thesis by simp
qed

text \<open>C37. Every operation of the layer builder keeps its invariant: positive identifiers, relationships filed
  under their own identifier, and a value exactly on the property deltas that set one.\<close>

theorem builder_keeps_invariant:
  assumes "wf_layer l" and "in_i64 n" and "in_i64 k" and "wf_value v" and "in_i64_relationship r"
    and "l' \<in> {l'. Inr l' \<in> {add_node n l, remove_node n l, add_label n k l, remove_label n k l,
           add_relationship r l, remove_relationship r l, set_property kind n k v l, remove_property kind n k l}}"
  shows "wf_layer l'"
  using assms
  by (auto dest: sym intro: add_node_wf remove_node_wf add_label_wf remove_label_wf add_relationship_wf
      remove_relationship_wf set_property_wf remove_property_wf)

theorem builder_keeps_invariant_witness:
  "wf_layer (layer_default\<lparr>lb_nodes := om_put 7 Add om_empty\<rparr>)"
proof -
  have "Inr (layer_default\<lparr>lb_nodes := om_put 7 Add om_empty\<rparr>) = add_node 7 layer_default"
    by (simp add: add_node_def require_positive_def layer_default_def)
  then show ?thesis
    using builder_keeps_invariant [of layer_default 7 1 "VBoolean True" "\<lparr>rel_id = 1, source = 1, type_id = 1, target = 1\<rparr>"
        "layer_default\<lparr>lb_nodes := om_put 7 Add om_empty\<rparr>" Node]
    by (simp add: in_i64_def in_i64_relationship_def)
qed

end
