(* ===== verification/Layer_Store.thy ===== *)
theory Layer_Store
  imports Layer_Laws
begin

text \<open>
  A layer in the delta tables: what persisting writes, that loading reads the canonical layer back, that
  verifying an existing layer accepts exactly the layers that read back, and that nothing else changes.
\<close>

section \<open>Rows of a layer\<close>

lemma layer_rows_slice: "layer_rows i t = om_entries (om_slice i t)"
  by (simp add: layer_rows_def om_slice.rep_eq)

definition relationship_row :: "RelationshipDelta \<Rightarrow> RelationshipRow \<times> i64" where
  "relationship_row d =
     (\<lparr>rr_source_id = source (rd_record d), rr_type_id = type_id (rd_record d), rr_target_id = target (rd_record d)\<rparr>,
      op_i64 (rd_op d))"

definition property_row :: "PropertyDelta \<Rightarrow> PropertyDeltaRow res" where
  "property_row d =
     (case pd_value d of None \<Rightarrow> Inr (delta_row (pd_op d) None)
      | Some v \<Rightarrow> and_then (from_value v) (\<lambda>c. Inr (delta_row (pd_op d) (Some c))))"

definition owner_key :: "OwnerKind \<times> i64 \<times> i64 \<Rightarrow> i64 \<times> i64 \<times> i64" where
  "owner_key = (\<lambda>(kind, owner, key). (owner_i64 kind, owner, key))"

text \<open>The rows of layer \<open>i\<close> are the slots of \<open>l\<close>.\<close>

definition stored :: "database \<Rightarrow> i64 \<Rightarrow> LayerBuilder \<Rightarrow> bool" where
  "stored d i l \<longleftrightarrow>
     om_slice i (tb_node_delta d) = om_map (\<lambda>_. op_i64) (lb_nodes l)
   \<and> om_slice i (tb_label_delta d) = om_map (\<lambda>_. op_i64) (lb_labels l)
   \<and> om_slice i (tb_rel_delta d) = om_map (\<lambda>_. relationship_row) (lb_relationships l)
   \<and> om_slice i (tb_property_delta d) = om_graft owner_key (\<lambda>_ x. projr (property_row x)) (lb_properties l) om_empty
   \<and> om_all (\<lambda>_ x. \<exists>r. property_row x = Inr r) (lb_properties l)"

lemma owner_key_inj: "inj owner_key"
  by (auto simp: inj_def owner_key_def)

lemma owner_key_mono: "k < k' \<Longrightarrow> owner_key k < owner_key k'"
  by (cases k; cases k') (auto simp: owner_key_def less_OwnerKind_def less_eq_OwnerKind_def less_prod_def less_eq_prod_def
      order_le_less)

lemma om_entries_graft:
  assumes "\<And>k k'. k < k' \<Longrightarrow> f k < f k'"
  shows "om_entries (om_graft f g m om_empty) = map (\<lambda>(k, v). (f k, g k v)) (om_entries m)"
proof -
  let ?kvs = "map (\<lambda>(k, v). (f k, g k v)) (om_entries m)"
  have "asc ?kvs"
  proof -
    have "sorted_wrt (<) (map f (om_keys m))"
      unfolding sorted_wrt_map by (rule sorted_wrt_mono_rel [of _ "(<)"]) (simp_all add: assms om_keys_def)
    then show ?thesis by (simp add: om_keys_def case_prod_unfold comp_def)
  qed
  then have eq: "om_entries (Omap ?kvs) = ?kvs" by (intro Omap_inverse) simp
  have "om_put_all ?kvs om_empty = Omap ?kvs" using om_put_all_entries [of "Omap ?kvs"] unfolding eq .
  then show ?thesis by (simp only: om_graft_def eq)
qed

section \<open>Reading\<close>

lemma fold_res_decode:
  assumes "\<And>k v. om_get m k = Some v \<Longrightarrow> f (h k) (e k v) = Inr (k, g k v)"
  shows "fold_res (\<lambda>(k, v) t. and_then (f k v) (\<lambda>(k, w). Inr (om_put k w t)))
           (map (\<lambda>(k, v). (h k, e k v)) (om_entries m)) om_empty = Inr (om_map g m)"
proof -
  have "fold_res (\<lambda>(k, v) t. and_then (f k v) (\<lambda>(k, w). Inr (om_put k w t))) (map (\<lambda>(k, v). (h k, e k v)) xs) t =
      Inr (fold (\<lambda>(k, v). om_put k (g k v)) xs t)" if "set xs \<subseteq> set (om_entries m)" for xs t
    using that by (induction xs arbitrary: t) (auto simp: om_entries_iff assms)
  from this [of "om_entries m" om_empty]
  have "fold_res (\<lambda>(k, v) t. and_then (f k v) (\<lambda>(k, w). Inr (om_put k w t))) (map (\<lambda>(k, v). (h k, e k v)) (om_entries m)) om_empty =
      Inr (fold (\<lambda>(k, v). om_put k (g k v)) (om_entries m) om_empty)" by simp
  also have "fold (\<lambda>(k, v). om_put k (g k v)) (om_entries m) om_empty = om_map g m"
    unfolding om_put_all_map [symmetric] om_put_all_def by (simp add: fold_map o_def case_prod_unfold)
  finally show ?thesis .
qed

lemma om_map_ident [simp]: "om_map (\<lambda>_ v. v) m = m"
  by (rule om_ext) (simp add: om_get_map fun_eq_iff option.map_ident)

text \<open>Loops that change one component of a layer.\<close>

lemma fold_res_component:
  assumes "\<And>x s. f x s = and_then (g x (proj s)) (\<lambda>t. Inr (upd t s))"
    and "\<And>t s. proj (upd t s) = t" "\<And>t u s. upd t (upd u s) = upd t s" "\<And>s. upd (proj s) s = s"
  shows "fold_res f xs s = and_then (fold_res g xs (proj s)) (\<lambda>t. Inr (upd t s))"
proof (induction xs arbitrary: s)
  case (Cons x xs)
  show ?case
  proof (cases "g x (proj s)")
    case (Inr t)
    with Cons [of "upd t s"] assms show ?thesis by simp
  qed (simp add: assms(1))
qed (simp add: assms(4))

text \<open>A loop that decodes the rows of a table into a component of the layer.\<close>

lemma load_component:
  assumes "\<And>k r s. f (k, r) s = and_then (g k r) (\<lambda>(k, v). Inr (upd (om_put k v (proj s)) s))"
    and "\<And>t s. proj (upd t s) = t" "\<And>t u s. upd t (upd u s) = upd t s" "\<And>s. upd (proj s) s = s"
    and "om_entries t = map (\<lambda>(k, v). (h k, e k v)) (om_entries m)"
    and "\<And>k v. om_get m k = Some v \<Longrightarrow> g (h k) (e k v) = Inr (k, w k v)"
    and "proj s = om_empty"
  shows "fold_res f (om_entries t) s = Inr (upd (om_map w m) s)"
proof -
  let ?g = "\<lambda>(k, r) t. and_then (g k r) (\<lambda>(k, v). Inr (om_put k v t))"
  have "fold_res f (om_entries t) s = and_then (fold_res ?g (om_entries t) (proj s)) (\<lambda>t. Inr (upd t s))"
    by (rule fold_res_component) (auto simp: assms(1-4) and_then_assoc case_prod_unfold intro!: and_then_cong)
  also have "fold_res ?g (om_entries t) (proj s) = Inr (om_map w m)"
    unfolding assms(5,7) using assms(6) by (rule fold_res_decode)
  finally show ?thesis by simp
qed

lemma load_node_deltas_ok:
  assumes "om_slice i (tb_node_delta d) = om_map (\<lambda>_. op_i64) m" "lb_nodes l = om_empty"
  shows "snd (load_node_deltas d i l) = Inr (l\<lparr>lb_nodes := m\<rparr>)"
proof -
  have "snd (load_node_deltas d i l) = Inr (l\<lparr>lb_nodes := om_map (\<lambda>_ v. v) m\<rparr>)"
    unfolding load_node_deltas_def visit_node_deltas_def layer_rows_slice snd_chk_fold assms(1)
    by (rule load_component [where g = "\<lambda>k r. and_then (op_from_i64 r) (\<lambda>p. Inr (k, p))" and proj = lb_nodes
          and h = "\<lambda>k. k" and e = "\<lambda>_. op_i64"])
       (auto simp: res_simps om_map.rep_eq assms(2) simp del: and_then_Inr_iff)
  then show ?thesis by simp
qed

lemma load_label_deltas_ok:
  assumes "om_slice i (tb_label_delta d) = om_map (\<lambda>_. op_i64) m" "lb_labels l = om_empty"
  shows "snd (load_label_deltas d i l) = Inr (l\<lparr>lb_labels := m\<rparr>)"
proof -
  have "snd (load_label_deltas d i l) = Inr (l\<lparr>lb_labels := om_map (\<lambda>_ v. v) m\<rparr>)"
    unfolding load_label_deltas_def visit_label_deltas_def layer_rows_slice snd_chk_fold assms(1)
    by (rule load_component [where g = "\<lambda>k r. and_then (op_from_i64 r) (\<lambda>p. Inr (k, p))" and proj = lb_labels
          and h = "\<lambda>k. k" and e = "\<lambda>_. op_i64"])
       (auto simp: res_simps om_map.rep_eq assms(2) simp del: and_then_Inr_iff)
  then show ?thesis by simp
qed

lemma load_relationship_deltas_ok:
  assumes "om_slice i (tb_rel_delta d) = om_map (\<lambda>_. relationship_row) m" "lb_relationships l = om_empty"
    and "\<And>k x. om_get m k = Some x \<Longrightarrow> rel_id (rd_record x) = k"
  shows "snd (load_relationship_deltas d i l) = Inr (l\<lparr>lb_relationships := m\<rparr>)"
proof -
  have "snd (load_relationship_deltas d i l) = Inr (l\<lparr>lb_relationships := om_map (\<lambda>_ v. v) m\<rparr>)"
    unfolding load_relationship_deltas_def visit_relationship_deltas_def layer_rows_slice snd_chk_fold assms(1)
    by (rule load_component [where g = "\<lambda>k (r, i). and_then (op_from_i64 i) (\<lambda>p.
              Inr (k, \<lparr>rd_op = p, rd_record = relationship_from_row k r\<rparr>))" and proj = lb_relationships
          and h = "\<lambda>k. k" and e = "\<lambda>_. relationship_row"])
       (auto simp: res_simps om_map.rep_eq assms(2) relationship_row_def relationship_from_row_def
         simp flip: assms(3) simp del: and_then_Inr_iff)
  then show ?thesis by simp
qed

text \<open>A layer whose values can be read back within the address space.\<close>

definition layer_fits :: "platform \<Rightarrow> LayerBuilder \<Rightarrow> bool" where
  "layer_fits P l \<longleftrightarrow> om_all (\<lambda>_ d. case pd_value d of None \<Rightarrow> True | Some v \<Rightarrow> property_fits P v) (lb_properties l)"

lemma property_delta_from_row_ok:
  assumes "property_row x = Inr r" "wf_delta x" "case pd_value x of None \<Rightarrow> True | Some v \<Rightarrow> property_fits P v"
  shows "snd (property_delta_from_row P r) = Inr (canonical_delta x)"
proof (cases "pd_value x")
  case None
  with assms(1,2) show ?thesis
    by (cases x; cases "pd_op x") (auto simp: property_row_def wf_delta_def delta_row_def property_delta_from_row_def
        ensure_remove_payload_is_empty_def canonical_delta_def)
next
  case (Some v)
  then obtain c where c: "from_value v = Inr c" "r = delta_row Add (Some c)" "wf_value v" "pd_op x = Add" "property_fits P v"
    using assms by (auto simp: property_row_def wf_delta_def)
  have "row_columns (pc_type_tag c) r = c" by (cases c) (simp add: c(2) row_columns_def delta_row_def)
  then have "snd (property_from_row P (row_columns (pc_type_tag c) r)) = Inr (canonical_value v)"
    using property_from_row_ok c by simp
  moreover have "pr_type_tag r = Some (pc_type_tag c)" "pr_op r = op_i64 Add" by (simp_all add: c(2) delta_row_def)
  ultimately show ?thesis
    using Some c(4) by (cases x) (simp add: property_delta_from_row_def canonical_delta_def)
qed

lemma load_property_deltas_ok:
  assumes "om_slice i (tb_property_delta d) = om_graft owner_key e m om_empty" "lb_properties l = om_empty"
    and "\<And>k x. om_get m k = Some x \<Longrightarrow> snd (property_delta_from_row P (e k x)) = Inr (w k x)"
  shows "snd (load_property_deltas P d i l) = Inr (l\<lparr>lb_properties := om_map w m\<rparr>)"
  unfolding load_property_deltas_def visit_property_deltas_def layer_rows_slice snd_chk_fold assms(1)
proof (rule load_component [where g = "\<lambda>(kind, owner, key) r. and_then (owner_from_i64 kind) (\<lambda>kind.
              and_then (snd (property_delta_from_row P r)) (\<lambda>x. Inr ((kind, owner, key), x)))" and proj = lb_properties
          and h = owner_key and e = e])
  show "(case owner_key k of (kind, owner, key) \<Rightarrow> \<lambda>r. and_then (owner_from_i64 kind) (\<lambda>kind.
           and_then (snd (property_delta_from_row P r)) (\<lambda>x. Inr ((kind, owner, key), x)))) (e k v)
         = Inr (k, w k v)" if "om_get m k = Some v" for k v
    using assms(3) [OF that] by (cases k) (simp add: owner_key_def)
qed (auto simp: res_simps om_entries_graft [OF owner_key_mono] assms(2) simp del: and_then_Inr_iff)

lemma load_stored_layer:
  assumes "stored d i l" "wf_layer l" "layer_fits P l"
  shows "load_layer P d i = Inr (canonical_layer l)"
proof -
  have rel: "rel_id (rd_record x) = k" if "om_get (lb_relationships l) k = Some x" for k x
    using assms(2) that by (auto simp: wf_layer_iff om_all_iff)
  have row: "snd (property_delta_from_row P (projr (property_row x))) = Inr (canonical_delta x)"
    if x: "om_get (lb_properties l) k = Some x" for k x
  proof -
    obtain r where "property_row x = Inr r"
      using assms(1) x om_allD [of "\<lambda>_ x. \<exists>r. property_row x = Inr r" "lb_properties l" k x] by (auto simp: stored_def)
    moreover have "wf_delta x" using assms(2) x by (cases k) (auto simp: wf_layer_iff om_all_iff)
    moreover note om_allD [OF assms(3) [unfolded layer_fits_def] x]
    ultimately show ?thesis using property_delta_from_row_ok by simp
  qed
  have "snd (load_property_deltas P d i l') = Inr (l'\<lparr>lb_properties := om_map (\<lambda>_. canonical_delta) (lb_properties l)\<rparr>)"
    if "lb_properties l' = om_empty" for l'
    by (rule load_property_deltas_ok [OF _ that]) (use assms(1) row in \<open>auto simp: stored_def\<close>)
  then show ?thesis
    using assms(1) rel
    by (simp add: load_layer_def stored_def layer_default_def load_node_deltas_ok load_label_deltas_ok
        load_relationship_deltas_ok canonical_layer_def)
qed

section \<open>Writing\<close>

text \<open>A loop of insertions into one table.\<close>

lemma st_all_table:
  assumes "st_all f xs c = (Inr u, c')"
    and "\<And>x c c' v. x \<in> set xs \<Longrightarrow> f x c = (Inr v, c') \<Longrightarrow> Q x \<and> db c' = upd (om_put (kf x) (vf x) (proj (db c))) (db c)"
    and "\<And>t s. proj (upd t s) = t" "\<And>t u s. upd t (upd u s) = upd t s" "\<And>s. upd (proj s) s = s"
  shows "db c' = upd (om_put_all (map (\<lambda>x. (kf x, vf x)) xs) (proj (db c))) (db c) \<and> (\<forall>x \<in> set xs. Q x)"
  using assms(1,2)
proof (induction xs arbitrary: c)
  case Nil
  then show ?case by (simp add: om_put_all_def assms(5))
next
  case (Cons x xs)
  then obtain c1 where c1: "f x c = (Inr (), c1)" "st_all f xs c1 = (Inr u, c')" by auto
  have "Q x \<and> db c1 = upd (om_put (kf x) (vf x) (proj (db c))) (db c)" using c1(1) Cons.prems(2) by auto
  with Cons.IH [OF c1(2)] Cons.prems(2) show ?case by (simp add: om_put_all_def assms(3,4))
qed

text \<open>The rows of a layer added under its identifier.\<close>

definition graft_rows :: "i64 \<Rightarrow> ('k::linorder \<Rightarrow> 'l::linorder) \<Rightarrow> ('k \<Rightarrow> 'v \<Rightarrow> 'w) \<Rightarrow> ('k, 'v) omap \<Rightarrow>
    (i64 \<times> 'l, 'w) omap \<Rightarrow> (i64 \<times> 'l, 'w) omap" where
  "graft_rows i f g m t = om_graft (\<lambda>k. (i, f k)) g m t"

lemma om_slice_put: "om_slice j (om_put (i, k) v t) = (if i = j then om_put k v (om_slice j t) else om_slice j t)"
  by (rule om_ext) (auto simp: fun_eq_iff)

lemma om_slice_graft:
  "om_slice j (graft_rows i f g m t) = (if i = j then om_graft f g m (om_slice j t) else om_slice j t)"
proof -
  have "om_slice j (om_put_all (map (\<lambda>(k, v). ((i, f k), g k v)) xs) t) =
      (if i = j then om_put_all (map (\<lambda>(k, v). (f k, g k v)) xs) (om_slice j t) else om_slice j t)" for xs
    by (induction xs arbitrary: t) (auto simp: om_put_all_def om_slice_put)
  then show ?thesis by (simp add: graft_rows_def om_graft_def)
qed

lemma graft_ident: "om_graft (\<lambda>k. k) g m om_empty = om_map g m"
  by (simp add: om_graft_def)

lemma persist_node_deltas_Inr:
  assumes "persist_node_deltas i l c = (Inr u, c')"
  shows "db c' = db c\<lparr>tb_node_delta := graft_rows i (\<lambda>k. k) (\<lambda>_. op_i64) (lb_nodes l) (tb_node_delta (db c))\<rparr>"
proof -
  have "db c' = db c\<lparr>tb_node_delta := om_put_all (map (\<lambda>x. ((i, fst x), op_i64 (snd x))) (om_entries (lb_nodes l))) (tb_node_delta (db c))\<rparr>
      \<and> (\<forall>x \<in> set (om_entries (lb_nodes l)). True)"
    using assms unfolding persist_node_deltas_def
    by (rule st_all_table [where proj = tb_node_delta]) (auto dest!: st_check_db)
  then show ?thesis by (simp add: graft_rows_def om_graft_def case_prod_unfold)
qed

lemma persist_label_deltas_Inr:
  assumes "persist_label_deltas i l c = (Inr u, c')"
  shows "db c' = db c\<lparr>tb_label_delta := graft_rows i (\<lambda>k. k) (\<lambda>_. op_i64) (lb_labels l) (tb_label_delta (db c))\<rparr>"
proof -
  have "db c' = db c\<lparr>tb_label_delta := om_put_all (map (\<lambda>x. ((i, fst x), op_i64 (snd x))) (om_entries (lb_labels l))) (tb_label_delta (db c))\<rparr>
      \<and> (\<forall>x \<in> set (om_entries (lb_labels l)). True)"
    using assms unfolding persist_label_deltas_def
    by (rule st_all_table [where proj = tb_label_delta]) (auto dest!: st_check_db)
  then show ?thesis by (simp add: graft_rows_def om_graft_def case_prod_unfold)
qed

lemma persist_relationship_deltas_Inr:
  assumes "persist_relationship_deltas i l c = (Inr u, c')"
    and "\<And>k x. om_get (lb_relationships l) k = Some x \<Longrightarrow> rel_id (rd_record x) = k"
  shows "db c' = db c\<lparr>tb_rel_delta := graft_rows i (\<lambda>k. k) (\<lambda>_. relationship_row) (lb_relationships l) (tb_rel_delta (db c))\<rparr>"
proof -
  have "db c' = db c\<lparr>tb_rel_delta := om_put_all (map (\<lambda>x. ((i, rel_id (rd_record x)), relationship_row x))
        (om_values (lb_relationships l))) (tb_rel_delta (db c))\<rparr>
      \<and> (\<forall>x \<in> set (om_values (lb_relationships l)). True)"
    using assms(1) unfolding persist_relationship_deltas_def
    by (rule st_all_table [where proj = tb_rel_delta]) (auto simp: relationship_row_def Let_def dest!: st_check_db)
  moreover have "map (\<lambda>x. ((i, rel_id (rd_record x)), relationship_row x)) (om_values (lb_relationships l)) =
      map (\<lambda>(k, x). ((i, k), relationship_row x)) (om_entries (lb_relationships l))"
    using assms(2) by (auto simp: om_values_def om_entries_iff)
  ultimately show ?thesis by (simp add: graft_rows_def om_graft_def)
qed

lemma persist_property_deltas_Inr:
  assumes "persist_property_deltas i l c = (Inr u, c')"
  shows "db c' = db c\<lparr>tb_property_delta :=
        graft_rows i owner_key (\<lambda>_ x. projr (property_row x)) (lb_properties l) (tb_property_delta (db c))\<rparr>
    \<and> om_all (\<lambda>_ x. \<exists>r. property_row x = Inr r) (lb_properties l)"
proof -
  have "db c' = db c\<lparr>tb_property_delta := om_put_all (map (\<lambda>x. ((i, owner_key (fst x)), projr (property_row (snd x))))
        (om_entries (lb_properties l))) (tb_property_delta (db c))\<rparr>
      \<and> (\<forall>x \<in> set (om_entries (lb_properties l)). \<exists>r. property_row (snd x) = Inr r)"
    using assms(1) unfolding persist_property_deltas_def
  proof (rule st_all_table [where proj = tb_property_delta])
    fix x c1 c2 v
    assume "x \<in> set (om_entries (lb_properties l))"
    obtain kind owner key delta where x: "x = ((kind, owner, key), delta)" by (metis prod.collapse)
    assume "(case x of (k, delta) \<Rightarrow> (case k of (kind, owner, key) \<Rightarrow> \<lambda>delta. st_then st_check (\<lambda>_.
       st_then (case pd_value delta of None \<Rightarrow> st_ret None
                | Some v \<Rightarrow> st_then (st_chk (\<lambda>_. from_value_checked v)) (\<lambda>c. st_ret (Some c))) (\<lambda>columns.
       st_exec (\<lambda>d. and_then (insert_row
                        (i > 0 \<and> owner > 0 \<and> key > 0
                         \<and> (case columns of None \<Rightarrow> True | Some c \<Rightarrow> 1 \<le> pc_type_tag c \<and> pc_type_tag c \<le> 14))
                        (i, owner_i64 kind, owner, key) (delta_row (pd_op delta) columns) (tb_property_delta d))
                      (\<lambda>t. Inr (d\<lparr>tb_property_delta := t\<rparr>)))))) delta) c1 = (Inr v, c2)"
    then show "(\<exists>r. property_row (snd x) = Inr r)
        \<and> db c2 = db c1\<lparr>tb_property_delta := om_put (i, owner_key (fst x)) (projr (property_row (snd x))) (tb_property_delta (db c1))\<rparr>"
      by (cases "pd_value delta")
         (auto simp: x owner_key_def property_row_def from_value_def dest!: st_check_db st_chk_Inr)
  qed simp_all
  then show ?thesis by (simp add: graft_rows_def om_graft_def om_all_def list_all_iff case_prod_unfold)
qed

section \<open>Verifying an existing layer\<close>

text \<open>What SQLite and the column types guarantee of a stored row: 64-bit integers, UTF-8 text.\<close>

definition row_ok :: "PropertyDeltaRow \<Rightarrow> bool" where
  "row_ok r \<longleftrightarrow> (case pr_int_value r of None \<Rightarrow> True | Some n \<Rightarrow> in_i64 n)
     \<and> (case pr_text_value r of None \<Rightarrow> True | Some s \<Rightarrow> utf8_valid s)"

lemma float_value_canonical: "float_value c = Inr v \<Longrightarrow> wf_value v \<and> canonical_value v = v"
  by (auto simp: float_value_def Let_def canonical_f64_bits_def split: if_splits)

lemma to_value_canonical:
  assumes "to_value c = Inr v" "case int_value c of None \<Rightarrow> True | Some n \<Rightarrow> in_i64 n"
    "case text_value c of None \<Rightarrow> True | Some s \<Rightarrow> utf8_valid s"
  shows "wf_value v \<and> canonical_value v = v"
proof -
  have blob: "wf_value w \<and> canonical_value w = w" if "snd (complex_value c t) = Inr w" for t w
    using that decoded_canonical [of _ w]
    by (auto simp: complex_value_def from_canonical_bytes_def split: if_splits)
  show ?thesis
    using assms blob float_value_canonical [of c v]
    by (auto simp: to_value_def to_value_checked_def Let_def boolean_value_def required_int_def required_text_def
        time_value_def local_datetime_value_def zoned_datetime_value_def snd_copy_text_checked
        columns_fixed_def in_i32_from_le split: if_splits)
qed

text \<open>A loop that counts the rows it accepts.\<close>

lemma fold_res_count:
  assumes "fold_res f xs n = Inr m" "\<And>x n m. f x n = Inr m \<Longrightarrow> m = Suc n \<and> Q x"
  shows "m = n + length xs \<and> (\<forall>x \<in> set xs. Q x)"
  using assms(1)
proof (induction xs arbitrary: n)
  case (Cons x xs)
  then obtain k where "f x n = Inr k" "fold_res f xs k = Inr m" by auto
  with Cons.IH assms(2) show ?case by fastforce
qed simp

lemma op_from_i64_Inr [simp]: "op_from_i64 i = Inr p \<longleftrightarrow> i = op_i64 p"
  by (cases p) (auto simp: op_from_i64_def op_i64_def)

lemma owner_from_i64_Inr [simp]: "owner_from_i64 i = Inr k \<longleftrightarrow> i = owner_i64 k"
  by (cases k) (auto simp: owner_from_i64_def owner_i64_def)

lemma sliceI:
  assumes "length (om_entries t) = om_size m \<and> (\<forall>x \<in> set (om_entries t). \<exists>v. om_get m (fst x) = Some v \<and> snd x = f v)"
  shows "t = om_map (\<lambda>_. f) m"
  using assms by (intro om_sub_eqI) (force simp: om_entries_iff [symmetric] om_get_map om_size_def om_map.rep_eq)+

lemma verify_count:
  assumes "snd (chk_then (chk_fold f (om_entries t) 0) (\<lambda>count. chk_res (require_slot_count count n))) = Inr u"
    and "\<And>x n m. snd (f x n) = Inr m \<Longrightarrow> m = Suc n \<and> Q x"
  shows "length (om_entries t) = n \<and> (\<forall>x \<in> set (om_entries t). Q x)"
proof -
  from assms(1) obtain m where "fold_res (\<lambda>x s. snd (f x s)) (om_entries t) 0 = Inr m" "require_slot_count m n = Inr u" by auto
  moreover from this(2) have "m = n" by (simp add: require_slot_count_def split: if_splits)
  ultimately show ?thesis using fold_res_count [of "\<lambda>x s. snd (f x s)" "om_entries t" 0 m Q] assms(2) by auto
qed

lemma verify_stored_nodes_Inr:
  "snd (verify_stored_nodes l i d) = Inr u \<Longrightarrow> om_slice i (tb_node_delta d) = om_map (\<lambda>_. op_i64) (lb_nodes l)"
  unfolding verify_stored_nodes_def visit_node_deltas_def layer_rows_slice
  by (rule sliceI, erule verify_count) (auto split: if_splits)

lemma verify_stored_labels_Inr:
  "snd (verify_stored_labels l i d) = Inr u \<Longrightarrow> om_slice i (tb_label_delta d) = om_map (\<lambda>_. op_i64) (lb_labels l)"
  unfolding verify_stored_labels_def visit_label_deltas_def layer_rows_slice
  by (rule sliceI, erule verify_count) (auto split: if_splits)

lemma verify_stored_relationships_Inr:
  "snd (verify_stored_relationships l i d) = Inr u \<Longrightarrow>
   om_slice i (tb_rel_delta d) = om_map (\<lambda>_. relationship_row) (lb_relationships l)"
  unfolding verify_stored_relationships_def visit_relationship_deltas_def layer_rows_slice
  by (rule sliceI, erule verify_count) (auto simp: relationship_row_def relationship_from_row_def split: if_splits)

text \<open>A stored row that decodes to a delta equal in canonical bytes is the canonical delta.\<close>

lemma property_delta_equal:
  assumes "snd (property_delta_from_row P r) = Inr x" "row_ok r" "wf_delta y"
    "snd (property_values_equal_checked (pd_value x) (pd_value y)) = Inr True" "pd_op x = pd_op y"
  shows "x = canonical_delta y"
proof -
  have "v = canonical_value w" if v: "pd_value x = Some v" "pd_value y = Some w" for v w
  proof -
    obtain b where b: "canonical_bytes v = Inr b" "canonical_bytes w = Inr b"
      using assms(4) v by (auto simp: property_values_equal_checked_def canonical_bytes_def)
    obtain tag where "to_value (row_columns tag r) = Inr v"
      using assms(1) v(1) by (auto simp: property_delta_from_row_def dest: property_from_row_Inr split: if_splits)
    then have "wf_value v \<and> canonical_value v = v"
      using assms(2) by (intro to_value_canonical) (auto simp: row_columns_def row_ok_def)
    with b assms(3) v(2) show ?thesis using canonical_round_trip [of v b] canonical_round_trip [of w b]
      by (auto simp: wf_delta_def)
  qed
  moreover have "pd_value x = None \<longleftrightarrow> pd_value y = None"
    using assms(4) by (auto simp: property_values_equal_checked_def split: option.splits)
  ultimately show ?thesis
    using assms(5) by (cases x; cases y; cases "pd_value x"; cases "pd_value y") (auto simp: canonical_delta_def)
qed

lemma verify_stored_properties_Inr:
  assumes "snd (verify_stored_properties P l i d) = Inr u" "om_all (\<lambda>_. row_ok) (tb_property_delta d)"
    "om_all (\<lambda>_. wf_delta) (lb_properties l)" "lb_properties l' = om_empty"
  shows "snd (load_property_deltas P d i l') = Inr (l'\<lparr>lb_properties := om_map (\<lambda>_. canonical_delta) (lb_properties l)\<rparr>)"
proof -
  let ?t = "om_slice i (tb_property_delta d)" and ?m = "lb_properties l"
  let ?Q = "\<lambda>x. \<exists>k y delta. fst x = owner_key k \<and> om_get ?m k = Some y \<and> snd (property_delta_from_row P (snd x)) = Inr delta
      \<and> pd_op delta = pd_op y \<and> snd (property_values_equal_checked (pd_value delta) (pd_value y)) = Inr True"
  have len: "length (om_entries ?t) = om_size ?m \<and> (\<forall>x \<in> set (om_entries ?t). ?Q x)"
    using assms(1) unfolding verify_stored_properties_def visit_property_deltas_def layer_rows_slice
    by (rule verify_count) (force simp: owner_key_def split: if_splits)
  have row: "\<exists>k y. key = owner_key k \<and> om_get ?m k = Some y \<and> snd (property_delta_from_row P r) = Inr (canonical_delta y)"
    if r: "om_get ?t key = Some r" for key r
  proof -
    have "?Q (key, r)" using len r by (meson om_entries_iff)
    moreover have "row_ok r" using om_allD [OF assms(2)] r by simp
    ultimately show ?thesis using property_delta_equal [of P r] assms(3) by (auto simp: om_all_iff) blast
  qed
  have eq: "?t = om_graft owner_key (\<lambda>k _. the (om_get ?t (owner_key k))) ?m om_empty"
  proof (rule om_sub_eqI)
    show "om_size ?t = om_size (om_graft owner_key (\<lambda>k _. the (om_get ?t (owner_key k))) ?m om_empty)"
      using len by (simp add: om_size_def om_entries_graft [OF owner_key_mono])
  next
    fix key r assume "om_get ?t key = Some r"
    with row obtain k y where "key = owner_key k" "om_get ?m k = Some y" "om_get ?t (owner_key k) = Some r" by blast
    then show "om_get (om_graft owner_key (\<lambda>k _. the (om_get ?t (owner_key k))) ?m om_empty) key = Some r"
      by (simp add: om_get_graft(1) [OF owner_key_inj])
  qed
  show ?thesis
  proof (rule load_property_deltas_ok [OF eq assms(4)])
    fix k x assume x: "om_get ?m k = Some x"
    then obtain r where r: "om_get ?t (owner_key k) = Some r"
      using arg_cong [OF eq, of "\<lambda>t. om_get t (owner_key k)"] by (simp add: om_get_graft(1) [OF owner_key_inj])
    with row obtain k' y where "owner_key k = owner_key k'" "om_get ?m k' = Some y"
      "snd (property_delta_from_row P r) = Inr (canonical_delta y)" by blast
    moreover from this have "k' = k" using owner_key_inj by (simp add: inj_eq)
    ultimately show "snd (property_delta_from_row P (the (om_get ?t (owner_key k)))) = Inr (canonical_delta x)"
      using r x by simp
  qed
qed

lemma verify_existing_load:
  assumes "snd (verify_existing_layer_checked P l i d) = Inr u" "wf_layer l" "om_all (\<lambda>_. row_ok) (tb_property_delta d)"
  shows "load_layer P d i = Inr (canonical_layer l)"
proof -
  have rel: "rel_id (rd_record x) = k" if "om_get (lb_relationships l) k = Some x" for k x
    using assms(2) that by (auto simp: wf_layer_iff om_all_iff)
  have v: "snd (verify_stored_nodes l i d) = Inr ()" "snd (verify_stored_labels l i d) = Inr ()"
    "snd (verify_stored_relationships l i d) = Inr ()" "snd (verify_stored_properties P l i d) = Inr ()"
    using assms(1) by (auto simp: verify_existing_layer_checked_def)
  have "om_all (\<lambda>_. wf_delta) (lb_properties l)" using assms(2) by (auto simp: wf_layer_iff om_all_iff)
  note verify_stored_properties_Inr [OF v(4) assms(3) this]
  then show ?thesis
    using rel verify_stored_nodes_Inr [OF v(1)] verify_stored_labels_Inr [OF v(2)] verify_stored_relationships_Inr [OF v(3)]
    by (simp add: load_layer_def layer_default_def load_node_deltas_ok load_label_deltas_ok
        load_relationship_deltas_ok canonical_layer_def)
qed

section \<open>Persisting a layer\<close>

text \<open>
  The invariant of the layer tables: identifiers of layers and of their rows are positive and below the
  layer sequence, graph identifiers are positive, and property rows have the types of their columns.
\<close>

definition below :: "i64 \<Rightarrow> (i64 \<times> 'k::linorder, 'v) omap \<Rightarrow> bool" where
  "below n t \<longleftrightarrow> om_all (\<lambda>(i, _) _. 0 < i \<and> i < n) t"

definition delta_rows_ok :: "database \<Rightarrow> bool" where
  "delta_rows_ok d \<longleftrightarrow>
     om_all (\<lambda>(_, n) _. id_ok n) (tb_node_delta d)
   \<and> om_all (\<lambda>(_, n, l) _. id_ok n \<and> id_ok l) (tb_label_delta d)
   \<and> om_all (\<lambda>(_, i) r. wf_relationship (relationship_from_row i (fst r))) (tb_rel_delta d)
   \<and> om_all (\<lambda>(_, _, n, k) r. id_ok n \<and> id_ok k \<and> row_ok r) (tb_property_delta d)"

definition layer_tables_ok :: "database \<Rightarrow> bool" where
  "layer_tables_ok d \<longleftrightarrow>
     (case om_get (tb_sequences d) 6 of None \<Rightarrow> False
      | Some n \<Rightarrow> 0 < n \<and> om_all (\<lambda>i h. 0 < i \<and> i < n \<and> length h = 32) (tb_layers d) \<and> below n (tb_node_delta d)
          \<and> below n (tb_label_delta d) \<and> below n (tb_rel_delta d) \<and> below n (tb_property_delta d))
   \<and> delta_rows_ok d"

lemma delta_rows_ok_row_ok: "delta_rows_ok d \<Longrightarrow> om_all (\<lambda>_. row_ok) (tb_property_delta d)"
  unfolding delta_rows_ok_def om_all_iff by auto

text \<open>Everything a layer's rows are read from.\<close>

definition same_layer :: "database \<Rightarrow> database \<Rightarrow> i64 \<Rightarrow> bool" where
  "same_layer d d' i \<longleftrightarrow>
     om_slice i (tb_node_delta d') = om_slice i (tb_node_delta d)
   \<and> om_slice i (tb_label_delta d') = om_slice i (tb_label_delta d)
   \<and> om_slice i (tb_rel_delta d') = om_slice i (tb_rel_delta d)
   \<and> om_slice i (tb_property_delta d') = om_slice i (tb_property_delta d)"

lemma same_layer_load: "same_layer d d' i \<Longrightarrow> load_layer P d' i = load_layer P d i"
  by (simp add: same_layer_def load_layer_def load_node_deltas_def load_label_deltas_def load_relationship_deltas_def
      load_property_deltas_def visit_node_deltas_def visit_label_deltas_def visit_relationship_deltas_def
      visit_property_deltas_def layer_rows_slice)

text \<open>The tables after a new layer has been written.\<close>

definition with_layer :: "i64 \<Rightarrow> hash_id \<Rightarrow> LayerBuilder \<Rightarrow> database \<Rightarrow> database" where
  "with_layer i h l d = d\<lparr>
     tb_sequences := om_put 6 (i + 1) (tb_sequences d),
     tb_layers := om_put i h (tb_layers d),
     tb_node_delta := graft_rows i (\<lambda>k. k) (\<lambda>_. op_i64) (lb_nodes l) (tb_node_delta d),
     tb_label_delta := graft_rows i (\<lambda>k. k) (\<lambda>_. op_i64) (lb_labels l) (tb_label_delta d),
     tb_rel_delta := graft_rows i (\<lambda>k. k) (\<lambda>_. relationship_row) (lb_relationships l) (tb_rel_delta d),
     tb_property_delta := graft_rows i owner_key (\<lambda>_ x. projr (property_row x)) (lb_properties l) (tb_property_delta d)\<rparr>"

lemma persist_layer_checked_Inr:
  assumes "persist_layer_checked P l c = (Inr (i, h), c')" "wf_layer l"
  shows "content_hash P l = Inr h
    \<and> (om_find ((=) h) (tb_layers (db c)) = Some i \<and> db c' = db c \<and> snd (verify_existing_layer_checked P l i (db c)) = Inr ()
       \<or> om_find ((=) h) (tb_layers (db c)) = None \<and> om_get (tb_sequences (db c)) 6 = Some i \<and> 0 < i \<and> length h = 32
         \<and> db c' = with_layer i h l (db c) \<and> om_all (\<lambda>_ x. \<exists>r. property_row x = Inr r) (lb_properties l))"
proof -
  have rel: "rel_id (rd_record x) = k" if "om_get (lb_relationships l) k = Some x" for k x
    using assms(2) that by (auto simp: wf_layer_iff om_all_iff)
  show ?thesis
    using assms(1)
    by (auto simp: persist_layer_checked_def existing_layer_id_def content_hash_def allocate_layer_id_def with_layer_def
        dest!: st_chk_Inr st_check_db allocate_id_Inr persist_node_deltas_Inr persist_label_deltas_Inr
          persist_relationship_deltas_Inr [OF _ rel] persist_property_deltas_Inr split: option.splits)
qed

lemma slice_below:
  assumes "below n t" "n \<le> i"
  shows "om_slice i t = om_empty"
proof (rule om_ext)
  have "om_get t (i, k) = None" for k
    using assms om_allD [of _ t "(i, k)"] by (cases "om_get t (i, k)") (fastforce simp: below_def)+
  then show "om_get (om_slice i t) = om_get om_empty" by (simp add: fun_eq_iff)
qed

lemma below_graft:
  assumes "below n t" "0 < n"
  shows "below (n + 1) (graft_rows n f g m t)"
proof -
  have "below (n + 1) (om_put_all (map (\<lambda>(k, v). ((n, f k), g k v)) xs) t)" if "below (n + 1) t" for xs t
    using that assms(2) by (induction xs arbitrary: t) (auto simp: om_put_all_def below_def intro!: om_all_put)
  moreover have "below (n + 1) t" using assms(1) by (auto simp: below_def om_all_iff) force
  ultimately show ?thesis by (simp add: graft_rows_def om_graft_def)
qed

lemma graft_all:
  assumes "om_all Q t" "om_all (\<lambda>k v. Q (i, f k) (g k v)) m"
  shows "om_all Q (graft_rows i f g m t)"
proof -
  have "om_all Q (om_put_all (map (\<lambda>(k, v). ((i, f k), g k v)) xs) t)"
    if "\<forall>(k, v) \<in> set xs. Q (i, f k) (g k v)" "om_all Q t" for xs t
    using that by (induction xs arbitrary: t) (auto simp: om_put_all_def intro!: om_all_put)
  with assms show ?thesis by (simp add: graft_rows_def om_graft_def om_all_def list_all_iff)
qed

lemma row_ok_delta_row: "from_value v = Inr c \<Longrightarrow> wf_value v \<Longrightarrow> row_ok (delta_row p (Some c))"
  by (cases v) (auto simp: from_value_def from_value_checked_def columns_empty_def row_ok_def delta_row_def checked_u64_def
      snd_copy_text_checked in_i64_def uint_ge_0 order_trans [OF _ uint_ge_0] split: if_splits)

lemma row_ok_property_row: "property_row x = Inr r \<Longrightarrow> wf_delta x \<Longrightarrow> row_ok r"
  by (auto simp: property_row_def wf_delta_def row_ok_delta_row split: option.splits)
     (simp add: delta_row_def row_ok_def)

lemma with_layer_stored:
  assumes "layer_tables_ok d" "om_get (tb_sequences d) 6 = Some i" "om_all (\<lambda>_ x. \<exists>r. property_row x = Inr r) (lb_properties l)"
  shows "stored (with_layer i h l d) i l" "j \<noteq> i \<Longrightarrow> same_layer d (with_layer i h l d) j"
  using assms by (simp_all add: stored_def with_layer_def om_slice_graft slice_below [of i _ i] layer_tables_ok_def
      graft_ident same_layer_def)

lemma with_layer_tables_ok:
  assumes "layer_tables_ok d" "om_get (tb_sequences d) 6 = Some i" "om_all (\<lambda>_ x. \<exists>r. property_row x = Inr r) (lb_properties l)"
    "wf_layer l" "length h = 32"
  shows "layer_tables_ok (with_layer i h l d)"
proof -
  have row: "row_ok (projr (property_row x))" if x: "om_get (lb_properties l) k = Some x" for k x
    using om_allD [OF assms(3) x] assms(4) x row_ok_property_row [of x] by (cases k) (auto simp: wf_layer_iff om_all_iff)
  have rel: "relationship_from_row i (fst (relationship_row x)) = rd_record x" if "rel_id (rd_record x) = i" for i x
    using that by (cases "rd_record x") (auto simp: relationship_from_row_def relationship_row_def)
  have "delta_rows_ok (with_layer i h l d)"
    using assms(1,4) row unfolding layer_tables_ok_def delta_rows_ok_def with_layer_def wf_layer_iff
    by (simp, intro conjI graft_all) (auto simp: owner_key_def om_all_iff rel)
  moreover have "om_all (\<lambda>j h. 0 < j \<and> j < i + 1 \<and> length h = 32) (tb_layers d)"
    using assms(1,2) by (auto simp: layer_tables_ok_def om_all_iff) force
  ultimately show ?thesis
    using assms(1,2,5) by (auto simp: layer_tables_ok_def below_graft with_layer_def intro!: om_all_put)
qed

section \<open>Persisting again\<close>

lemma verify_count_ok:
  assumes "\<And>x n. x \<in> set xs \<Longrightarrow> snd (f x n) = Inr (Suc n)" "length xs = n"
  shows "snd (chk_then (chk_fold f xs 0) (\<lambda>count. chk_res (require_slot_count count n))) = Inr ()"
proof -
  have "fold_res (\<lambda>x s. snd (f x s)) ys k = Inr (k + length ys)" if "set ys \<subseteq> set xs" for ys k
    using that assms(1) by (induction ys arbitrary: k) auto
  from this [of xs 0] assms(2) show ?thesis by (simp add: require_slot_count_def)
qed

lemma map_res_InrD: "map_res f xs = Inr ys \<Longrightarrow> x \<in> set xs \<Longrightarrow> \<exists>y. f x = Inr y"
  by (induction xs arbitrary: ys) auto

lemma canonical_bytes_canonical:
  "wf_value v \<Longrightarrow> canonical_bytes v = Inr b \<Longrightarrow> canonical_bytes (canonical_value v) = Inr b"
  by (rule from_canonical_bytes_canonical) (rule canonical_round_trip)

lemma pd_op_canonical [simp]: "pd_op (canonical_delta x) = pd_op x"
  by (simp add: canonical_delta_def)

lemma property_values_equal_canonical:
  assumes "wf_delta x" "\<And>v. pd_value x = Some v \<Longrightarrow> \<exists>b. canonical_bytes v = Inr b"
  shows "snd (property_values_equal_checked (pd_value (canonical_delta x)) (pd_value x)) = Inr True"
proof (cases "pd_value x")
  case None
  then show ?thesis by (simp add: canonical_delta_def property_values_equal_checked_def)
next
  case (Some v)
  then obtain b where "canonical_bytes v = Inr b" "canonical_bytes (canonical_value v) = Inr b"
    using assms canonical_bytes_canonical [of v] by (auto simp: wf_delta_def)
  with Some show ?thesis by (simp add: canonical_delta_def property_values_equal_checked_def canonical_bytes_def)
qed

lemma stored_verify:
  assumes "stored d i l" "wf_layer l" "layer_fits P l" "content_hash P l = Inr h"
  shows "snd (verify_existing_layer_checked P l i d) = Inr ()"
proof -
  have rel: "rel_id (rd_record x) = k" if "om_get (lb_relationships l) k = Some x" for k x
    using assms(2) that by (auto simp: wf_layer_iff om_all_iff)
  have row: "snd (property_delta_from_row P (projr (property_row x))) = Inr (canonical_delta x)"
    "snd (property_values_equal_checked (pd_value (canonical_delta x)) (pd_value x)) = Inr True"
    if x: "om_get (lb_properties l) k = Some x" for k x
  proof -
    have wf: "wf_delta x" using assms(2) x by (cases k) (auto simp: wf_layer_iff om_all_iff)
    obtain kind owner key where k: "k = (kind, owner, key)" by (metis prod.collapse)
    have "\<exists>fs. map_res slot_bytes (layer_slots l) = Inr fs" using assms(4) by (auto simp: content_hash_eq)
    moreover have "SProperty kind owner key x \<in> set (layer_slots l)"
      using x k by (force simp: layer_slots_def om_entries_iff [symmetric])
    ultimately obtain b where "slot_bytes (SProperty kind owner key x) = Inr b"
      using map_res_InrD by metis
    then have "\<exists>b. canonical_bytes v = Inr b" if "pd_value x = Some v" for v
      using that by (auto simp: property_record_checked_def canonical_bytes_def)
    then show "snd (property_values_equal_checked (pd_value (canonical_delta x)) (pd_value x)) = Inr True"
      using wf by (intro property_values_equal_canonical) auto
    have "\<exists>r. property_row x = Inr r"
      using assms(1) x om_allD [of "\<lambda>_ x. \<exists>r. property_row x = Inr r" "lb_properties l" k x] by (auto simp: stored_def)
    then show "snd (property_delta_from_row P (projr (property_row x))) = Inr (canonical_delta x)"
      using property_delta_from_row_ok [OF _ wf] om_allD [OF assms(3) [unfolded layer_fits_def] x] by auto
  qed
  have "snd (verify_stored_nodes l i d) = Inr ()"
    using assms(1) unfolding verify_stored_nodes_def visit_node_deltas_def layer_rows_slice stored_def
    by (intro verify_count_ok) (auto simp: om_size_def om_map.rep_eq om_entries_iff)
  moreover have "snd (verify_stored_labels l i d) = Inr ()"
    using assms(1) unfolding verify_stored_labels_def visit_label_deltas_def layer_rows_slice stored_def
    by (intro verify_count_ok) (auto simp: om_size_def om_map.rep_eq om_entries_iff)
  moreover have rr: "rd_record x = \<lparr>rel_id = k, source = source (rd_record x), type_id = type_id (rd_record x),
      target = target (rd_record x)\<rparr>" if "om_get (lb_relationships l) k = Some x" for k x
    using rel [OF that] by (cases "rd_record x") simp
  have "snd (verify_stored_relationships l i d) = Inr ()"
    using assms(1) unfolding verify_stored_relationships_def visit_relationship_deltas_def layer_rows_slice stored_def
    by (intro verify_count_ok) (auto simp: om_size_def om_map.rep_eq om_entries_iff relationship_row_def
        relationship_from_row_def simp flip: rr)
  moreover have es: "om_entries (om_slice i (tb_property_delta d)) =
      map (\<lambda>(k, x). (owner_key k, projr (property_row x))) (om_entries (lb_properties l))"
    using assms(1) by (simp add: stored_def om_entries_graft [OF owner_key_mono])
  have "snd (verify_stored_properties P l i d) = Inr ()"
    unfolding verify_stored_properties_def visit_property_deltas_def layer_rows_slice es
    by (intro verify_count_ok) (auto simp: om_size_def om_entries_iff owner_key_def row)
  ultimately show ?thesis by (simp add: verify_existing_layer_checked_def)
qed

lemma om_find_eqI:
  assumes "om_get t i = Some h" "\<And>j. om_get t j = Some h \<Longrightarrow> j = i"
  shows "om_find ((=) h) t = Some i"
proof (cases "om_find ((=) h) t")
  case None
  with assms(1) show ?thesis by (auto simp: om_find_None_iff)
next
  case (Some j)
  with assms(2) show ?thesis by (auto dest!: om_find_SomeD)
qed

lemma st_chk_on_db: "hook c = (\<lambda>_. None) \<Longrightarrow> fst (st_chk m c) = snd (m (db c))"
  by (simp add: st_chk_def)

lemma persist_existing:
  assumes "content_hash P l = Inr h" "om_find ((=) h) (tb_layers d) = Some i"
    "snd (verify_existing_layer_checked P l i d) = Inr ()"
  shows "persist_layer P l d = (Inr (i, h), d)"
  using assms
  by (simp add: persist_layer_def persist_layer_checked_def st_then_def st_check_def st_chk_def st_query_def st_ret_def
      existing_layer_id_def on_db_def content_hash_def Let_def)

section \<open>Properties\<close>

text \<open>C8. A persisted layer is read back: after persisting a well-formed layer, its identifier is registered
  under its content hash and loading the rows of that identifier gives the layer up to canonical NaNs, whether
  the rows were written now or an equal layer had been stored before. Every layer stored earlier keeps its hash
  and its contents, and the invariant of the layer tables is kept.\<close>

theorem persist_then_load:
  assumes "persist_layer_checked P l c = (Inr (i, h), c')" and "wf_layer l" and "layer_fits P l"
    and "layer_tables_ok (db c)"
  shows "content_hash P l = Inr h \<and> om_get (tb_layers (db c')) i = Some h
    \<and> load_layer P (db c') i = Inr (canonical_layer l) \<and> layer_tables_ok (db c')
    \<and> (\<forall>j g. om_get (tb_layers (db c)) j = Some g \<longrightarrow>
          om_get (tb_layers (db c')) j = Some g \<and> load_layer P (db c') j = load_layer P (db c) j)"
proof -
  note p = persist_layer_checked_Inr [OF assms(1,2)]
  from p show ?thesis
  proof (elim conjE disjE)
    assume "om_find ((=) h) (tb_layers (db c)) = Some i" "db c' = db c"
      "snd (verify_existing_layer_checked P l i (db c)) = Inr ()" "content_hash P l = Inr h"
    then show ?thesis
      using assms(2,4) verify_existing_load [of P l i "db c"] by (auto simp: layer_tables_ok_def delta_rows_ok_row_ok dest: om_find_SomeD)
  next
    assume new: "om_get (tb_sequences (db c)) 6 = Some i" "length h = 32" "db c' = with_layer i h l (db c)"
      "om_all (\<lambda>_ x. \<exists>r. property_row x = Inr r) (lb_properties l)" "content_hash P l = Inr h"
    have "j \<noteq> i" if "om_get (tb_layers (db c)) j = Some g" for j g
      using assms(4) new(1) that by (auto simp: layer_tables_ok_def om_all_iff)
    moreover have "om_get (tb_layers (with_layer i h l (db c))) j = (if j = i then Some h else om_get (tb_layers (db c)) j)" for j
      by (simp add: with_layer_def)
    ultimately show ?thesis
      using new assms(2-4) with_layer_stored [OF assms(4) new(1,4)] with_layer_tables_ok [OF assms(4) new(1,4) assms(2) new(2)]
        load_stored_layer [of "with_layer i h l (db c)" i l P] same_layer_load [of "db c" "with_layer i h l (db c)" _ P]
      by auto
  qed
qed

lemma persist_new:
  assumes "content_hash P l = Inr h" "length h = 32" "om_find ((=) h) (tb_layers d) = None"
    "om_get (tb_sequences d) 6 = Some i" "0 < i" "i < 2 ^ 63 - 1" "om_get (tb_layers d) i = None"
    "lb_labels l = om_empty" "lb_relationships l = om_empty" "lb_properties l = om_empty"
    "om_entries (lb_nodes l) = [(n, p)]" "0 < n" "om_get (tb_node_delta d) (i, n) = None"
  shows "\<exists>d'. persist_layer P l d = (Inr (i, h), d')"
proof -
  have ins: "insert_unique True i h (tb_layers d) = Inr (om_put i h (tb_layers d))"
    "insert_row True (i, n) (op_i64 p) (tb_node_delta d) = Inr (om_put (i, n) (op_i64 p) (tb_node_delta d))"
    using assms by (auto simp: om_find_None_iff)
  show ?thesis
    using assms
    by (simp add: persist_layer_def persist_layer_checked_def st_then_def st_check_def st_chk_def st_query_def st_ret_def
        st_exec_def existing_layer_id_def on_db_def content_hash_def Let_def allocate_layer_id_def allocate_id_ok
        persist_node_deltas_def persist_label_deltas_def persist_relationship_deltas_def persist_property_deltas_def
        om_values_def om_empty.rep_eq ins del: insert_row_Inr_iff insert_unique_Inr_iff)
qed

definition one_node :: LayerBuilder where
  "one_node = layer_default\<lparr>lb_nodes := om_put 7 Add om_empty\<rparr>"

definition platform64 :: platform where
  "platform64 = \<lparr>blake3 = (\<lambda>_. replicate 32 0), value_size = 48, vec_size = 24, columns_size = 120\<rparr>"

lemma one_node_facts:
  "wf_layer one_node" "layer_fits P one_node" "canonical_layer one_node = one_node" "content_hash platform64 one_node = Inr (replicate 32 0)"
  "layer_tables_ok create_storage_schema"
  by (auto simp: one_node_def wf_layer_iff layer_default_def id_ok_def in_i64_def layer_fits_def canonical_layer_def content_hash_eq
      layer_slots_def om_put.rep_eq om_empty.rep_eq om_values_def platform64_def layer_tables_ok_def create_storage_schema_def
      om_of_def om_put_all_def below_def delta_rows_ok_def om_all_iff intro!: om_ext om_all_put simp: om_get_map [abs_def])

lemma persist_one_node: "\<exists>d'. persist_layer platform64 one_node create_storage_schema = (Inr (1, replicate 32 0), d')"
  using one_node_facts(4)
  by (rule persist_new [where n = 7 and p = Add]) (auto simp: create_storage_schema_def om_of_def om_put_all_def om_find_def
      one_node_def layer_default_def om_put.rep_eq om_empty.rep_eq)

theorem persist_then_load_witness:
  "\<exists>c'. persist_layer_checked platform64 one_node (on_db create_storage_schema) = (Inr (1, replicate 32 0), c')
     \<and> load_layer platform64 (db c') 1 = Inr one_node"
proof -
  obtain c' where c': "persist_layer_checked platform64 one_node (on_db create_storage_schema) = (Inr (1, replicate 32 0), c')"
    using persist_one_node by (auto simp: persist_layer_def Let_def split: prod.splits)
  have "layer_tables_ok (db (on_db create_storage_schema))" using one_node_facts(5) by (simp add: on_db_def)
  with persist_then_load [OF c' one_node_facts(1,2)] c' show ?thesis by (auto simp: one_node_facts(3))
qed

text \<open>Persisting is idempotent and deduplicates by content: persisting a layer that was just persisted
  returns the same identifier and hash and leaves the database as it is.\<close>

theorem persist_idempotent:
  assumes "persist_layer P l d = (Inr (i, h), d')" and "wf_layer l" and "layer_fits P l" and "layer_tables_ok d"
  shows "persist_layer P l d' = (Inr (i, h), d')"
proof -
  obtain c' where c': "persist_layer_checked P l (on_db d) = (Inr (i, h), c')" "db c' = d'"
    using assms(1) by (auto simp: persist_layer_def Let_def split: prod.splits)
  have [simp]: "db (on_db d) = d" by (simp add: on_db_def)
  from persist_layer_checked_Inr [OF c'(1) assms(2)] show ?thesis
  proof (elim conjE disjE)
    assume "om_find ((=) h) (tb_layers (db (on_db d))) = None" and new: "om_get (tb_sequences (db (on_db d))) 6 = Some i"
      "db c' = with_layer i h l (db (on_db d))" "om_all (\<lambda>_ x. \<exists>r. property_row x = Inr r) (lb_properties l)"
      "content_hash P l = Inr h"
    then have "om_find ((=) h) (tb_layers d') = Some i"
      using c'(2) by (intro om_find_eqI) (auto simp: with_layer_def om_find_None_iff split: if_splits)
    moreover have "stored d' i l" using new c'(2) assms(4) with_layer_stored(1) [of d i l h] by simp
    ultimately show ?thesis
      using assms(2,3) new(4) by (intro persist_existing) (auto intro: stored_verify)
  qed (use c'(2) in \<open>auto intro: persist_existing\<close>)
qed

theorem persist_idempotent_witness:
  "\<exists>d'. persist_layer platform64 one_node create_storage_schema = (Inr (1, replicate 32 0), d')
     \<and> persist_layer platform64 one_node d' = (Inr (1, replicate 32 0), d')"
proof -
  obtain d' where d': "persist_layer platform64 one_node create_storage_schema = (Inr (1, replicate 32 0), d')"
    using persist_one_node by blast
  with persist_idempotent [OF d' one_node_facts(1,2,5)] show ?thesis by blast
qed

end
