(* ===== verification/Graph.thy ===== *)
theory Graph
  imports Layer_Laws
begin

text \<open>
  The abstract property graph a commit stands for, and what applying a layer to it means. This is the
  specification the snapshot code refines: a checkpoint is a stored graph, a layer is a function on graphs,
  and a snapshot is a base graph under an overlay of pending changes.
\<close>

section \<open>Overlays\<close>

text \<open>
  An overlay maps a key to the value it now has, or to \<open>None\<close> when it has been removed; a key it does not
  mention keeps the value of the base.
\<close>

definition om_overlay :: "('k::linorder, 'v) omap \<Rightarrow> ('k, 'v option) omap \<Rightarrow> ('k, 'v) omap" where
  "om_overlay b ov = fold (\<lambda>(k, c). case c of None \<Rightarrow> om_del k | Some v \<Rightarrow> om_put k v) (om_entries ov) b"

lemma om_get_fold_overlay:
  "om_get (fold (\<lambda>(k, c). case c of None \<Rightarrow> om_del k | Some v \<Rightarrow> om_put k v) kcs b) k =
     (case map_of (rev kcs) k of None \<Rightarrow> om_get b k | Some c \<Rightarrow> c)"
proof (induction kcs arbitrary: b)
  case (Cons kc kcs)
  then show ?case by (cases kc) (auto simp: map_add_def split: option.splits)
qed simp

lemma om_get_overlay: "om_get (om_overlay b ov) k = (case om_get ov k of None \<Rightarrow> om_get b k | Some c \<Rightarrow> c)"
  unfolding om_overlay_def om_get_fold_overlay by (simp add: map_of_rev om_get_def)

lemma om_overlay_empty [simp]: "om_overlay b om_empty = b"
  by (rule om_ext) (simp add: om_get_overlay fun_eq_iff)

text \<open>Overlays compose: a later one wins.\<close>

lemma om_get_put_all_entries: "om_get (om_put_all (om_entries m) t) = om_get t ++ om_get m"
  by (simp add: om_get_put_all map_of_rev) (simp add: om_get_def)

lemma om_overlay_put_all:
  "om_overlay b (om_put_all (om_entries o2) o1) = om_overlay (om_overlay b o1) o2"
  by (rule om_ext) (auto simp: om_get_overlay fun_eq_iff om_get_put_all_entries map_add_def split: option.splits)

section \<open>Graphs\<close>

record graph =
  g_nodes :: "(i64, unit) omap"
  g_labels :: "(i64 \<times> i64, unit) omap"
  g_relationships :: "(i64, RelationshipRecord) omap"
  g_properties :: "(OwnerKind \<times> i64 \<times> i64, PropertyValue) omap"

definition empty_graph :: graph where
  "empty_graph = \<lparr>g_nodes = om_empty, g_labels = om_empty, g_relationships = om_empty, g_properties = om_empty\<rparr>"

text \<open>What a delta says of its slot.\<close>

definition op_change :: "DeltaOp \<Rightarrow> unit option" where
  "op_change p = (if p = Add then Some () else None)"

definition relationship_change :: "RelationshipDelta \<Rightarrow> RelationshipRecord option" where
  "relationship_change d = (if rd_op d = Add then Some (rd_record d) else None)"

definition overlay_graph ::
    "graph \<Rightarrow> (i64, DeltaOp) omap \<Rightarrow> (i64 \<times> i64, DeltaOp) omap \<Rightarrow> (i64, RelationshipDelta) omap \<Rightarrow>
     (OwnerKind \<times> i64 \<times> i64, PropertyDelta) omap \<Rightarrow> graph" where
  "overlay_graph g nodes labels relationships properties =
     \<lparr>g_nodes = om_overlay (g_nodes g) (om_map (\<lambda>_. op_change) nodes),
      g_labels = om_overlay (g_labels g) (om_map (\<lambda>_. op_change) labels),
      g_relationships = om_overlay (g_relationships g) (om_map (\<lambda>_. relationship_change) relationships),
      g_properties = om_overlay (g_properties g) (om_map (\<lambda>_. pd_value) properties)\<rparr>"

definition apply_layer :: "LayerBuilder \<Rightarrow> graph \<Rightarrow> graph" where
  "apply_layer l g = overlay_graph g (lb_nodes l) (lb_labels l) (lb_relationships l) (lb_properties l)"

lemma om_map_put_all:
  "om_map (\<lambda>_. f) (om_put_all kvs m) = om_put_all (map (\<lambda>(k, v). (k, f v)) kvs) (om_map (\<lambda>_. f) m)"
proof (induction kvs arbitrary: m)
  case (Cons kv kvs)
  have "om_map (\<lambda>_. f) (om_put k v m) = om_put k (f v) (om_map (\<lambda>_. f) m)" for k v
    by (rule om_ext) (simp add: om_get_map fun_eq_iff)
  with Cons show ?case by (cases kv) (simp add: om_put_all_def)
qed (simp add: om_put_all_def)

lemma overlay_put_all_map:
  "om_overlay b (om_map (\<lambda>_. f) (om_put_all (om_entries m) m0)) = om_overlay (om_overlay b (om_map (\<lambda>_. f) m0)) (om_map (\<lambda>_. f) m)"
  by (simp add: om_map_put_all om_overlay_put_all [symmetric] om_map.rep_eq)

lemma overlay_graph_apply_layer:
  "overlay_graph g (om_put_all (om_entries (lb_nodes l)) nodes) (om_put_all (om_entries (lb_labels l)) labels)
     (om_put_all (om_entries (lb_relationships l)) relationships) (om_put_all (om_entries (lb_properties l)) properties) =
   apply_layer l (overlay_graph g nodes labels relationships properties)"
  by (simp add: overlay_graph_def apply_layer_def overlay_put_all_map)

lemma apply_layer_default [simp]: "apply_layer layer_default g = g"
  by (simp add: apply_layer_def overlay_graph_def layer_default_def om_ext om_get_overlay om_get_map fun_eq_iff)

section \<open>Well-formed graphs\<close>

text \<open>
  Every label and property hangs on an element of the graph, and both ends of a relationship are nodes of it.
\<close>

definition owner_in :: "graph \<Rightarrow> OwnerKind \<Rightarrow> i64 \<Rightarrow> bool" where
  "owner_in g kind i = (case kind of Node \<Rightarrow> om_has (g_nodes g) i | Relationship \<Rightarrow> om_has (g_relationships g) i)"

definition wf_graph :: "graph \<Rightarrow> bool" where
  "wf_graph g \<longleftrightarrow>
     om_all (\<lambda>(n, _) _. om_has (g_nodes g) n) (g_labels g)
   \<and> om_all (\<lambda>i r. rel_id r = i \<and> om_has (g_nodes g) (source r) \<and> om_has (g_nodes g) (target r)) (g_relationships g)
   \<and> om_all (\<lambda>(kind, i, _) _. owner_in g kind i) (g_properties g)"

lemma wf_empty_graph: "wf_graph empty_graph"
  by (simp add: wf_graph_def empty_graph_def)

lemma apply_layer_get:
  "om_get (g_nodes (apply_layer l g)) n = (case om_get (lb_nodes l) n of None \<Rightarrow> om_get (g_nodes g) n | Some p \<Rightarrow> op_change p)"
  "om_get (g_labels (apply_layer l g)) k = (case om_get (lb_labels l) k of None \<Rightarrow> om_get (g_labels g) k | Some p \<Rightarrow> op_change p)"
  "om_get (g_relationships (apply_layer l g)) i =
     (case om_get (lb_relationships l) i of None \<Rightarrow> om_get (g_relationships g) i | Some d \<Rightarrow> relationship_change d)"
  "om_get (g_properties (apply_layer l g)) o' =
     (case om_get (lb_properties l) o' of None \<Rightarrow> om_get (g_properties g) o' | Some d \<Rightarrow> pd_value d)"
  by (simp_all add: apply_layer_def overlay_graph_def om_get_overlay om_get_map split: option.splits)

text \<open>A layer that repeats a relationship of a graph must describe it as the graph does.\<close>

definition tuples_stable :: "LayerBuilder \<Rightarrow> graph \<Rightarrow> bool" where
  "tuples_stable l g \<longleftrightarrow> om_all (\<lambda>i d. case om_get (g_relationships g) i of None \<Rightarrow> True | Some r \<Rightarrow> rd_record d = r) (lb_relationships l)"

end
