(* ===== verification/Snapshot.thy ===== *)
theory Snapshot
  imports Layer_Store Graph
begin

text \<open>
  Snapshots (\<^verbatim>\<open>storage/snapshot_lineage.rs\<close>, \<^verbatim>\<open>snapshot_overlay.rs\<close>, \<^verbatim>\<open>snapshot.rs\<close>,
  \<^verbatim>\<open>snapshot_stream.rs\<close>, \<^verbatim>\<open>snapshot_labels.rs\<close>, \<^verbatim>\<open>snapshot_properties.rs\<close>,
  \<^verbatim>\<open>snapshot_read.rs\<close>): the layers between a commit and its nearest checkpoint, their accumulation in
  an overlay with its adjacency indexes, and the reads over checkpoint and overlay. A snapshot is read without
  an allocation observer, so no leases are kept; the query-local layer and schema of a staged snapshot are not
  part of the state.
\<close>

section \<open>Lineage\<close>

record LineageRow =
  lr_parent :: "hash_id option"
  lr_layer_id :: i64
  lr_layer_hash :: hash_id
  lr_has_checkpoint :: bool
  lr_has_delta :: bool

text \<open>\<^verbatim>\<open>EXISTS(SELECT 1 ... WHERE layer_id = commits.layer_id)\<close> over the four delta tables.\<close>

definition has_delta :: "i64 \<Rightarrow> database \<Rightarrow> bool" where
  "has_delta layer d \<longleftrightarrow> layer_rows layer (tb_node_delta d) \<noteq> [] \<or> layer_rows layer (tb_label_delta d) \<noteq> []
     \<or> layer_rows layer (tb_rel_delta d) \<noteq> [] \<or> layer_rows layer (tb_property_delta d) \<noteq> []"

definition load_lineage_row :: "database \<Rightarrow> hash_id \<Rightarrow> LineageRow res" where
  "load_lineage_row d current =
     (case om_get (tb_commits d) current of
        None \<Rightarrow> Inl (NotFound ''Commit '')
      | Some row \<Rightarrow>
          (case om_get (tb_layers d) (cr_layer_id row) of
             None \<Rightarrow> Inl (NotFound ''Commit '')
           | Some h \<Rightarrow>
               and_then (case cr_parent1 row of None \<Rightarrow> Inr None
                         | Some p \<Rightarrow> and_then (hash_from_slice p) (\<lambda>p. Inr (Some p))) (\<lambda>parent.
               and_then (hash_from_slice h) (\<lambda>h.
                 Inr \<lparr>lr_parent = parent, lr_layer_id = cr_layer_id row, lr_layer_hash = h,
                      lr_has_checkpoint = om_has (tb_checkpoints d) current,
                      lr_has_delta = has_delta (cr_layer_id row) d\<rparr>))))"

text \<open>A \<^verbatim>\<open>Vec\<close> with its capacity; growing it asks the hook before and after.\<close>

definition push_lineage_item :: "'a list \<times> nat \<Rightarrow> 'a \<Rightarrow> ('a list \<times> nat) chk" where
  "push_lineage_item = (\<lambda>(values, capacity) v.
     if length values = capacity
     then (if 2 * capacity > usize_max then chk_err resource_overflow
           else chk_then check (\<lambda>_. chk_then check (\<lambda>_. chk_ok (values @ [v], max 4 (2 * capacity)))))
     else chk_ok (values @ [v], capacity))"

definition record_lineage_layer :: "LineageRow \<Rightarrow> hash_id \<Rightarrow> i64 list \<times> nat \<Rightarrow> (i64 list \<times> nat) chk" where
  "record_lineage_layer row empty_layer_hash layers =
     (if lr_has_delta row then push_lineage_item layers (lr_layer_id row)
      else if lr_layer_hash row \<noteq> empty_layer_hash
      then chk_err (Corrupt ''empty Layer has a non-canonical content hash'')
      else chk_ok layers)"

text \<open>The loop; it ends because every commit it visits has a row and is visited once.\<close>

lemma load_lineage_row_Inr: "load_lineage_row d c = Inr row \<Longrightarrow> om_get (tb_commits d) c \<noteq> None"
  by (auto simp: load_lineage_row_def split: option.splits)

function lineage_loop ::
    "database \<Rightarrow> hash_id option \<Rightarrow> hash_id \<Rightarrow> hash_id \<Rightarrow> (hash_id, unit) omap \<Rightarrow> i64 list \<times> nat \<Rightarrow>
     (hash_id option \<times> i64 list) chk" where
  "lineage_loop d skip empty_layer_hash current visited layers =
     chk_then check (\<lambda>_.
     if om_has visited current then chk_err (Corrupt ''Commit first-parent lineage contains a cycle'')
     else chk_then check (\<lambda>_.
          chk_then (chk_res (load_lineage_row d current)) (\<lambda>row.
          chk_then check (\<lambda>_.
          if Some current \<noteq> skip \<and> lr_has_checkpoint row then chk_ok (Some current, fst layers)
          else chk_then (record_lineage_layer row empty_layer_hash layers) (\<lambda>layers.
            case lr_parent row of
              None \<Rightarrow> chk_ok (None, fst layers)
            | Some parent \<Rightarrow> lineage_loop d skip empty_layer_hash parent (om_put current () visited) layers)))))"
  by pat_completeness auto
termination
proof (relation "measure (\<lambda>(d, _, _, _, visited, _). card (dom (om_get (tb_commits d)) - dom (om_get visited)))", goal_cases)
  case (2 d skip eh current visited layers x y row z layers' parent)
  then have "current \<in> dom (om_get (tb_commits d)) - dom (om_get visited)"
    by (auto simp: om_has_def dest!: load_lineage_row_Inr)
  then have "card (dom (om_get (tb_commits d)) - dom (om_get (om_put current () visited)))
      < card (dom (om_get (tb_commits d)) - dom (om_get visited))"
    by (intro psubset_card_mono finite_Diff finite_dom_om_get) (auto simp: dom_def)
  then show ?case by simp
qed simp

definition resolve_lineage ::
    "platform \<Rightarrow> database \<Rightarrow> hash_id \<Rightarrow> hash_id option \<Rightarrow> (hash_id option \<times> i64 list) chk" where
  "resolve_lineage P d commit skip_checkpoint =
     chk_then check (\<lambda>_.
     chk_then (chk_res (content_hash P layer_default)) (\<lambda>empty_layer_hash.
     chk_then check (\<lambda>_.
       lineage_loop d skip_checkpoint empty_layer_hash commit om_empty ([], 0))))"

section \<open>The overlay\<close>

record Overlay =
  ov_nodes :: "(i64, DeltaOp) omap"
  ov_labels :: "(i64 \<times> i64, DeltaOp) omap"
  ov_labels_by_label :: "(i64 \<times> i64, DeltaOp) omap"
  ov_relationships :: "(i64, RelationshipDelta) omap"
  ov_outgoing :: "(i64 \<times> i64 \<times> i64 \<times> i64, RelationshipDelta) omap"
  ov_incoming :: "(i64 \<times> i64 \<times> i64 \<times> i64, RelationshipDelta) omap"
  ov_outgoing_by_id :: "(i64 \<times> i64, RelationshipDelta) omap"
  ov_incoming_by_id :: "(i64 \<times> i64, RelationshipDelta) omap"
  ov_incident_by_id :: "(i64 \<times> i64, RelationshipDelta) omap"
  ov_properties :: "(OwnerKind \<times> i64 \<times> i64, PropertyDelta) omap"

definition overlay_default :: Overlay where
  "overlay_default =
     \<lparr>ov_nodes = om_empty, ov_labels = om_empty, ov_labels_by_label = om_empty, ov_relationships = om_empty,
      ov_outgoing = om_empty, ov_incoming = om_empty, ov_outgoing_by_id = om_empty, ov_incoming_by_id = om_empty,
      ov_incident_by_id = om_empty, ov_properties = om_empty\<rparr>"

definition outgoing_key :: "RelationshipRecord \<Rightarrow> i64 \<times> i64 \<times> i64 \<times> i64" where
  "outgoing_key r = (source r, type_id r, target r, rel_id r)"

definition incoming_key :: "RelationshipRecord \<Rightarrow> i64 \<times> i64 \<times> i64 \<times> i64" where
  "incoming_key r = (target r, type_id r, source r, rel_id r)"

definition remove_relationship_indexes :: "i64 \<Rightarrow> RelationshipRecord \<Rightarrow> Overlay \<Rightarrow> Overlay" where
  "remove_relationship_indexes i r ov = ov\<lparr>
     ov_outgoing := om_del (outgoing_key r) (ov_outgoing ov),
     ov_incoming := om_del (incoming_key r) (ov_incoming ov),
     ov_outgoing_by_id := om_del (source r, i) (ov_outgoing_by_id ov),
     ov_incoming_by_id := om_del (target r, i) (ov_incoming_by_id ov),
     ov_incident_by_id := om_del (target r, i) (om_del (source r, i) (ov_incident_by_id ov))\<rparr>"

definition apply_relationship_delta :: "i64 \<Rightarrow> RelationshipDelta \<Rightarrow> Overlay \<Rightarrow> Overlay" where
  "apply_relationship_delta i delta ov =
     (let ov = (case om_get (ov_relationships ov) i of None \<Rightarrow> ov
                | Some previous \<Rightarrow> remove_relationship_indexes i (rd_record previous) ov);
          r = rd_record delta
      in ov\<lparr>ov_outgoing := om_put (outgoing_key r) delta (ov_outgoing ov),
            ov_incoming := om_put (incoming_key r) delta (ov_incoming ov),
            ov_outgoing_by_id := om_put (source r, i) delta (ov_outgoing_by_id ov),
            ov_incoming_by_id := om_put (target r, i) delta (ov_incoming_by_id ov),
            ov_incident_by_id := om_put (target r, i) delta (om_put (source r, i) delta (ov_incident_by_id ov)),
            ov_relationships := om_put i delta (ov_relationships ov)\<rparr>)"

definition insert_node_observed :: "i64 \<Rightarrow> DeltaOp \<Rightarrow> Overlay \<Rightarrow> Overlay chk" where
  "insert_node_observed i p ov = chk_then check (\<lambda>_. chk_ok (ov\<lparr>ov_nodes := om_put i p (ov_nodes ov)\<rparr>))"

definition insert_label_observed :: "i64 \<Rightarrow> i64 \<Rightarrow> DeltaOp \<Rightarrow> Overlay \<Rightarrow> Overlay chk" where
  "insert_label_observed i label p ov =
     chk_then check (\<lambda>_. chk_ok (ov\<lparr>ov_labels := om_put (i, label) p (ov_labels ov),
                                     ov_labels_by_label := om_put (label, i) p (ov_labels_by_label ov)\<rparr>))"

definition insert_relationship_observed :: "i64 \<Rightarrow> RelationshipDelta \<Rightarrow> Overlay \<Rightarrow> Overlay chk" where
  "insert_relationship_observed i delta ov = chk_then check (\<lambda>_. chk_ok (apply_relationship_delta i delta ov))"

definition insert_property_observed :: "OwnerKind \<times> i64 \<times> i64 \<Rightarrow> PropertyDelta \<Rightarrow> Overlay \<Rightarrow> Overlay chk" where
  "insert_property_observed key delta ov = chk_ok (ov\<lparr>ov_properties := om_put key delta (ov_properties ov)\<rparr>)"

definition apply_persisted_layer_observed :: "platform \<Rightarrow> database \<Rightarrow> i64 \<Rightarrow> Overlay \<Rightarrow> Overlay chk" where
  "apply_persisted_layer_observed P d layer ov =
     chk_then (visit_node_deltas d layer insert_node_observed ov) (\<lambda>ov.
     chk_then (visit_label_deltas d layer insert_label_observed ov) (\<lambda>ov.
     chk_then (visit_relationship_deltas d layer
                 (\<lambda>r p. insert_relationship_observed (rel_id r) \<lparr>rd_op = p, rd_record = r\<rparr>) ov) (\<lambda>ov.
       visit_property_deltas P d layer (\<lambda>kind owner key. insert_property_observed (kind, owner, key)) ov)))"

text \<open>\<^verbatim>\<open>Overlay::apply\<close>, for a layer in memory.\<close>

definition overlay_apply :: "LayerBuilder \<Rightarrow> Overlay \<Rightarrow> Overlay" where
  "overlay_apply l ov =
     (let ov = ov\<lparr>ov_nodes := om_put_all (om_entries (lb_nodes l)) (ov_nodes ov)\<rparr>;
          ov = fold (\<lambda>((node, label), p) ov. ov\<lparr>ov_labels := om_put (node, label) p (ov_labels ov),
                       ov_labels_by_label := om_put (label, node) p (ov_labels_by_label ov)\<rparr>) (om_entries (lb_labels l)) ov;
          ov = fold (\<lambda>(i, delta). apply_relationship_delta i delta) (om_entries (lb_relationships l)) ov
      in ov\<lparr>ov_properties := om_put_all (om_entries (lb_properties l)) (ov_properties ov)\<rparr>)"

section \<open>Resolution\<close>

record SnapshotState =
  ss_commit :: hash_id
  ss_cache_identity :: hash_id
  ss_checkpoint :: "hash_id option"
  ss_overlay :: Overlay
  ss_property_cache :: "(OwnerKind \<times> i64 \<times> i64, PropertyValue option) omap"

definition resolve_state_with_checkpoint_skip ::
    "platform \<Rightarrow> database \<Rightarrow> hash_id \<Rightarrow> hash_id option \<Rightarrow> SnapshotState chk" where
  "resolve_state_with_checkpoint_skip P d commit skip_checkpoint =
     chk_then (resolve_lineage P d commit skip_checkpoint) (\<lambda>(checkpoint, layer_ids).
     chk_then (chk_fold (\<lambda>layer ov. chk_then check (\<lambda>_. apply_persisted_layer_observed P d layer ov))
                 (rev layer_ids) overlay_default) (\<lambda>ov.
       chk_ok \<lparr>ss_commit = commit, ss_cache_identity = commit, ss_checkpoint = checkpoint, ss_overlay = ov,
               ss_property_cache = om_empty\<rparr>))"

definition resolve :: "platform \<Rightarrow> database \<Rightarrow> hash_id \<Rightarrow> SnapshotState res" where
  "resolve P d commit = snd (resolve_state_with_checkpoint_skip P d commit None)"

end
