(* ===== verification/Snapshot_Read.thy ===== *)
theory Snapshot_Read
  imports Snapshot
begin

text \<open>
  Reads over a resolved snapshot: point lookups, adjacency lists, the streaming visits that merge the rows of
  the checkpoint with the overlay in key order, the page cache of properties and the semantic hash.
\<close>

section \<open>Point reads\<close>

text \<open>\<^verbatim>\<open>SELECT ... WHERE commit_id = ?1 ORDER BY\<close> the rest of the primary key.\<close>

definition commit_rows :: "hash_id \<Rightarrow> (bytes \<times> 'k::linorder, 'v) omap \<Rightarrow> ('k \<times> 'v) list" where
  "commit_rows c t = om_entries (om_slice c t)"

definition node_exists :: "database \<Rightarrow> SnapshotState \<Rightarrow> i64 \<Rightarrow> bool res" where
  "node_exists d s node =
     (case om_get (ov_nodes (ss_overlay s)) node of
        Some p \<Rightarrow> Inr (p = Add)
      | None \<Rightarrow>
          (case ss_checkpoint s of None \<Rightarrow> Inr False | Some c \<Rightarrow> Inr (om_has (tb_cp_nodes d) (c, node))))"

definition relationship :: "database \<Rightarrow> SnapshotState \<Rightarrow> i64 \<Rightarrow> RelationshipRecord option res" where
  "relationship d s i =
     (case om_get (ov_relationships (ss_overlay s)) i of
        Some delta \<Rightarrow> Inr (if rd_op delta = Add then Some (rd_record delta) else None)
      | None \<Rightarrow>
          (case ss_checkpoint s of
             None \<Rightarrow> Inr None
           | Some c \<Rightarrow> Inr (map_option (relationship_from_row i) (om_get (tb_cp_relationships d) (c, i)))))"

definition labels :: "database \<Rightarrow> SnapshotState \<Rightarrow> i64 \<Rightarrow> i64 list res" where
  "labels d s node =
     (let ov = ov_labels (ss_overlay s);
          base = (case ss_checkpoint s of
                    None \<Rightarrow> om_empty
                  | Some c \<Rightarrow> fold (\<lambda>((n, label), _) m. if \<not> om_has ov (node, label) then om_put label () m else m)
                                (filter (\<lambda>((n, _), _). n = node) (commit_rows c (tb_cp_labels d))) om_empty)
      in Inr (om_keys (fold (\<lambda>((_, label), p) m. case p of Add \<Rightarrow> om_put label () m | Remove \<Rightarrow> om_del label m)
                (filter (\<lambda>((n, label), _). n = node \<and> 0 \<le> label \<and> label \<le> 2 ^ 63 - 1) (om_entries ov)) base)))"

definition with_property_checked ::
    "platform \<Rightarrow> database \<Rightarrow> SnapshotState \<Rightarrow> OwnerKind \<Rightarrow> i64 \<Rightarrow> i64 \<Rightarrow> (PropertyValue option \<Rightarrow> 'a chk) \<Rightarrow> 'a chk" where
  "with_property_checked P d s kind owner key visitor =
     chk_then check (\<lambda>_.
       case om_get (ov_properties (ss_overlay s)) (kind, owner, key) of
         Some delta \<Rightarrow> visitor (pd_value delta)
       | None \<Rightarrow>
           (case om_get (ss_property_cache s) (kind, owner, key) of
              Some v \<Rightarrow> visitor v
            | None \<Rightarrow>
                (case ss_checkpoint s of
                   None \<Rightarrow> visitor None
                 | Some c \<Rightarrow>
                     (case om_get (tb_cp_properties d) (c, owner_i64 kind, owner, key) of
                        None \<Rightarrow> visitor None
                      | Some row \<Rightarrow> chk_then (property_from_row P row) (\<lambda>v. visitor (Some v))))))"

text \<open>\<^verbatim>\<open>clone_value_checked\<close> copies a value.\<close>

fun clone_value_checked :: "PropertyValue \<Rightarrow> PropertyValue chk" where
  "clone_value_checked (VString s) = chk_then check (\<lambda>_. chk_then (copy_text_checked s) (\<lambda>s. chk_ok (VString s)))"
| "clone_value_checked (VList vs) =
     chk_then check (\<lambda>_. chk_then (chk_map clone_value_checked vs) (\<lambda>vs. chk_ok (VList vs)))"
| "clone_value_checked (VZonedDateTime z) =
     chk_then check (\<lambda>_. chk_then (copy_text_checked (zone_id z)) (\<lambda>zone. chk_ok (VZonedDateTime (z\<lparr>zone_id := zone\<rparr>))))"
| "clone_value_checked (VPoint p) =
     chk_then check (\<lambda>_. chk_then (chk_fold (\<lambda>chunk out. chk_then check (\<lambda>_. chk_ok (out @ chunk)))
       (chunks 256 (coordinates p)) []) (\<lambda>cs. chk_ok (VPoint (p\<lparr>coordinates := cs\<rparr>))))"
| "clone_value_checked (VVector v) =
     chk_then check (\<lambda>_. chk_then (chk_fold (\<lambda>chunk out. chk_then check (\<lambda>_. chk_ok (out @ chunk)))
       (chunks 65536 (packed v)) []) (\<lambda>bs. chk_ok (VVector (v\<lparr>packed := bs\<rparr>))))"
| "clone_value_checked v = chk_then check (\<lambda>_. chk_ok v)"

definition property :: "platform \<Rightarrow> database \<Rightarrow> SnapshotState \<Rightarrow> OwnerKind \<Rightarrow> i64 \<Rightarrow> i64 \<Rightarrow> PropertyValue option res" where
  "property P d s kind owner key =
     snd (with_property_checked P d s kind owner key (\<lambda>v. case v of None \<Rightarrow> chk_ok None
       | Some v \<Rightarrow> chk_then (clone_value_checked v) (\<lambda>v. chk_ok (Some v))))"

section \<open>Adjacency\<close>

datatype Direction = Outgoing | Incoming

definition adjacency_sort_key :: "Direction \<Rightarrow> RelationshipRecord \<Rightarrow> i64 \<times> i64 \<times> i64" where
  "adjacency_sort_key direction r =
     (case direction of Outgoing \<Rightarrow> (type_id r, target r, rel_id r) | Incoming \<Rightarrow> (type_id r, source r, rel_id r))"

definition adjacency_node :: "Direction \<Rightarrow> RelationshipRecord \<Rightarrow> i64" where
  "adjacency_node direction r = (case direction of Outgoing \<Rightarrow> source r | Incoming \<Rightarrow> target r)"

definition checkpoint_relationships :: "database \<Rightarrow> hash_id \<Rightarrow> RelationshipRecord list" where
  "checkpoint_relationships d c = map (\<lambda>(i, r). relationship_from_row i r) (commit_rows c (tb_cp_relationships d))"

text \<open>The four statements of \<^verbatim>\<open>adjacency_sql\<close>.\<close>

definition query_base_adjacency_typed :: "database \<Rightarrow> hash_id \<Rightarrow> i64 \<Rightarrow> i64 \<Rightarrow> Direction \<Rightarrow> RelationshipRecord list res" where
  "query_base_adjacency_typed d c node ty direction =
     Inr (sort_key (adjacency_sort_key direction)
       (filter (\<lambda>r. adjacency_node direction r = node \<and> type_id r = ty) (checkpoint_relationships d c)))"

definition query_base_adjacency_all :: "database \<Rightarrow> hash_id \<Rightarrow> i64 \<Rightarrow> Direction \<Rightarrow> RelationshipRecord list res" where
  "query_base_adjacency_all d c node direction =
     Inr (sort_key (adjacency_sort_key direction)
       (filter (\<lambda>r. adjacency_node direction r = node) (checkpoint_relationships d c)))"

definition base_adjacency :: "database \<Rightarrow> SnapshotState \<Rightarrow> i64 \<Rightarrow> i64 option \<Rightarrow> Direction \<Rightarrow> RelationshipRecord list res" where
  "base_adjacency d s node ty direction =
     (case ss_checkpoint s of
        None \<Rightarrow> Inr []
      | Some c \<Rightarrow>
          (case ty of
             Some ty \<Rightarrow> query_base_adjacency_typed d c node ty direction
           | None \<Rightarrow> query_base_adjacency_all d c node direction))"

abbreviation (input) i64_max :: i64 where "i64_max \<equiv> 2 ^ 63 - 1"

definition adjacency :: "database \<Rightarrow> SnapshotState \<Rightarrow> i64 \<Rightarrow> i64 option \<Rightarrow> Direction \<Rightarrow> RelationshipRecord list res" where
  "adjacency d s node ty direction =
     and_then (base_adjacency d s node ty direction) (\<lambda>records.
       let records = filter (\<lambda>r. \<not> om_has (ov_relationships (ss_overlay s)) (rel_id r)) records;
           index = (case direction of Outgoing \<Rightarrow> ov_outgoing (ss_overlay s) | Incoming \<Rightarrow> ov_incoming (ss_overlay s));
           min_type = (case ty of None \<Rightarrow> 0 | Some t \<Rightarrow> t);
           max_type = (case ty of None \<Rightarrow> i64_max | Some t \<Rightarrow> t);
           added = map (\<lambda>(_, delta). rd_record delta)
             (filter (\<lambda>(k, delta). (node, min_type, 0, 0) \<le> k \<and> k \<le> (node, max_type, i64_max, i64_max) \<and> rd_op delta = Add)
               (om_entries index))
       in Inr (sort_key (adjacency_sort_key direction) (records @ added)))"

definition outgoing :: "database \<Rightarrow> SnapshotState \<Rightarrow> i64 \<Rightarrow> i64 option \<Rightarrow> RelationshipRecord list res" where
  "outgoing d s node ty = adjacency d s node ty Outgoing"

definition incoming :: "database \<Rightarrow> SnapshotState \<Rightarrow> i64 \<Rightarrow> i64 option \<Rightarrow> RelationshipRecord list res" where
  "incoming d s node ty = adjacency d s node ty Incoming"

section \<open>Streams\<close>

fun merge_node_before ::
    "i64 \<Rightarrow> (i64 \<Rightarrow> 's \<Rightarrow> 's chk) \<Rightarrow> (i64 \<times> DeltaOp) list \<Rightarrow> 's \<Rightarrow> ((i64 \<times> DeltaOp) list \<times> 's) chk" where
  "merge_node_before base visitor [] s = chk_then (visitor base s) (\<lambda>s. chk_ok ([], s))"
| "merge_node_before base visitor ((node, p) # overlay) s =
     (if node > base then chk_then (visitor base s) (\<lambda>s. chk_ok ((node, p) # overlay, s))
      else chk_then (if p = Add then visitor node s else chk_ok s) (\<lambda>s.
        if node = base then chk_ok (overlay, s) else merge_node_before base visitor overlay s))"

definition drain_nodes :: "(i64 \<Rightarrow> 's \<Rightarrow> 's chk) \<Rightarrow> (i64 \<times> DeltaOp) list \<Rightarrow> 's \<Rightarrow> 's chk" where
  "drain_nodes visitor = chk_fold (\<lambda>(node, p) s. if p = Add then visitor node s else chk_ok s)"

definition visit_nodes :: "database \<Rightarrow> SnapshotState \<Rightarrow> (i64 \<Rightarrow> 's \<Rightarrow> 's chk) \<Rightarrow> 's \<Rightarrow> 's chk" where
  "visit_nodes d s visitor x =
     (case ss_checkpoint s of
        None \<Rightarrow> chk_fold (\<lambda>(node, p) x. if p = Add then visitor node x else chk_ok x) (om_entries (ov_nodes (ss_overlay s))) x
      | Some c \<Rightarrow>
          chk_then (chk_fold (\<lambda>(node, _) (overlay, x). merge_node_before node visitor overlay x)
                      (commit_rows c (tb_cp_nodes d)) (om_entries (ov_nodes (ss_overlay s)), x)) (\<lambda>(overlay, x).
            drain_nodes visitor overlay x))"

fun merge_relationship_before ::
    "RelationshipRecord \<Rightarrow> (RelationshipRecord \<Rightarrow> 's \<Rightarrow> 's chk) \<Rightarrow> (i64 \<times> RelationshipDelta) list \<Rightarrow> 's \<Rightarrow>
     ((i64 \<times> RelationshipDelta) list \<times> 's) chk" where
  "merge_relationship_before base visitor [] s = chk_then (visitor base s) (\<lambda>s. chk_ok ([], s))"
| "merge_relationship_before base visitor ((i, delta) # overlay) s =
     chk_then check (\<lambda>_.
     if i > rel_id base then chk_then (visitor base s) (\<lambda>s. chk_ok ((i, delta) # overlay, s))
     else chk_then (if rd_op delta = Add then visitor (rd_record delta) s else chk_ok s) (\<lambda>s.
       if i = rel_id base then chk_ok (overlay, s) else merge_relationship_before base visitor overlay s))"

definition drain_relationships :: "(RelationshipRecord \<Rightarrow> 's \<Rightarrow> 's chk) \<Rightarrow> (i64 \<times> RelationshipDelta) list \<Rightarrow> 's \<Rightarrow> 's chk" where
  "drain_relationships visitor = chk_fold (\<lambda>(_, delta) s. chk_then check (\<lambda>_.
     if rd_op delta = Add then visitor (rd_record delta) s else chk_ok s))"

definition visit_relationships_checked :: "database \<Rightarrow> SnapshotState \<Rightarrow> (RelationshipRecord \<Rightarrow> 's \<Rightarrow> 's chk) \<Rightarrow> 's \<Rightarrow> 's chk" where
  "visit_relationships_checked d s visitor x =
     chk_then check (\<lambda>_.
       case ss_checkpoint s of
         None \<Rightarrow> drain_relationships visitor (om_entries (ov_relationships (ss_overlay s))) x
       | Some c \<Rightarrow>
           chk_then (chk_fold (\<lambda>(i, row) (overlay, x). chk_then check (\<lambda>_.
                        merge_relationship_before (relationship_from_row i row) visitor overlay x))
                       (commit_rows c (tb_cp_relationships d)) (om_entries (ov_relationships (ss_overlay s)), x)) (\<lambda>(overlay, x).
             drain_relationships visitor overlay x))"

fun merge_label_before ::
    "i64 \<times> i64 \<Rightarrow> (i64 \<Rightarrow> i64 \<Rightarrow> 's \<Rightarrow> 's chk) \<Rightarrow> ((i64 \<times> i64) \<times> DeltaOp) list \<Rightarrow> 's \<Rightarrow>
     (((i64 \<times> i64) \<times> DeltaOp) list \<times> 's) chk" where
  "merge_label_before base visitor [] s = chk_then (visitor (fst base) (snd base) s) (\<lambda>s. chk_ok ([], s))"
| "merge_label_before base visitor ((key, p) # overlay) s =
     chk_then check (\<lambda>_.
     if key > base then chk_then (visitor (fst base) (snd base) s) (\<lambda>s. chk_ok ((key, p) # overlay, s))
     else chk_then (if p = Add then visitor (fst key) (snd key) s else chk_ok s) (\<lambda>s.
       if key = base then chk_ok (overlay, s) else merge_label_before base visitor overlay s))"

definition drain_labels :: "(i64 \<Rightarrow> i64 \<Rightarrow> 's \<Rightarrow> 's chk) \<Rightarrow> ((i64 \<times> i64) \<times> DeltaOp) list \<Rightarrow> 's \<Rightarrow> 's chk" where
  "drain_labels visitor = chk_fold (\<lambda>(key, p) s. chk_then check (\<lambda>_.
     if p = Add then visitor (fst key) (snd key) s else chk_ok s))"

definition visit_labels_checked :: "database \<Rightarrow> SnapshotState \<Rightarrow> (i64 \<Rightarrow> i64 \<Rightarrow> 's \<Rightarrow> 's chk) \<Rightarrow> 's \<Rightarrow> 's chk" where
  "visit_labels_checked d s visitor x =
     chk_then check (\<lambda>_.
       case ss_checkpoint s of
         None \<Rightarrow> drain_labels visitor (om_entries (ov_labels (ss_overlay s))) x
       | Some c \<Rightarrow>
           chk_then (chk_fold (\<lambda>(key, _) (overlay, x). chk_then check (\<lambda>_. merge_label_before key visitor overlay x))
                       (commit_rows c (tb_cp_labels d)) (om_entries (ov_labels (ss_overlay s)), x)) (\<lambda>(overlay, x).
             drain_labels visitor overlay x))"

definition visit_property_delta ::
    "(OwnerKind \<Rightarrow> i64 \<Rightarrow> i64 \<Rightarrow> PropertyValue \<Rightarrow> 's \<Rightarrow> 's chk) \<Rightarrow> OwnerKind \<times> i64 \<times> i64 \<Rightarrow> PropertyDelta \<Rightarrow> 's \<Rightarrow> 's chk" where
  "visit_property_delta visitor = (\<lambda>(kind, owner, key) delta s.
     chk_then check (\<lambda>_.
     if pd_op delta = Add
     then chk_then (chk_res (ok_or (pd_value delta) (Corrupt ''set property delta is missing value''))) (\<lambda>v.
          chk_then check (\<lambda>_.
          chk_then (clone_value_checked v) (\<lambda>v. visitor kind owner key v s)))
     else chk_ok s))"

fun visit_overlay_through ::
    "OwnerKind \<times> i64 \<times> i64 \<Rightarrow> (OwnerKind \<Rightarrow> i64 \<Rightarrow> i64 \<Rightarrow> PropertyValue \<Rightarrow> 's \<Rightarrow> 's chk) \<Rightarrow>
     ((OwnerKind \<times> i64 \<times> i64) \<times> PropertyDelta) list \<Rightarrow> 's \<Rightarrow>
     (bool \<times> ((OwnerKind \<times> i64 \<times> i64) \<times> PropertyDelta) list \<times> 's) chk" where
  "visit_overlay_through base visitor [] s = chk_ok (False, [], s)"
| "visit_overlay_through base visitor ((key, delta) # overlay) s =
     (if key > base then chk_ok (False, (key, delta) # overlay, s)
      else chk_then (visit_property_delta visitor key delta s) (\<lambda>s.
        if key = base then chk_ok (True, overlay, s) else visit_overlay_through base visitor overlay s))"

definition visit_checkpoint_properties_observed ::
    "platform \<Rightarrow> database \<Rightarrow> hash_id \<Rightarrow> (OwnerKind \<Rightarrow> i64 \<Rightarrow> i64 \<Rightarrow> PropertyValue \<Rightarrow> 's \<Rightarrow> 's chk) \<Rightarrow>
     ((OwnerKind \<times> i64 \<times> i64) \<times> PropertyDelta) list \<times> 's \<Rightarrow> (((OwnerKind \<times> i64 \<times> i64) \<times> PropertyDelta) list \<times> 's) chk" where
  "visit_checkpoint_properties_observed P d c visitor =
     chk_fold (\<lambda>((kind, owner, key), row) (overlay, s).
       chk_then check (\<lambda>_.
       chk_then (chk_res (owner_from_i64 kind)) (\<lambda>kind.
       chk_then (visit_overlay_through (kind, owner, key) visitor overlay s) (\<lambda>(replaced, overlay, s).
         if replaced then chk_ok (overlay, s)
         else chk_then (property_from_row P row) (\<lambda>v.
              chk_then (visitor kind owner key v s) (\<lambda>s. chk_ok (overlay, s)))))))
       (commit_rows c (tb_cp_properties d))"

definition visit_properties_observed ::
    "platform \<Rightarrow> database \<Rightarrow> SnapshotState \<Rightarrow> (OwnerKind \<Rightarrow> i64 \<Rightarrow> i64 \<Rightarrow> PropertyValue \<Rightarrow> 's \<Rightarrow> 's chk) \<Rightarrow> 's \<Rightarrow> 's chk" where
  "visit_properties_observed P d s visitor x =
     chk_then (case ss_checkpoint s of
                 None \<Rightarrow> chk_ok (om_entries (ov_properties (ss_overlay s)), x)
               | Some c \<Rightarrow> visit_checkpoint_properties_observed P d c visitor (om_entries (ov_properties (ss_overlay s)), x))
       (\<lambda>(overlay, x). chk_fold (\<lambda>(key, delta). visit_property_delta visitor key delta) overlay x)"

section \<open>Streams of one owner\<close>

text \<open>\<^verbatim>\<open>Peekable::next_if\<close> over a range of the overlay that holds one owner: the entries are its keys.\<close>

definition visit_delta_reference :: "(i64 \<Rightarrow> PropertyValue \<Rightarrow> 's \<Rightarrow> 's chk) \<Rightarrow> i64 \<Rightarrow> PropertyDelta \<Rightarrow> 's \<Rightarrow> 's chk" where
  "visit_delta_reference visitor key delta s =
     chk_then check (\<lambda>_.
     if pd_op delta = Add
     then chk_then (chk_res (ok_or (pd_value delta) (Corrupt ''set property delta is missing value''))) (\<lambda>v. visitor key v s)
     else chk_ok s)"

fun owner_overlay_through ::
    "i64 \<Rightarrow> (i64 \<Rightarrow> PropertyValue \<Rightarrow> 's \<Rightarrow> 's chk) \<Rightarrow> (i64 \<times> PropertyDelta) list \<Rightarrow> 's \<Rightarrow> (bool \<times> (i64 \<times> PropertyDelta) list \<times> 's) chk" where
  "owner_overlay_through key visitor [] s = chk_ok (False, [], s)"
| "owner_overlay_through key visitor ((entry, delta) # overlay) s =
     (if entry \<le> key
      then chk_then (visit_delta_reference visitor entry delta s) (\<lambda>s.
        if entry = key then chk_ok (True, overlay, s) else owner_overlay_through key visitor overlay s)
      else chk_ok (False, (entry, delta) # overlay, s))"

definition owner_range :: "OwnerKind \<Rightarrow> i64 \<Rightarrow> (OwnerKind \<times> i64 \<times> i64, 'v) omap \<Rightarrow> (i64 \<times> 'v) list" where
  "owner_range kind owner m = map (\<lambda>((_, _, key), x). (key, x))
     (filter (\<lambda>((k, i, key), _). k = kind \<and> i = owner \<and> 0 \<le> key \<and> key \<le> i64_max) (om_entries m))"

definition visit_owner_base_properties ::
    "platform \<Rightarrow> database \<Rightarrow> hash_id \<Rightarrow> OwnerKind \<Rightarrow> i64 \<Rightarrow> (i64 \<Rightarrow> PropertyValue \<Rightarrow> 's \<Rightarrow> 's chk) \<Rightarrow>
     (i64 \<times> PropertyDelta) list \<times> 's \<Rightarrow> ((i64 \<times> PropertyDelta) list \<times> 's) chk" where
  "visit_owner_base_properties P d c kind owner visitor =
     chk_fold (\<lambda>((_, _, key), row) (overlay, s).
       chk_then check (\<lambda>_.
       chk_then (owner_overlay_through key visitor overlay s) (\<lambda>(replaced, overlay, s).
         if replaced then chk_ok (overlay, s)
         else chk_then (property_from_row P row) (\<lambda>v. chk_then (visitor key v s) (\<lambda>s. chk_ok (overlay, s))))))
       (filter (\<lambda>((k, i, _), _). k = owner_i64 kind \<and> i = owner) (commit_rows c (tb_cp_properties d)))"

definition visit_owner_properties_checked ::
    "platform \<Rightarrow> database \<Rightarrow> SnapshotState \<Rightarrow> OwnerKind \<Rightarrow> i64 \<Rightarrow> (i64 \<Rightarrow> PropertyValue \<Rightarrow> 's \<Rightarrow> 's chk) \<Rightarrow> 's \<Rightarrow> 's chk" where
  "visit_owner_properties_checked P d s kind owner visitor x =
     chk_then (case ss_checkpoint s of
                 None \<Rightarrow> chk_ok (owner_range kind owner (ov_properties (ss_overlay s)), x)
               | Some c \<Rightarrow> visit_owner_base_properties P d c kind owner visitor (owner_range kind owner (ov_properties (ss_overlay s)), x))
       (\<lambda>(overlay, x). chk_fold (\<lambda>(key, delta). visit_delta_reference visitor key delta) overlay x)"

fun label_overlay_through ::
    "i64 \<Rightarrow> (i64 \<Rightarrow> 's \<Rightarrow> 's chk) \<Rightarrow> (i64 \<times> DeltaOp) list \<Rightarrow> 's \<Rightarrow> (bool \<times> (i64 \<times> DeltaOp) list \<times> 's) chk" where
  "label_overlay_through label visitor [] s = chk_ok (False, [], s)"
| "label_overlay_through label visitor ((entry, p) # overlay) s =
     (if entry \<le> label
      then chk_then check (\<lambda>_. chk_then (if p = Add then visitor entry s else chk_ok s) (\<lambda>s.
        if entry = label then chk_ok (True, overlay, s) else label_overlay_through label visitor overlay s))
      else chk_ok (False, (entry, p) # overlay, s))"

definition visit_base_node_labels ::
    "database \<Rightarrow> hash_id \<Rightarrow> i64 \<Rightarrow> (i64 \<Rightarrow> 's \<Rightarrow> 's chk) \<Rightarrow> (i64 \<times> DeltaOp) list \<times> 's \<Rightarrow> ((i64 \<times> DeltaOp) list \<times> 's) chk" where
  "visit_base_node_labels d c node visitor =
     chk_fold (\<lambda>((_, label), _) (overlay, s).
       chk_then check (\<lambda>_.
       chk_then (label_overlay_through label visitor overlay s) (\<lambda>(replaced, overlay, s).
         if replaced then chk_ok (overlay, s) else chk_then (visitor label s) (\<lambda>s. chk_ok (overlay, s)))))
       (filter (\<lambda>((n, _), _). n = node) (commit_rows c (tb_cp_labels d)))"

definition node_range :: "i64 \<Rightarrow> (i64 \<times> i64, 'v) omap \<Rightarrow> (i64 \<times> 'v) list" where
  "node_range node m = map (\<lambda>((_, label), x). (label, x))
     (filter (\<lambda>((n, label), _). n = node \<and> 0 \<le> label \<and> label \<le> i64_max) (om_entries m))"

definition visit_node_labels_checked :: "database \<Rightarrow> SnapshotState \<Rightarrow> i64 \<Rightarrow> (i64 \<Rightarrow> 's \<Rightarrow> 's chk) \<Rightarrow> 's \<Rightarrow> 's chk" where
  "visit_node_labels_checked d s node visitor x =
     chk_then (case ss_checkpoint s of
                 None \<Rightarrow> chk_ok (node_range node (ov_labels (ss_overlay s)), x)
               | Some c \<Rightarrow> visit_base_node_labels d c node visitor (node_range node (ov_labels (ss_overlay s)), x))
       (\<lambda>(overlay, x). chk_fold (\<lambda>(label, p) x. chk_then check (\<lambda>_. if p = Add then visitor label x else chk_ok x)) overlay x)"

definition properties :: "platform \<Rightarrow> database \<Rightarrow> SnapshotState \<Rightarrow> OwnerKind \<Rightarrow> i64 \<Rightarrow> (i64 \<times> PropertyValue) list res" where
  "properties P d s kind owner =
     snd (visit_owner_properties_checked P d s kind owner (\<lambda>key v values.
       chk_then check (\<lambda>_. chk_then (clone_value_checked v) (\<lambda>v. chk_ok (values @ [(key, v)])))) [])"

section \<open>The page cache\<close>

type_synonym property_cache = "(OwnerKind \<times> i64 \<times> i64, PropertyValue option) omap"

text \<open>
  The cache is shared and changed in place, so a failing call leaves what it did before the failure. The rows
  of the statement come in primary-key order.
\<close>

definition reserve_prefetch_slots :: "OwnerKind \<Rightarrow> i64 list \<Rightarrow> i64 list \<Rightarrow> property_cache \<Rightarrow> bool \<times> property_cache" where
  "reserve_prefetch_slots kind owners keys cache =
     fold (\<lambda>owner acc. fold (\<lambda>key (added, cache).
       if om_has cache (kind, owner, key) then (added, cache) else (True, om_put (kind, owner, key) None cache)) keys acc)
       owners (False, cache)"

fun prefetch_rows :: "platform \<Rightarrow> OwnerKind \<Rightarrow> ((i64 \<times> i64) \<times> PropertyColumns) list \<Rightarrow> property_cache \<Rightarrow> unit res \<times> property_cache" where
  "prefetch_rows P kind [] cache = (Inr (), cache)"
| "prefetch_rows P kind (((owner, key), row) # rows) cache =
     (case snd (property_from_row P row) of
        Inl e \<Rightarrow> (Inl e, cache)
      | Inr v \<Rightarrow>
          if \<not> om_has cache (kind, owner, key)
          then (Inl (Corrupt ''prefetched property has no reserved cache slot''), cache)
          else prefetch_rows P kind rows (om_put (kind, owner, key) (Some v) cache))"

definition prefetch_property_chunk ::
    "platform \<Rightarrow> database \<Rightarrow> hash_id \<Rightarrow> OwnerKind \<Rightarrow> i64 list \<Rightarrow> i64 list \<Rightarrow> property_cache \<Rightarrow> unit res \<times> property_cache" where
  "prefetch_property_chunk P d c kind owners keys cache =
     (case reserve_prefetch_slots kind owners keys cache of
        (added, cache) \<Rightarrow>
          if \<not> added then (Inr (), cache)
          else prefetch_rows P kind
            (map (\<lambda>((_, owner, key), row). ((owner, key), row))
              (filter (\<lambda>((k, owner, key), _). k = owner_i64 kind \<and> owner \<in> set owners \<and> key \<in> set keys)
                (commit_rows c (tb_cp_properties d)))) cache)"

fun prefetch_loop ::
    "platform \<Rightarrow> database \<Rightarrow> hash_id \<Rightarrow> OwnerKind \<Rightarrow> (i64 list \<times> i64 list) list \<Rightarrow> property_cache \<Rightarrow> unit res \<times> property_cache" where
  "prefetch_loop P d c kind [] cache = (Inr (), cache)"
| "prefetch_loop P d c kind ((owners, keys) # pages) cache =
     (case prefetch_property_chunk P d c kind owners keys cache of
        (Inl e, cache) \<Rightarrow> (Inl e, cache)
      | (Inr _, cache) \<Rightarrow> prefetch_loop P d c kind pages cache)"

definition prefetch_properties ::
    "platform \<Rightarrow> database \<Rightarrow> OwnerKind \<Rightarrow> i64 list \<Rightarrow> i64 list \<Rightarrow> SnapshotState \<Rightarrow> unit res \<times> SnapshotState" where
  "prefetch_properties P d kind owners keys s =
     (case ss_checkpoint s of
        None \<Rightarrow> (Inr (), s)
      | Some c \<Rightarrow>
          if owners = [] \<or> keys = [] then (Inr (), s)
          else (case prefetch_loop P d c kind
                       (concat (map (\<lambda>o'. map (\<lambda>k. (o', k)) (chunks 16 keys)) (chunks 128 owners))) om_empty of
                  (r, cache) \<Rightarrow> (r, s\<lparr>ss_property_cache := cache\<rparr>)))"

section \<open>The semantic hash\<close>

definition semantic_hash_input :: "platform \<Rightarrow> database \<Rightarrow> SnapshotState \<Rightarrow> bytes chk" where
  "semantic_hash_input P d s =
     chk_then (visit_nodes d s (\<lambda>n h. chk_ok (h @ ascii ''N'' @ i64_bytes n)) (ascii ''LITHOGRAPH_SNAPSHOT_V1'')) (\<lambda>h.
     chk_then (visit_labels_checked d s (\<lambda>n l h. chk_ok (h @ ascii ''L'' @ i64_bytes n @ i64_bytes l)) h) (\<lambda>h.
     chk_then (visit_relationships_checked d s (\<lambda>r h. chk_ok (h @ ascii ''R'' @ i64_bytes (rel_id r) @ i64_bytes (source r)
                 @ i64_bytes (type_id r) @ i64_bytes (target r))) h) (\<lambda>h.
       visit_properties_observed P d s (\<lambda>kind owner key v h.
         chk_then (chk_res (canonical_bytes v)) (\<lambda>b.
           chk_ok (h @ ascii ''P'' @ i64_bytes (owner_i64 kind) @ i64_bytes owner @ i64_bytes key @ b))) h)))"

definition semantic_hash :: "platform \<Rightarrow> database \<Rightarrow> SnapshotState \<Rightarrow> hash_id res" where
  "semantic_hash P d s = and_then (snd (semantic_hash_input P d s)) (\<lambda>h. Inr (blake3 P h))"

end
