(* ===== verification/Snapshot_Laws.thy ===== *)
theory Snapshot_Laws
  imports Snapshot_Read
begin

text \<open>
  Overlays keep their indexes coherent and accumulate layers; the snapshot resolved for a commit stands for the
  graph obtained by applying the layers of its first-parent history, whichever checkpoint it starts from.
\<close>

section \<open>Overlay indexes\<close>

definition indexed_by :: "('k::linorder \<Rightarrow> i64) \<Rightarrow> ('k \<Rightarrow> RelationshipRecord \<Rightarrow> bool) \<Rightarrow> ('k, RelationshipDelta) omap \<Rightarrow>
    (i64, RelationshipDelta) omap \<Rightarrow> bool" where
  "indexed_by ident holds index m \<longleftrightarrow>
     (\<forall>k. om_get index k = (case om_get m (ident k) of None \<Rightarrow> None
                            | Some delta \<Rightarrow> if holds k (rd_record delta) then Some delta else None))"

text \<open>
  The indexes say of every relationship of the overlay what the primary map says: labels by label, and
  relationships by source, by target and by both.
\<close>

definition overlay_ok :: "Overlay \<Rightarrow> bool" where
  "overlay_ok ov \<longleftrightarrow>
     (\<forall>n l. om_get (ov_labels_by_label ov) (l, n) = om_get (ov_labels ov) (n, l))
   \<and> om_all (\<lambda>i delta. rel_id (rd_record delta) = i) (ov_relationships ov)
   \<and> indexed_by (\<lambda>(_, _, _, i). i) (\<lambda>k r. k = outgoing_key r) (ov_outgoing ov) (ov_relationships ov)
   \<and> indexed_by (\<lambda>(_, _, _, i). i) (\<lambda>k r. k = incoming_key r) (ov_incoming ov) (ov_relationships ov)
   \<and> indexed_by snd (\<lambda>(n, _) r. source r = n) (ov_outgoing_by_id ov) (ov_relationships ov)
   \<and> indexed_by snd (\<lambda>(n, _) r. target r = n) (ov_incoming_by_id ov) (ov_relationships ov)
   \<and> indexed_by snd (\<lambda>(n, _) r. source r = n \<or> target r = n) (ov_incident_by_id ov) (ov_relationships ov)"

lemma overlay_ok_default: "overlay_ok overlay_default"
  by (simp add: overlay_ok_def overlay_default_def indexed_by_def)

text \<open>One relationship of an index replaced: the old entries deleted, the new ones put.\<close>

lemma indexed_by_replace:
  assumes "indexed_by ident holds index m"
    and "\<And>k. om_get index' k =
      (if ident k = i then (if holds k (rd_record delta) then Some delta else None) else om_get index k)"
  shows "indexed_by ident holds index' (om_put i delta m)"
  using assms by (auto simp: indexed_by_def)

lemma apply_relationship_delta_ok:
  assumes "overlay_ok ov" "rel_id (rd_record delta) = i"
  shows "overlay_ok (apply_relationship_delta i delta ov)"
proof -
  have id: "rel_id (rd_record x) = i" if "om_get (ov_relationships ov) i = Some x" for x
    using assms(1) that by (auto simp: overlay_ok_def om_all_iff)
  show ?thesis
    using assms(1)
    unfolding overlay_ok_def apply_relationship_delta_def Let_def
    apply (intro conjI)
    subgoal by (auto simp: remove_relationship_indexes_def split: option.splits)
    subgoal using assms(2) by (auto simp: remove_relationship_indexes_def intro!: om_all_put split: option.splits)
    subgoal
      by (simp add: remove_relationship_indexes_def split: option.split)
         (auto simp: assms(2) id outgoing_key_def indexed_by_def intro!: indexed_by_replace)
    subgoal
      by (simp add: remove_relationship_indexes_def split: option.split)
         (auto simp: assms(2) id incoming_key_def indexed_by_def intro!: indexed_by_replace)
    subgoal by (simp add: remove_relationship_indexes_def split: option.split) (auto simp: indexed_by_def intro!: indexed_by_replace)
    subgoal by (simp add: remove_relationship_indexes_def split: option.split) (auto simp: indexed_by_def intro!: indexed_by_replace)
    subgoal by (simp add: remove_relationship_indexes_def split: option.split) (auto simp: indexed_by_def intro!: indexed_by_replace)
    done
qed

lemma apply_relationship_delta_parts [simp]:
  "ov_nodes (apply_relationship_delta i delta ov) = ov_nodes ov"
  "ov_labels (apply_relationship_delta i delta ov) = ov_labels ov"
  "ov_relationships (apply_relationship_delta i delta ov) = om_put i delta (ov_relationships ov)"
  "ov_properties (apply_relationship_delta i delta ov) = ov_properties ov"
  by (simp_all add: apply_relationship_delta_def Let_def remove_relationship_indexes_def split: option.split)

text \<open>Loops over the entries of a layer.\<close>

lemma overlay_apply_parts:
  "ov_nodes (overlay_apply l ov) = om_put_all (om_entries (lb_nodes l)) (ov_nodes ov)"
  "ov_labels (overlay_apply l ov) = om_put_all (om_entries (lb_labels l)) (ov_labels ov)"
  "ov_relationships (overlay_apply l ov) = om_put_all (om_entries (lb_relationships l)) (ov_relationships ov)"
  "ov_properties (overlay_apply l ov) = om_put_all (om_entries (lb_properties l)) (ov_properties ov)"
proof -
  let ?f = "\<lambda>((node, label), p) ov. ov\<lparr>ov_labels := om_put (node, label) p (ov_labels ov),
                       ov_labels_by_label := om_put (label, node) p (ov_labels_by_label ov)\<rparr>"
  have labels: "ov_nodes (fold ?f xs o1) = ov_nodes o1 \<and> ov_labels (fold ?f xs o1) = om_put_all xs (ov_labels o1)
    \<and> ov_relationships (fold ?f xs o1) = ov_relationships o1 \<and> ov_properties (fold ?f xs o1) = ov_properties o1" for xs o1
    by (induction xs arbitrary: o1) (auto simp: om_put_all_def)
  have rels: "ov_nodes (fold (\<lambda>(i, delta). apply_relationship_delta i delta) xs o1) = ov_nodes o1
    \<and> ov_labels (fold (\<lambda>(i, delta). apply_relationship_delta i delta) xs o1) = ov_labels o1
    \<and> ov_relationships (fold (\<lambda>(i, delta). apply_relationship_delta i delta) xs o1) = om_put_all xs (ov_relationships o1)
    \<and> ov_properties (fold (\<lambda>(i, delta). apply_relationship_delta i delta) xs o1) = ov_properties o1" for xs o1
    by (induction xs arbitrary: o1) (auto simp: om_put_all_def)
  show
    "ov_nodes (overlay_apply l ov) = om_put_all (om_entries (lb_nodes l)) (ov_nodes ov)"
    "ov_labels (overlay_apply l ov) = om_put_all (om_entries (lb_labels l)) (ov_labels ov)"
    "ov_relationships (overlay_apply l ov) = om_put_all (om_entries (lb_relationships l)) (ov_relationships ov)"
    "ov_properties (overlay_apply l ov) = om_put_all (om_entries (lb_properties l)) (ov_properties ov)"
    by (simp_all add: overlay_apply_def Let_def labels rels)
qed

lemma fold_invariant_list: "P s \<Longrightarrow> (\<And>x s. x \<in> set xs \<Longrightarrow> P s \<Longrightarrow> P (f x s)) \<Longrightarrow> P (fold f xs s)"
  by (induction xs arbitrary: s) auto

lemma overlay_apply_ok:
  assumes "overlay_ok ov" "om_all (\<lambda>i delta. rel_id (rd_record delta) = i) (lb_relationships l)"
  shows "overlay_ok (overlay_apply l ov)"
proof -
  let ?f = "\<lambda>((node, label), p) ov. ov\<lparr>ov_labels := om_put (node, label) p (ov_labels ov),
                       ov_labels_by_label := om_put (label, node) p (ov_labels_by_label ov)\<rparr>"
  let ?o1 = "fold ?f (om_entries (lb_labels l)) (ov\<lparr>ov_nodes := om_put_all (om_entries (lb_nodes l)) (ov_nodes ov)\<rparr>)"
  have "overlay_ok ?o1"
  proof (rule fold_invariant_list [where P = overlay_ok])
    show "overlay_ok (ov\<lparr>ov_nodes := om_put_all (om_entries (lb_nodes l)) (ov_nodes ov)\<rparr>)"
      using assms(1) by (simp add: overlay_ok_def)
    show "overlay_ok (?f x o')" if "overlay_ok o'" for x o'
      using that by (cases x) (auto simp: overlay_ok_def)
  qed
  then have "overlay_ok (fold (\<lambda>(i, delta). apply_relationship_delta i delta) (om_entries (lb_relationships l)) ?o1)"
    by (rule fold_invariant_list [where P = overlay_ok])
       (use assms(2) in \<open>auto simp: om_all_iff om_entries_iff intro: apply_relationship_delta_ok\<close>)
  then show ?thesis by (simp add: overlay_apply_def Let_def overlay_ok_def)
qed

section \<open>Applying stored layers\<close>

text \<open>A loop that decodes rows and folds the results is the fold over the decoded rows.\<close>

lemma fold_res_decoded:
  assumes "\<And>k r s. f (k, r) s = and_then (dec k r) (\<lambda>(k, v). Inr (g k v s))"
  shows "fold_res f rows s = and_then (map_res (\<lambda>(k, r). dec k r) rows) (\<lambda>kvs. Inr (fold (\<lambda>(k, v). g k v) kvs s))"
proof (induction rows arbitrary: s)
  case (Cons x rows)
  show ?case
  proof (cases "dec (fst x) (snd x)")
    case (Inr kv)
    with Cons show ?thesis by (cases x; cases kv) (simp add: assms and_then_assoc)
  qed (cases x; simp add: assms)
qed simp

definition node_decode :: "i64 \<Rightarrow> i64 \<Rightarrow> (i64 \<times> DeltaOp) res" where
  "node_decode k r = and_then (op_from_i64 r) (\<lambda>p. Inr (k, p))"

definition label_decode :: "i64 \<times> i64 \<Rightarrow> i64 \<Rightarrow> ((i64 \<times> i64) \<times> DeltaOp) res" where
  "label_decode k r = and_then (op_from_i64 r) (\<lambda>p. Inr (k, p))"

definition relationship_decode :: "i64 \<Rightarrow> RelationshipRow \<times> i64 \<Rightarrow> (i64 \<times> RelationshipDelta) res" where
  "relationship_decode k r =
     and_then (op_from_i64 (snd r)) (\<lambda>p. Inr (k, \<lparr>rd_op = p, rd_record = relationship_from_row k (fst r)\<rparr>))"

definition property_decode :: "platform \<Rightarrow> i64 \<times> i64 \<times> i64 \<Rightarrow> PropertyDeltaRow \<Rightarrow> ((OwnerKind \<times> i64 \<times> i64) \<times> PropertyDelta) res" where
  "property_decode P k r =
     and_then (owner_from_i64 (fst k)) (\<lambda>kind. and_then (snd (property_delta_from_row P r)) (\<lambda>x. Inr ((kind, snd k), x)))"

lemmas decode_defs = node_decode_def label_decode_def relationship_decode_def property_decode_def

lemma rel_id_from_row [simp]: "rel_id (relationship_from_row i r) = i"
  by (simp add: relationship_from_row_def)

text \<open>Decoding the rows of a layer gives the entries of the layer loaded from them.\<close>

lemma map_res_keys:
  assumes "map_res (\<lambda>(k, r). dec k r) rows = Inr kvs" "\<And>k r k' v. dec k r = Inr (k', v) \<Longrightarrow> h k' = k"
  shows "map (\<lambda>kv. h (fst kv)) kvs = map fst rows"
  using assms(1)
proof (induction rows arbitrary: kvs)
  case (Cons x rows)
  then obtain kv kvs' where "dec (fst x) (snd x) = Inr kv" "map_res (\<lambda>(k, r). dec k r) rows = Inr kvs'" "kvs = kv # kvs'"
    by (cases x) auto
  with Cons.IH assms(2) [of "fst x" "snd x" "fst kv" "snd kv"] show ?case by simp
qed simp

lemma asc_decoded:
  assumes "map_res (\<lambda>(k, r). dec k r) (om_entries t) = Inr kvs" "\<And>k r k' v. dec k r = Inr (k', v) \<Longrightarrow> h k' = k"
    "\<And>a b. h a < h b \<Longrightarrow> a < b"
  shows "om_entries (om_put_all kvs om_empty) = kvs"
proof -
  have "sorted_wrt (<) (map (\<lambda>kv. h (fst kv)) kvs)"
    using map_res_keys [OF assms(1), of h] assms(2) by simp
  then have "asc kvs" using assms(3) by (auto simp: sorted_wrt_map intro: sorted_wrt_mono_rel [rotated])
  then have "om_entries (Omap kvs) = kvs" by (simp add: Omap_inverse)
  moreover from this have "om_put_all kvs om_empty = Omap kvs" using om_put_all_entries [of "Omap kvs"] by simp
  ultimately show ?thesis by simp
qed

lemma owner_key_less: "owner_key a < owner_key b \<Longrightarrow> a < b"
  using owner_key_mono [of b a] by (metis linorder_less_linear order_less_asym)

lemma load_node_decoded:
  "snd (load_node_deltas d i l0) = and_then (map_res (\<lambda>(k, r). node_decode k r) (layer_rows i (tb_node_delta d)))
    (\<lambda>kvs. Inr (fold (\<lambda>(k, v) l. l\<lparr>lb_nodes := om_put k v (lb_nodes l)\<rparr>) kvs l0))"
  unfolding load_node_deltas_def visit_node_deltas_def snd_chk_fold by (rule fold_res_decoded) (simp add: decode_defs res_simps)

lemma load_label_decoded:
  "snd (load_label_deltas d i l0) = and_then (map_res (\<lambda>(k, r). label_decode k r) (layer_rows i (tb_label_delta d)))
    (\<lambda>kvs. Inr (fold (\<lambda>(k, v) l. l\<lparr>lb_labels := om_put k v (lb_labels l)\<rparr>) kvs l0))"
  unfolding load_label_deltas_def visit_label_deltas_def snd_chk_fold
  by (rule fold_res_decoded) (auto simp: decode_defs res_simps simp del: and_then_Inr_iff)

lemma load_relationship_decoded:
  "snd (load_relationship_deltas d i l0) =
    and_then (map_res (\<lambda>(k, r). relationship_decode k r) (layer_rows i (tb_rel_delta d)))
    (\<lambda>kvs. Inr (fold (\<lambda>(k, v) l. l\<lparr>lb_relationships := om_put k v (lb_relationships l)\<rparr>) kvs l0))"
  unfolding load_relationship_deltas_def visit_relationship_deltas_def snd_chk_fold
  by (rule fold_res_decoded) (auto simp: decode_defs res_simps simp del: and_then_Inr_iff)

lemma load_property_decoded:
  "snd (load_property_deltas P d i l0) =
    and_then (map_res (\<lambda>(k, r). property_decode P k r) (layer_rows i (tb_property_delta d)))
    (\<lambda>kvs. Inr (fold (\<lambda>(k, v) l. l\<lparr>lb_properties := om_put k v (lb_properties l)\<rparr>) kvs l0))"
  unfolding load_property_deltas_def visit_property_deltas_def snd_chk_fold
  by (rule fold_res_decoded) (auto simp: decode_defs res_simps simp del: and_then_Inr_iff)

lemma fold_put_nodes:
  "fold (\<lambda>(k, v) l. l\<lparr>lb_nodes := om_put k v (lb_nodes l)\<rparr>) kvs l0 = l0\<lparr>lb_nodes := om_put_all kvs (lb_nodes l0)\<rparr>"
  by (induction kvs arbitrary: l0) (auto simp: om_put_all_def)

lemma fold_put_labels:
  "fold (\<lambda>(k, v) l. l\<lparr>lb_labels := om_put k v (lb_labels l)\<rparr>) kvs l0 = l0\<lparr>lb_labels := om_put_all kvs (lb_labels l0)\<rparr>"
  by (induction kvs arbitrary: l0) (auto simp: om_put_all_def)

lemma fold_put_relationships:
  "fold (\<lambda>(k, v) l. l\<lparr>lb_relationships := om_put k v (lb_relationships l)\<rparr>) kvs l0 =
    l0\<lparr>lb_relationships := om_put_all kvs (lb_relationships l0)\<rparr>"
  by (induction kvs arbitrary: l0) (auto simp: om_put_all_def)

lemma fold_put_properties:
  "fold (\<lambda>(k, v) l. l\<lparr>lb_properties := om_put k v (lb_properties l)\<rparr>) kvs l0 =
    l0\<lparr>lb_properties := om_put_all kvs (lb_properties l0)\<rparr>"
  by (induction kvs arbitrary: l0) (auto simp: om_put_all_def)

lemma relationship_decode_key: "relationship_decode k r = Inr (k', v) \<Longrightarrow> k' = k"
  by (auto simp: relationship_decode_def)

text \<open>What loading a layer reads, row by row.\<close>

lemma load_layer_rows:
  assumes "load_layer P d i = Inr l"
  shows "map_res (\<lambda>(k, r). node_decode k r) (layer_rows i (tb_node_delta d)) = Inr (om_entries (lb_nodes l))"
    and "map_res (\<lambda>(k, r). label_decode k r) (layer_rows i (tb_label_delta d)) = Inr (om_entries (lb_labels l))"
    and "map_res (\<lambda>(k, r). relationship_decode k r) (layer_rows i (tb_rel_delta d)) = Inr (om_entries (lb_relationships l))"
    and "map_res (\<lambda>(k, r). property_decode P k r) (layer_rows i (tb_property_delta d)) = Inr (om_entries (lb_properties l))"
proof -
  obtain ns ls rs ps where rows: "map_res (\<lambda>(k, r). node_decode k r) (layer_rows i (tb_node_delta d)) = Inr ns"
    "map_res (\<lambda>(k, r). label_decode k r) (layer_rows i (tb_label_delta d)) = Inr ls"
    "map_res (\<lambda>(k, r). relationship_decode k r) (layer_rows i (tb_rel_delta d)) = Inr rs"
    "map_res (\<lambda>(k, r). property_decode P k r) (layer_rows i (tb_property_delta d)) = Inr ps"
    and l: "l = \<lparr>lb_nodes = om_put_all ns om_empty, lb_labels = om_put_all ls om_empty,
                lb_relationships = om_put_all rs om_empty, lb_properties = om_put_all ps om_empty\<rparr>"
    using assms by (auto simp: load_layer_def load_node_decoded load_label_decoded load_relationship_decoded
        load_property_decoded fold_put_nodes fold_put_labels fold_put_relationships fold_put_properties layer_default_def)
  show "map_res (\<lambda>(k, r). node_decode k r) (layer_rows i (tb_node_delta d)) = Inr (om_entries (lb_nodes l))"
    using rows(1) asc_decoded [OF rows(1) [unfolded layer_rows_slice], of "\<lambda>k. k"] l by (simp add: decode_defs)
  show "map_res (\<lambda>(k, r). label_decode k r) (layer_rows i (tb_label_delta d)) = Inr (om_entries (lb_labels l))"
    using rows(2) asc_decoded [OF rows(2) [unfolded layer_rows_slice], of "\<lambda>k. k"] l by (simp add: decode_defs)
  show "map_res (\<lambda>(k, r). relationship_decode k r) (layer_rows i (tb_rel_delta d)) = Inr (om_entries (lb_relationships l))"
    using rows(3) asc_decoded [OF rows(3) [unfolded layer_rows_slice], of "\<lambda>k. k"] relationship_decode_key l by auto
  show "map_res (\<lambda>(k, r). property_decode P k r) (layer_rows i (tb_property_delta d)) = Inr (om_entries (lb_properties l))"
    using rows(4) asc_decoded [OF rows(4) [unfolded layer_rows_slice], of owner_key] owner_key_less l
    by (auto simp: decode_defs owner_key_def)
qed

lemma visit_nodes_apply:
  assumes "load_layer P d i = Inr l"
  shows "snd (visit_node_deltas d i insert_node_observed o1) =
    Inr (o1\<lparr>ov_nodes := om_put_all (om_entries (lb_nodes l)) (ov_nodes o1)\<rparr>)"
proof -
  have "fold (\<lambda>(k, v) ov. ov\<lparr>ov_nodes := om_put k v (ov_nodes ov)\<rparr>) xs o1 = o1\<lparr>ov_nodes := om_put_all xs (ov_nodes o1)\<rparr>" for xs
    by (induction xs arbitrary: o1) (auto simp: om_put_all_def)
  moreover have "snd (visit_node_deltas d i insert_node_observed o1) =
      and_then (map_res (\<lambda>(k, r). node_decode k r) (layer_rows i (tb_node_delta d)))
        (\<lambda>kvs. Inr (fold (\<lambda>(k, v) ov. ov\<lparr>ov_nodes := om_put k v (ov_nodes ov)\<rparr>) kvs o1))"
    unfolding visit_node_deltas_def snd_chk_fold
    by (rule fold_res_decoded) (simp add: decode_defs insert_node_observed_def res_simps)
  ultimately show ?thesis using load_layer_rows(1) [OF assms] by simp
qed

lemma visit_labels_apply:
  assumes "load_layer P d i = Inr l"
  shows "snd (visit_label_deltas d i insert_label_observed o1) =
    Inr (fold (\<lambda>((node, label), p) ov. ov\<lparr>ov_labels := om_put (node, label) p (ov_labels ov),
           ov_labels_by_label := om_put (label, node) p (ov_labels_by_label ov)\<rparr>) (om_entries (lb_labels l)) o1)"
proof -
  have "snd (visit_label_deltas d i insert_label_observed o1) =
      and_then (map_res (\<lambda>(k, r). label_decode k r) (layer_rows i (tb_label_delta d)))
        (\<lambda>kvs. Inr (fold (\<lambda>(k, p). (\<lambda>(node, label) p ov. ov\<lparr>ov_labels := om_put (node, label) p (ov_labels ov),
           ov_labels_by_label := om_put (label, node) p (ov_labels_by_label ov)\<rparr>) k p) kvs o1))"
    unfolding visit_label_deltas_def snd_chk_fold
    by (rule fold_res_decoded) (auto simp: decode_defs insert_label_observed_def res_simps simp del: and_then_Inr_iff)
  then show ?thesis using load_layer_rows(2) [OF assms] by (simp add: case_prod_unfold)
qed

lemma visit_relationships_apply:
  assumes "load_layer P d i = Inr l"
  shows "snd (visit_relationship_deltas d i
      (\<lambda>r p. insert_relationship_observed (rel_id r) \<lparr>rd_op = p, rd_record = r\<rparr>) o1) =
    Inr (fold (\<lambda>(i, delta). apply_relationship_delta i delta) (om_entries (lb_relationships l)) o1)"
proof -
  have "snd (visit_relationship_deltas d i (\<lambda>r p. insert_relationship_observed (rel_id r) \<lparr>rd_op = p, rd_record = r\<rparr>) o1) =
      and_then (map_res (\<lambda>(k, r). relationship_decode k r) (layer_rows i (tb_rel_delta d)))
        (\<lambda>kvs. Inr (fold (\<lambda>(i, delta). apply_relationship_delta i delta) kvs o1))"
    unfolding visit_relationship_deltas_def snd_chk_fold
    by (rule fold_res_decoded) (auto simp: decode_defs insert_relationship_observed_def res_simps simp del: and_then_Inr_iff)
  then show ?thesis using load_layer_rows(3) [OF assms] by simp
qed

lemma visit_properties_apply:
  assumes "load_layer P d i = Inr l"
  shows "snd (visit_property_deltas P d i (\<lambda>kind owner key. insert_property_observed (kind, owner, key)) o1) =
    Inr (o1\<lparr>ov_properties := om_put_all (om_entries (lb_properties l)) (ov_properties o1)\<rparr>)"
proof -
  have "fold (\<lambda>(k, v) ov. ov\<lparr>ov_properties := om_put k v (ov_properties ov)\<rparr>) xs o1 =
      o1\<lparr>ov_properties := om_put_all xs (ov_properties o1)\<rparr>" for xs
    by (induction xs arbitrary: o1) (auto simp: om_put_all_def)
  moreover have "snd (visit_property_deltas P d i (\<lambda>kind owner key. insert_property_observed (kind, owner, key)) o1) =
      and_then (map_res (\<lambda>(k, r). property_decode P k r) (layer_rows i (tb_property_delta d)))
        (\<lambda>kvs. Inr (fold (\<lambda>(k, v) ov. ov\<lparr>ov_properties := om_put k v (ov_properties ov)\<rparr>) kvs o1))"
    unfolding visit_property_deltas_def snd_chk_fold
    by (rule fold_res_decoded) (auto simp: decode_defs insert_property_observed_def res_simps simp del: and_then_Inr_iff)
  ultimately show ?thesis using load_layer_rows(4) [OF assms] by simp
qed

text \<open>
  Applying a stored layer to an overlay is applying the layer that loading it gives.
\<close>

lemma apply_persisted_layer:
  assumes "load_layer P d i = Inr l"
  shows "snd (apply_persisted_layer_observed P d i ov) = Inr (overlay_apply l ov)"
  by (simp add: apply_persisted_layer_observed_def overlay_apply_def Let_def visit_nodes_apply [OF assms]
      visit_labels_apply [OF assms] visit_relationships_apply [OF assms] visit_properties_apply [OF assms])

section \<open>Lineage\<close>

declare lineage_loop.simps [simp del]

text \<open>
  The specification of the walk: from a commit along first parents to the nearest checkpoint that is not to be
  skipped, or to the root, collecting the layers that have rows.
\<close>

definition own_layer :: "LineageRow \<Rightarrow> i64 list" where
  "own_layer row = (if lr_has_delta row then [lr_layer_id row] else [])"

inductive lineage :: "database \<Rightarrow> hash_id option \<Rightarrow> hash_id \<Rightarrow> hash_id option \<Rightarrow> i64 list \<Rightarrow> bool" for d skip where
  at_checkpoint: "load_lineage_row d c = Inr row \<Longrightarrow> Some c \<noteq> skip \<Longrightarrow> lr_has_checkpoint row \<Longrightarrow> lineage d skip c (Some c) []"
| at_root: "load_lineage_row d c = Inr row \<Longrightarrow> Some c = skip \<or> \<not> lr_has_checkpoint row \<Longrightarrow> lr_parent row = None \<Longrightarrow>
    lineage d skip c None (own_layer row)"
| at_child: "load_lineage_row d c = Inr row \<Longrightarrow> Some c = skip \<or> \<not> lr_has_checkpoint row \<Longrightarrow> lr_parent row = Some p \<Longrightarrow>
    lineage d skip p cp ids \<Longrightarrow> lineage d skip c cp (own_layer row @ ids)"

inductive_cases lineage_cases: "lineage d skip c cp ids"

lemma push_lineage_item_Inr: "snd (push_lineage_item layers v) = Inr layers' \<Longrightarrow> fst layers' = fst layers @ [v]"
  by (cases layers) (auto simp: push_lineage_item_def split: if_splits)

lemma record_lineage_layer_Inr:
  "snd (record_lineage_layer row eh layers) = Inr layers' \<Longrightarrow> fst layers' = fst layers @ own_layer row"
  by (auto simp: record_lineage_layer_def own_layer_def dest: push_lineage_item_Inr split: if_splits)

lemma lineage_loop_sound:
  "snd (lineage_loop d skip eh c visited layers) = Inr (cp, ids) \<Longrightarrow>
   \<exists>rest. ids = fst layers @ rest \<and> lineage d skip c cp rest"
proof (induction d skip eh c visited layers rule: lineage_loop.induct)
  case (1 d skip eh c visited layers)
  from "1.prems" obtain row where row: "load_lineage_row d c = Inr row" and fresh: "\<not> om_has visited c"
    by (subst (asm) lineage_loop.simps) (auto split: if_splits)
  show ?case
  proof (cases "Some c \<noteq> skip \<and> lr_has_checkpoint row")
    case True
    with "1.prems" row fresh show ?thesis
      by (subst (asm) lineage_loop.simps) (auto intro: at_checkpoint)
  next
    case False
    with "1.prems" row fresh obtain layers' where rec: "snd (record_lineage_layer row eh layers) = Inr layers'"
      and rest: "snd (case lr_parent row of None \<Rightarrow> chk_ok (None, fst layers')
            | Some p \<Rightarrow> lineage_loop d skip eh p (om_put c () visited) layers') = Inr (cp, ids)"
      by (subst (asm) lineage_loop.simps) auto
    note app = record_lineage_layer_Inr [OF rec]
    show ?thesis
    proof (cases "lr_parent row")
      case None
      then have "lineage d skip c None (own_layer row)" using row False by (intro at_root) auto
      with rest app None show ?thesis by (intro exI [of _ "own_layer row"]) simp
    next
      case (Some p)
      with rest have "snd (lineage_loop d skip eh p (om_put c () visited) layers') = Inr (cp, ids)" by simp
      with "1.IH" [of "()" "()" row "()" layers' p] fresh row False rec Some
      obtain tail where "ids = fst layers' @ tail" "lineage d skip p cp tail" by auto
      with app row False Some show ?thesis by (auto intro: at_child)
    qed
  qed
qed

lemma resolve_lineage_sound: "snd (resolve_lineage P d c skip) = Inr (cp, ids) \<Longrightarrow> lineage d skip c cp ids"
  by (auto simp: resolve_lineage_def dest!: lineage_loop_sound)

section \<open>The graph of a commit\<close>

text \<open>
  The specification, without checkpoints: the layer of the commit applied to the graph of its first parent.
\<close>

inductive commit_graph :: "platform \<Rightarrow> database \<Rightarrow> hash_id \<Rightarrow> graph \<Rightarrow> bool" for P d where
  root: "load_lineage_row d c = Inr row \<Longrightarrow> lr_parent row = None \<Longrightarrow> load_layer P d (lr_layer_id row) = Inr l \<Longrightarrow>
    commit_graph P d c (apply_layer l empty_graph)"
| child: "load_lineage_row d c = Inr row \<Longrightarrow> lr_parent row = Some p \<Longrightarrow> load_layer P d (lr_layer_id row) = Inr l \<Longrightarrow>
    commit_graph P d p g \<Longrightarrow> commit_graph P d c (apply_layer l g)"

inductive_cases commit_graph_cases: "commit_graph P d c g"

lemma commit_graph_unique: "commit_graph P d c g \<Longrightarrow> commit_graph P d c g' \<Longrightarrow> g' = g"
proof (induction arbitrary: g' rule: commit_graph.induct)
  case (root c row l)
  from root.prems root.hyps show ?case by (cases rule: commit_graph.cases) auto
next
  case (child c row p l g)
  from child.prems child.hyps(1,2) obtain l' g2 where "g' = apply_layer l' g2" "load_layer P d (lr_layer_id row) = Inr l'"
    "commit_graph P d p g2" by (cases rule: commit_graph.cases) auto
  with child.hyps(3) child.IH show ?case by simp
qed

text \<open>The rows of a checkpoint stand for a graph.\<close>

definition relationship_columns :: "RelationshipRecord \<Rightarrow> RelationshipRow" where
  "relationship_columns r = \<lparr>rr_source_id = source r, rr_type_id = type_id r, rr_target_id = target r\<rparr>"

text \<open>The property rows of a checkpoint decode to the properties of a graph, each under its key.\<close>

definition checkpoint_properties_hold ::
    "platform \<Rightarrow> (i64 \<times> i64 \<times> i64, PropertyColumns) omap \<Rightarrow> (OwnerKind \<times> i64 \<times> i64, PropertyValue) omap \<Rightarrow> bool" where
  "checkpoint_properties_hold P t m \<longleftrightarrow>
     (\<exists>row. t = om_graft owner_key row m om_empty \<and> om_all (\<lambda>k v. snd (property_from_row P (row k v)) = Inr v) m)"

definition checkpoint_holds :: "platform \<Rightarrow> database \<Rightarrow> hash_id \<Rightarrow> graph \<Rightarrow> bool" where
  "checkpoint_holds P d c g \<longleftrightarrow>
     om_slice c (tb_cp_nodes d) = g_nodes g
   \<and> om_slice c (tb_cp_labels d) = g_labels g
   \<and> om_slice c (tb_cp_relationships d) = om_map (\<lambda>_. relationship_columns) (g_relationships g)
   \<and> om_all (\<lambda>i r. rel_id r = i) (g_relationships g)
   \<and> checkpoint_properties_hold P (om_slice c (tb_cp_properties d)) (g_properties g)"

definition base_graph :: "platform \<Rightarrow> database \<Rightarrow> SnapshotState \<Rightarrow> graph \<Rightarrow> bool" where
  "base_graph P d s g = (case ss_checkpoint s of None \<Rightarrow> g = empty_graph | Some c \<Rightarrow> checkpoint_holds P d c g)"

definition view :: "graph \<Rightarrow> SnapshotState \<Rightarrow> graph" where
  "view g s = overlay_graph g (ov_nodes (ss_overlay s)) (ov_labels (ss_overlay s)) (ov_relationships (ss_overlay s))
                (ov_properties (ss_overlay s))"

text \<open>Every checkpoint holds the graph of its commit.\<close>

definition checkpoints_ok :: "platform \<Rightarrow> database \<Rightarrow> bool" where
  "checkpoints_ok P d \<longleftrightarrow> (\<forall>c g. om_has (tb_checkpoints d) c \<longrightarrow> commit_graph P d c g \<longrightarrow> checkpoint_holds P d c g)"

definition overlay_view :: "graph \<Rightarrow> Overlay \<Rightarrow> graph" where
  "overlay_view g ov = overlay_graph g (ov_nodes ov) (ov_labels ov) (ov_relationships ov) (ov_properties ov)"

lemma overlay_view_apply: "overlay_view g (overlay_apply l ov) = apply_layer l (overlay_view g ov)"
  by (simp add: overlay_view_def overlay_apply_parts overlay_graph_apply_layer)

lemma overlay_view_default [simp]: "overlay_view g overlay_default = g"
  by (simp add: overlay_view_def overlay_default_def overlay_graph_def om_ext om_get_overlay om_get_map fun_eq_iff)

lemma load_lineage_row_checkpoint: "load_lineage_row d c = Inr row \<Longrightarrow> lr_has_checkpoint row = om_has (tb_checkpoints d) c"
  by (auto simp: load_lineage_row_def split: option.splits)

lemma load_lineage_row_delta: "load_lineage_row d c = Inr row \<Longrightarrow> lr_has_delta row = has_delta (lr_layer_id row) d"
  by (auto simp: load_lineage_row_def split: option.splits)

lemma load_layer_no_delta: "\<not> has_delta i d \<Longrightarrow> load_layer P d i = Inr layer_default"
  by (simp add: has_delta_def load_layer_def load_node_deltas_def load_label_deltas_def load_relationship_deltas_def
      load_property_deltas_def visit_node_deltas_def visit_label_deltas_def visit_relationship_deltas_def
      visit_property_deltas_def)

text \<open>The layers collected by the walk turn the base of the snapshot into the graph of the commit.\<close>

lemma lineage_graph:
  assumes "lineage d skip c cp ids" "commit_graph P d c g" "checkpoints_ok P d"
  shows "\<exists>b ls. (case cp of None \<Rightarrow> b = empty_graph | Some k \<Rightarrow> checkpoint_holds P d k b \<and> commit_graph P d k b)
    \<and> map_res (load_layer P d) ids = Inr ls \<and> fold apply_layer (rev ls) b = g"
  using assms(1,2)
proof (induction arbitrary: g rule: lineage.induct)
  case (at_checkpoint c row)
  then have "checkpoint_holds P d c g"
    using assms(3) load_lineage_row_checkpoint by (auto simp: checkpoints_ok_def)
  with at_checkpoint.prems show ?case by auto
next
  case (at_root c row)
  from at_root.prems at_root.hyps obtain l where l: "load_layer P d (lr_layer_id row) = Inr l" "g = apply_layer l empty_graph"
    by (cases rule: commit_graph.cases) auto
  show ?case
  proof (cases "lr_has_delta row")
    case True
    with l show ?thesis by (simp add: own_layer_def)
  next
    case False
    with l at_root.hyps load_layer_no_delta [of "lr_layer_id row" d P] show ?thesis
      by (auto simp: own_layer_def load_lineage_row_delta)
  qed
next
  case (at_child c row p cp ids)
  from at_child.prems at_child.hyps obtain l g' where l: "load_layer P d (lr_layer_id row) = Inr l" "g = apply_layer l g'"
    "commit_graph P d p g'"
    by (cases rule: commit_graph.cases) auto
  from at_child.IH [OF l(3)] obtain b ls where b: "case cp of None \<Rightarrow> b = empty_graph | Some k \<Rightarrow> checkpoint_holds P d k b \<and> commit_graph P d k b"
    "map_res (load_layer P d) ids = Inr ls" "fold apply_layer (rev ls) b = g'" by blast
  show ?case
  proof (cases "lr_has_delta row")
    case True
    with b l show ?thesis by (intro exI [of _ b] exI [of _ "l # ls"]) (simp add: own_layer_def)
  next
    case False
    with b l at_child.hyps load_layer_no_delta [of "lr_layer_id row" d P] show ?thesis
      by (auto simp: own_layer_def load_lineage_row_delta)
  qed
qed

lemma fold_persisted:
  assumes "map_res (load_layer P d) ids = Inr ls"
  shows "fold_res (\<lambda>layer ov. snd (chk_then check (\<lambda>_. apply_persisted_layer_observed P d layer ov))) ids ov =
    Inr (fold overlay_apply ls ov)"
  using assms
proof (induction ids arbitrary: ls ov)
  case (Cons i ids)
  then obtain l ls' where "load_layer P d i = Inr l" "map_res (load_layer P d) ids = Inr ls'" "ls = l # ls'" by auto
  with Cons.IH show ?case by (simp add: apply_persisted_layer)
qed simp

lemma overlay_view_fold: "overlay_view b (fold overlay_apply ls ov) = fold apply_layer ls (overlay_view b ov)"
  by (induction ls arbitrary: ov) (simp_all add: overlay_view_apply)

lemma map_res_rev: "map_res f xs = Inr ys \<Longrightarrow> map_res f (rev xs) = Inr (rev ys)"
  by (simp add: map_res_Inr_iff)

lemma map_res_set: "map_res f xs = Inr ys \<Longrightarrow> y \<in> set ys \<Longrightarrow> \<exists>x \<in> set xs. f x = Inr y"
  by (induction xs arbitrary: ys) auto

lemma load_layer_relationship_ids:
  assumes "load_layer P d i = Inr l"
  shows "om_all (\<lambda>i delta. rel_id (rd_record delta) = i) (lb_relationships l)"
proof -
  have "rel_id (rd_record delta) = k" if rel: "om_get (lb_relationships l) k = Some delta" for k delta
  proof -
    obtain x where "relationship_decode (fst x) (snd x) = Inr (k, delta)"
      using map_res_set [OF load_layer_rows(3) [OF assms], of "(k, delta)"] rel by (auto simp: om_entries_iff)
    then show ?thesis by (auto simp: relationship_decode_def)
  qed
  then show ?thesis by (simp add: om_all_iff)
qed

text \<open>Values read from rows of the right types are well formed.\<close>

lemma property_delta_from_row_wf: "snd (property_delta_from_row P r) = Inr x \<Longrightarrow> row_ok r \<Longrightarrow> wf_delta x"
  using to_value_canonical
  by (cases "pd_op x") (auto simp: property_delta_from_row_def wf_delta_def row_ok_def row_columns_def dest!: property_from_row_Inr split: if_splits)

lemma decoded_row:
  assumes "map_res (\<lambda>(k, r). dec k r) (layer_rows i t) = Inr (om_entries m)" "om_get m k = Some x"
  shows "\<exists>k' r. om_get t (i, k') = Some r \<and> dec k' r = Inr (k, x)"
  using map_res_set [OF assms(1), of "(k, x)"] assms(2)
  by (auto simp: om_entries_iff layer_rows_slice) (metis om_entries_iff om_get_slice)

text \<open>A layer read from rows that satisfy their constraints is well formed.\<close>

lemma load_layer_wf:
  assumes "load_layer P d i = Inr l" "delta_rows_ok d"
  shows "wf_layer l"
  unfolding wf_layer_iff om_all_iff
proof (intro conjI allI impI)
  note rows = load_layer_rows [OF assms(1)]
  show "id_ok k" if "om_get (lb_nodes l) k = Some v" for k v
    using decoded_row [OF rows(1) that] assms(2) by (auto simp: node_decode_def delta_rows_ok_def om_all_iff)
  show "(case k of (n, k) \<Rightarrow> \<lambda>_. id_ok n \<and> id_ok k) v" if "om_get (lb_labels l) k = Some v" for k v
    using decoded_row [OF rows(2) that] assms(2) by (auto simp: label_decode_def delta_rows_ok_def om_all_iff) blast+
  show "rel_id (rd_record v) = k" "wf_relationship (rd_record v)" if "om_get (lb_relationships l) k = Some v" for k v
    using decoded_row [OF rows(3) that] assms(2) by (auto simp: relationship_decode_def delta_rows_ok_def om_all_iff) blast+
  show "(case k of (kind, n, k) \<Rightarrow> \<lambda>d. id_ok n \<and> id_ok k \<and> wf_delta d) v" if "om_get (lb_properties l) k = Some v" for k v
    using decoded_row [OF rows(4) that] assms(2)
    by (auto simp: property_decode_def delta_rows_ok_def om_all_iff intro: property_delta_from_row_wf)
qed

text \<open>A graph whose identifiers are positive and whose values are well formed.\<close>

definition graph_ok :: "graph \<Rightarrow> bool" where
  "graph_ok g \<longleftrightarrow>
     om_all (\<lambda>n _. id_ok n) (g_nodes g)
   \<and> om_all (\<lambda>(n, k) _. id_ok n \<and> id_ok k) (g_labels g)
   \<and> om_all (\<lambda>i r. rel_id r = i \<and> wf_relationship r) (g_relationships g)
   \<and> om_all (\<lambda>(kind, n, k) v. id_ok n \<and> id_ok k \<and> wf_value v) (g_properties g)"

lemma graph_ok_empty [simp]: "graph_ok empty_graph"
  by (simp add: graph_ok_def empty_graph_def)

lemma apply_layer_graph_ok:
  assumes "wf_layer l" "graph_ok g"
  shows "graph_ok (apply_layer l g)"
  using assms unfolding graph_ok_def wf_layer_iff om_all_iff apply_layer_get
  by (auto simp: op_change_def relationship_change_def wf_delta_def split: option.splits if_splits) blast+

lemma commit_graph_ok:
  assumes "commit_graph P d c g" "delta_rows_ok d"
  shows "graph_ok g"
  using assms(1) by induction (use assms(2) load_layer_wf apply_layer_graph_ok in auto)

text \<open>The changes of an overlay as one layer.\<close>

definition overlay_layer :: "Overlay \<Rightarrow> LayerBuilder" where
  "overlay_layer ov = \<lparr>lb_nodes = ov_nodes ov, lb_labels = ov_labels ov, lb_relationships = ov_relationships ov,
     lb_properties = ov_properties ov\<rparr>"

lemma view_layer: "view b s = apply_layer (overlay_layer (ss_overlay s)) b"
  by (simp add: view_def apply_layer_def overlay_layer_def)

lemma om_all_put_all: "om_all Q t \<Longrightarrow> om_all Q m \<Longrightarrow> om_all Q (om_put_all (om_entries m) t)"
  by (auto simp: om_all_iff om_get_put_all_entries map_add_def split: option.splits)

lemma overlay_apply_wf: "wf_layer l \<Longrightarrow> wf_layer (overlay_layer ov) \<Longrightarrow> wf_layer (overlay_layer (overlay_apply l ov))"
  unfolding wf_layer_iff by (simp add: overlay_layer_def overlay_apply_parts om_all_put_all)

text \<open>What a resolved snapshot promises: it stands for \<open>g\<close> over the base \<open>b\<close>.\<close>

definition snapshot_of :: "platform \<Rightarrow> database \<Rightarrow> SnapshotState \<Rightarrow> graph \<Rightarrow> graph \<Rightarrow> bool" where
  "snapshot_of P d s b g \<longleftrightarrow> base_graph P d s b \<and> view b s = g \<and> overlay_ok (ss_overlay s)
     \<and> wf_layer (overlay_layer (ss_overlay s)) \<and> graph_ok b"

lemma snapshot_of_graph_ok: "snapshot_of P d s b g \<Longrightarrow> graph_ok g"
  by (auto simp: snapshot_of_def view_layer apply_layer_graph_ok)

lemma snapshot_of_wf_deltas: "snapshot_of P d s b g \<Longrightarrow> om_all (\<lambda>_. wf_delta) (ov_properties (ss_overlay s))"
  unfolding snapshot_of_def wf_layer_iff om_all_iff by (auto simp: overlay_layer_def)

text \<open>The ends and type of a relationship come from a row that names it.\<close>

definition stored_tuple :: "database \<Rightarrow> i64 \<Rightarrow> RelationshipRecord \<Rightarrow> bool" where
  "stored_tuple d i r \<longleftrightarrow> (\<exists>l row. om_get (tb_rel_delta d) (l, i) = Some row \<and> r = relationship_from_row i (fst row))"

lemma load_layer_tuples:
  assumes "load_layer P d j = Inr l" "om_get (lb_relationships l) i = Some delta"
  shows "stored_tuple d i (rd_record delta)"
  using decoded_row [OF load_layer_rows(3) [OF assms(1)] assms(2)] by (auto simp: relationship_decode_def stored_tuple_def) blast

lemma commit_graph_tuples: "commit_graph P d c g \<Longrightarrow> om_all (stored_tuple d) (g_relationships g)"
proof (induction rule: commit_graph.induct)
  case (root c row l)
  then show ?case
    by (auto simp: om_all_iff apply_layer_get relationship_change_def empty_graph_def split: option.splits if_splits
        intro: load_layer_tuples)
next
  case (child c row p l g)
  then show ?case
    by (auto simp: om_all_iff apply_layer_get relationship_change_def split: option.splits if_splits intro: load_layer_tuples)
qed

lemma resolved_snapshot:
  assumes "snd (resolve_state_with_checkpoint_skip P d c skip) = Inr s" "commit_graph P d c g" "checkpoints_ok P d"
    "delta_rows_ok d"
  shows "\<exists>b. snapshot_of P d s b g \<and> ss_property_cache s = om_empty \<and> ss_commit s = c \<and> ss_cache_identity s = c
    \<and> om_all (\<lambda>i delta. stored_tuple d i (rd_record delta)) (ov_relationships (ss_overlay s)) \<and> om_all (stored_tuple d) (g_relationships b)"
proof -
  obtain cp ids ov where lin: "snd (resolve_lineage P d c skip) = Inr (cp, ids)"
    and ov: "fold_res (\<lambda>layer ov. snd (chk_then check (\<lambda>_. apply_persisted_layer_observed P d layer ov))) (rev ids) overlay_default = Inr ov"
    and s: "s = \<lparr>ss_commit = c, ss_cache_identity = c, ss_checkpoint = cp, ss_overlay = ov, ss_property_cache = om_empty\<rparr>"
    using assms(1) by (auto simp: resolve_state_with_checkpoint_skip_def)
  obtain b ls where b: "case cp of None \<Rightarrow> b = empty_graph | Some k \<Rightarrow> checkpoint_holds P d k b \<and> commit_graph P d k b"
    "map_res (load_layer P d) ids = Inr ls" "fold apply_layer (rev ls) b = g"
    using lineage_graph [OF resolve_lineage_sound [OF lin] assms(2,3)] by blast
  have "ov = fold overlay_apply (rev ls) overlay_default"
    using ov fold_persisted [OF map_res_rev [OF b(2)], of overlay_default] by simp
  moreover let ?T = "om_all (\<lambda>i delta. stored_tuple d i (rd_record delta))"
  let ?I = "\<lambda>ov. overlay_ok ov \<and> wf_layer (overlay_layer ov) \<and> ?T (ov_relationships ov)"
  have "?I (fold overlay_apply (rev ls) overlay_default)"
  proof (rule fold_invariant_list [where P = ?I])
    fix l o' assume "l \<in> set (rev ls)" "?I o'"
    moreover from this obtain i where i: "load_layer P d i = Inr l" using map_res_set [OF b(2), of l] by auto
    moreover have "?T (lb_relationships l)" using load_layer_tuples [OF i] by (auto simp: om_all_iff)
    ultimately show "?I (overlay_apply l o')"
      using assms(4)
      by (simp add: overlay_apply_ok load_layer_relationship_ids overlay_apply_wf load_layer_wf overlay_apply_parts om_all_put_all)
  qed (simp add: overlay_ok_default, simp add: overlay_default_def overlay_layer_def wf_layer_iff)
  moreover have "graph_ok b"
    using b(1) commit_graph_ok assms(4) by (auto split: option.splits)
  moreover have "om_all (stored_tuple d) (g_relationships b)"
    using b(1) commit_graph_tuples by (auto simp: empty_graph_def split: option.splits)
  ultimately show ?thesis
    using b s overlay_view_fold [of b "rev ls" overlay_default]
    by (auto simp: snapshot_of_def base_graph_def view_def overlay_view_def [symmetric] split: option.splits)
qed

end
