(* ===== verification/Overlay_Stream.thy ===== *)
theory Overlay_Stream
  imports Graph
begin

text \<open>
  Merging the rows of a base table with an overlay, both in key order, in one pass. The snapshot code has this
  loop once per kind of row; the locale \<open>overlay_stream\<close> states what one step of the loop does, and the
  streams are shown to visit the base under the overlay in key order.
\<close>

section \<open>Merging two ascending lists\<close>

fun merged :: "('k::linorder \<times> 'v) list \<Rightarrow> ('k \<times> 'v option) list \<Rightarrow> ('k \<times> 'v) list" where
  "merged bs [] = bs"
| "merged [] ((k, c) # cs) = (case c of None \<Rightarrow> [] | Some v \<Rightarrow> [(k, v)]) @ merged [] cs"
| "merged ((b, w) # bs) ((k, c) # cs) =
     (if b < k then (b, w) # merged bs ((k, c) # cs)
      else (case c of None \<Rightarrow> [] | Some v \<Rightarrow> [(k, v)]) @ (if k = b then merged bs cs else merged ((b, w) # bs) cs))"

lemma merged_keys: "fst ` set (merged bs cs) \<subseteq> fst ` set bs \<union> fst ` set cs"
proof (induction bs cs rule: merged.induct)
  case (2 k c cs)
  then show ?case by (cases c) auto
next
  case (3 b w bs k c cs)
  then show ?case by (cases c; cases "b < k"; cases "k = b") auto
qed simp

lemma asc_Cons: "asc (x # xs) \<longleftrightarrow> (\<forall>y \<in> fst ` set xs. fst x < y) \<and> asc xs"
  by auto

lemma asc_option_append:
  "asc ((case c of None \<Rightarrow> [] | Some v \<Rightarrow> [(k, v)]) @ xs) \<longleftrightarrow> asc xs \<and> (c = None \<or> (\<forall>y \<in> fst ` set xs. k < y))"
  by (auto split: option.splits)

lemma asc_merged: "asc bs \<Longrightarrow> asc cs \<Longrightarrow> asc (merged bs cs)"
proof (induction bs cs rule: merged.induct)
  case (2 k c cs)
  then have "asc (merged [] cs)" "\<forall>y \<in> fst ` set cs. k < y" by (auto simp: asc_Cons)
  moreover have "fst ` set (merged [] cs) \<subseteq> fst ` set cs" using merged_keys [of "[]" cs] by simp
  ultimately show ?case unfolding merged.simps asc_option_append by (metis subsetD)
next
  case (3 b w bs k c cs)
  note keys = merged_keys [of bs "(k, c) # cs"] merged_keys [of bs cs] merged_keys [of "(b, w) # bs" cs]
  have asc: "\<forall>y \<in> fst ` set bs. b < y" "\<forall>y \<in> fst ` set cs. k < y" "asc bs" "asc cs"
    using "3.prems" by (auto simp: asc_Cons)
  show ?case
  proof (cases "b < k")
    case True
    then have "asc (merged bs ((k, c) # cs))" using "3.IH"(1) "3.prems" by simp
    moreover have "\<forall>y \<in> fst ` set (merged bs ((k, c) # cs)). b < y" using keys(1) asc True by fastforce
    ultimately show ?thesis using True by (simp add: asc_Cons del: list.map)
  next
    case False
    then have "asc (merged bs cs)" if "k = b" using "3.IH"(2) that "3.prems" by simp
    moreover have "asc (merged ((b, w) # bs) cs)" if "k \<noteq> b" using "3.IH"(3) that False "3.prems" by simp
    moreover have "\<forall>y \<in> fst ` set (merged bs cs). k < y" if "k = b" using keys(2) asc that by blast
    moreover have "\<forall>y \<in> fst ` set (merged ((b, w) # bs) cs). k < y" if "k \<noteq> b"
      using keys(3) asc that False by fastforce
    ultimately show ?thesis using False by (cases c; cases "k = b") auto
  qed
qed simp

lemma map_of_merged:
  "asc bs \<Longrightarrow> asc cs \<Longrightarrow> map_of (merged bs cs) x = (case map_of cs x of None \<Rightarrow> map_of bs x | Some c \<Rightarrow> c)"
proof (induction bs cs rule: merged.induct)
  case (2 k c cs)
  then have "map_of cs k = None" by (simp add: asc_map_of_None)
  with 2 show ?case by (auto split: option.splits)
next
  case (3 b w bs k c cs)
  have none: "map_of cs k = None" "map_of bs b = None" using "3.prems" by (auto simp: map_of_eq_None_iff)
  show ?case
  proof (cases "b < k")
    case True
    then have "map_of ((k, c) # cs) b = None" using "3.prems"(2) by (auto simp: map_of_eq_None_iff)
    with "3.IH"(1) [OF True] "3.prems" True show ?thesis by (auto split: option.splits)
  next
    case False
    have absent: "map_of ((b, w) # bs) k = None" if "k \<noteq> b"
      using False that "3.prems"(1) by (auto simp: map_of_eq_None_iff)
    show ?thesis
      using False none absent "3.IH"(2,3) "3.prems" by (auto split: option.splits)
  qed
qed simp

lemma merged_overlay: "merged (om_entries b) (om_entries ov) = om_entries (om_overlay b ov)"
proof (rule asc_ext)
  show "map_of (merged (om_entries b) (om_entries ov)) = map_of (om_entries (om_overlay b ov))"
    using om_get_overlay [of b ov] by (auto simp: map_of_merged fun_eq_iff om_get_def split: option.splits)
qed (simp_all add: asc_merged)

section \<open>The loop\<close>

text \<open>
  \<open>before\<close> is the work done for one base row: first the overlay entries up to its key, then the row unless an
  entry replaced it. \<open>change\<close> is what an overlay entry says of its key; \<open>base_ok\<close> and \<open>change_ok\<close> are
  the rows and entries that can be read.
\<close>

locale overlay_stream =
  fixes before :: "'b \<Rightarrow> ('k::linorder \<times> 'c) list \<Rightarrow> 's \<Rightarrow> 'e + (('k \<times> 'c) list \<times> 's)"
    and key :: "'b \<Rightarrow> 'k"
    and base_value :: "'b \<Rightarrow> 'v"
    and change :: "'c \<Rightarrow> 'v option"
    and visit :: "'k \<Rightarrow> 'v \<Rightarrow> 's \<Rightarrow> 'e + 's"
    and visit_change :: "'k \<Rightarrow> 'c \<Rightarrow> 's \<Rightarrow> 'e + 's"
    and base_ok :: "'b \<Rightarrow> bool"
    and change_ok :: "'c \<Rightarrow> bool"
  assumes before_Nil: "base_ok b \<Longrightarrow> before b [] s = and_then (visit (key b) (base_value b) s) (\<lambda>s. Inr ([], s))"
    and before_Cons: "base_ok b \<Longrightarrow> change_ok c \<Longrightarrow>
      before b ((k, c) # cs) s =
        (if key b < k then and_then (visit (key b) (base_value b) s) (\<lambda>s. Inr ((k, c) # cs, s))
         else and_then (visit_change k c s) (\<lambda>s. if k = key b then Inr (cs, s) else before b cs s))"
    and visit_change: "change_ok c \<Longrightarrow> visit_change k c s = (case change c of None \<Rightarrow> Inr s | Some v \<Rightarrow> visit k v s)"
begin

definition drain :: "('k \<times> 'c) list \<Rightarrow> 's \<Rightarrow> 'e + 's" where
  "drain = fold_res (\<lambda>(k, c). visit_change k c)"

definition run :: "'b list \<Rightarrow> ('k \<times> 'c) list \<Rightarrow> 's \<Rightarrow> 'e + 's" where
  "run bs cs s = and_then (fold_res (\<lambda>b (cs, s). before b cs s) bs (cs, s)) (\<lambda>(cs, s). drain cs s)"

abbreviation base_entry :: "'b \<Rightarrow> 'k \<times> 'v" where
  "base_entry b \<equiv> (key b, base_value b)"

abbreviation change_entry :: "'k \<times> 'c \<Rightarrow> 'k \<times> 'v option" where
  "change_entry x \<equiv> (fst x, change (snd x))"

lemma run_Nil: "run [] cs s = drain cs s"
  by (simp add: run_def)

lemma run_Cons: "run (b # bs) cs s = and_then (before b cs s) (\<lambda>(cs, s). run bs cs s)"
  by (cases "before b cs s") (auto simp: run_def)

lemma drain_Cons: "drain ((k, c) # cs) s = and_then (visit_change k c s) (drain cs)"
  by (simp add: drain_def)

lemma drain_merged:
  "\<forall>x \<in> set cs. change_ok (snd x) \<Longrightarrow> drain cs s = fold_res (\<lambda>(k, v). visit k v) (merged [] (map change_entry cs)) s"
proof (induction cs arbitrary: s)
  case (Cons x cs)
  then have "drain cs = fold_res (\<lambda>(k, v). visit k v) (merged [] (map change_entry cs))" by auto
  with Cons.prems show ?case
    by (cases x; cases "change (snd x)") (simp_all add: drain_Cons visit_change)
qed (simp add: drain_def)

lemma run_base_only:
  "\<forall>b \<in> set bs. base_ok b \<Longrightarrow> run bs [] s = fold_res (\<lambda>(k, v). visit k v) (map base_entry bs) s"
proof (induction bs arbitrary: s)
  case (Cons b bs)
  then show ?case
    by (cases "visit (key b) (base_value b) s") (simp_all add: run_Cons before_Nil)
qed (simp add: run_Nil drain_def)

lemma run_step:
  assumes "base_ok b" "change_ok c" "\<not> key b < k" "k \<noteq> key b"
  shows "run (b # bs) ((k, c) # cs) s =
    and_then (visit_change k c s) (\<lambda>s. run (b # bs) cs s)"
  using assms by (simp add: run_Cons before_Cons and_then_assoc)

text \<open>The loop visits the merge of the two lists in order.\<close>

lemma run_merged:
  assumes "\<forall>b \<in> set bs. base_ok b" "\<forall>x \<in> set cs. change_ok (snd x)"
  shows "run bs cs s = fold_res (\<lambda>(k, v). visit k v) (merged (map base_entry bs) (map change_entry cs)) s"
  using assms
proof (induction "length bs + length cs" arbitrary: bs cs s rule: less_induct)
  case less
  show ?case
  proof (cases bs)
    case Nil
    with less.prems show ?thesis by (simp add: run_Nil drain_merged)
  next
    case bs: (Cons b bs')
    show ?thesis
    proof (cases cs)
      case Nil
      with less.prems show ?thesis by (simp add: run_base_only)
    next
      case cs: (Cons x cs')
      obtain k c where x: "x = (k, c)" by (cases x)
      have ok: "base_ok b" "change_ok c" "\<forall>b \<in> set bs'. base_ok b" "\<forall>x \<in> set cs'. change_ok (snd x)"
        using less.prems bs cs x by auto
      note IH = less.hyps [of bs' cs] less.hyps [of bs' cs'] less.hyps [of bs cs']
      consider "key b < k" | "k = key b" | "\<not> key b < k" "k \<noteq> key b" by blast
      then show ?thesis
      proof cases
        case 1
        with ok IH(1) bs cs x less.prems show ?thesis
          by (cases "visit (key b) (base_value b) s") (simp_all add: run_Cons before_Cons)
      next
        case 2
        with ok IH(2) bs cs x show ?thesis
          by (cases "change c"; cases "visit k (the (change c)) s") (simp_all add: run_Cons before_Cons visit_change)
      next
        case 3
        with ok IH(3) bs cs x less.prems show ?thesis
          by (cases "change c"; cases "visit k (the (change c)) s") (simp_all add: run_step visit_change)
      qed
    qed
  qed
qed

text \<open>Over tables: it visits the base under the overlay.\<close>

lemma run_overlay:
  assumes "map base_entry bs = om_entries b" "\<forall>b \<in> set bs. base_ok b" "om_all (\<lambda>_. change_ok) ov"
  shows "run bs (om_entries ov) s = fold_res (\<lambda>(k, v). visit k v) (om_entries (om_overlay b (om_map (\<lambda>_. change) ov))) s"
proof -
  have "map change_entry (om_entries ov) = om_entries (om_map (\<lambda>_. change) ov)"
    by (simp add: om_map.rep_eq case_prod_unfold)
  moreover have "\<forall>x \<in> set (om_entries ov). change_ok (snd x)"
    using assms(3) by (auto simp: om_all_def list_all_iff)
  ultimately show ?thesis
    using run_merged [OF assms(2), of "om_entries ov" s] assms(1) by (simp add: merged_overlay)
qed

end

end
