(* ===== verification/Snapshot_Views.thy ===== *)
theory Snapshot_Views
  imports Snapshot_Laws Overlay_Stream
begin

text \<open>
  What the reads of a snapshot return, in terms of the graph it stands for.
\<close>

section \<open>Point reads\<close>

lemma view_get:
  "om_get (g_nodes (view g s)) n = (case om_get (ov_nodes (ss_overlay s)) n of None \<Rightarrow> om_get (g_nodes g) n | Some p \<Rightarrow> op_change p)"
  "om_get (g_labels (view g s)) k = (case om_get (ov_labels (ss_overlay s)) k of None \<Rightarrow> om_get (g_labels g) k | Some p \<Rightarrow> op_change p)"
  "om_get (g_relationships (view g s)) i =
     (case om_get (ov_relationships (ss_overlay s)) i of None \<Rightarrow> om_get (g_relationships g) i | Some d \<Rightarrow> relationship_change d)"
  "om_get (g_properties (view g s)) o' =
     (case om_get (ov_properties (ss_overlay s)) o' of None \<Rightarrow> om_get (g_properties g) o' | Some d \<Rightarrow> pd_value d)"
  by (simp_all add: view_def overlay_graph_def om_get_overlay om_get_map split: option.splits)

lemma op_change_eq [simp]: "op_change p = Some u \<longleftrightarrow> p = Add" "op_change p \<noteq> None \<longleftrightarrow> p = Add"
  by (auto simp: op_change_def)

text \<open>Rows of a checkpoint, key by key.\<close>

lemma checkpoint_get:
  assumes "checkpoint_holds P d c g"
  shows "om_get (tb_cp_nodes d) (c, n) = om_get (g_nodes g) n"
    and "om_get (tb_cp_labels d) (c, n, l) = om_get (g_labels g) (n, l)"
    and "om_get (tb_cp_relationships d) (c, i) = map_option relationship_columns (om_get (g_relationships g) i)"
  using assms arg_cong [of _ _ om_get]
  by (auto simp: checkpoint_holds_def fun_eq_iff om_get_map split: option.splits simp flip: om_get_slice)

lemma checkpoint_property_row:
  assumes "checkpoint_holds P d c g"
  shows "case om_get (tb_cp_properties d) (c, owner_key k) of
      None \<Rightarrow> om_get (g_properties g) k = None
    | Some row \<Rightarrow> \<exists>v. om_get (g_properties g) k = Some v \<and> snd (property_from_row P row) = Inr v"
proof -
  from assms obtain f where f: "om_slice c (tb_cp_properties d) = om_graft owner_key f (g_properties g) om_empty"
    "om_all (\<lambda>k v. snd (property_from_row P (f k v)) = Inr v) (g_properties g)"
    by (auto simp: checkpoint_holds_def checkpoint_properties_hold_def)
  have "om_get (tb_cp_properties d) (c, owner_key k) = map_option (f k) (om_get (g_properties g) k)"
    using arg_cong [OF f(1), of "\<lambda>t. om_get t (owner_key k)"] by (simp add: om_get_graft(1) [OF owner_key_inj] split: option.splits)
  then show ?thesis using om_allD [OF f(2), of k] by (cases "om_get (g_properties g) k") auto
qed

lemma relationship_from_columns: "rel_id r = i \<Longrightarrow> relationship_from_row i (relationship_columns r) = r"
  by (cases r) (simp add: relationship_from_row_def relationship_columns_def)

lemma node_exists_view:
  assumes "base_graph P d s b"
  shows "node_exists d s n = Inr (om_has (g_nodes (view b s)) n)"
  using assms checkpoint_get(1)
  by (auto simp: node_exists_def base_graph_def om_has_def view_get empty_graph_def split: option.splits)

lemma relationship_view:
  assumes "base_graph P d s b"
  shows "relationship d s i = Inr (om_get (g_relationships (view b s)) i)"
proof (cases "om_get (ov_relationships (ss_overlay s)) i")
  case None
  show ?thesis
  proof (cases "ss_checkpoint s")
    case (Some c)
    with assms have h: "checkpoint_holds P d c b" by (simp add: base_graph_def)
    have "rel_id r = i" if "om_get (g_relationships b) i = Some r" for r
      using h that by (auto simp: checkpoint_holds_def om_all_iff)
    with None Some checkpoint_get(3) [OF h, of i] show ?thesis
      by (cases "om_get (g_relationships b) i") (simp_all add: relationship_def view_get relationship_from_columns)
  qed (use None assms in \<open>simp add: relationship_def view_get base_graph_def empty_graph_def\<close>)
qed (simp add: relationship_def view_get relationship_change_def)

lemma fold_append_chunks: "fold (\<lambda>chunk out. out @ chunk) cs xs = xs @ concat cs"
  by (induction cs arbitrary: xs) simp_all

lemma clone_value_ok: "wf_value v \<Longrightarrow> snd (clone_value_checked v) = Inr v"
proof (induction v)
  case (VList vs)
  then have "map_res (\<lambda>v. snd (clone_value_checked v)) vs = Inr (map (\<lambda>v. v) vs)" by (intro map_res_map) auto
  then show ?case by simp
qed (simp_all add: snd_copy_text_checked fold_append_chunks)

text \<open>The page cache holds what the base holds.\<close>

definition cache_ok :: "graph \<Rightarrow> SnapshotState \<Rightarrow> bool" where
  "cache_ok b s \<longleftrightarrow> om_all (\<lambda>k v. v = om_get (g_properties b) k) (ss_property_cache s)"

lemma checkpoint_property:
  assumes "checkpoint_holds P d c b" "om_get (tb_cp_properties d) (c, owner_key k) = Some row"
  shows "\<exists>v. om_get (g_properties b) k = Some v \<and> snd (property_from_row P row) = Inr v"
  using checkpoint_property_row [OF assms(1), of k] assms(2) by simp

lemma property_view:
  assumes "snapshot_of P d s b g" "cache_ok b s"
  shows "property P d s kind owner key = Inr (om_get (g_properties g) (kind, owner, key))"
proof -
  let ?k = "(kind, owner, key)"
  have g: "g = view b s" and base: "base_graph P d s b" using assms(1) by (auto simp: snapshot_of_def)
  have wf: "wf_value v" if "om_get (g_properties g) ?k = Some v" for v
    using snapshot_of_graph_ok [OF assms(1)] that by (auto simp: graph_ok_def om_all_iff)
  define copy where "copy = (\<lambda>v. case v of None \<Rightarrow> chk_ok None
       | Some v \<Rightarrow> chk_then (clone_value_checked v) (\<lambda>v. chk_ok (Some v)))"
  have copy: "snd (copy (om_get (g_properties g) ?k)) = Inr (om_get (g_properties g) ?k)"
    using wf clone_value_ok by (auto simp: copy_def split: option.splits)
  have "snd (with_property_checked P d s kind owner key copy) = snd (copy (om_get (g_properties g) ?k))"
  proof (cases "om_get (ov_properties (ss_overlay s)) ?k")
    case None
    then have gb: "om_get (g_properties g) ?k = om_get (g_properties b) ?k" by (simp add: g view_get)
    show ?thesis
    proof (cases "om_get (ss_property_cache s) ?k")
      case (Some v)
      with assms(2) have "v = om_get (g_properties b) ?k" by (auto simp: cache_ok_def om_all_iff)
      with None Some gb show ?thesis by (simp add: with_property_checked_def)
    next
      case cache: None
      show ?thesis
      proof (cases "ss_checkpoint s")
        case (Some c)
        with base have h: "checkpoint_holds P d c b" by (simp add: base_graph_def)
        have ok: "(owner_i64 kind, owner, key) = owner_key ?k" by (simp add: owner_key_def)
        show ?thesis
        proof (cases "om_get (tb_cp_properties d) (c, owner_key ?k)")
          case n: None
          then have "om_get (g_properties b) ?k = None" using checkpoint_property_row [OF h, of ?k] by simp
          with n None cache Some gb show ?thesis by (simp add: with_property_checked_def ok)
        next
          case (Some row)
          with checkpoint_property [OF h Some] None cache \<open>ss_checkpoint s = Some c\<close> gb show ?thesis
            by (auto simp: with_property_checked_def ok)
        qed
      qed (use None cache gb base in \<open>simp add: with_property_checked_def base_graph_def empty_graph_def\<close>)
    qed
  qed (simp add: with_property_checked_def g view_get)
  with copy show ?thesis by (simp add: property_def copy_def)
qed

section \<open>Streams\<close>

lemma snd_if: "snd (if b then m else m') = (if b then snd m else snd m')"
  by simp

lemma fold_res_map: "fold_res f (map g xs) s = fold_res (\<lambda>x. f (g x)) xs s"
proof (induction xs arbitrary: s)
  case (Cons x xs)
  then show ?case by (cases "f (g x) s") simp_all
qed simp

lemma snd_if_ok: "snd (if b then m else chk_ok s) = (if b then snd m else Inr s)"
  by simp

lemma case_change:
  "(case op_change p of None \<Rightarrow> Inr s | Some v \<Rightarrow> f v) = (if p = Add then f () else Inr s)"
  "(case relationship_change r of None \<Rightarrow> Inr s | Some v \<Rightarrow> h v) = (if rd_op r = Add then h (rd_record r) else Inr s)"
  by (simp_all add: op_change_def relationship_change_def)

interpretation node_stream: overlay_stream
  "\<lambda>b os s. snd (merge_node_before (fst b) visitor os s)" "fst :: i64 \<times> unit \<Rightarrow> i64" "\<lambda>_. ()" op_change "\<lambda>n _ s. snd (visitor n s)"
  "\<lambda>n p s. if p = Add then snd (visitor n s) else Inr s"
  "\<lambda>_. True" "\<lambda>_. True"
  for visitor :: "i64 \<Rightarrow> 's \<Rightarrow> 's chk"
  by unfold_locales (auto simp: op_change_def snd_if res_simps simp del: and_then_Inr_iff intro!: arg_cong2 [where f = and_then])

interpretation label_stream: overlay_stream
  "\<lambda>b os s. snd (merge_label_before (fst b) visitor os s)" "fst :: (i64 \<times> i64) \<times> unit \<Rightarrow> i64 \<times> i64" "\<lambda>_. ()" op_change
  "\<lambda>k _ s. snd (visitor (fst k) (snd k) s)" "\<lambda>k p s. if p = Add then snd (visitor (fst k) (snd k) s) else Inr s"
  "\<lambda>_. True" "\<lambda>_. True"
  for visitor :: "i64 \<Rightarrow> i64 \<Rightarrow> 's \<Rightarrow> 's chk"
  by unfold_locales (auto simp: op_change_def snd_if res_simps simp del: and_then_Inr_iff intro!: arg_cong2 [where f = and_then])

interpretation relationship_stream: overlay_stream
  "\<lambda>b os s. snd (merge_relationship_before (relationship_from_row (fst b) (snd b)) visitor os s)" fst
  "\<lambda>b. relationship_from_row (fst b) (snd b)" relationship_change "\<lambda>_ r s. snd (visitor r s)"
  "\<lambda>_ r s. if rd_op r = Add then snd (visitor (rd_record r) s) else Inr s" "\<lambda>_. True" "\<lambda>_. True"
  for visitor :: "RelationshipRecord \<Rightarrow> 's \<Rightarrow> 's chk"
  by unfold_locales (auto simp: relationship_change_def snd_if res_simps simp del: and_then_Inr_iff intro!: arg_cong2 [where f = and_then])

lemma visit_nodes_view:
  assumes "base_graph P d s b"
  shows "snd (visit_nodes d s visitor x) = fold_res (\<lambda>n x. snd (visitor n x)) (om_keys (g_nodes (view b s))) x"
proof -
  let ?ov = "ov_nodes (ss_overlay s)"
  have bs: "case ss_checkpoint s of None \<Rightarrow> om_entries (g_nodes b) = [] | Some c \<Rightarrow> om_entries (g_nodes b) = commit_rows c (tb_cp_nodes d)"
    using assms by (auto simp: base_graph_def checkpoint_holds_def commit_rows_def empty_graph_def om_empty.rep_eq split: option.splits)
  have "snd (visit_nodes d s visitor x) = node_stream.run visitor (om_entries (g_nodes b)) (om_entries ?ov) x"
    using bs by (auto simp: visit_nodes_def node_stream.run_def node_stream.drain_def drain_nodes_def case_prod_unfold
        snd_if_ok case_change split: option.splits intro!: arg_cong2 [where f = and_then])
  also have "\<dots> = fold_res (\<lambda>(n, _) s. snd (visitor n s)) (om_entries (g_nodes (view b s))) x"
    by (subst node_stream.run_overlay [where b = "g_nodes b"])
       (auto simp: om_all_iff view_def overlay_graph_def case_prod_unfold intro!: map_idI)
  finally show ?thesis by (simp add: om_keys_def case_prod_unfold fold_res_map)
qed

lemma visit_labels_view:
  assumes "base_graph P d s b"
  shows "snd (visit_labels_checked d s visitor x) =
    fold_res (\<lambda>k x. snd (visitor (fst k) (snd k) x)) (om_keys (g_labels (view b s))) x"
proof -
  let ?ov = "ov_labels (ss_overlay s)"
  have bs: "case ss_checkpoint s of None \<Rightarrow> om_entries (g_labels b) = [] | Some c \<Rightarrow> om_entries (g_labels b) = commit_rows c (tb_cp_labels d)"
    using assms by (auto simp: base_graph_def checkpoint_holds_def commit_rows_def empty_graph_def om_empty.rep_eq split: option.splits)
  have "snd (visit_labels_checked d s visitor x) = label_stream.run visitor (om_entries (g_labels b)) (om_entries ?ov) x"
    using bs by (auto simp: visit_labels_checked_def label_stream.run_def label_stream.drain_def drain_labels_def case_prod_unfold
        snd_if_ok case_change split: option.splits intro!: arg_cong2 [where f = and_then])
  also have "\<dots> = fold_res (\<lambda>(k, _) s. snd (visitor (fst k) (snd k) s)) (om_entries (g_labels (view b s))) x"
    by (subst label_stream.run_overlay [where b = "g_labels b"])
       (auto simp: om_all_iff view_def overlay_graph_def case_prod_unfold intro!: map_idI)
  finally show ?thesis by (simp add: om_keys_def case_prod_unfold fold_res_map)
qed

lemma visit_relationships_view:
  assumes "base_graph P d s b"
  shows "snd (visit_relationships_checked d s visitor x) = fold_res (\<lambda>r x. snd (visitor r x)) (om_values (g_relationships (view b s))) x"
proof -
  let ?ov = "ov_relationships (ss_overlay s)"
  let ?rows = "case ss_checkpoint s of None \<Rightarrow> [] | Some c \<Rightarrow> commit_rows c (tb_cp_relationships d)"
  have bs: "map (\<lambda>b. (fst b, relationship_from_row (fst b) (snd b))) ?rows = om_entries (g_relationships b)"
    using assms
    by (auto simp: base_graph_def checkpoint_holds_def commit_rows_def empty_graph_def om_empty.rep_eq om_map.rep_eq om_all_def
        list_all_iff case_prod_unfold relationship_from_columns split: option.splits intro!: map_idI)
  have "snd (visit_relationships_checked d s visitor x) = relationship_stream.run visitor ?rows (om_entries ?ov) x"
    by (auto simp: visit_relationships_checked_def relationship_stream.run_def relationship_stream.drain_def drain_relationships_def
        case_prod_unfold snd_if_ok case_change split: option.splits intro!: arg_cong2 [where f = and_then])
  also have "\<dots> = fold_res (\<lambda>(_, r) s. snd (visitor r s)) (om_entries (g_relationships (view b s))) x"
    by (subst relationship_stream.run_overlay [OF bs]) (auto simp: om_all_iff view_def overlay_graph_def case_prod_unfold)
  finally show ?thesis by (simp add: om_values_def case_prod_unfold fold_res_map)
qed

text \<open>Properties: a row of the checkpoint is decoded when no entry of the overlay replaces it.\<close>

definition property_before ::
    "platform \<Rightarrow> (OwnerKind \<Rightarrow> i64 \<Rightarrow> i64 \<Rightarrow> PropertyValue \<Rightarrow> 's \<Rightarrow> 's chk) \<Rightarrow> (i64 \<times> i64 \<times> i64) \<times> PropertyColumns \<Rightarrow>
     ((OwnerKind \<times> i64 \<times> i64) \<times> PropertyDelta) list \<Rightarrow> 's \<Rightarrow> (((OwnerKind \<times> i64 \<times> i64) \<times> PropertyDelta) list \<times> 's) res" where
  "property_before P visitor b overlay s =
     (case b of ((kind, owner, key), row) \<Rightarrow>
       and_then (owner_from_i64 kind) (\<lambda>kind.
       and_then (snd (visit_overlay_through (kind, owner, key) visitor overlay s)) (\<lambda>(replaced, overlay, s).
         if replaced then Inr (overlay, s)
         else and_then (snd (property_from_row P row)) (\<lambda>v.
              and_then (snd (visitor kind owner key v s)) (\<lambda>s. Inr (overlay, s))))))"

definition row_key :: "(i64 \<times> i64 \<times> i64) \<times> PropertyColumns \<Rightarrow> OwnerKind \<times> i64 \<times> i64" where
  "row_key b = (projr (owner_from_i64 (fst (fst b))), snd (fst b))"

definition row_readable :: "platform \<Rightarrow> (i64 \<times> i64 \<times> i64) \<times> PropertyColumns \<Rightarrow> bool" where
  "row_readable P b \<longleftrightarrow> (\<exists>kind v. owner_from_i64 (fst (fst b)) = Inr kind \<and> snd (property_from_row P (snd b)) = Inr v)"

lemma snd_visit_property_delta:
  assumes "wf_delta delta"
  shows "snd (visit_property_delta visitor (kind, owner, key) delta s) =
    (case pd_value delta of None \<Rightarrow> Inr s | Some v \<Rightarrow> snd (visitor kind owner key v s))"
  using assms by (cases "pd_value delta"; cases "pd_op delta") (auto simp: visit_property_delta_def wf_delta_def clone_value_ok)

interpretation property_stream: overlay_stream
  "property_before P visitor" row_key "\<lambda>b. projr (snd (property_from_row P (snd b)))" pd_value
  "\<lambda>k v s. snd (visitor (fst k) (fst (snd k)) (snd (snd k)) v s)" "\<lambda>k c s. snd (visit_property_delta visitor k c s)"
  "row_readable P" wf_delta
  for P :: platform and visitor :: "OwnerKind \<Rightarrow> i64 \<Rightarrow> i64 \<Rightarrow> PropertyValue \<Rightarrow> 's \<Rightarrow> 's chk"
proof unfold_locales
  fix b :: "(i64 \<times> i64 \<times> i64) \<times> PropertyColumns" and c k cs and s :: 's
  assume "row_readable P b"
  then obtain kind owner key row v where b: "b = ((owner_i64 kind, owner, key), row)" "snd (property_from_row P row) = Inr v"
    by (cases b) (auto simp: row_readable_def)
  show "property_before P visitor b [] s = and_then
      (snd (visitor (fst (row_key b)) (fst (snd (row_key b))) (snd (snd (row_key b))) (projr (snd (property_from_row P (snd b)))) s))
      (\<lambda>s. Inr ([], s))"
    by (simp add: b property_before_def row_key_def)
  show "property_before P visitor b ((k, c) # cs) s =
      (if row_key b < k
       then and_then (snd (visitor (fst (row_key b)) (fst (snd (row_key b))) (snd (snd (row_key b)))
              (projr (snd (property_from_row P (snd b)))) s)) (\<lambda>s. Inr ((k, c) # cs, s))
       else and_then (snd (visit_property_delta visitor k c s))
              (\<lambda>s. if k = row_key b then Inr (cs, s) else property_before P visitor b cs s))"
    by (cases k) (auto simp: b property_before_def row_key_def and_then_assoc simp del: and_then_Inr_iff
        intro!: arg_cong2 [where f = and_then])
next
  fix c k and s :: 's
  assume "wf_delta c"
  then show "snd (visit_property_delta visitor k c s) = (case pd_value c of None \<Rightarrow> Inr s
      | Some v \<Rightarrow> snd (visitor (fst k) (fst (snd k)) (snd (snd k)) v s))"
    by (cases k) (auto simp: snd_visit_property_delta split: option.split)
qed

lemma checkpoint_property_rows:
  assumes "checkpoint_holds P d c b"
  shows "map (\<lambda>r. (row_key r, projr (snd (property_from_row P (snd r))))) (commit_rows c (tb_cp_properties d)) =
      om_entries (g_properties b)"
    and "\<forall>r \<in> set (commit_rows c (tb_cp_properties d)). row_readable P r"
proof -
  from assms obtain f where f: "om_slice c (tb_cp_properties d) = om_graft owner_key f (g_properties b) om_empty"
    "om_all (\<lambda>k v. snd (property_from_row P (f k v)) = Inr v) (g_properties b)"
    by (auto simp: checkpoint_holds_def checkpoint_properties_hold_def)
  have rows: "commit_rows c (tb_cp_properties d) = map (\<lambda>(k, v). (owner_key k, f k v)) (om_entries (g_properties b))"
    by (simp add: f(1) commit_rows_def om_entries_graft [OF owner_key_mono])
  have ok: "snd (property_from_row P (f k v)) = Inr v" if "(k, v) \<in> set (om_entries (g_properties b))" for k v
    using f(2) that by (auto simp: om_all_def list_all_iff)
  show "map (\<lambda>r. (row_key r, projr (snd (property_from_row P (snd r))))) (commit_rows c (tb_cp_properties d)) =
      om_entries (g_properties b)"
    unfolding rows using ok by (auto simp: row_key_def owner_key_def case_prod_unfold intro!: map_idI)
  show "\<forall>r \<in> set (commit_rows c (tb_cp_properties d)). row_readable P r"
    unfolding rows using ok by (auto simp: row_readable_def owner_key_def)
qed

lemma visit_properties_view:
  assumes "snapshot_of P d s b g"
  shows "snd (visit_properties_observed P d s visitor x) =
    fold_res (\<lambda>(k, v) x. snd (visitor (fst k) (fst (snd k)) (snd (snd k)) v x)) (om_entries (g_properties g)) x"
proof -
  let ?ov = "ov_properties (ss_overlay s)"
  let ?rows = "case ss_checkpoint s of None \<Rightarrow> [] | Some c \<Rightarrow> commit_rows c (tb_cp_properties d)"
  have g: "g_properties g = om_overlay (g_properties b) (om_map (\<lambda>_. pd_value) ?ov)" and wf: "om_all (\<lambda>_. wf_delta) ?ov"
    using assms snapshot_of_wf_deltas [OF assms] by (auto simp: snapshot_of_def view_def overlay_graph_def)
  have bs: "map (\<lambda>r. (row_key r, projr (snd (property_from_row P (snd r))))) ?rows = om_entries (g_properties b)"
    "\<forall>r \<in> set ?rows. row_readable P r"
    using assms checkpoint_property_rows [of P d _ b]
    by (auto simp: snapshot_of_def base_graph_def empty_graph_def om_empty.rep_eq split: option.splits)
  have before: "snd (visit_checkpoint_properties_observed P d c visitor (os, x)) =
      fold_res (\<lambda>b (os, x). property_before P visitor b os x) (commit_rows c (tb_cp_properties d)) (os, x)" for c os x
    unfolding visit_checkpoint_properties_observed_def snd_chk_fold
    by (rule arg_cong [where f = "\<lambda>f. fold_res f _ _"])
       (auto simp: fun_eq_iff property_before_def snd_if case_prod_unfold simp del: and_then_Inr_iff intro!: arg_cong2 [where f = and_then])
  have "snd (visit_properties_observed P d s visitor x) = property_stream.run P visitor ?rows (om_entries ?ov) x"
    by (auto simp: visit_properties_observed_def property_stream.run_def property_stream.drain_def before case_prod_unfold
        split: option.splits intro!: arg_cong2 [where f = and_then])
  also have "\<dots> = fold_res (\<lambda>(k, v) x. snd (visitor (fst k) (fst (snd k)) (snd (snd k)) v x)) (om_entries (g_properties g)) x"
    unfolding g by (rule property_stream.run_overlay [OF bs(1) bs(2) wf])
  finally show ?thesis .
qed

section \<open>Streams of one owner\<close>

text \<open>The labels of one node, and the properties of one owner.\<close>

definition node_labels :: "graph \<Rightarrow> i64 \<Rightarrow> (i64, unit) omap" where
  "node_labels g n = om_slice n (g_labels g)"

definition owner_properties :: "graph \<Rightarrow> OwnerKind \<Rightarrow> i64 \<Rightarrow> (i64, PropertyValue) omap" where
  "owner_properties g kind n = om_slice n (om_slice kind (g_properties g))"

lemma om_slice_map: "om_slice i (om_map (\<lambda>_. f) m) = om_map (\<lambda>_. f) (om_slice i m)"
  by (rule om_ext) (simp add: fun_eq_iff om_get_map)

lemma om_slice_overlay: "om_slice i (om_overlay b ov) = om_overlay (om_slice i b) (om_slice i ov)"
  by (rule om_ext) (simp add: fun_eq_iff om_get_overlay split: option.split)

lemma in_range_id [simp]: "id_ok i \<Longrightarrow> 0 \<le> i \<and> i \<le> 9223372036854775807"
  by (simp add: id_ok_def in_i64_def)

lemma node_range_slice:
  assumes "om_all (\<lambda>(_, l) _. id_ok l) m"
  shows "node_range n m = om_entries (om_slice n m)"
proof -
  have "filter (\<lambda>((n', label), _). n' = n \<and> 0 \<le> label \<and> label \<le> i64_max) (om_entries m) = filter (\<lambda>((l, _), _). l = n) (om_entries m)"
    using assms by (intro filter_cong) (auto simp: om_all_def list_all_iff dest!: in_range_id)
  then show ?thesis by (simp add: node_range_def om_slice.rep_eq)
qed

lemma owner_range_slice:
  assumes "om_all (\<lambda>(_, _, k) _. id_ok k) m"
  shows "owner_range kind n m = om_entries (om_slice n (om_slice kind m))"
proof -
  have "filter (\<lambda>((k, i, key), _). k = kind \<and> i = n \<and> 0 \<le> key \<and> key \<le> i64_max) (om_entries m) =
      filter (\<lambda>((k, i, _), _). k = kind \<and> i = n) (om_entries m)"
    using assms by (intro filter_cong) (auto simp: om_all_def list_all_iff dest!: in_range_id)
  then show ?thesis
    by (simp add: owner_range_def om_slice.rep_eq filter_map o_def case_prod_unfold conj_commute)
qed

definition label_before :: "(i64 \<Rightarrow> 's \<Rightarrow> 's chk) \<Rightarrow> (i64 \<times> i64) \<times> unit \<Rightarrow> (i64 \<times> DeltaOp) list \<Rightarrow> 's \<Rightarrow> ((i64 \<times> DeltaOp) list \<times> 's) res" where
  "label_before visitor b overlay s =
     and_then (snd (label_overlay_through (snd (fst b)) visitor overlay s)) (\<lambda>(replaced, overlay, s).
       if replaced then Inr (overlay, s) else and_then (snd (visitor (snd (fst b)) s)) (\<lambda>s. Inr (overlay, s)))"

interpretation node_label_stream: overlay_stream
  "label_before visitor" "\<lambda>b. snd (fst b)" "\<lambda>_. ()" op_change "\<lambda>l _ s. snd (visitor l s)"
  "\<lambda>l p s. if p = Add then snd (visitor l s) else Inr s" "\<lambda>_. True" "\<lambda>_. True"
  for visitor :: "i64 \<Rightarrow> 's \<Rightarrow> 's chk"
  by unfold_locales (auto simp: label_before_def op_change_def snd_if_ok and_then_assoc simp del: and_then_Inr_iff
      intro!: arg_cong2 [where f = and_then])

definition owner_before ::
    "platform \<Rightarrow> (i64 \<Rightarrow> PropertyValue \<Rightarrow> 's \<Rightarrow> 's chk) \<Rightarrow> (i64 \<times> i64 \<times> i64) \<times> PropertyColumns \<Rightarrow> (i64 \<times> PropertyDelta) list \<Rightarrow> 's \<Rightarrow>
     ((i64 \<times> PropertyDelta) list \<times> 's) res" where
  "owner_before P visitor b overlay s =
     and_then (snd (owner_overlay_through (snd (snd (fst b))) visitor overlay s)) (\<lambda>(replaced, overlay, s).
       if replaced then Inr (overlay, s)
       else and_then (snd (property_from_row P (snd b))) (\<lambda>v.
            and_then (snd (visitor (snd (snd (fst b))) v s)) (\<lambda>s. Inr (overlay, s))))"

lemma snd_visit_delta_reference:
  assumes "wf_delta delta"
  shows "snd (visit_delta_reference visitor key delta s) = (case pd_value delta of None \<Rightarrow> Inr s | Some v \<Rightarrow> snd (visitor key v s))"
  using assms by (cases "pd_value delta"; cases "pd_op delta") (auto simp: visit_delta_reference_def wf_delta_def)

interpretation owner_stream: overlay_stream
  "owner_before P visitor" "\<lambda>b. snd (snd (fst b))" "\<lambda>b. projr (snd (property_from_row P (snd b)))" pd_value
  "\<lambda>k v s. snd (visitor k v s)" "\<lambda>k c s. snd (visit_delta_reference visitor k c s)" "row_readable P" wf_delta
  for P :: platform and visitor :: "i64 \<Rightarrow> PropertyValue \<Rightarrow> 's \<Rightarrow> 's chk"
  by unfold_locales (auto simp: owner_before_def row_readable_def snd_visit_delta_reference and_then_assoc simp del: and_then_Inr_iff
      intro!: arg_cong2 [where f = and_then])

lemma visit_node_labels_view:
  assumes "snapshot_of P d s b g"
  shows "snd (visit_node_labels_checked d s n visitor x) = fold_res (\<lambda>l x. snd (visitor l x)) (om_keys (node_labels g n)) x"
proof -
  let ?ov = "ov_labels (ss_overlay s)"
  let ?rows = "case ss_checkpoint s of None \<Rightarrow> [] | Some c \<Rightarrow> filter (\<lambda>((n', _), _). n' = n) (commit_rows c (tb_cp_labels d))"
  have ids: "node_range n ?ov = om_entries (om_slice n ?ov)"
    using assms by (intro node_range_slice) (auto simp: snapshot_of_def wf_layer_iff overlay_layer_def om_all_iff)
  have g: "node_labels g n = om_overlay (om_slice n (g_labels b)) (om_map (\<lambda>_. op_change) (om_slice n ?ov))"
    using assms by (auto simp: snapshot_of_def view_def overlay_graph_def node_labels_def om_slice_overlay om_slice_map)
  have bs: "map (\<lambda>b. (snd (fst b), ())) ?rows = om_entries (om_slice n (g_labels b))"
  proof (cases "ss_checkpoint s")
    case None
    then have "b = empty_graph" using assms by (simp add: snapshot_of_def base_graph_def)
    then show ?thesis using None by (simp add: empty_graph_def om_slice.rep_eq om_empty.rep_eq)
  next
    case (Some c)
    then have "commit_rows c (tb_cp_labels d) = om_entries (g_labels b)"
      using assms by (auto simp: snapshot_of_def base_graph_def checkpoint_holds_def commit_rows_def)
    then show ?thesis using Some by (simp add: om_slice.rep_eq case_prod_unfold)
  qed
  have "snd (visit_node_labels_checked d s n visitor x) = node_label_stream.run visitor ?rows (om_entries (om_slice n ?ov)) x"
    unfolding visit_node_labels_checked_def ids
    by (auto simp: node_label_stream.run_def node_label_stream.drain_def visit_base_node_labels_def label_before_def case_prod_unfold
        snd_if split: option.splits cong: if_cong)
  also have "\<dots> = fold_res (\<lambda>(l, _) s. snd (visitor l s)) (om_entries (node_labels g n)) x"
    unfolding g by (subst node_label_stream.run_overlay [OF bs]) (auto simp: om_all_iff)
  finally show ?thesis by (simp add: om_keys_def case_prod_unfold fold_res_map)
qed

end
