(* ===== verification/Snapshot_Spec.thy ===== *)
theory Snapshot_Spec
  imports Snapshot_Views "HOL-Library.Multiset"
begin

text \<open>
  The reads of one element (its labels, its properties, its relationships), the page cache, and the theorems on
  snapshots: whichever checkpoint a snapshot starts from, every read returns what the history of its commit says.
\<close>

section \<open>Labels and properties of one element\<close>

lemma visit_owner_properties_view:
  assumes "snapshot_of P d s b g"
  shows "snd (visit_owner_properties_checked P d s kind n visitor x) =
    fold_res (\<lambda>(k, v) x. snd (visitor k v x)) (om_entries (owner_properties g kind n)) x"
proof -
  let ?ov = "ov_properties (ss_overlay s)"
  let ?rows = "case ss_checkpoint s of None \<Rightarrow> []
    | Some c \<Rightarrow> filter (\<lambda>((k, i, _), _). k = owner_i64 kind \<and> i = n) (commit_rows c (tb_cp_properties d))"
  let ?sl = "\<lambda>m. om_slice n (om_slice kind m)"
  have ids: "owner_range kind n ?ov = om_entries (?sl ?ov)"
    using assms by (intro owner_range_slice) (auto simp: snapshot_of_def wf_layer_iff overlay_layer_def om_all_iff)
  have g: "owner_properties g kind n = om_overlay (?sl (g_properties b)) (om_map (\<lambda>_. pd_value) (?sl ?ov))"
    using assms by (auto simp: snapshot_of_def view_def overlay_graph_def owner_properties_def om_slice_overlay om_slice_map)
  have wf: "om_all (\<lambda>_. wf_delta) (?sl ?ov)"
    using snapshot_of_wf_deltas [OF assms] by (auto simp: om_all_iff)
  have bs: "map (\<lambda>r. (snd (snd (fst r)), projr (snd (property_from_row P (snd r))))) ?rows = om_entries (?sl (g_properties b))
      \<and> (\<forall>r \<in> set ?rows. row_readable P r)"
  proof (cases "ss_checkpoint s")
    case None
    then have "b = empty_graph" using assms by (simp add: snapshot_of_def base_graph_def)
    then show ?thesis using None by (simp add: empty_graph_def om_slice.rep_eq om_empty.rep_eq)
  next
    case (Some c)
    then have h: "checkpoint_holds P d c b" using assms by (simp add: snapshot_of_def base_graph_def)
    let ?rs = "commit_rows c (tb_cp_properties d)"
    have "(\<lambda>((k, i, _), _). k = owner_i64 kind \<and> i = n) r \<longleftrightarrow> fst (row_key r) = kind \<and> fst (snd (row_key r)) = n"
      if "row_readable P r" for r
      using that by (cases r) (auto simp: row_readable_def row_key_def)
    note keys = this [OF checkpoint_property_rows(2) [OF h, rule_format]]
    have "om_entries (?sl (g_properties b)) =
        map (\<lambda>kv. (snd (snd (fst kv)), snd kv)) (filter (\<lambda>kv. fst (fst kv) = kind \<and> fst (snd (fst kv)) = n) (om_entries (g_properties b)))"
      by (simp add: om_slice.rep_eq filter_map o_def case_prod_unfold conj_commute)
    also have "\<dots> = map (\<lambda>r. (snd (snd (fst r)), projr (snd (property_from_row P (snd r)))))
        (filter (\<lambda>r. fst (row_key r) = kind \<and> fst (snd (row_key r)) = n) ?rs)"
      unfolding checkpoint_property_rows(1) [OF h, symmetric] by (simp add: filter_map o_def row_key_def)
    also have "filter (\<lambda>r. fst (row_key r) = kind \<and> fst (snd (row_key r)) = n) ?rs =
        filter (\<lambda>((k, i, _), _). k = owner_i64 kind \<and> i = n) ?rs"
      by (rule filter_cong [OF refl]) (rule keys [symmetric])
    finally show ?thesis using Some checkpoint_property_rows(2) [OF h] by simp
  qed
  have "snd (visit_owner_properties_checked P d s kind n visitor x) = owner_stream.run P visitor ?rows (om_entries (?sl ?ov)) x"
    unfolding visit_owner_properties_checked_def ids
    by (auto simp: owner_stream.run_def owner_stream.drain_def visit_owner_base_properties_def owner_before_def case_prod_unfold
        snd_if split: option.splits cong: if_cong)
  also have "\<dots> = fold_res (\<lambda>(k, v) x. snd (visitor k v x)) (om_entries (owner_properties g kind n)) x"
    unfolding g using bs wf by (intro owner_stream.run_overlay) auto
  finally show ?thesis .
qed

lemma fold_res_copy:
  assumes "\<forall>kv \<in> set kvs. wf_value (snd kv)"
  shows "fold_res (\<lambda>(k, v) out. snd (chk_then check (\<lambda>_. chk_then (clone_value_checked v) (\<lambda>v. chk_ok (out @ [(k, v)]))))) kvs out =
    Inr (out @ kvs)"
  using assms by (induction kvs arbitrary: out) (simp_all add: case_prod_unfold clone_value_ok)

lemma properties_view:
  assumes "snapshot_of P d s b g"
  shows "properties P d s kind n = Inr (om_entries (owner_properties g kind n))"
proof -
  have "wf_value v" if "(k, v) \<in> set (om_entries (owner_properties g kind n))" for k v
    using snapshot_of_graph_ok [OF assms] that by (auto simp: graph_ok_def om_all_iff om_entries_iff owner_properties_def)
  then show ?thesis unfolding properties_def visit_owner_properties_view [OF assms] by (subst fold_res_copy) auto
qed

lemma overlay_fold_labels:
  "fold (\<lambda>((_, label), p) m. case p of Add \<Rightarrow> om_put label () m | Remove \<Rightarrow> om_del label m) kps base =
   fold (\<lambda>(k, c). case c of None \<Rightarrow> om_del k | Some v \<Rightarrow> om_put k v) (map (\<lambda>((_, label), p). (label, op_change p)) kps) base"
  by (induction kps arbitrary: base) (auto simp: op_change_def split: DeltaOp.splits)

lemma labels_base_get:
  "om_get (fold (\<lambda>((n, label), _) m. if \<not> om_has ov (node, label) then om_put label () m else m) kvs m) l =
   (if om_has ov (node, l) then om_get m l else if l \<in> (\<lambda>kv. snd (fst kv)) ` set kvs then Some () else om_get m l)"
  by (induction kvs arbitrary: m) auto

lemma labels_view:
  assumes "snapshot_of P d s b g"
  shows "labels d s n = Inr (om_keys (node_labels g n))"
proof -
  let ?ov = "ov_labels (ss_overlay s)"
  define base where "base = (case ss_checkpoint s of None \<Rightarrow> om_empty
    | Some c \<Rightarrow> fold (\<lambda>((n', label), _) m. if \<not> om_has ?ov (n, label) then om_put label () m else m)
        (filter (\<lambda>((n', _), _). n' = n) (commit_rows c (tb_cp_labels d))) om_empty)"
  have base: "om_get base l = om_get (g_labels b) (n, l)" if free: "\<not> om_has ?ov (n, l)" for l
  proof (cases "ss_checkpoint s")
    case None
    with assms show ?thesis by (simp add: base_def snapshot_of_def base_graph_def empty_graph_def)
  next
    case (Some c)
    then have rows: "commit_rows c (tb_cp_labels d) = om_entries (g_labels b)"
      using assms by (auto simp: snapshot_of_def base_graph_def checkpoint_holds_def commit_rows_def)
    have "l \<in> (\<lambda>kv. snd (fst kv)) ` set (filter (\<lambda>((n', _), _). n' = n) (om_entries (g_labels b))) \<longleftrightarrow> om_get (g_labels b) (n, l) = Some ()"
      by (force simp: om_entries_iff image_iff)
    with free Some rows show ?thesis
      by (cases "om_get (g_labels b) (n, l)") (simp_all add: base_def labels_base_get)
  qed
  have ids: "node_range n ?ov = om_entries (om_slice n ?ov)"
    using assms by (intro node_range_slice) (auto simp: snapshot_of_def wf_layer_iff overlay_layer_def om_all_iff)
  have "labels d s n = Inr (om_keys (om_overlay base (om_map (\<lambda>_. op_change) (om_slice n ?ov))))"
    unfolding labels_def Let_def base_def [symmetric] overlay_fold_labels om_overlay_def om_map.rep_eq ids [symmetric] node_range_def
    by (simp add: case_prod_unfold o_def)
  also have "om_overlay base (om_map (\<lambda>_. op_change) (om_slice n ?ov)) = node_labels g n"
    using assms base
    by (intro om_ext) (auto simp: om_has_def snapshot_of_def node_labels_def fun_eq_iff om_get_overlay om_get_map view_get split: option.splits)
  finally show ?thesis .
qed

section \<open>Relationships of one node\<close>

text \<open>The relationships of a graph at one end of a node, of one type or of all, in the order of the lists.\<close>

definition adjacent :: "graph \<Rightarrow> i64 \<Rightarrow> i64 option \<Rightarrow> Direction \<Rightarrow> RelationshipRecord list" where
  "adjacent g n ty direction =
     sort_key (adjacency_sort_key direction)
       (filter (\<lambda>r. adjacency_node direction r = n \<and> (ty = None \<or> ty = Some (type_id r))) (om_values (g_relationships g)))"

definition adjacency_key :: "Direction \<Rightarrow> RelationshipRecord \<Rightarrow> i64 \<times> i64 \<times> i64 \<times> i64" where
  "adjacency_key direction r = (adjacency_node direction r, adjacency_sort_key direction r)"

definition adjacency_index :: "Direction \<Rightarrow> Overlay \<Rightarrow> (i64 \<times> i64 \<times> i64 \<times> i64, RelationshipDelta) omap" where
  "adjacency_index direction ov = (case direction of Outgoing \<Rightarrow> ov_outgoing ov | Incoming \<Rightarrow> ov_incoming ov)"

lemma adjacency_indexed:
  assumes "overlay_ok ov"
  shows "om_get (adjacency_index direction ov) k = Some delta \<longleftrightarrow>
    om_get (ov_relationships ov) (rel_id (rd_record delta)) = Some delta \<and> k = adjacency_key direction (rd_record delta)"
proof -
  have id: "rel_id (rd_record x) = i" if "om_get (ov_relationships ov) i = Some x" for i x
    using assms that by (auto simp: overlay_ok_def om_all_iff)
  have "indexed_by (\<lambda>(_, _, _, i). i) (\<lambda>k r. k = adjacency_key direction r) (adjacency_index direction ov) (ov_relationships ov)"
    using assms by (cases direction) (auto simp: overlay_ok_def adjacency_index_def adjacency_key_def adjacency_node_def
        adjacency_sort_key_def outgoing_key_def incoming_key_def)
  then have get: "om_get (adjacency_index direction ov) k = (case om_get (ov_relationships ov) (snd (snd (snd k))) of None \<Rightarrow> None
      | Some delta \<Rightarrow> if k = adjacency_key direction (rd_record delta) then Some delta else None)"
    by (cases k) (simp add: indexed_by_def split: option.splits)
  have last: "snd (snd (snd (adjacency_key direction r))) = rel_id r" for r
    by (simp add: adjacency_key_def adjacency_sort_key_def split: Direction.split)
  show ?thesis
  proof
    assume "om_get (adjacency_index direction ov) k = Some delta"
    then have "om_get (ov_relationships ov) (snd (snd (snd k))) = Some delta" "k = adjacency_key direction (rd_record delta)"
      unfolding get by (auto split: option.splits if_splits simp del: split_paired_All split_paired_Ex)
    with id show "om_get (ov_relationships ov) (rel_id (rd_record delta)) = Some delta \<and> k = adjacency_key direction (rd_record delta)"
      by simp
  next
    assume "om_get (ov_relationships ov) (rel_id (rd_record delta)) = Some delta \<and> k = adjacency_key direction (rd_record delta)"
    then show "om_get (adjacency_index direction ov) k = Some delta" unfolding get by (simp add: last)
  qed
qed

lemma adjacency_range:
  assumes "id_ok t" "id_ok o'" "id_ok i"
  shows "((n::i64), lo, 0, 0) \<le> (m, t, o', i) \<and> (m, t, o', i) \<le> (n, hi, i64_max, i64_max) \<longleftrightarrow> m = n \<and> lo \<le> t \<and> t \<le> hi"
  using assms by (auto simp: id_ok_def in_i64_def)

lemma adjacency_key_range:
  assumes "wf_relationship r"
  shows "(n, case ty of None \<Rightarrow> 0 | Some t \<Rightarrow> t, 0, 0) \<le> adjacency_key direction r
      \<and> adjacency_key direction r \<le> (n, case ty of None \<Rightarrow> i64_max | Some t \<Rightarrow> t, i64_max, i64_max)
    \<longleftrightarrow> adjacency_node direction r = n \<and> (ty = None \<or> ty = Some (type_id r))"
proof -
  have k: "adjacency_key direction r = (adjacency_node direction r, type_id r,
      (case direction of Outgoing \<Rightarrow> target r | Incoming \<Rightarrow> source r), rel_id r)"
    by (simp add: adjacency_key_def adjacency_sort_key_def split: Direction.split)
  show ?thesis unfolding k
    using assms by (subst adjacency_range) (auto simp: wf_relationship_def id_ok_def in_i64_def split: option.splits Direction.splits)
qed

lemma checkpoint_relationships_view:
  "checkpoint_holds P d c b \<Longrightarrow> checkpoint_relationships d c = om_values (g_relationships b)"
  by (auto simp: checkpoint_holds_def checkpoint_relationships_def commit_rows_def om_map.rep_eq om_values_def om_all_def
      list_all_iff case_prod_unfold relationship_from_columns)

lemma values_by_id:
  assumes "om_all (\<lambda>i r. rel_id r = i) m"
  shows "set (om_values m) = {r. om_get m (rel_id r) = Some r}" "distinct (om_values m)"
proof -
  have id: "rel_id r = i" if "om_get m i = Some r" for i r using assms that by (auto simp: om_all_iff)
  have "set (om_values m) = {r. \<exists>i. om_get m i = Some r}"
    by (auto simp: om_values_def simp flip: om_entries_iff intro: rev_image_eqI)
  with id show "set (om_values m) = {r. om_get m (rel_id r) = Some r}" by blast
  have "map rel_id (om_values m) = om_keys m"
    using assms by (auto simp: om_values_def om_keys_def om_all_def list_all_iff)
  then show "distinct (om_values m)" by (metis distinct_map distinct_om_keys(2))
qed

lemma base_adjacency_set:
  assumes "base_graph P d s b" "om_all (\<lambda>i r. rel_id r = i) (g_relationships b)"
  shows "\<exists>rs. base_adjacency d s n ty direction = Inr rs \<and> distinct rs \<and>
    set rs = {r. om_get (g_relationships b) (rel_id r) = Some r \<and> adjacency_node direction r = n \<and> (ty = None \<or> ty = Some (type_id r))}"
proof (cases "ss_checkpoint s")
  case None
  with assms(1) show ?thesis by (simp add: base_adjacency_def base_graph_def empty_graph_def)
next
  case (Some c)
  with assms(1) have "checkpoint_relationships d c = om_values (g_relationships b)"
    by (simp add: base_graph_def checkpoint_relationships_view)
  with Some values_by_id [OF assms(2)] show ?thesis
    by (cases ty) (auto simp: base_adjacency_def query_base_adjacency_typed_def query_base_adjacency_all_def)
qed

lemma added_record: "rd_op delta = Add \<Longrightarrow> delta = \<lparr>rd_op = Add, rd_record = rd_record delta\<rparr>"
  by simp

lemma adjacency_view:
  assumes "snapshot_of P d s b g"
  shows "adjacency d s n ty direction = Inr (adjacent g n ty direction)"
proof -
  let ?at = "\<lambda>r. adjacency_node direction r = n \<and> (ty = None \<or> ty = Some (type_id r))"
  let ?ov = "ov_relationships (ss_overlay s)" and ?index = "om_entries (adjacency_index direction (ss_overlay s))"
  have ok: "overlay_ok (ss_overlay s)" and base: "base_graph P d s b" and g: "g = view b s"
    and ids: "om_all (\<lambda>i r. rel_id r = i) (g_relationships b)" "om_all (\<lambda>i r. rel_id r = i) (g_relationships g)"
    using assms snapshot_of_graph_ok [OF assms] by (auto simp: snapshot_of_def graph_ok_def om_all_iff)
  obtain rs where rs: "base_adjacency d s n ty direction = Inr rs" "distinct rs"
    "set rs = {r. om_get (g_relationships b) (rel_id r) = Some r \<and> ?at r}"
    using base_adjacency_set [OF base ids(1)] by blast
  let ?records = "filter (\<lambda>r. \<not> om_has ?ov (rel_id r)) rs"
  define range where "range = (\<lambda>k. (n, case ty of None \<Rightarrow> 0 | Some t \<Rightarrow> t, 0, 0) \<le> k \<and>
      k \<le> (n, case ty of None \<Rightarrow> i64_max | Some t \<Rightarrow> t, i64_max, i64_max))"
  let ?added = "map (\<lambda>(_, delta). rd_record delta) (filter (\<lambda>(k, delta). range k \<and> rd_op delta = Add) ?index)"
  have "map (adjacency_key direction) ?added = map fst (filter (\<lambda>(k, delta). range k \<and> rd_op delta = Add) ?index)"
    using adjacency_indexed [OF ok] by (auto simp: om_entries_iff)
  then have d2: "distinct ?added" by (metis distinct_map distinct_map_filter distinct_om_keys(1))
  have wf: "wf_relationship (rd_record delta)" if "om_get ?ov i = Some delta" for i delta
    using assms that by (auto simp: snapshot_of_def wf_layer_iff overlay_layer_def om_all_iff)
  have rng: "range (adjacency_key direction r) \<longleftrightarrow> ?at r" if "wf_relationship r" for r
    unfolding range_def using that by (rule adjacency_key_range)
  have added: "r \<in> set ?added \<longleftrightarrow> om_get ?ov (rel_id r) = Some \<lparr>rd_op = Add, rd_record = r\<rparr> \<and> ?at r" for r
  proof -
    have "r \<in> set ?added \<longleftrightarrow> (\<exists>delta. om_get ?ov (rel_id r) = Some delta \<and> rd_record delta = r \<and> rd_op delta = Add \<and> range (adjacency_key direction r))"
    proof
      assume "r \<in> set ?added"
      then obtain k delta where "om_get (adjacency_index direction (ss_overlay s)) k = Some delta" "rd_record delta = r"
        "rd_op delta = Add" "range k"
        by (auto simp: om_entries_iff)
      with adjacency_indexed [OF ok, of direction k delta]
      show "\<exists>delta. om_get ?ov (rel_id r) = Some delta \<and> rd_record delta = r \<and> rd_op delta = Add \<and> range (adjacency_key direction r)" by auto
    next
      assume "\<exists>delta. om_get ?ov (rel_id r) = Some delta \<and> rd_record delta = r \<and> rd_op delta = Add \<and> range (adjacency_key direction r)"
      then obtain delta where "(adjacency_key direction r, delta) \<in> set ?index" "range (adjacency_key direction r)" "rd_op delta = Add"
        "rd_record delta = r"
        using adjacency_indexed [OF ok] by (auto simp: om_entries_iff)
      then show "r \<in> set ?added" 
        by (auto simp del: split_paired_Ex intro!: image_eqI [where x = "(adjacency_key direction r, delta)"])
    qed
    also have "\<dots> \<longleftrightarrow> om_get ?ov (rel_id r) = Some \<lparr>rd_op = Add, rd_record = r\<rparr> \<and> ?at r"
      using rng wf [of "rel_id r"] by (auto dest: added_record)
    finally show ?thesis .
  qed
  have "om_get (g_relationships g) (rel_id r) = Some r \<longleftrightarrow>
      \<not> om_has ?ov (rel_id r) \<and> om_get (g_relationships b) (rel_id r) = Some r \<or> om_get ?ov (rel_id r) = Some \<lparr>rd_op = Add, rd_record = r\<rparr>" for r
    by (cases "om_get ?ov (rel_id r)") (auto simp: g view_get relationship_change_def om_has_def dest: added_record)
  then have set: "set (?records @ ?added) = set (filter ?at (om_values (g_relationships g)))"
    using rs(3) added values_by_id(1) [OF ids(2)] by (auto simp del: set_map)
  have "distinct (?records @ ?added)"
    using rs(2) d2 added by (auto simp: om_has_def simp del: set_map)
  then have "mset (?records @ ?added) = mset (filter ?at (om_values (g_relationships g)))"
    by (rule iffD1 [OF set_eq_iff_mset_eq_distinct [OF _ distinct_filter [OF values_by_id(2) [OF ids(2)]]] set])
  moreover have "inj_on (adjacency_sort_key direction) (set (?records @ ?added))"
    unfolding set values_by_id(1) [OF ids(2)] set_filter
  proof (rule inj_onI)
    fix r r' assume r: "r \<in> {r \<in> {r. om_get (g_relationships g) (rel_id r) = Some r}. ?at r}"
      "r' \<in> {r \<in> {r. om_get (g_relationships g) (rel_id r) = Some r}. ?at r}"
    assume "adjacency_sort_key direction r = adjacency_sort_key direction r'"
    then have "rel_id r = rel_id r'" by (cases direction) (simp_all add: adjacency_sort_key_def)
    with r show "r = r'" by simp
  qed
  ultimately have "sort_key (adjacency_sort_key direction) (?records @ ?added) = adjacent g n ty direction"
    unfolding adjacent_def by (intro sort_key_inj_key_eq) simp_all
  then show ?thesis
    by (simp add: adjacency_def rs(1) Let_def range_def adjacency_index_def conj_assoc)
qed

section \<open>The page cache\<close>

definition cache_holds :: "(OwnerKind \<times> i64 \<times> i64, PropertyValue) omap \<Rightarrow> property_cache \<Rightarrow> bool" where
  "cache_holds m cache \<longleftrightarrow> om_all (\<lambda>k v. v = om_get m k) cache"

lemma reserve_prefetch_slots_get:
  "om_get (snd (reserve_prefetch_slots kind owners keys cache)) q =
     (if om_get cache q = None \<and> q \<in> {kind} \<times> set owners \<times> set keys then Some None else om_get cache q)"
  "\<not> fst (reserve_prefetch_slots kind owners keys cache) \<Longrightarrow> snd (reserve_prefetch_slots kind owners keys cache) = cache"
proof -
  define step :: "i64 \<Rightarrow> i64 \<Rightarrow> bool \<times> property_cache \<Rightarrow> bool \<times> property_cache" where "step = (\<lambda>owner key (added, cache). if om_has cache (kind, owner, key) then (added, cache)
      else (True, om_put (kind, owner, key) None cache))"
  have inner: "om_get (snd (fold (step owner) ks acc)) q =
      (if om_get (snd acc) q = None \<and> q \<in> {kind} \<times> {owner} \<times> set ks then Some None else om_get (snd acc) q)" for ks owner acc q
    by (induction ks arbitrary: acc) (auto simp: step_def om_has_def split: prod.splits)
  have inner_same: "fst acc \<longrightarrow> fst (fold (step owner) ks acc)"
      "\<not> fst (fold (step owner) ks acc) \<Longrightarrow> snd (fold (step owner) ks acc) = snd acc" for ks owner acc
    by (induction ks arbitrary: acc) (auto simp: step_def split: prod.splits)
  have outer: "om_get (snd (fold (\<lambda>owner. fold (step owner) keys) os acc)) q =
      (if om_get (snd acc) q = None \<and> q \<in> {kind} \<times> set os \<times> set keys then Some None else om_get (snd acc) q)" for os acc q
    by (induction os arbitrary: acc) (auto simp: inner)
  have outer_same: "fst acc \<longrightarrow> fst (fold (\<lambda>owner. fold (step owner) keys) os acc)"
      "\<not> fst (fold (\<lambda>owner. fold (step owner) keys) os acc) \<Longrightarrow> snd (fold (\<lambda>owner. fold (step owner) keys) os acc) = snd acc" for os acc
  proof -
    let ?F = "\<lambda>os acc. fold (\<lambda>owner. fold (step owner) keys) os acc"
    have "(fst acc \<longrightarrow> fst (?F os acc)) \<and> (\<not> fst (?F os acc) \<longrightarrow> snd (?F os acc) = snd acc)" for acc
    proof (induction os arbitrary: acc)
      case (Cons o' os)
      show ?case using Cons.IH [of "fold (step o') keys acc"] inner_same [where acc = acc and owner = o' and ks = keys] by auto
    qed simp
    then show "fst acc \<longrightarrow> fst (?F os acc)" "\<not> fst (?F os acc) \<Longrightarrow> snd (?F os acc) = snd acc" by blast+
  qed
  have r: "reserve_prefetch_slots kind owners keys cache = fold (\<lambda>owner. fold (step owner) keys) owners (False, cache)"
    by (simp add: reserve_prefetch_slots_def step_def case_prod_unfold)
  show "om_get (snd (reserve_prefetch_slots kind owners keys cache)) q =
     (if om_get cache q = None \<and> q \<in> {kind} \<times> set owners \<times> set keys then Some None else om_get cache q)"
    unfolding r outer by simp
  show "\<not> fst (reserve_prefetch_slots kind owners keys cache) \<Longrightarrow> snd (reserve_prefetch_slots kind owners keys cache) = cache"
    unfolding r using outer_same(2) [of owners "(False, cache)"] by simp
qed

lemma prefetch_rows_get:
  assumes "\<forall>r \<in> set rows. om_has cache (kind, fst r) \<and>
    (\<exists>v. snd (property_from_row P (snd r)) = Inr v \<and> om_get m (kind, fst r) = Some v)"
  shows "fst (prefetch_rows P kind rows cache) = Inr ()
    \<and> (\<forall>q. om_get (snd (prefetch_rows P kind rows cache)) q = (if q \<in> (\<lambda>r. (kind, fst r)) ` set rows then Some (om_get m q) else om_get cache q))"
  using assms
proof (induction rows arbitrary: cache)
  case (Cons r rows)
  obtain owner key row where r: "r = ((owner, key), row)" by (metis prod.exhaust)
  with Cons.prems obtain v where v: "snd (property_from_row P row) = Inr v" "om_get m (kind, owner, key) = Some v"
    "om_has cache (kind, owner, key)" by auto
  from Cons.prems have "\<forall>r \<in> set rows. om_has (om_put (kind, owner, key) (Some v) cache) (kind, fst r) \<and>
    (\<exists>v. snd (property_from_row P (snd r)) = Inr v \<and> om_get m (kind, fst r) = Some v)" by (auto simp: om_has_def)
  from Cons.IH [OF this] r v show ?case by auto
qed simp

lemma prefetch_property_chunk_ok:
  assumes "checkpoint_holds P d c b" "cache_holds (g_properties b) cache"
  shows "fst (prefetch_property_chunk P d c kind owners keys cache) = Inr ()
    \<and> cache_holds (g_properties b) (snd (prefetch_property_chunk P d c kind owners keys cache))"
proof -
  obtain added cache' where res: "reserve_prefetch_slots kind owners keys cache = (added, cache')" by fastforce
  note get = reserve_prefetch_slots_get(1) [of kind owners keys cache, unfolded res snd_conv]
  define rows where "rows = map (\<lambda>((_, owner, key), row). ((owner, key), row))
     (filter (\<lambda>((k, owner, key), _). k = owner_i64 kind \<and> owner \<in> set owners \<and> key \<in> set keys) (commit_rows c (tb_cp_properties d)))"
  have row: "r \<in> set rows \<longleftrightarrow> fst (fst r) \<in> set owners \<and> snd (fst r) \<in> set keys \<and> om_get (tb_cp_properties d) (c, owner_key (kind, fst r)) = Some (snd r)" for r
    by (cases r) (force simp: rows_def commit_rows_def om_entries_iff owner_key_def)
  have rows_ok: "\<forall>r \<in> set rows. om_has cache' (kind, fst r) \<and>
    (\<exists>v. snd (property_from_row P (snd r)) = Inr v \<and> om_get (g_properties b) (kind, fst r) = Some v)"
    using checkpoint_property [OF assms(1)] by (fastforce simp: row get om_has_def)
  have mem: "(kind, o', k) \<in> (\<lambda>r. (kind, fst r)) ` set rows" if "om_get (g_properties b) (kind, o', k) = Some v" "o' \<in> set owners" "k \<in> set keys" for o' k v
  proof -
    note key = that
    obtain r where "om_get (tb_cp_properties d) (c, owner_key (kind, o', k)) = Some r"
      using checkpoint_property_row [OF assms(1), of "(kind, o', k)"] key(1)
      by (cases "om_get (tb_cp_properties d) (c, owner_key (kind, o', k))") auto
    with key(2,3) show ?thesis by (intro image_eqI [where x = "((o', k), r)"]) (simp_all add: row)
  qed
  show ?thesis
  proof (cases added)
    case True
    then have chunk: "prefetch_property_chunk P d c kind owners keys cache = prefetch_rows P kind rows cache'"
      by (simp add: prefetch_property_chunk_def res rows_def)
    have "x = om_get (g_properties b) q" if "om_get (snd (prefetch_rows P kind rows cache')) q = Some x" for q x
    proof (cases "q \<in> (\<lambda>r. (kind, fst r)) ` set rows")
      case True
      then show ?thesis using that prefetch_rows_get [OF rows_ok] by simp
    next
      case False
      then have q: "om_get cache' q = Some x" using that prefetch_rows_get [OF rows_ok] by simp
      show ?thesis
      proof (cases "om_get cache q")
        case None
        with q obtain o' k where "q = (kind, o', k)" "o' \<in> set owners" "k \<in> set keys" "x = None" unfolding get by (auto split: if_splits)
        with mem False show ?thesis by (cases "om_get (g_properties b) q") auto
      next
        case (Some y)
        with q have "om_get cache q = Some x" unfolding get by simp
        with assms(2) show ?thesis unfolding cache_holds_def by (rule om_allD)
      qed
    qed
    then show ?thesis using prefetch_rows_get [OF rows_ok] by (simp add: chunk cache_holds_def om_all_iff)
  next
    case False
    then show ?thesis using assms(2) reserve_prefetch_slots_get(2) [of kind owners keys cache]
      by (simp add: prefetch_property_chunk_def res)
  qed
qed

lemma prefetch_loop_ok:
  assumes "checkpoint_holds P d c b" "cache_holds (g_properties b) cache"
  shows "fst (prefetch_loop P d c kind pages cache) = Inr () \<and> cache_holds (g_properties b) (snd (prefetch_loop P d c kind pages cache))"
  using assms(2)
proof (induction pages arbitrary: cache)
  case (Cons page pages)
  obtain owners keys where page: "page = (owners, keys)" by fastforce
  obtain r cache' where chunk: "prefetch_property_chunk P d c kind owners keys cache = (r, cache')" by fastforce
  with prefetch_property_chunk_ok [OF assms(1) Cons.prems, of kind owners keys] Cons.IH [of cache'] page show ?case by auto
qed simp

lemma prefetch_properties_ok:
  assumes "snapshot_of P d s b g" "cache_ok b s"
  shows "fst (prefetch_properties P d kind owners keys s) = Inr ()"
    and "snapshot_of P d (snd (prefetch_properties P d kind owners keys s)) b g"
    and "cache_ok b (snd (prefetch_properties P d kind owners keys s))"
proof -
  obtain r cache where loop: "r = Inr () \<and> cache_ok b (s\<lparr>ss_property_cache := cache\<rparr>)"
    "prefetch_properties P d kind owners keys s = (r, s\<lparr>ss_property_cache := cache\<rparr>) \<or> prefetch_properties P d kind owners keys s = (Inr (), s)"
  proof (cases "ss_checkpoint s")
    case None
    then show ?thesis using assms(2) that [of "Inr ()" "ss_property_cache s"] by (simp add: prefetch_properties_def)
  next
    case (Some c)
    then have h: "checkpoint_holds P d c b" using assms(1) by (simp add: snapshot_of_def base_graph_def)
    obtain r cache where "prefetch_loop P d c kind (concat (map (\<lambda>o'. map (\<lambda>k. (o', k)) (chunks 16 keys)) (chunks 128 owners))) om_empty = (r, cache)"
      by fastforce
    with prefetch_loop_ok [OF h, of om_empty kind "concat (map (\<lambda>o'. map (\<lambda>k. (o', k)) (chunks 16 keys)) (chunks 128 owners))"] Some
    show ?thesis by (intro that [of r cache]) (auto simp: prefetch_properties_def cache_ok_def cache_holds_def)
  qed
  then show "fst (prefetch_properties P d kind owners keys s) = Inr ()"
    "snapshot_of P d (snd (prefetch_properties P d kind owners keys s)) b g"
    "cache_ok b (snd (prefetch_properties P d kind owners keys s))"
    using assms by (auto simp: snapshot_of_def base_graph_def view_def)
qed

end
