(* ===== verification/Snapshot_Theorems.thy ===== *)
theory Snapshot_Theorems
  imports Snapshot_Spec
begin

text \<open>
  The theorems on snapshots: resolution succeeds on every commit with a well-formed history, every read returns
  what that history says, caching changes nothing, and the semantic hash does not depend on checkpoints.
\<close>

section \<open>The semantic hash\<close>

text \<open>What the semantic hash is taken of, from the graph alone.\<close>

definition graph_hash_input :: "graph \<Rightarrow> bytes res" where
  "graph_hash_input g =
     and_then (map_res (\<lambda>((kind, owner, key), v). and_then (canonical_bytes v) (\<lambda>b.
         Inr (ascii ''P'' @ i64_bytes (owner_i64 kind) @ i64_bytes owner @ i64_bytes key @ b))) (om_entries (g_properties g))) (\<lambda>ps.
     Inr (ascii ''LITHOGRAPH_SNAPSHOT_V1''
        @ concat (map (\<lambda>n. ascii ''N'' @ i64_bytes n) (om_keys (g_nodes g)))
        @ concat (map (\<lambda>(n, l). ascii ''L'' @ i64_bytes n @ i64_bytes l) (om_keys (g_labels g)))
        @ concat (map (\<lambda>r. ascii ''R'' @ i64_bytes (rel_id r) @ i64_bytes (source r) @ i64_bytes (type_id r)
            @ i64_bytes (target r)) (om_values (g_relationships g)))
        @ concat ps))"

lemma fold_append: "fold (\<lambda>x h. h @ f x) xs h = h @ concat (map f xs)"
  by (induction xs arbitrary: h) simp_all

lemma fold_res_append_res:
  "fold_res (\<lambda>x h. and_then (f x) (\<lambda>b. Inr (h @ b))) xs h = and_then (map_res f xs) (\<lambda>bs. Inr (h @ concat bs))"
proof (induction xs arbitrary: h)
  case (Cons x xs)
  then show ?case by (cases "f x") (simp_all add: and_then_assoc)
qed simp

lemma semantic_hash_input_view:
  assumes "snapshot_of P d s b g"
  shows "snd (semantic_hash_input P d s) = graph_hash_input g"
proof -
  have base: "base_graph P d s b" and g: "view b s = g" using assms by (auto simp: snapshot_of_def)
  have ps: "fold_res (\<lambda>(k, v) h. and_then (canonical_bytes v) (\<lambda>b.
           Inr (h @ ascii ''P'' @ i64_bytes (owner_i64 (fst k)) @ i64_bytes (fst (snd k)) @ i64_bytes (snd (snd k)) @ b))) kvs h =
      and_then (map_res (\<lambda>((kind, owner, key), v). and_then (canonical_bytes v) (\<lambda>b.
         Inr (ascii ''P'' @ i64_bytes (owner_i64 kind) @ i64_bytes owner @ i64_bytes key @ b))) kvs) (\<lambda>bs. Inr (h @ concat bs))" for kvs h
    unfolding fold_res_append_res [symmetric]
    by (rule arg_cong [where f = "\<lambda>f. fold_res f kvs h"]) (auto simp: fun_eq_iff and_then_assoc)
  show ?thesis
    unfolding semantic_hash_input_def snd_chk visit_nodes_view [OF base] visit_labels_view [OF base] visit_relationships_view [OF base]
      visit_properties_view [OF assms] g ps
    by (simp add: graph_hash_input_def fold_append case_prod_unfold)
qed

lemma semantic_hash_view:
  assumes "snapshot_of P d s b g"
  shows "semantic_hash P d s = and_then (graph_hash_input g) (\<lambda>h. Inr (blake3 P h))"
  by (simp add: semantic_hash_def semantic_hash_input_view [OF assms])

section \<open>Resolution succeeds\<close>

lemma snd_option_case: "snd (case x of None \<Rightarrow> a | Some y \<Rightarrow> f y) = (case x of None \<Rightarrow> snd a | Some y \<Rightarrow> snd (f y))"
  by (simp split: option.split)

text \<open>First-parent descent, and its acyclicity on histories with a graph.\<close>

inductive descends :: "database \<Rightarrow> hash_id \<Rightarrow> hash_id \<Rightarrow> bool" for d where
  parent: "load_lineage_row d c = Inr row \<Longrightarrow> lr_parent row = Some p \<Longrightarrow> descends d c p"
| further: "load_lineage_row d c = Inr row \<Longrightarrow> lr_parent row = Some p \<Longrightarrow> descends d p a \<Longrightarrow> descends d c a"

lemma descends_snoc:
  assumes "descends d c a" "load_lineage_row d a = Inr row" "lr_parent row = Some p"
  shows "descends d c p"
  using assms by (induction rule: descends.induct) (auto intro: descends.intros)

lemma commit_graph_acyclic: "commit_graph P d c g \<Longrightarrow> \<not> descends d c c"
proof (induction rule: commit_graph.induct)
  case (root c row l)
  then show ?case by (auto elim: descends.cases)
next
  case (child c row p l g)
  show ?case
  proof
    assume "descends d c c"
    then have "p = c \<or> descends d p c" using child.hyps by (auto elim: descends.cases)
    then have "descends d p p"
    proof
      assume "p = c"
      then show ?thesis using child.hyps by (auto intro: parent)
    next
      assume "descends d p c"
      then show ?thesis using child.hyps by (blast intro: descends_snoc)
    qed
    with child.IH show False by simp
  qed
qed

text \<open>Layers without rows carry the hash of the empty layer.\<close>

definition empty_layers_ok :: "platform \<Rightarrow> database \<Rightarrow> bool" where
  "empty_layers_ok P d \<longleftrightarrow>
     (\<forall>i h. om_get (tb_layers d) i = Some h \<longrightarrow> \<not> has_delta i d \<longrightarrow> content_hash P layer_default = Inr h)"

lemma load_lineage_row_hash: "load_lineage_row d c = Inr row \<Longrightarrow> om_get (tb_layers d) (lr_layer_id row) = Some (lr_layer_hash row)"
  by (auto simp: load_lineage_row_def hash_from_slice_def split: option.splits if_splits)

lemma lineage_loop_step:
  assumes "load_lineage_row d c = Inr row" "\<not> om_has visited c"
  shows "snd (lineage_loop d skip eh c visited layers) =
    (if Some c \<noteq> skip \<and> lr_has_checkpoint row then Inr (Some c, fst layers)
     else and_then (snd (record_lineage_layer row eh layers)) (\<lambda>layers.
       case lr_parent row of None \<Rightarrow> Inr (None, fst layers)
       | Some p \<Rightarrow> snd (lineage_loop d skip eh p (om_put c () visited) layers)))"
  by (subst lineage_loop.simps) (simp add: assms snd_if snd_option_case cong: if_cong option.case_cong)

lemma record_lineage_layer_total:
  assumes "load_lineage_row d c = Inr row" "empty_layers_ok P d" "content_hash P layer_default = Inr eh"
    and "2 * length (fst layers) \<le> usize_max"
  shows "\<exists>layers'. snd (record_lineage_layer row eh layers) = Inr layers' \<and> length (fst layers') \<le> Suc (length (fst layers))"
proof -
  have "lr_layer_hash row = eh" if "\<not> lr_has_delta row"
    using assms(2,3) load_lineage_row_hash [OF assms(1)] load_lineage_row_delta [OF assms(1)] that
    by (auto simp: empty_layers_ok_def)
  then show ?thesis
    using assms(4) by (cases layers) (auto simp: record_lineage_layer_def push_lineage_item_def)
qed

lemma om_size_put: "\<not> om_has m k \<Longrightarrow> om_size (om_put k v m) = Suc (om_size m)"
  by (simp add: om_size_card om_get_put card_insert_if om_has_def domIff)

lemma lineage_loop_total:
  assumes "commit_graph P d c g" "empty_layers_ok P d" "content_hash P layer_default = Inr eh"
    and "\<not> om_has visited c" "\<And>a. descends d c a \<Longrightarrow> \<not> om_has visited a"
    and "dom (om_get visited) \<subseteq> dom (om_get (tb_commits d))" "2 * om_size (tb_commits d) \<le> usize_max"
    and "length (fst layers) \<le> om_size visited"
  shows "\<exists>cp ids. snd (lineage_loop d skip eh c visited layers) = Inr (cp, ids)"
  using assms(1,4-6,8)
proof (induction arbitrary: visited layers rule: commit_graph.induct)
  case (root c row l)
  have "om_size visited \<le> om_size (tb_commits d)"
    unfolding om_size_card using root.prems(3) by (intro card_mono) auto
  then have "2 * length (fst layers) \<le> usize_max" using root.prems(4) assms(7) by linarith
  from record_lineage_layer_total [OF root.hyps(1) assms(2,3) this] root.hyps root.prems show ?case
    by (auto simp: lineage_loop_step)
next
  case (child c row p l g)
  have "om_size visited \<le> om_size (tb_commits d)"
    unfolding om_size_card using child.prems(3) by (intro card_mono) auto
  then have "2 * length (fst layers) \<le> usize_max" using child.prems(4) assms(7) by linarith
  from record_lineage_layer_total [OF child.hyps(1) assms(2,3) this]
  obtain layers' where rec: "snd (record_lineage_layer row eh layers) = Inr layers'" "length (fst layers') \<le> Suc (length (fst layers))"
    by blast
  have acyc: "\<not> descends d c c"
    using commit_graph_acyclic [OF commit_graph.child [OF child.hyps]] .
  let ?v = "om_put c () visited"
  have "\<not> om_has ?v p" "\<And>a. descends d p a \<Longrightarrow> \<not> om_has ?v a"
    using child.prems(2) acyc child.hyps(1,2) by (auto intro: descends.intros)
  moreover have "dom (om_get ?v) \<subseteq> dom (om_get (tb_commits d))"
    using child.prems(3) load_lineage_row_Inr [OF child.hyps(1)] by (auto simp: om_get_put)
  moreover have "length (fst layers') \<le> om_size ?v"
    using rec(2) child.prems(1,4) by (simp add: om_size_put)
  ultimately obtain cp ids where "snd (lineage_loop d skip eh p ?v layers') = Inr (cp, ids)"
    using child.IH by blast
  then show ?case
    using child.hyps(1,2) child.prems(1) rec(1) by (auto simp: lineage_loop_step)
qed

lemma content_hash_default: "content_hash P layer_default = Inr (blake3 P (lce1_record (ascii ''LAYER'') []))"
  by (simp add: content_hash_eq layer_slots_def layer_default_def om_empty.rep_eq om_values_def)

lemma resolve_total:
  assumes "commit_graph P d c g" "empty_layers_ok P d" "checkpoints_ok P d" "2 * om_size (tb_commits d) \<le> usize_max"
  shows "\<exists>s. snd (resolve_state_with_checkpoint_skip P d c skip) = Inr s"
proof -
  obtain eh where eh: "content_hash P layer_default = Inr eh" using content_hash_default by blast
  have "\<exists>cp ids. snd (lineage_loop d skip eh c om_empty ([], 0)) = Inr (cp, ids)"
    by (rule lineage_loop_total [OF assms(1,2) eh]) (simp_all add: assms(4))
  then obtain cp ids where lin: "snd (resolve_lineage P d c skip) = Inr (cp, ids)"
    using eh by (auto simp: resolve_lineage_def)
  obtain b ls where "map_res (load_layer P d) ids = Inr ls"
    using lineage_graph [OF resolve_lineage_sound [OF lin] assms(1,3)] by blast
  from fold_persisted [OF map_res_rev [OF this], of overlay_default] lin show ?thesis
    by (simp add: resolve_state_with_checkpoint_skip_def)
qed

section \<open>An example history\<close>

text \<open>
  A root commit with the empty layer, a commit that adds a node and has a checkpoint, and a commit on top that
  removes the node and adds another.
\<close>

definition commit_id :: "byte \<Rightarrow> hash_id" where
  "commit_id k = replicate 32 k"

definition example_commit :: "hash_id option \<Rightarrow> i64 \<Rightarrow> CommitRow" where
  "example_commit parent layer =
     \<lparr>cr_format_version = 1, cr_parent1 = parent, cr_parent2 = None, cr_layer_id = layer, cr_schema_hash = commit_id 0,
      cr_author = None, cr_message = None, cr_committed_at = 0\<rparr>"

definition example :: database where
  "example = create_storage_schema\<lparr>
     tb_layers := om_of [(1, commit_id 0), (2, commit_id 1), (3, commit_id 2)],
     tb_node_delta := om_of [((2, 7), 1), ((3, 7), 2), ((3, 8), 1)],
     tb_commits := om_of [(commit_id 1, example_commit None 1), (commit_id 2, example_commit (Some (commit_id 1)) 2),
                          (commit_id 3, example_commit (Some (commit_id 2)) 3)],
     tb_checkpoints := om_of [(commit_id 2, (0, None))],
     tb_cp_nodes := om_of [((commit_id 2, 7), ())]\<rparr>"

lemma example_layers:
  "load_layer platform64 example 1 = Inr layer_default"
  "load_layer platform64 example 2 = Inr (layer_default\<lparr>lb_nodes := om_of [(7, Add)]\<rparr>)"
  "load_layer platform64 example 3 = Inr (layer_default\<lparr>lb_nodes := om_of [(7, Remove), (8, Add)]\<rparr>)"
  by code_simp+

lemma example_rows:
  "load_lineage_row example (commit_id 1) = Inr \<lparr>lr_parent = None, lr_layer_id = 1, lr_layer_hash = commit_id 0,
     lr_has_checkpoint = False, lr_has_delta = False\<rparr>"
  "load_lineage_row example (commit_id 2) = Inr \<lparr>lr_parent = Some (commit_id 1), lr_layer_id = 2, lr_layer_hash = commit_id 1,
     lr_has_checkpoint = True, lr_has_delta = True\<rparr>"
  "load_lineage_row example (commit_id 3) = Inr \<lparr>lr_parent = Some (commit_id 2), lr_layer_id = 3, lr_layer_hash = commit_id 2,
     lr_has_checkpoint = False, lr_has_delta = True\<rparr>"
  by code_simp+

definition example_graph :: "i64 \<Rightarrow> graph" where
  "example_graph n = empty_graph\<lparr>g_nodes := om_of [(n, ())]\<rparr>"

lemma example_graphs: "commit_graph platform64 example (commit_id 2) (example_graph 7)"
  "commit_graph platform64 example (commit_id 3) (example_graph 8)"
proof -
  have 1: "commit_graph platform64 example (commit_id 1) empty_graph"
    using commit_graph.root [OF example_rows(1), of platform64] example_layers(1) by simp
  have "apply_layer (layer_default\<lparr>lb_nodes := om_of [(7, Add)]\<rparr>) empty_graph = example_graph 7"
    "apply_layer (layer_default\<lparr>lb_nodes := om_of [(7, Remove), (8, Add)]\<rparr>) (example_graph 7) = example_graph 8"
    by code_simp+
  then show 2: "commit_graph platform64 example (commit_id 2) (example_graph 7)"
    using commit_graph.child [OF example_rows(2) _ _ 1] example_layers(2) by simp
  then show "commit_graph platform64 example (commit_id 3) (example_graph 8)"
    using commit_graph.child [OF example_rows(3) _ _ 2] example_layers(3)
      \<open>apply_layer (layer_default\<lparr>lb_nodes := om_of [(7, Remove), (8, Add)]\<rparr>) (example_graph 7) = example_graph 8\<close> by simp
qed

lemma example_checkpoints: "checkpoints_ok platform64 example"
proof -
  have "c = commit_id 2" if "om_has (tb_checkpoints example) c" for c
    using that by (simp add: example_def om_of_def om_put_all_def split: if_splits)
  moreover have "om_slice (commit_id 2) (tb_cp_nodes example) = g_nodes (example_graph 7)"
    "om_slice (commit_id 2) (tb_cp_labels example) = om_empty" "om_slice (commit_id 2) (tb_cp_relationships example) = om_empty"
    "om_slice (commit_id 2) (tb_cp_properties example) = om_empty"
    by code_simp+
  then have "checkpoint_holds platform64 example (commit_id 2) (example_graph 7)"
    by (simp add: checkpoint_holds_def checkpoint_properties_hold_def example_graph_def empty_graph_def om_ext om_get_map fun_eq_iff om_graft_def om_empty.rep_eq om_put_all_def)
  ultimately show ?thesis
    using commit_graph_unique [OF example_graphs(1)] by (auto simp: checkpoints_ok_def)
qed

lemma example_ok: "delta_rows_ok example" "empty_layers_ok platform64 example" "2 * om_size (tb_commits example) \<le> usize_max"
proof -
  show "delta_rows_ok example" by code_simp
  have "h = commit_id 0" if "om_get (tb_layers example) i = Some h" "\<not> has_delta i example" for i h
  proof -
    have "has_delta 2 example" "has_delta 3 example" by code_simp+
    with that show ?thesis by (auto simp: example_def om_of_def om_put_all_def split: if_splits)
  qed
  then show "empty_layers_ok platform64 example"
    by (auto simp: empty_layers_ok_def content_hash_default platform64_def commit_id_def)
  show "2 * om_size (tb_commits example) \<le> usize_max" by code_simp
qed

section \<open>Theorems\<close>

text \<open>C17. Resolution succeeds: for a commit whose first-parent history ends and whose layers load, a snapshot is
  resolved, whichever checkpoint is to be skipped. The history has fewer than half of the largest count of
  commits, layers without rows carry the hash of the empty layer, and checkpoints hold the graphs of their commits.\<close>

theorem resolve_succeeds:
  assumes "commit_graph P d c g" and "empty_layers_ok P d" and "checkpoints_ok P d" and "2 * om_size (tb_commits d) \<le> usize_max"
  shows "\<exists>s. snd (resolve_state_with_checkpoint_skip P d c skip) = Inr s \<and> ss_commit s = c"
  using resolve_total [OF assms, of skip] by (auto simp: resolve_state_with_checkpoint_skip_def)

theorem resolve_succeeds_witness:
  "\<exists>s. snd (resolve_state_with_checkpoint_skip platform64 example (commit_id 3) None) = Inr s \<and> ss_commit s = commit_id 3"
  by (rule resolve_succeeds [OF example_graphs(2) example_ok(2) example_checkpoints example_ok(3)])

text \<open>C1. A snapshot refines the history of its commit: every read returns what the graph of the commit holds, the
  graph obtained by applying the layers of its first-parent history in order, whichever checkpoint the snapshot
  starts from.\<close>

theorem snapshot_refines_history:
  assumes "snd (resolve_state_with_checkpoint_skip P d c skip) = Inr s"
    and "commit_graph P d c g" and "checkpoints_ok P d" and "delta_rows_ok d"
  shows "node_exists d s n = Inr (om_has (g_nodes g) n)
    \<and> relationship d s i = Inr (om_get (g_relationships g) i)
    \<and> labels d s n = Inr (om_keys (node_labels g n))
    \<and> property P d s kind o' k = Inr (om_get (g_properties g) (kind, o', k))
    \<and> properties P d s kind o' = Inr (om_entries (owner_properties g kind o'))
    \<and> outgoing d s n ty = Inr (adjacent g n ty Outgoing)
    \<and> incoming d s n ty = Inr (adjacent g n ty Incoming)"
proof -
  obtain b where b: "snapshot_of P d s b g" "ss_property_cache s = om_empty"
    using resolved_snapshot [OF assms] by blast
  then have "base_graph P d s b" "view b s = g" "cache_ok b s" by (auto simp: snapshot_of_def cache_ok_def)
  with b node_exists_view relationship_view property_view show ?thesis
    by (simp add: labels_view properties_view outgoing_def incoming_def adjacency_view)
qed

theorem snapshot_refines_history_witness:
  "\<exists>s. snd (resolve_state_with_checkpoint_skip platform64 example (commit_id 3) None) = Inr s
     \<and> node_exists example s 7 = Inr False \<and> node_exists example s 8 = Inr True"
proof -
  obtain s where s: "snd (resolve_state_with_checkpoint_skip platform64 example (commit_id 3) None) = Inr s"
    using resolve_total [OF example_graphs(2) example_ok(2) example_checkpoints example_ok(3)] by blast
  with snapshot_refines_history [OF s example_graphs(2) example_checkpoints example_ok(1)] show ?thesis
    by (auto simp: example_graph_def om_of_def om_put_all_def)
qed

text \<open>C28. The semantic hash of a commit does not depend on checkpoints: two snapshots of one commit, resolved from
  different checkpoints, have the same semantic hash, that of the graph of the commit.\<close>

theorem semantic_hash_checkpoint_free:
  assumes "snd (resolve_state_with_checkpoint_skip P d c skip) = Inr s"
    and "snd (resolve_state_with_checkpoint_skip P d c skip') = Inr s'"
    and "commit_graph P d c g" and "checkpoints_ok P d" and "delta_rows_ok d"
  shows "semantic_hash P d s = semantic_hash P d s' \<and> semantic_hash P d s = and_then (graph_hash_input g) (\<lambda>h. Inr (blake3 P h))"
  using resolved_snapshot [OF assms(1,3-5)] resolved_snapshot [OF assms(2-5)] by (auto simp: semantic_hash_view)

theorem semantic_hash_checkpoint_free_witness:
  "\<exists>s s'. snd (resolve_state_with_checkpoint_skip platform64 example (commit_id 2) None) = Inr s
     \<and> snd (resolve_state_with_checkpoint_skip platform64 example (commit_id 2) (Some (commit_id 2))) = Inr s'
     \<and> semantic_hash platform64 example s = semantic_hash platform64 example s'"
proof -
  note total = resolve_total [OF example_graphs(1) example_ok(2) example_checkpoints example_ok(3)]
  obtain s s' where s: "snd (resolve_state_with_checkpoint_skip platform64 example (commit_id 2) None) = Inr s"
    "snd (resolve_state_with_checkpoint_skip platform64 example (commit_id 2) (Some (commit_id 2))) = Inr s'"
    using total by blast
  with semantic_hash_checkpoint_free [OF s example_graphs(1) example_checkpoints example_ok(1)] show ?thesis by blast
qed

text \<open>C26. The streams of a snapshot visit every element of the graph once, in key order, and stop at the first
  failure of the visitor: nodes, labels, relationships and properties.\<close>

theorem streams_visit_graph:
  assumes "snd (resolve_state_with_checkpoint_skip P d c skip) = Inr s"
    and "commit_graph P d c g" and "checkpoints_ok P d" and "delta_rows_ok d"
  shows "snd (visit_nodes d s f x) = fold_res (\<lambda>n x. snd (f n x)) (om_keys (g_nodes g)) x
    \<and> snd (visit_labels_checked d s h x) = fold_res (\<lambda>k x. snd (h (fst k) (snd k) x)) (om_keys (g_labels g)) x
    \<and> snd (visit_relationships_checked d s r x) = fold_res (\<lambda>v x. snd (r v x)) (om_values (g_relationships g)) x
    \<and> snd (visit_properties_observed P d s p x) =
        fold_res (\<lambda>(k, v) x. snd (p (fst k) (fst (snd k)) (snd (snd k)) v x)) (om_entries (g_properties g)) x"
proof -
  obtain b where b: "snapshot_of P d s b g" using resolved_snapshot [OF assms] by blast
  then have "base_graph P d s b" "view b s = g" by (auto simp: snapshot_of_def)
  with visit_properties_view [OF b] show ?thesis
    by (simp add: visit_nodes_view visit_labels_view visit_relationships_view)
qed

theorem streams_visit_graph_witness:
  "\<exists>s. snd (resolve_state_with_checkpoint_skip platform64 example (commit_id 3) None) = Inr s
     \<and> snd (visit_nodes example s (\<lambda>n x. chk_ok (n # x)) []) = Inr [8]"
proof -
  obtain s where s: "snd (resolve_state_with_checkpoint_skip platform64 example (commit_id 3) None) = Inr s"
    using resolve_total [OF example_graphs(2) example_ok(2) example_checkpoints example_ok(3)] by blast
  have "om_keys (g_nodes (example_graph 8)) = [8]" by code_simp
  with s streams_visit_graph [OF s example_graphs(2) example_checkpoints example_ok(1), where f = "\<lambda>n x. chk_ok (n # x)" and x = "[]"]
  show ?thesis by auto
qed

text \<open>The page cache is transparent: prefetching never fails on a resolved snapshot, and every property read
  afterwards returns what it returned before.\<close>

theorem prefetch_transparent:
  assumes "snd (resolve_state_with_checkpoint_skip P d c skip) = Inr s"
    and "commit_graph P d c g" and "checkpoints_ok P d" and "delta_rows_ok d"
  shows "fst (prefetch_properties P d kind owners keys s) = Inr ()
    \<and> property P d (snd (prefetch_properties P d kind owners keys s)) kind' o' k = property P d s kind' o' k"
proof -
  obtain b where b: "snapshot_of P d s b g" "ss_property_cache s = om_empty"
    using resolved_snapshot [OF assms] by blast
  then have c: "cache_ok b s" by (simp add: cache_ok_def)
  note ok = prefetch_properties_ok [OF b(1) c]
  show ?thesis by (simp add: ok(1) property_view [OF ok(2,3)] property_view [OF b(1) c])
qed

theorem prefetch_transparent_witness:
  "\<exists>s. snd (resolve_state_with_checkpoint_skip platform64 example (commit_id 3) None) = Inr s
     \<and> fst (prefetch_properties platform64 example Node [7, 8] [1] s) = Inr ()"
proof -
  obtain s where s: "snd (resolve_state_with_checkpoint_skip platform64 example (commit_id 3) None) = Inr s"
    using resolve_total [OF example_graphs(2) example_ok(2) example_checkpoints example_ok(3)] by blast
  with prefetch_transparent [OF s example_graphs(2) example_checkpoints example_ok(1)] show ?thesis by blast
qed

text \<open>C16. The adjacency and label indexes of an overlay agree with its primary maps, whatever layers are applied
  to it, including layers that replace or remove relationships already in it.\<close>

theorem overlay_indexes_agree:
  assumes "\<forall>l \<in> set ls. om_all (\<lambda>i delta. rel_id (rd_record delta) = i) (lb_relationships l)"
  shows "overlay_ok (fold overlay_apply ls overlay_default)"
  using assms by (intro fold_invariant_list [where P = overlay_ok]) (auto simp: overlay_ok_default overlay_apply_ok)

theorem overlay_indexes_agree_witness:
  "overlay_ok (fold overlay_apply [one_node, layer_default\<lparr>lb_relationships := om_of [(3, \<lparr>rd_op = Add,
     rd_record = \<lparr>rel_id = 3, source = 7, type_id = 1, target = 7\<rparr>\<rparr>)]\<rparr>] overlay_default)"
  by (rule overlay_indexes_agree) (auto simp: one_node_def layer_default_def om_of_def om_put_all_def intro!: om_all_put)

end
