(* ===== verification/Snapshot_Scan.thy ===== *)
theory Snapshot_Scan
  imports Snapshot_Spec
begin

text \<open>
  Bounded, resumable scans over a checkpoint and an overlay (\<^verbatim>\<open>storage/snapshot_scan.rs\<close>): a page merges the
  next rows of the checkpoint with the next entries of the overlay up to a horizon beyond which one of the two
  may still hold unread keys. The directed functions are called for the two directed kinds only and take a
  direction here.
\<close>

section \<open>Pages and cursors\<close>

datatype AdjacencyKind = OutgoingKind | IncomingKind | IncidentKind

datatype IncidentPhase = OutgoingPhase | IncomingPhase

text \<open>\<^verbatim>\<open>AdjacencyKey\<close>: type, neighbour and relationship, ordered in this order.\<close>

type_synonym AdjacencyKey = "i64 \<times> i64 \<times> i64"

record AdjacencyCursor =
  ac_cache_identity :: hash_id
  ac_kind :: AdjacencyKind
  ac_node_id :: i64
  ac_type_id :: "i64 option"
  ac_phase :: IncidentPhase
  ac_after :: "AdjacencyKey option"

record AdjacencyScanPage =
  ap_items :: "RelationshipRecord list"
  ap_next_cursor :: "AdjacencyCursor option"

record 'a ScanPage =
  sp_items :: "'a list"
  sp_next_after :: "i64 option"

definition normalized_limit :: "nat \<Rightarrow> nat" where
  "normalized_limit limit = min 4096 (max 1 limit)"

definition scan_horizon :: "'k::linorder option \<Rightarrow> bool \<Rightarrow> 'k option \<Rightarrow> bool \<Rightarrow> 'k option" where
  "scan_horizon base_last base_full overlay_last overlay_full =
     (case (if base_full then base_last else None, if overlay_full then overlay_last else None) of
        (Some b, Some ov) \<Rightarrow> Some (min b ov)
      | (Some b, None) \<Rightarrow> Some b
      | (None, Some ov) \<Rightarrow> Some ov
      | (None, None) \<Rightarrow> None)"

definition last_key :: "'k list \<Rightarrow> 'k option" where
  "last_key ks = (if ks = [] then None else Some (last ks))"

text \<open>A \<^verbatim>\<open>BTreeSet\<close> of candidates, in order.\<close>

definition candidate_set :: "'k::linorder list \<Rightarrow> 'k list" where
  "candidate_set ks = om_keys (om_put_all (map (\<lambda>k. (k, ())) ks) om_empty)"

text \<open>
  The loop over the candidates that the three merges share: it stops beyond the horizon or when the page is
  full, and remembers the last candidate it consumed.
\<close>

fun scan_candidates ::
    "'k::linorder option \<Rightarrow> nat \<Rightarrow> ('k \<Rightarrow> 'a option) \<Rightarrow> 'k list \<Rightarrow> 'a list \<Rightarrow> 'k option \<Rightarrow> 'a list \<times> 'k option" where
  "scan_candidates horizon limit visible [] items consumed = (items, consumed)"
| "scan_candidates horizon limit visible (k # ks) items consumed =
     (if (case horizon of None \<Rightarrow> False | Some h \<Rightarrow> k > h) \<or> length items = limit then (items, consumed)
      else scan_candidates horizon limit visible ks
             (case visible k of None \<Rightarrow> items | Some x \<Rightarrow> items @ [x]) (Some k))"

definition saturating_succ :: "i64 \<Rightarrow> i64" where
  "saturating_succ i = min (i + 1) i64_max"

text \<open>The page of a scan by identity: \<^verbatim>\<open>next_after\<close> is given when more keys may follow.\<close>

definition id_page :: "i64 \<Rightarrow> nat \<Rightarrow> i64 option \<Rightarrow> 'a list \<times> i64 option \<Rightarrow> 'a ScanPage" where
  "id_page after limit horizon = (\<lambda>(items, consumed).
     let consumed = (case consumed of None \<Rightarrow> after | Some k \<Rightarrow> k)
     in \<lparr>sp_items = items,
         sp_next_after = (if (horizon \<noteq> None \<or> length items = limit) \<and> consumed > after then Some consumed else None)\<rparr>)"

section \<open>Scans by identity\<close>

definition base_node_page :: "database \<Rightarrow> SnapshotState \<Rightarrow> i64 \<Rightarrow> nat \<Rightarrow> i64 option \<Rightarrow> i64 list res" where
  "base_node_page d s after limit label =
     (case ss_checkpoint s of
        None \<Rightarrow> Inr []
      | Some c \<Rightarrow>
          (case label of
             Some l \<Rightarrow> Inr (take limit (map (\<lambda>((n, _), _). n)
                         (filter (\<lambda>((n, l'), _). l' = l \<and> n > after) (commit_rows c (tb_cp_labels d)))))
           | None \<Rightarrow> Inr (take limit (map fst (filter (\<lambda>(n, _). n > after) (commit_rows c (tb_cp_nodes d)))))))"

definition overlay_node_page :: "SnapshotState \<Rightarrow> i64 \<Rightarrow> nat \<Rightarrow> i64 option \<Rightarrow> i64 list" where
  "overlay_node_page s after limit label =
     (case label of
        Some l \<Rightarrow> take limit (map (\<lambda>((_, n), _). n)
                    (filter (\<lambda>(k, _). (l, saturating_succ after) \<le> k \<and> k \<le> (l, i64_max)) (om_entries (ov_labels_by_label (ss_overlay s)))))
      | None \<Rightarrow> take limit (map fst (filter (\<lambda>(n, _). saturating_succ after \<le> n) (om_entries (ov_nodes (ss_overlay s))))))"

text \<open>\<^verbatim>\<open>binary_search\<close> over the sorted page is membership.\<close>

definition node_domain_contains :: "SnapshotState \<Rightarrow> i64 \<Rightarrow> i64 option \<Rightarrow> i64 list \<Rightarrow> bool" where
  "node_domain_contains s node label base =
     (case (case label of Some l \<Rightarrow> om_get (ov_labels_by_label (ss_overlay s)) (l, node)
                        | None \<Rightarrow> om_get (ov_nodes (ss_overlay s)) node) of
        None \<Rightarrow> node \<in> set base
      | Some p \<Rightarrow> p = Add)"

definition scan_node_domain_after :: "database \<Rightarrow> SnapshotState \<Rightarrow> i64 \<Rightarrow> nat \<Rightarrow> i64 option \<Rightarrow> i64 ScanPage res" where
  "scan_node_domain_after d s after limit label =
     (let limit = normalized_limit limit in
      and_then (base_node_page d s after limit label) (\<lambda>base.
        let overlay = overlay_node_page s after limit label;
            horizon = scan_horizon (last_key base) (length base = limit) (last_key overlay) (length overlay = limit)
        in Inr (id_page after limit horizon
             (scan_candidates horizon limit (\<lambda>n. if node_domain_contains s n label base then Some n else None)
               (candidate_set (base @ overlay)) [] None))))"

definition scan_nodes_after :: "database \<Rightarrow> SnapshotState \<Rightarrow> i64 \<Rightarrow> nat \<Rightarrow> i64 ScanPage res" where
  "scan_nodes_after d s after limit = scan_node_domain_after d s after limit None"

definition scan_label_after :: "database \<Rightarrow> SnapshotState \<Rightarrow> i64 \<Rightarrow> i64 \<Rightarrow> nat \<Rightarrow> i64 ScanPage res" where
  "scan_label_after d s label after limit = scan_node_domain_after d s after limit (Some label)"

definition checkpoint_relationship_page ::
    "database \<Rightarrow> SnapshotState \<Rightarrow> i64 option \<Rightarrow> i64 \<Rightarrow> nat \<Rightarrow> RelationshipRecord list res" where
  "checkpoint_relationship_page d s ty after limit =
     (case ss_checkpoint s of
        None \<Rightarrow> Inr []
      | Some c \<Rightarrow> Inr (take limit (filter (\<lambda>r. rel_id r > after \<and> (case ty of None \<Rightarrow> True | Some t \<Rightarrow> type_id r = t))
                         (checkpoint_relationships d c))))"

definition base_relationship_page :: "database \<Rightarrow> SnapshotState \<Rightarrow> i64 \<Rightarrow> nat \<Rightarrow> RelationshipRecord list res" where
  "base_relationship_page d s after limit = checkpoint_relationship_page d s None after limit"

definition base_relationship_type_page :: "database \<Rightarrow> SnapshotState \<Rightarrow> i64 \<Rightarrow> i64 \<Rightarrow> nat \<Rightarrow> RelationshipRecord list res" where
  "base_relationship_type_page d s ty after limit = checkpoint_relationship_page d s (Some ty) after limit"

definition overlay_relationship_ids :: "SnapshotState \<Rightarrow> i64 \<Rightarrow> nat \<Rightarrow> i64 list" where
  "overlay_relationship_ids s after limit =
     take limit (map fst (filter (\<lambda>(i, _). saturating_succ after \<le> i) (om_entries (ov_relationships (ss_overlay s)))))"

definition merge_relationship_page ::
    "SnapshotState \<Rightarrow> i64 \<Rightarrow> nat \<Rightarrow> RelationshipRecord list \<Rightarrow> i64 list \<Rightarrow> (RelationshipRecord \<Rightarrow> bool) \<Rightarrow> RelationshipRecord ScanPage" where
  "merge_relationship_page s after limit base overlay accept_overlay =
     (let horizon = scan_horizon (last_key (map rel_id base)) (length base = limit) (last_key overlay) (length overlay = limit);
          base_by_id = om_put_all (map (\<lambda>r. (rel_id r, r)) base) om_empty
      in id_page after limit horizon
           (scan_candidates horizon limit
             (\<lambda>i. case om_get (ov_relationships (ss_overlay s)) i of
                    Some delta \<Rightarrow> if rd_op delta = Add \<and> accept_overlay (rd_record delta) then Some (rd_record delta) else None
                  | None \<Rightarrow> om_get base_by_id i)
             (candidate_set (om_keys base_by_id @ overlay)) [] None))"

definition scan_relationships_after :: "database \<Rightarrow> SnapshotState \<Rightarrow> i64 \<Rightarrow> nat \<Rightarrow> RelationshipRecord ScanPage res" where
  "scan_relationships_after d s after limit =
     (let limit = normalized_limit limit in
      and_then (base_relationship_page d s after limit) (\<lambda>base.
        Inr (merge_relationship_page s after limit base (overlay_relationship_ids s after limit) (\<lambda>_. True))))"

definition scan_relationship_type_after :: "database \<Rightarrow> SnapshotState \<Rightarrow> i64 \<Rightarrow> i64 \<Rightarrow> nat \<Rightarrow> RelationshipRecord ScanPage res" where
  "scan_relationship_type_after d s ty after limit =
     (let limit = normalized_limit limit in
      and_then (base_relationship_type_page d s ty after limit) (\<lambda>base.
        let overlay = take limit (map fst (filter (\<lambda>(_, delta). type_id (rd_record delta) = ty)
              (filter (\<lambda>(i, _). saturating_succ after \<le> i) (om_entries (ov_relationships (ss_overlay s))))))
        in Inr (merge_relationship_page s after limit base overlay (\<lambda>r. type_id r = ty))))"

section \<open>Scans of a neighbourhood\<close>

definition directed_kind :: "Direction \<Rightarrow> AdjacencyKind" where
  "directed_kind direction = (case direction of Outgoing \<Rightarrow> OutgoingKind | Incoming \<Rightarrow> IncomingKind)"

definition directed_phase :: "Direction \<Rightarrow> IncidentPhase" where
  "directed_phase direction = (case direction of Outgoing \<Rightarrow> OutgoingPhase | Incoming \<Rightarrow> IncomingPhase)"

definition phase_direction :: "IncidentPhase \<Rightarrow> Direction" where
  "phase_direction phase = (case phase of OutgoingPhase \<Rightarrow> Outgoing | IncomingPhase \<Rightarrow> Incoming)"

definition scan_adjacency_key :: "Direction \<Rightarrow> RelationshipRecord \<Rightarrow> AdjacencyKey" where
  "scan_adjacency_key direction r =
     (type_id r, (case direction of Outgoing \<Rightarrow> target r | Incoming \<Rightarrow> source r), rel_id r)"

definition adjacency_matches :: "Direction \<Rightarrow> i64 \<Rightarrow> i64 option \<Rightarrow> RelationshipRecord \<Rightarrow> bool" where
  "adjacency_matches direction node ty r \<longleftrightarrow>
     (case direction of Outgoing \<Rightarrow> source r = node | Incoming \<Rightarrow> target r = node) \<and> (ty = None \<or> ty = Some (type_id r))"

definition validate_adjacency_cursor ::
    "SnapshotState \<Rightarrow> AdjacencyKind \<Rightarrow> i64 \<Rightarrow> i64 option \<Rightarrow> AdjacencyCursor option \<Rightarrow> unit res" where
  "validate_adjacency_cursor s kind node ty cursor =
     (case cursor of
        None \<Rightarrow> Inr ()
      | Some k \<Rightarrow>
          if ac_cache_identity k \<noteq> ss_cache_identity s \<or> ac_kind k \<noteq> kind \<or> ac_node_id k \<noteq> node \<or> ac_type_id k \<noteq> ty
          then Inl (Corrupt ''adjacency continuation does not belong to this snapshot/domain'') else Inr ())"

definition base_directed_adjacency_page ::
    "database \<Rightarrow> hash_id \<Rightarrow> Direction \<Rightarrow> i64 \<Rightarrow> i64 option \<Rightarrow> AdjacencyKey option \<Rightarrow> nat \<Rightarrow> RelationshipRecord list" where
  "base_directed_adjacency_page d c direction node ty after limit =
     (let rows = filter (\<lambda>r. adjacency_node direction r = node \<and> (case ty of None \<Rightarrow> True | Some t \<Rightarrow> type_id r = t)
                   \<and> (case after of None \<Rightarrow> True
                      | Some a \<Rightarrow> if ty \<noteq> None then snd (scan_adjacency_key direction r) > snd a
                                  else scan_adjacency_key direction r > a))
                   (checkpoint_relationships d c)
      in take limit (if ty \<noteq> None then sort_key (\<lambda>r. snd (scan_adjacency_key direction r)) rows
                     else sort_key (scan_adjacency_key direction) rows))"

definition base_adjacency_keyset_page ::
    "database \<Rightarrow> SnapshotState \<Rightarrow> Direction \<Rightarrow> i64 \<Rightarrow> i64 option \<Rightarrow> AdjacencyKey option \<Rightarrow> nat \<Rightarrow> RelationshipRecord list res" where
  "base_adjacency_keyset_page d s direction node ty after limit =
     (case ss_checkpoint s of None \<Rightarrow> Inr [] | Some c \<Rightarrow> Inr (base_directed_adjacency_page d c direction node ty after limit))"

abbreviation (input) i64_min :: i64 where "i64_min \<equiv> - (2 ^ 63)"

definition overlay_adjacency_keyset_page ::
    "SnapshotState \<Rightarrow> Direction \<Rightarrow> i64 \<Rightarrow> i64 option \<Rightarrow> AdjacencyKey option \<Rightarrow> nat \<Rightarrow> (AdjacencyKey \<times> RelationshipRecord \<times> DeltaOp) list" where
  "overlay_adjacency_keyset_page s direction node ty after limit =
     (let index = (case direction of Outgoing \<Rightarrow> ov_outgoing (ss_overlay s) | Incoming \<Rightarrow> ov_incoming (ss_overlay s));
          above = (\<lambda>k. case after of Some a \<Rightarrow> (node, a) < k
                       | None \<Rightarrow> (node, case ty of None \<Rightarrow> i64_min | Some t \<Rightarrow> t, i64_min, i64_min) \<le> k);
          below = (\<lambda>k. k \<le> (node, case ty of None \<Rightarrow> i64_max | Some t \<Rightarrow> t, i64_max, i64_max))
      in map (\<lambda>((_, k), delta). (k, rd_record delta, rd_op delta))
           (take limit (filter (\<lambda>((_, t, _, _), _). case ty of None \<Rightarrow> True | Some t' \<Rightarrow> t = t')
             (filter (\<lambda>(k, _). above k \<and> below k) (om_entries index)))))"

definition merge_adjacency_page ::
    "SnapshotState \<Rightarrow> Direction \<Rightarrow> i64 \<Rightarrow> i64 option \<Rightarrow> AdjacencyKey option \<Rightarrow> nat \<Rightarrow> RelationshipRecord list \<Rightarrow>
     (AdjacencyKey \<times> RelationshipRecord \<times> DeltaOp) list \<Rightarrow> AdjacencyScanPage" where
  "merge_adjacency_page s direction node ty after limit base overlay =
     (let horizon = scan_horizon (last_key (map (scan_adjacency_key direction) base)) (length base = limit)
                      (last_key (map fst overlay)) (length overlay = limit);
          candidates = om_put_all (map (\<lambda>(k, r, p). (k, if p = Add then Some r else None)) overlay)
                         (om_put_all (map (\<lambda>r. (scan_adjacency_key direction r, Some r)) base) om_empty)
      in case scan_candidates horizon limit
                (\<lambda>k. case om_get candidates k of Some (Some r) \<Rightarrow> if adjacency_matches direction node ty r then Some r else None
                     | _ \<Rightarrow> None)
                (om_keys candidates) [] None of
           (items, consumed) \<Rightarrow>
             let consumed = (case consumed of None \<Rightarrow> after | Some k \<Rightarrow> Some k)
             in \<lparr>ap_items = items,
                 ap_next_cursor =
                   (if (horizon \<noteq> None \<or> length items = limit) \<and> consumed \<noteq> after
                    then Some \<lparr>ac_cache_identity = ss_cache_identity s, ac_kind = directed_kind direction, ac_node_id = node,
                               ac_type_id = ty, ac_phase = directed_phase direction, ac_after = consumed\<rparr>
                    else None)\<rparr>)"

definition scan_directed_adjacency_page ::
    "database \<Rightarrow> SnapshotState \<Rightarrow> Direction \<Rightarrow> i64 \<Rightarrow> i64 option \<Rightarrow> AdjacencyCursor option \<Rightarrow> nat \<Rightarrow> AdjacencyScanPage res" where
  "scan_directed_adjacency_page d s direction node ty cursor limit =
     and_then (validate_adjacency_cursor s (directed_kind direction) node ty cursor) (\<lambda>_.
       let limit = normalized_limit limit;
           after = (case cursor of None \<Rightarrow> None | Some k \<Rightarrow> ac_after k)
       in and_then (base_adjacency_keyset_page d s direction node ty after limit) (\<lambda>base.
            Inr (merge_adjacency_page s direction node ty after limit base
                   (overlay_adjacency_keyset_page s direction node ty after limit))))"

definition scan_outgoing_page :: "database \<Rightarrow> SnapshotState \<Rightarrow> i64 \<Rightarrow> i64 option \<Rightarrow> AdjacencyCursor option \<Rightarrow> nat \<Rightarrow> AdjacencyScanPage res" where
  "scan_outgoing_page d s node ty cursor limit = scan_directed_adjacency_page d s Outgoing node ty cursor limit"

definition scan_incoming_page :: "database \<Rightarrow> SnapshotState \<Rightarrow> i64 \<Rightarrow> i64 option \<Rightarrow> AdjacencyCursor option \<Rightarrow> nat \<Rightarrow> AdjacencyScanPage res" where
  "scan_incoming_page d s node ty cursor limit = scan_directed_adjacency_page d s Incoming node ty cursor limit"

definition filter_incident_self_loops :: "i64 \<Rightarrow> IncidentPhase \<Rightarrow> RelationshipRecord list \<Rightarrow> RelationshipRecord list" where
  "filter_incident_self_loops node phase records =
     (if phase = OutgoingPhase then records else filter (\<lambda>r. \<not> (source r = node \<and> target r = node)) records)"

definition incident_cursor :: "i64 \<Rightarrow> i64 option \<Rightarrow> IncidentPhase \<Rightarrow> AdjacencyCursor \<Rightarrow> AdjacencyCursor" where
  "incident_cursor node ty phase k =
     \<lparr>ac_cache_identity = ac_cache_identity k, ac_kind = IncidentKind, ac_node_id = node, ac_type_id = ty, ac_phase = phase,
      ac_after = ac_after k\<rparr>"

definition scan_incident_page :: "database \<Rightarrow> SnapshotState \<Rightarrow> i64 \<Rightarrow> i64 option \<Rightarrow> AdjacencyCursor option \<Rightarrow> nat \<Rightarrow> AdjacencyScanPage res" where
  "scan_incident_page d s node ty cursor limit =
     and_then (validate_adjacency_cursor s IncidentKind node ty cursor) (\<lambda>_.
       let limit = normalized_limit limit;
           phase = (case cursor of None \<Rightarrow> OutgoingPhase | Some k \<Rightarrow> ac_phase k);
           after = (case cursor of None \<Rightarrow> None | Some k \<Rightarrow> ac_after k);
           direction = phase_direction phase;
           directed_cursor = map_option (\<lambda>a. \<lparr>ac_cache_identity = ss_cache_identity s, ac_kind = directed_kind direction,
             ac_node_id = node, ac_type_id = ty, ac_phase = phase, ac_after = Some a\<rparr>) after
       in and_then (scan_directed_adjacency_page d s direction node ty directed_cursor limit) (\<lambda>first.
         if ap_next_cursor first \<noteq> None
         then Inr \<lparr>ap_items = filter_incident_self_loops node phase (ap_items first),
                   ap_next_cursor = map_option (incident_cursor node ty phase) (ap_next_cursor first)\<rparr>
         else let items = filter_incident_self_loops node phase (ap_items first)
              in if phase = IncomingPhase \<or> length items \<ge> limit then Inr \<lparr>ap_items = items, ap_next_cursor = None\<rparr>
                 else and_then (scan_directed_adjacency_page d s Incoming node ty None (limit - length items)) (\<lambda>page.
                   Inr \<lparr>ap_items = items @ filter_incident_self_loops node IncomingPhase (ap_items page),
                        ap_next_cursor = map_option (incident_cursor node ty IncomingPhase) (ap_next_cursor page)\<rparr>)))"

end
