(* ===== verification/Scan_Laws.thy ===== *)
theory Scan_Laws
  imports Snapshot_Scan
begin

text \<open>
  Pages are complete: a page holds every visible element up to its cursor, a page without a cursor is the last
  one, and the cursor moves forward.
\<close>

section \<open>Merging two pages\<close>

abbreviation (input) beyond :: "'k::linorder option \<Rightarrow> 'k \<Rightarrow> bool" where
  "beyond h k \<equiv> (case h of None \<Rightarrow> False | Some x \<Rightarrow> k > x)"

lemma map_filter_append [simp]: "List.map_filter f (xs @ ys) = List.map_filter f xs @ List.map_filter f ys"
  by (simp add: List.map_filter_def)

lemma map_filter_Cons: "List.map_filter f (x # xs) = (case f x of None \<Rightarrow> List.map_filter f xs | Some y \<Rightarrow> y # List.map_filter f xs)"
  by (simp add: List.map_filter_def split: option.split)

lemma map_filter_Nil [simp]: "List.map_filter f [] = []"
  by (simp add: List.map_filter_def)

lemma scan_candidates_spec:
  assumes "length items \<le> limit"
  shows "\<exists>pre rest. ks = pre @ rest
    \<and> scan_candidates h limit vis ks items consumed =
        (items @ List.map_filter vis pre, if pre = [] then consumed else Some (last pre))
    \<and> (\<forall>k \<in> set pre. \<not> beyond h k)
    \<and> length (items @ List.map_filter vis pre) \<le> limit
    \<and> (length (items @ List.map_filter vis pre) = limit \<or> pre = takeWhile (\<lambda>k. \<not> beyond h k) ks)"
  using assms
proof (induction ks arbitrary: items consumed)
  case (Cons k ks)
  show ?case
  proof (cases "beyond h k \<or> length items = limit")
    case True
    then show ?thesis using Cons.prems by (intro exI [of _ "[]"] exI [of _ "k # ks"]) auto
  next
    case False
    let ?items = "case vis k of None \<Rightarrow> items | Some x \<Rightarrow> items @ [x]"
    have "length ?items \<le> limit" using False Cons.prems by (auto split: option.splits)
    from Cons.IH [OF this, of "Some k"] obtain pre rest where pre: "ks = pre @ rest"
      "scan_candidates h limit vis ks ?items (Some k) = (?items @ List.map_filter vis pre, if pre = [] then Some k else Some (last pre))"
      "\<forall>k \<in> set pre. \<not> beyond h k" "length (?items @ List.map_filter vis pre) \<le> limit"
      "length (?items @ List.map_filter vis pre) = limit \<or> pre = takeWhile (\<lambda>k. \<not> beyond h k) ks"
      by blast
    have "?items @ List.map_filter vis pre = items @ List.map_filter vis (k # pre)"
      by (simp add: map_filter_Cons split: option.split)
    with pre False show ?thesis by (intro exI [of _ "k # pre"] exI [of _ rest]) auto
  qed
qed simp

lemma scan_candidates_cong:
  "(\<And>k. k \<in> set ks \<Longrightarrow> \<not> beyond h k \<Longrightarrow> vis k = vis' k) \<Longrightarrow>
   scan_candidates h limit vis ks items consumed = scan_candidates h limit vis' ks items consumed"
  by (induction ks arbitrary: items consumed) auto

lemma set_candidate_set [simp]: "set (candidate_set ks) = set ks"
  by (auto simp: candidate_set_def om_keys_iff om_get_put_all map_add_def map_of_eq_None_iff image_iff split: option.splits)

lemma sorted_om_keys [simp]: "sorted (om_keys m)"
  using asc_om_entries [of m] by (simp add: om_keys_def strict_sorted_iff)

lemma sorted_candidate_set [simp]: "sorted (candidate_set ks)" "distinct (candidate_set ks)"
  by (simp_all add: candidate_set_def)

lemma sorted_last_le: "k \<in> set ks \<Longrightarrow> sorted ks \<Longrightarrow> k \<le> last ks"
  by (induction ks) (auto split: if_splits)

lemma takeWhile_sorted: "sorted ks \<Longrightarrow> takeWhile (\<lambda>k. \<not> beyond h k) ks = filter (\<lambda>k. \<not> beyond h k) ks"
proof (cases h)
  case (Some x)
  assume "sorted ks"
  then show ?thesis unfolding Some by (induction ks) (auto simp: empty_filter_conv)
qed (induction ks, auto)

text \<open>What a page holds of a sorted list, and how far it reaches.\<close>

lemma take_reaches:
  assumes "sorted ks" "distinct ks" "k \<in> set ks" "k \<notin> set (take n ks)"
  shows "length (take n ks) = n \<and> (0 < n \<longrightarrow> last (take n ks) < k)"
proof -
  have mem: "k \<in> set (drop n ks)" using assms(3,4) by (metis Un_iff append_take_drop_id set_append)
  then have len: "length (take n ks) = n" by (cases "n < length ks") simp_all
  have "x < k" if "x \<in> set (take n ks)" for x
  proof -
    have "sorted (take n ks @ drop n ks)" using assms(1) by simp
    then have "x \<le> k" using that mem unfolding sorted_append by blast
    moreover have "x \<noteq> k" using that assms(4) by blast
    ultimately show ?thesis by simp
  qed
  moreover have "take n ks \<noteq> []" if "0 < n" using that len by auto
  ultimately show ?thesis using len by simp
qed

lemma horizon_covers:
  assumes "sorted B" "distinct B" "sorted V" "distinct V" "0 < n"
    and "h = scan_horizon (last_key (take n B)) (length (take n B) = n) (last_key (take n V)) (length (take n V) = n)"
    and "k \<in> set B \<union> set V" "\<not> beyond h k"
  shows "k \<in> set B \<longrightarrow> k \<in> set (take n B)" "k \<in> set V \<longrightarrow> k \<in> set (take n V)"
proof -
  have ne: "length (take n xs) = n \<Longrightarrow> take n xs \<noteq> []" for xs :: "'a list" using assms(5) by auto
  show "k \<in> set B \<longrightarrow> k \<in> set (take n B)"
  proof (rule impI, rule ccontr)
    assume "k \<in> set B" "k \<notin> set (take n B)"
    from take_reaches [OF assms(1,2) this] ne [of B] assms(5,8) show False
      unfolding assms(6) scan_horizon_def last_key_def by (auto simp: min_def split: option.splits if_splits)
  qed
  show "k \<in> set V \<longrightarrow> k \<in> set (take n V)"
  proof (rule impI, rule ccontr)
    assume "k \<in> set V" "k \<notin> set (take n V)"
    from take_reaches [OF assms(3,4) this] ne [of V] assms(5,8) show False
      unfolding assms(6) scan_horizon_def last_key_def by (auto simp: min_def split: option.splits if_splits)
  qed
qed

lemma horizon_member:
  assumes "scan_horizon (last_key b) bf (last_key v) vf = Some x"
  shows "x \<in> set b \<union> set v"
  using assms by (auto simp: scan_horizon_def last_key_def min_def split: if_splits)

lemma scan_page_spec:
  assumes "sorted B" "distinct B" "sorted V" "distinct V" "0 < n"
    and "h = scan_horizon (last_key (take n B)) (length (take n B) = n) (last_key (take n V)) (length (take n V) = n)"
    and "scan_candidates h n vis (candidate_set (take n B @ take n V)) [] None = (items, consumed)"
  shows "length items \<le> n \<and> (consumed = None \<longrightarrow> items = []) \<and>
    (if (h \<noteq> None \<or> length items = n) \<and> consumed \<noteq> None
     then the consumed \<in> set B \<union> set V \<and> items = List.map_filter vis (filter (\<lambda>k. k \<le> the consumed) (candidate_set (B @ V)))
     else items = List.map_filter vis (candidate_set (B @ V)))"
proof -
  let ?C = "candidate_set (take n B @ take n V)" and ?F = "candidate_set (B @ V)"
  have below: "filter (\<lambda>k. \<not> beyond h k) ?C = filter (\<lambda>k. \<not> beyond h k) ?F"
  proof (rule sorted_distinct_set_unique)
    show "set (filter (\<lambda>k. \<not> beyond h k) ?C) = set (filter (\<lambda>k. \<not> beyond h k) ?F)"
      using horizon_covers [OF assms(1-6)] by (auto dest: in_set_takeD)
  qed (auto simp: sorted_filter [of id, simplified])
  obtain pre rest where pre: "?C = pre @ rest" "items = List.map_filter vis pre" "consumed = (if pre = [] then None else Some (last pre))"
    "\<forall>k \<in> set pre. \<not> beyond h k" "length items \<le> n" "length items = n \<or> pre = takeWhile (\<lambda>k. \<not> beyond h k) ?C"
    using scan_candidates_spec [of "[]" n ?C h vis None] unfolding assms(7) append_Nil prod.inject list.size by blast
  have all: "sorted (pre @ rest)" "distinct (pre @ rest)" unfolding pre(1) [symmetric] by (rule sorted_candidate_set)+
  then have sorted_pre: "sorted pre" "distinct pre" unfolding sorted_append distinct_append by blast+
  have upto: "pre = filter (\<lambda>k. k \<le> last pre) ?F" if "pre \<noteq> []"
  proof (rule sorted_distinct_set_unique)
    have "k \<in> set pre \<longleftrightarrow> k \<in> set ?F \<and> k \<le> last pre" for k
    proof
      assume "k \<in> set pre"
      then have "k \<in> set ?C" using pre(1) by simp
      moreover have "k \<le> last pre" using \<open>k \<in> set pre\<close> sorted_pre(1) by (rule sorted_last_le)
      ultimately show "k \<in> set ?F \<and> k \<le> last pre" by (auto dest: in_set_takeD)
    next
      assume k: "k \<in> set ?F \<and> k \<le> last pre"
      have "\<not> beyond h (last pre)" using pre(4) that by simp
      then have "\<not> beyond h k" using k by (cases h) auto
      then have "k \<in> set ?C" using k arg_cong [OF below, of set] by (auto simp del: set_candidate_set)
      show "k \<in> set pre"
      proof (rule ccontr)
        assume "k \<notin> set pre"
        then have "k \<in> set rest" using \<open>k \<in> set ?C\<close> pre(1) by auto
        with all last_in_set [OF that] have "last pre \<le> k" "k \<noteq> last pre"
          unfolding sorted_append distinct_append by blast+
        then show False using k by simp
      qed
    qed
    then show "set pre = set (filter (\<lambda>k. k \<le> last pre) ?F)" by auto
  qed (auto simp: sorted_pre sorted_filter [of id, simplified])
  show ?thesis
  proof (cases "(h \<noteq> None \<or> length items = n) \<and> consumed \<noteq> None")
    case True
    then have ne: "pre \<noteq> []" using pre(3) by auto
    then have "last pre \<in> set ?C" using pre(1) by simp
    then have "last pre \<in> set B \<union> set V" by (auto dest: in_set_takeD)
    then show ?thesis using True ne upto pre(2,3,5) by auto
  next
    case False
    have "h = None"
    proof (rule ccontr)
      assume "h \<noteq> None"
      with False pre(3) have "pre = []" by (auto split: if_splits)
      with pre(2,6) assms(5) have "takeWhile (\<lambda>k. \<not> beyond h k) ?C = []" by auto
      then have "filter (\<lambda>k. \<not> beyond h k) ?C = []" by (simp add: takeWhile_sorted)
      moreover obtain x where "h = Some x" "x \<in> set ?C" using \<open>h \<noteq> None\<close> assms(6) horizon_member by fastforce
      ultimately show False by (auto simp: filter_empty_conv)
    qed
    then have FC: "?C = ?F" using below by simp
    have "pre = ?C"
    proof (cases "length items = n")
      case True
      with False pre(3) have "pre = []" by (auto split: if_splits)
      with pre(2) True assms(5) show ?thesis by simp
    qed (use pre(6) \<open>h = None\<close> in \<open>simp add: takeWhile_eq_all_conv\<close>)
    then have "items = List.map_filter vis ?F" using FC pre(2) by simp
    moreover have "consumed = None \<Longrightarrow> items = []" using pre(2,3) by (auto split: if_splits)
    ultimately show ?thesis using pre(5) False by auto
  qed
qed

section \<open>Scans by identity\<close>

text \<open>
  What a page of a scan by identity promises: its items are the elements of a listing (in the order of their
  identities) that follow \<open>after\<close>, up to the cursor if it has one.
\<close>

definition page_of :: "('a \<Rightarrow> i64) \<Rightarrow> 'a list \<Rightarrow> i64 \<Rightarrow> nat \<Rightarrow> 'a ScanPage \<Rightarrow> bool" where
  "page_of ident listing after limit page \<longleftrightarrow>
     length (sp_items page) \<le> limit
   \<and> (case sp_next_after page of
        None \<Rightarrow> sp_items page = filter (\<lambda>x. after < ident x) listing
      | Some n \<Rightarrow> after < n \<and> sp_items page = filter (\<lambda>x. after < ident x \<and> ident x \<le> n) listing)"

text \<open>The elements that a visibility function finds in a sorted list of keys, as a sorted listing.\<close>

lemma map_filter_listing:
  fixes ident :: "'a \<Rightarrow> 'k::linorder"
  assumes "sorted ks" "distinct ks" "\<And>k x. vis k = Some x \<Longrightarrow> ident x = k"
    and "sorted (map ident xs)" "distinct (map ident xs)"
    and "\<And>x. x \<in> set xs \<longleftrightarrow> ident x \<in> set ks \<and> vis (ident x) = Some x"
  shows "List.map_filter vis ks = xs"
proof (rule map_sorted_distinct_set_unique [where f = ident])
  have keys: "map ident (List.map_filter vis ks) = filter (\<lambda>k. vis k \<noteq> None) ks"
    using assms(3) by (induction ks) (auto simp: map_filter_Cons split: option.splits)
  show "sorted (map ident (List.map_filter vis ks))" "distinct (map ident (List.map_filter vis ks))"
    unfolding keys using assms(1,2) sorted_filter [of id ks] by simp_all
  have "x \<in> set (List.map_filter vis ks) \<longleftrightarrow> (\<exists>k \<in> set ks. vis k = Some x)" for x
    by (induction ks) (auto simp: map_filter_Cons split: option.splits)
  then have mem: "x \<in> set (List.map_filter vis ks) \<longleftrightarrow> ident x \<in> set ks \<and> vis (ident x) = Some x" for x
    using assms(3) by metis
  show eq: "set (List.map_filter vis ks) = set xs" by (rule set_eqI) (simp only: mem assms(6))
  show "inj_on ident (set (List.map_filter vis ks) \<union> set xs)"
    unfolding eq Un_absorb using assms(5) by (simp add: distinct_map)
qed (rule assms)+

lemma id_page_spec:
  assumes "sorted B" "distinct B" "sorted V" "distinct V" "0 < n"
    and h: "h = scan_horizon (last_key (take n B)) (length (take n B) = n) (last_key (take n V)) (length (take n V) = n)"
    and after: "\<And>k. k \<in> set B \<union> set V \<Longrightarrow> after < k"
    and vis: "\<And>k. k \<in> set (take n B) \<union> set (take n V) \<Longrightarrow> vis' k = vis k" "\<And>k x. vis k = Some x \<Longrightarrow> ident x = k"
    and listing: "sorted (map ident xs)" "distinct (map ident xs)"
      "\<And>x. x \<in> set xs \<and> after < ident x \<longleftrightarrow> ident x \<in> set B \<union> set V \<and> vis (ident x) = Some x"
  shows "page_of ident xs after n (id_page after n h (scan_candidates h n vis' (candidate_set (take n B @ take n V)) [] None))"
proof -
  obtain items consumed where scan: "scan_candidates h n vis (candidate_set (take n B @ take n V)) [] None = (items, consumed)"
    by fastforce
  have same: "scan_candidates h n vis' (candidate_set (take n B @ take n V)) [] None = (items, consumed)"
    unfolding scan [symmetric] using vis(1) by (intro scan_candidates_cong) auto
  have sub: "List.map_filter vis (filter R (candidate_set (B @ V))) = filter (\<lambda>x. after < ident x \<and> R (ident x)) xs" for R
    using listing vis(2)
    by (intro map_filter_listing [where ident = ident])
       (auto simp: sorted_filter [of id, simplified] sorted_filter distinct_map_filter)
  have whole: "List.map_filter vis (candidate_set (B @ V)) = filter (\<lambda>x. after < ident x) xs"
    using sub [of "\<lambda>_. True"] by simp
  show ?thesis
    unfolding same
  proof (cases consumed)
    case None
    then show "page_of ident xs after n (id_page after n h (items, consumed))"
      using scan_page_spec [OF assms(1-5) h scan] by (auto simp: page_of_def id_page_def whole)
  next
    case (Some k)
    then show "page_of ident xs after n (id_page after n h (items, consumed))"
      using scan_page_spec [OF assms(1-5) h scan] after [of k]
      by (cases "h \<noteq> None \<or> length items = n") (auto simp: page_of_def id_page_def whole sub)
  qed
qed

lemma saturating_succ_le: "i < i64_max \<Longrightarrow> saturating_succ i \<le> k \<longleftrightarrow> i < k"
  by (auto simp: saturating_succ_def)

lemma normalized_limit_pos: "0 < normalized_limit n"
  by (simp add: normalized_limit_def)

text \<open>The keys of an ordered map after a point.\<close>

lemma keys_after:
  "sorted (map fst (filter (\<lambda>(k, v). R k v) (om_entries m)))" "distinct (map fst (filter (\<lambda>(k, v). R k v) (om_entries m)))"
  "set (map fst (filter (\<lambda>(k, v). R k v) (om_entries m))) = {k. \<exists>v. om_get m k = Some v \<and> R k v}"
proof -
  have "sorted (map fst (om_entries m))" using sorted_om_keys [of m] by (simp add: om_keys_def)
  then show "sorted (map fst (filter (\<lambda>(k, v). R k v) (om_entries m)))" by (rule sorted_filter)
  show "distinct (map fst (filter (\<lambda>(k, v). R k v) (om_entries m)))" by (simp add: distinct_map_filter)
  show "set (map fst (filter (\<lambda>(k, v). R k v) (om_entries m))) = {k. \<exists>v. om_get m k = Some v \<and> R k v}"
    by (auto simp flip: om_entries_iff intro: rev_image_eqI)
qed

lemma scan_nodes_page:
  assumes "base_graph P d s b" "after < i64_max"
  shows "\<exists>page. scan_nodes_after d s after limit = Inr page \<and> page_of id (om_keys (g_nodes (view b s))) after (normalized_limit limit) page"
proof -
  let ?n = "normalized_limit limit" and ?ov = "ov_nodes (ss_overlay s)"
  define B where "B = map fst (filter (\<lambda>(n, _). after < n) (om_entries (g_nodes b)))"
  define V where "V = map fst (filter (\<lambda>(n, _). after < n) (om_entries ?ov))"
  have base: "base_node_page d s after ?n None = Inr (take ?n B)"
    using assms(1) by (auto simp: base_node_page_def base_graph_def checkpoint_holds_def commit_rows_def B_def empty_graph_def
        om_empty.rep_eq split: option.splits)
  have ov: "overlay_node_page s after ?n None = take ?n V"
    by (simp add: overlay_node_page_def V_def saturating_succ_le [OF assms(2)])
  let ?h = "scan_horizon (last_key (take ?n B)) (length (take ?n B) = ?n) (last_key (take ?n V)) (length (take ?n V) = ?n)"
  have "page_of id (om_keys (g_nodes (view b s))) after ?n (id_page after ?n ?h
      (scan_candidates ?h ?n (\<lambda>n. if node_domain_contains s n None (take ?n B) then Some n else None) (candidate_set (take ?n B @ take ?n V)) [] None))"
  proof (rule id_page_spec [where vis = "\<lambda>n. if om_has (g_nodes (view b s)) n then Some n else None"])
    show "sorted B" "distinct B" "sorted V" "distinct V" unfolding B_def V_def by (rule keys_after)+
    have sets: "set B = {n. om_has (g_nodes b) n \<and> after < n}" "set V = {n. om_has ?ov n \<and> after < n}"
      unfolding B_def V_def keys_after by (auto simp: om_has_def)
    show "after < k" if "k \<in> set B \<union> set V" for k using that sets by auto
    fix k assume k: "k \<in> set (take ?n B) \<union> set (take ?n V)"
    then have "k \<in> set B \<union> set V" by (auto dest: in_set_takeD)
    with k show "(if node_domain_contains s k None (take ?n B) then Some k else None) = (if om_has (g_nodes (view b s)) k then Some k else None)"
      using sets by (auto simp: node_domain_contains_def om_has_def view_get split: option.splits dest: in_set_takeD)
  next
    have sets: "set B = {n. om_has (g_nodes b) n \<and> after < n}" "set V = {n. om_has ?ov n \<and> after < n}"
      unfolding B_def V_def keys_after by (auto simp: om_has_def)
    fix x
    show "x \<in> set (om_keys (g_nodes (view b s))) \<and> after < id x \<longleftrightarrow>
      id x \<in> set B \<union> set V \<and> (if om_has (g_nodes (view b s)) (id x) then Some (id x) else None) = Some x"
      unfolding sets by (auto simp: om_keys_iff om_has_def view_get split: option.splits)
  qed (auto simp: normalized_limit_pos split: if_splits)
  then show ?thesis by (simp add: scan_nodes_after_def scan_node_domain_after_def base ov Let_def)
qed

text \<open>Keys of a map of pairs, with one component fixed.\<close>

lemma strict_om_keys: "sorted_wrt (<) (om_keys m)"
  using asc_om_entries [of m] by (simp add: om_keys_def)

lemma strict_fst: "sorted_wrt (<) ks \<Longrightarrow> sorted_wrt (<) (map fst (filter (\<lambda>(n, l'). l' = l \<and> R n) ks))"
  for ks :: "(i64 \<times> i64) list"
  by (induction ks) (auto simp: less_prod_def')

lemma strict_snd: "sorted_wrt (<) ks \<Longrightarrow> sorted_wrt (<) (map snd (filter (\<lambda>(l', n). l' = l \<and> R n) ks))"
  for ks :: "(i64 \<times> i64) list"
  by (induction ks) (auto simp: less_prod_def')

text \<open>The nodes of a label.\<close>

definition labelled :: "graph \<Rightarrow> i64 \<Rightarrow> i64 list" where
  "labelled g l = map fst (filter (\<lambda>(_, l'). l' = l) (om_keys (g_labels g)))"

lemma labelled_listing: "sorted (labelled g l)" "distinct (labelled g l)" "n \<in> set (labelled g l) \<longleftrightarrow> om_has (g_labels g) (n, l)"
proof -
  have "sorted_wrt (<) (labelled g l)"
    using strict_fst [OF strict_om_keys, where R = "\<lambda>_. True"] by (simp add: labelled_def)
  then show "sorted (labelled g l)" "distinct (labelled g l)" by (simp_all add: strict_sorted_iff)
  show "n \<in> set (labelled g l) \<longleftrightarrow> om_has (g_labels g) (n, l)"
    by (auto simp: labelled_def om_keys_iff om_has_def image_iff)
qed

lemma scan_label_page:
  assumes "snapshot_of P d s b g" "after < i64_max"
  shows "\<exists>page. scan_label_after d s l after limit = Inr page \<and> page_of id (labelled g l) after (normalized_limit limit) page"
proof -
  let ?n = "normalized_limit limit" and ?ov = "ov_labels (ss_overlay s)"
  have sn: "base_graph P d s b" "g = view b s" and by_label: "om_get (ov_labels_by_label (ss_overlay s)) (l, n) = om_get ?ov (n, l)" for l n
    using assms(1) by (auto simp: snapshot_of_def overlay_ok_def)
  have ids: "id_ok n" if "om_get ?ov (n, l) = Some p" for n l p
    using assms(1) that by (auto simp: snapshot_of_def wf_layer_iff overlay_layer_def om_all_iff) blast
  define B where "B = map fst (filter (\<lambda>(n, l'). l' = l \<and> after < n) (om_keys (g_labels b)))"
  define V where "V = map snd (filter (\<lambda>(l', n). l' = l \<and> after < n) (om_keys (ov_labels_by_label (ss_overlay s))))"
  have strict: "sorted_wrt (<) B" "sorted_wrt (<) V"
    unfolding B_def V_def by (rule strict_fst [OF strict_om_keys], rule strict_snd [OF strict_om_keys])
  have sets: "set B = {n. om_has (g_labels b) (n, l) \<and> after < n}" "set V = {n. om_has ?ov (n, l) \<and> after < n}"
    by (auto simp: B_def V_def om_keys_iff om_has_def image_iff by_label)
  have base: "base_node_page d s after ?n (Some l) = Inr (take ?n B)"
    using sn(1) by (auto simp: base_node_page_def base_graph_def checkpoint_holds_def commit_rows_def B_def empty_graph_def
        om_empty.rep_eq om_keys_def filter_map o_def case_prod_unfold split: option.splits)
  have range: "(l, saturating_succ after) \<le> k \<and> k \<le> (l, i64_max) \<longleftrightarrow> fst k = l \<and> after < snd k"
    if "k \<in> set (om_keys (ov_labels_by_label (ss_overlay s)))" for k
  proof -
    obtain l' n where k: "k = (l', n)" by fastforce
    then have "id_ok n" using that ids by (auto simp: om_keys_iff by_label)
    then show ?thesis using saturating_succ_le [OF assms(2), of n] by (auto simp: k id_ok_def in_i64_def)
  qed
  have "overlay_node_page s after ?n (Some l) = take ?n (map snd (filter (\<lambda>k. (l, saturating_succ after) \<le> k \<and> k \<le> (l, i64_max))
      (om_keys (ov_labels_by_label (ss_overlay s)))))"
    by (simp add: overlay_node_page_def om_keys_def filter_map o_def case_prod_unfold)
  also have "filter (\<lambda>k. (l, saturating_succ after) \<le> k \<and> k \<le> (l, i64_max)) (om_keys (ov_labels_by_label (ss_overlay s))) =
      filter (\<lambda>(l', n). l' = l \<and> after < n) (om_keys (ov_labels_by_label (ss_overlay s)))"
    using range by (intro filter_cong) auto
  finally have ov: "overlay_node_page s after ?n (Some l) = take ?n V" by (simp add: V_def)
  let ?h = "scan_horizon (last_key (take ?n B)) (length (take ?n B) = ?n) (last_key (take ?n V)) (length (take ?n V) = ?n)"
  have "page_of id (labelled g l) after ?n (id_page after ?n ?h
      (scan_candidates ?h ?n (\<lambda>n. if node_domain_contains s n (Some l) (take ?n B) then Some n else None) (candidate_set (take ?n B @ take ?n V)) [] None))"
  proof (rule id_page_spec [where vis = "\<lambda>n. if om_has (g_labels g) (n, l) then Some n else None"])
    show "after < k" if "k \<in> set B \<union> set V" for k using that sets by auto
    fix k assume k: "k \<in> set (take ?n B) \<union> set (take ?n V)"
    then have "k \<in> set B \<union> set V" by (auto dest: in_set_takeD)
    with k show "(if node_domain_contains s k (Some l) (take ?n B) then Some k else None) = (if om_has (g_labels g) (k, l) then Some k else None)"
      using sets by (auto simp: node_domain_contains_def om_has_def sn(2) view_get by_label split: option.splits dest: in_set_takeD)
  next
    fix x
    show "x \<in> set (labelled g l) \<and> after < id x \<longleftrightarrow>
      id x \<in> set B \<union> set V \<and> (if om_has (g_labels g) (id x, l) then Some (id x) else None) = Some x"
      unfolding sets labelled_listing(3) by (auto simp: om_has_def sn(2) view_get split: option.splits)
  qed (use strict labelled_listing(1,2) in \<open>auto simp: normalized_limit_pos strict_sorted_iff split: if_splits\<close>)
  then show ?thesis by (simp add: scan_label_after_def scan_node_domain_after_def base ov Let_def)
qed

text \<open>Relationships by identity, all of them or those of one type.\<close>

definition of_type :: "i64 option \<Rightarrow> RelationshipRecord \<Rightarrow> bool" where
  "of_type ty r \<longleftrightarrow> ty = None \<or> ty = Some (type_id r)"

lemma values_listing:
  assumes "om_all (\<lambda>i r. rel_id r = i) m"
  shows "sorted (map rel_id (om_values m))" "distinct (map rel_id (om_values m))"
proof -
  have "map rel_id (om_values m) = om_keys m"
    using assms by (auto simp: om_values_def om_keys_def om_all_def list_all_iff)
  then show "sorted (map rel_id (om_values m))" "distinct (map rel_id (om_values m))" by simp_all
qed

lemma merge_relationship_page_spec:
  assumes "snapshot_of P d s b g" "after < i64_max" "0 < n"
    and V: "V = map fst (filter (\<lambda>(i, delta). after < i \<and> of_type ty (rd_record delta)) (om_entries (ov_relationships (ss_overlay s))))"
    and R: "R = filter (\<lambda>r. after < rel_id r \<and> of_type ty r) (om_values (g_relationships b))"
  shows "page_of rel_id (filter (of_type ty) (om_values (g_relationships g))) after n
    (merge_relationship_page s after n (take n R) (take n V) (of_type ty))"
proof -
  let ?ov = "ov_relationships (ss_overlay s)"
  have ids: "om_all (\<lambda>i r. rel_id r = i) (g_relationships b)" "om_all (\<lambda>i r. rel_id r = i) (g_relationships g)"
    and ov: "om_all (\<lambda>i delta. rel_id (rd_record delta) = i) ?ov" and g: "g = view b s"
    using assms(1) snapshot_of_graph_ok [OF assms(1)] by (auto simp: snapshot_of_def graph_ok_def om_all_iff overlay_ok_def)
  define B where "B = map rel_id R"
  have R': "sorted (map rel_id R)" "distinct (map rel_id R)" "set R = {r. om_get (g_relationships b) (rel_id r) = Some r \<and> after < rel_id r \<and> of_type ty r}"
    unfolding R using values_listing [OF ids(1)] values_by_id(1) [OF ids(1)] by (auto simp: sorted_filter distinct_map_filter)
  have V': "sorted V" "distinct V" "set V = {i. \<exists>delta. om_get ?ov i = Some delta \<and> after < i \<and> of_type ty (rd_record delta)}"
    unfolding V by (rule keys_after)+
  define page where "page = om_put_all (map (\<lambda>r. (rel_id r, r)) (take n R)) om_empty"
  have dist: "distinct (map rel_id (take n R))" unfolding take_map [symmetric] using R'(2) by (rule distinct_take)
  have page_get: "om_get page i = Some r \<longleftrightarrow> r \<in> set (take n R) \<and> rel_id r = i" for i r
    unfolding page_def om_get_put_all using dist
    by (auto simp: map_of_rev o_def image_iff)
  have page_keys: "set (om_keys page) = set (take n B)"
    by (auto simp: om_keys_iff page_get B_def take_map)
  have cands: "candidate_set (om_keys page @ take n V) = candidate_set (take n B @ take n V)"
    by (rule sorted_distinct_set_unique) (simp_all add: page_keys)
  let ?h = "scan_horizon (last_key (take n B)) (length (take n B) = n) (last_key (take n V)) (length (take n V) = n)"
  let ?vis = "\<lambda>i. case om_get (g_relationships g) i of None \<Rightarrow> None | Some r \<Rightarrow> if of_type ty r then Some r else None"
  let ?vis' = "\<lambda>i. case om_get ?ov i of
                    Some delta \<Rightarrow> if rd_op delta = Add \<and> of_type ty (rd_record delta) then Some (rd_record delta) else None
                  | None \<Rightarrow> om_get page i"
  have "page_of rel_id (filter (of_type ty) (om_values (g_relationships g))) after n (id_page after n ?h
      (scan_candidates ?h n ?vis' (candidate_set (take n B @ take n V)) [] None))"
  proof (rule id_page_spec [where vis = ?vis])
    show "sorted B" "distinct B" "sorted V" "distinct V" using R' V' by (simp_all add: B_def)
    show "after < k" if "k \<in> set B \<union> set V" for k using that R'(3) V'(3) by (auto simp: B_def)
    show "?vis' k = ?vis k" if k: "k \<in> set (take n B) \<union> set (take n V)" for k
    proof (cases "om_get ?ov k")
      case None
      then have "k \<notin> set (take n V)" using V'(3) by (auto dest: in_set_takeD)
      with k obtain r where "r \<in> set (take n R)" "rel_id r = k" by (auto simp: B_def take_map)
      moreover from this have "om_get (g_relationships b) k = Some r" "of_type ty r" using R'(3) by (auto dest: in_set_takeD)
      ultimately show ?thesis using None page_get by (auto simp: g view_get)
    qed (auto simp: g view_get relationship_change_def)
    show "rel_id x = k" if "?vis k = Some x" for k x
      using that ids(2) by (auto simp: om_all_iff split: option.splits if_splits)
    show "x \<in> set (filter (of_type ty) (om_values (g_relationships g))) \<and> after < rel_id x \<longleftrightarrow>
      rel_id x \<in> set B \<union> set V \<and> ?vis (rel_id x) = Some x" for x
    proof -
      have "rel_id x \<in> set B \<union> set V" if x: "om_get (g_relationships g) (rel_id x) = Some x" "of_type ty x" "after < rel_id x"
      proof (cases "om_get ?ov (rel_id x)")
        case None
        then have "x \<in> set R" using x R'(3) by (simp add: g view_get)
        then show ?thesis by (simp add: B_def)
      next
        case (Some delta)
        then have "rd_record delta = x" using x(1) by (simp add: g view_get relationship_change_def split: if_splits)
        then show ?thesis using Some x V'(3) by auto
      qed
      moreover have "after < k" if "k \<in> set B \<union> set V" for k using that R'(3) V'(3) by (auto simp: B_def)
      moreover have "?vis (rel_id x) = Some x \<longleftrightarrow> om_get (g_relationships g) (rel_id x) = Some x \<and> of_type ty x"
        by (cases "om_get (g_relationships g) (rel_id x)") auto
      moreover have "x \<in> set (om_values (g_relationships g)) \<longleftrightarrow> om_get (g_relationships g) (rel_id x) = Some x"
        unfolding values_by_id(1) [OF ids(2)] by simp
      ultimately show ?thesis by (simp only: set_filter mem_Collect_eq) blast
    qed
  qed (use values_listing [OF ids(2)] assms(3) in \<open>auto simp: sorted_filter distinct_map_filter\<close>)
  then show ?thesis
    by (simp add: merge_relationship_page_def Let_def page_def [symmetric] cands B_def take_map)
qed

lemma scan_relationships_page:
  assumes "snapshot_of P d s b g" "after < i64_max"
  shows "\<exists>page. scan_relationships_after d s after limit = Inr page
      \<and> page_of rel_id (om_values (g_relationships g)) after (normalized_limit limit) page"
    and "\<exists>page. scan_relationship_type_after d s ty after limit = Inr page
      \<and> page_of rel_id (filter (\<lambda>r. type_id r = ty) (om_values (g_relationships g))) after (normalized_limit limit) page"
proof -
  have base: "base_graph P d s b" using assms(1) by (simp add: snapshot_of_def)
  have rows: "checkpoint_relationship_page d s t after n = Inr (take n (filter (\<lambda>r. after < rel_id r \<and> of_type t r) (om_values (g_relationships b))))" for t n
  proof -
    have "(case t of None \<Rightarrow> True | Some t \<Rightarrow> type_id r = t) = of_type t r" for r by (auto simp: of_type_def split: option.split)
    then show ?thesis
      using base checkpoint_relationships_view
      by (auto simp: checkpoint_relationship_page_def base_graph_def empty_graph_def om_empty.rep_eq om_values_def split: option.splits)
  qed
  have ov1: "map fst (filter (\<lambda>(i, _). saturating_succ after \<le> i) (om_entries (ov_relationships (ss_overlay s)))) =
      map fst (filter (\<lambda>(i, delta). after < i \<and> of_type None (rd_record delta)) (om_entries (ov_relationships (ss_overlay s))))"
    by (simp add: saturating_succ_le [OF assms(2)] of_type_def)
  have ov2: "map fst (filter (\<lambda>(_, delta). type_id (rd_record delta) = ty) (filter (\<lambda>(i, _). saturating_succ after \<le> i)
        (om_entries (ov_relationships (ss_overlay s))))) =
      map fst (filter (\<lambda>(i, delta). after < i \<and> of_type (Some ty) (rd_record delta)) (om_entries (ov_relationships (ss_overlay s))))"
    by (auto simp: saturating_succ_le [OF assms(2)] of_type_def case_prod_unfold intro!: arg_cong [where f = "map fst"] filter_cong)
  note merge = merge_relationship_page_spec [OF assms normalized_limit_pos refl refl, of _ limit]
  have all: "of_type None = (\<lambda>_. True)" "of_type (Some ty) = (\<lambda>r. type_id r = ty)" by (auto simp: of_type_def fun_eq_iff)
  show "\<exists>page. scan_relationships_after d s after limit = Inr page
      \<and> page_of rel_id (om_values (g_relationships g)) after (normalized_limit limit) page"
    using merge [of None] by (simp add: scan_relationships_after_def base_relationship_page_def rows overlay_relationship_ids_def ov1 all(1) Let_def)
  show "\<exists>page. scan_relationship_type_after d s ty after limit = Inr page
      \<and> page_of rel_id (filter (\<lambda>r. type_id r = ty) (om_values (g_relationships g))) after (normalized_limit limit) page"
    using merge [of "Some ty"]
    unfolding scan_relationship_type_after_def base_relationship_type_page_def rows Let_def ov2 all(2) by simp
qed

section \<open>Scans of a neighbourhood\<close>

text \<open>A relationship keeps its ends and type: the overlay describes the relationships of the base as the base does.\<close>

definition tuple_stable :: "graph \<Rightarrow> SnapshotState \<Rightarrow> bool" where
  "tuple_stable b s \<longleftrightarrow> (\<forall>i delta r. om_get (ov_relationships (ss_overlay s)) i = Some delta \<longrightarrow>
     om_get (g_relationships b) i = Some r \<longrightarrow> rd_record delta = r)"

definition key_after :: "AdjacencyKey option \<Rightarrow> AdjacencyKey \<Rightarrow> bool" where
  "key_after after k = (case after of None \<Rightarrow> True | Some a \<Rightarrow> a < k)"

definition adjacency_page_of ::
    "SnapshotState \<Rightarrow> graph \<Rightarrow> Direction \<Rightarrow> i64 \<Rightarrow> i64 option \<Rightarrow> AdjacencyKey option \<Rightarrow> nat \<Rightarrow> AdjacencyScanPage \<Rightarrow> bool" where
  "adjacency_page_of s g direction node ty after limit page \<longleftrightarrow>
     length (ap_items page) \<le> limit
   \<and> (case ap_next_cursor page of
        None \<Rightarrow> length (ap_items page) < limit \<and> ap_items page = filter (\<lambda>r. key_after after (scan_adjacency_key direction r)) (adjacent g node ty direction)
      | Some k \<Rightarrow> \<exists>n. k = \<lparr>ac_cache_identity = ss_cache_identity s, ac_kind = directed_kind direction, ac_node_id = node,
            ac_type_id = ty, ac_phase = directed_phase direction, ac_after = Some n\<rparr> \<and> key_after after n
          \<and> (ty = None \<or> ty = Some (fst n))
          \<and> ap_items page = filter (\<lambda>r. key_after after (scan_adjacency_key direction r) \<and> scan_adjacency_key direction r \<le> n)
              (adjacent g node ty direction))"

lemma scan_adjacency_key_sort: "scan_adjacency_key direction r = adjacency_sort_key direction r"
  by (cases direction) (simp_all add: scan_adjacency_key_def adjacency_sort_key_def)

lemma sorted_fixed_type:
  "sorted (map (\<lambda>r. snd (f r)) xs) \<Longrightarrow> \<forall>r \<in> set xs. fst (f r) = (t :: i64) \<Longrightarrow> sorted (map f xs)"
  for f :: "'a \<Rightarrow> i64 \<times> 'b::linorder"
  by (induction xs) (auto simp: less_eq_prod_def)

lemma base_directed_rows:
  assumes "base_graph P d s b" "om_all (\<lambda>i r. rel_id r = i) (g_relationships b)"
    and "ty = None \<or> after = None \<or> ty = Some (fst (the after))"
  shows "\<exists>rows. (\<forall>n. base_adjacency_keyset_page d s direction node ty after n = Inr (take n rows))
    \<and> sorted (map (scan_adjacency_key direction) rows) \<and> distinct (map (scan_adjacency_key direction) rows)
    \<and> set rows = {r. om_get (g_relationships b) (rel_id r) = Some r \<and> adjacency_node direction r = node \<and> of_type ty r
        \<and> key_after after (scan_adjacency_key direction r)}"
proof (cases "ss_checkpoint s")
  case None
  with assms(1) have "b = empty_graph" by (simp add: base_graph_def)
  with None show ?thesis by (intro exI [of _ "[]"]) (simp add: base_adjacency_keyset_page_def empty_graph_def)
next
  case (Some c)
  with assms(1) have all: "checkpoint_relationships d c = om_values (g_relationships b)"
    by (simp add: base_graph_def checkpoint_relationships_view)
  let ?key = "scan_adjacency_key direction"
  define rows where "rows = filter (\<lambda>r. adjacency_node direction r = node \<and> of_type ty r \<and> key_after after (?key r)) (om_values (g_relationships b))"
  have cond: "(case ty of None \<Rightarrow> True | Some t \<Rightarrow> type_id r = t) \<and> (case after of None \<Rightarrow> True
      | Some a \<Rightarrow> if ty \<noteq> None then snd a < snd (?key r) else a < ?key r) \<longleftrightarrow> of_type ty r \<and> key_after after (?key r)" for r
    using assms(3) by (cases ty; cases after) (auto simp: of_type_def key_after_def scan_adjacency_key_def less_prod_def)
  define sorted_rows where "sorted_rows = (if ty \<noteq> None then sort_key (\<lambda>r. snd (?key r)) rows else sort_key ?key rows)"
  have "base_adjacency_keyset_page d s direction node ty after n = Inr (take n sorted_rows)" for n
    using Some cond by (simp add: base_adjacency_keyset_page_def base_directed_adjacency_page_def all sorted_rows_def rows_def)
  moreover have "set rows = {r. om_get (g_relationships b) (rel_id r) = Some r \<and> adjacency_node direction r = node \<and> of_type ty r \<and> key_after after (?key r)}"
    using values_by_id(1) [OF assms(2)] by (auto simp: rows_def)
  moreover have "sorted (map ?key sorted_rows)"
  proof (cases ty)
    case (Some t)
    then have "\<forall>r \<in> set sorted_rows. fst (?key r) = t" by (auto simp: sorted_rows_def rows_def of_type_def scan_adjacency_key_def)
    moreover have "sorted (map (\<lambda>r. snd (?key r)) sorted_rows)" using Some by (simp add: sorted_rows_def)
    ultimately show ?thesis by (intro sorted_fixed_type [of ?key])
  qed (simp add: sorted_rows_def)
  moreover have "distinct (map ?key sorted_rows)"
  proof -
    have "distinct (map rel_id rows)" unfolding rows_def using values_listing(2) [OF assms(2)] by (rule distinct_map_filter)
    then have "distinct rows" "inj_on ?key (set rows)"
      by (auto simp: distinct_map inj_on_def scan_adjacency_key_def)
    then show ?thesis by (simp add: distinct_map sorted_rows_def)
  qed
  moreover have "set sorted_rows = set rows" by (simp add: sorted_rows_def)
  ultimately show ?thesis by blast
qed

text \<open>The entries of an index at one node.\<close>

lemma strict_node:
  "sorted_wrt (<) (map fst kvs) \<Longrightarrow> sorted_wrt (<) (map (\<lambda>e. snd (fst e)) (filter (\<lambda>e. fst (fst e) = node \<and> R e) kvs))"
  for kvs :: "((i64 \<times> 'k::linorder) \<times> 'v) list"
  by (induction kvs) (auto simp: less_prod_def')

lemma overlay_directed_rows:
  assumes "snapshot_of P d s b g" "ty = None \<or> after = None \<or> ty = Some (fst (the after))"
  shows "\<exists>rows. (\<forall>n. overlay_adjacency_keyset_page s direction node ty after n =
        map (\<lambda>delta. (scan_adjacency_key direction (rd_record delta), rd_record delta, rd_op delta)) (take n rows))
    \<and> sorted_wrt (<) (map (\<lambda>delta. scan_adjacency_key direction (rd_record delta)) rows)
    \<and> set rows = {delta. om_get (ov_relationships (ss_overlay s)) (rel_id (rd_record delta)) = Some delta
        \<and> adjacency_node direction (rd_record delta) = node \<and> of_type ty (rd_record delta)
        \<and> key_after after (scan_adjacency_key direction (rd_record delta))}"
proof -
  let ?key = "scan_adjacency_key direction"
  define index where "index = adjacency_index direction (ss_overlay s)"
  have ok: "overlay_ok (ss_overlay s)" using assms(1) by (simp add: snapshot_of_def)
  have entry: "(k, delta) \<in> set (om_entries index) \<longleftrightarrow> om_get (ov_relationships (ss_overlay s)) (rel_id (rd_record delta)) = Some delta
      \<and> k = (adjacency_node direction (rd_record delta), ?key (rd_record delta))" for k delta
    unfolding om_entries_iff index_def adjacency_indexed [OF ok] by (simp add: adjacency_key_def scan_adjacency_key_sort)
  have wf: "wf_relationship (rd_record delta)" if "om_get (ov_relationships (ss_overlay s)) i = Some delta" for i delta
    using assms(1) that by (auto simp: snapshot_of_def wf_layer_iff overlay_layer_def om_all_iff)
  define R where "R = (\<lambda>e :: (i64 \<times> AdjacencyKey) \<times> RelationshipDelta. of_type ty (rd_record (snd e)) \<and> key_after after (snd (fst e)))"
  define entries where "entries = filter (\<lambda>e. fst (fst e) = node \<and> R e) (om_entries index)"
  have range: "filter (\<lambda>((_, t, _, _), _). case ty of None \<Rightarrow> True | Some t' \<Rightarrow> t = t')
      (filter (\<lambda>(k, _). (case after of Some a \<Rightarrow> (node, a) < k
           | None \<Rightarrow> (node, case ty of None \<Rightarrow> i64_min | Some t \<Rightarrow> t, i64_min, i64_min) \<le> k)
         \<and> k \<le> (node, case ty of None \<Rightarrow> i64_max | Some t \<Rightarrow> t, i64_max, i64_max)) (om_entries index)) = entries"
    unfolding entries_def R_def filter_filter
  proof (rule filter_cong [OF refl])
    fix e assume "e \<in> set (om_entries index)"
    then obtain delta where e: "e = ((adjacency_node direction (rd_record delta), ?key (rd_record delta)), delta)"
      "om_get (ov_relationships (ss_overlay s)) (rel_id (rd_record delta)) = Some delta"
      using entry [of "fst e" "snd e"] by (intro that [of "snd e"]) (auto intro: prod_eqI)
    obtain t x i where k: "?key (rd_record delta) = (t, x, i)" "t = type_id (rd_record delta)" "id_ok t" "id_ok x" "id_ok i"
      using wf [OF e(2)] by (cases direction) (auto simp: scan_adjacency_key_def wf_relationship_def)
    show "((\<lambda>(k, _). (case after of Some a \<Rightarrow> (node, a) < k
           | None \<Rightarrow> (node, case ty of None \<Rightarrow> i64_min | Some t \<Rightarrow> t, i64_min, i64_min) \<le> k)
         \<and> k \<le> (node, case ty of None \<Rightarrow> i64_max | Some t \<Rightarrow> t, i64_max, i64_max)) e
         \<and> (\<lambda>((_, t, _, _), _). case ty of None \<Rightarrow> True | Some t' \<Rightarrow> t = t') e) =
       (fst (fst e) = node \<and> of_type ty (rd_record (snd e)) \<and> key_after after (snd (fst e)))"
      using k(3-5) unfolding e(1)
      by (cases after; cases ty) (auto simp: k(1,2) of_type_def key_after_def id_ok_def in_i64_def)
  qed
  have "overlay_adjacency_keyset_page s direction node ty after n =
      map (\<lambda>delta. (?key (rd_record delta), rd_record delta, rd_op delta)) (take n (map snd entries))" for n
  proof -
    have "overlay_adjacency_keyset_page s direction node ty after n = map (\<lambda>((_, k), delta). (k, rd_record delta, rd_op delta)) (take n entries)"
      unfolding overlay_adjacency_keyset_page_def Let_def range [symmetric] index_def adjacency_index_def ..
    moreover have "snd (fst e) = ?key (rd_record (snd e))" if "e \<in> set (take n entries)" for e
      using that entry [of "fst e" "snd e"] by (auto simp: entries_def dest!: in_set_takeD)
    ultimately show ?thesis by (auto simp: take_map)
  qed
  moreover have "sorted_wrt (<) (map (\<lambda>delta. ?key (rd_record delta)) (map snd entries))"
  proof -
    have "?key (rd_record (snd e)) = snd (fst e)" if "e \<in> set entries" for e
      using that entry [of "fst e" "snd e"] by (auto simp: entries_def)
    then have "map (\<lambda>delta. ?key (rd_record delta)) (map snd entries) = map (\<lambda>e. snd (fst e)) entries" by simp
    moreover have "sorted_wrt (<) (map (\<lambda>e. snd (fst e)) entries)"
      unfolding entries_def by (rule strict_node) (rule asc_om_entries)
    ultimately show ?thesis by (simp only:)
  qed
  moreover have "set (map snd entries) = {delta. om_get (ov_relationships (ss_overlay s)) (rel_id (rd_record delta)) = Some delta
        \<and> adjacency_node direction (rd_record delta) = node \<and> of_type ty (rd_record delta) \<and> key_after after (?key (rd_record delta))}"
  proof (rule set_eqI)
    fix delta
    have "delta \<in> set (map snd entries) \<longleftrightarrow> (\<exists>k. (k, delta) \<in> set (om_entries index) \<and> fst k = node \<and> R (k, delta))"
      by (auto simp: entries_def image_iff Bex_def)
    then show "delta \<in> set (map snd entries) \<longleftrightarrow> delta \<in> {delta. om_get (ov_relationships (ss_overlay s)) (rel_id (rd_record delta)) = Some delta
        \<and> adjacency_node direction (rd_record delta) = node \<and> of_type ty (rd_record delta) \<and> key_after after (?key (rd_record delta))}"
      unfolding entry R_def by auto
  qed
  ultimately show ?thesis by blast
qed

lemma adjacent_listing:
  assumes "om_all (\<lambda>i r. rel_id r = i) (g_relationships g)"
  shows "sorted (map (scan_adjacency_key direction) (adjacent g node ty direction))"
    and "distinct (map (scan_adjacency_key direction) (adjacent g node ty direction))"
    and "r \<in> set (adjacent g node ty direction) \<longleftrightarrow> om_get (g_relationships g) (rel_id r) = Some r \<and> adjacency_node direction r = node \<and> of_type ty r"
proof -
  have key: "scan_adjacency_key direction = adjacency_sort_key direction" by (rule ext) (rule scan_adjacency_key_sort)
  show "sorted (map (scan_adjacency_key direction) (adjacent g node ty direction))" by (simp add: adjacent_def key)
  let ?rs = "filter (\<lambda>r. adjacency_node direction r = node \<and> (ty = None \<or> ty = Some (type_id r))) (om_values (g_relationships g))"
  have "distinct (map rel_id ?rs)" using values_listing(2) [OF assms] by (rule distinct_map_filter)
  then have "distinct ?rs" "inj_on (scan_adjacency_key direction) (set ?rs)"
    by (auto simp: distinct_map inj_on_def scan_adjacency_key_def)
  then show "distinct (map (scan_adjacency_key direction) (adjacent g node ty direction))" by (simp add: adjacent_def distinct_map)
  show "r \<in> set (adjacent g node ty direction) \<longleftrightarrow> om_get (g_relationships g) (rel_id r) = Some r \<and> adjacency_node direction r = node \<and> of_type ty r"
    using values_by_id(1) [OF assms] by (auto simp: adjacent_def of_type_def)
qed

lemma adjacency_matches_iff: "adjacency_matches direction node ty r \<longleftrightarrow> adjacency_node direction r = node \<and> of_type ty r"
  by (auto simp: adjacency_matches_def adjacency_node_def of_type_def split: Direction.split)

text \<open>The candidates of a merge, key by key.\<close>

lemma adjacency_candidates:
  assumes "distinct (map key base)" "distinct (map (\<lambda>delta. key (rd_record delta)) overlay)"
  shows "om_get (om_put_all (map (\<lambda>delta. (key (rd_record delta), if rd_op delta = Add then Some (rd_record delta) else None)) overlay)
      (om_put_all (map (\<lambda>r. (key r, Some r)) base) om_empty)) k =
    (case List.find (\<lambda>delta. key (rd_record delta) = k) overlay of
       Some delta \<Rightarrow> Some (if rd_op delta = Add then Some (rd_record delta) else None)
     | None \<Rightarrow> map_option Some (List.find (\<lambda>r. key r = k) base))"
proof -
  have find: "map_of (map (\<lambda>x. (f x, h x)) xs) k = map_option h (List.find (\<lambda>x. f x = k) xs)" for f :: "'x \<Rightarrow> 'k" and h :: "'x \<Rightarrow> 'y" and xs and k
    by (induction xs) auto
  show ?thesis
    unfolding om_get_put_all using assms
    by (simp add: map_of_rev o_def find map_add_def split: option.splits)
qed

lemma find_key:
  assumes "distinct (map f xs)" "x \<in> set xs"
  shows "List.find (\<lambda>y. f y = f x) xs = Some x"
  using assms by (induction xs) (auto simp: image_iff)

lemma find_SomeD: "List.find Q xs = Some x \<Longrightarrow> x \<in> set xs \<and> Q x"
  by (induction xs) (auto split: if_splits)

lemma find_key_None: "List.find (\<lambda>y. f y = k) xs = None \<longleftrightarrow> k \<notin> f ` set xs"
  by (auto simp: find_None_iff)

lemma scan_directed_page:
  assumes "snapshot_of P d s b g" "tuple_stable b s"
    and "ty = None \<or> after = None \<or> ty = Some (fst (the after))"
    and "cursor = map_option (\<lambda>a. \<lparr>ac_cache_identity = ss_cache_identity s, ac_kind = directed_kind direction, ac_node_id = node,
        ac_type_id = ty, ac_phase = ph, ac_after = Some a\<rparr>) after"
  shows "\<exists>page. scan_directed_adjacency_page d s direction node ty cursor limit = Inr page
    \<and> adjacency_page_of s g direction node ty after (normalized_limit limit) page"
proof -
  let ?key = "scan_adjacency_key direction" and ?n = "normalized_limit limit" and ?ov = "ov_relationships (ss_overlay s)"
  have sn: "base_graph P d s b" "g = view b s" using assms(1) by (auto simp: snapshot_of_def)
  have ids: "om_all (\<lambda>i r. rel_id r = i) (g_relationships b)" "om_all (\<lambda>i r. rel_id r = i) (g_relationships g)"
    using assms(1) snapshot_of_graph_ok [OF assms(1)] by (auto simp: snapshot_of_def graph_ok_def om_all_iff)
  obtain bs where bs: "\<And>n. base_adjacency_keyset_page d s direction node ty after n = Inr (take n bs)"
    "sorted (map ?key bs)" "distinct (map ?key bs)"
    "set bs = {r. om_get (g_relationships b) (rel_id r) = Some r \<and> adjacency_node direction r = node \<and> of_type ty r \<and> key_after after (?key r)}"
    using base_directed_rows [OF sn(1) ids(1) assms(3)] by blast
  obtain os where os: "\<And>n. overlay_adjacency_keyset_page s direction node ty after n =
        map (\<lambda>delta. (?key (rd_record delta), rd_record delta, rd_op delta)) (take n os)"
    "sorted_wrt (<) (map (\<lambda>delta. ?key (rd_record delta)) os)"
    "set os = {delta. om_get ?ov (rel_id (rd_record delta)) = Some delta
        \<and> adjacency_node direction (rd_record delta) = node \<and> of_type ty (rd_record delta) \<and> key_after after (?key (rd_record delta))}"
    using overlay_directed_rows [OF assms(1,3)] by blast
  define B where "B = map ?key bs"
  define V where "V = map (\<lambda>delta. ?key (rd_record delta)) os"
  let ?h = "scan_horizon (last_key (take ?n B)) (length (take ?n B) = ?n) (last_key (take ?n V)) (length (take ?n V) = ?n)"
  have sorted: "sorted B" "distinct B" "sorted V" "distinct V" using bs(2,3) os(2) by (simp_all add: B_def V_def strict_sorted_iff)
  define cands where "cands = om_put_all (map (\<lambda>delta. (?key (rd_record delta), if rd_op delta = Add then Some (rd_record delta) else None)) (take ?n os))
      (om_put_all (map (\<lambda>r. (?key r, Some r)) (take ?n bs)) om_empty)"
  have dist: "distinct (map ?key (take ?n bs))" "distinct (map (\<lambda>delta. ?key (rd_record delta)) (take ?n os))"
    unfolding take_map [symmetric] using bs(3) os(2) by (auto simp: strict_sorted_iff intro: distinct_take)
  note get = adjacency_candidates [OF dist, folded cands_def]
  have none: "om_get cands k = None \<longleftrightarrow> k \<notin> (\<lambda>delta. ?key (rd_record delta)) ` set (take ?n os) \<and> k \<notin> ?key ` set (take ?n bs)" for k
    unfolding find_key_None [symmetric] get by (simp split: option.split)
  have keys: "om_keys cands = candidate_set (take ?n B @ take ?n V)"
  proof (rule sorted_distinct_set_unique)
    show "set (om_keys cands) = set (candidate_set (take ?n B @ take ?n V))"
      by (auto simp: om_keys_iff none B_def V_def take_map simp del: split_paired_All)
  qed simp_all
  define vis where "vis = (\<lambda>k :: AdjacencyKey. case om_get (g_relationships g) (snd (snd k)) of None \<Rightarrow> None
      | Some r \<Rightarrow> if ?key r = k \<and> adjacency_node direction r = node \<and> of_type ty r then Some r else None)"
  let ?vis' = "\<lambda>k. case om_get cands k of Some (Some r) \<Rightarrow> if adjacency_matches direction node ty r then Some r else None | _ \<Rightarrow> None"
  have last: "snd (snd (?key r)) = rel_id r" for r by (simp add: scan_adjacency_key_def)
  have same: "?vis' k = vis k" if k: "k \<in> set (candidate_set (take ?n B @ take ?n V))" "\<not> beyond ?h k" for k
  proof (cases "List.find (\<lambda>delta. ?key (rd_record delta) = k) (take ?n os)")
    case (Some delta)
    then have delta: "delta \<in> set (take ?n os)" "?key (rd_record delta) = k" by (auto dest: find_SomeD)
    then have "om_get ?ov (rel_id (rd_record delta)) = Some delta" "adjacency_node direction (rd_record delta) = node" "of_type ty (rd_record delta)"
      using os(3) by (auto dest: in_set_takeD)
    then show ?thesis using Some delta(2)
      by (auto simp: get vis_def last [symmetric] sn(2) view_get relationship_change_def adjacency_matches_iff)
  next
    case None
    then have notV: "k \<notin> set (take ?n V)" by (auto simp: find_key_None V_def take_map)
    then have "k \<in> set (take ?n B)" using k(1) by simp
    then obtain r where r: "r \<in> set (take ?n bs)" "?key r = k" by (auto simp: B_def take_map)
    then have rb: "om_get (g_relationships b) (rel_id r) = Some r" "adjacency_node direction r = node" "of_type ty r" "key_after after (?key r)"
      using bs(4) by (auto dest: in_set_takeD)
    have "om_get ?ov (rel_id r) = None"
    proof (rule ccontr)
      assume "om_get ?ov (rel_id r) \<noteq> None"
      then obtain delta where delta: "om_get ?ov (rel_id r) = Some delta" by blast
      with assms(2) rb(1) have "rd_record delta = r" by (auto simp: tuple_stable_def)
      then have "delta \<in> set os" using delta rb os(3) by auto
      then have "k \<in> set V" using r(2) \<open>rd_record delta = r\<close> by (force simp: V_def)
      moreover have "k \<in> set B \<union> set V" using \<open>k \<in> set V\<close> by simp
      ultimately have "k \<in> set (take ?n V)"
        using horizon_covers(2) [OF sorted normalized_limit_pos refl _ k(2)] by blast
      with notV show False by simp
    qed
    then show ?thesis using None r rb find_key [OF dist(1) r(1)]
      by (auto simp: get vis_def last [symmetric] sn(2) view_get adjacency_matches_iff)
  qed
  obtain items consumed where scan: "scan_candidates ?h ?n vis (candidate_set (take ?n B @ take ?n V)) [] None = (items, consumed)"
    by fastforce
  have scan': "scan_candidates ?h ?n ?vis' (om_keys cands) [] None = (items, consumed)"
    unfolding scan [symmetric] keys using same by (intro scan_candidates_cong) auto
  note spec = scan_page_spec [OF sorted normalized_limit_pos refl scan]
  have after: "key_after after k \<and> (ty = None \<or> ty = Some (fst k))" if "k \<in> set B \<union> set V" for k
    using that bs(4) os(3) by (auto simp: B_def V_def of_type_def scan_adjacency_key_def)
  have sub: "List.map_filter vis (filter R (candidate_set (B @ V))) = filter (\<lambda>r. key_after after (?key r) \<and> R (?key r)) (adjacent g node ty direction)" for R
  proof (rule map_filter_listing [where ident = ?key])
    show "?key x = k" if "vis k = Some x" for k x
      using that by (auto simp: vis_def split: option.splits if_splits)
    show "x \<in> set (filter (\<lambda>r. key_after after (?key r) \<and> R (?key r)) (adjacent g node ty direction)) \<longleftrightarrow>
        ?key x \<in> set (filter R (candidate_set (B @ V))) \<and> vis (?key x) = Some x" for x
    proof -
      have "vis (?key x) = Some x \<longleftrightarrow> om_get (g_relationships g) (rel_id x) = Some x \<and> adjacency_node direction x = node \<and> of_type ty x"
        by (cases "om_get (g_relationships g) (rel_id x)") (auto simp: vis_def last)
      moreover have "?key x \<in> set B \<union> set V" if x: "om_get (g_relationships g) (rel_id x) = Some x" "adjacency_node direction x = node"
        "of_type ty x" "key_after after (?key x)"
      proof (cases "om_get ?ov (rel_id x)")
        case None
        then have "x \<in> set bs" using x bs(4) by (simp add: sn(2) view_get)
        then show ?thesis by (simp add: B_def)
      next
        case (Some delta)
        then have "rd_record delta = x" using x(1) by (simp add: sn(2) view_get relationship_change_def split: if_splits)
        then show ?thesis using Some x os(3) by (force simp: V_def)
      qed
      ultimately show ?thesis
        using after [of "?key x"] adjacent_listing(3) [OF ids(2)] by auto
    qed
  qed (use adjacent_listing(1,2) [OF ids(2)] in \<open>auto simp: sorted_filter [of id, simplified] sorted_filter distinct_map_filter\<close>)
  have whole: "List.map_filter vis (candidate_set (B @ V)) = filter (\<lambda>r. key_after after (?key r)) (adjacent g node ty direction)"
    using sub [of "\<lambda>_. True"] by simp
  have irrefl: "\<not> key_after (Some k) k" for k by (simp add: key_after_def)
  have page: "scan_directed_adjacency_page d s direction node ty cursor limit = Inr (merge_adjacency_page s direction node ty after ?n (take ?n bs)
      (overlay_adjacency_keyset_page s direction node ty after ?n))"
    using assms(4) bs(1) by (cases after) (simp_all add: scan_directed_adjacency_page_def validate_adjacency_cursor_def Let_def)
  have merged: "merge_adjacency_page s direction node ty after ?n (take ?n bs) (overlay_adjacency_keyset_page s direction node ty after ?n) =
      (let consumed = (case consumed of None \<Rightarrow> after | Some k \<Rightarrow> Some k)
       in \<lparr>ap_items = items, ap_next_cursor = (if (?h \<noteq> None \<or> length items = ?n) \<and> consumed \<noteq> after
          then Some \<lparr>ac_cache_identity = ss_cache_identity s, ac_kind = directed_kind direction, ac_node_id = node,
                     ac_type_id = ty, ac_phase = directed_phase direction, ac_after = consumed\<rparr> else None)\<rparr>)"
  proof -
    let ?os = "map (\<lambda>delta. (?key (rd_record delta), rd_record delta, rd_op delta)) (take ?n os)"
    have e: "map ?key (take ?n bs) = take ?n B" "length (take ?n bs) = length (take ?n B)"
      "map fst ?os = take ?n V" "length ?os = length (take ?n V)"
      by (simp_all add: B_def V_def take_map o_def)
    have c: "om_put_all (map (\<lambda>(k, r, p). (k, if p = Add then Some r else None)) ?os) (om_put_all (map (\<lambda>r. (?key r, Some r)) (take ?n bs)) om_empty) = cands"
      by (simp add: cands_def o_def)
    show ?thesis unfolding merge_adjacency_page_def os(1) Let_def e c scan' by simp
  qed
  show ?thesis
  proof (cases consumed)
    case None
    then show ?thesis unfolding page merged using spec normalized_limit_pos [of limit] by (auto simp: adjacency_page_of_def whole)
  next
    case (Some k)
    have "after \<noteq> Some k" if "k \<in> set B \<union> set V" using after [OF that] irrefl [of k] by auto
    with Some show ?thesis unfolding page merged using spec after [of k]
      by (cases "?h \<noteq> None \<or> length items = ?n") (auto simp: adjacency_page_of_def whole sub)
  qed
qed

section \<open>Incident relationships\<close>

text \<open>What is left of a neighbourhood at a phase and a key: self loops are listed with the outgoing relationships only.\<close>

definition incident_rest :: "graph \<Rightarrow> i64 \<Rightarrow> i64 option \<Rightarrow> IncidentPhase \<Rightarrow> AdjacencyKey option \<Rightarrow> RelationshipRecord list" where
  "incident_rest g node ty phase after =
     (case phase of
        OutgoingPhase \<Rightarrow> filter (\<lambda>r. key_after after (scan_adjacency_key Outgoing r)) (adjacent g node ty Outgoing)
          @ filter_incident_self_loops node IncomingPhase (adjacent g node ty Incoming)
      | IncomingPhase \<Rightarrow> filter_incident_self_loops node IncomingPhase
          (filter (\<lambda>r. key_after after (scan_adjacency_key Incoming r)) (adjacent g node ty Incoming)))"

definition cursor_rest :: "graph \<Rightarrow> i64 \<Rightarrow> i64 option \<Rightarrow> AdjacencyCursor option \<Rightarrow> RelationshipRecord list" where
  "cursor_rest g node ty cursor =
     (case cursor of None \<Rightarrow> incident_rest g node ty OutgoingPhase None | Some k \<Rightarrow> incident_rest g node ty (ac_phase k) (ac_after k))"

definition cursor_ok :: "SnapshotState \<Rightarrow> i64 \<Rightarrow> i64 option \<Rightarrow> AdjacencyCursor option \<Rightarrow> bool" where
  "cursor_ok s node ty cursor =
     (case cursor of None \<Rightarrow> True
      | Some k \<Rightarrow> ac_cache_identity k = ss_cache_identity s \<and> ac_kind k = IncidentKind \<and> ac_node_id k = node \<and> ac_type_id k = ty
          \<and> (\<exists>a. ac_after k = Some a \<and> (ty = None \<or> ty = Some (fst a))))"

lemma split_listing:
  assumes "sorted (map key xs)" "key_after after n"
  shows "filter (\<lambda>r. key_after after (key r)) xs =
    filter (\<lambda>r. key_after after (key r) \<and> key r \<le> n) xs @ filter (\<lambda>r. key_after (Some n) (key r)) xs"
  using assms(1)
proof (induction xs)
  case (Cons x xs)
  show ?case
  proof (cases "key x \<le> n")
    case True
    then show ?thesis using Cons by (auto simp: key_after_def)
  next
    case False
    then have "n < key r" if "r \<in> set xs" for r using Cons.prems that by force
    moreover have "key_after after k" if "n < k" for k using assms(2) that by (auto simp: key_after_def split: option.splits)
    ultimately have "filter (\<lambda>r. key_after after (key r)) xs = xs" "filter (\<lambda>r. key_after (Some n) (key r)) xs = xs"
      "filter (\<lambda>r. key_after after (key r) \<and> key r \<le> n) xs = []" "key_after after (key x)"
      using False by (auto simp: key_after_def filter_id_conv filter_empty_conv not_le)
    then show ?thesis using False by (simp add: key_after_def)
  qed
qed simp

lemma self_loops_append [simp]:
  "filter_incident_self_loops node ph (xs @ ys) = filter_incident_self_loops node ph xs @ filter_incident_self_loops node ph ys"
  "filter_incident_self_loops node OutgoingPhase xs = xs" "filter_incident_self_loops node ph [] = []"
  by (simp_all add: filter_incident_self_loops_def)

lemma page_split:
  assumes "adjacency_page_of s g direction node ty after limit page" "om_all (\<lambda>i r. rel_id r = i) (g_relationships g)"
  shows "filter (\<lambda>r. key_after after (scan_adjacency_key direction r)) (adjacent g node ty direction) =
    ap_items page @ (case ap_next_cursor page of None \<Rightarrow> []
      | Some k \<Rightarrow> filter (\<lambda>r. key_after (ac_after k) (scan_adjacency_key direction r)) (adjacent g node ty direction))"
  using assms split_listing [OF adjacent_listing(1) [OF assms(2)]]
  by (auto simp: adjacency_page_of_def split: option.splits)

lemma scan_incident_page_ok:
  assumes "snapshot_of P d s b g" "tuple_stable b s" "cursor_ok s node ty cursor"
  shows "\<exists>page. scan_incident_page d s node ty cursor limit = Inr page
    \<and> cursor_rest g node ty cursor = ap_items page @ (if ap_next_cursor page = None then [] else cursor_rest g node ty (ap_next_cursor page))
    \<and> cursor_ok s node ty (ap_next_cursor page) \<and> length (ap_items page) \<le> normalized_limit limit"
proof -
  let ?n = "normalized_limit limit"
  let ?nn = "normalized_limit ?n"
  have nn: "?nn = ?n" "\<And>k. k \<le> ?n \<Longrightarrow> normalized_limit k = max 1 k" by (auto simp: normalized_limit_def)
  have ids: "om_all (\<lambda>i r. rel_id r = i) (g_relationships g)"
    using snapshot_of_graph_ok [OF assms(1)] by (auto simp: graph_ok_def om_all_iff)
  define phase where "phase = (case cursor of None \<Rightarrow> OutgoingPhase | Some k \<Rightarrow> ac_phase k)"
  define after where "after = (case cursor of None \<Rightarrow> None | Some k \<Rightarrow> ac_after k)"
  let ?dir = "phase_direction phase"
  let ?dc = "map_option (\<lambda>a. \<lparr>ac_cache_identity = ss_cache_identity s, ac_kind = directed_kind ?dir,
             ac_node_id = node, ac_type_id = ty, ac_phase = phase, ac_after = Some a\<rparr>) after"
  have valid: "validate_adjacency_cursor s IncidentKind node ty cursor = Inr ()"
    using assms(3) by (auto simp: validate_adjacency_cursor_def cursor_ok_def split: option.splits)
  have ty: "ty = None \<or> after = None \<or> ty = Some (fst (the after))"
    using assms(3) by (auto simp: cursor_ok_def after_def split: option.splits)
  have rest: "cursor_rest g node ty cursor = incident_rest g node ty phase after"
    by (simp add: cursor_rest_def phase_def after_def split: option.split)
  obtain first where first: "scan_directed_adjacency_page d s ?dir node ty ?dc ?n = Inr first" "adjacency_page_of s g ?dir node ty after ?n first"
    using scan_directed_page [OF assms(1,2) ty refl, of ?dir node phase ?n] nn(1) by auto
  note split = page_split [OF first(2) ids]
  have len: "length (ap_items first) \<le> ?n" using first(2) by (simp add: adjacency_page_of_def)
  have lenf: "length (filter_incident_self_loops node phase (ap_items first)) \<le> ?n"
    using len by (auto simp: filter_incident_self_loops_def intro: le_trans [OF length_filter_le])
  have unfolded: "scan_incident_page d s node ty cursor limit =
      (if ap_next_cursor first \<noteq> None
         then Inr \<lparr>ap_items = filter_incident_self_loops node phase (ap_items first),
                   ap_next_cursor = map_option (incident_cursor node ty phase) (ap_next_cursor first)\<rparr>
         else let items = filter_incident_self_loops node phase (ap_items first)
              in if phase = IncomingPhase \<or> length items \<ge> ?n then Inr \<lparr>ap_items = items, ap_next_cursor = None\<rparr>
                 else and_then (scan_directed_adjacency_page d s Incoming node ty None (?n - length items)) (\<lambda>page.
                   Inr \<lparr>ap_items = items @ filter_incident_self_loops node IncomingPhase (ap_items page),
                        ap_next_cursor = map_option (incident_cursor node ty IncomingPhase) (ap_next_cursor page)\<rparr>))"
    by (simp add: scan_incident_page_def valid Let_def phase_def [symmetric] after_def [symmetric] first(1))
  show ?thesis
  proof (cases "ap_next_cursor first")
    case (Some k)
    then have k: "ac_cache_identity k = ss_cache_identity s" "\<exists>a. ac_after k = Some a \<and> (ty = None \<or> ty = Some (fst a))"
      using first(2) by (auto simp: adjacency_page_of_def)
    have "incident_rest g node ty phase after = filter_incident_self_loops node phase (ap_items first) @ incident_rest g node ty phase (ac_after k)"
      using split Some by (cases phase) (auto simp: incident_rest_def phase_direction_def)
    then show ?thesis using Some k lenf unfolding unfolded rest
      by (auto simp: cursor_rest_def cursor_ok_def incident_cursor_def)
  next
    case None
    show ?thesis
    proof (cases phase)
      case IncomingPhase
      then show ?thesis using None split lenf unfolding unfolded rest
        by (simp add: incident_rest_def phase_direction_def cursor_ok_def)
    next
      case OutgoingPhase
      let ?items = "ap_items first"
      have short: "length ?items < ?n" using first(2) None by (auto simp: adjacency_page_of_def)
      have lim: "normalized_limit (?n - length ?items) = ?n - length ?items"
        using nn(2) [of "?n - length ?items"] short by simp
      obtain page where page: "scan_directed_adjacency_page d s Incoming node ty None (?n - length ?items) = Inr page"
        "adjacency_page_of s g Incoming node ty None (?n - length ?items) page"
        using scan_directed_page [OF assms(1,2), of ty None None Incoming node OutgoingPhase "?n - length ?items"] lim by auto
      have all: "adjacent g node ty Incoming = ap_items page @ (case ap_next_cursor page of None \<Rightarrow> []
          | Some k \<Rightarrow> filter (\<lambda>r. key_after (ac_after k) (scan_adjacency_key Incoming r)) (adjacent g node ty Incoming))"
        using page_split [OF page(2) ids] by (simp add: key_after_def)
      have len2: "length (ap_items page) \<le> ?n - length ?items" using page(2) by (simp add: adjacency_page_of_def)
      have len3: "length (filter_incident_self_loops node IncomingPhase (ap_items page)) \<le> length (ap_items page)"
        by (simp add: filter_incident_self_loops_def)
      have k: "ac_cache_identity k = ss_cache_identity s" "\<exists>a. ac_after k = Some a \<and> (ty = None \<or> ty = Some (fst a))"
        if "ap_next_cursor page = Some k" for k
        using page(2) that by (auto simp: adjacency_page_of_def)
      have first_all: "filter (\<lambda>r. key_after after (scan_adjacency_key Outgoing r)) (adjacent g node ty Outgoing) = ?items"
        using split None OutgoingPhase by (simp add: phase_direction_def)
      have "incident_rest g node ty OutgoingPhase after = ?items @ filter_incident_self_loops node IncomingPhase (ap_items page)
          @ (case ap_next_cursor page of None \<Rightarrow> [] | Some k \<Rightarrow> incident_rest g node ty IncomingPhase (ac_after k))"
        unfolding incident_rest_def IncidentPhase.case first_all by (subst all) (simp split: option.split)
      then show ?thesis
        using None OutgoingPhase page(1) short len2 len3 k unfolding unfolded rest
        by (cases "ap_next_cursor page") (auto simp: Let_def cursor_rest_def cursor_ok_def incident_cursor_def)
    qed
  qed
qed

section \<open>Cursors move forward\<close>

text \<open>The keys an index can hold at a node, in the checkpoint and in the overlay.\<close>

definition index_keys :: "database \<Rightarrow> SnapshotState \<Rightarrow> Direction \<Rightarrow> i64 \<Rightarrow> AdjacencyKey set" where
  "index_keys d s direction node =
     (case ss_checkpoint s of None \<Rightarrow> {} | Some c \<Rightarrow> scan_adjacency_key direction ` set (checkpoint_relationships d c))
     \<union> snd ` set (om_keys (adjacency_index direction (ss_overlay s)))"

lemma finite_index_keys [simp]: "finite (index_keys d s direction node)"
  by (simp add: index_keys_def split: option.split)

lemma scan_candidates_consumed:
  "scan_candidates h n vis ks items c = (items', c') \<Longrightarrow> c' = c \<or> (\<exists>k \<in> set ks. c' = Some k)"
  by (induction ks arbitrary: items c) (fastforce split: if_splits)+

lemma directed_cursor_forward:
  assumes "scan_directed_adjacency_page d s direction node None cursor limit = Inr page" "ap_next_cursor page = Some k"
  shows "\<exists>n. ac_after k = Some n \<and> n \<in> index_keys d s direction node
    \<and> key_after (case cursor of None \<Rightarrow> None | Some c \<Rightarrow> ac_after c) n"
proof -
  define after where "after = (case cursor of None \<Rightarrow> None | Some c \<Rightarrow> ac_after c)"
  let ?n = "normalized_limit limit" and ?key = "scan_adjacency_key direction"
  obtain base where base: "base_adjacency_keyset_page d s direction node None after ?n = Inr base"
    "page = merge_adjacency_page s direction node None after ?n base (overlay_adjacency_keyset_page s direction node None after ?n)"
    using assms(1) by (auto simp: scan_directed_adjacency_page_def after_def Let_def)
  have 1: "?key r \<in> index_keys d s direction node \<and> key_after after (?key r)" if "r \<in> set base" for r
    using base(1) that by (auto simp: base_adjacency_keyset_page_def base_directed_adjacency_page_def index_keys_def key_after_def
        split: option.splits dest!: in_set_takeD)
  have 2: "fst e \<in> index_keys d s direction node \<and> key_after after (fst e)"
    if "e \<in> set (overlay_adjacency_keyset_page s direction node None after ?n)" for e
    using that by (auto simp: overlay_adjacency_keyset_page_def Let_def index_keys_def adjacency_index_def key_after_def om_keys_def
        split: option.splits dest!: in_set_takeD) force+
  define cands where "cands = om_put_all (map (\<lambda>(k, r, p). (k, if p = Add then Some r else None)) (overlay_adjacency_keyset_page s direction node None after ?n))
                         (om_put_all (map (\<lambda>r. (?key r, Some r)) base) om_empty)"
  have 3: "n \<in> index_keys d s direction node \<and> key_after after n" if "n \<in> set (om_keys cands)" for n
  proof -
    have "n \<in> fst ` set (overlay_adjacency_keyset_page s direction node None after ?n) \<union> ?key ` set base"
      using that by (auto simp: cands_def om_keys_iff om_get_put_all map_add_def map_of_eq_None_iff split: option.splits) (force dest!: map_of_SomeD)+
    with 1 2 show ?thesis by auto
  qed
  have "\<exists>n \<in> set (om_keys cands). ac_after k = Some n"
    using assms(2) unfolding base(2) merge_adjacency_page_def Let_def cands_def [symmetric]
    by (auto split: prod.splits option.splits if_splits dest!: scan_candidates_consumed)
  with 3 show ?thesis by (auto simp: after_def)
qed

text \<open>A measure of what is left at a cursor.\<close>

definition incident_measure :: "database \<Rightarrow> SnapshotState \<Rightarrow> i64 \<Rightarrow> AdjacencyCursor option \<Rightarrow> nat" where
  "incident_measure d s node cursor =
     (let after = (case cursor of None \<Rightarrow> None | Some k \<Rightarrow> ac_after k) in
      case (case cursor of None \<Rightarrow> OutgoingPhase | Some k \<Rightarrow> ac_phase k) of
        OutgoingPhase \<Rightarrow> card {k \<in> index_keys d s Outgoing node. key_after after k} + Suc (card (index_keys d s Incoming node))
      | IncomingPhase \<Rightarrow> card {k \<in> index_keys d s Incoming node. key_after after k})"

lemma measure_less:
  "n \<in> index_keys d s direction node \<Longrightarrow> key_after after n \<Longrightarrow>
   card {k \<in> index_keys d s direction node. key_after (Some n) k} < card {k \<in> index_keys d s direction node. key_after after k}"
proof (rule psubset_card_mono)
  assume n: "n \<in> index_keys d s direction node" "key_after after n"
  have "key_after after k" if k: "key_after (Some n) k" for k
    using n(2) less_trans [of _ n k] k unfolding key_after_def by (cases after) (simp_all only: option.case)
  moreover have "\<not> key_after (Some n) n" by (simp add: key_after_def)
  ultimately show "{k \<in> index_keys d s direction node. key_after (Some n) k} \<subset> {k \<in> index_keys d s direction node. key_after after k}"
    using n by blast
qed simp

lemma incident_measure_less:
  assumes "scan_incident_page d s node None cursor limit = Inr page" "ap_next_cursor page = Some k"
  shows "incident_measure d s node (Some k) < incident_measure d s node cursor"
proof -
  define phase where "phase = (case cursor of None \<Rightarrow> OutgoingPhase | Some k \<Rightarrow> ac_phase k)"
  define after where "after = (case cursor of None \<Rightarrow> None | Some k \<Rightarrow> ac_after k)"
  have m: "incident_measure d s node cursor = (case phase of
        OutgoingPhase \<Rightarrow> card {k \<in> index_keys d s Outgoing node. key_after after k} + Suc (card (index_keys d s Incoming node))
      | IncomingPhase \<Rightarrow> card {k \<in> index_keys d s Incoming node. key_after after k})"
    unfolding incident_measure_def phase_def after_def Let_def ..
  let ?dc = "map_option (\<lambda>a. \<lparr>ac_cache_identity = ss_cache_identity s, ac_kind = directed_kind (phase_direction phase),
             ac_node_id = node, ac_type_id = None, ac_phase = phase, ac_after = Some a\<rparr>) after"
  have dc: "(case ?dc of None \<Rightarrow> None | Some c \<Rightarrow> ac_after c) = after" by (cases after) simp_all
  obtain first where first: "scan_directed_adjacency_page d s (phase_direction phase) node None ?dc (normalized_limit limit) = Inr first"
    using assms(1) by (auto simp: scan_incident_page_def Let_def phase_def [symmetric] after_def [symmetric])
  show ?thesis
  proof (cases "ap_next_cursor first")
    case (Some c)
    then have k: "k = incident_cursor node None phase c"
      using assms first by (auto simp: scan_incident_page_def Let_def phase_def [symmetric] after_def [symmetric])
    obtain n where n: "ac_after c = Some n" "n \<in> index_keys d s (phase_direction phase) node" "key_after after n"
      using directed_cursor_forward [OF first Some] unfolding dc by blast
    have "incident_measure d s node (Some k) = (case phase of
        OutgoingPhase \<Rightarrow> card {k \<in> index_keys d s Outgoing node. key_after (Some n) k} + Suc (card (index_keys d s Incoming node))
      | IncomingPhase \<Rightarrow> card {k \<in> index_keys d s Incoming node. key_after (Some n) k})"
      using n by (simp add: incident_measure_def k incident_cursor_def Let_def)
    then show ?thesis unfolding m
      using measure_less [OF n(2,3)] by (cases phase) (simp_all add: phase_direction_def)
  next
    case None
    then obtain c page' i where phase: "phase = OutgoingPhase" and k: "k = incident_cursor node None IncomingPhase c"
      and page: "scan_directed_adjacency_page d s Incoming node None None i = Inr page'" "ap_next_cursor page' = Some c"
      using assms first by (auto simp: scan_incident_page_def Let_def phase_def [symmetric] after_def [symmetric] split: if_splits)
        (cases phase; auto)
    obtain n where "ac_after c = Some n" "n \<in> index_keys d s Incoming node"
      using directed_cursor_forward [OF page] by blast
    moreover have "card {k \<in> index_keys d s Incoming node. key_after (Some n) k} \<le> card (index_keys d s Incoming node)"
      by (rule card_mono) auto
    ultimately show ?thesis unfolding m
      by (simp add: incident_measure_def k incident_cursor_def phase)
  qed
qed

end
