(* ===== verification/Scan_Theorems.thy ===== *)
theory Scan_Theorems
  imports Scan_Laws Snapshot_Theorems
begin

text \<open>
  The theorems on resumable scans: pages of a resolved snapshot are exact, and reading the pages of a
  neighbourhood one after the other ends and returns every incident relationship once.
\<close>

section \<open>Stable relationships\<close>

text \<open>A relationship identity names one source, type and target in all layers.\<close>

definition tuples_unique :: "database \<Rightarrow> bool" where
  "tuples_unique d \<longleftrightarrow> (\<forall>i r r'. stored_tuple d i r \<longrightarrow> stored_tuple d i r' \<longrightarrow> r = r')"

lemma resolved_stable:
  assumes "snd (resolve_state_with_checkpoint_skip P d c skip) = Inr s" "commit_graph P d c g" "checkpoints_ok P d"
    "delta_rows_ok d" "tuples_unique d"
  shows "\<exists>b. snapshot_of P d s b g \<and> tuple_stable b s"
proof -
  obtain b where "snapshot_of P d s b g" "om_all (\<lambda>i delta. stored_tuple d i (rd_record delta)) (ov_relationships (ss_overlay s))"
    "om_all (stored_tuple d) (g_relationships b)"
    using resolved_snapshot [OF assms(1-4)] by blast
  with assms(5) show ?thesis unfolding tuple_stable_def tuples_unique_def om_all_iff by blast
qed

section \<open>Cursors of one direction\<close>

text \<open>A cursor that a directed page accepts, and one that belongs elsewhere.\<close>

definition directed_cursor_ok :: "SnapshotState \<Rightarrow> Direction \<Rightarrow> i64 \<Rightarrow> i64 option \<Rightarrow> AdjacencyCursor option \<Rightarrow> bool" where
  "directed_cursor_ok s direction node ty cursor =
     (case cursor of None \<Rightarrow> True
      | Some k \<Rightarrow> ac_cache_identity k = ss_cache_identity s \<and> ac_kind k = directed_kind direction \<and> ac_node_id k = node \<and> ac_type_id k = ty
          \<and> (\<exists>a. ac_after k = Some a \<and> (ty = None \<or> ty = Some (fst a))))"

definition foreign_cursor :: "SnapshotState \<Rightarrow> Direction \<Rightarrow> i64 \<Rightarrow> i64 option \<Rightarrow> AdjacencyCursor \<Rightarrow> bool" where
  "foreign_cursor s direction node ty k \<longleftrightarrow>
     ac_cache_identity k \<noteq> ss_cache_identity s \<or> ac_kind k \<noteq> directed_kind direction \<or> ac_node_id k \<noteq> node \<or> ac_type_id k \<noteq> ty"

lemma foreign_cursor_refused: "foreign_cursor s direction node ty k \<Longrightarrow> isl (scan_directed_adjacency_page d s direction node ty (Some k) limit)"
  by (auto simp: scan_directed_adjacency_page_def validate_adjacency_cursor_def foreign_cursor_def)

lemma directed_page_ok:
  assumes "snapshot_of P d s b g" "tuple_stable b s" "directed_cursor_ok s direction node ty cursor"
  shows "\<exists>p. scan_directed_adjacency_page d s direction node ty cursor limit = Inr p
    \<and> adjacency_page_of s g direction node ty (Option.bind cursor ac_after) (normalized_limit limit) p
    \<and> directed_cursor_ok s direction node ty (ap_next_cursor p)"
proof -
  let ?after = "Option.bind cursor ac_after"
  have "ty = None \<or> ?after = None \<or> ty = Some (fst (the ?after))"
    "cursor = map_option (\<lambda>a. \<lparr>ac_cache_identity = ss_cache_identity s, ac_kind = directed_kind direction, ac_node_id = node,
        ac_type_id = ty, ac_phase = ac_phase (the cursor), ac_after = Some a\<rparr>) ?after"
    using assms(3) by (cases cursor; auto simp: directed_cursor_ok_def)+
  from scan_directed_page [OF assms(1,2) this] obtain p where p: "scan_directed_adjacency_page d s direction node ty cursor limit = Inr p"
    "adjacency_page_of s g direction node ty ?after (normalized_limit limit) p" by blast
  then show ?thesis by (auto simp: adjacency_page_of_def directed_cursor_ok_def split: option.splits)
qed

section \<open>Reading all pages\<close>

function incident_all :: "database \<Rightarrow> SnapshotState \<Rightarrow> i64 \<Rightarrow> nat \<Rightarrow> AdjacencyCursor option \<Rightarrow> RelationshipRecord list res" where
  "incident_all d s node limit cursor =
     and_then (scan_incident_page d s node None cursor limit) (\<lambda>page.
       case ap_next_cursor page of
         None \<Rightarrow> Inr (ap_items page)
       | Some k \<Rightarrow> and_then (incident_all d s node limit (Some k)) (\<lambda>rest. Inr (ap_items page @ rest)))"
  by pat_completeness auto
termination
  by (relation "measure (\<lambda>(d, s, node, _, cursor). incident_measure d s node cursor)") (auto simp: incident_measure_less)

declare incident_all.simps [simp del]

lemma incident_all_rest:
  assumes "snapshot_of P d s b g" "tuple_stable b s" "cursor_ok s node None cursor"
  shows "incident_all d s node limit cursor = Inr (cursor_rest g node None cursor)"
  using assms
proof (induction d s node limit cursor rule: incident_all.induct)
  case (1 d s node limit cursor)
  from scan_incident_page_ok [OF "1.prems"] obtain page where page: "scan_incident_page d s node None cursor limit = Inr page"
    "cursor_rest g node None cursor = ap_items page @ (if ap_next_cursor page = None then [] else cursor_rest g node None (ap_next_cursor page))"
    "cursor_ok s node None (ap_next_cursor page)" by blast
  show ?case
  proof (cases "ap_next_cursor page")
    case None
    with page show ?thesis by (subst incident_all.simps) simp
  next
    case (Some k)
    with "1.IH" [OF page(1) Some] "1.prems" page(3) have "incident_all d s node limit (Some k) = Inr (cursor_rest g node None (Some k))" by simp
    with page Some show ?thesis by (subst incident_all.simps) simp
  qed
qed

section \<open>An example with a relationship\<close>

definition example_edge :: database where
  "example_edge = create_storage_schema\<lparr>
     tb_sequences := om_of [(1, 10), (2, 6), (3, 1), (4, 2), (5, 1), (6, 3)],
     tb_rel_types := om_of [(1, ascii ''KNOWS'')],
     tb_layers := om_of [(2, commit_id 1)],
     tb_node_delta := om_of [((2, 7), 1), ((2, 9), 1)],
     tb_rel_delta := om_of [((2, 5), (\<lparr>rr_source_id = 7, rr_type_id = 1, rr_target_id = 9\<rparr>, 1))],
     tb_commits := om_of [(commit_id 1, example_commit None 2)]\<rparr>"

definition edge :: RelationshipRecord where
  "edge = \<lparr>rel_id = 5, source = 7, type_id = 1, target = 9\<rparr>"

definition edge_graph :: graph where
  "edge_graph = empty_graph\<lparr>g_nodes := om_of [(7, ()), (9, ())], g_relationships := om_of [(5, edge)]\<rparr>"

lemma example_edge_facts:
  "commit_graph platform64 example_edge (commit_id 1) edge_graph" "checkpoints_ok platform64 example_edge"
  "delta_rows_ok example_edge" "tuples_unique example_edge" "empty_layers_ok platform64 example_edge"
  "2 * om_size (tb_commits example_edge) \<le> usize_max"
proof -
  let ?l = "layer_default\<lparr>lb_nodes := om_of [(7, Add), (9, Add)], lb_relationships := om_of [(5, \<lparr>rd_op = Add, rd_record = edge\<rparr>)]\<rparr>"
  have row: "load_lineage_row example_edge (commit_id 1) = Inr \<lparr>lr_parent = None, lr_layer_id = 2, lr_layer_hash = commit_id 1,
     lr_has_checkpoint = False, lr_has_delta = True\<rparr>" "load_layer platform64 example_edge 2 = Inr ?l"
    by code_simp+
  moreover have "apply_layer ?l empty_graph = edge_graph" by code_simp
  ultimately show "commit_graph platform64 example_edge (commit_id 1) edge_graph"
    using commit_graph.root [OF row(1), of platform64] by simp
  show "checkpoints_ok platform64 example_edge"
    by (simp add: checkpoints_ok_def example_edge_def create_storage_schema_def)
  show "delta_rows_ok example_edge" by code_simp
  show "tuples_unique example_edge"
    by (auto simp: tuples_unique_def stored_tuple_def example_edge_def om_of_def om_put_all_def split: if_splits)
  have "has_delta 2 example_edge" by code_simp
  then show "empty_layers_ok platform64 example_edge"
    by (auto simp: empty_layers_ok_def example_edge_def om_of_def om_put_all_def split: if_splits)
  show "2 * om_size (tb_commits example_edge) \<le> usize_max" by code_simp
qed

section \<open>Theorems\<close>

text \<open>C10. A page of a scan is exact: nodes, nodes of a label, relationships and relationships of a type, and the outgoing and
  the incoming relationships of a node, of all types or of one. It holds at most the (clamped) limit of items, exactly
  the visible elements after the given identity, or after the key in the given cursor, up to the place it returns,
  which lies beyond; without such a place, all of them. A cursor that the directed pages of a neighbourhood return is
  one they accept, and they refuse the cursors of another snapshot, direction, node or type.\<close>

theorem scan_pages_exact:
  assumes "snd (resolve_state_with_checkpoint_skip P d c skip) = Inr s"
    and "commit_graph P d c g" and "checkpoints_ok P d" and "delta_rows_ok d" and "tuples_unique d" and "after < 2 ^ 63 - 1"
  shows "(\<exists>p. scan_nodes_after d s after limit = Inr p \<and> page_of id (om_keys (g_nodes g)) after (normalized_limit limit) p)
    \<and> (\<exists>p. scan_label_after d s l after limit = Inr p \<and> page_of id (labelled g l) after (normalized_limit limit) p)
    \<and> (\<exists>p. scan_relationships_after d s after limit = Inr p
          \<and> page_of rel_id (om_values (g_relationships g)) after (normalized_limit limit) p)
    \<and> (\<exists>p. scan_relationship_type_after d s ty after limit = Inr p
          \<and> page_of rel_id (filter (\<lambda>r. type_id r = ty) (om_values (g_relationships g))) after (normalized_limit limit) p)
    \<and> (\<forall>node t cursor. directed_cursor_ok s Outgoing node t cursor \<longrightarrow> (\<exists>p. scan_outgoing_page d s node t cursor limit = Inr p
          \<and> adjacency_page_of s g Outgoing node t (Option.bind cursor ac_after) (normalized_limit limit) p
          \<and> directed_cursor_ok s Outgoing node t (ap_next_cursor p)))
    \<and> (\<forall>node t cursor. directed_cursor_ok s Incoming node t cursor \<longrightarrow> (\<exists>p. scan_incoming_page d s node t cursor limit = Inr p
          \<and> adjacency_page_of s g Incoming node t (Option.bind cursor ac_after) (normalized_limit limit) p
          \<and> directed_cursor_ok s Incoming node t (ap_next_cursor p)))
    \<and> (\<forall>node t k. foreign_cursor s Outgoing node t k \<longrightarrow> isl (scan_outgoing_page d s node t (Some k) limit))
    \<and> (\<forall>node t k. foreign_cursor s Incoming node t k \<longrightarrow> isl (scan_incoming_page d s node t (Some k) limit))"
proof -
  obtain b where b: "snapshot_of P d s b g" "tuple_stable b s" using resolved_stable [OF assms(1-5)] by blast
  then have "base_graph P d s b" "view b s = g" by (auto simp: snapshot_of_def)
  with scan_nodes_page [of P d s b after limit] assms(6)
  have "\<exists>p. scan_nodes_after d s after limit = Inr p \<and> page_of id (om_keys (g_nodes g)) after (normalized_limit limit) p" by auto
  with scan_label_page [OF b(1) assms(6)] scan_relationships_page [OF b(1) assms(6)] directed_page_ok [OF b] foreign_cursor_refused
  show ?thesis unfolding scan_outgoing_page_def scan_incoming_page_def by blast
qed

theorem scan_pages_exact_witness:
  "\<exists>s p q. snd (resolve_state_with_checkpoint_skip platform64 example_edge (commit_id 1) None) = Inr s
     \<and> scan_nodes_after example_edge s 0 1 = Inr p \<and> page_of id [7, 9] 0 1 p
     \<and> scan_outgoing_page example_edge s 7 None None 1 = Inr q \<and> adjacency_page_of s edge_graph Outgoing 7 None None 1 q
     \<and> adjacent edge_graph 7 None Outgoing = [edge]"
proof -
  obtain s where s: "snd (resolve_state_with_checkpoint_skip platform64 example_edge (commit_id 1) None) = Inr s"
    using resolve_total [OF example_edge_facts(1,5,2,6)] by blast
  have g: "om_keys (g_nodes edge_graph) = [7, 9]" "normalized_limit 1 = 1" "adjacent edge_graph 7 None Outgoing = [edge]" by code_simp+
  have zero: "(0 :: i64) < 2 ^ 63 - 1" by simp
  note pages = scan_pages_exact [OF s example_edge_facts(1-4) zero, where limit = 1]
  have "directed_cursor_ok s Outgoing 7 None None" by (simp add: directed_cursor_ok_def)
  note out = pages [THEN conjunct2, THEN conjunct2, THEN conjunct2, THEN conjunct2, THEN conjunct1, rule_format, OF this]
  from out obtain q where q: "scan_outgoing_page example_edge s 7 None None 1 = Inr q" "adjacency_page_of s edge_graph Outgoing 7 None None 1 q"
    unfolding g(2) Option.bind.bind_lzero by blast
  have "\<exists>p. scan_nodes_after example_edge s 0 1 = Inr p \<and> page_of id [7, 9] 0 1 p"
    using conjunct1 [OF pages] unfolding g(1,2) by simp
  with s q g(3) show ?thesis by blast
qed

text \<open>C27. Reading the pages of a node's incident relationships one after the other ends, whatever the page size,
  and returns the outgoing relationships and then the incoming ones, self loops only once.\<close>

theorem incident_pages_complete:
  assumes "snd (resolve_state_with_checkpoint_skip P d c skip) = Inr s"
    and "commit_graph P d c g" and "checkpoints_ok P d" and "delta_rows_ok d" and "tuples_unique d"
  shows "incident_all d s node limit None =
    Inr (adjacent g node None Outgoing @ filter (\<lambda>r. \<not> (source r = node \<and> target r = node)) (adjacent g node None Incoming))"
proof -
  obtain b where b: "snapshot_of P d s b g" "tuple_stable b s" using resolved_stable [OF assms] by blast
  show ?thesis
    using incident_all_rest [OF b, of node None limit]
    by (simp add: cursor_ok_def cursor_rest_def incident_rest_def key_after_def filter_incident_self_loops_def)
qed

theorem incident_pages_complete_witness:
  "\<exists>s. snd (resolve_state_with_checkpoint_skip platform64 example_edge (commit_id 1) None) = Inr s
     \<and> incident_all example_edge s 7 1 None = Inr [edge]"
proof -
  obtain s where s: "snd (resolve_state_with_checkpoint_skip platform64 example_edge (commit_id 1) None) = Inr s"
    using resolve_total [OF example_edge_facts(1,5,2,6)] by blast
  have "adjacent edge_graph 7 None Outgoing = [edge]" "adjacent edge_graph 7 None Incoming = []" by code_simp+
  with s incident_pages_complete [OF s example_edge_facts(1-4), of 7 1] show ?thesis by auto
qed

end
