(* ===== verification/Snapshot_Validate.thy ===== *)
theory Snapshot_Validate
  imports Scan_Laws
begin

text \<open>
  Validation of a candidate layer against its parent snapshot, and of all that a snapshot shows
  (\<^verbatim>\<open>storage/snapshot.rs\<close>). The queries of the loops that only look for a witness stop at the first one.
\<close>

section \<open>Identifiers\<close>

datatype DictionaryKind = LabelEntry | RelationshipTypeEntry | PropertyKeyEntry

definition sequence_next_id :: "database \<Rightarrow> i64 \<Rightarrow> i64 res" where
  "sequence_next_id d kind = ok_or (om_get (tb_sequences d) kind) (Sqlite QueryReturnedNoRows)"

definition require_allocated_below :: "i64 \<Rightarrow> i64 \<Rightarrow> unit res" where
  "require_allocated_below i next =
     (if i > 0 \<and> i < next then Inr () else Inl (Corrupt ''was not allocated by the database sequence''))"

definition require_allocated :: "database \<Rightarrow> i64 \<Rightarrow> i64 \<Rightarrow> unit res" where
  "require_allocated d kind i =
     and_then (ok_or (om_get (tb_sequences d) kind) (Sqlite QueryReturnedNoRows)) (\<lambda>next.
       if i > 0 \<and> i < next then Inr () else Inl (Corrupt ''was not allocated by the database sequence''))"

definition require_dictionary_id :: "database \<Rightarrow> DictionaryKind \<Rightarrow> i64 \<Rightarrow> unit res" where
  "require_dictionary_id d kind i =
     (if (case kind of LabelEntry \<Rightarrow> om_has (tb_labels d) i | RelationshipTypeEntry \<Rightarrow> om_has (tb_rel_types d) i
          | PropertyKeyEntry \<Rightarrow> om_has (tb_prop_keys d) i)
      then Inr () else Inl (Corrupt ''dictionary id does not exist''))"

definition require_relationship_tuple_stable :: "database \<Rightarrow> RelationshipRecord \<Rightarrow> unit res" where
  "require_relationship_tuple_stable d r =
     (if list_ex (\<lambda>((_, i), row, _). i = rel_id r \<and>
           (rr_source_id row \<noteq> source r \<or> rr_type_id row \<noteq> type_id r \<or> rr_target_id row \<noteq> target r)) (om_entries (tb_rel_delta d))
      then Inl (Corrupt ''changed its immutable endpoints or type'') else Inr ())"

text \<open>\<^verbatim>\<open>coalesce(max(relationship_id), 0)\<close>\<close>

definition max_persisted_relationship :: "database \<Rightarrow> i64" where
  "max_persisted_relationship d =
     (case map (\<lambda>((_, i), _). i) (om_entries (tb_rel_delta d)) of [] \<Rightarrow> 0 | i # ids \<Rightarrow> fold max ids i)"

text \<open>A \<^verbatim>\<open>BTreeSet\<close> of the identifiers, then one query for each.\<close>

definition validate_dictionary_ids :: "database \<Rightarrow> i64 list \<Rightarrow> DictionaryKind \<Rightarrow> unit chk" where
  "validate_dictionary_ids d ids kind =
     chk_then (chk_fold (\<lambda>i unique. chk_then check (\<lambda>_. chk_ok (om_put i () unique))) ids om_empty) (\<lambda>unique.
       chk_all (\<lambda>i. chk_then check (\<lambda>_. chk_res (require_dictionary_id d kind i))) (om_keys unique))"

section \<open>What remains after a layer\<close>

fun chk_exists :: "('a \<Rightarrow> bool chk) \<Rightarrow> 'a list \<Rightarrow> bool chk" where
  "chk_exists f [] = chk_ok False"
| "chk_exists f (x # xs) = chk_then (f x) (\<lambda>b. if b then chk_ok True else chk_exists f xs)"

definition node_exists_after :: "database \<Rightarrow> SnapshotState \<Rightarrow> LayerBuilder \<Rightarrow> i64 \<Rightarrow> bool res" where
  "node_exists_after d s layer node =
     (case om_get (lb_nodes layer) node of Some Add \<Rightarrow> Inr True | Some Remove \<Rightarrow> Inr False | None \<Rightarrow> node_exists d s node)"

text \<open>The pages of the incident relationships; it ends because cursors move forward.\<close>

function relationship_dependents_loop ::
    "database \<Rightarrow> SnapshotState \<Rightarrow> LayerBuilder \<Rightarrow> i64 \<Rightarrow> AdjacencyCursor option \<Rightarrow> bool chk" where
  "relationship_dependents_loop d s layer node cursor =
     chk_then check (\<lambda>_.
     chk_then (chk_res (scan_incident_page d s node None cursor 256)) (\<lambda>page.
     chk_then (chk_exists (\<lambda>r. chk_then check (\<lambda>_.
         chk_ok (case om_get (lb_relationships layer) (rel_id r) of None \<Rightarrow> True | Some delta \<Rightarrow> rd_op delta \<noteq> Remove)))
         (ap_items page)) (\<lambda>found.
       if found then chk_ok True
       else case ap_next_cursor page of
              None \<Rightarrow> chk_ok False
            | Some k \<Rightarrow> relationship_dependents_loop d s layer node (Some k))))"
  by pat_completeness auto
termination
  by (relation "measure (\<lambda>(d, s, _, node, cursor). incident_measure d s node cursor)") (auto simp: incident_measure_less)

definition node_has_relationship_dependents_after :: "database \<Rightarrow> SnapshotState \<Rightarrow> LayerBuilder \<Rightarrow> i64 \<Rightarrow> bool chk" where
  "node_has_relationship_dependents_after d s layer node =
     chk_then (relationship_dependents_loop d s layer node None) (\<lambda>found.
       if found then chk_ok True
       else chk_exists (\<lambda>delta. chk_then check (\<lambda>_. chk_ok (rd_op delta = Add
              \<and> (source (rd_record delta) = node \<or> target (rd_record delta) = node)))) (om_values (lb_relationships layer)))"

definition node_has_label_dependents_after :: "database \<Rightarrow> SnapshotState \<Rightarrow> LayerBuilder \<Rightarrow> i64 \<Rightarrow> bool chk" where
  "node_has_label_dependents_after d s layer node =
     chk_then (visit_node_labels_checked d s node (\<lambda>label survives.
         chk_ok (survives \<or> om_get (lb_labels layer) (node, label) \<noteq> Some Remove)) False) (\<lambda>survives.
       if survives then chk_ok True
       else chk_exists (\<lambda>((owner, _), p). chk_then check (\<lambda>_. chk_ok (owner = node \<and> p = Add))) (om_entries (lb_labels layer)))"

definition owner_has_visible_property_after ::
    "platform \<Rightarrow> database \<Rightarrow> SnapshotState \<Rightarrow> LayerBuilder \<Rightarrow> OwnerKind \<Rightarrow> i64 \<Rightarrow> bool chk" where
  "owner_has_visible_property_after P d s layer kind owner =
     chk_then (visit_owner_properties_checked P d s kind owner (\<lambda>key _ survives.
         chk_ok (survives \<or> (case om_get (lb_properties layer) (kind, owner, key) of None \<Rightarrow> True | Some delta \<Rightarrow> pd_op delta \<noteq> Remove))) False)
       (\<lambda>survives.
       if survives then chk_ok True
       else chk_exists (\<lambda>((slot_kind, slot_owner, _), delta). chk_then check (\<lambda>_.
              chk_ok (slot_kind = kind \<and> slot_owner = owner \<and> pd_op delta = Add))) (om_entries (lb_properties layer)))"

definition node_has_visible_dependents_after :: "platform \<Rightarrow> database \<Rightarrow> SnapshotState \<Rightarrow> LayerBuilder \<Rightarrow> i64 \<Rightarrow> bool chk" where
  "node_has_visible_dependents_after P d s layer node =
     chk_then (node_has_relationship_dependents_after d s layer node) (\<lambda>b.
       if b then chk_ok True
       else chk_then (node_has_label_dependents_after d s layer node) (\<lambda>b.
              if b then chk_ok True else owner_has_visible_property_after P d s layer Node node))"

section \<open>One layer\<close>

definition validate_layer_nodes :: "LayerBuilder \<Rightarrow> i64 \<Rightarrow> unit chk" where
  "validate_layer_nodes layer next_node =
     chk_all (\<lambda>node. chk_then check (\<lambda>_. chk_res (require_allocated_below node next_node))) (om_keys (lb_nodes layer))"

definition validate_layer_labels :: "database \<Rightarrow> SnapshotState \<Rightarrow> LayerBuilder \<Rightarrow> i64 \<Rightarrow> unit chk" where
  "validate_layer_labels d s layer next_node =
     chk_then (validate_dictionary_ids d (map snd (om_keys (lb_labels layer))) LabelEntry) (\<lambda>_.
       chk_all (\<lambda>((node, label), p).
         chk_then check (\<lambda>_.
         chk_then (chk_res (require_allocated_below node next_node)) (\<lambda>_.
           if p = Add
           then chk_then (chk_res (node_exists_after d s layer node)) (\<lambda>b.
                  if b then chk_ok () else chk_err (Corrupt ''label refers to missing node''))
           else chk_ok ()))) (om_entries (lb_labels layer)))"

definition validate_layer_relationship ::
    "platform \<Rightarrow> database \<Rightarrow> SnapshotState \<Rightarrow> LayerBuilder \<Rightarrow> RelationshipDelta \<Rightarrow> i64 \<Rightarrow> i64 \<Rightarrow> i64 \<Rightarrow> unit chk" where
  "validate_layer_relationship P d s layer delta next_node next_relationship max_persisted =
     (let r = rd_record delta in
      chk_then (chk_res (require_allocated_below (rel_id r) next_relationship)) (\<lambda>_.
      chk_then (chk_res (require_allocated_below (source r) next_node)) (\<lambda>_.
      chk_then (chk_res (require_allocated_below (target r) next_node)) (\<lambda>_.
      chk_then (if rel_id r \<le> max_persisted then chk_res (require_relationship_tuple_stable d r) else chk_ok ()) (\<lambda>_.
        if rd_op delta = Add
        then chk_then (chk_res (node_exists_after d s layer (source r))) (\<lambda>a.
               if \<not> a then chk_err (Corrupt ''relationship has a missing endpoint'')
               else chk_then (chk_res (node_exists_after d s layer (target r))) (\<lambda>b.
                      if \<not> b then chk_err (Corrupt ''relationship has a missing endpoint'') else chk_ok ()))
        else chk_then (owner_has_visible_property_after P d s layer Relationship (rel_id r)) (\<lambda>b.
               if b then chk_err (Corrupt ''relationship is removed while visible properties still reference it'')
               else chk_ok ()))))))"

definition validate_layer_relationships ::
    "platform \<Rightarrow> database \<Rightarrow> SnapshotState \<Rightarrow> LayerBuilder \<Rightarrow> i64 \<Rightarrow> i64 \<Rightarrow> i64 \<Rightarrow> unit chk" where
  "validate_layer_relationships P d s layer next_node next_relationship max_persisted =
     chk_then (validate_dictionary_ids d (map (\<lambda>delta. type_id (rd_record delta)) (om_values (lb_relationships layer))) RelationshipTypeEntry) (\<lambda>_.
       chk_all (\<lambda>delta. chk_then check (\<lambda>_.
           validate_layer_relationship P d s layer delta next_node next_relationship max_persisted))
         (om_values (lb_relationships layer)))"

definition validate_layer_property ::
    "database \<Rightarrow> SnapshotState \<Rightarrow> LayerBuilder \<Rightarrow> OwnerKind \<Rightarrow> i64 \<Rightarrow> PropertyDelta \<Rightarrow> i64 \<Rightarrow> i64 \<Rightarrow> unit res" where
  "validate_layer_property d s layer kind owner delta next_node next_relationship =
     and_then (case kind of Node \<Rightarrow> require_allocated_below owner next_node
               | Relationship \<Rightarrow> require_allocated_below owner next_relationship) (\<lambda>_.
       if pd_op delta \<noteq> Add then Inr ()
       else and_then (case kind of
                Node \<Rightarrow> node_exists_after d s layer owner
              | Relationship \<Rightarrow>
                  (case om_get (lb_relationships layer) owner of
                     None \<Rightarrow> and_then (relationship d s owner) (\<lambda>r. Inr (r \<noteq> None))
                   | Some r \<Rightarrow> Inr (rd_op r = Add))) (\<lambda>exists.
              if exists then Inr () else Inl (Corrupt ''property refers to missing owner'')))"

definition validate_layer_properties :: "database \<Rightarrow> SnapshotState \<Rightarrow> LayerBuilder \<Rightarrow> i64 \<Rightarrow> i64 \<Rightarrow> unit chk" where
  "validate_layer_properties d s layer next_node next_relationship =
     chk_then (validate_dictionary_ids d (map (\<lambda>(_, _, key). key) (om_keys (lb_properties layer))) PropertyKeyEntry) (\<lambda>_.
       chk_all (\<lambda>((kind, owner, key), delta). chk_then check (\<lambda>_.
           chk_res (validate_layer_property d s layer kind owner delta next_node next_relationship))) (om_entries (lb_properties layer)))"

definition validate_removed_nodes :: "platform \<Rightarrow> database \<Rightarrow> SnapshotState \<Rightarrow> LayerBuilder \<Rightarrow> unit chk" where
  "validate_removed_nodes P d s layer =
     chk_all (\<lambda>(node, p). chk_then check (\<lambda>_.
       if p = Remove
       then chk_then (node_has_visible_dependents_after P d s layer node) (\<lambda>b.
              if b then chk_err (Corrupt ''node is removed while visible graph state still references it'') else chk_ok ())
       else chk_ok ())) (om_entries (lb_nodes layer))"

definition validate_layer_invariants_checked :: "platform \<Rightarrow> database \<Rightarrow> SnapshotState \<Rightarrow> LayerBuilder \<Rightarrow> unit chk" where
  "validate_layer_invariants_checked P d s layer =
     chk_then check (\<lambda>_.
     chk_then (chk_res (sequence_next_id d 1)) (\<lambda>next_node.
     chk_then (chk_res (sequence_next_id d 2)) (\<lambda>next_relationship.
     chk_then (validate_layer_nodes layer next_node) (\<lambda>_.
     chk_then (validate_layer_labels d s layer next_node) (\<lambda>_.
     chk_then (validate_layer_relationships P d s layer next_node next_relationship (max_persisted_relationship d)) (\<lambda>_.
     chk_then (validate_layer_properties d s layer next_node next_relationship) (\<lambda>_.
     chk_then (validate_removed_nodes P d s layer) (\<lambda>_.
       check))))))))"

section \<open>The whole snapshot\<close>

definition require_visible_relationship_endpoints :: "database \<Rightarrow> SnapshotState \<Rightarrow> RelationshipRecord \<Rightarrow> unit res" where
  "require_visible_relationship_endpoints d s r =
     and_then (node_exists d s (source r)) (\<lambda>a.
       if \<not> a then Inl (Corrupt ''relationship has a missing endpoint'')
       else and_then (node_exists d s (target r)) (\<lambda>b.
              if \<not> b then Inl (Corrupt ''relationship has a missing endpoint'') else Inr ()))"

definition owner_visible :: "database \<Rightarrow> SnapshotState \<Rightarrow> OwnerKind \<Rightarrow> i64 \<Rightarrow> bool res" where
  "owner_visible d s kind owner =
     (case kind of Node \<Rightarrow> node_exists d s owner | Relationship \<Rightarrow> and_then (relationship d s owner) (\<lambda>r. Inr (r \<noteq> None)))"

definition validate_visible_relationships :: "database \<Rightarrow> SnapshotState \<Rightarrow> unit chk" where
  "validate_visible_relationships d s =
     visit_relationships_checked d s (\<lambda>r _. chk_then check (\<lambda>_. chk_res (require_visible_relationship_endpoints d s r))) ()"

definition validate_visible_labels :: "database \<Rightarrow> SnapshotState \<Rightarrow> unit chk" where
  "validate_visible_labels d s =
     visit_labels_checked d s (\<lambda>node label _. chk_then check (\<lambda>_.
       chk_res (and_then (node_exists d s node) (\<lambda>b. if b then Inr () else Inl (Corrupt ''label refers to missing node''))))) ()"

definition validate_visible_properties :: "platform \<Rightarrow> database \<Rightarrow> SnapshotState \<Rightarrow> unit chk" where
  "validate_visible_properties P d s =
     visit_properties_observed P d s (\<lambda>kind owner key v _. chk_then check (\<lambda>_.
       chk_res (and_then (owner_visible d s kind owner) (\<lambda>b. if b then Inr () else Inl (Corrupt ''property key refers to missing owner''))))) ()"

definition validate_node_deltas :: "platform \<Rightarrow> database \<Rightarrow> SnapshotState \<Rightarrow> unit chk" where
  "validate_node_deltas P d s =
     chk_all (\<lambda>(node, p). chk_then check (\<lambda>_.
       chk_then (chk_res (require_allocated d 1 node)) (\<lambda>_.
         case p of
           Add \<Rightarrow> chk_ok ()
         | Remove \<Rightarrow> chk_then (node_has_visible_dependents_after P d s layer_default node) (\<lambda>b.
             if b then chk_err (Corrupt ''node is removed while visible graph state still references it'') else chk_ok ()))))
       (om_entries (ov_nodes (ss_overlay s)))"

definition validate_label_deltas :: "database \<Rightarrow> SnapshotState \<Rightarrow> unit chk" where
  "validate_label_deltas d s =
     chk_all (\<lambda>((node, label), p). chk_then check (\<lambda>_.
       chk_then (chk_res (require_allocated d 1 node)) (\<lambda>_.
       chk_then (chk_res (require_dictionary_id d LabelEntry label)) (\<lambda>_.
         if p = Add
         then chk_then (chk_res (node_exists d s node)) (\<lambda>b.
                if b then chk_ok () else chk_err (Corrupt ''label refers to missing node''))
         else chk_ok ())))) (om_entries (ov_labels (ss_overlay s)))"

definition validate_relationship_deltas :: "platform \<Rightarrow> database \<Rightarrow> SnapshotState \<Rightarrow> unit chk" where
  "validate_relationship_deltas P d s =
     chk_all (\<lambda>delta. chk_then check (\<lambda>_. let r = rd_record delta in
       chk_then (chk_res (require_allocated d 2 (rel_id r))) (\<lambda>_.
       chk_then (chk_res (require_allocated d 1 (source r))) (\<lambda>_.
       chk_then (chk_res (require_allocated d 1 (target r))) (\<lambda>_.
       chk_then (chk_res (require_dictionary_id d RelationshipTypeEntry (type_id r))) (\<lambda>_.
       chk_then (chk_res (require_relationship_tuple_stable d r)) (\<lambda>_.
       chk_then (if rd_op delta = Add then chk_res (require_visible_relationship_endpoints d s r) else chk_ok ()) (\<lambda>_.
         if rd_op delta = Remove
         then chk_then (owner_has_visible_property_after P d s layer_default Relationship (rel_id r)) (\<lambda>b.
                if b then chk_err (Corrupt ''relationship is removed while visible properties still reference it'') else chk_ok ())
         else chk_ok ()))))))))
       (om_values (ov_relationships (ss_overlay s)))"

definition validate_property_deltas :: "database \<Rightarrow> SnapshotState \<Rightarrow> unit chk" where
  "validate_property_deltas d s =
     chk_all (\<lambda>((kind, owner, key), delta). chk_then check (\<lambda>_.
       chk_then (chk_res (require_dictionary_id d PropertyKeyEntry key)) (\<lambda>_.
       chk_then (chk_res (case kind of Node \<Rightarrow> require_allocated d 1 owner | Relationship \<Rightarrow> require_allocated d 2 owner)) (\<lambda>_.
         if pd_op delta \<noteq> Add then chk_ok ()
         else chk_then (chk_res (owner_visible d s kind owner)) (\<lambda>b.
                if b then chk_ok () else chk_err (Corrupt ''property key refers to missing owner'')))))) (om_entries (ov_properties (ss_overlay s)))"

definition validate_overlay_invariants_checked :: "platform \<Rightarrow> database \<Rightarrow> SnapshotState \<Rightarrow> unit chk" where
  "validate_overlay_invariants_checked P d s =
     chk_then (validate_node_deltas P d s) (\<lambda>_.
     chk_then (validate_label_deltas d s) (\<lambda>_.
     chk_then (validate_relationship_deltas P d s) (\<lambda>_.
       validate_property_deltas d s)))"

definition validate_graph_invariants_checked :: "platform \<Rightarrow> database \<Rightarrow> SnapshotState \<Rightarrow> unit chk" where
  "validate_graph_invariants_checked P d s =
     chk_then check (\<lambda>_.
     chk_then (validate_overlay_invariants_checked P d s) (\<lambda>_.
     chk_then (validate_visible_relationships d s) (\<lambda>_.
     chk_then (validate_visible_labels d s) (\<lambda>_.
     chk_then (validate_visible_properties P d s) (\<lambda>_.
       check)))))"

definition validate_graph_invariants :: "platform \<Rightarrow> database \<Rightarrow> SnapshotState \<Rightarrow> unit res" where
  "validate_graph_invariants P d s = snd (validate_graph_invariants_checked P d s)"

end
