(* ===== verification/Validate_Laws.thy ===== *)
theory Validate_Laws
  imports Snapshot_Validate Scan_Theorems
begin

text \<open>
  The check of a candidate layer is exact: it looks only at the layer and at what it touches, and accepts a layer
  if and only if its identifiers are allocated and stable and the graph after the layer is well formed.
\<close>

section \<open>What remains after a layer\<close>

lemma snd_chk_exists:
  assumes "\<And>x. x \<in> set xs \<Longrightarrow> snd (f x) = Inr (q x)"
  shows "snd (chk_exists f xs) = Inr (\<exists>x \<in> set xs. q x)"
  using assms by (induction xs) auto

lemma fold_or: "fold (\<lambda>x b. b \<or> q x) xs b \<longleftrightarrow> b \<or> (\<exists>x \<in> set xs. q x)"
  by (induction xs arbitrary: b) auto

lemma node_exists_after_view:
  assumes "base_graph P d s b" "view b s = g"
  shows "node_exists_after d s l n = Inr (om_has (g_nodes (apply_layer l g)) n)"
  using node_exists_view [OF assms(1)] assms(2)
  by (auto simp: node_exists_after_def om_has_def apply_layer_get split: option.splits DeltaOp.splits)

lemma labels_after_view:
  assumes "snapshot_of P d s b g"
  shows "snd (node_has_label_dependents_after d s l n) = Inr (\<exists>k. om_has (g_labels (apply_layer l g)) (n, k))"
proof -
  let ?q = "\<lambda>k. om_get (lb_labels l) (n, k) \<noteq> Some Remove"
  have 1: "snd (visit_node_labels_checked d s n (\<lambda>label survives. chk_ok (survives \<or> ?q label)) False) = Inr (\<exists>k \<in> set (om_keys (node_labels g n)). ?q k)"
    unfolding visit_node_labels_view [OF assms] by (simp add: fold_or)
  have 2: "snd (chk_exists (\<lambda>((owner, _), p). chk_then check (\<lambda>_. chk_ok (owner = n \<and> p = Add))) (om_entries (lb_labels l))) =
      Inr (\<exists>e \<in> set (om_entries (lb_labels l)). fst (fst e) = n \<and> snd e = Add)"
    by (rule snd_chk_exists) (auto simp: case_prod_unfold)
  have "(\<exists>k \<in> set (om_keys (node_labels g n)). ?q k) \<or> (\<exists>e \<in> set (om_entries (lb_labels l)). fst (fst e) = n \<and> snd e = Add) \<longleftrightarrow>
      (\<exists>k. om_has (g_labels (apply_layer l g)) (n, k))" (is "?L \<longleftrightarrow> ?R")
  proof
    assume ?L
    then show ?R
    proof
      assume "\<exists>k \<in> set (om_keys (node_labels g n)). ?q k"
      then obtain k where "om_get (g_labels g) (n, k) \<noteq> None" "?q k" by (auto simp: om_keys_iff node_labels_def)
      then have "om_has (g_labels (apply_layer l g)) (n, k)"
        by (auto simp: om_has_def apply_layer_get op_change_def split: option.split) (metis DeltaOp.exhaust)
      then show ?R ..
    next
      assume "\<exists>e \<in> set (om_entries (lb_labels l)). fst (fst e) = n \<and> snd e = Add"
      then obtain k where "om_get (lb_labels l) (n, k) = Some Add" by (auto simp: om_entries_iff)
      then have "om_has (g_labels (apply_layer l g)) (n, k)" by (simp add: om_has_def apply_layer_get)
      then show ?R ..
    qed
  next
    assume ?R
    then obtain k where k: "om_get (g_labels (apply_layer l g)) (n, k) \<noteq> None" by (auto simp: om_has_def)
    show ?L
    proof (cases "om_get (lb_labels l) (n, k)")
      case None
      with k have "k \<in> set (om_keys (node_labels g n))" by (simp add: om_keys_iff node_labels_def apply_layer_get)
      with None show ?L by auto
    next
      case (Some p)
      with k have "((n, k), Add) \<in> set (om_entries (lb_labels l))" by (auto simp: om_entries_iff apply_layer_get)
      then show ?L by force
    qed
  qed
  then show ?thesis by (auto simp: node_has_label_dependents_after_def 1 2)
qed

lemma properties_after_view:
  assumes "snapshot_of P d s b g" "wf_layer l"
  shows "snd (owner_has_visible_property_after P d s l kind n) = Inr (\<exists>k. om_has (g_properties (apply_layer l g)) (kind, n, k))"
proof -
  let ?q = "\<lambda>k. case om_get (lb_properties l) (kind, n, k) of None \<Rightarrow> True | Some delta \<Rightarrow> pd_op delta \<noteq> Remove"
  have wf: "pd_op delta = Add \<longleftrightarrow> pd_value delta \<noteq> None" if "om_get (lb_properties l) k = Some delta" for k delta
    using assms(2) that unfolding wf_layer_iff om_all_iff by (cases k) (auto simp: wf_delta_def)
  have 1: "snd (visit_owner_properties_checked P d s kind n (\<lambda>key _ survives. chk_ok (survives \<or> ?q key)) False) =
      Inr (\<exists>e \<in> set (om_entries (owner_properties g kind n)). ?q (fst e))"
    unfolding visit_owner_properties_view [OF assms(1)] by (simp add: fold_or case_prod_unfold)
  have 2: "snd (chk_exists (\<lambda>((slot_kind, slot_owner, _), delta). chk_then check (\<lambda>_.
              chk_ok (slot_kind = kind \<and> slot_owner = n \<and> pd_op delta = Add))) (om_entries (lb_properties l))) =
      Inr (\<exists>e \<in> set (om_entries (lb_properties l)). fst (fst e) = kind \<and> fst (snd (fst e)) = n \<and> pd_op (snd e) = Add)"
    by (rule snd_chk_exists) (auto simp: case_prod_unfold)
  have "(\<exists>e \<in> set (om_entries (owner_properties g kind n)). ?q (fst e))
      \<or> (\<exists>e \<in> set (om_entries (lb_properties l)). fst (fst e) = kind \<and> fst (snd (fst e)) = n \<and> pd_op (snd e) = Add) \<longleftrightarrow>
      (\<exists>k. om_has (g_properties (apply_layer l g)) (kind, n, k))" (is "?L \<longleftrightarrow> ?R")
  proof
    assume ?L
    then show ?R
    proof
      assume "\<exists>e \<in> set (om_entries (owner_properties g kind n)). ?q (fst e)"
      then obtain k v where "om_get (g_properties g) (kind, n, k) = Some v" "?q k" by (auto simp: om_entries_iff owner_properties_def)
      then have "om_has (g_properties (apply_layer l g)) (kind, n, k)"
        using wf [of "(kind, n, k)"] by (cases "om_get (lb_properties l) (kind, n, k)") (auto simp: om_has_def apply_layer_get, metis DeltaOp.exhaust)
      then show ?R ..
    next
      assume "\<exists>e \<in> set (om_entries (lb_properties l)). fst (fst e) = kind \<and> fst (snd (fst e)) = n \<and> pd_op (snd e) = Add"
      then obtain k delta where "om_get (lb_properties l) (kind, n, k) = Some delta" "pd_op delta = Add" by (auto simp: om_entries_iff)
      with wf have "om_has (g_properties (apply_layer l g)) (kind, n, k)" by (auto simp: om_has_def apply_layer_get)
      then show ?R ..
    qed
  next
    assume ?R
    then obtain k where k: "om_get (g_properties (apply_layer l g)) (kind, n, k) \<noteq> None" by (auto simp: om_has_def)
    show ?L
    proof (cases "om_get (lb_properties l) (kind, n, k)")
      case None
      with k obtain v where "(k, v) \<in> set (om_entries (owner_properties g kind n))"
        by (auto simp: om_entries_iff owner_properties_def apply_layer_get)
      with None show ?L by force
    next
      case (Some delta)
      with k wf have "((kind, n, k), delta) \<in> set (om_entries (lb_properties l))" "pd_op delta = Add"
        by (auto simp: om_entries_iff apply_layer_get)
      then show ?L by force
    qed
  qed
  then show ?thesis by (auto simp: owner_has_visible_property_after_def 1 2)
qed

declare relationship_dependents_loop.simps [simp del]

lemma relationship_dependents_loop_view:
  assumes "snapshot_of P d s b g" "tuple_stable b s" "cursor_ok s node None cursor"
  shows "snd (relationship_dependents_loop d s l node cursor) = Inr (\<exists>r \<in> set (cursor_rest g node None cursor).
    case om_get (lb_relationships l) (rel_id r) of None \<Rightarrow> True | Some delta \<Rightarrow> rd_op delta \<noteq> Remove)"
  using assms
proof (induction d s l node cursor rule: relationship_dependents_loop.induct)
  case (1 d s l node cursor)
  let ?q = "\<lambda>r. case om_get (lb_relationships l) (rel_id r) of None \<Rightarrow> True | Some delta \<Rightarrow> rd_op delta \<noteq> Remove"
  from scan_incident_page_ok [OF "1.prems"] obtain page where page: "scan_incident_page d s node None cursor 256 = Inr page"
    "cursor_rest g node None cursor = ap_items page @ (if ap_next_cursor page = None then [] else cursor_rest g node None (ap_next_cursor page))"
    "cursor_ok s node None (ap_next_cursor page)" by blast
  have ex: "snd (chk_exists (\<lambda>r. chk_then check (\<lambda>_. chk_ok (?q r))) (ap_items page)) = Inr (\<exists>r \<in> set (ap_items page). ?q r)"
    by (rule snd_chk_exists) simp
  show ?case
  proof (cases "(\<exists>r \<in> set (ap_items page). ?q r) \<or> ap_next_cursor page = None")
    case True
    with page ex show ?thesis by (subst relationship_dependents_loop.simps) auto
  next
    case False
    then obtain k where k: "ap_next_cursor page = Some k" and nf: "\<not> (\<exists>r \<in> set (ap_items page). ?q r)" by auto
    have "snd (relationship_dependents_loop d s l node (Some k)) = Inr (\<exists>r \<in> set (cursor_rest g node None (Some k)). ?q r)"
      using "1.IH" [of "()" page False k] page k ex nf "1.prems" by simp
    with page k ex nf show ?thesis by (subst relationship_dependents_loop.simps) auto
  qed
qed

text \<open>A layer that describes the relationships of the graph as the graph does.\<close>

lemma relationships_after_view:
  assumes "snapshot_of P d s b g" "tuple_stable b s" "tuples_stable l g" "wf_layer l"
  shows "snd (node_has_relationship_dependents_after d s l n) =
    Inr (\<exists>i r. om_get (g_relationships (apply_layer l g)) i = Some r \<and> (source r = n \<or> target r = n))"
proof -
  let ?q = "\<lambda>r. case om_get (lb_relationships l) (rel_id r) of None \<Rightarrow> True | Some delta \<Rightarrow> rd_op delta \<noteq> Remove"
  let ?add = "\<lambda>delta. rd_op delta = Add \<and> (source (rd_record delta) = n \<or> target (rd_record delta) = n)"
  have ids: "om_all (\<lambda>i r. rel_id r = i) (g_relationships g)" "om_all (\<lambda>i delta. rel_id (rd_record delta) = i) (lb_relationships l)"
    using snapshot_of_graph_ok [OF assms(1)] assms(4) by (auto simp: graph_ok_def om_all_iff wf_layer_iff)
  have 1: "snd (relationship_dependents_loop d s l n None) = Inr (\<exists>r \<in> set (cursor_rest g n None None). ?q r)"
    using relationship_dependents_loop_view [OF assms(1,2), of n None l] by (simp add: cursor_ok_def)
  have 2: "snd (chk_exists (\<lambda>delta. chk_then check (\<lambda>_. chk_ok (?add delta))) (om_values (lb_relationships l))) =
      Inr (\<exists>delta \<in> set (om_values (lb_relationships l)). ?add delta)"
    by (rule snd_chk_exists) simp
  have rest: "r \<in> set (cursor_rest g n None None) \<longleftrightarrow> om_get (g_relationships g) (rel_id r) = Some r \<and> (source r = n \<or> target r = n)" for r
    using adjacent_listing(3) [OF ids(1), of r n None]
    by (auto simp: cursor_rest_def incident_rest_def key_after_def filter_incident_self_loops_def adjacency_node_def of_type_def)
  have "(\<exists>r \<in> set (cursor_rest g n None None). ?q r) \<or> (\<exists>delta \<in> set (om_values (lb_relationships l)). ?add delta) \<longleftrightarrow>
      (\<exists>i r. om_get (g_relationships (apply_layer l g)) i = Some r \<and> (source r = n \<or> target r = n))" (is "?L \<longleftrightarrow> ?R")
  proof
    assume ?L
    then show ?R
    proof
      assume "\<exists>r \<in> set (cursor_rest g n None None). ?q r"
      then obtain r where r: "om_get (g_relationships g) (rel_id r) = Some r" "source r = n \<or> target r = n" "?q r" using rest by blast
      have "om_get (g_relationships (apply_layer l g)) (rel_id r) = Some r"
      proof (cases "om_get (lb_relationships l) (rel_id r)")
        case (Some delta)
        then have "rd_record delta = r" using om_allD [OF assms(3) [unfolded tuples_stable_def] Some] r(1) by simp
        moreover have "rd_op delta = Add" using r(3) Some by (cases "rd_op delta") auto
        ultimately show ?thesis using Some by (simp add: apply_layer_get relationship_change_def)
      qed (use r in \<open>simp add: apply_layer_get\<close>)
      with r(2) show ?R by blast
    next
      assume "\<exists>delta \<in> set (om_values (lb_relationships l)). ?add delta"
      then obtain i delta where "om_get (lb_relationships l) i = Some delta" "?add delta" by (auto simp: om_values_iff)
      then have "om_get (g_relationships (apply_layer l g)) i = Some (rd_record delta)" by (simp add: apply_layer_get relationship_change_def)
      with \<open>?add delta\<close> show ?R by blast
    qed
  next
    assume ?R
    then obtain i r where r: "om_get (g_relationships (apply_layer l g)) i = Some r" "source r = n \<or> target r = n" by blast
    show ?L
    proof (cases "om_get (lb_relationships l) i")
      case None
      then have "om_get (g_relationships g) i = Some r" using r by (simp add: apply_layer_get)
      moreover from this have "rel_id r = i" using ids(1) by (auto simp: om_all_iff)
      ultimately have "r \<in> set (cursor_rest g n None None)" "?q r" using rest r None by auto
      then show ?L by blast
    next
      case (Some delta)
      then have "?add delta" using r by (auto simp: apply_layer_get relationship_change_def split: if_splits)
      moreover from Some have "delta \<in> set (om_values (lb_relationships l))" by (auto simp: om_values_iff)
      ultimately show ?L by blast
    qed
  qed
  then show ?thesis by (auto simp: node_has_relationship_dependents_after_def 1 2)
qed

text \<open>What still hangs on a node.\<close>

definition node_used :: "graph \<Rightarrow> i64 \<Rightarrow> bool" where
  "node_used g n \<longleftrightarrow> (\<exists>i r. om_get (g_relationships g) i = Some r \<and> (source r = n \<or> target r = n))
     \<or> (\<exists>k. om_has (g_labels g) (n, k)) \<or> (\<exists>k. om_has (g_properties g) (Node, n, k))"

lemma dependents_after_view:
  assumes "snapshot_of P d s b g" "tuple_stable b s" "tuples_stable l g" "wf_layer l"
  shows "snd (node_has_visible_dependents_after P d s l n) = Inr (node_used (apply_layer l g) n)"
  unfolding node_has_visible_dependents_after_def
  by (auto simp: relationships_after_view [OF assms] labels_after_view [OF assms(1)] properties_after_view [OF assms(1,4)] node_used_def)

section \<open>Allowed identifiers\<close>

definition allocated :: "database \<Rightarrow> i64 \<Rightarrow> i64 \<Rightarrow> bool" where
  "allocated d kind i = (case om_get (tb_sequences d) kind of None \<Rightarrow> False | Some next \<Rightarrow> 0 < i \<and> i < next)"

definition owner_sequence :: "OwnerKind \<Rightarrow> i64" where
  "owner_sequence kind = (case kind of Node \<Rightarrow> 1 | Relationship \<Rightarrow> 2)"

text \<open>
  The identifiers of a layer are allocated, its dictionary entries exist, and it repeats what earlier layers say
  of a relationship.
\<close>

definition layer_allowed :: "database \<Rightarrow> LayerBuilder \<Rightarrow> bool" where
  "layer_allowed d l \<longleftrightarrow>
     om_all (\<lambda>n _. allocated d 1 n) (lb_nodes l)
   \<and> om_all (\<lambda>(n, k) _. allocated d 1 n \<and> om_has (tb_labels d) k) (lb_labels l)
   \<and> om_all (\<lambda>_ delta. let r = rd_record delta in allocated d 2 (rel_id r) \<and> allocated d 1 (source r) \<and> allocated d 1 (target r)
        \<and> om_has (tb_rel_types d) (type_id r) \<and> (\<forall>r'. stored_tuple d (rel_id r) r' \<longrightarrow> r' = r)) (lb_relationships l)
   \<and> om_all (\<lambda>(kind, n, k) _. allocated d (owner_sequence kind) n \<and> om_has (tb_prop_keys d) k) (lb_properties l)"

lemma require_dictionary_id_Inr [simp]:
  "require_dictionary_id d kind i = Inr u \<longleftrightarrow>
     (case kind of LabelEntry \<Rightarrow> om_has (tb_labels d) i | RelationshipTypeEntry \<Rightarrow> om_has (tb_rel_types d) i
      | PropertyKeyEntry \<Rightarrow> om_has (tb_prop_keys d) i)"
  by (simp add: require_dictionary_id_def)

lemma require_allocated_Inr [simp]: "require_allocated d kind i = Inr u \<longleftrightarrow> allocated d kind i"
  by (auto simp: require_allocated_def allocated_def split: option.splits)

lemma require_allocated_below_Inr: "om_get (tb_sequences d) kind = Some next \<Longrightarrow> require_allocated_below i next = Inr u \<longleftrightarrow> allocated d kind i"
  by (simp add: require_allocated_below_def allocated_def)

lemma tuple_stable_Inr [simp]: "require_relationship_tuple_stable d r = Inr u \<longleftrightarrow> (\<forall>r'. stored_tuple d (rel_id r) r' \<longrightarrow> r' = r)"
proof -
  have eq: "relationship_from_row (rel_id r) row = r \<longleftrightarrow> rr_source_id row = source r \<and> rr_type_id row = type_id r \<and> rr_target_id row = target r" for row
    by (cases r) (auto simp: relationship_from_row_def)
  have "list_ex (\<lambda>((_, i), row, _). i = rel_id r \<and> (rr_source_id row \<noteq> source r \<or> rr_type_id row \<noteq> type_id r \<or> rr_target_id row \<noteq> target r))
      (om_entries (tb_rel_delta d)) \<longleftrightarrow> (\<exists>l row p. om_get (tb_rel_delta d) (l, rel_id r) = Some (row, p) \<and> relationship_from_row (rel_id r) row \<noteq> r)"
    unfolding eq by (fastforce simp: list_ex_iff om_entries_iff)
  then show ?thesis by (auto simp: require_relationship_tuple_stable_def stored_tuple_def)
qed

lemma fold_max_le: "x \<le> i \<or> x \<in> set ids \<Longrightarrow> x \<le> fold max ids (i :: i64)"
  by (induction ids arbitrary: i) (auto simp: le_max_iff_disj)

lemma beyond_max_persisted: "max_persisted_relationship d < i \<Longrightarrow> \<not> stored_tuple d i r"
proof
  assume less: "max_persisted_relationship d < i" and "stored_tuple d i r"
  then obtain l row where "om_get (tb_rel_delta d) (l, i) = Some row" by (auto simp: stored_tuple_def)
  then have "((l, i), row) \<in> set (om_entries (tb_rel_delta d))" by (simp add: om_entries_iff)
  then have "i \<in> set (map (\<lambda>((_, i), _). i) (om_entries (tb_rel_delta d)))" by force
  moreover have "x \<le> (case xs of [] \<Rightarrow> 0 | i # ids \<Rightarrow> fold max ids i)" if "x \<in> set xs" for x :: i64 and xs
    using that by (cases xs) (auto intro: fold_max_le)
  ultimately have "i \<le> max_persisted_relationship d" unfolding max_persisted_relationship_def by blast
  with less show False by simp
qed

lemma validate_dictionary_ids_Inr:
  "snd (validate_dictionary_ids d ids kind) = Inr u \<longleftrightarrow> (\<forall>i \<in> set ids. require_dictionary_id d kind i = Inr ())"
proof -
  have "set (om_keys (fold (\<lambda>i unique. om_put i () unique) ids m)) = set ids \<union> set (om_keys m)" for m
    by (induction ids arbitrary: m) (auto simp: set_om_keys om_get_put)
  then have "set (om_keys (fold (\<lambda>i unique. om_put i () unique) ids om_empty)) = set ids" by (simp add: om_keys_def om_empty.rep_eq)
  then show ?thesis by (simp add: validate_dictionary_ids_def del: require_dictionary_id_Inr)
qed

section \<open>The check is exact\<close>

lemma ball_entries: "(\<forall>e \<in> set (om_entries m). Q e) \<longleftrightarrow> om_all (\<lambda>k v. Q (k, v)) m"
  by (auto simp: om_all_def list_all_iff)

lemma ball_values: "(\<forall>v \<in> set (om_values m). Q v) \<longleftrightarrow> om_all (\<lambda>_ v. Q v) m"
  by (auto simp: om_all_def list_all_iff om_values_def)

lemma ball_keys: "(\<forall>k \<in> set (om_keys m). Q k) \<longleftrightarrow> om_all (\<lambda>k _. Q k) m"
  by (auto simp: om_all_def list_all_iff om_keys_def)

lemma om_all_conj: "om_all (\<lambda>k v. Q k v \<and> R k v) m \<longleftrightarrow> om_all Q m \<and> om_all R m"
  by (auto simp: om_all_def list_all_iff)

lemma om_all_cong: "(\<And>k v. Q k v \<longleftrightarrow> R k v) \<Longrightarrow> om_all Q m \<longleftrightarrow> om_all R m"
  by (simp add: om_all_iff)

lemmas ball_simps = ball_entries ball_values ball_keys

text \<open>The graph after the layer, seen from the layer.\<close>

definition layer_respects :: "graph \<Rightarrow> LayerBuilder \<Rightarrow> bool" where
  "layer_respects g' l \<longleftrightarrow>
     om_all (\<lambda>n p. p = Remove \<longrightarrow> \<not> node_used g' n) (lb_nodes l)
   \<and> om_all (\<lambda>(n, _) p. p = Add \<longrightarrow> om_has (g_nodes g') n) (lb_labels l)
   \<and> om_all (\<lambda>_ delta. if rd_op delta = Add then om_has (g_nodes g') (source (rd_record delta)) \<and> om_has (g_nodes g') (target (rd_record delta))
        else \<not> (\<exists>k. om_has (g_properties g') (Relationship, rel_id (rd_record delta), k))) (lb_relationships l)
   \<and> om_all (\<lambda>(kind, n, _) delta. pd_op delta = Add \<longrightarrow> owner_in g' kind n) (lb_properties l)"

lemma validate_layer_iff:
  assumes snap: "snapshot_of P d s b g" "tuple_stable b s" "om_all (stored_tuple d) (g_relationships g)"
    and wf: "wf_layer l" and seq: "om_get (tb_sequences d) 1 = Some n1" "om_get (tb_sequences d) 2 = Some n2"
  shows "snd (validate_layer_invariants_checked P d s l) = Inr () \<longleftrightarrow> layer_allowed d l \<and> layer_respects (apply_layer l g) l"
proof -
  let ?g = "apply_layer l g"
  have base: "base_graph P d s b" "view b s = g" using snap(1) by (auto simp: snapshot_of_def)
  note al = require_allocated_below_Inr [OF seq(1)] require_allocated_below_Inr [OF seq(2)]
  note after = node_exists_after_view [OF base, of l]
  have nodes: "snd (validate_layer_nodes l n1) = Inr () \<longleftrightarrow> om_all (\<lambda>n _. allocated d 1 n) (lb_nodes l)"
    by (simp add: validate_layer_nodes_def ball_simps al)
  have label1: "snd (if p = Add then chk_then (chk_res (node_exists_after d s l n)) (\<lambda>b.
      if b then chk_ok () else chk_err (Corrupt ''label refers to missing node'')) else chk_ok ()) = Inr () \<longleftrightarrow>
      (p = Add \<longrightarrow> om_has (g_nodes ?g) n)" for n p
    by (simp add: after)
  have labels: "snd (validate_layer_labels d s l n1) = Inr () \<longleftrightarrow>
      om_all (\<lambda>(n, k) _. allocated d 1 n \<and> om_has (tb_labels d) k) (lb_labels l)
      \<and> om_all (\<lambda>(n, _) p. p = Add \<longrightarrow> om_has (g_nodes ?g) n) (lb_labels l)"
    unfolding validate_layer_labels_def snd_chk and_then_Inr_iff validate_dictionary_ids_Inr snd_chk_all all_res_Inr_iff case_prod_unfold label1
    by (auto simp: ball_simps al om_all_iff)
  have rel: "snd (validate_layer_relationship P d s l delta n1 n2 (max_persisted_relationship d)) = Inr () \<longleftrightarrow>
      (let r = rd_record delta in allocated d 2 (rel_id r) \<and> allocated d 1 (source r) \<and> allocated d 1 (target r)
        \<and> (\<forall>r'. stored_tuple d (rel_id r) r' \<longrightarrow> r' = r))
      \<and> (if rd_op delta = Add then om_has (g_nodes ?g) (source (rd_record delta)) \<and> om_has (g_nodes ?g) (target (rd_record delta))
        else \<not> (\<exists>k. om_has (g_properties ?g) (Relationship, rel_id (rd_record delta), k)))" for delta
    using beyond_max_persisted [of d "rel_id (rd_record delta)"]
    by (auto simp: validate_layer_relationship_def Let_def al after properties_after_view [OF snap(1) wf])
  have rels: "snd (validate_layer_relationships P d s l n1 n2 (max_persisted_relationship d)) = Inr () \<longleftrightarrow>
      om_all (\<lambda>_ delta. let r = rd_record delta in allocated d 2 (rel_id r) \<and> allocated d 1 (source r) \<and> allocated d 1 (target r)
        \<and> om_has (tb_rel_types d) (type_id r) \<and> (\<forall>r'. stored_tuple d (rel_id r) r' \<longrightarrow> r' = r)) (lb_relationships l)
      \<and> om_all (\<lambda>_ delta. if rd_op delta = Add then om_has (g_nodes ?g) (source (rd_record delta)) \<and> om_has (g_nodes ?g) (target (rd_record delta))
        else \<not> (\<exists>k. om_has (g_properties ?g) (Relationship, rel_id (rd_record delta), k))) (lb_relationships l)"
    unfolding om_all_conj [symmetric]
    by (simp add: validate_layer_relationships_def validate_dictionary_ids_Inr ball_simps rel om_all_conj [symmetric] Let_def)
       (auto simp: om_all_iff)
  have prop1: "validate_layer_property d s l kind n delta n1 n2 = Inr () \<longleftrightarrow>
      allocated d (owner_sequence kind) n \<and> (pd_op delta = Add \<longrightarrow> owner_in ?g kind n)" for kind n delta
    using relationship_view [OF base(1), of n] unfolding base(2)
    by (cases kind) (auto simp: validate_layer_property_def al after owner_in_def owner_sequence_def om_has_def apply_layer_get relationship_change_def
        split: option.splits)
  have props: "snd (validate_layer_properties d s l n1 n2) = Inr () \<longleftrightarrow>
      om_all (\<lambda>(kind, n, k) _. allocated d (owner_sequence kind) n \<and> om_has (tb_prop_keys d) k) (lb_properties l)
      \<and> om_all (\<lambda>(kind, n, _) delta. pd_op delta = Add \<longrightarrow> owner_in ?g kind n) (lb_properties l)"
    by (auto simp: validate_layer_properties_def validate_dictionary_ids_Inr ball_simps prop1 case_prod_unfold om_all_iff)
  have removed: "snd (validate_removed_nodes P d s l) = Inr () \<longleftrightarrow> om_all (\<lambda>n p. p = Remove \<longrightarrow> \<not> node_used ?g n) (lb_nodes l)"
    if "tuples_stable l g"
    by (auto simp: validate_removed_nodes_def ball_simps dependents_after_view [OF snap(1,2) that wf] case_prod_unfold om_all_iff)
  have stable: "tuples_stable l g" if "layer_allowed d l"
  proof -
    have "rd_record delta = r" if *: "om_get (lb_relationships l) i = Some delta" "om_get (g_relationships g) i = Some r" for i delta r
    proof -
      have "rel_id (rd_record delta) = i" using wf * by (auto simp: wf_layer_iff om_all_iff)
      moreover have "stored_tuple d i r" using snap(3) * by (auto simp: om_all_iff)
      ultimately show ?thesis using \<open>layer_allowed d l\<close> * by (auto simp: layer_allowed_def om_all_iff Let_def) blast
    qed
    then show ?thesis by (auto simp: tuples_stable_def om_all_iff split: option.splits)
  qed
  have "snd (validate_layer_invariants_checked P d s l) = Inr () \<longleftrightarrow>
      snd (validate_layer_nodes l n1) = Inr () \<and> snd (validate_layer_labels d s l n1) = Inr ()
      \<and> snd (validate_layer_relationships P d s l n1 n2 (max_persisted_relationship d)) = Inr ()
      \<and> snd (validate_layer_properties d s l n1 n2) = Inr () \<and> snd (validate_removed_nodes P d s l) = Inr ()"
    by (simp add: validate_layer_invariants_checked_def sequence_next_id_def seq)
  then show ?thesis
    using stable removed unfolding nodes labels rels props layer_allowed_def layer_respects_def by blast
qed

lemma wf_graphD:
  assumes "wf_graph g"
  shows "om_get (g_labels g) (n, k) = Some u \<Longrightarrow> om_has (g_nodes g) n"
    and "om_get (g_relationships g) i = Some r \<Longrightarrow> rel_id r = i \<and> om_has (g_nodes g) (source r) \<and> om_has (g_nodes g) (target r)"
    and "om_get (g_properties g) (kind, n, k) = Some v \<Longrightarrow> owner_in g kind n"
  using assms by (auto simp: wf_graph_def om_all_iff) blast+

text \<open>What a well-formed graph uses is a node of it.\<close>

lemma node_used_in: "wf_graph g \<Longrightarrow> node_used g n \<Longrightarrow> om_has (g_nodes g) n"
  using wf_graphD [of g] by (fastforce simp: node_used_def om_has_def owner_in_def)

lemma respects_imp_wf:
  assumes "wf_graph g" "wf_layer l" and resp: "layer_respects (apply_layer l g) l"
  shows "wf_graph (apply_layer l g)"
proof -
  let ?g = "apply_layer l g"
  have ids: "rel_id (rd_record delta) = i" if "om_get (lb_relationships l) i = Some delta" for i delta
    using assms(2) that by (auto simp: wf_layer_iff om_all_iff)
  have wfd: "pd_op delta = Add \<longleftrightarrow> pd_value delta \<noteq> None" if "om_get (lb_properties l) k = Some delta" for k delta
    using assms(2) that unfolding wf_layer_iff om_all_iff by (cases k) (auto simp: wf_delta_def)
  have used: "om_has (g_nodes ?g) n" if "om_has (g_nodes g) n" "node_used ?g n" for n
  proof (cases "om_get (lb_nodes l) n")
    case (Some p)
    with resp that(2) have "p \<noteq> Remove" by (auto simp: layer_respects_def om_all_iff)
    then have "p = Add" by (cases p) auto
    with Some show ?thesis by (simp add: om_has_def apply_layer_get)
  qed (use that in \<open>simp add: om_has_def apply_layer_get\<close>)
  show ?thesis
    unfolding wf_graph_def om_all_iff
  proof (intro conjI allI impI)
    show "(case k of (n, _) \<Rightarrow> \<lambda>_. om_has (g_nodes ?g) n) v" if get: "om_get (g_labels ?g) k = Some v" for k v
    proof -
      obtain n l' where k: "k = (n, l')" by fastforce
      have "om_has (g_nodes ?g) n"
      proof (cases "om_get (lb_labels l) k")
        case None
        then have "om_has (g_nodes g) n" using get wf_graphD(1) [OF assms(1)] by (simp add: apply_layer_get k)
        moreover have "node_used ?g n" using get by (auto simp: node_used_def om_has_def k)
        ultimately show ?thesis by (rule used)
      next
        case (Some p)
        then have "p = Add" using get by (simp add: apply_layer_get)
        with Some resp show ?thesis by (auto simp: layer_respects_def om_all_iff k)
      qed
      then show ?thesis by (simp add: k)
    qed
    fix i r assume get: "om_get (g_relationships ?g) i = Some r"
    have "rel_id r = i \<and> om_has (g_nodes ?g) (source r) \<and> om_has (g_nodes ?g) (target r)"
    proof (cases "om_get (lb_relationships l) i")
      case None
      then have "rel_id r = i \<and> om_has (g_nodes g) (source r) \<and> om_has (g_nodes g) (target r)"
        using get wf_graphD(2) [OF assms(1)] by (simp add: apply_layer_get)
      moreover have "node_used ?g (source r)" "node_used ?g (target r)" using get by (auto simp: node_used_def)
      ultimately show ?thesis using used by blast
    next
      case (Some delta)
      then have "rd_op delta = Add" "rd_record delta = r" using get by (auto simp: apply_layer_get relationship_change_def split: if_splits)
      with Some resp ids [OF Some] show ?thesis by (auto simp: layer_respects_def om_all_iff)
    qed
    then show "rel_id r = i" "om_has (g_nodes ?g) (source r)" "om_has (g_nodes ?g) (target r)" by auto
  next
    fix k v assume get: "om_get (g_properties ?g) k = Some v"
    obtain kind n key where k: "k = (kind, n, key)" by (metis prod.exhaust)
    have "owner_in ?g kind n"
    proof (cases "om_get (lb_properties l) k")
      case None
      then have o: "owner_in g kind n" using get wf_graphD(3) [OF assms(1)] by (simp add: apply_layer_get k)
      show ?thesis
      proof (cases kind)
        case Node
        moreover have "node_used ?g n" using get by (auto simp: node_used_def om_has_def k Node)
        ultimately show ?thesis using o used by (simp add: owner_in_def)
      next
        case Relationship
        show ?thesis
        proof (cases "om_get (lb_relationships l) n")
          case (Some delta)
          have "rd_op delta = Add"
          proof (rule ccontr)
            assume "rd_op delta \<noteq> Add"
            moreover have "om_all (\<lambda>_ delta. if rd_op delta = Add then om_has (g_nodes ?g) (source (rd_record delta)) \<and> om_has (g_nodes ?g) (target (rd_record delta))
                else \<not> (\<exists>k. om_has (g_properties ?g) (Relationship, rel_id (rd_record delta), k))) (lb_relationships l)"
              using resp by (simp add: layer_respects_def)
            ultimately have "\<not> om_has (g_properties ?g) (Relationship, n, key)" using om_allD [OF _ Some] ids [OF Some] by fastforce
            with get show False by (simp add: k Relationship om_has_def)
          qed
          with Some show ?thesis by (simp add: owner_in_def Relationship om_has_def apply_layer_get relationship_change_def)
        qed (use o in \<open>simp add: owner_in_def Relationship om_has_def apply_layer_get\<close>)
      qed
    next
      case (Some delta)
      then have "pd_op delta = Add" using get wfd [OF Some] by (simp add: apply_layer_get)
      with Some resp show ?thesis by (auto simp: layer_respects_def om_all_iff k)
    qed
    then show "(case k of (kind, i, _) \<Rightarrow> \<lambda>_. owner_in ?g kind i) v" by (simp add: k)
  qed
qed

lemma wf_imp_respects:
  assumes wf: "wf_graph (apply_layer l g)" and "wf_layer l"
  shows "layer_respects (apply_layer l g) l"
proof -
  let ?g = "apply_layer l g"
  have ids: "rel_id (rd_record delta) = i" if "om_get (lb_relationships l) i = Some delta" for i delta
    using assms(2) that by (auto simp: wf_layer_iff om_all_iff)
  have wfd: "pd_op delta = Add \<longleftrightarrow> pd_value delta \<noteq> None" if "om_get (lb_properties l) k = Some delta" for k delta
    using assms(2) that unfolding wf_layer_iff om_all_iff by (cases k) (auto simp: wf_delta_def)
  show ?thesis
    unfolding layer_respects_def om_all_iff
  proof (intro conjI allI impI)
    show "\<not> node_used ?g n" if "om_get (lb_nodes l) n = Some p" "p = Remove" for n p
      using that node_used_in [OF wf, of n] by (auto simp: om_has_def apply_layer_get op_change_def)
    show "(case k of (n, _) \<Rightarrow> \<lambda>p. p = Add \<longrightarrow> om_has (g_nodes ?g) n) p" if "om_get (lb_labels l) k = Some p" for k p
      using that wf_graphD(1) [OF wf, of "fst k" "snd k" "()"] by (cases k) (auto simp: apply_layer_get)
    show "if rd_op delta = Add then om_has (g_nodes ?g) (source (rd_record delta)) \<and> om_has (g_nodes ?g) (target (rd_record delta))
        else \<not> (\<exists>k. om_has (g_properties ?g) (Relationship, rel_id (rd_record delta), k))" if "om_get (lb_relationships l) i = Some delta" for i delta
    proof (cases "rd_op delta = Add")
      case True
      then show ?thesis using that wf_graphD(2) [OF wf, of i "rd_record delta"] by (simp add: apply_layer_get relationship_change_def)
    next
      case False
      then have "\<not> owner_in ?g Relationship i" using that by (simp add: owner_in_def om_has_def apply_layer_get relationship_change_def)
      with False wf_graphD(3) [OF wf, of Relationship i] ids [OF that] show ?thesis by (fastforce simp: om_has_def)
    qed
    show "(case k of (kind, n, _) \<Rightarrow> \<lambda>delta. pd_op delta = Add \<longrightarrow> owner_in ?g kind n) delta" if "om_get (lb_properties l) k = Some delta" for k delta
      using that wf_graphD(3) [OF wf, of "fst k" "fst (snd k)" "snd (snd k)" "the (pd_value delta)"] wfd [OF that]
      by (cases k) (auto simp: apply_layer_get)
  qed
qed

lemma validate_layer_exact_at:
  assumes "snapshot_of P d s b g" "tuple_stable b s" "om_all (stored_tuple d) (g_relationships g)"
    and "wf_layer l" "om_has (tb_sequences d) 1" "om_has (tb_sequences d) 2" "wf_graph g"
  shows "snd (validate_layer_invariants_checked P d s l) = Inr () \<longleftrightarrow> layer_allowed d l \<and> wf_graph (apply_layer l g)"
  using validate_layer_iff [OF assms(1-4)] assms(5-7) respects_imp_wf [OF assms(7,4)] wf_imp_respects [OF _ assms(4)] by (auto simp: om_has_def)

section \<open>The whole snapshot\<close>

lemma fold_res_unit: "fold_res (\<lambda>x _. f x) xs () = Inr u \<longleftrightarrow> (\<forall>x \<in> set xs. f x = Inr ())"
  by (induction xs) auto

lemma visible_wf:
  assumes "snapshot_of P d s b g"
  shows "snd (validate_visible_relationships d s) = Inr () \<and> snd (validate_visible_labels d s) = Inr ()
      \<and> snd (validate_visible_properties P d s) = Inr () \<longleftrightarrow> wf_graph g"
proof -
  have base: "base_graph P d s b" "view b s = g" using assms by (auto simp: snapshot_of_def)
  note ex = node_exists_view [OF base(1), unfolded base(2)] relationship_view [OF base(1), unfolded base(2)]
  have ids: "om_all (\<lambda>i r. rel_id r = i) (g_relationships g)" using snapshot_of_graph_ok [OF assms] by (auto simp: graph_ok_def om_all_iff)
  have "snd (validate_visible_relationships d s) = Inr () \<longleftrightarrow>
      om_all (\<lambda>_ r. om_has (g_nodes g) (source r) \<and> om_has (g_nodes g) (target r)) (g_relationships g)"
    unfolding validate_visible_relationships_def visit_relationships_view [OF base(1)] base(2)
    by (simp add: fold_res_unit ball_simps require_visible_relationship_endpoints_def ex) (auto simp: om_all_iff)
  moreover have "snd (validate_visible_labels d s) = Inr () \<longleftrightarrow> om_all (\<lambda>(n, _) _. om_has (g_nodes g) n) (g_labels g)"
    unfolding validate_visible_labels_def visit_labels_view [OF base(1)] base(2)
    unfolding fold_res_unit ball_simps by (rule om_all_cong) (auto simp: ex)
  moreover have "snd (validate_visible_properties P d s) = Inr () \<longleftrightarrow> om_all (\<lambda>(kind, i, _) _. owner_in g kind i) (g_properties g)"
    unfolding validate_visible_properties_def visit_properties_view [OF assms]
    unfolding fold_res_unit ball_simps case_prod_unfold
    by (rule om_all_cong) (auto simp: ex owner_visible_def owner_in_def om_has_def split: OwnerKind.split)
  ultimately show ?thesis using ids by (auto simp: wf_graph_def om_all_iff)
qed

lemma validate_overlay_iff:
  assumes "snapshot_of P d s b g" "tuple_stable b s"
  shows "snd (validate_overlay_invariants_checked P d s) = Inr () \<longleftrightarrow>
    layer_allowed d (overlay_layer (ss_overlay s)) \<and> layer_respects g (overlay_layer (ss_overlay s))"
proof -
  let ?ov = "overlay_layer (ss_overlay s)"
  have base: "base_graph P d s b" "view b s = g" using assms(1) by (auto simp: snapshot_of_def)
  note ex = node_exists_view [OF base(1), unfolded base(2)] relationship_view [OF base(1), unfolded base(2)]
  have default: "tuples_stable layer_default g" "wf_layer layer_default"
    by (simp_all add: tuples_stable_def layer_default_def wf_layer_iff)
  note dep = dependents_after_view [OF assms default] properties_after_view [OF assms(1) default(2)]
  have nodes: "snd (validate_node_deltas P d s) = Inr () \<longleftrightarrow>
      om_all (\<lambda>n _. allocated d 1 n) (lb_nodes ?ov) \<and> om_all (\<lambda>n p. p = Remove \<longrightarrow> \<not> node_used g n) (lb_nodes ?ov)"
    unfolding validate_node_deltas_def om_all_conj [symmetric] snd_chk_all all_res_Inr_iff ball_simps overlay_layer_def LayerBuilder.simps
    by (rule om_all_cong) (auto simp: dep split: DeltaOp.splits)
  have labels: "snd (validate_label_deltas d s) = Inr () \<longleftrightarrow>
      om_all (\<lambda>(n, k) _. allocated d 1 n \<and> om_has (tb_labels d) k) (lb_labels ?ov)
      \<and> om_all (\<lambda>(n, _) p. p = Add \<longrightarrow> om_has (g_nodes g) n) (lb_labels ?ov)"
    unfolding validate_label_deltas_def om_all_conj [symmetric] snd_chk_all all_res_Inr_iff ball_simps overlay_layer_def LayerBuilder.simps
    by (rule om_all_cong) (auto simp: ex split: if_splits)
  have rels: "snd (validate_relationship_deltas P d s) = Inr () \<longleftrightarrow>
      om_all (\<lambda>_ delta. let r = rd_record delta in allocated d 2 (rel_id r) \<and> allocated d 1 (source r) \<and> allocated d 1 (target r)
        \<and> om_has (tb_rel_types d) (type_id r) \<and> (\<forall>r'. stored_tuple d (rel_id r) r' \<longrightarrow> r' = r)) (lb_relationships ?ov)
      \<and> om_all (\<lambda>_ delta. if rd_op delta = Add then om_has (g_nodes g) (source (rd_record delta)) \<and> om_has (g_nodes g) (target (rd_record delta))
        else \<not> (\<exists>k. om_has (g_properties g) (Relationship, rel_id (rd_record delta), k))) (lb_relationships ?ov)"
    unfolding validate_relationship_deltas_def om_all_conj [symmetric] snd_chk_all all_res_Inr_iff ball_simps overlay_layer_def LayerBuilder.simps
    proof (rule om_all_cong)
    fix delta
    show "snd (chk_then check (\<lambda>_. let r = rd_record delta in
       chk_then (chk_res (require_allocated d 2 (rel_id r))) (\<lambda>_.
       chk_then (chk_res (require_allocated d 1 (source r))) (\<lambda>_.
       chk_then (chk_res (require_allocated d 1 (target r))) (\<lambda>_.
       chk_then (chk_res (require_dictionary_id d RelationshipTypeEntry (type_id r))) (\<lambda>_.
       chk_then (chk_res (require_relationship_tuple_stable d r)) (\<lambda>_.
       chk_then (if rd_op delta = Add then chk_res (require_visible_relationship_endpoints d s r) else chk_ok ()) (\<lambda>_.
         if rd_op delta = Remove
         then chk_then (owner_has_visible_property_after P d s layer_default Relationship (rel_id r)) (\<lambda>b.
                if b then chk_err (Corrupt ''relationship is removed while visible properties still reference it'') else chk_ok ())
         else chk_ok ())))))))) = Inr () \<longleftrightarrow>
      (let r = rd_record delta in allocated d 2 (rel_id r) \<and> allocated d 1 (source r) \<and> allocated d 1 (target r)
        \<and> om_has (tb_rel_types d) (type_id r) \<and> (\<forall>r'. stored_tuple d (rel_id r) r' \<longrightarrow> r' = r)) \<and>
      (if rd_op delta = Add then om_has (g_nodes g) (source (rd_record delta)) \<and> om_has (g_nodes g) (target (rd_record delta))
        else \<not> (\<exists>k. om_has (g_properties g) (Relationship, rel_id (rd_record delta), k)))"
      by (cases "rd_op delta") (auto simp: Let_def ex dep require_visible_relationship_endpoints_def)
  qed
  have props: "snd (validate_property_deltas d s) = Inr () \<longleftrightarrow>
      om_all (\<lambda>(kind, n, k) _. allocated d (owner_sequence kind) n \<and> om_has (tb_prop_keys d) k) (lb_properties ?ov)
      \<and> om_all (\<lambda>(kind, n, _) delta. pd_op delta = Add \<longrightarrow> owner_in g kind n) (lb_properties ?ov)"
    unfolding validate_property_deltas_def om_all_conj [symmetric] snd_chk_all all_res_Inr_iff ball_simps overlay_layer_def LayerBuilder.simps
    by (rule om_all_cong) (auto simp: ex owner_visible_def owner_in_def owner_sequence_def om_has_def split: OwnerKind.splits if_splits)
  show ?thesis
    unfolding validate_overlay_invariants_checked_def snd_chk and_then_Inr_iff
    using nodes labels rels props by (auto simp: layer_allowed_def layer_respects_def)
qed

lemma validate_graph_iff:
  assumes "snapshot_of P d s b g" "tuple_stable b s"
  shows "validate_graph_invariants P d s = Inr () \<longleftrightarrow> layer_allowed d (overlay_layer (ss_overlay s)) \<and> wf_graph g"
proof -
  have g: "g = apply_layer (overlay_layer (ss_overlay s)) b" and wf: "wf_layer (overlay_layer (ss_overlay s))"
    using assms(1) by (auto simp: snapshot_of_def view_layer)
  have "validate_graph_invariants P d s = Inr () \<longleftrightarrow> snd (validate_overlay_invariants_checked P d s) = Inr ()
      \<and> snd (validate_visible_relationships d s) = Inr () \<and> snd (validate_visible_labels d s) = Inr () \<and> snd (validate_visible_properties P d s) = Inr ()"
    by (simp add: validate_graph_invariants_def validate_graph_invariants_checked_def)
  also have "\<dots> \<longleftrightarrow> layer_allowed d (overlay_layer (ss_overlay s)) \<and> layer_respects g (overlay_layer (ss_overlay s)) \<and> wf_graph g"
    unfolding validate_overlay_iff [OF assms] visible_wf [OF assms(1)] by blast
  also have "\<dots> \<longleftrightarrow> layer_allowed d (overlay_layer (ss_overlay s)) \<and> wf_graph g"
    using wf_imp_respects [of _ b, OF _ wf] unfolding g by blast
  finally show ?thesis .
qed

section \<open>Theorems\<close>

text \<open>C6. The check of a candidate layer is exact. On a parent with a well-formed graph, a layer is accepted if
  and only if its identifiers are allocated, its dictionary entries exist, it repeats the ends and type of known
  relationships, and the graph after the layer is well formed: no label or property without its element, no
  relationship without its ends.\<close>

theorem layer_validation_exact:
  assumes "snd (resolve_state_with_checkpoint_skip P d c skip) = Inr s"
    and "commit_graph P d c g" and "checkpoints_ok P d" and "delta_rows_ok d" and "tuples_unique d"
    and "wf_graph g" and "wf_layer l" and "om_has (tb_sequences d) 1" and "om_has (tb_sequences d) 2"
  shows "snd (validate_layer_invariants_checked P d s l) = Inr () \<longleftrightarrow> layer_allowed d l \<and> wf_graph (apply_layer l g)"
proof -
  obtain b where "snapshot_of P d s b g" "tuple_stable b s" using resolved_stable [OF assms(1-5)] by blast
  then show ?thesis using validate_layer_exact_at commit_graph_tuples [OF assms(2)] assms(6-9) by blast
qed

definition remove_nine :: LayerBuilder where
  "remove_nine = layer_default\<lparr>lb_nodes := om_of [(9, Remove)]\<rparr>"

definition remove_edge :: LayerBuilder where
  "remove_edge = remove_nine\<lparr>lb_relationships := om_of [(5, \<lparr>rd_op = Remove, rd_record = edge\<rparr>)]\<rparr>"

lemma removal_facts:
  "wf_graph edge_graph" "\<not> wf_graph (apply_layer remove_nine edge_graph)" "wf_graph (apply_layer remove_edge edge_graph)"
  "om_has (tb_sequences example_edge) 1" "om_has (tb_sequences example_edge) 2"
  by code_simp+

lemma removal_layers: "wf_layer remove_nine" "wf_layer remove_edge" "layer_allowed example_edge remove_edge"
  by (auto simp: remove_edge_def remove_nine_def layer_default_def wf_layer_iff om_of_def om_put_all_def id_ok_def in_i64_def
      wf_relationship_def edge_def layer_allowed_def allocated_def example_edge_def stored_tuple_def relationship_from_row_def Let_def
      intro!: om_all_put split: if_splits)

theorem layer_validation_exact_witness:
  "\<exists>s. snd (resolve_state_with_checkpoint_skip platform64 example_edge (commit_id 1) None) = Inr s
     \<and> snd (validate_layer_invariants_checked platform64 example_edge s remove_nine) \<noteq> Inr ()
     \<and> snd (validate_layer_invariants_checked platform64 example_edge s remove_edge) = Inr ()"
proof -
  obtain s where s: "snd (resolve_state_with_checkpoint_skip platform64 example_edge (commit_id 1) None) = Inr s"
    using resolve_total [OF example_edge_facts(1,5,2,6)] by blast
  note exact = layer_validation_exact [OF s example_edge_facts(1-4) removal_facts(1) _ removal_facts(4,5)]
  show ?thesis using s exact [OF removal_layers(1)] exact [OF removal_layers(2)] removal_facts(2,3) removal_layers(3) by blast
qed

text \<open>C25. The full validation of a snapshot is exact as well: it succeeds if and only if what the overlay holds is
  allocated and stable and the visible graph is well formed, whatever the parent history was.\<close>

theorem graph_validation_exact:
  assumes "snd (resolve_state_with_checkpoint_skip P d c skip) = Inr s"
    and "commit_graph P d c g" and "checkpoints_ok P d" and "delta_rows_ok d" and "tuples_unique d"
  shows "validate_graph_invariants P d s = Inr () \<longleftrightarrow> layer_allowed d (overlay_layer (ss_overlay s)) \<and> wf_graph g"
proof -
  obtain b where "snapshot_of P d s b g" "tuple_stable b s" using resolved_stable [OF assms] by blast
  then show ?thesis by (rule validate_graph_iff)
qed

theorem graph_validation_exact_witness:
  "\<exists>s. snd (resolve_state_with_checkpoint_skip platform64 example_edge (commit_id 1) None) = Inr s
     \<and> (validate_graph_invariants platform64 example_edge s = Inr () \<longleftrightarrow>
        layer_allowed example_edge (overlay_layer (ss_overlay s)) \<and> wf_graph edge_graph)"
proof -
  obtain s where s: "snd (resolve_state_with_checkpoint_skip platform64 example_edge (commit_id 1) None) = Inr s"
    using resolve_total [OF example_edge_facts(1,5,2,6)] by blast
  with graph_validation_exact [OF s example_edge_facts(1-4)] show ?thesis by blast
qed

end
