(* ===== verification/Commit.thy ===== *)
theory Commit
  imports Snapshot_Theorems Scan_Theorems Validate_Laws
begin

text \<open>
  Commits and branches (\<^verbatim>\<open>storage/commit.rs\<close>, the functions of \<^verbatim>\<open>storage/schema.rs\<close>): the root
  commit, schema objects, and the write path of a commit, which runs inside a savepoint: check the head of the
  branch, validate the layer against it, persist the layer, insert the commit row and move the branch. A commit
  is run without an allocation observer.
\<close>

section \<open>Branches and existence checks\<close>

definition branch_head :: "database \<Rightarrow> ustr \<Rightarrow> hash_id res" where
  "branch_head d branch = and_then (ok_or (om_get (tb_branches d) branch) (NotFound ''branch '')) hash_from_slice"

definition commit_exists :: "database \<Rightarrow> hash_id \<Rightarrow> bool" where
  "commit_exists d commit = om_has (tb_commits d) commit"

definition require_commit :: "database \<Rightarrow> hash_id \<Rightarrow> unit res" where
  "require_commit d commit = (if om_has (tb_commits d) commit then Inr () else Inl (NotFound ''Commit ''))"

definition require_schema :: "database \<Rightarrow> hash_id \<Rightarrow> unit res" where
  "require_schema d h = (if om_has (tb_schema_objects d) h then Inr () else Inl (NotFound ''Schema ''))"

definition create_branch :: "ustr \<Rightarrow> hash_id \<Rightarrow> unit st" where
  "create_branch name start =
     (if name = [] then st_err (Corrupt ''branch name must not be empty'')
      else st_then (st_query (\<lambda>d. require_commit d start)) (\<lambda>_.
           st_exec (\<lambda>d. and_then (insert_row (length start = 32) name start (tb_branches d)) (\<lambda>t.
             Inr (d\<lparr>tb_branches := t\<rparr>)))))"

section \<open>Schema objects and the root commit\<close>

definition schema_hash_for_commit :: "database \<Rightarrow> hash_id \<Rightarrow> hash_id res" where
  "schema_hash_for_commit d commit =
     and_then (ok_or (om_get (tb_commits d) commit) (NotFound ''Commit '')) (\<lambda>row. hash_from_slice (cr_schema_hash row))"

definition load_schema_blob :: "database \<Rightarrow> hash_id \<Rightarrow> bytes res" where
  "load_schema_blob d h = ok_or (om_get (tb_schema_objects d) h) (NotFound ''Schema '')"

definition persist_schema_blob :: "platform \<Rightarrow> bytes \<Rightarrow> hash_id st" where
  "persist_schema_blob P blob =
     (let h = blake3 P blob in
      st_then (st_exec (\<lambda>d. Inr (d\<lparr>tb_schema_objects := insert_or_ignore (length h = 32) h blob (tb_schema_objects d)\<rparr>))) (\<lambda>_.
      st_query (\<lambda>d. and_then (ok_or (om_get (tb_schema_objects d) h) (Sqlite QueryReturnedNoRows)) (\<lambda>persisted.
        if persisted \<noteq> blob then Inl (Corrupt ''Schema does not match its content-addressed bytes'') else Inr h))))"

definition commit_hash ::
    "platform \<Rightarrow> i64 \<Rightarrow> hash_id option \<Rightarrow> hash_id option \<Rightarrow> hash_id \<Rightarrow> hash_id \<Rightarrow> CommitMetadata \<Rightarrow> hash_id" where
  "commit_hash P format_version parent1 parent2 layer_hash schema_hash metadata =
     blake3 P (lce1_record (ascii ''COMMIT'')
       [i64_bytes format_version, optional_bytes parent1, optional_bytes parent2, layer_hash, schema_hash,
        optional_string (author metadata), optional_string (message metadata), i64_bytes (committed_at metadata)])"

definition root_commit :: "database \<Rightarrow> hash_id res" where
  "root_commit d =
     (case filter (\<lambda>(_, row). cr_parent1 row = None \<and> cr_parent2 row = None) (om_entries (tb_commits d)) of
        [] \<Rightarrow> Inl (Corrupt ''storage has no Root Commit'')
      | (i, _) # others \<Rightarrow> and_then (hash_from_slice i) (\<lambda>root.
          if others \<noteq> [] then Inl (Corrupt ''storage has multiple Root Commits'') else Inr root))"

record RootInfo =
  ri_root :: hash_id
  ri_branch :: ustr

definition main_branch :: ustr where
  "main_branch = ascii ''main''"

definition existing_root_info :: "database \<Rightarrow> RootInfo res" where
  "existing_root_info d =
     and_then (root_commit d) (\<lambda>root.
       if om_get (tb_branches d) main_branch = None then Inl (Corrupt ''initialized storage is missing main branch'')
       else Inr \<lparr>ri_root = root, ri_branch = main_branch\<rparr>)"

text \<open>The \<^verbatim>\<open>CHECK\<close> constraints of a row of \<^verbatim>\<open>_lithograph_commits\<close>.\<close>

definition commit_row_checks :: "hash_id \<Rightarrow> CommitRow \<Rightarrow> bool" where
  "commit_row_checks i row \<longleftrightarrow> length i = 32 \<and> (case cr_parent1 row of None \<Rightarrow> True | Some p \<Rightarrow> length p = 32)
     \<and> (case cr_parent2 row of None \<Rightarrow> True | Some p \<Rightarrow> length p = 32) \<and> cr_layer_id row > 0 \<and> length (cr_schema_hash row) = 32"

definition initialize_root :: "platform \<Rightarrow> RootInfo st" where
  "initialize_root P =
     st_then (st_query (\<lambda>d. Inr (om_size (tb_commits d)))) (\<lambda>count.
       if count > 0 then st_query existing_root_info
       else
         let schema_blob = lce1_record (ascii ''SCHEMA'') [];
             schema_hash = blake3 P schema_blob;
             metadata = metadata_root
         in st_then (st_exec (\<lambda>d. and_then (insert_row (length schema_hash = 32) schema_hash schema_blob (tb_schema_objects d)) (\<lambda>t.
              Inr (d\<lparr>tb_schema_objects := t\<rparr>)))) (\<lambda>_.
            st_then (persist_layer_checked P layer_default) (\<lambda>(layer_id, layer_hash).
            let commit = commit_hash P STORAGE_FORMAT None None layer_hash schema_hash metadata;
                row = \<lparr>cr_format_version = STORAGE_FORMAT, cr_parent1 = None, cr_parent2 = None, cr_layer_id = layer_id,
                       cr_schema_hash = schema_hash, cr_author = None, cr_message = None, cr_committed_at = 0\<rparr>
            in st_then (st_exec (\<lambda>d. and_then (insert_row (commit_row_checks commit row) commit row (tb_commits d)) (\<lambda>t.
                 Inr (d\<lparr>tb_commits := t\<rparr>)))) (\<lambda>_.
               st_then (st_exec (\<lambda>d. and_then (insert_row (length commit = 32) main_branch commit (tb_branches d)) (\<lambda>t.
                 Inr (d\<lparr>tb_branches := t\<rparr>)))) (\<lambda>_.
                 st_ret \<lparr>ri_root = commit, ri_branch = main_branch\<rparr>)))))"

section \<open>The commit row\<close>

record NewCommit =
  nc_id :: hash_id
  nc_parent1 :: hash_id
  nc_parent2 :: "hash_id option"
  nc_layer_id :: i64
  nc_schema_hash :: hash_id
  nc_metadata :: CommitMetadata

record PersistedCommitRow =
  pcr_format_version :: i64
  pcr_parent1 :: bytes
  pcr_parent2 :: "bytes option"
  pcr_layer_id :: i64
  pcr_schema_hash :: bytes
  pcr_author :: "ustr option"
  pcr_message :: "ustr option"
  pcr_committed_at :: i64

text \<open>A \<^verbatim>\<open>NULL\<close> first parent is not a \<^verbatim>\<open>Vec<u8>\<close>.\<close>

definition read_persisted_commit_row :: "database \<Rightarrow> hash_id \<Rightarrow> PersistedCommitRow res" where
  "read_persisted_commit_row d i =
     and_then (ok_or (om_get (tb_commits d) i) (Sqlite QueryReturnedNoRows)) (\<lambda>row.
     and_then (ok_or (cr_parent1 row) (Sqlite InvalidColumnType)) (\<lambda>parent1.
       Inr \<lparr>pcr_format_version = cr_format_version row, pcr_parent1 = parent1, pcr_parent2 = cr_parent2 row,
            pcr_layer_id = cr_layer_id row, pcr_schema_hash = cr_schema_hash row, pcr_author = cr_author row,
            pcr_message = cr_message row, pcr_committed_at = cr_committed_at row\<rparr>))"

definition persisted_commit_row :: "NewCommit \<Rightarrow> PersistedCommitRow" where
  "persisted_commit_row row =
     \<lparr>pcr_format_version = STORAGE_FORMAT, pcr_parent1 = nc_parent1 row, pcr_parent2 = nc_parent2 row,
      pcr_layer_id = nc_layer_id row, pcr_schema_hash = nc_schema_hash row, pcr_author = author (nc_metadata row),
      pcr_message = message (nc_metadata row), pcr_committed_at = committed_at (nc_metadata row)\<rparr>"

definition verify_commit_row :: "NewCommit \<Rightarrow> database \<Rightarrow> unit res" where
  "verify_commit_row expected d =
     and_then (read_persisted_commit_row d (nc_id expected)) (\<lambda>actual.
       if actual = persisted_commit_row expected then Inr ()
       else Inl (Corrupt ''Commit does not match its content-addressed fields''))"

definition commit_row :: "NewCommit \<Rightarrow> CommitRow" where
  "commit_row row =
     \<lparr>cr_format_version = STORAGE_FORMAT, cr_parent1 = Some (nc_parent1 row), cr_parent2 = nc_parent2 row,
      cr_layer_id = nc_layer_id row, cr_schema_hash = nc_schema_hash row, cr_author = author (nc_metadata row),
      cr_message = message (nc_metadata row), cr_committed_at = committed_at (nc_metadata row)\<rparr>"

definition insert_commit :: "NewCommit \<Rightarrow> unit st" where
  "insert_commit row =
     st_then (st_exec (\<lambda>d. Inr (d\<lparr>tb_commits :=
         insert_or_ignore (commit_row_checks (nc_id row) (commit_row row)) (nc_id row) (commit_row row) (tb_commits d)\<rparr>))) (\<lambda>_.
       st_query (verify_commit_row row))"

definition compare_and_move_branch :: "ustr \<Rightarrow> hash_id \<Rightarrow> hash_id \<Rightarrow> unit st" where
  "compare_and_move_branch branch expected_head commit =
     st_exec (\<lambda>d.
       if om_get (tb_branches d) branch = Some expected_head
       then if length commit = 32 then Inr (d\<lparr>tb_branches := om_put branch commit (tb_branches d)\<rparr>)
            else Inl (Sqlite ConstraintViolation)
       else Inl BranchHeadMoved)"

section \<open>The write path\<close>

definition validate_candidate_layer :: "platform \<Rightarrow> hash_id \<Rightarrow> LayerBuilder \<Rightarrow> unit st" where
  "validate_candidate_layer P expected_head layer =
     (if \<not> layer_is_empty layer
      then st_then (st_chk (\<lambda>d. resolve_state_with_checkpoint_skip P d expected_head None)) (\<lambda>s.
           st_chk (\<lambda>d. validate_layer_invariants_checked P d s layer))
      else st_ret ())"

definition commit_change_inner ::
    "platform \<Rightarrow> ustr \<Rightarrow> hash_id \<Rightarrow> hash_id option \<Rightarrow> LayerBuilder \<times> hash_id \<Rightarrow> CommitMetadata \<Rightarrow> hash_id st" where
  "commit_change_inner P branch expected_head second_parent = (\<lambda>(layer, schema_hash) metadata.
     st_then st_check (\<lambda>_.
     st_then (st_query (\<lambda>d. branch_head d branch)) (\<lambda>head.
       if head \<noteq> expected_head then st_err BranchHeadMoved
       else
         st_then (case second_parent of None \<Rightarrow> st_ret () | Some parent \<Rightarrow> st_query (\<lambda>d. require_commit d parent)) (\<lambda>_.
         st_then (st_query (\<lambda>d. require_schema d schema_hash)) (\<lambda>_.
         st_then (validate_candidate_layer P expected_head layer) (\<lambda>_.
         st_then (persist_layer_checked P layer) (\<lambda>(layer_id, layer_hash).
         let commit = commit_hash P STORAGE_FORMAT (Some expected_head) second_parent layer_hash schema_hash metadata;
             row = \<lparr>nc_id = commit, nc_parent1 = expected_head, nc_parent2 = second_parent, nc_layer_id = layer_id,
                    nc_schema_hash = schema_hash, nc_metadata = metadata\<rparr>
         in st_then st_check (\<lambda>_.
            st_then (insert_commit row) (\<lambda>_.
            st_then st_check (\<lambda>_.
            st_then (compare_and_move_branch branch expected_head commit) (\<lambda>_.
            st_then st_check (\<lambda>_. st_ret commit))))))))))))"

definition commit_layer_checked ::
    "platform \<Rightarrow> ustr \<Rightarrow> hash_id \<Rightarrow> hash_id option \<Rightarrow> LayerBuilder \<Rightarrow> CommitMetadata \<Rightarrow> hash_id st" where
  "commit_layer_checked P branch expected_head second_parent layer metadata =
     with_savepoint (st_then st_check (\<lambda>_.
       st_then (st_query (\<lambda>d. schema_hash_for_commit d expected_head)) (\<lambda>schema_hash.
         commit_change_inner P branch expected_head second_parent (layer, schema_hash) metadata)))"

definition commit_layer_with_schema_checked ::
    "platform \<Rightarrow> ustr \<Rightarrow> hash_id \<Rightarrow> hash_id option \<Rightarrow> LayerBuilder \<times> hash_id \<Rightarrow> CommitMetadata \<Rightarrow> hash_id st" where
  "commit_layer_with_schema_checked P branch expected_head second_parent input metadata =
     with_savepoint (st_then st_check (\<lambda>_.
       st_then (st_query (\<lambda>d. require_schema d (snd input))) (\<lambda>_.
         commit_change_inner P branch expected_head second_parent input metadata)))"

text \<open>The operations without a hook.\<close>

definition unhooked :: "'a st \<Rightarrow> database \<Rightarrow> 'a res \<times> database" where
  "unhooked m d = (let (r, c) = m (on_db d) in (r, db c))"

definition commit_layer ::
    "platform \<Rightarrow> ustr \<Rightarrow> hash_id \<Rightarrow> hash_id option \<Rightarrow> LayerBuilder \<Rightarrow> CommitMetadata \<Rightarrow> database \<Rightarrow> hash_id res \<times> database" where
  "commit_layer P branch expected_head second_parent layer metadata =
     unhooked (commit_layer_checked P branch expected_head second_parent layer metadata)"

definition commit_layer_with_schema ::
    "platform \<Rightarrow> ustr \<Rightarrow> hash_id \<Rightarrow> hash_id option \<Rightarrow> LayerBuilder \<Rightarrow> hash_id \<Rightarrow> CommitMetadata \<Rightarrow> database \<Rightarrow> hash_id res \<times> database" where
  "commit_layer_with_schema P branch expected_head second_parent layer schema_hash metadata =
     unhooked (commit_layer_with_schema_checked P branch expected_head second_parent (layer, schema_hash) metadata)"

definition commit_schema :: "platform \<Rightarrow> ustr \<Rightarrow> hash_id \<Rightarrow> hash_id \<Rightarrow> CommitMetadata \<Rightarrow> database \<Rightarrow> hash_id res \<times> database" where
  "commit_schema P branch expected_head schema_hash metadata =
     commit_layer_with_schema P branch expected_head None layer_default schema_hash metadata"

end
