(* ===== verification/Commit_Laws.thy ===== *)
theory Commit_Laws
  imports Commit
begin

text \<open>
  What a commit does to the database when it succeeds, the invariant of a store (every commit has a well-formed
  graph, and layers, schema objects and commits carry the digests of their contents), and that the operations
  on commits keep it.
\<close>

section \<open>Histories that grow\<close>

text \<open>Another database keeps the commits of a database and reads their layers as before.\<close>

definition keeps_layers :: "platform \<Rightarrow> database \<Rightarrow> database \<Rightarrow> bool" where
  "keeps_layers P d d' \<longleftrightarrow> (\<forall>i h. om_get (tb_layers d) i = Some h \<longrightarrow>
     om_get (tb_layers d') i = Some h \<and> load_layer P d' i = load_layer P d i)"

definition keeps_commits :: "database \<Rightarrow> database \<Rightarrow> bool" where
  "keeps_commits d d' \<longleftrightarrow> (\<forall>c row. om_get (tb_commits d) c = Some row \<longrightarrow> om_get (tb_commits d') c = Some row)"

lemma keeps_refl [simp]: "keeps_layers P d d" "keeps_commits d d"
  by (simp_all add: keeps_layers_def keeps_commits_def)

lemma keeps_trans:
  "keeps_layers P d d' \<Longrightarrow> keeps_layers P d' d'' \<Longrightarrow> keeps_layers P d d''"
  "keeps_commits d d' \<Longrightarrow> keeps_commits d' d'' \<Longrightarrow> keeps_commits d d''"
  by (simp_all add: keeps_layers_def keeps_commits_def)

lemma load_lineage_row_kept:
  assumes "load_lineage_row d c = Inr row" "keeps_layers P d d'" "keeps_commits d d'"
  shows "\<exists>row'. load_lineage_row d' c = Inr row' \<and> lr_parent row' = lr_parent row \<and> lr_layer_id row' = lr_layer_id row
    \<and> load_layer P d' (lr_layer_id row) = load_layer P d (lr_layer_id row)"
proof -
  obtain cr h where cr: "om_get (tb_commits d) c = Some cr" "om_get (tb_layers d) (cr_layer_id cr) = Some h"
    using assms(1) by (auto simp: load_lineage_row_def split: option.splits)
  moreover have "om_get (tb_commits d') c = Some cr" "om_get (tb_layers d') (cr_layer_id cr) = Some h"
    "load_layer P d' (cr_layer_id cr) = load_layer P d (cr_layer_id cr)"
    using assms(2,3) cr by (auto simp: keeps_layers_def keeps_commits_def)
  ultimately show ?thesis
    using assms(1) by (auto simp: load_lineage_row_def split: option.splits)
qed

lemma commit_graph_kept:
  assumes "commit_graph P d c g" "keeps_layers P d d'" "keeps_commits d d'"
  shows "commit_graph P d' c g"
  using assms(1)
proof (induction rule: commit_graph.induct)
  case (root c row l)
  with load_lineage_row_kept [OF root.hyps(1) assms(2,3)] show ?case by (auto intro: commit_graph.root)
next
  case (child c row p l g)
  with load_lineage_row_kept [OF child.hyps(1) assms(2,3)] show ?case by (auto intro: commit_graph.child)
qed

section \<open>The write path, step by step\<close>

declare st_query_iff [simp del]

lemma st_query_read [simp]: "st_query q c = (r, c') \<longleftrightarrow> q (db c) = r \<and> c' = c"
  by (auto simp: st_query_def)

lemma verify_commit_row_iff [simp]:
  "verify_commit_row r d = Inr u \<longleftrightarrow> om_get (tb_commits d) (nc_id r) = Some (commit_row r)"
  by (cases "om_get (tb_commits d) (nc_id r)")
     (auto simp: verify_commit_row_def read_persisted_commit_row_def persisted_commit_row_def commit_row_def)

lemma om_put_same: "om_get t k = Some v \<Longrightarrow> om_put k v t = t"
  by (rule om_ext) (auto simp: fun_eq_iff)

lemma insert_commit_Inr:
  assumes "insert_commit r c = (Inr u, c')"
  shows "om_get (tb_commits (db c)) (nc_id r) \<in> {None, Some (commit_row r)}
    \<and> (om_get (tb_commits (db c)) (nc_id r) = None \<longrightarrow> commit_row_checks (nc_id r) (commit_row r))
    \<and> db c' = db c\<lparr>tb_commits := om_put (nc_id r) (commit_row r) (tb_commits (db c))\<rparr>"
  using assms by (auto simp: insert_commit_def insert_or_ignore_def om_has_def om_put_same split: if_splits)

lemma compare_and_move_Inr [simp]:
  "compare_and_move_branch branch e h c = (Inr u, c') \<longleftrightarrow>
     om_get (tb_branches (db c)) branch = Some e \<and> length h = 32
     \<and> c' = c\<lparr>db := db c\<lparr>tb_branches := om_put branch h (tb_branches (db c))\<rparr>\<rparr>"
  by (auto simp: compare_and_move_branch_def)

lemma branch_head_Inr: "branch_head d branch = Inr h \<longleftrightarrow> om_get (tb_branches d) branch = Some h \<and> length h = 32"
  by (auto simp: branch_head_def hash_from_slice_def split: if_splits)

lemma require_Inr [simp]:
  "require_commit d h = Inr u \<longleftrightarrow> om_has (tb_commits d) h"
  "require_schema d h = Inr u \<longleftrightarrow> om_has (tb_schema_objects d) h"
  by (auto simp: require_commit_def require_schema_def)

definition validated :: "platform \<Rightarrow> database \<Rightarrow> hash_id \<Rightarrow> LayerBuilder \<Rightarrow> bool" where
  "validated P d e l \<longleftrightarrow> layer_is_empty l \<or>
     (\<exists>s. snd (resolve_state_with_checkpoint_skip P d e None) = Inr s \<and> snd (validate_layer_invariants_checked P d s l) = Inr ())"

lemma validate_candidate_Inr:
  "validate_candidate_layer P e l c = (Inr u, c') \<Longrightarrow> db c' = db c \<and> validated P (db c) e l"
  by (auto simp: validate_candidate_layer_def validated_def dest!: st_chk_Inr split: if_splits)

definition new_commit :: "platform \<Rightarrow> hash_id \<Rightarrow> hash_id option \<Rightarrow> i64 \<Rightarrow> hash_id \<Rightarrow> hash_id \<Rightarrow> CommitMetadata \<Rightarrow> NewCommit" where
  "new_commit P e second i lh sh md =
     \<lparr>nc_id = commit_hash P STORAGE_FORMAT (Some e) second lh sh md, nc_parent1 = e, nc_parent2 = second, nc_layer_id = i,
      nc_schema_hash = sh, nc_metadata = md\<rparr>"

lemma commit_change_Inr:
  assumes "commit_change_inner P branch e second (l, sh) md c = (Inr h, c')"
  shows "\<exists>c1 c2 i lh. let r = new_commit P e second i lh sh md in
      db c1 = db c \<and> persist_layer_checked P l c1 = (Inr (i, lh), c2) \<and> h = nc_id r \<and> length h = 32
    \<and> om_get (tb_branches (db c)) branch = Some e \<and> length e = 32
    \<and> (case second of None \<Rightarrow> True | Some p \<Rightarrow> om_has (tb_commits (db c)) p) \<and> om_has (tb_schema_objects (db c)) sh
    \<and> validated P (db c) e l
    \<and> om_get (tb_commits (db c2)) h \<in> {None, Some (commit_row r)}
    \<and> (om_get (tb_commits (db c2)) h = None \<longrightarrow> commit_row_checks h (commit_row r))
    \<and> db c' = db c2\<lparr>tb_commits := om_put h (commit_row r) (tb_commits (db c2)),
                      tb_branches := om_put branch h (tb_branches (db c2))\<rparr>"
proof -
  from assms obtain c1 c2 c3 c4 i lh where
    head: "om_get (tb_branches (db c)) branch = Some e" "length e = 32"
    and second: "case second of None \<Rightarrow> True | Some p \<Rightarrow> om_has (tb_commits (db c)) p"
    and schema: "om_has (tb_schema_objects (db c)) sh" and c1: "db c1 = db c" "validated P (db c) e l"
    and persist: "persist_layer_checked P l c1 = (Inr (i, lh), c2)" and h: "h = nc_id (new_commit P e second i lh sh md)"
    and c3: "db c3 = db c2" "insert_commit (new_commit P e second i lh sh md) c3 = (Inr (), c4)"
    and c4: "length h = 32" "db c' = db c4\<lparr>tb_branches := om_put branch h (tb_branches (db c4))\<rparr>"
    unfolding commit_change_inner_def
    by (auto simp: Let_def new_commit_def split: if_splits option.splits prod.splits
        dest!: st_check_db validate_candidate_Inr branch_head_Inr [THEN iffD1])
  let ?r = "new_commit P e second i lh sh md"
  from insert_commit_Inr [OF c3(2)] c3(1) h
  have "om_get (tb_commits (db c2)) h \<in> {None, Some (commit_row ?r)}"
    "om_get (tb_commits (db c2)) h = None \<longrightarrow> commit_row_checks h (commit_row ?r)"
    "db c4 = db c2\<lparr>tb_commits := om_put h (commit_row ?r) (tb_commits (db c2))\<rparr>" by auto
  with head second schema c1 persist h c4 show ?thesis
    by (intro exI [of _ c1] exI [of _ c2] exI [of _ i] exI [of _ lh]) (simp add: Let_def)
qed

section \<open>The store\<close>

text \<open>
  The invariant of a database: the layer tables are consistent and a relationship identity means one thing in all
  layers; layers, schema objects and commits are filed under the digests of their contents; every commit has a
  well-formed graph, its schema object and its second parent; branches and checkpoints name commits, a
  checkpoint holds the graph of its commit, and there are rows of checkpoints only.
\<close>

definition checkpoint_rows_owned :: "database \<Rightarrow> bool" where
  "checkpoint_rows_owned d \<longleftrightarrow>
     om_all (\<lambda>k _. om_has (tb_checkpoints d) (fst k)) (tb_cp_nodes d)
   \<and> om_all (\<lambda>k _. om_has (tb_checkpoints d) (fst k)) (tb_cp_labels d)
   \<and> om_all (\<lambda>k _. om_has (tb_checkpoints d) (fst k)) (tb_cp_relationships d)
   \<and> om_all (\<lambda>k _. om_has (tb_checkpoints d) (fst k)) (tb_cp_properties d)"

definition layers_addressed :: "platform \<Rightarrow> database \<Rightarrow> bool" where
  "layers_addressed P d \<longleftrightarrow> om_all (\<lambda>i h. \<exists>l. load_layer P d i = Inr l \<and> content_hash P l = Inr h) (tb_layers d)"

definition commit_addressed :: "platform \<Rightarrow> database \<Rightarrow> hash_id \<Rightarrow> CommitRow \<Rightarrow> bool" where
  "commit_addressed P d c row \<longleftrightarrow> (\<exists>lh. om_get (tb_layers d) (cr_layer_id row) = Some lh
     \<and> c = commit_hash P (cr_format_version row) (cr_parent1 row) (cr_parent2 row) lh (cr_schema_hash row)
             \<lparr>author = cr_author row, message = cr_message row, committed_at = cr_committed_at row\<rparr>)"

definition commit_ok :: "platform \<Rightarrow> database \<Rightarrow> hash_id \<Rightarrow> CommitRow \<Rightarrow> bool" where
  "commit_ok P d c row \<longleftrightarrow> (\<exists>g. commit_graph P d c g \<and> wf_graph g) \<and> commit_addressed P d c row
     \<and> om_has (tb_schema_objects d) (cr_schema_hash row)
     \<and> (case cr_parent2 row of None \<Rightarrow> True | Some p \<Rightarrow> om_has (tb_commits d) p)"

definition store_ok :: "platform \<Rightarrow> database \<Rightarrow> bool" where
  "store_ok P d \<longleftrightarrow>
     layer_tables_ok d \<and> tuples_unique d \<and> layers_addressed P d \<and> checkpoints_ok P d
   \<and> om_has (tb_sequences d) 1 \<and> om_has (tb_sequences d) 2
   \<and> om_all (\<lambda>h blob. h = blake3 P blob) (tb_schema_objects d)
   \<and> om_all (commit_ok P d) (tb_commits d)
   \<and> om_all (\<lambda>_ c. om_has (tb_commits d) c) (tb_branches d)
   \<and> om_all (\<lambda>c _. om_has (tb_commits d) c) (tb_checkpoints d) \<and> checkpoint_rows_owned d"

lemma store_commit: "store_ok P d \<Longrightarrow> om_get (tb_commits d) c = Some row \<Longrightarrow> commit_ok P d c row"
  by (simp add: store_ok_def om_all_iff)

lemma store_branch: "store_ok P d \<Longrightarrow> om_get (tb_branches d) b = Some c \<Longrightarrow> \<exists>row. om_get (tb_commits d) c = Some row"
  by (auto simp: store_ok_def om_all_iff om_has_def)

lemma store_checkpoint: "store_ok P d \<Longrightarrow> om_has (tb_checkpoints d) c \<Longrightarrow> \<exists>row. om_get (tb_commits d) c = Some row"
  unfolding store_ok_def om_all_iff om_has_def by (metis not_None_eq)

lemma store_empty_layers: "store_ok P d \<Longrightarrow> empty_layers_ok P d"
  unfolding store_ok_def empty_layers_ok_def layers_addressed_def om_all_iff
  by (metis load_layer_no_delta sum.inject(2))

lemma store_delta_rows: "store_ok P d \<Longrightarrow> delta_rows_ok d"
  by (simp add: store_ok_def layer_tables_ok_def)

lemma slot_bytes_canonical: "slot_bytes (canonical_slot s) = slot_bytes s"
proof -
  have "type_tag (canonical_value v) = type_tag v" for v by (cases v) (simp_all add: type_tag_def)
  moreover have "snd (canonical_bytes_checked (canonical_value v)) = snd (canonical_bytes_checked v)" for v
    using canonical_bytes_canonical_value [of v] by (simp add: canonical_bytes_def)
  ultimately show ?thesis
    by (cases s) (auto simp: property_record_checked_def canonical_delta_def split: option.splits)
qed

lemma content_hash_canonical_layer: "content_hash P (canonical_layer l) = content_hash P l"
  by (simp add: content_hash_eq layer_slots_canonical map_res_map_fun slot_bytes_canonical)

text \<open>The tables a graph is read from, besides the layers and commits.\<close>

definition same_checkpoints :: "database \<Rightarrow> database \<Rightarrow> bool" where
  "same_checkpoints d d' \<longleftrightarrow> tb_checkpoints d' = tb_checkpoints d \<and> tb_cp_nodes d' = tb_cp_nodes d
     \<and> tb_cp_labels d' = tb_cp_labels d \<and> tb_cp_relationships d' = tb_cp_relationships d
     \<and> tb_cp_properties d' = tb_cp_properties d"

lemma checkpoints_kept:
  assumes "store_ok P d" "keeps_layers P d d'" "keeps_commits d d'" "same_checkpoints d d'"
  shows "checkpoints_ok P d'"
  unfolding checkpoints_ok_def
proof (intro allI impI)
  fix c g assume has: "om_has (tb_checkpoints d') c" and g: "commit_graph P d' c g"
  then have c: "om_has (tb_checkpoints d) c" using assms(4) by (simp add: same_checkpoints_def)
  then obtain row where "om_get (tb_commits d) c = Some row" using store_checkpoint [OF assms(1)] by blast
  then obtain g0 where g0: "commit_graph P d c g0" using store_commit [OF assms(1)] by (auto simp: commit_ok_def)
  have "g = g0" using commit_graph_unique [OF commit_graph_kept [OF g0 assms(2,3)] g] .
  moreover have "checkpoint_holds P d c g0" using assms(1) c g0 by (auto simp: store_ok_def checkpoints_ok_def)
  ultimately show "checkpoint_holds P d' c g" using assms(4) by (simp add: checkpoint_holds_def same_checkpoints_def)
qed

lemma commit_ok_kept:
  assumes "commit_ok P d c row" "keeps_layers P d d'" "keeps_commits d d'"
    and "\<And>h. om_has (tb_schema_objects d) h \<Longrightarrow> om_has (tb_schema_objects d') h"
  shows "commit_ok P d' c row"
proof -
  from assms(1) obtain g lh where g: "commit_graph P d c g" "wf_graph g" and lh: "om_get (tb_layers d) (cr_layer_id row) = Some lh"
    and c: "c = commit_hash P (cr_format_version row) (cr_parent1 row) (cr_parent2 row) lh (cr_schema_hash row)
             \<lparr>author = cr_author row, message = cr_message row, committed_at = cr_committed_at row\<rparr>"
    by (auto simp: commit_ok_def commit_addressed_def)
  have "om_get (tb_layers d') (cr_layer_id row) = Some lh" using assms(2) lh by (simp add: keeps_layers_def)
  moreover have "om_has (tb_commits d') p" if "om_has (tb_commits d) p" for p
    using assms(3) that by (auto simp: keeps_commits_def om_has_def)
  ultimately show ?thesis
    using assms(1) commit_graph_kept [OF g(1) assms(2,3)] g(2) c assms(4)
    by (auto simp: commit_ok_def commit_addressed_def split: option.splits)
qed


section \<open>Persisting a layer\<close>

lemma has_deltas_empty: "layer_is_empty l \<longleftrightarrow> l = layer_default"
  by (cases l) (auto simp: layer_is_empty_def layer_default_def om_is_empty_iff)

definition tuples_agree :: "database \<Rightarrow> LayerBuilder \<Rightarrow> bool" where
  "tuples_agree d l \<longleftrightarrow> om_all (\<lambda>i delta. \<forall>r. stored_tuple d i r \<longrightarrow> r = rd_record delta) (lb_relationships l)"

lemma with_layer_tuples:
  assumes "layer_tables_ok d" "om_get (tb_sequences d) 6 = Some i" "wf_layer l" "stored_tuple (with_layer i h l d) j r"
  shows "stored_tuple d j r \<or> (\<exists>delta. om_get (lb_relationships l) j = Some delta \<and> r = rd_record delta)"
proof -
  from assms(4) obtain k row where k: "om_get (tb_rel_delta (with_layer i h l d)) (k, j) = Some row" "r = relationship_from_row j (fst row)"
    by (auto simp: stored_tuple_def)
  have "om_slice i (tb_rel_delta d) = om_empty" using assms(1,2) by (intro slice_below [of i]) (auto simp: layer_tables_ok_def)
  then have sl: "om_slice k (tb_rel_delta (with_layer i h l d)) =
      (if i = k then om_map (\<lambda>_. relationship_row) (lb_relationships l) else om_slice k (tb_rel_delta d))"
    by (cases "i = k") (simp_all add: with_layer_def om_slice_graft graft_ident)
  have row: "om_get (om_slice k (tb_rel_delta (with_layer i h l d))) j = Some row" using k(1) by simp
  show ?thesis
  proof (cases "i = k")
    case True
    then have "om_get (om_map (\<lambda>_. relationship_row) (lb_relationships l)) j = Some row" using row unfolding sl by simp
    then obtain delta where delta: "om_get (lb_relationships l) j = Some delta" "row = relationship_row delta"
      by (auto simp: om_get_map)
    then have "rel_id (rd_record delta) = j" using assms(3) by (auto simp: wf_layer_iff om_all_iff)
    then have "relationship_from_row j (fst row) = rd_record delta"
      using delta(2) by (auto simp: relationship_row_def relationship_from_row_def)
    with delta k(2) show ?thesis by auto
  next
    case False
    then have "om_get (tb_rel_delta d) (k, j) = Some row" using row unfolding sl by simp
    with k(2) show ?thesis unfolding stored_tuple_def by blast
  qed
qed

lemma persist_frame:
  assumes "persist_layer_checked P l c = (Inr (i, lh), c')" "wf_layer l"
  shows "tb_commits (db c') = tb_commits (db c) \<and> tb_branches (db c') = tb_branches (db c)
    \<and> tb_schema_objects (db c') = tb_schema_objects (db c) \<and> same_checkpoints (db c) (db c')
    \<and> om_get (tb_sequences (db c')) 1 = om_get (tb_sequences (db c)) 1
    \<and> om_get (tb_sequences (db c')) 2 = om_get (tb_sequences (db c)) 2"
  using persist_layer_checked_Inr [OF assms] by (auto simp: with_layer_def same_checkpoints_def)

lemma persist_keeps_store:
  assumes "persist_layer_checked P l c = (Inr (i, lh), c')" "store_ok P (db c)" "wf_layer l" "layer_fits P l" "tuples_agree (db c) l"
  shows "store_ok P (db c') \<and> keeps_layers P (db c) (db c') \<and> om_get (tb_layers (db c')) i = Some lh
    \<and> load_layer P (db c') i = Inr (canonical_layer l)"
proof -
  let ?d = "db c" and ?d' = "db c'"
  have tables: "layer_tables_ok ?d" using assms(2) by (simp add: store_ok_def)
  note p = persist_then_load [OF assms(1,3,4) tables] and frame = persist_frame [OF assms(1,3)]
  have keep: "keeps_layers P ?d ?d'" "keeps_commits ?d ?d'"
    using p frame by (auto simp: keeps_layers_def keeps_commits_def)
  have tuples: "tuples_unique ?d'"
    using persist_layer_checked_Inr [OF assms(1,3)]
  proof (elim conjE disjE)
    assume "om_get (tb_sequences ?d) 6 = Some i" "?d' = with_layer i lh l ?d"
    with with_layer_tuples [OF tables _ assms(3)] assms(2,5) show ?thesis
      unfolding tuples_unique_def store_ok_def tuples_agree_def om_all_iff by (metis option.inject)
  qed (use assms(2) in \<open>simp add: store_ok_def\<close>)
  have addressed: "layers_addressed P ?d'"
    using persist_layer_checked_Inr [OF assms(1,3)]
  proof (elim conjE disjE)
    assume new: "content_hash P l = Inr lh" "?d' = with_layer i lh l ?d"
    have "\<exists>m. load_layer P ?d' j = Inr m \<and> content_hash P m = Inr g" if "om_get (tb_layers ?d') j = Some g" for j g
    proof (cases "j = i")
      case True
      with that p new(1) show ?thesis by (auto simp: content_hash_canonical_layer)
    next
      case False
      then have "om_get (tb_layers ?d) j = Some g" using that new(2) by (simp add: with_layer_def)
      with keep(1) assms(2) show ?thesis by (auto simp: keeps_layers_def store_ok_def layers_addressed_def om_all_iff)
    qed
    then show ?thesis by (simp add: layers_addressed_def om_all_iff)
  qed (use assms(2) in \<open>simp add: store_ok_def\<close>)
  have "om_all (commit_ok P ?d') (tb_commits ?d')"
    using commit_ok_kept [OF store_commit [OF assms(2)] keep] frame by (simp add: om_all_iff)
  moreover have "checkpoint_rows_owned ?d'"
    using frame assms(2) by (simp add: store_ok_def checkpoint_rows_owned_def same_checkpoints_def)
  ultimately show ?thesis
    using p tuples addressed keep checkpoints_kept [OF assms(2) keep] frame assms(2)
    by (simp add: store_ok_def om_has_def same_checkpoints_def)
qed


section \<open>Adding a commit\<close>

definition with_commit :: "ustr \<Rightarrow> hash_id \<Rightarrow> CommitRow \<Rightarrow> database \<Rightarrow> database" where
  "with_commit branch h row d =
     d\<lparr>tb_commits := om_put h row (tb_commits d), tb_branches := om_put branch h (tb_branches d)\<rparr>"

lemma with_commit_layers: "load_layer P (with_commit branch h row d) i = load_layer P d i"
  by (rule same_layer_load) (simp add: same_layer_def with_commit_def)

lemma with_commit_keeps:
  assumes "om_get (tb_commits d) h \<in> {None, Some row}"
  shows "keeps_layers P d (with_commit branch h row d)" "keeps_commits d (with_commit branch h row d)"
  using assms by (auto simp: keeps_layers_def keeps_commits_def with_commit_layers) (auto simp: with_commit_def)

lemma store_add_commit:
  assumes "store_ok P d" "om_get (tb_commits d) h \<in> {None, Some row}" "commit_ok P (with_commit branch h row d) h row"
  shows "store_ok P (with_commit branch h row d)"
proof -
  let ?d = "with_commit branch h row d"
  note keep = with_commit_keeps [OF assms(2)]
  have "commit_ok P ?d c r" if "om_get (tb_commits ?d) c = Some r" for c r
  proof (cases "c = h")
    case True
    with that assms(3) show ?thesis by (simp add: with_commit_def)
  next
    case False
    then have "om_get (tb_commits d) c = Some r" using that by (simp add: with_commit_def)
    from commit_ok_kept [OF store_commit [OF assms(1) this] keep] show ?thesis by (simp add: with_commit_def)
  qed
  moreover have "layer_tables_ok ?d" "tuples_unique ?d"
    using assms(1)
    by (simp_all add: store_ok_def layer_tables_ok_def delta_rows_ok_def tuples_unique_def stored_tuple_def with_commit_def
        cong: option.case_cong)
  moreover have "layers_addressed P ?d"
    using assms(1) by (simp add: store_ok_def layers_addressed_def with_commit_layers) (simp add: with_commit_def)
  moreover have "checkpoints_ok P ?d"
    by (rule checkpoints_kept [OF assms(1) keep]) (simp add: same_checkpoints_def with_commit_def)
  moreover have "om_has (tb_commits ?d) c" if "om_get (tb_branches ?d) b = Some c" for b c
    using that store_branch [OF assms(1), of b c] by (auto simp: with_commit_def om_has_def split: if_splits)
  moreover have "om_has (tb_commits ?d) c" if "om_has (tb_checkpoints ?d) c" for c
    using that store_checkpoint [OF assms(1), of c] by (auto simp: with_commit_def om_has_def)
  moreover have "checkpoint_rows_owned ?d"
    using assms(1) by (simp add: store_ok_def checkpoint_rows_owned_def with_commit_def)
  ultimately show ?thesis
    using assms(1) by (simp add: store_ok_def om_all_iff) (auto simp: with_commit_def om_has_def)
qed

lemma wf_graph_canonical_layer: "wf_graph (apply_layer l g) \<Longrightarrow> wf_graph (apply_layer (canonical_layer l) g)"
proof -
  let ?g = "apply_layer l g" and ?h = "apply_layer (canonical_layer l) g"
  have eq: "g_nodes ?h = g_nodes ?g" "g_labels ?h = g_labels ?g" "g_relationships ?h = g_relationships ?g"
    by (simp_all add: apply_layer_def overlay_graph_def canonical_layer_def)
  have has: "om_has (g_properties ?h) k = om_has (g_properties ?g) k" for k
    by (auto simp: om_has_def apply_layer_get canonical_layer_def om_get_map canonical_delta_def split: option.splits)
  assume wf: "wf_graph ?g"
  have "owner_in ?h kind i" if "om_get (g_properties ?h) (kind, i, k) = Some v" for kind i k v
  proof -
    have "om_has (g_properties ?g) (kind, i, k)" using has [of "(kind, i, k)"] that by (auto simp: om_has_def)
    then have "owner_in ?g kind i" using wf unfolding wf_graph_def om_all_iff om_has_def by fastforce
    then show ?thesis by (cases kind) (simp_all add: owner_in_def eq)
  qed
  with wf show ?thesis by (auto simp: wf_graph_def eq om_all_iff)
qed

lemma validated_allowed:
  assumes "validated P d e l" "store_ok P d" "commit_graph P d e g" "wf_graph g" "wf_layer l"
  shows "tuples_agree d l \<and> wf_graph (apply_layer l g)"
proof (cases "layer_is_empty l")
  case True
  with assms(4) show ?thesis by (simp add: has_deltas_empty) (simp add: tuples_agree_def layer_default_def)
next
  case False
  with assms(1) obtain s where s: "snd (resolve_state_with_checkpoint_skip P d e None) = Inr s"
    "snd (validate_layer_invariants_checked P d s l) = Inr ()" by (auto simp: validated_def)
  have ok: "checkpoints_ok P d" "tuples_unique d" "om_has (tb_sequences d) 1" "om_has (tb_sequences d) 2"
    using assms(2) by (simp_all add: store_ok_def)
  obtain b where b: "snapshot_of P d s b g" "tuple_stable b s"
    using resolved_stable [OF s(1) assms(3) ok(1) store_delta_rows [OF assms(2)] ok(2)] by blast
  from validate_layer_exact_at [OF b commit_graph_tuples [OF assms(3)] assms(5) ok(3,4) assms(4)] s(2)
  have allowed: "layer_allowed d l" "wf_graph (apply_layer l g)" by auto
  have "rel_id (rd_record delta) = i" if "om_get (lb_relationships l) i = Some delta" for i delta
    using assms(5) that by (auto simp: wf_layer_iff om_all_iff)
  with allowed show ?thesis unfolding layer_allowed_def tuples_agree_def Let_def om_all_iff by metis
qed

lemma commit_change_spec:
  assumes "commit_change_inner P branch e second (l, sh) md c = (Inr h, c')" "store_ok P (db c)" "wf_layer l" "layer_fits P l"
  shows "\<exists>i lh g d. let r = new_commit P e second i lh sh md in
      h = nc_id r \<and> content_hash P l = Inr lh \<and> om_get (tb_branches (db c)) branch = Some e \<and> length h = 32
    \<and> commit_graph P (db c) e g \<and> store_ok P d \<and> keeps_layers P (db c) d
    \<and> tb_commits d = tb_commits (db c) \<and> tb_branches d = tb_branches (db c)
    \<and> om_get (tb_commits d) h \<in> {None, Some (commit_row r)} \<and> db c' = with_commit branch h (commit_row r) d
    \<and> store_ok P (db c') \<and> commit_graph P (db c') h (apply_layer (canonical_layer l) g) \<and> wf_graph (apply_layer l g)"
proof -
  from commit_change_Inr [OF assms(1)] obtain c1 c2 i lh where
    c1: "db c1 = db c" "persist_layer_checked P l c1 = (Inr (i, lh), c2)"
    and h: "h = nc_id (new_commit P e second i lh sh md)" "length h = 32"
    and pre: "om_get (tb_branches (db c)) branch = Some e" "length e = 32"
      "case second of None \<Rightarrow> True | Some p \<Rightarrow> om_has (tb_commits (db c)) p" "om_has (tb_schema_objects (db c)) sh"
      "validated P (db c) e l"
    and row: "om_get (tb_commits (db c2)) h \<in> {None, Some (commit_row (new_commit P e second i lh sh md))}"
    and c': "db c' = with_commit branch h (commit_row (new_commit P e second i lh sh md)) (db c2)"
    by (auto simp: Let_def with_commit_def)
  let ?r = "new_commit P e second i lh sh md"
  obtain er where "om_get (tb_commits (db c)) e = Some er" using store_branch [OF assms(2) pre(1)] by blast
  then obtain g where g: "commit_graph P (db c) e g" "wf_graph g"
    using store_commit [OF assms(2)] by (auto simp: commit_ok_def)
  from validated_allowed [OF pre(5) assms(2) g assms(3)] have allowed: "tuples_agree (db c) l" "wf_graph (apply_layer l g)" by auto
  from persist_keeps_store [OF c1(2) _ assms(3,4)] assms(2) allowed(1) c1(1)
  have d: "store_ok P (db c2)" "keeps_layers P (db c) (db c2)" "om_get (tb_layers (db c2)) i = Some lh"
    "load_layer P (db c2) i = Inr (canonical_layer l)" by auto
  note frame = persist_frame [OF c1(2) assms(3)]
  have hash: "content_hash P l = Inr lh" using persist_layer_checked_Inr [OF c1(2) assms(3)] by blast
  have lh: "length lh = 32" using d(1,3) by (auto simp: store_ok_def layer_tables_ok_def om_all_iff split: option.splits)
  have "keeps_commits (db c) (db c2)" using frame c1(1) by (simp add: keeps_commits_def)
  with g(1) d(2) with_commit_keeps(1) [OF row, of P branch] with_commit_keeps(2) [OF row, of branch] have e: "commit_graph P (db c') e g"
    unfolding c' by (blast intro: commit_graph_kept keeps_trans)
  have "\<exists>row. load_lineage_row (db c') h = Inr row \<and> lr_parent row = Some e \<and> lr_layer_id row = i"
    using pre(2) d(3) lh by (simp add: load_lineage_row_def c' with_commit_def commit_row_def new_commit_def hash_from_slice_def)
  then have graph: "commit_graph P (db c') h (apply_layer (canonical_layer l) g)"
    using e d(4) by (auto intro!: commit_graph.child simp: c' with_commit_layers)
  have "commit_addressed P (db c') h (commit_row ?r)"
    using d(3) h by (simp add: commit_addressed_def c' with_commit_def commit_row_def new_commit_def commit_hash_def)
  moreover have "om_has (tb_commits (db c')) p" if "second = Some p" for p
    using pre(3) frame c1(1) that by (auto simp: c' with_commit_def om_has_def)
  moreover have "om_has (tb_schema_objects (db c')) sh" using pre(4) frame c1(1) by (simp add: c' with_commit_def)
  ultimately have "commit_ok P (db c') h (commit_row ?r)"
    using graph wf_graph_canonical_layer [OF allowed(2)]
    by (auto simp: commit_ok_def commit_row_def new_commit_def split: option.split)
  then have "store_ok P (db c')" unfolding c' by (intro store_add_commit [OF d(1) row]) simp
  with h hash pre(1) g(1) d(1,2) frame c1(1) row c' graph allowed(2) show ?thesis
    by (intro exI [of _ i] exI [of _ lh] exI [of _ g] exI [of _ "db c2"]) (simp add: Let_def)
qed

end
