(* ===== verification/Commit_Theorems.thy ===== *)
theory Commit_Theorems
  imports Commit_Laws
begin

text \<open>
  The theorems on commits: the write path keeps the invariant of the store, is atomic, moves the branch only from
  the expected head, and means applying the layer to the graph of that head; the root commit.
\<close>

section \<open>Either entry of the write path\<close>

definition commit_runs :: "platform \<Rightarrow> ustr \<Rightarrow> hash_id \<Rightarrow> hash_id option \<Rightarrow> LayerBuilder \<Rightarrow> hash_id \<Rightarrow> CommitMetadata \<Rightarrow> hash_id st set" where
  "commit_runs P branch e second l sh md =
     {commit_layer_checked P branch e second l md, commit_layer_with_schema_checked P branch e second (l, sh) md}"

lemma commit_run_Inl: "run \<in> commit_runs P branch e second l sh md \<Longrightarrow> run c = (Inl err, c') \<Longrightarrow> db c' = db c"
  by (auto simp: commit_runs_def commit_layer_checked_def commit_layer_with_schema_checked_def dest: with_savepoint_Inl)

lemma commit_run_Inr:
  assumes "run \<in> commit_runs P branch e second l sh md" "run c = (Inr h, c')"
  shows "\<exists>sh c0. commit_change_inner P branch e second (l, sh) md c0 = (Inr h, c') \<and> db c0 = db c"
  using assms by (auto simp: commit_runs_def commit_layer_checked_def commit_layer_with_schema_checked_def dest!: st_check_db) blast+

lemma commit_run_spec:
  assumes "run \<in> commit_runs P branch e second l sh md" "run c = (Inr h, c')" "store_ok P (db c)" "wf_layer l" "layer_fits P l"
  shows "\<exists>lh sh' g. h = commit_hash P STORAGE_FORMAT (Some e) second lh sh' md \<and> content_hash P l = Inr lh \<and> length h = 32
    \<and> om_get (tb_branches (db c)) branch = Some e \<and> commit_graph P (db c) e g
    \<and> (\<forall>b. om_get (tb_branches (db c')) b = (if b = branch then Some h else om_get (tb_branches (db c)) b))
    \<and> store_ok P (db c') \<and> keeps_layers P (db c) (db c') \<and> keeps_commits (db c) (db c')
    \<and> commit_graph P (db c') h (apply_layer (canonical_layer l) g)
    \<and> (\<exists>row. load_lineage_row (db c') h = Inr row \<and> lr_parent row = Some e)"
proof -
  obtain sh' c0 where c0: "commit_change_inner P branch e second (l, sh') md c0 = (Inr h, c')" "db c0 = db c"
    using commit_run_Inr [OF assms(1,2)] by blast
  from commit_change_spec [OF c0(1) _ assms(4,5)] assms(3) c0(2) obtain i lh g d where
    h: "h = nc_id (new_commit P e second i lh sh' md)" "content_hash P l = Inr lh" "length h = 32"
    and pre: "om_get (tb_branches (db c)) branch = Some e" "commit_graph P (db c) e g" "keeps_layers P (db c) d"
      "tb_commits d = tb_commits (db c)" "tb_branches d = tb_branches (db c)"
    and row: "om_get (tb_commits d) h \<in> {None, Some (commit_row (new_commit P e second i lh sh' md))}"
    and c': "db c' = with_commit branch h (commit_row (new_commit P e second i lh sh' md)) d"
    and post: "store_ok P (db c')" "commit_graph P (db c') h (apply_layer (canonical_layer l) g)"
    by (auto simp: Let_def)
  have "keeps_commits (db c) d" using pre(4) by (simp add: keeps_commits_def)
  then have keep: "keeps_layers P (db c) (db c')" "keeps_commits (db c) (db c')"
    using pre(3) with_commit_keeps [OF row] unfolding c' by (blast intro: keeps_trans)+
  have "om_get (tb_commits (db c')) h = Some (commit_row (new_commit P e second i lh sh' md))"
    by (simp add: c' with_commit_def)
  moreover obtain lrow where "load_lineage_row (db c') h = Inr lrow"
    using post(2) by (cases rule: commit_graph.cases) auto
  ultimately have "\<exists>row. load_lineage_row (db c') h = Inr row \<and> lr_parent row = Some e"
    by (auto simp: load_lineage_row_def commit_row_def new_commit_def hash_from_slice_def split: option.splits if_splits)
  moreover have "om_get (tb_branches (db c')) b = (if b = branch then Some h else om_get (tb_branches (db c)) b)" for b
    using pre(5) by (simp add: c' with_commit_def)
  moreover have "h = commit_hash P STORAGE_FORMAT (Some e) second lh sh' md" using h(1) by (simp add: new_commit_def)
  ultimately show ?thesis using h(2,3) pre(1,2) post keep by blast
qed

section \<open>The root commit\<close>

lemma store_add_schema:
  assumes "store_ok P d" "h = blake3 P blob" "om_get (tb_schema_objects d) h \<in> {None, Some blob}"
  shows "store_ok P (d\<lparr>tb_schema_objects := om_put h blob (tb_schema_objects d)\<rparr>)"
proof -
  let ?d = "d\<lparr>tb_schema_objects := om_put h blob (tb_schema_objects d)\<rparr>"
  have load: "load_layer P ?d i = load_layer P d i" for i by (rule same_layer_load) (simp add: same_layer_def)
  then have keep: "keeps_layers P d ?d" "keeps_commits d ?d" by (simp_all add: keeps_layers_def keeps_commits_def)
  have "commit_ok P ?d c row" if "om_get (tb_commits d) c = Some row" for c row
    using commit_ok_kept [OF store_commit [OF assms(1) that] keep] by simp
  moreover have "checkpoints_ok P ?d" by (rule checkpoints_kept [OF assms(1) keep]) (simp add: same_checkpoints_def)
  moreover have "layers_addressed P ?d" using assms(1) by (simp add: store_ok_def layers_addressed_def load)
  moreover have "layer_tables_ok ?d" "tuples_unique ?d"
    using assms(1) by (simp_all add: store_ok_def layer_tables_ok_def delta_rows_ok_def tuples_unique_def stored_tuple_def cong: option.case_cong)
  moreover have "om_all (\<lambda>h blob. h = blake3 P blob) (tb_schema_objects ?d)"
    using assms by (simp add: store_ok_def om_all_put)
  moreover have "checkpoint_rows_owned ?d" using assms(1) by (simp add: store_ok_def checkpoint_rows_owned_def)
  ultimately show ?thesis using assms(1) by (simp add: store_ok_def om_all_iff)
qed

lemma initialize_root_Inr:
  assumes "initialize_root P c = (Inr info, c')" "tb_commits (db c) = om_empty" "store_ok P (db c)"
  shows "\<exists>lh row. content_hash P layer_default = Inr lh
    \<and> ri_root info = commit_hash P STORAGE_FORMAT None None lh (blake3 P (lce1_record (ascii ''SCHEMA'') [])) metadata_root
    \<and> ri_branch info = main_branch \<and> length (ri_root info) = 32 \<and> store_ok P (db c')
    \<and> tb_commits (db c') = om_put (ri_root info) row om_empty \<and> cr_parent1 row = None \<and> cr_parent2 row = None
    \<and> om_get (tb_branches (db c')) main_branch = Some (ri_root info) \<and> commit_graph P (db c') (ri_root info) empty_graph"
proof -
  let ?blob = "lce1_record (ascii ''SCHEMA'') []"
  let ?sh = "blake3 P ?blob" and ?d1 = "db c\<lparr>tb_schema_objects := om_put (blake3 P ?blob) ?blob (tb_schema_objects (db c))\<rparr>"
  let ?row = "\<lambda>i. \<lparr>cr_format_version = STORAGE_FORMAT, cr_parent1 = None, cr_parent2 = None, cr_layer_id = i,
      cr_schema_hash = ?sh, cr_author = None, cr_message = None, cr_committed_at = 0\<rparr>"
  have "om_size (tb_commits (db c)) = 0" using assms(2) by (simp add: om_size_def om_empty.rep_eq)
  with assms(1) obtain c2 i lh where
    schema: "om_get (tb_schema_objects (db c)) ?sh = None"
    and persist: "persist_layer_checked P layer_default (c\<lparr>db := ?d1\<rparr>) = (Inr (i, lh), c2)"
    and root: "ri_root info = commit_hash P STORAGE_FORMAT None None lh ?sh metadata_root" "ri_branch info = main_branch"
      "length (ri_root info) = 32"
    and c': "db c' = with_commit main_branch (ri_root info) (?row i) (db c2)"
    unfolding initialize_root_def Let_def by (auto simp: with_commit_def)
  have wf: "wf_layer layer_default" "layer_fits P layer_default" "tuples_agree ?d1 layer_default"
    by (simp_all add: wf_layer_iff layer_fits_def tuples_agree_def layer_default_def)
  have "store_ok P ?d1" using assms(3) schema by (intro store_add_schema) simp_all
  then have "store_ok P (db (c\<lparr>db := ?d1\<rparr>))" by simp
  from persist_keeps_store [OF persist this wf(1,2)] wf(3)
  have d: "store_ok P (db c2)" "om_get (tb_layers (db c2)) i = Some lh" "load_layer P (db c2) i = Inr (canonical_layer layer_default)"
    by auto
  have default: "canonical_layer layer_default = layer_default"
    by (simp add: canonical_layer_def layer_default_def om_ext om_get_map fun_eq_iff)
  note frame = persist_frame [OF persist wf(1)]
  have commits: "tb_commits (db c2) = om_empty" using frame assms(2) by simp
  have lh: "length lh = 32" using d(1,2) by (auto simp: store_ok_def layer_tables_ok_def om_all_iff split: option.splits)
  have "\<exists>row. load_lineage_row (db c') (ri_root info) = Inr row \<and> lr_parent row = None \<and> lr_layer_id row = i"
    using d(2) lh by (simp add: load_lineage_row_def c' with_commit_def hash_from_slice_def)
  then have graph: "commit_graph P (db c') (ri_root info) empty_graph"
    using d(3) default commit_graph.root [of "db c'" "ri_root info" _ P layer_default] by (auto simp: c' with_commit_layers)
  have "commit_addressed P (db c') (ri_root info) (?row i)"
    using d(2) root(1) by (simp add: commit_addressed_def c' with_commit_def commit_hash_def metadata_root_def)
  moreover have "om_has (tb_schema_objects (db c')) ?sh"
    using frame by (simp add: c' with_commit_def om_has_def)
  ultimately have "commit_ok P (db c') (ri_root info) (?row i)"
    using graph wf_empty_graph by (auto simp: commit_ok_def)
  then have "store_ok P (db c')" unfolding c' by (intro store_add_commit [OF d(1)]) (simp_all add: commits)
  moreover have "content_hash P layer_default = Inr lh" using persist_layer_checked_Inr [OF persist wf(1)] by blast
  ultimately show ?thesis
    using root graph by (intro exI [of _ lh] exI [of _ "?row i"]) (simp add: c' with_commit_def commits)
qed

section \<open>An example store\<close>

text \<open>A digest for evaluation: the length of the bytes.\<close>

definition platform_len :: platform where
  "platform_len = platform64\<lparr>blake3 := (\<lambda>bs. replicate 31 0 @ [fold (\<lambda>_ n. n + 1) bs 0])\<rparr>"

definition fresh_store :: database where
  "fresh_store = create_storage_schema\<lparr>tb_sequences := om_of [(1, 10), (2, 10), (3, 1), (4, 1), (5, 1), (6, 1)]\<rparr>"

definition first_store :: conn where
  "first_store = snd (initialize_root platform_len (on_db fresh_store))"


definition len_id :: "byte \<Rightarrow> hash_id" where
  "len_id a = replicate 31 0 @ [a]"


lemma first_store_run:
  "fst (initialize_root platform_len (on_db fresh_store)) = Inr \<lparr>ri_root = len_id 104, ri_branch = main_branch\<rparr>"
  by code_simp

lemma fresh_store_ok: "store_ok P fresh_store" "tb_commits fresh_store = om_empty"
  by (simp_all add: store_ok_def fresh_store_def create_storage_schema_def layer_tables_ok_def delta_rows_ok_def below_def
      tuples_unique_def stored_tuple_def layers_addressed_def checkpoints_ok_def checkpoint_rows_owned_def om_of_def om_put_all_def)

definition first_db :: database where
  "first_db = fresh_store\<lparr>tb_sequences := om_put 6 2 (tb_sequences fresh_store), tb_layers := om_of [(1, len_id 11)],
     tb_schema_objects := om_of [(len_id 12, lce1_record (ascii ''SCHEMA'') [])],
     tb_commits := om_of [(len_id 104, \<lparr>cr_format_version = 3, cr_parent1 = None, cr_parent2 = None, cr_layer_id = 1,
       cr_schema_hash = len_id 12, cr_author = None, cr_message = None, cr_committed_at = 0\<rparr>)],
     tb_branches := om_of [(main_branch, len_id 104)]\<rparr>"

lemma first_store_db: "db first_store = first_db"
  by code_simp

lemma first_store_init: "initialize_root platform_len (on_db fresh_store) = (Inr \<lparr>ri_root = len_id 104, ri_branch = main_branch\<rparr>, first_store)"
  using first_store_run by (simp add: first_store_def prod_eq_iff)

lemma first_db_ok: "store_ok platform_len first_db"
  using initialize_root_Inr [OF first_store_init] fresh_store_ok by (auto simp: first_store_db on_db_def)

lemma first_commit_run:
  "fst (commit_layer_checked platform_len main_branch (len_id 104) None one_node metadata_root (on_db first_db)) = Inr (len_id 136)"
  by code_simp

lemma first_commit:
  obtains c' where "commit_layer_checked platform_len main_branch (len_id 104) None one_node metadata_root (on_db first_db) = (Inr (len_id 136), c')"
  using first_commit_run by (metis prod.collapse)

lemma one_node_fits: "layer_fits platform_len one_node"
  using one_node_facts(2) by (simp add: layer_fits_def one_node_def layer_default_def)

lemma commit_layer_runs: "commit_layer_checked P branch e second l md \<in> commit_runs P branch e second l sh md"
  by (simp add: commit_runs_def)

lemma on_db_store: "store_ok platform_len (db (on_db first_db))"
  using first_db_ok by (simp add: on_db_def)

section \<open>Theorems\<close>

text \<open>C38. The root commit: initialising storage that holds no commit makes one commit, the root, on the branch main;
  its graph is empty, it carries its digest, the invariant of the store holds, and initialising again
  finds the same root and changes nothing.\<close>

theorem initialize_root_ok:
  assumes "initialize_root P c = (Inr info, c')" and "tb_commits (db c) = om_empty" and "store_ok P (db c)"
  shows "store_ok P (db c') \<and> root_commit (db c') = Inr (ri_root info) \<and> branch_head (db c') main_branch = Inr (ri_root info)
    \<and> commit_graph P (db c') (ri_root info) empty_graph
    \<and> (\<exists>lh. content_hash P layer_default = Inr lh
         \<and> ri_root info = commit_hash P STORAGE_FORMAT None None lh (blake3 P (lce1_record (ascii ''SCHEMA'') [])) metadata_root)
    \<and> initialize_root P c' = (Inr info, c')"
proof -
  from initialize_root_Inr [OF assms] obtain lh row where
    facts: "content_hash P layer_default = Inr lh"
      "ri_root info = commit_hash P STORAGE_FORMAT None None lh (blake3 P (lce1_record (ascii ''SCHEMA'') [])) metadata_root"
      "ri_branch info = main_branch" "length (ri_root info) = 32" "store_ok P (db c')"
      "om_get (tb_branches (db c')) main_branch = Some (ri_root info)" "commit_graph P (db c') (ri_root info) empty_graph"
    and commits: "tb_commits (db c') = om_put (ri_root info) row om_empty" "cr_parent1 row = None" "cr_parent2 row = None" by blast
  have entries: "om_entries (tb_commits (db c')) = [(ri_root info, row)]" by (simp add: commits(1) om_put.rep_eq om_empty.rep_eq)
  then have root: "root_commit (db c') = Inr (ri_root info)"
    using commits(2,3) facts(4) by (simp add: root_commit_def hash_from_slice_def)
  moreover have "om_size (tb_commits (db c')) = 1" by (simp add: om_size_def entries)
  then have "initialize_root P c' = (existing_root_info (db c'), c')"
    by (simp add: initialize_root_def st_then_def st_query_def)
  then have "initialize_root P c' = (Inr info, c')"
    using root facts(3,6) by (cases info) (simp add: existing_root_info_def)
  ultimately show ?thesis using facts by (auto simp: branch_head_Inr)
qed

theorem initialize_root_ok_witness:
  "store_ok platform_len first_db \<and> branch_head first_db main_branch = Inr (len_id 104)"
  using initialize_root_ok [OF first_store_init] fresh_store_ok by (simp add: first_store_db) (simp add: on_db_def)

text \<open>C9. The write path keeps the store: whatever a commit answers, the invariant of the database holds afterwards
  and every earlier layer and commit is still there; when it fails, or is cancelled at any call of its hook, the
  database is what it was.\<close>

theorem commit_keeps_store:
  assumes "run \<in> commit_runs P branch e second l sh md" and "run c = (r, c')"
    and "store_ok P (db c)" and "wf_layer l" and "layer_fits P l"
  shows "store_ok P (db c') \<and> keeps_layers P (db c) (db c') \<and> keeps_commits (db c) (db c') \<and> (isl r \<longrightarrow> db c' = db c)"
proof (cases r)
  case (Inl err)
  with commit_run_Inl [OF assms(1)] assms(2,3) show ?thesis by fastforce
next
  case (Inr h)
  with commit_run_spec [OF assms(1) _ assms(3-5)] assms(2) show ?thesis by fastforce
qed

theorem commit_keeps_store_witness:
  "\<exists>c'. commit_layer_checked platform_len main_branch (len_id 104) None one_node metadata_root (on_db first_db) = (Inr (len_id 136), c')
     \<and> store_ok platform_len (db c')"
proof -
  obtain c' where c': "commit_layer_checked platform_len main_branch (len_id 104) None one_node metadata_root (on_db first_db) = (Inr (len_id 136), c')"
    by (rule first_commit)
  from commit_keeps_store [OF commit_layer_runs c' on_db_store one_node_facts(1) one_node_fits] c' show ?thesis by blast
qed

text \<open>C2. A commit means what it says: when it succeeds, the head of the branch was the expected one and is now the new
  commit, other branches have not moved, the new commit has the digest of its fields, its graph is the graph of
  the expected head with the layer applied, and every earlier commit still has the graph it had.\<close>

theorem commit_refines_graph:
  assumes "run \<in> commit_runs P branch e second l sh md" and "run c = (Inr h, c')"
    and "store_ok P (db c)" and "wf_layer l" and "layer_fits P l"
  shows "\<exists>lh sh' g. content_hash P l = Inr lh \<and> h = commit_hash P STORAGE_FORMAT (Some e) second lh sh' md
    \<and> branch_head (db c) branch = Inr e \<and> branch_head (db c') branch = Inr h
    \<and> (\<forall>b. b \<noteq> branch \<longrightarrow> branch_head (db c') b = branch_head (db c) b)
    \<and> commit_graph P (db c) e g \<and> commit_graph P (db c') h (apply_layer (canonical_layer l) g)
    \<and> (\<forall>k g. commit_graph P (db c) k g \<longrightarrow> commit_graph P (db c') k g)"
proof -
  from commit_run_spec [OF assms] obtain lh sh' g where
    h: "content_hash P l = Inr lh" "h = commit_hash P STORAGE_FORMAT (Some e) second lh sh' md" "length h = 32"
    and head: "om_get (tb_branches (db c)) branch = Some e"
      "\<And>b. om_get (tb_branches (db c')) b = (if b = branch then Some h else om_get (tb_branches (db c)) b)"
    and g: "commit_graph P (db c) e g" "commit_graph P (db c') h (apply_layer (canonical_layer l) g)"
    and keep: "keeps_layers P (db c) (db c')" "keeps_commits (db c) (db c')"
    by blast
  obtain row where "load_lineage_row (db c') h = Inr row" using g(2) by (cases rule: commit_graph.cases) auto
  obtain sh2 c0 where c0: "commit_change_inner P branch e second (l, sh2) md c0 = (Inr h, c')" "db c0 = db c"
    using commit_run_Inr [OF assms(1,2)] by blast
  then have "length e = 32" using commit_change_Inr [OF c0(1)] by (auto simp: Let_def)
  then have "branch_head (db c) branch = Inr e" "branch_head (db c') branch = Inr h"
    "\<forall>b. b \<noteq> branch \<longrightarrow> branch_head (db c') b = branch_head (db c) b"
    using h(3) head by (auto simp: branch_head_Inr) (simp add: branch_head_def)
  moreover have "\<forall>k g. commit_graph P (db c) k g \<longrightarrow> commit_graph P (db c') k g"
    using keep by (blast intro: commit_graph_kept)
  ultimately show ?thesis using h(1,2) g by blast
qed

theorem commit_refines_graph_witness:
  "\<exists>c' g. commit_layer_checked platform_len main_branch (len_id 104) None one_node metadata_root (on_db first_db) = (Inr (len_id 136), c')
     \<and> branch_head (db c') main_branch = Inr (len_id 136) \<and> commit_graph platform_len (db c') (len_id 136) (apply_layer one_node g)"
proof -
  obtain c' where c': "commit_layer_checked platform_len main_branch (len_id 104) None one_node metadata_root (on_db first_db) = (Inr (len_id 136), c')"
    by (rule first_commit)
  from commit_refines_graph [OF commit_layer_runs c' on_db_store one_node_facts(1) one_node_fits] c' show ?thesis
    unfolding one_node_facts(3) by blast
qed

text \<open>C5. No update is lost: after one commit on a branch, another that still expects the old head fails and changes
  nothing, whoever runs it, on whatever database where the branch is still at the commit that was made.\<close>

theorem no_lost_update:
  assumes "run \<in> commit_runs P branch e second l sh md" and "run c = (Inr h, c')"
    and "store_ok P (db c)" and "wf_layer l" and "layer_fits P l"
    and "branch_head (db c2) branch = branch_head (db c') branch" and "run' \<in> commit_runs P branch e second' l' sh' md'" and "run' c2 = (r, c3)"
  shows "isl r \<and> db c3 = db c2"
proof -
  from commit_run_spec [OF assms(1-5)] obtain g row where
    h: "length h = 32" and heads: "\<And>b. om_get (tb_branches (db c')) b = (if b = branch then Some h else om_get (tb_branches (db c)) b)"
    and g: "commit_graph P (db c') h g"
    and row: "load_lineage_row (db c') h = Inr row" "lr_parent row = Some e" by blast
  have "h \<noteq> e" using commit_graph_acyclic [OF g] row by (auto intro: descends.parent)
  have "branch_head (db c') branch = Inr h" using heads [of branch] h by (simp add: branch_head_Inr)
  then have "branch_head (db c2) branch = Inr h" using assms(6) by simp
  then have "om_get (tb_branches (db c2)) branch \<noteq> Some e" using \<open>h \<noteq> e\<close> by (simp add: branch_head_Inr)
  have "r \<noteq> Inr k" for k
  proof
    assume "r = Inr k"
    then obtain sh2 c0 where "commit_change_inner P branch e second' (l', sh2) md' c0 = (Inr k, c3)" "db c0 = db c2"
      using commit_run_Inr [OF assms(7)] assms(8) by blast
    from commit_change_Inr [OF this(1)] this(2) show False using \<open>om_get (tb_branches (db c2)) branch \<noteq> Some e\<close> by (auto simp: Let_def)
  qed
  then show ?thesis using commit_run_Inl [OF assms(7)] assms(8) by (cases r) auto
qed

theorem no_lost_update_witness:
  "\<exists>c' r c3. commit_layer_checked platform_len main_branch (len_id 104) None one_node metadata_root (on_db first_db) = (Inr (len_id 136), c')
     \<and> commit_layer_checked platform_len main_branch (len_id 104) None layer_default metadata_root c' = (r, c3) \<and> isl r"
proof -
  obtain c' where c': "commit_layer_checked platform_len main_branch (len_id 104) None one_node metadata_root (on_db first_db) = (Inr (len_id 136), c')"
    by (rule first_commit)
  obtain r c3 where r: "commit_layer_checked platform_len main_branch (len_id 104) None layer_default metadata_root c' = (r, c3)"
    by fastforce
  from no_lost_update [OF commit_layer_runs c' on_db_store one_node_facts(1) one_node_fits refl commit_layer_runs r] c' r show ?thesis
    by blast
qed

end
