(* ===== verification/Checkpoint.thy ===== *)
theory Checkpoint
  imports Commit_Theorems
begin

text \<open>
  Checkpoints (\<^verbatim>\<open>storage/checkpoint.rs\<close>): the materialised graph of a commit, built by replaying the
  layers of its first-parent history in SQL, its statistics, and its deletion. The statistics are kept as JSON,
  printed and parsed by \<^verbatim>\<open>serde_json\<close>, which is a parameter; so is the clock of the database.
\<close>

section \<open>JSON values\<close>

datatype json = JNull | JBool bool | JNumber int | JFloat u64 | JString ustr | JArray "json list" | JObject "(ustr \<times> json) list"

record serde_json =
  json_to_string :: "json \<Rightarrow> bytes"
  json_from_slice :: "bytes \<Rightarrow> json option"

text \<open>The \<^verbatim>\<open>json!\<close> macro on an object: its map is ordered by key.\<close>

definition json_object :: "(ustr \<times> json) list \<Rightarrow> json" where
  "json_object kvs = JObject (om_entries (om_put_all kvs om_empty))"

definition json_get :: "json \<Rightarrow> ustr \<Rightarrow> json option" where
  "json_get v key = (case v of JObject kvs \<Rightarrow> map_of kvs key | _ \<Rightarrow> None)"

definition json_as_u64 :: "json \<Rightarrow> nat option" where
  "json_as_u64 v = (case v of JNumber n \<Rightarrow> if 0 \<le> n \<and> n < 2 ^ 64 then Some (nat n) else None | _ \<Rightarrow> None)"

definition json_as_i64 :: "json \<Rightarrow> i64 option" where
  "json_as_i64 v = (case v of JNumber n \<Rightarrow> if in_i64 n then Some n else None | _ \<Rightarrow> None)"

definition json_as_array :: "json \<Rightarrow> json list option" where
  "json_as_array v = (case v of JArray vs \<Rightarrow> Some vs | _ \<Rightarrow> None)"

section \<open>Statistics\<close>

record SnapshotStatistics =
  node_count :: nat
  relationship_count :: nat
  label_counts :: "(i64, nat) omap"
  type_counts :: "(i64, nat) omap"

text \<open>\<^verbatim>\<open>u64::try_from\<close> of a count of the database.\<close>

definition count_u64 :: "i64 \<Rightarrow> string \<Rightarrow> nat res" where
  "count_u64 n what = (if n < 0 then Inl (Corrupt what) else Inr (nat n))"

text \<open>The rows of \<^verbatim>\<open>SELECT id, count(*) ... GROUP BY id\<close>.\<close>

definition group_rows :: "i64 list \<Rightarrow> (i64 \<times> i64) list" where
  "group_rows ids = map (\<lambda>i. (i, int (length (filter ((=) i) ids)))) (remdups ids)"

definition grouped_counts :: "i64 list \<Rightarrow> (i64, nat) omap res" where
  "grouped_counts ids =
     fold_res (\<lambda>(i, n) counts. and_then (count_u64 n ''checkpoint grouped count is negative'') (\<lambda>n. Inr (om_put i n counts)))
       (group_rows ids) om_empty"

definition checkpoint_statistics :: "database \<Rightarrow> hash_id \<Rightarrow> SnapshotStatistics res" where
  "checkpoint_statistics d commit =
     and_then (count_u64 (int (length (commit_rows commit (tb_cp_nodes d)))) ''checkpoint Node count is negative'') (\<lambda>nodes.
     and_then (count_u64 (int (length (commit_rows commit (tb_cp_relationships d)))) ''checkpoint Relationship count is negative'') (\<lambda>relationships.
     and_then (grouped_counts (map (\<lambda>((_, label), _). label) (commit_rows commit (tb_cp_labels d)))) (\<lambda>labels.
     and_then (grouped_counts (map (\<lambda>(_, row). rr_type_id row) (commit_rows commit (tb_cp_relationships d)))) (\<lambda>types.
       Inr \<lparr>node_count = nodes, relationship_count = relationships, label_counts = labels, type_counts = types\<rparr>))))"

definition encode_counts :: "(i64, nat) omap \<Rightarrow> json list" where
  "encode_counts counts = map (\<lambda>(i, n). JArray [JNumber i, JNumber (int n)]) (om_entries counts)"

definition statistics_json :: "SnapshotStatistics \<Rightarrow> json" where
  "statistics_json st =
     json_object [(ascii ''version'', JNumber 1), (ascii ''nodes'', JNumber (int (node_count st))),
       (ascii ''relationships'', JNumber (int (relationship_count st))), (ascii ''labels'', JArray (encode_counts (label_counts st))),
       (ascii ''types'', JArray (encode_counts (type_counts st)))]"

definition encode_statistics :: "serde_json \<Rightarrow> SnapshotStatistics \<Rightarrow> bytes" where
  "encode_statistics J st = json_to_string J (statistics_json st)"

definition decode_counts :: "json \<Rightarrow> (i64, nat) omap option" where
  "decode_counts v =
     Option.bind (json_as_array v) (\<lambda>entries.
       map_option (\<lambda>pairs. om_put_all pairs om_empty)
         (those (map (\<lambda>entry. Option.bind (json_as_array entry) (\<lambda>pair.
            if length pair \<noteq> 2 then None
            else Option.bind (json_as_i64 (pair ! 0)) (\<lambda>i. Option.bind (json_as_u64 (pair ! 1)) (\<lambda>n. Some (i, n))))) entries)))"

definition statistics_of_json :: "json \<Rightarrow> SnapshotStatistics option" where
  "statistics_of_json v =
     Option.bind (Option.bind (json_get v (ascii ''version'')) json_as_u64) (\<lambda>version.
       if version \<noteq> 1 then None
       else
         Option.bind (Option.bind (json_get v (ascii ''nodes'')) json_as_u64) (\<lambda>nodes.
         Option.bind (Option.bind (json_get v (ascii ''relationships'')) json_as_u64) (\<lambda>relationships.
         Option.bind (Option.bind (json_get v (ascii ''labels'')) decode_counts) (\<lambda>labels.
         Option.bind (Option.bind (json_get v (ascii ''types'')) decode_counts) (\<lambda>types.
           Some \<lparr>node_count = nodes, relationship_count = relationships, label_counts = labels, type_counts = types\<rparr>)))))"

definition decode_statistics :: "serde_json \<Rightarrow> bytes \<Rightarrow> SnapshotStatistics option" where
  "decode_statistics J metadata = Option.bind (json_from_slice J metadata) statistics_of_json"

definition write_statistics :: "serde_json \<Rightarrow> hash_id \<Rightarrow> SnapshotStatistics \<Rightarrow> unit st" where
  "write_statistics J commit st =
     st_exec (\<lambda>d. Inr (case om_get (tb_checkpoints d) commit of None \<Rightarrow> d
       | Some (created_at, _) \<Rightarrow> d\<lparr>tb_checkpoints := om_put commit (created_at, Some (encode_statistics J st)) (tb_checkpoints d)\<rparr>))"

definition load_checkpoint_statistics :: "serde_json \<Rightarrow> database \<Rightarrow> hash_id \<Rightarrow> SnapshotStatistics option res" where
  "load_checkpoint_statistics J d commit =
     and_then (ok_or (om_get (tb_checkpoints d) commit) (Sqlite QueryReturnedNoRows)) (\<lambda>(_, metadata).
       Inr (Option.bind metadata (decode_statistics J)))"

section \<open>Replaying the layers\<close>

text \<open>The first-parent walk has no cycle check: it runs as long as there is a parent.\<close>

partial_function (option) first_parent_loop :: "database \<Rightarrow> hash_id option \<Rightarrow> i64 list \<Rightarrow> i64 list res option" where
  "first_parent_loop d current layers =
     (case current of
        None \<Rightarrow> Some (Inr layers)
      | Some commit \<Rightarrow>
          (case om_get (tb_commits d) commit of
             None \<Rightarrow> Some (Inl (Sqlite QueryReturnedNoRows))
           | Some row \<Rightarrow>
               (case cr_parent1 row of
                  None \<Rightarrow> first_parent_loop d None (layers @ [cr_layer_id row])
                | Some parent \<Rightarrow>
                    (case hash_from_slice parent of
                       Inl e \<Rightarrow> Some (Inl e)
                     | Inr parent \<Rightarrow> first_parent_loop d (Some parent) (layers @ [cr_layer_id row])))))"

declare first_parent_loop.simps [code]

definition first_parent_layers :: "database \<Rightarrow> hash_id \<Rightarrow> i64 list res option" where
  "first_parent_layers d commit = map_option (\<lambda>r. and_then r (\<lambda>layers. Inr (rev layers))) (first_parent_loop d (Some commit) [])"

text \<open>\<^verbatim>\<open>INSERT OR REPLACE\<close>: a row that violates a \<^verbatim>\<open>CHECK\<close> or \<^verbatim>\<open>NOT NULL\<close> constraint fails.\<close>

definition insert_or_replace :: "bool \<Rightarrow> 'k::linorder \<Rightarrow> 'v \<Rightarrow> ('k, 'v) omap \<Rightarrow> ('k, 'v) omap res" where
  "insert_or_replace ok k v t = (if ok then Inr (om_put k v t) else Inl (Sqlite ConstraintViolation))"

definition apply_layer_nodes :: "hash_id \<Rightarrow> i64 \<Rightarrow> database \<Rightarrow> (bytes \<times> i64, unit) omap" where
  "apply_layer_nodes commit layer d =
     fold (\<lambda>(node, _). insert_or_ignore (length commit = 32 \<and> node > 0) (commit, node) ())
       (filter (\<lambda>(_, p). p = 1) (layer_rows layer (tb_node_delta d)))
       (om_filter (\<lambda>(c, node) _. \<not> (c = commit \<and> om_get (tb_node_delta d) (layer, node) = Some 2)) (tb_cp_nodes d))"

definition apply_layer_labels :: "hash_id \<Rightarrow> i64 \<Rightarrow> database \<Rightarrow> (bytes \<times> i64 \<times> i64, unit) omap" where
  "apply_layer_labels commit layer d =
     fold (\<lambda>((node, label), _). insert_or_ignore (length commit = 32 \<and> node > 0 \<and> label > 0) (commit, node, label) ())
       (filter (\<lambda>(_, p). p = 1) (layer_rows layer (tb_label_delta d)))
       (om_filter (\<lambda>(c, key) _. \<not> (c = commit \<and> om_get (tb_label_delta d) (layer, key) = Some 2)) (tb_cp_labels d))"

definition apply_layer_relationships :: "hash_id \<Rightarrow> i64 \<Rightarrow> database \<Rightarrow> (bytes \<times> i64, RelationshipRow) omap res" where
  "apply_layer_relationships commit layer d =
     fold_res (\<lambda>(i, row, _). insert_or_replace
         (length commit = 32 \<and> i > 0 \<and> rr_source_id row > 0 \<and> rr_type_id row > 0 \<and> rr_target_id row > 0) (commit, i) row)
       (filter (\<lambda>(_, _, p). p = 1) (layer_rows layer (tb_rel_delta d)))
       (om_filter (\<lambda>(c, i) _. \<not> (c = commit \<and> (\<exists>row \<in> set_option (om_get (tb_rel_delta d) (layer, i)). snd row = 2))) (tb_cp_relationships d))"

definition apply_layer_properties :: "hash_id \<Rightarrow> i64 \<Rightarrow> database \<Rightarrow> (bytes \<times> i64 \<times> i64 \<times> i64, PropertyColumns) omap res" where
  "apply_layer_properties commit layer d =
     fold_res (\<lambda>((kind, owner, key), row) t.
         case pr_type_tag row of
           None \<Rightarrow> Inl (Sqlite ConstraintViolation)
         | Some tag \<Rightarrow> insert_or_replace
             (length commit = 32 \<and> (kind = 1 \<or> kind = 2) \<and> owner > 0 \<and> key > 0 \<and> 1 \<le> tag \<and> tag \<le> 14)
             (commit, kind, owner, key) (row_columns tag row) t)
       (filter (\<lambda>(_, row). pr_op row = 1) (layer_rows layer (tb_property_delta d)))
       (om_filter (\<lambda>(c, key) _. \<not> (c = commit \<and> (\<exists>row \<in> set_option (om_get (tb_property_delta d) (layer, key)). pr_op row = 2)))
          (tb_cp_properties d))"

definition checkpoint_apply_layer :: "hash_id \<Rightarrow> i64 \<Rightarrow> unit st" where
  "checkpoint_apply_layer commit layer =
     st_then (st_exec (\<lambda>d. Inr (d\<lparr>tb_cp_nodes := apply_layer_nodes commit layer d\<rparr>))) (\<lambda>_.
     st_then (st_exec (\<lambda>d. Inr (d\<lparr>tb_cp_labels := apply_layer_labels commit layer d\<rparr>))) (\<lambda>_.
     st_then (st_exec (\<lambda>d. and_then (apply_layer_relationships commit layer d) (\<lambda>t. Inr (d\<lparr>tb_cp_relationships := t\<rparr>)))) (\<lambda>_.
       st_exec (\<lambda>d. and_then (apply_layer_properties commit layer d) (\<lambda>t. Inr (d\<lparr>tb_cp_properties := t\<rparr>))))))"

section \<open>Checkpoints\<close>

definition checkpoint_exists :: "database \<Rightarrow> hash_id \<Rightarrow> bool" where
  "checkpoint_exists d commit = om_has (tb_checkpoints d) commit"

definition insert_checkpoint :: "i64 \<Rightarrow> hash_id \<Rightarrow> unit st" where
  "insert_checkpoint created_at commit =
     st_exec (\<lambda>d. and_then (insert_row (length commit = 32) commit (created_at, None) (tb_checkpoints d)) (\<lambda>t.
       Inr (d\<lparr>tb_checkpoints := t\<rparr>)))"

definition replay_layers :: "serde_json \<Rightarrow> hash_id \<Rightarrow> i64 list \<Rightarrow> unit st" where
  "replay_layers J commit layers =
     st_then (st_all (checkpoint_apply_layer commit) layers) (\<lambda>_.
     st_then (st_query (\<lambda>d. checkpoint_statistics d commit)) (\<lambda>statistics.
       write_statistics J commit statistics))"

text \<open>
  The savepoint holds the insertion, the walk and the replay; \<open>None\<close> stands for a walk that does not end.
\<close>

definition create_checkpoint :: "serde_json \<Rightarrow> i64 \<Rightarrow> hash_id \<Rightarrow> conn \<Rightarrow> (unit res \<times> conn) option" where
  "create_checkpoint J now commit c =
     (if checkpoint_exists (db c) commit then Some (Inr (), c)
      else
        (case insert_checkpoint now commit c of
           (Inl e, c1) \<Rightarrow> Some (with_savepoint (\<lambda>_. (Inl e, c1)) c)
         | (Inr _, c1) \<Rightarrow>
             (case first_parent_layers (db c1) commit of
                None \<Rightarrow> None
              | Some layers \<Rightarrow>
                  Some (with_savepoint (\<lambda>_. st_then (st_res layers) (replay_layers J commit) c1) c))))"

definition delete_checkpoint :: "hash_id \<Rightarrow> unit st" where
  "delete_checkpoint commit =
     with_savepoint
       (st_then (st_exec (\<lambda>d. Inr (d\<lparr>tb_cp_properties := om_filter (\<lambda>(c, _) _. c \<noteq> commit) (tb_cp_properties d)\<rparr>))) (\<lambda>_.
        st_then (st_exec (\<lambda>d. Inr (d\<lparr>tb_cp_relationships := om_filter (\<lambda>(c, _) _. c \<noteq> commit) (tb_cp_relationships d)\<rparr>))) (\<lambda>_.
        st_then (st_exec (\<lambda>d. Inr (d\<lparr>tb_cp_labels := om_filter (\<lambda>(c, _) _. c \<noteq> commit) (tb_cp_labels d)\<rparr>))) (\<lambda>_.
        st_then (st_exec (\<lambda>d. Inr (d\<lparr>tb_cp_nodes := om_filter (\<lambda>(c, _) _. c \<noteq> commit) (tb_cp_nodes d)\<rparr>))) (\<lambda>_.
          st_exec (\<lambda>d. Inr (d\<lparr>tb_checkpoints := om_del commit (tb_checkpoints d)\<rparr>)))))))"

end
