(* ===== verification/Checkpoint_Laws.thy ===== *)
theory Checkpoint_Laws
  imports Checkpoint
begin

text \<open>
  Replaying the layers of a history in SQL gives the graph of its commit, the statistics of a checkpoint are those of
  the graph, and creating or deleting a checkpoint changes nothing that is read.
\<close>

section \<open>The rows of a layer\<close>

lemma map_res_set_in: "map_res f xs = Inr ys \<Longrightarrow> x \<in> set xs \<Longrightarrow> \<exists>y \<in> set ys. f x = Inr y"
  by (induction xs arbitrary: ys) auto

lemma row_decoded:
  assumes "map_res (\<lambda>(k, r). dec k r) (layer_rows i t) = Inr (om_entries m)" "om_get t (i, k) = Some r"
  shows "\<exists>k' x. om_get m k' = Some x \<and> dec k r = Inr (k', x)"
proof -
  have "(k, r) \<in> set (layer_rows i t)" using assms(2) by (simp add: layer_rows_slice om_entries_iff)
  from map_res_set_in [OF assms(1) this] show ?thesis by (auto simp: om_entries_iff)
qed

lemma rows_map_option:
  assumes "map_res (\<lambda>(k, r). dec k r) (layer_rows i t) = Inr (om_entries m)"
    and "\<And>k r k' x. dec k r = Inr (k', x) \<Longrightarrow> k' = k \<and> r = enc x"
  shows "om_get t (i, n) = map_option enc (om_get m n)"
proof (cases "om_get t (i, n)")
  case None
  have "om_get m n \<noteq> Some x" for x
  proof
    assume "om_get m n = Some x"
    from decoded_row [OF assms(1) this] obtain k r where "om_get t (i, k) = Some r" "dec k r = Inr (n, x)" by blast
    with assms(2) [of k r n x] None show False by simp
  qed
  with None show ?thesis by (cases "om_get m n") auto
next
  case (Some r)
  from row_decoded [OF assms(1) this] obtain k x where "om_get m k = Some x" "dec n r = Inr (k, x)" by blast
  with assms(2) [of n r k x] Some show ?thesis by simp
qed

lemma op_i64_iff [simp]: "op_i64 p = 1 \<longleftrightarrow> p = Add" "op_i64 p = 2 \<longleftrightarrow> p = Remove"
  by (cases p; simp add: op_i64_def)+

lemma layer_row_nodes: "load_layer P d i = Inr l \<Longrightarrow> om_get (tb_node_delta d) (i, n) = map_option op_i64 (om_get (lb_nodes l) n)"
  by (rule rows_map_option [OF load_layer_rows(1)]) (auto simp: node_decode_def)

lemma layer_row_labels: "load_layer P d i = Inr l \<Longrightarrow> om_get (tb_label_delta d) (i, n) = map_option op_i64 (om_get (lb_labels l) n)"
  by (rule rows_map_option [OF load_layer_rows(2)]) (auto simp: label_decode_def)

lemma layer_row_relationships:
  "load_layer P d i = Inr l \<Longrightarrow> om_get (tb_rel_delta d) (i, n) = map_option relationship_row (om_get (lb_relationships l) n)"
  by (rule rows_map_option [OF load_layer_rows(3)])
     (auto simp: relationship_decode_def relationship_row_def relationship_from_row_def)

text \<open>A property row decodes under its key.\<close>

lemma layer_row_properties:
  assumes "load_layer P d i = Inr l"
  shows "om_get (tb_property_delta d) (i, k') = Some r \<Longrightarrow>
      \<exists>k x. k' = owner_key k \<and> om_get (lb_properties l) k = Some x \<and> snd (property_delta_from_row P r) = Inr x"
    and "om_get (lb_properties l) k = Some x \<Longrightarrow>
      \<exists>r. om_get (tb_property_delta d) (i, owner_key k) = Some r \<and> snd (property_delta_from_row P r) = Inr x"
proof -
  have dec: "a = owner_key k \<and> snd (property_delta_from_row P r) = Inr x" if "property_decode P a r = Inr (k, x)" for a r k x
    using that by (cases a) (auto simp: property_decode_def owner_key_def)
  show "om_get (tb_property_delta d) (i, k') = Some r \<Longrightarrow>
      \<exists>k x. k' = owner_key k \<and> om_get (lb_properties l) k = Some x \<and> snd (property_delta_from_row P r) = Inr x"
    using row_decoded [OF load_layer_rows(4) [OF assms]] dec by blast
  show "om_get (lb_properties l) k = Some x \<Longrightarrow>
      \<exists>r. om_get (tb_property_delta d) (i, owner_key k) = Some r \<and> snd (property_delta_from_row P r) = Inr x"
    using decoded_row [OF load_layer_rows(4) [OF assms]] dec by blast
qed

section \<open>Statements over sets of rows\<close>

lemma fold_insert_or_ignore:
  "om_get (fold (\<lambda>x. insert_or_ignore True (f x) ()) xs t) k = (if k \<in> f ` set xs then Some () else om_get t k)"
  by (induction xs arbitrary: t) (auto simp: insert_or_ignore_def om_has_def)

lemma fold_cong_ok:
  "(\<And>x. x \<in> set xs \<Longrightarrow> ok x) \<Longrightarrow> fold (\<lambda>x. insert_or_ignore (ok x) (f x) ()) xs t = fold (\<lambda>x. insert_or_ignore True (f x) ()) xs t"
  by (rule fold_cong) auto

lemma fold_res_replace:
  assumes "\<And>x t. x \<in> set xs \<Longrightarrow> g x t = Inr (om_put (f x) (v x) t)"
  shows "fold_res g xs t = Inr (om_put_all (map (\<lambda>x. (f x, v x)) xs) t)"
  using assms by (induction xs arbitrary: t) (auto simp: om_put_all_def)

lemma replay_ignore:
  assumes rows: "\<And>k. om_get rows k = map_option op_i64 (om_get m k)"
    and ok: "\<And>x. x \<in> set (filter (\<lambda>x. snd x = 1) (om_entries rows)) \<Longrightarrow> ok x"
  shows "om_get (fold (\<lambda>x. insert_or_ignore (ok x) (c, fst x) ()) (filter (\<lambda>x. snd x = 1) (om_entries rows))
      (om_filter (\<lambda>k _. \<not> (fst k = c \<and> om_get rows (snd k) = Some 2)) t)) (c', k) =
    (if c' = c then (case om_get m k of None \<Rightarrow> om_get t (c, k) | Some p \<Rightarrow> op_change p) else om_get t (c', k))"
proof -
  have mem: "(c', k) \<in> (\<lambda>x. (c, fst x)) ` set (filter (\<lambda>x. snd x = 1) (om_entries rows)) \<longleftrightarrow> c' = c \<and> om_get m k = Some Add"
    using rows [of k] by (force simp: om_entries_iff rows image_iff)
  have "fold (\<lambda>x. insert_or_ignore (ok x) (c, fst x) ()) (filter (\<lambda>x. snd x = 1) (om_entries rows)) t' =
      fold (\<lambda>x. insert_or_ignore True (c, fst x) ()) (filter (\<lambda>x. snd x = 1) (om_entries rows)) t'" for t'
    by (rule fold_cong_ok) (rule ok)
  moreover have "om_get (fold (\<lambda>x. insert_or_ignore True (c, fst x) ()) (filter (\<lambda>x. snd x = 1) (om_entries rows)) t') (c', k) =
      (if c' = c \<and> om_get m k = Some Add then Some () else om_get t' (c', k))" for t'
    unfolding mem [symmetric] by (rule fold_insert_or_ignore)
  ultimately show ?thesis
    using rows [of k] by (cases "om_get m k"; cases "the (om_get m k)") (auto simp: op_change_def om_get_filter split: option.split)
qed

lemma apply_layer_nodes_get:
  assumes "load_layer P d i = Inr l" "length c = 32" "om_all (\<lambda>n _. 0 < n) (lb_nodes l)"
  shows "om_get (apply_layer_nodes c i d) (c', n) =
    (if c' = c then (case om_get (lb_nodes l) n of None \<Rightarrow> om_get (tb_cp_nodes d) (c, n) | Some p \<Rightarrow> op_change p)
     else om_get (tb_cp_nodes d) (c', n))"
proof -
  let ?rows = "om_slice i (tb_node_delta d)"
  have rows: "om_get ?rows k = map_option op_i64 (om_get (lb_nodes l) k)" for k by (simp add: layer_row_nodes [OF assms(1)])
  have ok: "length c = 32 \<and> 0 < fst x" if "x \<in> set (filter (\<lambda>x. snd x = 1) (om_entries ?rows))" for x
  proof -
    obtain n p where "x = (n, p)" by (metis prod.collapse)
    with that assms(2,3) show ?thesis by (auto simp: om_entries_iff layer_row_nodes [OF assms(1)] om_all_iff)
  qed
  show ?thesis
    unfolding apply_layer_nodes_def case_prod_unfold om_get_slice [of i "tb_node_delta d", symmetric] layer_rows_slice
    by (rule replay_ignore [OF rows ok])
qed

lemma apply_layer_labels_get:
  assumes "load_layer P d i = Inr l" "length c = 32" "om_all (\<lambda>(n, k) _. 0 < n \<and> 0 < k) (lb_labels l)"
  shows "om_get (apply_layer_labels c i d) (c', n) =
    (if c' = c then (case om_get (lb_labels l) n of None \<Rightarrow> om_get (tb_cp_labels d) (c, n) | Some p \<Rightarrow> op_change p)
     else om_get (tb_cp_labels d) (c', n))"
proof -
  let ?rows = "om_slice i (tb_label_delta d)"
  have rows: "om_get ?rows k = map_option op_i64 (om_get (lb_labels l) k)" for k by (simp add: layer_row_labels [OF assms(1)])
  have ok: "length c = 32 \<and> 0 < fst (fst x) \<and> 0 < snd (fst x)" if "x \<in> set (filter (\<lambda>x. snd x = 1) (om_entries ?rows))" for x
  proof -
    obtain n k p where "x = ((n, k), p)" by (metis prod.collapse)
    with that assms(2,3) show ?thesis by (auto simp: om_entries_iff layer_row_labels [OF assms(1)] om_all_iff)
  qed
  show ?thesis
    unfolding apply_layer_labels_def case_prod_unfold om_get_slice [of i "tb_label_delta d", symmetric] layer_rows_slice prod.collapse
    by (rule replay_ignore [OF rows ok])
qed

text \<open>Replacing insertions, whose rows carry columns.\<close>

lemma replay_replace:
  assumes "\<And>x t. x \<in> set xs \<Longrightarrow> g x t = Inr (om_put (c, fst x) (w x) t)" "distinct (map fst xs)"
  shows "\<exists>t'. fold_res g xs (om_filter (\<lambda>k _. \<not> (fst k = c \<and> gone (snd k))) t) = Inr t'
    \<and> (\<forall>c' k. om_get t' (c', k) =
        (if c' = c then (case map_of xs k of Some v \<Rightarrow> Some (w (k, v)) | None \<Rightarrow> if gone k then None else om_get t (c, k))
         else om_get t (c', k)))"
proof -
  let ?kvs = "map (\<lambda>x. ((c, fst x), w x)) xs" and ?t = "om_filter (\<lambda>k _. \<not> (fst k = c \<and> gone (snd k))) t"
  have "fold_res g xs ?t = Inr (om_put_all ?kvs ?t)" by (rule fold_res_replace [OF assms(1)])
  moreover have "distinct (map fst ?kvs)" using assms(2) by (auto simp: o_def distinct_map inj_on_def)
  then have "map_of (rev ?kvs) = map_of ?kvs" by (simp add: map_of_rev)
  moreover have "map_of ?kvs (c', k) = (if c' = c then map_option (\<lambda>v. w (k, v)) (map_of xs k) else None)" for c' k
    by (induction xs) auto
  ultimately show ?thesis
    by (auto simp: om_get_put_all map_add_def om_get_filter split: option.splits)
qed


lemma map_of_filter_entries:
  "map_of (filter (\<lambda>x. Q (snd x)) (om_entries m)) k = (case om_get m k of None \<Rightarrow> None | Some v \<Rightarrow> if Q v then Some v else None)"
proof -
  have "filter (\<lambda>x. Q (snd x)) (om_entries m) = om_entries (om_filter (\<lambda>_. Q) m)"
    by (simp add: om_filter.rep_eq case_prod_unfold)
  then have "map_of (filter (\<lambda>x. Q (snd x)) (om_entries m)) k = om_get (om_filter (\<lambda>_. Q) m) k" by (simp add: om_get_def)
  then show ?thesis by (simp add: om_get_filter)
qed

lemma distinct_filter_entries: "distinct (map fst (filter (\<lambda>x. Q (snd x)) (om_entries m)))"
  by (intro distinct_map_filter) (simp add: om_keys_def [symmetric])

lemma apply_layer_relationships_get:
  assumes "load_layer P d i = Inr l" "length c = 32" "wf_layer l"
  shows "\<exists>t. apply_layer_relationships c i d = Inr t \<and> (\<forall>c' n. om_get t (c', n) =
    (if c' = c then (case om_get (lb_relationships l) n of None \<Rightarrow> om_get (tb_cp_relationships d) (c, n)
                     | Some x \<Rightarrow> map_option relationship_columns (relationship_change x))
     else om_get (tb_cp_relationships d) (c', n)))"
proof -
  let ?rows = "om_slice i (tb_rel_delta d)"
  let ?xs = "filter (\<lambda>x. snd (snd x) = 1) (om_entries ?rows)"
  let ?gone = "\<lambda>k. \<exists>row \<in> set_option (om_get (tb_rel_delta d) (i, k)). snd row = 2"
  have rows: "om_get ?rows k = map_option relationship_row (om_get (lb_relationships l) k)" for k
    by (simp add: layer_row_relationships [OF assms(1)])
  have ok: "insert_or_replace (length c = 32 \<and> 0 < fst x \<and> 0 < rr_source_id (fst (snd x)) \<and> 0 < rr_type_id (fst (snd x))
      \<and> 0 < rr_target_id (fst (snd x))) (c, fst x) (fst (snd x)) t = Inr (om_put (c, fst x) (fst (snd x)) t)" if "x \<in> set ?xs" for x t
  proof -
    obtain n r where x: "x = (n, r)" by (metis prod.collapse)
    with that rows [of n] obtain delta where "om_get (lb_relationships l) n = Some delta" "r = relationship_row delta"
      by (auto simp: om_entries_iff layer_row_relationships [OF assms(1)])
    with assms(2,3) x show ?thesis
      by (auto simp: insert_or_replace_def wf_layer_iff om_all_iff wf_relationship_def id_ok_def relationship_row_def)
  qed
  have "apply_layer_relationships c i d = fold_res (\<lambda>x. insert_or_replace (length c = 32 \<and> 0 < fst x \<and> 0 < rr_source_id (fst (snd x))
      \<and> 0 < rr_type_id (fst (snd x)) \<and> 0 < rr_target_id (fst (snd x))) (c, fst x) (fst (snd x))) ?xs
      (om_filter (\<lambda>k _. \<not> (fst k = c \<and> ?gone (snd k))) (tb_cp_relationships d))"
    by (simp add: apply_layer_relationships_def case_prod_unfold layer_rows_slice)
  moreover obtain t' where t': "fold_res (\<lambda>x. insert_or_replace (length c = 32 \<and> 0 < fst x \<and> 0 < rr_source_id (fst (snd x))
      \<and> 0 < rr_type_id (fst (snd x)) \<and> 0 < rr_target_id (fst (snd x))) (c, fst x) (fst (snd x))) ?xs
      (om_filter (\<lambda>k _. \<not> (fst k = c \<and> ?gone (snd k))) (tb_cp_relationships d)) = Inr t'"
    "\<And>c' k. om_get t' (c', k) =
        (if c' = c then (case map_of ?xs k of Some v \<Rightarrow> Some (fst (snd (k, v))) | None \<Rightarrow> if ?gone k then None else om_get (tb_cp_relationships d) (c, k))
         else om_get (tb_cp_relationships d) (c', k))"
    using replay_replace [where c = c and xs = ?xs and w = "\<lambda>x. fst (snd x)" and gone = ?gone and t = "tb_cp_relationships d",
        OF ok distinct_filter_entries [where Q = "\<lambda>v. snd v = 1"]] by blast
  moreover have "(case map_of ?xs k of Some v \<Rightarrow> Some (fst (snd (k, v))) | None \<Rightarrow> if ?gone k then None else om_get (tb_cp_relationships d) (c, k)) =
      (case om_get (lb_relationships l) k of None \<Rightarrow> om_get (tb_cp_relationships d) (c, k)
       | Some x \<Rightarrow> map_option relationship_columns (relationship_change x))" for k
    unfolding map_of_filter_entries [where Q = "\<lambda>v. snd v = 1"] rows
    by (cases "om_get (lb_relationships l) k"; cases "rd_op (the (om_get (lb_relationships l) k))")
       (auto simp: layer_row_relationships [OF assms(1)] relationship_row_def relationship_change_def relationship_columns_def)
  ultimately show ?thesis by auto
qed

lemma apply_layer_properties_get:
  assumes "load_layer P d i = Inr l" "length c = 32" "wf_layer l"
  shows "\<exists>t. apply_layer_properties c i d = Inr t
    \<and> (\<forall>c' k. c' \<noteq> c \<or> k \<notin> range owner_key \<longrightarrow> om_get t (c', k) = om_get (tb_cp_properties d) (c', k))
    \<and> (\<forall>k. case om_get (lb_properties l) k of
          None \<Rightarrow> om_get t (c, owner_key k) = om_get (tb_cp_properties d) (c, owner_key k)
        | Some x \<Rightarrow> (case pd_value x of None \<Rightarrow> om_get t (c, owner_key k) = None
            | Some v \<Rightarrow> \<exists>row. om_get t (c, owner_key k) = Some row \<and> snd (property_from_row P row) = Inr v))"
proof -
  let ?rows = "om_slice i (tb_property_delta d)"
  let ?xs = "filter (\<lambda>x. pr_op (snd x) = 1) (om_entries ?rows)"
  let ?gone = "\<lambda>k. \<exists>row \<in> set_option (om_get (tb_property_delta d) (i, k)). pr_op row = 2"
  let ?w = "\<lambda>x. row_columns (the (pr_type_tag (snd x))) (snd x)"
  let ?g = "\<lambda>x t. case pr_type_tag (snd x) of
           None \<Rightarrow> Inl (Sqlite ConstraintViolation)
         | Some tag \<Rightarrow> insert_or_replace
             (length c = 32 \<and> (fst (fst x) = 1 \<or> fst (fst x) = 2) \<and> fst (snd (fst x)) > 0 \<and> snd (snd (fst x)) > 0 \<and> 1 \<le> tag \<and> tag \<le> 14)
             (c, fst x) (row_columns tag (snd x)) t"
  have set_row: "\<exists>tag v. pr_type_tag r = Some tag \<and> snd (property_from_row P (row_columns tag r)) = Inr v \<and> x = \<lparr>pd_op = Add, pd_value = Some v\<rparr>
      \<and> 1 \<le> tag \<and> tag \<le> 14" if dec: "snd (property_delta_from_row P r) = Inr x" "pr_op r = 1" for r x
  proof -
    obtain tag v where tv: "pr_type_tag r = Some tag" "snd (property_from_row P (row_columns tag r)) = Inr v" "x = \<lparr>pd_op = Add, pd_value = Some v\<rparr>"
      using dec by (auto simp: property_delta_from_row_def op_from_i64_def)
    have "type_tag v = tag" using to_value_tag [OF property_from_row_Inr [OF tv(2)]] by (simp add: row_columns_def)
    then have "1 \<le> tag \<and> tag \<le> 14" by (cases v) (auto simp: type_tag_def)
    with tv show ?thesis by blast
  qed
  have gone_row: "pd_op x = Remove \<and> pd_value x = None" if "snd (property_delta_from_row P r) = Inr x" "pr_op r \<noteq> 1" for r x
    using that by (cases "pd_op x") (auto simp: property_delta_from_row_def op_from_i64_def split: if_splits)
  have ok: "?g x t = Inr (om_put (c, fst x) (?w x) t)" if "x \<in> set ?xs" for x t
  proof -
    obtain k' r where x: "x = (k', r)" by (metis prod.collapse)
    with that have r: "om_get (tb_property_delta d) (i, k') = Some r" "pr_op r = 1" by (auto simp: om_entries_iff)
    obtain k y where k: "k' = owner_key k" "om_get (lb_properties l) k = Some y" "snd (property_delta_from_row P r) = Inr y"
      using layer_row_properties(1) [OF assms(1) r(1)] by blast
    obtain kind owner key where key: "k = (kind, owner, key)" by (metis prod.collapse)
    have "0 < owner" "0 < key" using assms(3) k(2) key unfolding wf_layer_iff om_all_iff id_ok_def by fastforce+
    with set_row [OF k(3) r(2)] x k(1) key assms(2) show ?thesis
      by (cases kind) (auto simp: insert_or_replace_def owner_key_def owner_i64_def)
  qed
  have run: "apply_layer_properties c i d = fold_res ?g ?xs (om_filter (\<lambda>k _. \<not> (fst k = c \<and> ?gone (snd k))) (tb_cp_properties d))"
    unfolding apply_layer_properties_def case_prod_unfold layer_rows_slice prod.collapse by (rule refl)
  obtain t where t: "fold_res ?g ?xs (om_filter (\<lambda>k _. \<not> (fst k = c \<and> ?gone (snd k))) (tb_cp_properties d)) = Inr t"
    "\<And>c' k. om_get t (c', k) =
        (if c' = c then (case map_of ?xs k of Some v \<Rightarrow> Some (?w (k, v)) | None \<Rightarrow> if ?gone k then None else om_get (tb_cp_properties d) (c, k))
         else om_get (tb_cp_properties d) (c', k))"
    using replay_replace [where c = c and xs = ?xs and w = ?w and gone = ?gone and t = "tb_cp_properties d" and g = ?g,
        OF ok distinct_filter_entries [where Q = "\<lambda>v. pr_op v = 1"]] by blast
  note xs = map_of_filter_entries [where Q = "\<lambda>v. pr_op v = 1" and m = ?rows]
  have outside: "om_get (tb_property_delta d) (i, k) = None" if "k \<notin> range owner_key" for k
    using layer_row_properties(1) [OF assms(1), of k] that by (cases "om_get (tb_property_delta d) (i, k)") auto
  have elsewhere: "om_get t (c', k) = om_get (tb_cp_properties d) (c', k)" if "c' \<noteq> c \<or> k \<notin> range owner_key" for c' k
    using that outside [of k] by (cases "c' = c") (auto simp: t(2) xs)
  have slots: "case om_get (lb_properties l) k of
          None \<Rightarrow> om_get t (c, owner_key k) = om_get (tb_cp_properties d) (c, owner_key k)
        | Some x \<Rightarrow> (case pd_value x of None \<Rightarrow> om_get t (c, owner_key k) = None
            | Some v \<Rightarrow> \<exists>row. om_get t (c, owner_key k) = Some row \<and> snd (property_from_row P row) = Inr v)" for k
  proof (cases "om_get (lb_properties l) k")
    case None
    then have "om_get (tb_property_delta d) (i, owner_key k) = None"
      using layer_row_properties(1) [OF assms(1), of "owner_key k"] injD [OF owner_key_inj]
      by (cases "om_get (tb_property_delta d) (i, owner_key k)") fastforce+
    with None show ?thesis by (simp add: t(2) xs)
  next
    case (Some x)
    then obtain r where r: "om_get (tb_property_delta d) (i, owner_key k) = Some r" "snd (property_delta_from_row P r) = Inr x"
      using layer_row_properties(2) [OF assms(1)] by blast
    show ?thesis
    proof (cases "pr_op r = 1")
      case True
      from set_row [OF r(2) True] r(1) True Some show ?thesis by (auto simp: t(2) xs)
    next
      case False
      then have "pr_op r = 2" using r(2) by (auto simp: property_delta_from_row_def op_from_i64_def split: if_splits)
      with gone_row [OF r(2) False] r(1) Some show ?thesis by (simp add: t(2) xs)
    qed
  qed
  have "apply_layer_properties c i d = Inr t" using run t(1) by (rule trans)
  then show ?thesis by (intro exI [of _ t] conjI allI impI) (assumption, erule elsewhere, rule slots)
qed


section \<open>One layer, and a history\<close>

lemma checkpoint_properties_iff:
  "checkpoint_properties_hold P t m \<longleftrightarrow>
     (\<forall>k. case om_get t (owner_key k) of None \<Rightarrow> om_get m k = None
         | Some row \<Rightarrow> \<exists>v. om_get m k = Some v \<and> snd (property_from_row P row) = Inr v)
   \<and> (\<forall>k. k \<notin> range owner_key \<longrightarrow> om_get t k = None)"
proof
  assume "checkpoint_properties_hold P t m"
  then obtain f where f: "t = om_graft owner_key f m om_empty" "om_all (\<lambda>k v. snd (property_from_row P (f k v)) = Inr v) m"
    by (auto simp: checkpoint_properties_hold_def)
  then show "(\<forall>k. case om_get t (owner_key k) of None \<Rightarrow> om_get m k = None
         | Some row \<Rightarrow> \<exists>v. om_get m k = Some v \<and> snd (property_from_row P row) = Inr v)
   \<and> (\<forall>k. k \<notin> range owner_key \<longrightarrow> om_get t k = None)"
    using om_allD [OF f(2)] by (auto simp: om_get_graft [OF owner_key_inj] split: option.splits)
next
  assume r: "(\<forall>k. case om_get t (owner_key k) of None \<Rightarrow> om_get m k = None
         | Some row \<Rightarrow> \<exists>v. om_get m k = Some v \<and> snd (property_from_row P row) = Inr v)
   \<and> (\<forall>k. k \<notin> range owner_key \<longrightarrow> om_get t k = None)"
  let ?f = "\<lambda>k v. the (om_get t (owner_key k))"
  have "t = om_graft owner_key ?f m om_empty"
  proof (rule om_ext, rule ext)
    show "om_get t k = om_get (om_graft owner_key ?f m om_empty) k" for k
    proof (cases "k \<in> range owner_key")
      case True
      then obtain k' where k: "k = owner_key k'" by blast
      have "case om_get t (owner_key k') of None \<Rightarrow> om_get m k' = None
         | Some row \<Rightarrow> \<exists>v. om_get m k' = Some v \<and> snd (property_from_row P row) = Inr v" using r by blast
      then show ?thesis by (auto simp: k om_get_graft(1) [OF owner_key_inj] split: option.splits)
    next
      case False
      then have "om_get t k = None" using r by blast
      with False show ?thesis by (simp add: om_get_graft(2) [OF owner_key_inj])
    qed
  qed
  moreover have "snd (property_from_row P (?f k v)) = Inr v" if "om_get m k = Some v" for k v
  proof -
    have "case om_get t (owner_key k) of None \<Rightarrow> om_get m k = None
         | Some row \<Rightarrow> \<exists>v. om_get m k = Some v \<and> snd (property_from_row P row) = Inr v" using r by blast
    with that show ?thesis by (auto split: option.splits)
  qed
  ultimately show "checkpoint_properties_hold P t m"
    unfolding checkpoint_properties_hold_def by (intro exI [of _ ?f]) (simp add: om_all_iff)
qed

text \<open>Only the rows of one checkpoint have changed.\<close>

definition cp_frame :: "hash_id \<Rightarrow> database \<Rightarrow> database \<Rightarrow> bool" where
  "cp_frame c d d' \<longleftrightarrow>
     d' = d\<lparr>tb_cp_nodes := tb_cp_nodes d', tb_cp_labels := tb_cp_labels d', tb_cp_relationships := tb_cp_relationships d',
           tb_cp_properties := tb_cp_properties d'\<rparr>
   \<and> (\<forall>a. a \<noteq> c \<longrightarrow> om_slice a (tb_cp_nodes d') = om_slice a (tb_cp_nodes d)
        \<and> om_slice a (tb_cp_labels d') = om_slice a (tb_cp_labels d)
        \<and> om_slice a (tb_cp_relationships d') = om_slice a (tb_cp_relationships d)
        \<and> om_slice a (tb_cp_properties d') = om_slice a (tb_cp_properties d))"

lemma cp_frame_refl: "cp_frame c d d"
  by (simp add: cp_frame_def)

lemma cp_frame_trans:
  assumes "cp_frame c d d'" "cp_frame c d' d''"
  shows "cp_frame c d d''"
proof -
  have "d'' = d\<lparr>tb_cp_nodes := tb_cp_nodes d'', tb_cp_labels := tb_cp_labels d'', tb_cp_relationships := tb_cp_relationships d'',
           tb_cp_properties := tb_cp_properties d''\<rparr>"
    using assms unfolding cp_frame_def by (cases d; cases d'; cases d'') simp
  moreover have "\<forall>a. a \<noteq> c \<longrightarrow> om_slice a (tb_cp_nodes d'') = om_slice a (tb_cp_nodes d)
        \<and> om_slice a (tb_cp_labels d'') = om_slice a (tb_cp_labels d)
        \<and> om_slice a (tb_cp_relationships d'') = om_slice a (tb_cp_relationships d)
        \<and> om_slice a (tb_cp_properties d'') = om_slice a (tb_cp_properties d)"
    using assms unfolding cp_frame_def by simp
  ultimately show ?thesis unfolding cp_frame_def by blast
qed

lemma cp_frame_same_layer: "cp_frame c d d' \<Longrightarrow> same_layer d d' i"
  unfolding cp_frame_def same_layer_def by (cases d; cases d') simp

lemma checkpoint_step:
  assumes "load_layer P (db cn) i = Inr l" "length c = 32" "wf_layer l" "checkpoint_holds P (db cn) c g"
  shows "\<exists>cn'. checkpoint_apply_layer c i cn = (Inr (), cn') \<and> checkpoint_holds P (db cn') c (apply_layer l g) \<and> cp_frame c (db cn) (db cn')"
proof -
  let ?d = "db cn"
  obtain t u where t: "apply_layer_relationships c i ?d = Inr t" "\<And>c' n. om_get t (c', n) =
    (if c' = c then (case om_get (lb_relationships l) n of None \<Rightarrow> om_get (tb_cp_relationships ?d) (c, n)
                     | Some x \<Rightarrow> map_option relationship_columns (relationship_change x))
     else om_get (tb_cp_relationships ?d) (c', n))"
    and u: "apply_layer_properties c i ?d = Inr u"
      "\<And>c' k. c' \<noteq> c \<or> k \<notin> range owner_key \<Longrightarrow> om_get u (c', k) = om_get (tb_cp_properties ?d) (c', k)"
      "\<And>k. case om_get (lb_properties l) k of
          None \<Rightarrow> om_get u (c, owner_key k) = om_get (tb_cp_properties ?d) (c, owner_key k)
        | Some x \<Rightarrow> (case pd_value x of None \<Rightarrow> om_get u (c, owner_key k) = None
            | Some v \<Rightarrow> \<exists>row. om_get u (c, owner_key k) = Some row \<and> snd (property_from_row P row) = Inr v)"
    using apply_layer_relationships_get [OF assms(1-3)] apply_layer_properties_get [OF assms(1-3)] by blast
  let ?d' = "?d\<lparr>tb_cp_nodes := apply_layer_nodes c i ?d, tb_cp_labels := apply_layer_labels c i ?d, tb_cp_relationships := t, tb_cp_properties := u\<rparr>"
  have "apply_layer_labels c i (?d\<lparr>tb_cp_nodes := a\<rparr>) = apply_layer_labels c i ?d"
    "apply_layer_relationships c i (?d\<lparr>tb_cp_nodes := a, tb_cp_labels := b\<rparr>) = apply_layer_relationships c i ?d"
    "apply_layer_properties c i (?d\<lparr>tb_cp_nodes := a, tb_cp_labels := b, tb_cp_relationships := e\<rparr>) = apply_layer_properties c i ?d" for a b e
    by (simp_all add: apply_layer_labels_def apply_layer_relationships_def apply_layer_properties_def)
  then have run: "checkpoint_apply_layer c i cn = (Inr (), cn\<lparr>db := ?d'\<rparr>)"
    using t(1) u(1) by (simp add: checkpoint_apply_layer_def)
  have pos: "om_all (\<lambda>n _. 0 < n) (lb_nodes l)" "om_all (\<lambda>(n, k) _. 0 < n \<and> 0 < k) (lb_labels l)"
    using assms(3) by (auto simp: wf_layer_iff om_all_iff id_ok_def)
  note nodes = apply_layer_nodes_get [OF assms(1,2) pos(1)] and labels = apply_layer_labels_get [OF assms(1,2) pos(2)]
  have frame: "cp_frame c ?d ?d'"
    unfolding cp_frame_def
    by (auto intro!: om_ext simp: fun_eq_iff nodes labels t(2) u(2))
  have ids: "om_all (\<lambda>i r. rel_id r = i) (g_relationships (apply_layer l g))"
    using assms(3,4) by (auto simp: checkpoint_holds_def om_all_iff apply_layer_get relationship_change_def wf_layer_iff split: option.splits if_splits)
  have "om_slice c (tb_cp_nodes ?d') = g_nodes (apply_layer l g)" "om_slice c (tb_cp_labels ?d') = g_labels (apply_layer l g)"
    by (rule om_ext; force simp: fun_eq_iff nodes labels apply_layer_get checkpoint_get [OF assms(4)] split: option.split)+
  moreover have "om_slice c (tb_cp_relationships ?d') = om_map (\<lambda>_. relationship_columns) (g_relationships (apply_layer l g))"
    by (rule om_ext) (simp add: fun_eq_iff t(2) om_get_map apply_layer_get checkpoint_get [OF assms(4)] split: option.split)
  moreover have "checkpoint_properties_hold P (om_slice c (tb_cp_properties ?d')) (g_properties (apply_layer l g))"
    unfolding checkpoint_properties_iff
  proof (intro conjI allI impI)
    fix k :: "OwnerKind \<times> i64 \<times> i64"
    show "case om_get (om_slice c (tb_cp_properties ?d')) (owner_key k) of None \<Rightarrow> om_get (g_properties (apply_layer l g)) k = None
         | Some row \<Rightarrow> \<exists>v. om_get (g_properties (apply_layer l g)) k = Some v \<and> snd (property_from_row P row) = Inr v"
      using u(3) [of k] checkpoint_property_row [OF assms(4), of k] by (auto simp: apply_layer_get split: option.splits)
  next
    fix k :: "i64 \<times> i64 \<times> i64"
    assume k: "k \<notin> range owner_key"
    then have "om_get (tb_cp_properties ?d) (c, k) = None"
      using assms(4) unfolding checkpoint_holds_def checkpoint_properties_iff by (metis om_get_slice)
    with k show "om_get (om_slice c (tb_cp_properties ?d')) k = None" by (simp add: u(2))
  qed
  ultimately have "checkpoint_holds P ?d' c (apply_layer l g)" using ids by (simp add: checkpoint_holds_def)
  with run frame show ?thesis by simp
qed

lemma replay_history:
  assumes "map_res (load_layer P (db cn)) ids = Inr ls" "length c = 32" "list_all wf_layer ls" "checkpoint_holds P (db cn) c g"
  shows "\<exists>cn'. st_all (checkpoint_apply_layer c) ids cn = (Inr (), cn') \<and> checkpoint_holds P (db cn') c (fold apply_layer ls g)
    \<and> cp_frame c (db cn) (db cn')"
  using assms(1,3,4)
proof (induction ids arbitrary: cn ls g)
  case Nil
  then show ?case by (simp add: cp_frame_refl)
next
  case (Cons i ids)
  then obtain l ls' where l: "load_layer P (db cn) i = Inr l" "map_res (load_layer P (db cn)) ids = Inr ls'" "ls = l # ls'" by auto
  then obtain cn1 where cn1: "checkpoint_apply_layer c i cn = (Inr (), cn1)" "checkpoint_holds P (db cn1) c (apply_layer l g)"
    "cp_frame c (db cn) (db cn1)"
    using checkpoint_step [OF l(1) assms(2) _ Cons.prems(3)] Cons.prems(2) by auto
  have "load_layer P (db cn1) = load_layer P (db cn)"
    by (rule ext) (rule same_layer_load [OF cp_frame_same_layer [OF cn1(3)]])
  with Cons.IH [of cn1 ls' "apply_layer l g"] l(2,3) Cons.prems(2) cn1 show ?case
    by (auto intro: cp_frame_trans)
qed

lemma first_parent_history:
  assumes "commit_graph P d c g"
  shows "\<exists>ids ls. first_parent_loop d (Some c) acc = Some (Inr (acc @ ids)) \<and> map_res (load_layer P d) (rev ids) = Inr ls
    \<and> fold apply_layer ls empty_graph = g"
  using assms
proof (induction arbitrary: acc rule: commit_graph.induct)
  case (root c row l)
  then obtain cr where "om_get (tb_commits d) c = Some cr" "cr_parent1 cr = None" "cr_layer_id cr = lr_layer_id row"
    by (auto simp: load_lineage_row_def split: option.splits)
  then have "first_parent_loop d (Some c) acc = Some (Inr (acc @ [lr_layer_id row]))"
    by (simp add: first_parent_loop.simps [of d "Some c"] first_parent_loop.simps [of d None])
  with root show ?case by (intro exI [of _ "[lr_layer_id row]"] exI [of _ "[l]"]) simp
next
  case (child c row p l g)
  then obtain cr q where "om_get (tb_commits d) c = Some cr" "cr_parent1 cr = Some q" "hash_from_slice q = Inr p"
    "cr_layer_id cr = lr_layer_id row"
    by (auto simp: load_lineage_row_def split: option.splits)
  then have "first_parent_loop d (Some c) acc = first_parent_loop d (Some p) (acc @ [lr_layer_id row])"
    by (simp add: first_parent_loop.simps [of d "Some c"])
  moreover obtain ids ls where "first_parent_loop d (Some p) (acc @ [lr_layer_id row]) = Some (Inr ((acc @ [lr_layer_id row]) @ ids))"
    "map_res (load_layer P d) (rev ids) = Inr ls" "fold apply_layer ls empty_graph = g"
    using child.IH by blast
  ultimately show ?case
    using child.hyps(3) by (intro exI [of _ "lr_layer_id row # ids"] exI [of _ "ls @ [l]"]) (simp add: map_res_append)
qed

end
