(* ===== verification/Checkpoint_Theorems.thy ===== *)
theory Checkpoint_Theorems
  imports Checkpoint_Laws
begin

text \<open>
  The theorems on checkpoints: creating one always ends, stores the graph of its commit with the counts of its
  elements and keeps the store; deleting it brings back the database there was.
\<close>

section \<open>Statistics\<close>

definition counts_of :: "i64 list \<Rightarrow> (i64, nat) omap" where
  "counts_of ids = om_put_all (map (\<lambda>i. (i, length (filter ((=) i) ids))) (remdups ids)) om_empty"

definition graph_statistics :: "graph \<Rightarrow> SnapshotStatistics" where
  "graph_statistics g =
     \<lparr>node_count = om_size (g_nodes g), relationship_count = om_size (g_relationships g),
      label_counts = counts_of (map snd (om_keys (g_labels g))), type_counts = counts_of (map type_id (om_values (g_relationships g)))\<rparr>"

lemma grouped_counts_ok: "grouped_counts ids = Inr (counts_of ids)"
proof -
  have "fold_res (\<lambda>(i, n) counts. and_then (count_u64 n e) (\<lambda>n. Inr (om_put i n counts))) (map (\<lambda>i. (i, int (f i))) xs) t =
      Inr (om_put_all (map (\<lambda>i. (i, f i)) xs) t)" for e f xs and t :: "(i64, nat) omap"
    by (induction xs arbitrary: t) (auto simp: count_u64_def om_put_all_def)
  then show ?thesis by (simp add: grouped_counts_def group_rows_def counts_of_def)
qed

lemma checkpoint_statistics_ok:
  assumes "checkpoint_holds P d c g"
  shows "checkpoint_statistics d c = Inr (graph_statistics g)"
proof -
  have nodes: "om_slice c (tb_cp_nodes d) = g_nodes g" and labels: "om_slice c (tb_cp_labels d) = g_labels g"
    and rels: "om_slice c (tb_cp_relationships d) = om_map (\<lambda>_. relationship_columns) (g_relationships g)"
    using assms by (simp_all add: checkpoint_holds_def)
  have "map (\<lambda>((_, label), _). label) (commit_rows c (tb_cp_labels d)) = map snd (om_keys (g_labels g))"
    by (simp add: commit_rows_def labels om_keys_def case_prod_unfold)
  moreover have "map (\<lambda>(_, row). rr_type_id row) (commit_rows c (tb_cp_relationships d)) = map type_id (om_values (g_relationships g))"
    by (simp add: commit_rows_def rels om_map.rep_eq om_values_def case_prod_unfold relationship_columns_def)
  ultimately show ?thesis
    by (simp add: checkpoint_statistics_def graph_statistics_def grouped_counts_ok count_u64_def commit_rows_def nodes rels
        om_map.rep_eq om_size_def)
qed

text \<open>Statistics that fit the integers of the JSON reader.\<close>

definition statistics_fit :: "SnapshotStatistics \<Rightarrow> bool" where
  "statistics_fit st \<longleftrightarrow> node_count st < 2 ^ 64 \<and> relationship_count st < 2 ^ 64
     \<and> om_all (\<lambda>i n. in_i64 i \<and> n < 2 ^ 64) (label_counts st) \<and> om_all (\<lambda>i n. in_i64 i \<and> n < 2 ^ 64) (type_counts st)"

lemma decode_encode_counts:
  assumes "om_all (\<lambda>i n. in_i64 i \<and> n < 2 ^ 64) m"
  shows "decode_counts (JArray (encode_counts m)) = Some m"
proof -
  have "those (map (\<lambda>entry. Option.bind (json_as_array entry) (\<lambda>pair.
            if length pair \<noteq> 2 then None
            else Option.bind (json_as_i64 (pair ! 0)) (\<lambda>i. Option.bind (json_as_u64 (pair ! 1)) (\<lambda>n. Some (i, n)))))
          (map (\<lambda>(i, n). JArray [JNumber i, JNumber (int n)]) kvs)) = Some kvs"
    if "\<forall>(i, n) \<in> set kvs. in_i64 i \<and> n < 2 ^ 64" for kvs
    using that by (induction kvs) (auto simp: json_as_array_def json_as_i64_def json_as_u64_def)
  moreover have "\<forall>(i, n) \<in> set (om_entries m). in_i64 i \<and> n < 2 ^ 64" using assms by (auto simp: om_all_def list_all_iff)
  ultimately show ?thesis
    by (simp add: decode_counts_def encode_counts_def json_as_array_def om_put_all_entries)
qed

lemma statistics_round_trip: "statistics_fit st \<Longrightarrow> statistics_of_json (statistics_json st) = Some st"
proof -
  have get: "json_get (json_object kvs) k = map_of (rev kvs) k" for kvs k
    using om_get_put_all [of kvs om_empty] by (simp add: json_object_def json_get_def om_get_def [symmetric] om_empty.rep_eq fun_eq_iff map_add_def split: option.splits) 
  assume "statistics_fit st"
  then show ?thesis
    by (cases st) (simp add: statistics_of_json_def statistics_json_def get decode_encode_counts statistics_fit_def json_as_u64_def ascii_def)
qed

lemma counts_fit: "length ids < 2 ^ 64 \<Longrightarrow> \<forall>i \<in> set ids. in_i64 i \<Longrightarrow> om_all (\<lambda>i n. in_i64 i \<and> n < 2 ^ 64) (counts_of ids)"
proof -
  assume ids: "length ids < 2 ^ 64" "\<forall>i \<in> set ids. in_i64 i"
  have "om_all (\<lambda>i n. in_i64 i \<and> n < 2 ^ 64) (om_put_all (map (\<lambda>i. (i, length (filter ((=) i) ids))) xs) t)"
    if "set xs \<subseteq> set ids" "om_all (\<lambda>i n. in_i64 i \<and> n < 2 ^ 64) t" for xs t
    using that
  proof (induction xs arbitrary: t)
    case (Cons x xs)
    have "length (filter ((=) x) ids) < 2 ^ 64" using ids(1) length_filter_le [of "(=) x" ids] by linarith
    with Cons ids(2) show ?case by (simp add: om_put_all_def om_all_put)
  qed (simp add: om_put_all_def)
  then show ?thesis by (simp add: counts_of_def)
qed

definition graph_counts_fit :: "graph \<Rightarrow> bool" where
  "graph_counts_fit g \<longleftrightarrow> om_size (g_nodes g) < 2 ^ 64 \<and> om_size (g_labels g) < 2 ^ 64 \<and> om_size (g_relationships g) < 2 ^ 64"

lemma graph_statistics_fit:
  assumes "graph_ok g" "graph_counts_fit g"
  shows "statistics_fit (graph_statistics g)"
proof -
  have "\<forall>i \<in> set (map snd (om_keys (g_labels g))). in_i64 i"
    using assms(1) by (auto simp: graph_ok_def om_all_iff id_ok_def om_keys_def om_entries_iff)
  moreover have "\<forall>i \<in> set (map type_id (om_values (g_relationships g))). in_i64 i"
    using assms(1) by (auto simp: graph_ok_def om_all_iff id_ok_def wf_relationship_def om_values_def om_entries_iff)
  ultimately show ?thesis
    using assms(2) counts_fit by (simp add: statistics_fit_def graph_statistics_def graph_counts_fit_def om_size_def om_keys_def om_values_def)
qed

section \<open>Changes to one checkpoint\<close>

text \<open>Two databases that differ in the rows of one checkpoint only.\<close>

definition checkpoint_change :: "hash_id \<Rightarrow> database \<Rightarrow> database \<Rightarrow> bool" where
  "checkpoint_change c d d' \<longleftrightarrow>
     d' = d\<lparr>tb_checkpoints := tb_checkpoints d', tb_cp_nodes := tb_cp_nodes d', tb_cp_labels := tb_cp_labels d',
           tb_cp_relationships := tb_cp_relationships d', tb_cp_properties := tb_cp_properties d'\<rparr>
   \<and> (\<forall>a. a \<noteq> c \<longrightarrow> om_get (tb_checkpoints d') a = om_get (tb_checkpoints d) a
        \<and> om_slice a (tb_cp_nodes d') = om_slice a (tb_cp_nodes d)
        \<and> om_slice a (tb_cp_labels d') = om_slice a (tb_cp_labels d)
        \<and> om_slice a (tb_cp_relationships d') = om_slice a (tb_cp_relationships d)
        \<and> om_slice a (tb_cp_properties d') = om_slice a (tb_cp_properties d))"

definition no_checkpoint_rows :: "hash_id \<Rightarrow> database \<Rightarrow> bool" where
  "no_checkpoint_rows c d \<longleftrightarrow> om_slice c (tb_cp_nodes d) = om_empty \<and> om_slice c (tb_cp_labels d) = om_empty
     \<and> om_slice c (tb_cp_relationships d) = om_empty \<and> om_slice c (tb_cp_properties d) = om_empty"

lemma slice_empty_iff: "om_slice a t = om_empty \<longleftrightarrow> (\<forall>k. om_get t (a, k) = None)"
  by (metis om_ext om_get_empty om_get_slice ext)

lemma rows_owned_iff:
  "checkpoint_rows_owned d \<longleftrightarrow> (\<forall>c. \<not> om_has (tb_checkpoints d) c \<longrightarrow> no_checkpoint_rows c d)"
proof -
  have owned: "om_all (\<lambda>k _. Q (fst k)) t \<longleftrightarrow> (\<forall>c. \<not> Q c \<longrightarrow> om_slice c t = om_empty)" for Q and t :: "(bytes \<times> 'k::linorder, 'v) omap"
    unfolding om_all_iff slice_empty_iff by (metis fst_conv option.distinct(1) option.exhaust prod.collapse)
  show ?thesis unfolding checkpoint_rows_owned_def no_checkpoint_rows_def owned by blast
qed

lemma checkpoint_change_layers: "checkpoint_change c d d' \<Longrightarrow> load_layer P d' i = load_layer P d i"
  by (rule same_layer_load) (simp add: checkpoint_change_def same_layer_def, cases d, cases d', simp)

lemma checkpoint_change_keeps:
  assumes "checkpoint_change c d d'"
  shows "keeps_layers P d d'" "keeps_commits d d'" "keeps_layers P d' d" "keeps_commits d' d"
proof -
  have "tb_layers d' = tb_layers d" "tb_commits d' = tb_commits d"
    using assms unfolding checkpoint_change_def by (cases d; cases d'; simp)+
  then show "keeps_layers P d d'" "keeps_commits d d'" "keeps_layers P d' d" "keeps_commits d' d"
    using checkpoint_change_layers [OF assms] by (simp_all add: keeps_layers_def keeps_commits_def)
qed

lemma checkpoint_change_graph: "checkpoint_change c d d' \<Longrightarrow> commit_graph P d' k g \<longleftrightarrow> commit_graph P d k g"
  using checkpoint_change_keeps commit_graph_kept by blast

lemma checkpoint_change_store:
  assumes "checkpoint_change c d d'" "store_ok P d"
    and "om_has (tb_checkpoints d') c \<Longrightarrow> om_has (tb_commits d) c \<and> (\<forall>g. commit_graph P d c g \<longrightarrow> checkpoint_holds P d' c g)"
    and "\<not> om_has (tb_checkpoints d') c \<Longrightarrow> no_checkpoint_rows c d'"
  shows "store_ok P d'"
proof -
  have tables: "d' = d\<lparr>tb_checkpoints := tb_checkpoints d', tb_cp_nodes := tb_cp_nodes d', tb_cp_labels := tb_cp_labels d',
           tb_cp_relationships := tb_cp_relationships d', tb_cp_properties := tb_cp_properties d'\<rparr>"
    using assms(1) unfolding checkpoint_change_def by blast
  have other: "om_has (tb_checkpoints d') a = om_has (tb_checkpoints d) a" "no_checkpoint_rows a d' = no_checkpoint_rows a d"
    "checkpoint_holds P d' a g = checkpoint_holds P d a g" if "a \<noteq> c" for a g
    using assms(1) that unfolding checkpoint_change_def by (simp_all add: om_has_def no_checkpoint_rows_def checkpoint_holds_def)
  have "checkpoint_rows_owned d'"
    unfolding rows_owned_iff by (metis assms(2,4) other(1,2) rows_owned_iff store_ok_def)
  moreover have "checkpoints_ok P d'"
    unfolding checkpoints_ok_def checkpoint_change_graph [OF assms(1)]
    by (metis assms(2,3) other(1,3) checkpoints_ok_def store_ok_def)
  moreover have "om_all (\<lambda>k _. om_has (tb_commits d) k) (tb_checkpoints d')"
    unfolding om_all_iff by (metis assms(2,3) other(1) om_has_def option.distinct(1) store_checkpoint)
  moreover have "om_all (commit_ok P d') (tb_commits d)"
    unfolding om_all_iff
  proof (intro allI impI)
    fix k row assume "om_get (tb_commits d) k = Some row"
    from store_commit [OF assms(2) this] checkpoint_change_keeps(1,2) [OF assms(1)] show "commit_ok P d' k row"
      by (rule commit_ok_kept) (subst tables, simp)
  qed
  moreover have "layers_addressed P d'" "layer_tables_ok d'" "tuples_unique d'"
    using assms(2) checkpoint_change_layers [OF assms(1), of P]
    by (simp_all add: store_ok_def layers_addressed_def) (subst tables; simp add: layer_tables_ok_def delta_rows_ok_def tuples_unique_def stored_tuple_def cong: option.case_cong)+
  moreover have "tb_commits d' = tb_commits d" "tb_branches d' = tb_branches d" "tb_sequences d' = tb_sequences d"
    "tb_schema_objects d' = tb_schema_objects d"
    by (subst tables, simp)+
  ultimately show ?thesis using assms(2) by (simp add: store_ok_def)
qed

section \<open>Creation and deletion\<close>

definition reads_back :: "serde_json \<Rightarrow> graph \<Rightarrow> bool" where
  "reads_back J g \<longleftrightarrow> json_from_slice J (json_to_string J (statistics_json (graph_statistics g))) = Some (statistics_json (graph_statistics g))"

lemma history_layers:
  assumes "commit_graph P d c g" "delta_rows_ok d"
  shows "\<exists>ids ls. first_parent_layers d c = Some (Inr ids) \<and> map_res (load_layer P d) ids = Inr ls
    \<and> list_all wf_layer ls \<and> fold apply_layer ls empty_graph = g"
proof -
  obtain ids ls where ids: "first_parent_loop d (Some c) [] = Some (Inr ([] @ ids))" "map_res (load_layer P d) (rev ids) = Inr ls"
    "fold apply_layer ls empty_graph = g"
    using first_parent_history [OF assms(1), of "[]"] by blast
  moreover have "wf_layer l" if "l \<in> set ls" for l
  proof -
    from map_res_set [OF ids(2) that] obtain i where "load_layer P d i = Inr l" by auto
    then show ?thesis using assms(2) by (rule load_layer_wf)
  qed
  ultimately show ?thesis by (auto simp: first_parent_layers_def list_all_iff)
qed

lemma empty_checkpoint_holds: "no_checkpoint_rows c d \<Longrightarrow> checkpoint_holds P d c empty_graph"
  by (simp add: checkpoint_holds_def no_checkpoint_rows_def empty_graph_def checkpoint_properties_hold_def om_graft_def om_empty.rep_eq om_put_all_def om_ext om_get_map fun_eq_iff)

lemma create_checkpoint_run:
  assumes "store_ok P (db cn)" "commit_graph P (db cn) c g" "length c = 32" "\<not> om_has (tb_checkpoints (db cn)) c"
  shows "\<exists>cn'. create_checkpoint J now c cn = Some (Inr (), cn') \<and> checkpoint_holds P (db cn') c g
    \<and> checkpoint_change c (db cn) (db cn')
    \<and> om_get (tb_checkpoints (db cn')) c = Some (now, Some (encode_statistics J (graph_statistics g)))"
proof -
  let ?d1 = "db cn\<lparr>tb_checkpoints := om_put c (now, None) (tb_checkpoints (db cn))\<rparr>"
  have load: "load_layer P ?d1 = load_layer P (db cn)" by (rule ext, rule same_layer_load) (simp add: same_layer_def)
  have d1: "insert_checkpoint now c cn = (Inr (), cn\<lparr>db := ?d1\<rparr>)"
    using assms(3,4) by (cases "om_get (tb_checkpoints (db cn)) c") (auto simp: insert_checkpoint_def om_has_def)
  have "commit_graph P ?d1 c g"
    by (rule commit_graph_kept [OF assms(2)]) (simp_all add: keeps_layers_def keeps_commits_def load)
  moreover have "delta_rows_ok ?d1" using store_delta_rows [OF assms(1)] by (simp add: delta_rows_ok_def cong: option.case_cong)
  ultimately obtain ids ls where ids: "first_parent_layers ?d1 c = Some (Inr ids)" "map_res (load_layer P ?d1) ids = Inr ls"
    "list_all wf_layer ls" "fold apply_layer ls empty_graph = g"
    using history_layers by blast
  have "no_checkpoint_rows c ?d1" using assms(1,4) by (simp add: store_ok_def rows_owned_iff no_checkpoint_rows_def)
  then have "checkpoint_holds P (db (cn\<lparr>db := ?d1\<rparr>)) c empty_graph" by (simp add: empty_checkpoint_holds)
  from replay_history [OF _ assms(3) ids(3) this] ids(2,4) obtain c2
    where c2: "st_all (checkpoint_apply_layer c) ids (cn\<lparr>db := ?d1\<rparr>) = (Inr (), c2)" "checkpoint_holds P (db c2) c g"
      "cp_frame c ?d1 (db c2)" by auto
  let ?d3 = "db c2\<lparr>tb_checkpoints := om_put c (now, Some (encode_statistics J (graph_statistics g))) (tb_checkpoints (db c2))\<rparr>"
  have cps: "tb_checkpoints (db c2) = tb_checkpoints ?d1"
    using c2(3) unfolding cp_frame_def by (cases "db c2") simp
  have "replay_layers J c ids (cn\<lparr>db := ?d1\<rparr>) = (Inr (), c2\<lparr>db := ?d3\<rparr>)"
    by (simp add: replay_layers_def write_statistics_def c2(1) checkpoint_statistics_ok [OF c2(2)] cps)
  then have "create_checkpoint J now c cn = Some (Inr (), c2\<lparr>db := ?d3\<rparr>)"
    using assms(4) d1 ids(1) by (simp add: create_checkpoint_def checkpoint_exists_def)
  moreover have "checkpoint_holds P ?d3 c g" using c2(2) by (simp add: checkpoint_holds_def)
  moreover have "checkpoint_change c (db cn) ?d3"
    using c2(3) unfolding checkpoint_change_def cp_frame_def cps by (cases "db cn"; cases "db c2") simp
  ultimately show ?thesis by auto
qed

definition without_checkpoint :: "hash_id \<Rightarrow> database \<Rightarrow> database" where
  "without_checkpoint c d =
     d\<lparr>tb_cp_properties := om_filter (\<lambda>(a, _) _. a \<noteq> c) (tb_cp_properties d),
       tb_cp_relationships := om_filter (\<lambda>(a, _) _. a \<noteq> c) (tb_cp_relationships d),
       tb_cp_labels := om_filter (\<lambda>(a, _) _. a \<noteq> c) (tb_cp_labels d),
       tb_cp_nodes := om_filter (\<lambda>(a, _) _. a \<noteq> c) (tb_cp_nodes d),
       tb_checkpoints := om_del c (tb_checkpoints d)\<rparr>"

lemma delete_checkpoint_run: "delete_checkpoint c cn = (Inr (), cn\<lparr>db := without_checkpoint c (db cn)\<rparr>)"
  by (simp add: delete_checkpoint_def without_checkpoint_def)

lemma without_checkpoint_change: "checkpoint_change c d (without_checkpoint c d)"
  by (cases d) (auto simp: checkpoint_change_def without_checkpoint_def om_get_del om_get_filter fun_eq_iff intro!: om_ext split: option.split)

lemma without_checkpoint_rows: "no_checkpoint_rows c (without_checkpoint c d)" "\<not> om_has (tb_checkpoints (without_checkpoint c d)) c"
  by (simp_all add: no_checkpoint_rows_def without_checkpoint_def slice_empty_iff om_get_filter om_has_def om_get_del split: option.split)

lemma slices_ext: "(\<And>a. om_slice a t = om_slice a u) \<Longrightarrow> t = (u :: (_ \<times> _, _) omap)"
  by (rule om_ext) (metis ext om_get_slice prod.collapse)

lemma without_checkpoint_restores:
  assumes "checkpoint_change c d d'" "no_checkpoint_rows c d" "\<not> om_has (tb_checkpoints d) c"
  shows "without_checkpoint c d' = d"
proof -
  let ?e = "without_checkpoint c d'"
  note e = without_checkpoint_change [of c d'] and rows = without_checkpoint_rows [of c d']
  have same: "om_slice a (tb_cp_nodes ?e) = om_slice a (tb_cp_nodes d)" "om_slice a (tb_cp_labels ?e) = om_slice a (tb_cp_labels d)"
    "om_slice a (tb_cp_relationships ?e) = om_slice a (tb_cp_relationships d)" "om_slice a (tb_cp_properties ?e) = om_slice a (tb_cp_properties d)"
    "om_get (tb_checkpoints ?e) a = om_get (tb_checkpoints d) a" for a
  proof -
    consider (eq) "a = c" | (ne) "a \<noteq> c" by blast
    then show "om_slice a (tb_cp_nodes ?e) = om_slice a (tb_cp_nodes d)" "om_slice a (tb_cp_labels ?e) = om_slice a (tb_cp_labels d)"
      "om_slice a (tb_cp_relationships ?e) = om_slice a (tb_cp_relationships d)" "om_slice a (tb_cp_properties ?e) = om_slice a (tb_cp_properties d)"
      "om_get (tb_checkpoints ?e) a = om_get (tb_checkpoints d) a"
      using e rows assms unfolding checkpoint_change_def no_checkpoint_rows_def om_has_def by (metis not_None_eq)+
  qed
  then have "tb_cp_nodes ?e = tb_cp_nodes d" "tb_cp_labels ?e = tb_cp_labels d" "tb_cp_relationships ?e = tb_cp_relationships d"
    "tb_cp_properties ?e = tb_cp_properties d" "tb_checkpoints ?e = tb_checkpoints d"
    by (blast intro: slices_ext, blast intro: slices_ext, blast intro: slices_ext, blast intro: slices_ext, blast intro: om_ext ext)
  moreover obtain u v x y z where "d' = d\<lparr>tb_checkpoints := u, tb_cp_nodes := v, tb_cp_labels := x, tb_cp_relationships := y, tb_cp_properties := z\<rparr>"
    using assms(1) unfolding checkpoint_change_def by blast
  ultimately show ?thesis by (cases d) (simp add: without_checkpoint_def)
qed

section \<open>Snapshots\<close>

text \<open>A snapshot that reads a graph: every read of an element, and the semantic hash.\<close>

definition reads_graph :: "platform \<Rightarrow> database \<Rightarrow> SnapshotState \<Rightarrow> graph \<Rightarrow> bool" where
  "reads_graph P d s g \<longleftrightarrow>
     (\<forall>n. node_exists d s n = Inr (om_has (g_nodes g) n) \<and> labels d s n = Inr (om_keys (node_labels g n)))
   \<and> (\<forall>i. relationship d s i = Inr (om_get (g_relationships g) i))
   \<and> (\<forall>kind o' k. property P d s kind o' k = Inr (om_get (g_properties g) (kind, o', k)))
   \<and> (\<forall>n ty. outgoing d s n ty = Inr (adjacent g n ty Outgoing) \<and> incoming d s n ty = Inr (adjacent g n ty Incoming))
   \<and> semantic_hash P d s = and_then (graph_hash_input g) (\<lambda>h. Inr (blake3 P h))"

lemma resolved_reads_graph:
  assumes "store_ok P d" "commit_graph P d k g" "snd (resolve_state_with_checkpoint_skip P d k skip) = Inr s"
  shows "reads_graph P d s g"
proof -
  have "checkpoints_ok P d" using assms(1) by (simp add: store_ok_def)
  from resolved_snapshot [OF assms(3,2) this store_delta_rows [OF assms(1)]] obtain b where
    b: "snapshot_of P d s b g" "ss_property_cache s = om_empty" by blast
  then have "base_graph P d s b" "view b s = g" "cache_ok b s" by (auto simp: snapshot_of_def cache_ok_def)
  with b node_exists_view relationship_view property_view show ?thesis
    by (simp add: reads_graph_def labels_view outgoing_def incoming_def adjacency_view semantic_hash_view)
qed

section \<open>The outcomes of a creation\<close>

lemma commit_graph_exists: "commit_graph P d c g \<Longrightarrow> commit_exists d c"
  by (cases rule: commit_graph.cases) (auto simp: load_lineage_row_def commit_exists_def om_has_def split: option.splits)

lemma new_checkpoint:
  assumes "store_ok P (db cn)" "commit_graph P (db cn) c g" "length c = 32" "\<not> checkpoint_exists (db cn) c"
  shows "\<exists>cn'. create_checkpoint J now c cn = Some (Inr (), cn') \<and> checkpoint_exists (db cn') c
    \<and> checkpoint_holds P (db cn') c g \<and> store_ok P (db cn') \<and> (\<forall>k g. commit_graph P (db cn') k g \<longleftrightarrow> commit_graph P (db cn) k g)
    \<and> (graph_counts_fit g \<longrightarrow> reads_back J g \<longrightarrow> load_checkpoint_statistics J (db cn') c = Inr (Some (graph_statistics g)))"
proof -
  have no: "\<not> om_has (tb_checkpoints (db cn)) c" using assms(4) by (simp add: checkpoint_exists_def)
  obtain cn' where run: "create_checkpoint J now c cn = Some (Inr (), cn')" "checkpoint_holds P (db cn') c g"
    "checkpoint_change c (db cn) (db cn')"
    and row: "om_get (tb_checkpoints (db cn')) c = Some (now, Some (encode_statistics J (graph_statistics g)))"
    using create_checkpoint_run [OF assms(1-3) no] by blast
  have "graph_ok g" by (rule commit_graph_ok [OF assms(2) store_delta_rows [OF assms(1)]])
  then have "statistics_of_json (statistics_json (graph_statistics g)) = Some (graph_statistics g)" if "graph_counts_fit g"
    using that by (intro statistics_round_trip graph_statistics_fit)
  then have "load_checkpoint_statistics J (db cn') c = Inr (Some (graph_statistics g))" if "graph_counts_fit g" "reads_back J g"
    using that by (simp add: load_checkpoint_statistics_def row decode_statistics_def encode_statistics_def reads_back_def ok_or_def)
  moreover have "om_has (tb_commits (db cn)) c" using commit_graph_exists [OF assms(2)] by (simp add: commit_exists_def)
  then have "store_ok P (db cn')"
    by (rule checkpoint_change_store [OF run(3) assms(1) conjI]) (use run(2) commit_graph_unique [OF assms(2)] row in \<open>auto simp: om_has_def\<close>)
  ultimately show ?thesis
    using run row checkpoint_change_graph [OF run(3)] by (intro exI [of _ cn']) (simp add: checkpoint_exists_def om_has_def)
qed

text \<open>A checkpoint that exists is kept, and for a commit that does not exist the savepoint takes back the row inserted.\<close>

lemma unchanged_checkpoint:
  assumes "store_ok P (db cn)" "length c = 32" "\<not> (commit_exists (db cn) c \<and> \<not> checkpoint_exists (db cn) c)"
  shows "\<exists>r cn'. create_checkpoint J now c cn = Some (r, cn') \<and> (isl r \<longleftrightarrow> \<not> commit_exists (db cn) c) \<and> db cn' = db cn"
proof (cases "checkpoint_exists (db cn) c")
  case True
  then have "commit_exists (db cn) c"
    using store_checkpoint [OF assms(1), of c] by (auto simp: checkpoint_exists_def commit_exists_def om_has_def)
  with True show ?thesis by (simp add: create_checkpoint_def)
next
  case False
  then have none: "om_get (tb_commits (db cn)) c = None" "\<not> commit_exists (db cn) c"
    using assms(3) by (auto simp: commit_exists_def om_has_def)
  let ?c1 = "cn\<lparr>db := db cn\<lparr>tb_checkpoints := om_put c (now, None) (tb_checkpoints (db cn))\<rparr>\<rparr>"
  have "insert_checkpoint now c cn = (Inr (), ?c1)"
    using False assms(2) by (cases "om_get (tb_checkpoints (db cn)) c") (auto simp: insert_checkpoint_def checkpoint_exists_def om_has_def)
  moreover have "first_parent_layers (db ?c1) c = Some (Inl (Sqlite QueryReturnedNoRows))"
    using none(1) by (simp add: first_parent_layers_def first_parent_loop.simps)
  ultimately have "create_checkpoint J now c cn = Some (Inl (Sqlite QueryReturnedNoRows), ?c1\<lparr>db := db cn\<rparr>)"
    using False by (simp add: create_checkpoint_def with_savepoint_def st_then_def st_res_def)
  then show ?thesis using none(2) by simp
qed

section \<open>Theorems\<close>

text \<open>C13. Creating a checkpoint ends on every sound store, and fails exactly for a commit that is not there. A failure
  leaves the database as it was, as does a checkpoint that exists already. Otherwise the checkpoint holds exactly the
  graph of its commit, and its statistics are the counts of that graph and read back. In every case the invariant of
  the store is kept, no commit means anything else than before, and every snapshot resolved afterwards, from
  the new checkpoint or not, reads the graph its commit had before.\<close>

theorem checkpoint_created:
  assumes "store_ok P (db cn)" and "length c = 32"
  shows "\<exists>r cn'. create_checkpoint J now c cn = Some (r, cn') \<and> (isl r \<longleftrightarrow> \<not> commit_exists (db cn) c)
    \<and> (isl r \<or> checkpoint_exists (db cn) c \<longrightarrow> db cn' = db cn)
    \<and> (\<forall>g. commit_graph P (db cn) c g \<longrightarrow> checkpoint_exists (db cn') c \<and> checkpoint_holds P (db cn') c g
         \<and> (\<not> checkpoint_exists (db cn) c \<longrightarrow> graph_counts_fit g \<longrightarrow> reads_back J g \<longrightarrow>
              load_checkpoint_statistics J (db cn') c = Inr (Some (graph_statistics g))))
    \<and> store_ok P (db cn') \<and> (\<forall>k g. commit_graph P (db cn') k g \<longleftrightarrow> commit_graph P (db cn) k g)
    \<and> (\<forall>k g skip s. commit_graph P (db cn) k g \<longrightarrow> snd (resolve_state_with_checkpoint_skip P (db cn') k skip) = Inr s \<longrightarrow>
         reads_graph P (db cn') s g)"
proof (cases "commit_exists (db cn) c \<and> \<not> checkpoint_exists (db cn) c")
  case True
  then obtain row where "om_get (tb_commits (db cn)) c = Some row" by (auto simp: commit_exists_def om_has_def)
  then obtain g where g: "commit_graph P (db cn) c g" using store_commit [OF assms(1)] by (auto simp: commit_ok_def)
  from new_checkpoint [OF assms(1) g assms(2), of J now] True obtain cn' where run: "create_checkpoint J now c cn = Some (Inr (), cn')"
    "checkpoint_exists (db cn') c" "checkpoint_holds P (db cn') c g" "store_ok P (db cn')"
    "\<And>k g. commit_graph P (db cn') k g \<longleftrightarrow> commit_graph P (db cn) k g"
    "graph_counts_fit g \<Longrightarrow> reads_back J g \<Longrightarrow> load_checkpoint_statistics J (db cn') c = Inr (Some (graph_statistics g))"
    by blast
  have "g' = g" if "commit_graph P (db cn) c g'" for g' using commit_graph_unique [OF g] that by auto
  then show ?thesis using True run resolved_reads_graph [OF run(4)]
    by (intro exI [of _ "Inr ()"] exI [of _ cn']) auto
next
  case False
  from unchanged_checkpoint [OF assms False, of J now] obtain r cn' where run: "create_checkpoint J now c cn = Some (r, cn')"
    "isl r \<longleftrightarrow> \<not> commit_exists (db cn) c" "db cn' = db cn" by blast
  have "checkpoint_exists (db cn) c \<and> checkpoint_holds P (db cn) c g" if g: "commit_graph P (db cn) c g" for g
    using False commit_graph_exists [OF g] assms(1) g by (auto simp: store_ok_def checkpoints_ok_def checkpoint_exists_def)
  then show ?thesis using run False assms(1) resolved_reads_graph [OF assms(1)] commit_graph_exists
    by (intro exI [of _ r] exI [of _ cn']) auto
qed

theorem checkpoint_created_witness:
  "\<exists>cn'. create_checkpoint \<lparr>json_to_string = \<lambda>_. [], json_from_slice = \<lambda>_. Some (statistics_json (graph_statistics empty_graph))\<rparr> 5
      (len_id 104) (on_db first_db) = Some (Inr (), cn') \<and> checkpoint_holds platform_len (db cn') (len_id 104) empty_graph"
proof -
  let ?J = "\<lparr>json_to_string = \<lambda>_. [], json_from_slice = \<lambda>_. Some (statistics_json (graph_statistics empty_graph))\<rparr>"
  have g: "commit_graph platform_len (db (on_db first_db)) (len_id 104) empty_graph"
    using initialize_root_Inr [OF first_store_init] fresh_store_ok by (auto simp: first_store_db on_db_def)
  have len: "length (len_id 104) = 32" by (simp add: len_id_def)
  from checkpoint_created [OF on_db_store len, of ?J 5] obtain r cn' where run: "create_checkpoint ?J 5 (len_id 104) (on_db first_db) = Some (r, cn')"
    "isl r \<longleftrightarrow> \<not> commit_exists (db (on_db first_db)) (len_id 104)" "checkpoint_holds platform_len (db cn') (len_id 104) empty_graph"
    using g by blast
  with commit_graph_exists [OF g] show ?thesis by (cases r) auto
qed

text \<open>C29. Deleting a checkpoint never fails, removes all of its rows, keeps the invariant of the store and the graph of
  every commit; after a creation it brings back the very database there was.\<close>

theorem checkpoint_deleted:
  assumes "store_ok P (db cn)"
  shows "\<exists>cn'. delete_checkpoint c cn = (Inr (), cn') \<and> store_ok P (db cn') \<and> \<not> checkpoint_exists (db cn') c
    \<and> no_checkpoint_rows c (db cn') \<and> (\<forall>k g. commit_graph P (db cn') k g \<longleftrightarrow> commit_graph P (db cn) k g)
    \<and> (\<forall>J now cn0. create_checkpoint J now c cn0 = Some (Inr (), cn) \<longrightarrow> store_ok P (db cn0) \<longrightarrow>
         \<not> checkpoint_exists (db cn0) c \<longrightarrow> length c = 32 \<longrightarrow> (\<exists>g. commit_graph P (db cn0) c g) \<longrightarrow> db cn' = db cn0)"
proof -
  let ?d = "without_checkpoint c (db cn)"
  have "store_ok P ?d"
    by (rule checkpoint_change_store [OF without_checkpoint_change assms]) (use without_checkpoint_rows in auto)
  moreover have "?d = db cn0" if "create_checkpoint J now c cn0 = Some (Inr (), cn)" "store_ok P (db cn0)"
    "\<not> checkpoint_exists (db cn0) c" "length c = 32" "commit_graph P (db cn0) c g" for J now cn0 g
  proof (rule without_checkpoint_restores)
    have no: "\<not> om_has (tb_checkpoints (db cn0)) c" using that(3) by (simp add: checkpoint_exists_def)
    then show "\<not> om_has (tb_checkpoints (db cn0)) c" "no_checkpoint_rows c (db cn0)"
      using that(2) by (auto simp: store_ok_def rows_owned_iff)
    show "checkpoint_change c (db cn0) (db cn)"
      using create_checkpoint_run [OF that(2,5,4) no, of J now] that(1) by auto
  qed
  ultimately show ?thesis
    using without_checkpoint_rows [of c "db cn"] checkpoint_change_graph [OF without_checkpoint_change]
    by (auto simp: delete_checkpoint_run checkpoint_exists_def)
qed

theorem checkpoint_deleted_witness:
  "\<exists>cn cn'. create_checkpoint \<lparr>json_to_string = \<lambda>_. [], json_from_slice = \<lambda>_. None\<rparr> 5 (len_id 104) (on_db first_db) = Some (Inr (), cn)
     \<and> checkpoint_exists (db cn) (len_id 104) \<and> delete_checkpoint (len_id 104) cn = (Inr (), cn') \<and> db cn' = first_db"
proof -
  let ?J = "\<lparr>json_to_string = \<lambda>_. [], json_from_slice = \<lambda>_. None\<rparr>"
  have g: "commit_graph platform_len (db (on_db first_db)) (len_id 104) empty_graph"
    using initialize_root_Inr [OF first_store_init] fresh_store_ok by (auto simp: first_store_db on_db_def)
  have no: "\<not> om_has (tb_checkpoints (db (on_db first_db))) (len_id 104)" and len: "length (len_id 104) = 32" and first: "db (on_db first_db) = first_db"
    by (simp_all add: on_db_def first_db_def fresh_store_def create_storage_schema_def om_has_def len_id_def)
  obtain cn where cn: "create_checkpoint ?J 5 (len_id 104) (on_db first_db) = Some (Inr (), cn)"
    "checkpoint_holds platform_len (db cn) (len_id 104) empty_graph" "checkpoint_change (len_id 104) (db (on_db first_db)) (db cn)"
    "om_get (tb_checkpoints (db cn)) (len_id 104) = Some (5, Some (encode_statistics ?J (graph_statistics empty_graph)))"
    using create_checkpoint_run [OF on_db_store g len no, of ?J 5] by blast
  have "om_has (tb_commits (db (on_db first_db))) (len_id 104)" by (simp add: on_db_def first_db_def om_has_def om_of_def om_put_all_def)
  then have "store_ok platform_len (db cn)"
    by (rule checkpoint_change_store [OF cn(3) on_db_store conjI])
       (use cn(2) commit_graph_unique [OF g] cn(4) in \<open>auto simp: om_has_def\<close>)
  from checkpoint_deleted [OF this, of "len_id 104"] obtain cn' where cn': "delete_checkpoint (len_id 104) cn = (Inr (), cn')"
    "\<And>J now cn0. create_checkpoint J now (len_id 104) cn0 = Some (Inr (), cn) \<Longrightarrow> store_ok platform_len (db cn0) \<Longrightarrow>
         \<not> checkpoint_exists (db cn0) (len_id 104) \<Longrightarrow> length (len_id 104) = 32 \<Longrightarrow> (\<exists>g. commit_graph platform_len (db cn0) (len_id 104) g)
         \<Longrightarrow> db cn' = db cn0"
    by blast
  have "db cn' = db (on_db first_db)"
    by (rule cn'(2) [OF cn(1) on_db_store]) (use no len g in \<open>auto simp: checkpoint_exists_def\<close>)
  moreover have "checkpoint_exists (db cn) (len_id 104)" using cn(4) by (simp add: checkpoint_exists_def om_has_def)
  ultimately show ?thesis using cn(1) cn'(1) first by metis
qed

end
