(* ===== verification/Refs.thy ===== *)
theory Refs
  imports Checkpoint_Theorems
begin

text \<open>
  Version references (\<^verbatim>\<open>storage/version/refs.rs\<close>): the names of branches and tags, their creation, movement and
  deletion, the active branch of a connection, and the descriptors that name a commit. Merge sessions
  (\<^verbatim>\<open>storage/version/session.rs\<close>): their rows, resolutions and revisions.
\<close>

section \<open>Names\<close>

record NamedRef =
  nr_name :: ustr
  nr_commit :: hash_id

definition slash :: byte where
  "slash = 47"

definition validate_ref_name :: "ustr \<Rightarrow> unit res" where
  "validate_ref_name name =
     (if name = [] \<or> length name > 255 then Inl (Corrupt ''ref name must contain between 1 and 255 UTF-8 bytes'')
      else if list_ex (\<lambda>b. b = 0 \<or> b < 0x20 \<or> b = 0x7f) name then Inl (Corrupt ''ref name must not contain NUL or ASCII control characters'')
      else if hd name = slash \<or> last name = slash then Inl (Corrupt (''ref name must not start or end with '' @ [CHR 0x27, CHR ''/'', CHR 0x27]))
      else if list_ex (\<lambda>segment. segment = [] \<or> segment = ascii ''.'' \<or> segment = ascii ''..'') (split_at_byte slash name)
           then Inl (Corrupt ''ref name contains an invalid path segment'')
      else Inr ())"

section \<open>The active branch\<close>

text \<open>The temporary table of the connection: absent, or its rows.\<close>

type_synonym connection_state = "(i64, ustr) omap option"

definition initialize_connection_state :: "connection_state \<Rightarrow> connection_state" where
  "initialize_connection_state temp =
     Some (insert_or_ignore True 1 main_branch (case temp of None \<Rightarrow> om_empty | Some t \<Rightarrow> t))"

definition active_branch :: "connection_state \<Rightarrow> ustr res" where
  "active_branch temp =
     (case temp of None \<Rightarrow> Inr main_branch
      | Some t \<Rightarrow> ok_or (om_get t 1) (Corrupt ''connection state has no active Branch row''))"

definition set_active_branch :: "database \<Rightarrow> ustr \<Rightarrow> connection_state \<Rightarrow> hash_id res \<times> connection_state" where
  "set_active_branch d branch temp =
     (case and_then (validate_ref_name branch) (\<lambda>_. branch_head d branch) of
        Inl e \<Rightarrow> (Inl e, temp)
      | Inr commit \<Rightarrow>
          (Inr commit, map_option (\<lambda>t. if om_has t 1 then om_put 1 branch t else t) (initialize_connection_state temp)))"

section \<open>Branches\<close>

definition lookup_named_ref :: "(ustr, bytes) omap \<Rightarrow> ustr \<Rightarrow> hash_id option res" where
  "lookup_named_ref table name =
     (case om_get table name of None \<Rightarrow> Inr None | Some bs \<Rightarrow> and_then (hash_from_slice bs) (\<lambda>h. Inr (Some h)))"

definition list_named_refs :: "(ustr, bytes) omap \<Rightarrow> NamedRef list res" where
  "list_named_refs table =
     map_res (\<lambda>(name, bs). and_then (hash_from_slice bs) (\<lambda>h. Inr \<lparr>nr_name = name, nr_commit = h\<rparr>)) (om_entries table)"

definition create_branch_ref :: "ustr \<Rightarrow> hash_id \<Rightarrow> unit st" where
  "create_branch_ref name start = st_then (st_res (validate_ref_name name)) (\<lambda>_. create_branch name start)"

definition delete_branch_ref :: "connection_state \<Rightarrow> ustr \<Rightarrow> hash_id option st" where
  "delete_branch_ref temp name =
     st_then (st_res (validate_ref_name name)) (\<lambda>_.
       if name = main_branch then st_err (Corrupt ''the main Branch cannot be deleted'')
       else
         st_then (st_res (active_branch temp)) (\<lambda>active.
           if active = name then st_err (Corrupt ''the active Branch cannot be deleted'')
           else
             st_then (st_query (\<lambda>d. lookup_named_ref (tb_branches d) name)) (\<lambda>previous.
               if previous = None then st_ret None
               else st_then (st_exec (\<lambda>d. Inr (d\<lparr>tb_branches := om_del name (tb_branches d)\<rparr>))) (\<lambda>_. st_ret previous))))"

text \<open>An \<^verbatim>\<open>UPDATE\<close> of the row with a key that satisfies a condition: the number of rows changed.\<close>

definition update_row :: "bool \<Rightarrow> 'k::linorder \<Rightarrow> ('v \<Rightarrow> bool) \<Rightarrow> ('v \<Rightarrow> 'v) \<Rightarrow> ('k, 'v) omap \<Rightarrow> (nat \<times> ('k, 'v) omap) res" where
  "update_row ok k Q f t =
     (case om_get t k of
        None \<Rightarrow> Inr (0, t)
      | Some v \<Rightarrow> if \<not> Q v then Inr (0, t) else if \<not> ok then Inl (Sqlite ConstraintViolation) else Inr (1, om_put k (f v) t))"

text \<open>A statement that answers with the number of rows it changed.\<close>

definition st_update :: "(database \<Rightarrow> ('n \<times> database) res) \<Rightarrow> 'n st" where
  "st_update f c = (case f (db c) of Inl e \<Rightarrow> (Inl e, c) | Inr (n, d) \<Rightarrow> (Inr n, c\<lparr>db := d\<rparr>))"

definition move_branch_ref :: "ustr \<Rightarrow> hash_id option \<Rightarrow> hash_id \<Rightarrow> hash_id option st" where
  "move_branch_ref name expected dest =
     st_then (st_res (validate_ref_name name)) (\<lambda>_.
     st_then (st_query (\<lambda>d. require_commit d dest)) (\<lambda>_.
     st_then (st_query (\<lambda>d. lookup_named_ref (tb_branches d) name)) (\<lambda>previous.
       case previous of
         None \<Rightarrow> st_ret None
       | Some previous \<Rightarrow>
           if (case expected of None \<Rightarrow> False | Some v \<Rightarrow> v \<noteq> previous) then st_err BranchHeadMoved
           else
             st_then (st_update (\<lambda>d. and_then (update_row (length dest = 32) name ((=) previous) (\<lambda>_. dest) (tb_branches d)) (\<lambda>(n, t).
                 Inr (n, d\<lparr>tb_branches := t\<rparr>)))) (\<lambda>changed.
               if changed = 1 then st_ret (Some previous) else st_err BranchHeadMoved))))"

definition list_branches :: "database \<Rightarrow> NamedRef list res" where
  "list_branches d = list_named_refs (tb_branches d)"

section \<open>Tags\<close>

definition create_tag :: "ustr \<Rightarrow> hash_id \<Rightarrow> unit st" where
  "create_tag name dest =
     st_then (st_res (validate_ref_name name)) (\<lambda>_.
     st_then (st_query (\<lambda>d. require_commit d dest)) (\<lambda>_.
       st_exec (\<lambda>d. and_then (insert_row (length dest = 32) name dest (tb_tags d)) (\<lambda>t. Inr (d\<lparr>tb_tags := t\<rparr>)))))"

definition move_tag :: "ustr \<Rightarrow> hash_id \<Rightarrow> hash_id option st" where
  "move_tag name dest =
     st_then (st_res (validate_ref_name name)) (\<lambda>_.
     st_then (st_query (\<lambda>d. require_commit d dest)) (\<lambda>_.
     st_then (st_query (\<lambda>d. lookup_named_ref (tb_tags d) name)) (\<lambda>previous.
       case previous of
         None \<Rightarrow> st_ret None
       | Some previous \<Rightarrow>
           st_then (st_update (\<lambda>d. and_then (update_row (length dest = 32) name (\<lambda>_. True) (\<lambda>_. dest) (tb_tags d)) (\<lambda>(n, t).
               Inr (n, d\<lparr>tb_tags := t\<rparr>)))) (\<lambda>_.
             st_ret (Some previous)))))"

definition delete_tag :: "ustr \<Rightarrow> hash_id option st" where
  "delete_tag name =
     st_then (st_res (validate_ref_name name)) (\<lambda>_.
     st_then (st_query (\<lambda>d. lookup_named_ref (tb_tags d) name)) (\<lambda>previous.
       if previous = None then st_ret None
       else st_then (st_exec (\<lambda>d. Inr (d\<lparr>tb_tags := om_del name (tb_tags d)\<rparr>))) (\<lambda>_. st_ret previous)))"

definition list_tags :: "database \<Rightarrow> NamedRef list res" where
  "list_tags d = list_named_refs (tb_tags d)"

section \<open>Descriptors\<close>

definition resolve_version_descriptor :: "database \<Rightarrow> ustr \<Rightarrow> hash_id res" where
  "resolve_version_descriptor d descriptor =
     (case split_once slash descriptor of
        None \<Rightarrow> Inl (NotFound ''version descriptor '')
      | Some (kind, value) \<Rightarrow>
          if value = [] then Inl (NotFound ''version descriptor '')
          else if kind = ascii ''branch'' then branch_head d value
          else if kind = ascii ''tag'' then
            and_then (lookup_named_ref (tb_tags d) value) (\<lambda>found. ok_or found (NotFound ''tag ''))
          else if kind = ascii ''commit'' \<and> slash \<notin> set value then
            and_then (hash_from_hex value) (\<lambda>commit. and_then (require_commit d commit) (\<lambda>_. Inr commit))
          else Inl (NotFound ''version descriptor ''))"

section \<open>Merge sessions\<close>

record MergeSessionRecord =
  mr_id :: ustr
  mr_target_branch :: ustr
  mr_ours :: hash_id
  mr_theirs :: hash_id
  mr_revision :: i64
  mr_created_at :: i64

text \<open>Formatting with \<^verbatim>\<open>{:0wx}\<close> a number of at most \<open>w\<close> hexadecimal digits.\<close>

fun hex_padded :: "nat \<Rightarrow> nat \<Rightarrow> ustr" where
  "hex_padded 0 n = []"
| "hex_padded (Suc w) n = hex_padded w (n div 16) @ [hex_char (n mod 16)]"

definition be_nat :: "bytes \<Rightarrow> nat" where
  "be_nat bs = foldl (\<lambda>n b. n * 256 + unat b) 0 bs"

text \<open>The sixteen random bytes of \<^verbatim>\<open>getrandom\<close>, or its failure, are an argument.\<close>

definition generate_session_id :: "bytes option \<Rightarrow> ustr res" where
  "generate_session_id random =
     and_then (ok_or random (Corrupt ''failed to generate Merge Session id: '')) (\<lambda>bytes.
       let bytes = bytes[6 := or (and (bytes ! 6) 0x0f) 0x40];
           bytes = bytes[8 := or (and (bytes ! 8) 0x3f) 0x80];
           value = be_nat bytes
       in Inr (ascii ''merge-session/'' @ hex_padded 8 (value div 2 ^ 96 mod 2 ^ 32) @ ascii ''-''
            @ hex_padded 4 (value div 2 ^ 80 mod 2 ^ 16) @ ascii ''-'' @ hex_padded 4 (value div 2 ^ 64 mod 2 ^ 16) @ ascii ''-''
            @ hex_padded 4 (value div 2 ^ 48 mod 2 ^ 16) @ ascii ''-'' @ hex_padded 12 (value mod 2 ^ 48)))"

definition create_merge_session ::
    "bytes option \<Rightarrow> ustr \<Rightarrow> hash_id \<Rightarrow> hash_id \<Rightarrow> hash_id option \<Rightarrow> i64 \<Rightarrow> MergeSessionRecord st" where
  "create_merge_session random target_branch ours theirs expected_head created_at =
     st_then (st_res (generate_session_id random)) (\<lambda>i.
     st_then (st_exec (\<lambda>d. and_then (insert_row (length ours = 32 \<and> length theirs = 32) i
         \<lparr>ms_target_branch = target_branch, ms_ours_commit = ours, ms_theirs_commit = theirs, ms_revision = 1, ms_created_at = created_at\<rparr>
         (tb_merge_sessions d)) (\<lambda>t. Inr (d\<lparr>tb_merge_sessions := t\<rparr>)))) (\<lambda>_.
     st_then (st_query (\<lambda>d. if \<not> commit_exists d ours \<or> \<not> commit_exists d theirs then Inl (NotFound ''pinned merge Commit'') else Inr ())) (\<lambda>_.
     st_then (st_query (\<lambda>d. case expected_head of None \<Rightarrow> Inr ()
         | Some expected \<Rightarrow> and_then (branch_head d target_branch) (\<lambda>head.
             if head \<noteq> expected \<or> expected \<noteq> ours then Inl BranchHeadMoved else Inr ()))) (\<lambda>_.
       st_ret \<lparr>mr_id = i, mr_target_branch = target_branch, mr_ours = ours, mr_theirs = theirs, mr_revision = 1, mr_created_at = created_at\<rparr>))))"

definition session_record :: "ustr \<Rightarrow> MergeSessionRow \<Rightarrow> MergeSessionRecord res" where
  "session_record i row =
     and_then (hash_from_slice (ms_ours_commit row)) (\<lambda>ours.
     and_then (hash_from_slice (ms_theirs_commit row)) (\<lambda>theirs.
       Inr \<lparr>mr_id = i, mr_target_branch = ms_target_branch row, mr_ours = ours, mr_theirs = theirs,
            mr_revision = ms_revision row, mr_created_at = ms_created_at row\<rparr>))"

definition load_merge_session :: "database \<Rightarrow> ustr \<Rightarrow> MergeSessionRecord option res" where
  "load_merge_session d i =
     (case om_get (tb_merge_sessions d) i of None \<Rightarrow> Inr None | Some row \<Rightarrow> and_then (session_record i row) (\<lambda>r. Inr (Some r)))"

definition list_merge_sessions_after :: "database \<Rightarrow> ustr option \<Rightarrow> nat \<Rightarrow> MergeSessionRecord list res" where
  "list_merge_sessions_after d after limit =
     map_res (\<lambda>(i, row). session_record i row)
       (take (min limit (2 ^ 63 - 1))
         (filter (\<lambda>(i, _). case after of None \<Rightarrow> True | Some a \<Rightarrow> i > a) (om_entries (tb_merge_sessions d))))"

definition load_merge_resolutions :: "database \<Rightarrow> ustr \<Rightarrow> (hash_id, ustr) omap res" where
  "load_merge_resolutions d session =
     fold_res (\<lambda>(i, resolution) resolutions. and_then (hash_from_slice i) (\<lambda>i. Inr (om_put i resolution resolutions)))
       (om_entries (om_slice session (tb_merge_resolutions d))) om_empty"

text \<open>
  The resolutions of a session are replaced, and its revision counts up. Past the largest \<^verbatim>\<open>i64\<close> the sum of
  the statement is a \<^verbatim>\<open>REAL\<close> and the sum in Rust overflows: the model fails there.
\<close>

definition update_merge_resolutions :: "ustr \<Rightarrow> i64 \<Rightarrow> (hash_id, ustr) omap \<Rightarrow> bool \<Rightarrow> i64 st" where
  "update_merge_resolutions session expected_revision replacements changed =
     st_then (st_update (\<lambda>d. and_then (update_row True session (\<lambda>row. ms_revision row = expected_revision) (\<lambda>row. row)
         (tb_merge_sessions d)) (\<lambda>(n, t). Inr (n, d\<lparr>tb_merge_sessions := t\<rparr>)))) (\<lambda>touched.
       if touched \<noteq> 1 then
         st_then (st_query (\<lambda>d. load_merge_session d session)) (\<lambda>found.
           if found = None then st_err (NotFound ''Merge Session '') else st_err BranchHeadMoved)
       else
         st_then (st_all (\<lambda>(conflict_id, resolution).
             st_exec (\<lambda>d. if length conflict_id = 32
               then Inr (d\<lparr>tb_merge_resolutions := om_put (session, conflict_id) resolution (tb_merge_resolutions d)\<rparr>)
               else Inl (Sqlite ConstraintViolation))) (om_entries replacements)) (\<lambda>_.
           if \<not> changed then st_ret expected_revision
           else if expected_revision = i64_max then st_err (Corrupt ''attempt to add with overflow'')
           else
             st_then (st_update (\<lambda>d. and_then (update_row (expected_revision + 1 > 0) session (\<lambda>row. ms_revision row = expected_revision)
                 (\<lambda>row. row\<lparr>ms_revision := ms_revision row + 1\<rparr>) (tb_merge_sessions d)) (\<lambda>(n, t). Inr (n, d\<lparr>tb_merge_sessions := t\<rparr>)))) (\<lambda>changed_rows.
               if changed_rows \<noteq> 1 then st_err BranchHeadMoved else st_ret (expected_revision + 1))))"

definition delete_merge_session :: "ustr \<Rightarrow> i64 \<Rightarrow> bool st" where
  "delete_merge_session session expected_revision =
     st_then (st_update (\<lambda>d. case om_get (tb_merge_sessions d) session of
         None \<Rightarrow> Inr (0, d)
       | Some row \<Rightarrow> if ms_revision row = expected_revision
           then Inr (1 :: nat, d\<lparr>tb_merge_sessions := om_del session (tb_merge_sessions d)\<rparr>) else Inr (0, d))) (\<lambda>changed.
       if changed = 0 then
         st_then (st_query (\<lambda>d. load_merge_session d session)) (\<lambda>found.
           if found = None then st_ret False else st_err BranchHeadMoved)
       else
         st_then (st_exec (\<lambda>d. Inr (d\<lparr>tb_merge_resolutions := om_filter (\<lambda>(i, _) _. i \<noteq> session) (tb_merge_resolutions d)\<rparr>))) (\<lambda>_.
           st_ret True))"

text \<open>A \<^verbatim>\<open>UNION\<close> of two columns: its rows are distinct and ordered.\<close>

definition merge_session_roots :: "database \<Rightarrow> hash_id list res" where
  "merge_session_roots d =
     map_res hash_from_slice (om_keys (om_of (map (\<lambda>h. (h, ()))
       (map ms_ours_commit (om_values (tb_merge_sessions d)) @ map ms_theirs_commit (om_values (tb_merge_sessions d))))))"

end
