(* ===== verification/History.thy ===== *)
theory History
  imports Refs
begin

text \<open>
  Immutable history (\<^verbatim>\<open>storage/version/history.rs\<close>): commit records and their data, the reachable commits, common
  ancestors, the log, and the removal of a staged chain. Garbage collection (\<^verbatim>\<open>storage/version/gc.rs\<close>).
  A \<^verbatim>\<open>BTreeSet\<close> is a map to \<open>unit\<close>; the recursive queries of SQLite are work lists.
\<close>

section \<open>Commit records\<close>

record CommitRecord =
  rec_id :: hash_id
  rec_format_version :: i64
  rec_parent1 :: "hash_id option"
  rec_parent2 :: "hash_id option"
  rec_schema_hash :: hash_id
  rec_metadata :: CommitMetadata

text \<open>\<^verbatim>\<open>as_deref().map(HashId::from_slice).transpose()?\<close>.\<close>

definition parent_from_slice :: "bytes option \<Rightarrow> hash_id option res" where
  "parent_from_slice p = (case p of None \<Rightarrow> Inr None | Some bs \<Rightarrow> and_then (hash_from_slice bs) (\<lambda>h. Inr (Some h)))"

definition load_commit :: "database \<Rightarrow> hash_id \<Rightarrow> CommitRecord res" where
  "load_commit d commit =
     and_then (ok_or (om_get (tb_commits d) commit) (NotFound ''Commit '')) (\<lambda>row.
     and_then (parent_from_slice (cr_parent1 row)) (\<lambda>p1.
     and_then (parent_from_slice (cr_parent2 row)) (\<lambda>p2.
     and_then (hash_from_slice (cr_schema_hash row)) (\<lambda>schema_hash.
       Inr \<lparr>rec_id = commit, rec_format_version = cr_format_version row, rec_parent1 = p1, rec_parent2 = p2,
            rec_schema_hash = schema_hash,
            rec_metadata = \<lparr>author = cr_author row, message = cr_message row, committed_at = cr_committed_at row\<rparr>\<rparr>))))"

definition commit_data :: "database \<Rightarrow> hash_id \<Rightarrow> ustr option res" where
  "commit_data d commit = and_then (require_commit d commit) (\<lambda>_. Inr (om_get (tb_commit_data d) commit))"

text \<open>\<^verbatim>\<open>serde_json::from_str\<close> reads the bytes of the text.\<close>

definition set_commit_data :: "serde_json \<Rightarrow> hash_id \<Rightarrow> ustr \<Rightarrow> unit st" where
  "set_commit_data J commit data_json =
     st_then (st_query (\<lambda>d. require_commit d commit)) (\<lambda>_.
     st_then (st_res (case json_from_slice J data_json of None \<Rightarrow> Inl (Corrupt ''Commit Data must contain valid JSON'') | Some _ \<Rightarrow> Inr ())) (\<lambda>_.
       st_exec (\<lambda>d. if length commit = 32 then Inr (d\<lparr>tb_commit_data := om_put commit data_json (tb_commit_data d)\<rparr>)
                    else Inl (Sqlite ConstraintViolation))))"

definition clear_commit_data :: "hash_id \<Rightarrow> unit st" where
  "clear_commit_data commit =
     st_then (st_query (\<lambda>d. require_commit d commit)) (\<lambda>_.
       st_exec (\<lambda>d. Inr (d\<lparr>tb_commit_data := om_del commit (tb_commit_data d)\<rparr>)))"

definition create_empty_commit :: "platform \<Rightarrow> ustr \<Rightarrow> hash_id \<Rightarrow> CommitMetadata \<Rightarrow> database \<Rightarrow> hash_id res \<times> database" where
  "create_empty_commit P branch expected_head metadata = commit_layer P branch expected_head None layer_default metadata"

section \<open>Reachable commits\<close>

definition record_parents :: "CommitRecord \<Rightarrow> hash_id list" where
  "record_parents r = (case rec_parent1 r of None \<Rightarrow> [] | Some p \<Rightarrow> [p]) @ (case rec_parent2 r of None \<Rightarrow> [] | Some p \<Rightarrow> [p])"

text \<open>The frontier is a vector popped at its end: its last element comes first here.\<close>

function reachable_loop :: "database \<Rightarrow> hash_id list \<Rightarrow> (hash_id, unit) omap \<Rightarrow> (hash_id, unit) omap res" where
  "reachable_loop d [] reachable = Inr reachable"
| "reachable_loop d (commit # frontier) reachable =
     (if om_has reachable commit then reachable_loop d frontier reachable
      else and_then (load_commit d commit) (\<lambda>record.
             reachable_loop d (rev (record_parents record) @ frontier) (om_put commit () reachable)))"
  by pat_completeness auto

definition unvisited :: "database \<Rightarrow> (bytes, unit) omap \<Rightarrow> nat" where
  "unvisited d seen = card (set (om_keys (tb_commits d)) - set (om_keys seen))"

lemma om_keys_has: "k \<in> set (om_keys t) \<longleftrightarrow> om_has t k"
  by (simp only: om_keys_iff om_has_def)

lemma om_has_put: "om_has (om_put c v seen) k \<longleftrightarrow> k = c \<or> om_has seen k"
  by (simp add: om_has_def)

lemma om_keys_put: "set (om_keys (om_put c v seen)) = insert c (set (om_keys seen))"
  unfolding set_eq_iff insert_iff om_keys_has om_has_put by blast

lemma unvisited_put:
  assumes "om_has (tb_commits d) c" "\<not> om_has seen c"
  shows "unvisited d (om_put c () seen) < unvisited d seen"
  unfolding unvisited_def om_keys_put
proof (rule psubset_card_mono)
  have "c \<in> set (om_keys (tb_commits d))" "c \<notin> set (om_keys seen)" using assms by (simp_all add: om_keys_has)
  then show "set (om_keys (tb_commits d)) - insert c (set (om_keys seen)) \<subset> set (om_keys (tb_commits d)) - set (om_keys seen)"
    by blast
qed simp

lemma load_commit_has: "load_commit d c = Inr r \<Longrightarrow> om_has (tb_commits d) c"
  by (auto simp: load_commit_def om_has_def)

termination reachable_loop
  by (relation "measures [\<lambda>(d, frontier, seen). unvisited d seen, \<lambda>(d, frontier, seen). length frontier]")
     (auto simp: unvisited_put dest: load_commit_has)

definition reachable_commits :: "database \<Rightarrow> hash_id list \<Rightarrow> (hash_id, unit) omap res" where
  "reachable_commits d roots = reachable_loop d (rev roots) om_empty"

definition is_ancestor :: "database \<Rightarrow> hash_id \<Rightarrow> hash_id \<Rightarrow> bool res" where
  "is_ancestor d ancestor descendant =
     (if ancestor = descendant then Inr True
      else and_then (reachable_commits d [descendant]) (\<lambda>reachable. Inr (om_has reachable ancestor)))"

section \<open>Recursive queries\<close>

text \<open>
  \<^verbatim>\<open>WITH RECURSIVE anc(id) AS (SELECT ? UNION SELECT c.parent1 ... UNION SELECT c.parent2 ...)\<close>: a row that is new is
  kept and joined with the commits; an identity without a commit has no parents.
\<close>

definition row_parents :: "database \<Rightarrow> bytes \<Rightarrow> bytes list" where
  "row_parents d i =
     (case om_get (tb_commits d) i of None \<Rightarrow> []
      | Some row \<Rightarrow> (case cr_parent1 row of None \<Rightarrow> [] | Some p \<Rightarrow> [p]) @ (case cr_parent2 row of None \<Rightarrow> [] | Some p \<Rightarrow> [p]))"

function recursive_ancestors :: "database \<Rightarrow> bytes list \<Rightarrow> (bytes, unit) omap \<Rightarrow> (bytes, unit) omap" where
  "recursive_ancestors d [] anc = anc"
| "recursive_ancestors d (i # queue) anc =
     (if om_has anc i then recursive_ancestors d queue anc
      else recursive_ancestors d (queue @ row_parents d i) (om_put i () anc))"
  by pat_completeness auto

lemma unvisited_put_le: "unvisited d (om_put c () seen) \<le> unvisited d seen"
  unfolding unvisited_def om_keys_put by (rule card_mono) auto

termination recursive_ancestors
proof (relation "measures [\<lambda>(d, queue, anc). unvisited d anc, \<lambda>(d, queue, anc). length queue]")
  fix d i queue and anc :: "(bytes, unit) omap"
  assume "\<not> om_has anc i"
  then show "((d, queue @ row_parents d i, om_put i () anc), d, i # queue, anc)
      \<in> measures [\<lambda>(d, queue, anc). unvisited d anc, \<lambda>(d, queue, anc). length queue]"
    using unvisited_put [of d i anc] unvisited_put_le [of d i anc]
    by (cases "om_has (tb_commits d) i") (auto simp: row_parents_def om_has_def le_neq_implies_less split: option.split)
qed auto

definition best_common_ancestors :: "database \<Rightarrow> hash_id \<Rightarrow> hash_id \<Rightarrow> hash_id list res" where
  "best_common_ancestors d left right =
     (let left_anc = recursive_ancestors d [left] om_empty; right_anc = recursive_ancestors d [right] om_empty;
          common = om_filter (\<lambda>i _. om_has right_anc i) left_anc
      in map_res hash_from_slice (filter (\<lambda>candidate. \<not> list_ex (\<lambda>(child, row). om_has common child
            \<and> (cr_parent1 row = Some candidate \<or> cr_parent2 row = Some candidate)) (om_entries (tb_commits d))) (om_keys common)))"

definition reachable_child_count :: "database \<Rightarrow> hash_id \<Rightarrow> hash_id \<Rightarrow> nat" where
  "reachable_child_count d start parent =
     (let reachable = recursive_ancestors d [start] om_empty
      in length (filter (\<lambda>(child, row). om_has reachable child \<and> (cr_parent1 row = Some parent \<or> cr_parent2 row = Some parent))
           (om_entries (tb_commits d))))"

section \<open>The log\<close>

text \<open>\<^verbatim>\<open>std::cmp::Reverse\<close> of a time.\<close>

datatype reverse = Reverse i64

instantiation reverse :: linorder
begin

fun less_reverse :: "reverse \<Rightarrow> reverse \<Rightarrow> bool" where
  "less_reverse (Reverse a) (Reverse b) \<longleftrightarrow> b < a"

fun less_eq_reverse :: "reverse \<Rightarrow> reverse \<Rightarrow> bool" where
  "less_eq_reverse (Reverse a) (Reverse b) \<longleftrightarrow> b \<le> a"

instance
proof
  fix x y z :: reverse
  show "(x < y) = (x \<le> y \<and> \<not> y \<le> x)" "x \<le> x" "x \<le> y \<or> y \<le> x" by (cases x; cases y; auto)+
  show "x \<le> y \<Longrightarrow> y \<le> z \<Longrightarrow> x \<le> z" by (cases x; cases y; cases z; auto)
  show "x \<le> y \<Longrightarrow> y \<le> x \<Longrightarrow> x = y" by (cases x; cases y; auto)
qed

end

type_synonym ready_key = "reverse \<times> hash_id"

definition ready_key :: "CommitRecord \<Rightarrow> ready_key" where
  "ready_key r = (Reverse (committed_at (rec_metadata r)), rec_id r)"

text \<open>\<^verbatim>\<open>*map.entry(k).or_default() += n\<close> and \<^verbatim>\<open>BTreeSet::pop_first\<close>.\<close>

definition add_count :: "'k::linorder \<Rightarrow> nat \<Rightarrow> ('k, nat) omap \<Rightarrow> ('k, nat) omap" where
  "add_count k n counts = om_put k ((case om_get counts k of None \<Rightarrow> 0 | Some c \<Rightarrow> c) + n) counts"

definition pop_first :: "('k::linorder, unit) omap \<Rightarrow> ('k \<times> ('k, unit) omap) option" where
  "pop_first s = (case om_entries s of [] \<Rightarrow> None | (k, _) # _ \<Rightarrow> Some (k, om_del k s))"

definition log_records ::
    "database \<Rightarrow> (hash_id, unit) omap \<Rightarrow> ((hash_id, CommitRecord) omap \<times> (hash_id, nat) omap) res" where
  "log_records d reachable =
     fold_res (\<lambda>commit (records, child_count).
         and_then (load_commit d commit) (\<lambda>record.
           let child_count = add_count commit 0 child_count;
               child_count = fold (\<lambda>parent counts. if om_has reachable parent then add_count parent 1 counts else counts)
                 (record_parents record) child_count
           in Inr (om_put commit record records, child_count)))
       (om_keys reachable) (om_empty, om_empty)"

text \<open>
  The loop of the log. \<open>None\<close> stands for a run without a result: one that does not end, or one that panics because the
  index \<^verbatim>\<open>&records[&commit]\<close> finds nothing.
\<close>

definition release_parent ::
    "(hash_id, unit) omap \<Rightarrow> (hash_id, CommitRecord) omap \<Rightarrow> hash_id \<Rightarrow> (hash_id, nat) omap \<times> (ready_key, unit) omap
       \<Rightarrow> ((hash_id, nat) omap \<times> (ready_key, unit) omap) res option" where
  "release_parent reachable records parent = (\<lambda>(child_count, ready).
     if \<not> om_has reachable parent then Some (Inr (child_count, ready))
     else
       (case om_get child_count parent of
          None \<Rightarrow> Some (Inl (Corrupt ''history traversal lost a parent''))
        | Some n \<Rightarrow>
            let n = n - 1; child_count = om_put parent n child_count
            in if n = 0 then
                 (case om_get records parent of
                    None \<Rightarrow> None
                  | Some parent_record \<Rightarrow>
                      Some (Inr (child_count, om_put (Reverse (committed_at (rec_metadata parent_record)), parent) () ready)))
               else Some (Inr (child_count, ready))))"

fun release_parents ::
    "(hash_id, unit) omap \<Rightarrow> (hash_id, CommitRecord) omap \<Rightarrow> hash_id list \<Rightarrow> (hash_id, nat) omap \<times> (ready_key, unit) omap
       \<Rightarrow> ((hash_id, nat) omap \<times> (ready_key, unit) omap) res option" where
  "release_parents reachable records [] s = Some (Inr s)"
| "release_parents reachable records (p # ps) s =
     (case release_parent reachable records p s of
        None \<Rightarrow> None
      | Some (Inl e) \<Rightarrow> Some (Inl e)
      | Some (Inr s) \<Rightarrow> release_parents reachable records ps s)"

partial_function (option) log_loop ::
    "(hash_id, unit) omap \<Rightarrow> (hash_id, CommitRecord) omap \<Rightarrow> (hash_id, nat) omap \<times> (ready_key, unit) omap
       \<Rightarrow> CommitRecord list \<Rightarrow> CommitRecord list res option" where
  "log_loop reachable records s output =
     (case pop_first (snd s) of
        None \<Rightarrow> Some (Inr output)
      | Some (key, ready) \<Rightarrow>
          (case om_get records (snd key) of
             None \<Rightarrow> None
           | Some record \<Rightarrow>
               (case release_parents reachable records (record_parents record) (fst s, ready) of
                  None \<Rightarrow> None
                | Some (Inl e) \<Rightarrow> Some (Inl e)
                | Some (Inr s) \<Rightarrow> log_loop reachable records s (output @ [record]))))"

declare log_loop.simps [code]

definition ready_commits :: "(hash_id, CommitRecord) omap \<Rightarrow> (hash_id, nat) omap \<Rightarrow> (ready_key, unit) omap option" where
  "ready_commits records child_count =
     map_option (\<lambda>keys. om_of (map (\<lambda>k. (k, ())) keys))
       (those (map (\<lambda>(commit, _). map_option (\<lambda>record. (Reverse (committed_at (rec_metadata record)), commit)) (om_get records commit))
          (filter (\<lambda>(_, n). n = 0) (om_entries child_count))))"

definition reverse_topological_log :: "database \<Rightarrow> hash_id \<Rightarrow> CommitRecord list res option" where
  "reverse_topological_log d start =
     (case reachable_commits d [start] of
        Inl e \<Rightarrow> Some (Inl e)
      | Inr reachable \<Rightarrow>
          (case log_records d reachable of
             Inl e \<Rightarrow> Some (Inl e)
           | Inr (records, child_count) \<Rightarrow>
               Option.bind (ready_commits records child_count) (\<lambda>ready.
                 map_option (\<lambda>r. and_then r (\<lambda>output.
                     if length output \<noteq> om_size records then Inl (Corrupt ''Commit DAG contains a cycle'') else Inr output))
                   (log_loop reachable records (child_count, ready) []))))"

end
