(* ===== verification/Gc.thy ===== *)
theory Gc
  imports History
begin

text \<open>
  Deletion of history: a staged chain that was never published (\<^verbatim>\<open>storage/version/history.rs\<close>) and the commits no
  reference reaches (\<^verbatim>\<open>storage/version/gc.rs\<close>). The generations of the persistent Standard Indexes, which are deleted with
  their commit, are not part of the model.
\<close>

section \<open>Deleting rows\<close>

text \<open>A \<^verbatim>\<open>DELETE\<close> of one row, with the number of rows deleted, and of the rows of one layer.\<close>

definition delete_row :: "'k::linorder \<Rightarrow> ('k, 'v) omap \<Rightarrow> nat \<times> ('k, 'v) omap" where
  "delete_row k t = (if om_has t k then (1, om_del k t) else (0, t))"

definition delete_slice :: "'a \<Rightarrow> ('a::linorder \<times> 'k::linorder, 'v) omap \<Rightarrow> ('a \<times> 'k, 'v) omap" where
  "delete_slice a t = om_filter (\<lambda>k _. fst k \<noteq> a) t"

definition delete_commit_auxiliary :: "hash_id \<Rightarrow> (nat \<times> nat) st" where
  "delete_commit_auxiliary commit =
     st_then (st_update (\<lambda>d. let (n, t) = delete_row commit (tb_commit_data d) in Inr (n, d\<lparr>tb_commit_data := t\<rparr>))) (\<lambda>commit_data.
     st_then (st_update (\<lambda>d. let (n, t) = delete_row commit (tb_checkpoints d) in Inr (n, d\<lparr>tb_checkpoints := t\<rparr>))) (\<lambda>checkpoints.
     st_then (st_exec (\<lambda>d. Inr (d\<lparr>tb_cp_nodes := delete_slice commit (tb_cp_nodes d)\<rparr>))) (\<lambda>_.
     st_then (st_exec (\<lambda>d. Inr (d\<lparr>tb_cp_labels := delete_slice commit (tb_cp_labels d)\<rparr>))) (\<lambda>_.
     st_then (st_exec (\<lambda>d. Inr (d\<lparr>tb_cp_relationships := delete_slice commit (tb_cp_relationships d)\<rparr>))) (\<lambda>_.
     st_then (st_exec (\<lambda>d. Inr (d\<lparr>tb_cp_properties := delete_slice commit (tb_cp_properties d)\<rparr>))) (\<lambda>_.
       st_ret (checkpoints, commit_data)))))))"

definition delete_layer_rows :: "i64 \<Rightarrow> unit st" where
  "delete_layer_rows layer_id =
     st_then (st_exec (\<lambda>d. Inr (d\<lparr>tb_node_delta := delete_slice layer_id (tb_node_delta d)\<rparr>))) (\<lambda>_.
     st_then (st_exec (\<lambda>d. Inr (d\<lparr>tb_label_delta := delete_slice layer_id (tb_label_delta d)\<rparr>))) (\<lambda>_.
     st_then (st_exec (\<lambda>d. Inr (d\<lparr>tb_rel_delta := delete_slice layer_id (tb_rel_delta d)\<rparr>))) (\<lambda>_.
       st_exec (\<lambda>d. Inr (d\<lparr>tb_property_delta := delete_slice layer_id (tb_property_delta d)\<rparr>)))))"

definition layer_referenced :: "database \<Rightarrow> i64 \<Rightarrow> bool" where
  "layer_referenced d layer_id \<longleftrightarrow> list_ex (\<lambda>row. cr_layer_id row = layer_id) (om_values (tb_commits d))"

definition schema_referenced :: "database \<Rightarrow> bytes \<Rightarrow> bool" where
  "schema_referenced d h \<longleftrightarrow> list_ex (\<lambda>row. cr_schema_hash row = h) (om_values (tb_commits d))"

section \<open>A staged chain\<close>

type_synonym staged_commit = "hash_id \<times> i64 \<times> hash_id"

text \<open>\<open>None\<close> stands for a walk around a cycle of parents.\<close>

partial_function (option) staged_chain_loop ::
    "database \<Rightarrow> hash_id \<Rightarrow> hash_id \<Rightarrow> staged_commit list \<Rightarrow> staged_commit list res option" where
  "staged_chain_loop d base current commits =
     (if current = base then Some (Inr commits)
      else
        (case om_get (tb_commits d) current of
           None \<Rightarrow> Some (Inl (NotFound ''Commit ''))
         | Some row \<Rightarrow>
             (case and_then (parent_from_slice (cr_parent1 row)) (\<lambda>p.
                   ok_or p (Corrupt ''staged Commit chain reached Root before base'')) of
                Inl e \<Rightarrow> Some (Inl e)
              | Inr parent \<Rightarrow>
                  (case hash_from_slice (cr_schema_hash row) of
                     Inl e \<Rightarrow> Some (Inl e)
                   | Inr schema_hash \<Rightarrow>
                       staged_chain_loop d base parent (commits @ [(current, cr_layer_id row, schema_hash)])))))"

declare staged_chain_loop.simps [code]

definition staged_chain :: "database \<Rightarrow> hash_id \<Rightarrow> hash_id \<Rightarrow> staged_commit list res option" where
  "staged_chain d base head = staged_chain_loop d base head []"

definition delete_staged_commits :: "staged_commit list \<Rightarrow> unit st" where
  "delete_staged_commits commits =
     st_all (\<lambda>(commit, _, _).
       st_then (delete_commit_auxiliary commit) (\<lambda>_.
       st_then (st_update (\<lambda>d. let (n, t) = delete_row commit (tb_commits d) in Inr (n, d\<lparr>tb_commits := t\<rparr>))) (\<lambda>n.
         if n \<noteq> 1 then st_err (Corrupt ''failed to delete transaction-local staged Commit '') else st_ret ()))) commits"

definition delete_orphan_staged_layers :: "staged_commit list \<Rightarrow> unit st" where
  "delete_orphan_staged_layers commits =
     st_all (\<lambda>layer_id.
       st_then (st_query (\<lambda>d. Inr (layer_referenced d layer_id))) (\<lambda>referenced.
         if referenced then st_ret ()
         else st_then (delete_layer_rows layer_id) (\<lambda>_.
           st_exec (\<lambda>d. Inr (d\<lparr>tb_layers := om_del layer_id (tb_layers d)\<rparr>)))))
       (om_keys (om_of (map (\<lambda>(_, layer_id, _). (layer_id, ())) commits)))"

definition delete_orphan_staged_schemas :: "staged_commit list \<Rightarrow> unit st" where
  "delete_orphan_staged_schemas commits =
     st_all (\<lambda>h. st_exec (\<lambda>d. Inr (if schema_referenced d h then d
         else d\<lparr>tb_schema_objects := om_del h (tb_schema_objects d)\<rparr>)))
       (om_keys (om_of (map (\<lambda>(_, _, h). (h, ())) commits)))"

definition discard_uncommitted_chain :: "hash_id \<Rightarrow> hash_id \<Rightarrow> conn \<Rightarrow> (unit res \<times> conn) option" where
  "discard_uncommitted_chain base head c =
     (if base = head then Some (Inr (), c)
      else
        map_option (\<lambda>chain.
          st_then (st_res chain) (\<lambda>commits.
          st_then (delete_staged_commits commits) (\<lambda>_.
          st_then (delete_orphan_staged_layers commits) (\<lambda>_.
            delete_orphan_staged_schemas commits))) c) (staged_chain (db c) base head))"

section \<open>Garbage collection\<close>

record GcCounters =
  gc_commits :: nat
  gc_layers :: nat
  gc_schemas :: nat
  gc_checkpoints :: nat
  gc_commit_data :: nat

definition gc_counters_default :: GcCounters where
  "gc_counters_default = \<lparr>gc_commits = 0, gc_layers = 0, gc_schemas = 0, gc_checkpoints = 0, gc_commit_data = 0\<rparr>"

definition all_commits :: "database \<Rightarrow> (hash_id, unit) omap res" where
  "all_commits d = fold_res (\<lambda>i commits. and_then (hash_from_slice i) (\<lambda>h. Inr (om_put h () commits))) (om_keys (tb_commits d)) om_empty"

definition unreachable_commits :: "database \<Rightarrow> hash_id list res" where
  "unreachable_commits d =
     and_then (list_branches d) (\<lambda>branches.
     and_then (list_tags d) (\<lambda>tags.
     and_then (merge_session_roots d) (\<lambda>sessions.
     and_then (reachable_commits d (map nr_commit branches @ map nr_commit tags @ sessions)) (\<lambda>reachable.
     and_then (all_commits d) (\<lambda>all.
       Inr (filter (\<lambda>c. \<not> om_has reachable c) (om_keys all)))))))"

text \<open>A loop that adds to the counters.\<close>

fun st_fold :: "('a \<Rightarrow> 's \<Rightarrow> 's st) \<Rightarrow> 'a list \<Rightarrow> 's \<Rightarrow> 's st" where
  "st_fold f [] s = st_ret s"
| "st_fold f (x # xs) s = st_then (f x s) (st_fold f xs)"

definition delete_unreachable_commits :: "hash_id list \<Rightarrow> GcCounters \<Rightarrow> GcCounters st" where
  "delete_unreachable_commits =
     st_fold (\<lambda>commit counters.
       st_then (delete_commit_auxiliary commit) (\<lambda>(checkpoints, commit_data).
       st_then (st_update (\<lambda>d. let (n, t) = delete_row commit (tb_commits d) in Inr (n, d\<lparr>tb_commits := t\<rparr>))) (\<lambda>commits.
         st_ret (counters\<lparr>gc_checkpoints := gc_checkpoints counters + checkpoints,
                   gc_commit_data := gc_commit_data counters + commit_data, gc_commits := gc_commits counters + commits\<rparr>))))"

definition orphan_layer_ids :: "database \<Rightarrow> i64 list" where
  "orphan_layer_ids d = filter (\<lambda>i. \<not> layer_referenced d i) (om_keys (tb_layers d))"

definition delete_orphan_layers :: "GcCounters \<Rightarrow> GcCounters st" where
  "delete_orphan_layers counters =
     st_then (st_query (\<lambda>d. Inr (orphan_layer_ids d))) (\<lambda>orphan_layers.
       st_fold (\<lambda>layer_id counters.
         st_then (delete_layer_rows layer_id) (\<lambda>_.
         st_then (st_update (\<lambda>d. let (n, t) = (if layer_referenced d layer_id then (0, tb_layers d) else delete_row layer_id (tb_layers d))
             in Inr (n, d\<lparr>tb_layers := t\<rparr>))) (\<lambda>layers.
           st_ret (counters\<lparr>gc_layers := gc_layers counters + layers\<rparr>)))) orphan_layers counters)"

definition delete_orphan_schemas :: "GcCounters \<Rightarrow> GcCounters st" where
  "delete_orphan_schemas counters =
     st_then (st_update (\<lambda>d. let t = om_filter (\<lambda>h _. schema_referenced d h) (tb_schema_objects d)
         in Inr (om_size (tb_schema_objects d) - om_size t, d\<lparr>tb_schema_objects := t\<rparr>))) (\<lambda>schemas.
       st_ret (counters\<lparr>gc_schemas := gc_schemas counters + schemas\<rparr>))"

definition collect_garbage :: "GcCounters st" where
  "collect_garbage =
     st_then (st_query unreachable_commits) (\<lambda>unreachable.
       if unreachable = [] then st_ret gc_counters_default
       else
         st_then (delete_unreachable_commits unreachable gc_counters_default) (\<lambda>counters.
         st_then (delete_orphan_layers counters) delete_orphan_schemas))"

end
