(* ===== verification/History_Laws.thy ===== *)
theory History_Laws
  imports Gc
begin

text \<open>
  The history of a database as a relation between commits, the searches over it (both are explorations of one
  relation), and what the log and the common ancestors are.
\<close>

section \<open>Exploring a relation\<close>

inductive explores :: "('k \<Rightarrow> 'k set) \<Rightarrow> 'k set \<Rightarrow> 'k set \<Rightarrow> 'k set \<Rightarrow> bool" for nxt where
  finish: "explores nxt {} seen seen"
| known: "i \<in> seen \<Longrightarrow> explores nxt F seen R \<Longrightarrow> explores nxt (insert i F) seen R"
| fresh: "i \<notin> seen \<Longrightarrow> explores nxt (F \<union> nxt i) (insert i seen) R \<Longrightarrow> explores nxt (insert i F) seen R"

text \<open>What is reached: the identities from which a member of a set is reached backwards.\<close>

definition reached :: "('k \<Rightarrow> 'k set) \<Rightarrow> 'k set \<Rightarrow> 'k set" where
  "reached nxt F = {(b, a). a \<in> nxt b}\<^sup>* `` F"

lemma reached_closed:
  assumes "\<And>x. x \<in> S \<Longrightarrow> nxt x \<subseteq> S \<union> F"
  shows "reached nxt S \<subseteq> S \<union> reached nxt F"
proof -
  have "b \<in> S \<union> reached nxt F" if "(a, b) \<in> {(b, a). a \<in> nxt b}\<^sup>*" "a \<in> S" for a b
    using that
  proof (induction rule: rtrancl_induct)
    case (step b c)
    show ?case
    proof (cases "b \<in> S")
      case True
      with assms step show ?thesis unfolding reached_def by blast
    next
      case False
      with step have "b \<in> reached nxt F" by blast
      with step(2) show ?thesis unfolding reached_def by (blast intro: rtrancl_into_rtrancl)
    qed
  qed blast
  then show ?thesis unfolding reached_def by blast
qed

lemma reached_insert: "reached nxt (insert i F) = insert i (reached nxt (F \<union> nxt i))"
proof -
  have "reached nxt {i} = insert i (reached nxt (nxt i))"
    unfolding reached_def by (auto elim: converse_rtranclE intro: converse_rtrancl_into_rtrancl)
  then show ?thesis unfolding reached_def by blast
qed

lemma reached_seen: "i \<in> S \<Longrightarrow> reached nxt {i} \<subseteq> reached nxt S"
  unfolding reached_def by blast

lemma explores_reached:
  assumes "explores nxt F seen R" "\<And>x. x \<in> seen \<Longrightarrow> nxt x \<subseteq> seen \<union> F"
  shows "R = seen \<union> reached nxt F"
  using assms
proof (induction rule: explores.induct)
  case (finish seen)
  then show ?case by (simp add: reached_def)
next
  case (known i seen F R)
  have closed: "nxt x \<subseteq> seen \<union> F" if "x \<in> seen" for x using known.prems [OF that] known.hyps(1) by blast
  then have "R = seen \<union> reached nxt F" by (rule known.IH)
  moreover have "reached nxt {i} \<subseteq> seen \<union> reached nxt F"
    using reached_closed [of seen nxt F, OF closed] reached_seen [OF known.hyps(1)] by blast
  ultimately show ?case unfolding reached_def by blast
next
  case (fresh i seen F R)
  have "R = insert i seen \<union> reached nxt (F \<union> nxt i)" by (rule fresh.IH) (use fresh.prems in blast)
  then show ?case by (simp add: reached_insert)
qed

lemmas explored = explores_reached [where seen = "{}", simplified]

section \<open>Histories\<close>

definition parent_rel :: "database \<Rightarrow> (hash_id \<times> hash_id) set" where
  "parent_rel d = {(p, c). p \<in> set (row_parents d c)}"

definition ancestor :: "database \<Rightarrow> hash_id \<Rightarrow> hash_id \<Rightarrow> bool" where
  "ancestor d a c \<longleftrightarrow> (a, c) \<in> (parent_rel d)\<^sup>*"

text \<open>Rows satisfy the constraints of their table, parents are commits, and no commit is its own ancestor.\<close>

definition history_ok :: "database \<Rightarrow> bool" where
  "history_ok d \<longleftrightarrow> om_all commit_row_checks (tb_commits d)
     \<and> om_all (\<lambda>c _. list_all (om_has (tb_commits d)) (row_parents d c)) (tb_commits d) \<and> acyclic (parent_rel d)"

lemma reached_ancestors: "reached (\<lambda>c. set (row_parents d c)) F = {a. \<exists>c \<in> F. ancestor d a c}"
proof -
  have "{(b, a). a \<in> set (row_parents d b)} = (parent_rel d)\<inverse>" by (auto simp: parent_rel_def)
  then show ?thesis by (auto simp: reached_def ancestor_def rtrancl_converse)
qed

lemma ancestor_refl [simp]: "ancestor d c c"
  by (simp add: ancestor_def)

lemma ancestor_trans: "ancestor d a b \<Longrightarrow> ancestor d b c \<Longrightarrow> ancestor d a c"
  by (simp add: ancestor_def)

lemma ancestor_parent: "p \<in> set (row_parents d c) \<Longrightarrow> ancestor d p c"
  by (auto simp: ancestor_def parent_rel_def)

lemma row_parents_has: "p \<in> set (row_parents d c) \<Longrightarrow> om_has (tb_commits d) c"
  by (cases "om_get (tb_commits d) c") (auto simp: row_parents_def om_has_def)

lemma ancestor_has:
  assumes "history_ok d" "ancestor d a c" "om_has (tb_commits d) c"
  shows "om_has (tb_commits d) a"
  using assms(2) unfolding ancestor_def
proof (induction rule: converse_rtrancl_induct)
  case base
  then show ?case by (rule assms(3))
next
  case (step y z)
  then show ?case using assms(1) by (auto simp: history_ok_def parent_rel_def om_all_iff list_all_iff om_has_def)
qed

lemma ancestor_antisym:
  assumes "history_ok d" "ancestor d a c" "ancestor d c a"
  shows "a = c"
  using assms unfolding history_ok_def ancestor_def by (auto intro: acyclic_impl_antisym_rtrancl [THEN antisymD])

lemma history_row:
  "history_ok d \<Longrightarrow> om_get (tb_commits d) c = Some row \<Longrightarrow> commit_row_checks c row \<and> list_all (om_has (tb_commits d)) (row_parents d c)"
  by (simp add: history_ok_def om_all_iff)

lemma history_parent: "history_ok d \<Longrightarrow> p \<in> set (row_parents d c) \<Longrightarrow> om_has (tb_commits d) p"
  using history_row [of d c] row_parents_has [of p d c] by (auto simp: om_has_def list_all_iff)

lemma commit_id_length: "history_ok d \<Longrightarrow> om_has (tb_commits d) c \<Longrightarrow> length c = 32"
  using history_row [of d c] by (auto simp: om_has_def commit_row_checks_def)

lemma load_commit_parents: "load_commit d c = Inr r \<Longrightarrow> record_parents r = row_parents d c \<and> rec_id r = c"
  by (auto simp: load_commit_def parent_from_slice_def hash_from_slice_def record_parents_def row_parents_def split: option.splits if_splits)

lemma parent_from_slice_ok: "(case p of None \<Rightarrow> True | Some b \<Rightarrow> length b = 32) \<Longrightarrow> parent_from_slice p = Inr p"
  by (auto simp: parent_from_slice_def hash_from_slice_def split: option.splits)

lemma load_commit_ok:
  assumes "history_ok d" "om_has (tb_commits d) c"
  shows "\<exists>r. load_commit d c = Inr r"
proof -
  obtain row where row: "om_get (tb_commits d) c = Some row" using assms(2) by (auto simp: om_has_def)
  with history_row [OF assms(1)] have "commit_row_checks c row" by blast
  then show ?thesis by (simp add: load_commit_def row commit_row_checks_def parent_from_slice_ok hash_from_slice_def)
qed

section \<open>Searching\<close>

lemma reachable_loop_explores:
  "reachable_loop d F seen = Inr R \<Longrightarrow>
     explores (\<lambda>c. set (row_parents d c)) (set F) (set (om_keys seen)) (set (om_keys R))"
proof (induction d F seen arbitrary: R rule: reachable_loop.induct)
  case (2 d c F seen)
  show ?case
  proof (cases "om_has seen c")
    case True
    with 2 show ?thesis by (auto simp: om_keys_has intro: explores.known)
  next
    case False
    with "2.prems" obtain r where r: "load_commit d c = Inr r" "reachable_loop d (rev (record_parents r) @ F) (om_put c () seen) = Inr R" by auto
    have "explores (\<lambda>c. set (row_parents d c)) (set F \<union> set (row_parents d c)) (insert c (set (om_keys seen))) (set (om_keys R))"
      using "2.IH"(2) [OF False r] load_commit_parents [OF r(1)] by (simp add: om_keys_put Un_commute)
    with False show ?thesis by (simp add: om_keys_has explores.fresh)
  qed
qed (simp add: explores.finish)

lemma reachable_loop_total:
  "history_ok d \<Longrightarrow> \<forall>c \<in> set F. om_has (tb_commits d) c \<Longrightarrow> \<exists>R. reachable_loop d F seen = Inr R"
proof (induction d F seen rule: reachable_loop.induct)
  case (2 d c F seen)
  obtain r where r: "load_commit d c = Inr r" using load_commit_ok [of d c] "2.prems" by auto
  have "\<forall>p \<in> set (rev (record_parents r) @ F). om_has (tb_commits d) p"
    using "2.prems" load_commit_parents [OF r] history_parent [of d] by auto
  with 2 r show ?case by auto
qed auto

lemma reachable_commits_exact:
  assumes "history_ok d" "\<And>c. c \<in> set roots \<Longrightarrow> om_has (tb_commits d) c"
  shows "\<exists>R. reachable_commits d roots = Inr R \<and> (\<forall>a. om_has R a \<longleftrightarrow> (\<exists>c \<in> set roots. ancestor d a c))"
proof -
  obtain R where R: "reachable_loop d (rev roots) om_empty = Inr R"
    using reachable_loop_total [OF assms(1), of "rev roots"] assms(2) by auto
  have "explores (\<lambda>c. set (row_parents d c)) (set roots) {} (set (om_keys R))"
    using reachable_loop_explores [OF R] by (simp add: set_om_keys)
  from explored [OF this] R show ?thesis
    by (auto simp: reachable_commits_def reached_ancestors simp flip: om_keys_has)
qed

lemma recursive_ancestors_explores:
  "explores (\<lambda>c. set (row_parents d c)) (set F) (set (om_keys seen)) (set (om_keys (recursive_ancestors d F seen)))"
proof (induction d F seen rule: recursive_ancestors.induct)
  case (2 d c F seen)
  show ?case
  proof (cases "om_has seen c")
    case True
    with 2 show ?thesis by (auto simp: om_keys_has intro: explores.known)
  next
    case False
    with 2 show ?thesis by (simp add: om_keys_put om_keys_has explores.fresh)
  qed
qed (simp add: explores.finish)

lemma recursive_ancestors_has: "om_has (recursive_ancestors d [c] om_empty) a \<longleftrightarrow> ancestor d a c"
proof -
  have "explores (\<lambda>c. set (row_parents d c)) {c} {} (set (om_keys (recursive_ancestors d [c] om_empty)))"
    using recursive_ancestors_explores [of d "[c]" om_empty] by (simp add: set_om_keys)
  from explored [OF this] show ?thesis by (auto simp: reached_ancestors simp flip: om_keys_has)
qed

section \<open>Best common ancestors\<close>

definition common_ancestor :: "database \<Rightarrow> hash_id \<Rightarrow> hash_id \<Rightarrow> hash_id \<Rightarrow> bool" where
  "common_ancestor d l r a \<longleftrightarrow> ancestor d a l \<and> ancestor d a r"

definition best_common :: "database \<Rightarrow> hash_id \<Rightarrow> hash_id \<Rightarrow> hash_id \<Rightarrow> bool" where
  "best_common d l r a \<longleftrightarrow> common_ancestor d l r a \<and> (\<forall>b. common_ancestor d l r b \<longrightarrow> ancestor d a b \<longrightarrow> b = a)"

lemma common_child_iff:
  assumes "history_ok d"
  shows "(\<exists>b. common_ancestor d l r b \<and> a \<in> set (row_parents d b)) \<longleftrightarrow> (\<exists>b. common_ancestor d l r b \<and> ancestor d a b \<and> b \<noteq> a)"
proof
  assume "\<exists>b. common_ancestor d l r b \<and> a \<in> set (row_parents d b)"
  then obtain b where b: "common_ancestor d l r b" "a \<in> set (row_parents d b)" by blast
  then have "(a, b) \<in> (parent_rel d)\<^sup>+" by (auto simp: parent_rel_def)
  then have "b \<noteq> a" using assms by (auto simp: history_ok_def acyclic_def)
  then show "\<exists>b. common_ancestor d l r b \<and> ancestor d a b \<and> b \<noteq> a" using b ancestor_parent by blast
next
  assume "\<exists>b. common_ancestor d l r b \<and> ancestor d a b \<and> b \<noteq> a"
  then obtain b where b: "common_ancestor d l r b" "ancestor d a b" "b \<noteq> a" by blast
  then obtain c where c: "(a, c) \<in> parent_rel d" "ancestor d c b"
    unfolding ancestor_def by (metis converse_rtranclE)
  then have "common_ancestor d l r c" using b(1) ancestor_trans unfolding common_ancestor_def by blast
  with c(1) show "\<exists>b. common_ancestor d l r b \<and> a \<in> set (row_parents d b)" by (auto simp: parent_rel_def)
qed

end
