(* ===== verification/History_Theorems.thy ===== *)
theory History_Theorems
  imports History_Laws
begin

text \<open>
  The theorems on histories: the searches find exactly the ancestors, the common ancestors that are returned are the
  best ones, and the log is the one order the code promises, and always ends.
\<close>

section \<open>The specification of the log\<close>

text \<open>A commit of a set is free when none of its children is left in the set.\<close>

definition free_in :: "database \<Rightarrow> hash_id set \<Rightarrow> hash_id \<Rightarrow> bool" where
  "free_in d A c \<longleftrightarrow> c \<in> A \<and> (\<forall>b \<in> A. c \<notin> set (row_parents d b))"

text \<open>The log of a set takes, again and again, the free commit with the least key: the latest, then the least identity.\<close>

fun log_of :: "database \<Rightarrow> hash_id set \<Rightarrow> CommitRecord list \<Rightarrow> bool" where
  "log_of d A [] \<longleftrightarrow> A = {}"
| "log_of d A (r # rs) \<longleftrightarrow> load_commit d (rec_id r) = Inr r \<and> free_in d A (rec_id r)
     \<and> (\<forall>c s. free_in d A c \<longrightarrow> load_commit d c = Inr s \<longrightarrow> ready_key r \<le> ready_key s)
     \<and> log_of d (A - {rec_id r}) rs"

lemma log_of_ids: "log_of d A rs \<Longrightarrow> set (map rec_id rs) = A \<and> distinct (map rec_id rs)"
proof (induction rs arbitrary: A)
  case (Cons r rs)
  then have "set (map rec_id rs) = A - {rec_id r}" "distinct (map rec_id rs)" "rec_id r \<in> A"
    by (auto simp: free_in_def)
  then show ?case by auto
qed simp

lemma log_of_children_first:
  assumes "log_of d A rs" "\<And>c p. c \<in> A \<Longrightarrow> p \<in> set (row_parents d c) \<Longrightarrow> p \<in> A"
  shows "sorted_wrt (\<lambda>r s. \<not> ancestor d (rec_id r) (rec_id s)) rs"
  using assms
proof (induction rs arbitrary: A)
  case (Cons r rs)
  have free: "free_in d A (rec_id r)" using Cons.prems(1) by simp
  have "\<not> ancestor d (rec_id r) (rec_id s)" if s: "s \<in> set rs" for s
  proof
    have inA: "rec_id s \<in> A - {rec_id r}" using log_of_ids [of d "A - {rec_id r}" rs] Cons.prems(1) s by auto
    assume "ancestor d (rec_id r) (rec_id s)"
    then obtain b where b: "(rec_id r, b) \<in> parent_rel d" "ancestor d b (rec_id s)"
      using inA unfolding ancestor_def by (metis converse_rtranclE Diff_iff insertI1)
    have "b \<in> A"
      using b(2) inA unfolding ancestor_def
      by (induction rule: converse_rtrancl_induct) (use Cons.prems(2) in \<open>auto simp: parent_rel_def\<close>)
    with b(1) free show False by (auto simp: free_in_def parent_rel_def)
  qed
  moreover have "sorted_wrt (\<lambda>r s. \<not> ancestor d (rec_id r) (rec_id s)) rs"
    by (rule Cons.IH [of "A - {rec_id r}"]) (use Cons.prems free in \<open>auto simp: free_in_def\<close>)
  ultimately show ?case by simp
qed simp

section \<open>Counting children\<close>

definition child_edges :: "database \<Rightarrow> hash_id set \<Rightarrow> hash_id \<Rightarrow> nat" where
  "child_edges d A p = (\<Sum>c \<in> A. count_list (row_parents d c) p)"

lemma child_edges_free: "finite A \<Longrightarrow> c \<in> A \<Longrightarrow> child_edges d A c = 0 \<longleftrightarrow> free_in d A c"
  by (auto simp: child_edges_def free_in_def count_list_0_iff)

lemma child_edges_remove:
  "finite A \<Longrightarrow> c \<in> A \<Longrightarrow> child_edges d (A - {c}) p = child_edges d A p - count_list (row_parents d c) p"
  by (simp add: child_edges_def sum_diff1_nat)

lemma child_edges_ge: "finite A \<Longrightarrow> c \<in> A \<Longrightarrow> count_list (row_parents d c) p \<le> child_edges d A p"
  unfolding child_edges_def by (rule member_le_sum) auto

definition counts :: "(hash_id, nat) omap \<Rightarrow> hash_id \<Rightarrow> nat" where
  "counts t p = (case om_get t p of None \<Rightarrow> 0 | Some n \<Rightarrow> n)"

lemma add_count_simps [simp]:
  "counts (add_count p n t) q = counts t q + (if q = p then n else 0)" "om_has (add_count p n t) q \<longleftrightarrow> q = p \<or> om_has t q"
  by (auto simp: counts_def add_count_def)

lemma add_counts:
  assumes "\<And>p. p \<in> set ps \<Longrightarrow> om_has R p"
  shows "counts (fold (\<lambda>parent t. if om_has R parent then add_count parent 1 t else t) ps t) q = counts t q + count_list ps q
    \<and> (om_has (fold (\<lambda>parent t. if om_has R parent then add_count parent 1 t else t) ps t) q \<longleftrightarrow> q \<in> set ps \<or> om_has t q)"
  using assms by (induction ps arbitrary: t) auto

text \<open>What holds of a database and the set of commits a log is taken of.\<close>

definition log_set :: "database \<Rightarrow> (hash_id, unit) omap \<Rightarrow> (hash_id \<Rightarrow> CommitRecord) \<Rightarrow> bool" where
  "log_set d R rec \<longleftrightarrow> (\<forall>c. om_has R c \<longrightarrow> load_commit d c = Inr (rec c) \<and> rec_id (rec c) = c
     \<and> record_parents (rec c) = row_parents d c \<and> (\<forall>p \<in> set (row_parents d c). om_has R p))"

lemma log_records_ok:
  assumes "log_set d R rec"
  shows "\<exists>records t. log_records d R = Inr (records, t) \<and> (\<forall>c. om_get records c = (if om_has R c then Some (rec c) else None))
    \<and> (\<forall>p. counts t p = child_edges d (set (om_keys R)) p) \<and> (\<forall>c. om_has t c \<longleftrightarrow> om_has R c)"
proof -
  let ?step = "\<lambda>commit (records, child_count). and_then (load_commit d commit) (\<lambda>record.
           let child_count = add_count commit 0 child_count;
               child_count = fold (\<lambda>parent counts. if om_has R parent then add_count parent 1 counts else counts)
                 (record_parents record) child_count
           in Inr (om_put commit record records, child_count))"
  have "\<exists>records' t'. fold_res ?step cs (records, t) = Inr (records', t')
      \<and> (\<forall>c. om_get records' c = (if c \<in> set cs then Some (rec c) else om_get records c))
      \<and> (\<forall>p. counts t' p = counts t p + (\<Sum>c\<leftarrow>cs. count_list (row_parents d c) p))
      \<and> (\<forall>c. om_has t' c \<longleftrightarrow> om_has t c \<or> c \<in> set cs \<or> (\<exists>b \<in> set cs. c \<in> set (row_parents d b)))"
    if "\<forall>c \<in> set cs. om_has R c" for cs records t
    using that
  proof (induction cs arbitrary: records t)
    case (Cons c cs)
    have c: "load_commit d c = Inr (rec c)" "record_parents (rec c) = row_parents d c" "\<And>p. p \<in> set (row_parents d c) \<Longrightarrow> om_has R p"
      using assms Cons.prems by (auto simp: log_set_def)
    let ?t = "fold (\<lambda>parent counts. if om_has R parent then add_count parent 1 counts else counts) (row_parents d c) (add_count c 0 t)"
    have t: "counts ?t q = counts t q + count_list (row_parents d c) q" "om_has ?t q \<longleftrightarrow> q \<in> set (row_parents d c) \<or> q = c \<or> om_has t q" for q
      using add_counts [of "row_parents d c" R "add_count c 0 t" q, OF c(3)] by auto
    have "fold_res ?step (c # cs) (records, t) = fold_res ?step cs (om_put c (rec c) records, ?t)"
      by (simp add: c(1,2))
    moreover obtain records' t' where IH: "fold_res ?step cs (om_put c (rec c) records, ?t) = Inr (records', t')"
      "\<And>b. om_get records' b = (if b \<in> set cs then Some (rec b) else om_get (om_put c (rec c) records) b)"
      "\<And>p. counts t' p = counts ?t p + (\<Sum>c\<leftarrow>cs. count_list (row_parents d c) p)"
      "\<And>b. om_has t' b \<longleftrightarrow> om_has ?t b \<or> b \<in> set cs \<or> (\<exists>a \<in> set cs. b \<in> set (row_parents d a))"
      using Cons.IH [of "om_put c (rec c) records" ?t] Cons.prems by auto
    ultimately show ?case by (intro exI [of _ records'] exI [of _ t']) (auto simp: t)
  qed simp
  from this [of "om_keys R" om_empty om_empty] obtain records t where
    "log_records d R = Inr (records, t)" "\<And>c. om_get records c = (if c \<in> set (om_keys R) then Some (rec c) else None)"
    "\<And>p. counts t p = (\<Sum>c\<leftarrow>om_keys R. count_list (row_parents d c) p)"
    "\<And>c. om_has t c \<longleftrightarrow> c \<in> set (om_keys R) \<or> (\<exists>b \<in> set (om_keys R). c \<in> set (row_parents d b))"
    by (auto simp: log_records_def counts_def om_keys_has)
  moreover have "(\<Sum>c\<leftarrow>om_keys R. count_list (row_parents d c) p) = child_edges d (set (om_keys R)) p" for p
    by (simp add: child_edges_def sum_list_distinct_conv_sum_set)
  ultimately show ?thesis using assms by (auto simp: om_keys_has log_set_def)
qed

section \<open>The loop of the log\<close>

lemma release_parents_ok:
  assumes "\<And>p. p \<in> set ps \<Longrightarrow> om_has R p \<and> om_get records p = Some (rec p) \<and> rec_id (rec p) = p"
    and "\<And>p. om_has R p \<Longrightarrow> om_has t p" and "\<And>p. count_list ps p \<le> counts t p"
  shows "\<exists>t' ready'. release_parents R records ps (t, ready) = Some (Inr (t', ready'))
    \<and> (\<forall>p. counts t' p = counts t p - count_list ps p) \<and> (\<forall>p. om_has t' p \<longleftrightarrow> om_has t p)
    \<and> (\<forall>k. om_has ready' k \<longleftrightarrow> om_has ready k \<or> (\<exists>p \<in> set ps. counts t' p = 0 \<and> k = ready_key (rec p)))"
  using assms
proof (induction ps arbitrary: t ready)
  case (Cons p ps)
  have p: "om_has R p" "om_get records p = Some (rec p)" "rec_id (rec p) = p" using Cons.prems(1) by simp_all
  obtain n where n: "om_get t p = Some n" using Cons.prems(2) [OF p(1)] by (auto simp: om_has_def)
  let ?t = "om_put p (n - 1) t"
  let ?ready = "if n - 1 = 0 then om_put (ready_key (rec p)) () ready else ready"
  have step: "release_parent R records p (t, ready) = Some (Inr (?t, ?ready))"
    using p n by (simp add: release_parent_def Let_def ready_key_def)
  have counts: "counts ?t q = counts t q - (if q = p then 1 else 0)" for q using n by (simp add: counts_def)
  have "count_list ps q \<le> counts ?t q" for q
    using Cons.prems(3) [of q] unfolding counts by (auto split: if_splits)
  then obtain t' ready' where IH: "release_parents R records ps (?t, ?ready) = Some (Inr (t', ready'))"
    "\<And>q. counts t' q = counts ?t q - count_list ps q" "\<And>q. om_has t' q \<longleftrightarrow> om_has ?t q"
    "\<And>k. om_has ready' k \<longleftrightarrow> om_has ?ready k \<or> (\<exists>q \<in> set ps. counts t' q = 0 \<and> k = ready_key (rec q))"
    using Cons.IH [of ?t ?ready] Cons.prems(1,2) by auto
  have zero: "counts t' p = 0 \<longleftrightarrow> p \<in> set ps \<and> counts t' p = 0 \<or> n - 1 = 0"
  proof (cases "p \<in> set ps")
    case False
    then show ?thesis using IH(2) [of p] by (simp add: counts_def count_notin)
  next
    case True
    then show ?thesis using IH(2) [of p] by (auto simp: counts_def)
  qed
  have "om_has ready' k \<longleftrightarrow> om_has ready k \<or> (\<exists>q \<in> set (p # ps). counts t' q = 0 \<and> k = ready_key (rec q))" for k
    using IH(4) [of k] zero by auto
  moreover have "counts t' q = counts t q - count_list (p # ps) q" for q using IH(2) [of q] counts [of q] by auto
  moreover have "om_has t' q \<longleftrightarrow> om_has t q" for q using IH(3) [of q] n by (auto simp: om_has_def)
  ultimately show ?case using step IH(1) by (intro exI [of _ t'] exI [of _ ready']) simp
qed simp

lemma pop_first_None: "pop_first s = None \<longleftrightarrow> (\<forall>k. \<not> om_has s k)"
proof -
  have "pop_first s = None \<longleftrightarrow> set (om_keys s) = {}" by (auto simp: pop_first_def om_keys_def split: list.splits)
  then show ?thesis by (auto simp flip: om_keys_has)
qed

lemma pop_first_Some:
  assumes "pop_first s = Some (k, s')"
  shows "om_has s k \<and> s' = om_del k s \<and> (\<forall>l. om_has s l \<longrightarrow> k \<le> l)"
proof -
  obtain v rest where e: "om_entries s = (k, v) # rest" and s': "s' = om_del k s"
    using assms by (auto simp: pop_first_def split: list.splits)
  have "sorted (om_keys s)" by simp
  then have "\<forall>l \<in> set (om_keys s). k \<le> l" by (simp add: om_keys_def e)
  moreover have "k \<in> set (om_keys s)" by (simp add: om_keys_def e)
  ultimately show ?thesis using s' by (auto simp: om_keys_has)
qed

lemma free_exists:
  assumes "history_ok d" "finite A" "A \<noteq> {}"
  shows "\<exists>c. free_in d A c"
proof -
  let ?r = "(parent_rel d \<inter> A \<times> A)\<inverse>"
  have "acyclic (parent_rel d)" using assms(1) by (simp add: history_ok_def)
  then have "acyclic (parent_rel d \<inter> A \<times> A)" by (rule acyclic_subset) blast
  moreover have "finite (parent_rel d \<inter> A \<times> A)" using assms(2) by (intro finite_Int) simp
  ultimately have "wf ?r" by (intro finite_acyclic_wf_converse)
  then obtain c where c: "c \<in> A" "\<And>b. (b, c) \<in> ?r \<Longrightarrow> b \<notin> A" using wfE_min' [OF _ assms(3)] by metis
  have "c \<notin> set (row_parents d b)" if "b \<in> A" for b
    using c(2) [of b] c(1) that by (auto simp: parent_rel_def)
  with c(1) show ?thesis by (auto simp: free_in_def)
qed

definition log_state :: "database \<Rightarrow> (hash_id, unit) omap \<Rightarrow> (hash_id \<Rightarrow> CommitRecord) \<Rightarrow> hash_id set
    \<Rightarrow> (hash_id, nat) omap \<times> (ready_key, unit) omap \<Rightarrow> bool" where
  "log_state d R rec A s \<longleftrightarrow> (\<forall>p. counts (fst s) p = child_edges d A p) \<and> (\<forall>c. om_has R c \<longrightarrow> om_has (fst s) c)
     \<and> (\<forall>k. om_has (snd s) k \<longleftrightarrow> (\<exists>c. free_in d A c \<and> k = ready_key (rec c)))"

lemma ready_key_inject: "log_set d R rec \<Longrightarrow> om_has R a \<Longrightarrow> om_has R b \<Longrightarrow> ready_key (rec a) = ready_key (rec b) \<longleftrightarrow> a = b"
  by (metis Pair_inject log_set_def ready_key_def)

lemma log_step:
  assumes "log_set d R rec" "log_state d R rec A s" "A \<subseteq> set (om_keys R)"
    and closed: "\<forall>c \<in> A. set (row_parents d c) \<subseteq> A"
    and "\<And>c. om_get records c = (if om_has R c then Some (rec c) else None)"
    and "pop_first (snd s) = Some (key, ready)"
  shows "\<exists>c s'. snd key = c \<and> free_in d A c \<and> (\<forall>b. free_in d A b \<longrightarrow> ready_key (rec c) \<le> ready_key (rec b))
    \<and> om_get records c = Some (rec c)
    \<and> release_parents R records (record_parents (rec c)) (fst s, ready) = Some (Inr s') \<and> log_state d R rec (A - {c}) s'"
proof -
  have fin: "finite A" using assms(3) finite_subset by blast
  have inR: "om_has R b" if "b \<in> A" for b using assms(3) that by (auto simp: om_keys_has)
  obtain c where c: "free_in d A c" "key = ready_key (rec c)" and least: "\<And>b. free_in d A b \<Longrightarrow> key \<le> ready_key (rec b)"
    and ready: "ready = om_del key (snd s)"
    using pop_first_Some [OF assms(6)] assms(2) unfolding log_state_def by blast
  have cA: "c \<in> A" using c(1) by (simp add: free_in_def)
  have facts: "rec_id (rec b) = b" "record_parents (rec b) = row_parents d b" "\<And>p. p \<in> set (row_parents d b) \<Longrightarrow> om_has R p"
    if "om_has R b" for b
    using assms(1) that by (auto simp: log_set_def)
  have ps: "om_has R p \<and> om_get records p = Some (rec p) \<and> rec_id (rec p) = p" if "p \<in> set (row_parents d c)" for p
    using facts(3) [OF inR [OF cA] that] facts(1) assms(5) by auto
  have le: "count_list (row_parents d c) p \<le> counts (fst s) p" for p
    using child_edges_ge [OF fin cA] assms(2) by (simp add: log_state_def)
  obtain t' ready' where rel: "release_parents R records (row_parents d c) (fst s, ready) = Some (Inr (t', ready'))"
    "\<And>p. counts t' p = counts (fst s) p - count_list (row_parents d c) p" "\<And>p. om_has t' p \<longleftrightarrow> om_has (fst s) p"
    "\<And>k. om_has ready' k \<longleftrightarrow> om_has ready k \<or> (\<exists>p \<in> set (row_parents d c). counts t' p = 0 \<and> k = ready_key (rec p))"
    using release_parents_ok [where rec = rec and ready = ready, OF ps _ le] assms(2) unfolding log_state_def by blast
  have edges: "counts t' p = child_edges d (A - {c}) p" for p
    using rel(2) assms(2) by (simp add: log_state_def child_edges_remove [OF fin cA])
  have "om_has ready' k \<longleftrightarrow> (\<exists>b. free_in d (A - {c}) b \<and> k = ready_key (rec b))" for k
  proof -
    have "free_in d (A - {c}) b \<longleftrightarrow> (free_in d A b \<and> b \<noteq> c) \<or> (b \<in> set (row_parents d c) \<and> b \<in> A \<and> child_edges d (A - {c}) b = 0)" for b
      using child_edges_free [of "A - {c}" b d] fin c(1) by (auto simp: free_in_def)
    then have free: "free_in d (A - {c}) b \<longleftrightarrow> (free_in d A b \<and> b \<noteq> c) \<or> (b \<in> set (row_parents d c) \<and> counts t' b = 0)" for b
      using closed cA edges by auto
    have "ready_key (rec b) = ready_key (rec c) \<longleftrightarrow> b = c" if "free_in d A b" for b
      using ready_key_inject [OF assms(1)] inR cA that by (auto simp: free_in_def)
    moreover have "om_has (snd s) k \<longleftrightarrow> (\<exists>b. free_in d A b \<and> k = ready_key (rec b))" using assms(2) unfolding log_state_def by blast
    moreover have "om_has ready k \<longleftrightarrow> k \<noteq> ready_key (rec c) \<and> om_has (snd s) k" by (simp add: ready c(2))
    ultimately have "om_has ready k \<longleftrightarrow> (\<exists>b. free_in d A b \<and> b \<noteq> c \<and> k = ready_key (rec b))" by auto
    then show ?thesis unfolding rel(4) free by blast
  qed
  then have "log_state d R rec (A - {c}) (t', ready')"
    using assms(2) edges rel(3) by (simp add: log_state_def)
  moreover have "om_get records c = Some (rec c)" using inR [OF cA] assms(5) by simp
  moreover have "snd key = c" using facts(1) [OF inR [OF cA]] by (simp add: c(2) ready_key_def)
  moreover have "\<forall>b. free_in d A b \<longrightarrow> ready_key (rec c) \<le> ready_key (rec b)" using least unfolding c(2) by blast
  moreover have "release_parents R records (record_parents (rec c)) (fst s, ready) = Some (Inr (t', ready'))"
    using rel(1) facts(2) [OF inR [OF cA]] by simp
  ultimately show ?thesis using c(1) by blast
qed

lemma log_loop_ok:
  assumes "history_ok d" "log_set d R rec" "\<And>c. om_get records c = (if om_has R c then Some (rec c) else None)"
    and "log_state d R rec A s" "A \<subseteq> set (om_keys R)" "\<forall>c \<in> A. set (row_parents d c) \<subseteq> A"
  shows "\<exists>rs. log_loop R records s acc = Some (Inr (acc @ rs)) \<and> log_of d A rs"
  using assms(4-6)
proof (induction "card A" arbitrary: A s acc)
  case 0
  have "finite A" using 0(3) finite_subset by blast
  with 0 have A: "A = {}" by simp
  then have "pop_first (snd s) = None" using "0.prems"(1) by (simp add: pop_first_None log_state_def free_in_def)
  with A show ?case by (simp add: log_loop.simps [of R records s])
next
  case (Suc n)
  have fin: "finite A" using Suc.prems(2) finite_subset by blast
  have "A \<noteq> {}" using Suc.hyps(2) by auto
  then obtain c0 where "free_in d A c0" using free_exists [OF assms(1) fin] by blast
  then have "om_has (snd s) (ready_key (rec c0))" using Suc.prems(1) unfolding log_state_def by blast
  then have "pop_first (snd s) \<noteq> None" unfolding pop_first_None by blast
  then obtain key ready where pop: "pop_first (snd s) = Some (key, ready)" by auto
  obtain c s' where c: "snd key = c" "free_in d A c" "\<And>b. free_in d A b \<Longrightarrow> ready_key (rec c) \<le> ready_key (rec b)"
    and records: "om_get records c = Some (rec c)"
    and rel: "release_parents R records (record_parents (rec c)) (fst s, ready) = Some (Inr s')" and s': "log_state d R rec (A - {c}) s'"
    using log_step [of d R rec A s records key ready, OF assms(2) Suc.prems assms(3) pop] by (elim exE conjE) simp
  have "n = card (A - {c})" using Suc.hyps(2) c(2) fin by (simp add: free_in_def)
  moreover have "\<forall>b \<in> A - {c}. set (row_parents d b) \<subseteq> A - {c}"
    using Suc.prems(3) c(2) by (auto simp: free_in_def)
  ultimately obtain rs where rs: "log_loop R records s' (acc @ [rec c]) = Some (Inr ((acc @ [rec c]) @ rs))" "log_of d (A - {c}) rs"
    using Suc.hyps(1) [of "A - {c}" s' "acc @ [rec c]"] s' Suc.prems(2) by blast
  have loads: "load_commit d b = Inr (rec b) \<and> rec_id (rec b) = b" if "b \<in> A" for b
    using assms(2) Suc.prems(2) that by (auto simp: log_set_def om_keys_has)
  then have "log_of d A (rec c # rs)" using c(2,3) rs(2) by (auto simp: free_in_def)
  moreover have "log_loop R records s acc = Some (Inr (acc @ rec c # rs))"
    using pop c(1) records rel rs(1) by (simp add: log_loop.simps [of R records s])
  ultimately show ?case by blast
qed

lemma ready_commits_ok:
  assumes "log_set d R rec" "\<And>c. om_get records c = (if om_has R c then Some (rec c) else None)"
    and "\<And>p. counts t p = child_edges d (set (om_keys R)) p" "\<And>c. om_has t c \<longleftrightarrow> om_has R c"
  shows "\<exists>ready. ready_commits records t = Some ready \<and> log_state d R rec (set (om_keys R)) (t, ready)"
proof -
  let ?zero = "filter (\<lambda>(_, n). n = 0) (om_entries t)"
  have mem: "(c, n) \<in> set ?zero \<longleftrightarrow> n = 0 \<and> free_in d (set (om_keys R)) c" for c n
  proof -
    have "c \<in> set (om_keys R)" if "om_get t c = Some n" using assms(4) [of c] that by (simp add: om_keys_has) (simp add: om_has_def)
    moreover have "om_get t c = Some 0" if "free_in d (set (om_keys R)) c"
      using that assms(3) [of c] assms(4) [of c] child_edges_free [of "set (om_keys R)" c d]
      by (auto simp: free_in_def counts_def om_keys_has om_has_def [of t] split: option.splits)
    moreover have "free_in d (set (om_keys R)) c" if "om_get t c = Some 0" "c \<in> set (om_keys R)"
      using that assms(3) [of c] child_edges_free [of "set (om_keys R)" c d] by (simp add: counts_def)
    ultimately show ?thesis by (auto simp: om_entries_iff)
  qed
  have keys: "those (map (\<lambda>(commit, _). map_option (\<lambda>record. (Reverse (committed_at (rec_metadata record)), commit)) (om_get records commit)) kvs)
      = Some (map (\<lambda>(c, _). ready_key (rec c)) kvs)" if "\<forall>(c, n) \<in> set kvs. om_has R c" for kvs :: "(hash_id \<times> nat) list"
    using that
  proof (induction kvs)
    case (Cons x kvs)
    obtain c n where x: "x = (c, n)" by (metis prod.collapse)
    have "rec_id (rec c) = c" using Cons.prems assms(1) by (auto simp: x log_set_def)
    with Cons show ?case by (simp add: x assms(2) ready_key_def)
  qed simp
  have "\<forall>(c, n) \<in> set ?zero. om_has R c" using mem by (auto simp: free_in_def om_keys_has simp del: set_filter)
  from keys [OF this] have ready: "ready_commits records t = Some (om_of (map (\<lambda>k. (k, ())) (map (\<lambda>(c, _). ready_key (rec c)) ?zero)))"
    by (simp add: ready_commits_def)
  have "om_has (om_of (map (\<lambda>k. (k, ())) ks)) k \<longleftrightarrow> k \<in> set ks" for ks and k :: ready_key
  proof -
    have "om_has (om_put_all (map (\<lambda>k. (k, ())) ks) s) k \<longleftrightarrow> k \<in> set ks \<or> om_has s k" for s
      by (induction ks arbitrary: s) (auto simp: om_put_all_def)
    then show ?thesis by (simp add: om_of_def)
  qed
  moreover have "k \<in> set (map (\<lambda>(c, _). ready_key (rec c)) ?zero) \<longleftrightarrow> (\<exists>c. free_in d (set (om_keys R)) c \<and> k = ready_key (rec c))" for k
    using mem by (force simp del: set_filter)
  ultimately have "log_state d R rec (set (om_keys R)) (t, om_of (map (\<lambda>k. (k, ())) (map (\<lambda>(c, _). ready_key (rec c)) ?zero)))"
    unfolding log_state_def fst_conv snd_conv using assms(3,4) by presburger
  with ready show ?thesis by blast
qed

section \<open>An example history\<close>

text \<open>Two commits on the root, and their merge.\<close>

definition example_row :: "hash_id option \<Rightarrow> hash_id option \<Rightarrow> i64 \<Rightarrow> CommitRow" where
  "example_row p1 p2 at = \<lparr>cr_format_version = 3, cr_parent1 = p1, cr_parent2 = p2, cr_layer_id = 1, cr_schema_hash = len_id 12,
     cr_author = None, cr_message = None, cr_committed_at = at\<rparr>"

definition diamond :: database where
  "diamond = first_db\<lparr>tb_commits := om_of [(len_id 1, example_row None None 0), (len_id 2, example_row (Some (len_id 1)) None 5),
     (len_id 3, example_row (Some (len_id 1)) None 7), (len_id 4, example_row (Some (len_id 2)) (Some (len_id 3)) 9)]\<rparr>"

lemma diamond_commits: "om_get (tb_commits diamond) = [len_id 1 \<mapsto> example_row None None 0, len_id 2 \<mapsto> example_row (Some (len_id 1)) None 5,
    len_id 3 \<mapsto> example_row (Some (len_id 1)) None 7, len_id 4 \<mapsto> example_row (Some (len_id 2)) (Some (len_id 3)) 9]"
  by (simp add: diamond_def om_of_def om_put_all_def om_get_put)

lemma len_id_simps [simp]: "length (len_id a) = 32" "len_id a = len_id b \<longleftrightarrow> a = b"
  by (simp_all add: len_id_def)

lemma diamond_ok: "history_ok diamond"
proof -
  have "acyclic (parent_rel diamond)"
  proof (rule acyclic_subset)
    show "acyclic (measure (\<lambda>c. unat (last c)))" by (rule wf_acyclic) simp
    show "parent_rel diamond \<subseteq> measure (\<lambda>c. unat (last c))"
      by (auto simp: parent_rel_def row_parents_def diamond_commits example_row_def len_id_def split: option.splits if_splits)
  qed
  moreover have "om_all commit_row_checks (tb_commits diamond)"
    by (auto simp: om_all_iff diamond_commits commit_row_checks_def example_row_def split: if_splits)
  moreover have "om_all (\<lambda>c _. list_all (om_has (tb_commits diamond)) (row_parents diamond c)) (tb_commits diamond)"
    unfolding om_all_iff list_all_iff om_has_def row_parents_def diamond_commits
    by (auto simp: example_row_def split: if_splits)
  ultimately show ?thesis by (simp add: history_ok_def)
qed

lemma diamond_has: "om_has (tb_commits diamond) (len_id 1)" "om_has (tb_commits diamond) (len_id 2)" "om_has (tb_commits diamond) (len_id 3)"
    "om_has (tb_commits diamond) (len_id 4)"
  by (simp_all add: om_has_def diamond_commits)

section \<open>Theorems\<close>

text \<open>C18. Reachability is exact: from commits of a sound history the search ends with exactly their ancestors, and one
  commit is reported an ancestor of another precisely when there is a path of parents, of either kind, between them.\<close>

theorem reachability_exact:
  assumes "history_ok d" and "\<forall>c \<in> set roots. om_has (tb_commits d) c" and "om_has (tb_commits d) b"
  shows "(\<exists>R. reachable_commits d roots = Inr R \<and> (\<forall>a. om_has R a \<longleftrightarrow> (\<exists>c \<in> set roots. ancestor d a c)))
    \<and> is_ancestor d a b = Inr (ancestor d a b)"
proof -
  obtain R where "reachable_commits d [b] = Inr R" "\<And>a. om_has R a \<longleftrightarrow> ancestor d a b"
    using reachable_commits_exact [OF assms(1), of "[b]"] assms(3) by auto
  then have "is_ancestor d a b = Inr (ancestor d a b)" by (simp add: is_ancestor_def)
  then show ?thesis using reachable_commits_exact [OF assms(1)] assms(2) by simp
qed

theorem reachability_exact_witness:
  "is_ancestor diamond (len_id 1) (len_id 4) = Inr True \<and> is_ancestor diamond (len_id 2) (len_id 3) = Inr False
    \<and> is_ancestor diamond (len_id 1) (len_id 4) = Inr (ancestor diamond (len_id 1) (len_id 4))"
proof -
  have "is_ancestor diamond (len_id 1) (len_id 4) = Inr True" "is_ancestor diamond (len_id 2) (len_id 3) = Inr False" by code_simp+
  with reachability_exact [OF diamond_ok, of "[len_id 4]" "len_id 4" "len_id 1"] diamond_has show ?thesis by simp
qed

text \<open>C11. The best common ancestors of two commits: the query returns, in order and once each, exactly the common ancestors
  that are below no other common ancestor; every common ancestor is an ancestor of one of them.\<close>

theorem best_common_ancestors_exact:
  assumes "history_ok d" and "om_has (tb_commits d) l" and "om_has (tb_commits d) r"
  shows "\<exists>bs. best_common_ancestors d l r = Inr bs \<and> sorted_wrt (<) bs \<and> (\<forall>a. a \<in> set bs \<longleftrightarrow> best_common d l r a)
    \<and> (\<forall>a. common_ancestor d l r a \<longrightarrow> (\<exists>b \<in> set bs. ancestor d a b))"
proof -
  define common where "common = om_filter (\<lambda>i _. om_has (recursive_ancestors d [r] om_empty) i) (recursive_ancestors d [l] om_empty)"
  define bs where "bs = filter (\<lambda>candidate. \<not> list_ex (\<lambda>(child, row). om_has common child
            \<and> (cr_parent1 row = Some candidate \<or> cr_parent2 row = Some candidate)) (om_entries (tb_commits d))) (om_keys common)"
  have has: "om_has common a \<longleftrightarrow> common_ancestor d l r a" for a
    using recursive_ancestors_has [of d l a] recursive_ancestors_has [of d r a]
    by (auto simp: common_def om_has_def om_get_filter common_ancestor_def split: option.splits)
  have "list_ex (\<lambda>(child, row). om_has common child \<and> (cr_parent1 row = Some a \<or> cr_parent2 row = Some a)) (om_entries (tb_commits d))
      \<longleftrightarrow> (\<exists>b. common_ancestor d l r b \<and> a \<in> set (row_parents d b))" for a
  proof -
    have "a \<in> set (row_parents d b) \<longleftrightarrow> (\<exists>row. om_get (tb_commits d) b = Some row \<and> (cr_parent1 row = Some a \<or> cr_parent2 row = Some a))" for b
      by (cases "om_get (tb_commits d) b") (auto simp: row_parents_def split: option.splits)
    moreover have "list_ex (\<lambda>(child, row). Q child row) (om_entries t) \<longleftrightarrow> (\<exists>b row. om_get t b = Some row \<and> Q b row)" for Q and t :: "(bytes, CommitRow) omap"
      by (force simp: list_ex_iff om_entries_iff)
    ultimately show ?thesis by (auto simp: has)
  qed
  then have mem: "a \<in> set bs \<longleftrightarrow> best_common d l r a" for a
    by (auto simp: bs_def om_keys_has has common_child_iff [OF assms(1)] best_common_def)
  have len: "length a = 32" if "common_ancestor d l r a" for a
    using that ancestor_has [OF assms(1) _ assms(2)] commit_id_length [OF assms(1)] by (auto simp: common_ancestor_def)
  have "map_res hash_from_slice bs = Inr bs"
    by (rule map_res_map [where g = id, simplified]) (use mem len in \<open>auto simp: hash_from_slice_def best_common_def\<close>)
  then have run: "best_common_ancestors d l r = Inr bs"
    by (simp add: best_common_ancestors_def bs_def common_def Let_def)
  have "\<exists>b. best_common d l r b \<and> ancestor d a b" if a: "common_ancestor d l r a" for a
  proof -
    let ?A = "{b. common_ancestor d l r b \<and> ancestor d a b}"
    have "?A \<subseteq> set (om_keys (tb_commits d))"
      using ancestor_has [OF assms(1) _ assms(2)] by (auto simp: common_ancestor_def om_keys_has)
    then have "finite ?A" using finite_subset by blast
    moreover have "?A \<noteq> {}" using a by auto
    ultimately obtain b where "free_in d ?A b" using free_exists [OF assms(1)] by blast
    then have b: "common_ancestor d l r b" "ancestor d a b" "\<And>c. common_ancestor d l r c \<Longrightarrow> ancestor d a c \<Longrightarrow> b \<notin> set (row_parents d c)"
      by (auto simp: free_in_def)
    have "\<not> (\<exists>c. common_ancestor d l r c \<and> b \<in> set (row_parents d c))"
      using b(2,3) ancestor_parent ancestor_trans by blast
    then have "best_common d l r b" using b(1) common_child_iff [OF assms(1)] by (auto simp: best_common_def)
    with b(2) show ?thesis by blast
  qed
  moreover have "sorted_wrt (<) bs" unfolding bs_def by (rule sorted_wrt_filter) (rule strict_om_keys)
  ultimately show ?thesis using run mem by blast
qed

theorem best_common_ancestors_exact_witness:
  "best_common_ancestors diamond (len_id 2) (len_id 3) = Inr [len_id 1] \<and> best_common diamond (len_id 2) (len_id 3) (len_id 1)"
proof -
  have "best_common_ancestors diamond (len_id 2) (len_id 3) = Inr [len_id 1]" by code_simp
  with best_common_ancestors_exact [OF diamond_ok diamond_has(2,3)] show ?thesis by auto
qed

text \<open>C19. The log of a commit always ends, without an error and without a panic, and is the one list the code promises: of
  the ancestors not listed yet that have no unlisted child, the latest comes next, ties broken by the least identity.
  So it lists every ancestor once, and no commit before one of its children.\<close>

theorem log_complete:
  assumes "history_ok d" and "om_has (tb_commits d) start"
  shows "\<exists>rs. reverse_topological_log d start = Some (Inr rs) \<and> log_of d {a. ancestor d a start} rs
    \<and> distinct (map rec_id rs) \<and> set (map rec_id rs) = {a. ancestor d a start}
    \<and> sorted_wrt (\<lambda>r s. \<not> ancestor d (rec_id r) (rec_id s)) rs"
proof -
  obtain R where R: "reachable_commits d [start] = Inr R" "\<And>a. om_has R a \<longleftrightarrow> ancestor d a start"
    using reachable_commits_exact [OF assms(1), of "[start]"] assms(2) by auto
  define rec where "rec = (\<lambda>c. projr (load_commit d c))"
  have "load_commit d c = Inr (rec c)" if "om_has R c" for c
    using load_commit_ok [OF assms(1) ancestor_has [OF assms(1) _ assms(2)], of c] that by (auto simp: R(2) rec_def)
  then have log_set: "log_set d R rec"
    unfolding log_set_def using load_commit_parents R(2) ancestor_parent ancestor_trans by blast
  have keys: "set (om_keys R) = {a. ancestor d a start}" by (auto simp: om_keys_has R(2))
  have closed: "\<forall>c \<in> set (om_keys R). set (row_parents d c) \<subseteq> set (om_keys R)"
    using ancestor_parent ancestor_trans by (fastforce simp: keys)
  obtain records t where records: "log_records d R = Inr (records, t)" "\<And>c. om_get records c = (if om_has R c then Some (rec c) else None)"
    "\<And>p. counts t p = child_edges d (set (om_keys R)) p" "\<And>c. om_has t c \<longleftrightarrow> om_has R c"
    using log_records_ok [OF log_set] by blast
  obtain ready where ready: "ready_commits records t = Some ready" "log_state d R rec (set (om_keys R)) (t, ready)"
    using ready_commits_ok [OF log_set records(2-4)] by blast
  obtain rs where rs: "log_loop R records (t, ready) [] = Some (Inr rs)" "log_of d (set (om_keys R)) rs"
    using log_loop_ok [OF assms(1) log_set records(2) ready(2) order.refl closed, of "[]"] by auto
  note ids = log_of_ids [OF rs(2)]
  have "dom (om_get records) = set (om_keys R)" by (auto simp: records(2) om_keys_has split: if_splits)
  then have "om_size records = length rs"
    using ids by (metis distinct_card length_map om_size_card)
  then have "reverse_topological_log d start = Some (Inr rs)"
    using R(1) records(1) ready(1) rs(1) by (simp add: reverse_topological_log_def)
  moreover have "sorted_wrt (\<lambda>r s. \<not> ancestor d (rec_id r) (rec_id s)) rs"
    by (rule log_of_children_first [OF rs(2)]) (use closed in blast)
  ultimately show ?thesis using rs(2) ids by (auto simp: keys)
qed

theorem log_complete_witness:
  "\<exists>rs. reverse_topological_log diamond (len_id 4) = Some (Inr rs) \<and> map rec_id rs = [len_id 4, len_id 3, len_id 2, len_id 1]
     \<and> log_of diamond {a. ancestor diamond a (len_id 4)} rs"
proof -
  have "map_option (map_sum id (map rec_id)) (reverse_topological_log diamond (len_id 4)) = Some (Inr [len_id 4, len_id 3, len_id 2, len_id 1])"
    by code_simp
  with log_complete [OF diamond_ok diamond_has(4)] show ?thesis by auto
qed

end
