(* ===== verification/Gc_Laws.thy ===== *)
theory Gc_Laws
  imports History_Theorems
begin

text \<open>
  Deleting history: a database that keeps some commits, with their ancestors, layers and schema objects, is still a
  sound store in which these commits mean what they meant; garbage collection computes such a database.
\<close>

section \<open>Sub-tables\<close>

definition sub_table :: "('k::linorder, 'v) omap \<Rightarrow> ('k, 'v) omap \<Rightarrow> bool" where
  "sub_table t' t \<longleftrightarrow> (\<forall>k v. om_get t' k = Some v \<longrightarrow> om_get t k = Some v)"

lemma sub_table_all: "sub_table t' t \<Longrightarrow> om_all Q t \<Longrightarrow> om_all Q t'"
  by (simp add: sub_table_def om_all_iff)

lemma sub_table_filter [simp]: "sub_table (om_filter Q t) t"
  by (auto simp: sub_table_def om_get_filter split: option.splits if_splits)

lemma om_filter_filter: "om_filter Q (om_filter R t) = om_filter (\<lambda>k v. R k v \<and> Q k v) t"
  by (rule om_ext) (auto simp: om_get_filter fun_eq_iff split: option.splits)

lemma om_del_filter: "om_del k t = om_filter (\<lambda>l _. l \<noteq> k) t"
  by (rule om_ext) (auto simp: om_get_filter om_get_del fun_eq_iff split: option.splits)

lemma om_filter_cong: "(\<And>k v. om_get t k = Some v \<Longrightarrow> Q k v = R k v) \<Longrightarrow> om_filter Q t = om_filter R t"
  by (rule om_ext) (auto simp: om_get_filter fun_eq_iff split: option.splits)

lemma om_size_del: "om_has t k \<Longrightarrow> Suc (om_size (om_del k t)) = om_size t"
proof -
  assume "om_has t k"
  then have "k \<in> dom (om_get t)" by (auto simp: om_has_def)
  moreover have "dom (om_get (om_del k t)) = dom (om_get t) - {k}" by (auto simp: om_get_del split: if_splits)
  ultimately show ?thesis by (simp only: om_size_card card_Suc_Diff1 finite_dom_om_get)
qed

lemma om_size_filter: "om_size (om_filter Q t) \<le> om_size t"
  unfolding om_size_card by (rule card_mono) (auto simp: om_get_filter split: option.splits if_splits)

lemma delete_row_simps [simp]: "snd (delete_row k t) = om_del k t" "fst (delete_row k t) + om_size (om_del k t) = om_size t"
proof -
  have "om_del k t = t" if "\<not> om_has t k" using that by (intro om_ext) (auto simp: om_get_del om_has_def)
  then show "snd (delete_row k t) = om_del k t" "fst (delete_row k t) + om_size (om_del k t) = om_size t"
    using om_size_del [of t k] by (auto simp: delete_row_def)
qed

section \<open>Keeping some commits\<close>

definition pruned :: "database \<Rightarrow> database \<Rightarrow> bool" where
  "pruned d d' \<longleftrightarrow>
     d' = d\<lparr>tb_commits := tb_commits d', tb_commit_data := tb_commit_data d', tb_layers := tb_layers d', tb_schema_objects := tb_schema_objects d',
           tb_checkpoints := tb_checkpoints d', tb_cp_nodes := tb_cp_nodes d', tb_cp_labels := tb_cp_labels d',
           tb_cp_relationships := tb_cp_relationships d', tb_cp_properties := tb_cp_properties d', tb_node_delta := tb_node_delta d',
           tb_label_delta := tb_label_delta d', tb_rel_delta := tb_rel_delta d', tb_property_delta := tb_property_delta d'\<rparr>
   \<and> sub_table (tb_commits d') (tb_commits d)
   \<and> om_all (\<lambda>c row. om_has (tb_layers d') (cr_layer_id row) \<and> om_has (tb_schema_objects d') (cr_schema_hash row)
        \<and> list_all (om_has (tb_commits d')) (row_parents d c)) (tb_commits d')
   \<and> sub_table (tb_layers d') (tb_layers d) \<and> om_all (\<lambda>i _. same_layer d d' i) (tb_layers d')
   \<and> sub_table (tb_node_delta d') (tb_node_delta d) \<and> sub_table (tb_label_delta d') (tb_label_delta d)
   \<and> sub_table (tb_rel_delta d') (tb_rel_delta d) \<and> sub_table (tb_property_delta d') (tb_property_delta d)
   \<and> sub_table (tb_schema_objects d') (tb_schema_objects d)
   \<and> (\<forall>c. om_has (tb_checkpoints d') c \<longleftrightarrow> om_has (tb_checkpoints d) c \<and> om_has (tb_commits d') c)
   \<and> (\<forall>c. if om_has (tb_commits d') c
        then om_slice c (tb_cp_nodes d') = om_slice c (tb_cp_nodes d) \<and> om_slice c (tb_cp_labels d') = om_slice c (tb_cp_labels d)
          \<and> om_slice c (tb_cp_relationships d') = om_slice c (tb_cp_relationships d)
          \<and> om_slice c (tb_cp_properties d') = om_slice c (tb_cp_properties d)
        else no_checkpoint_rows c d')
   \<and> om_all (\<lambda>_ c. om_has (tb_commits d') c) (tb_branches d')"

lemma pruned_fields:
  assumes "pruned d d'"
  shows "tb_sequences d' = tb_sequences d" "tb_branches d' = tb_branches d" "tb_tags d' = tb_tags d"
    "tb_merge_sessions d' = tb_merge_sessions d" "tb_merge_resolutions d' = tb_merge_resolutions d"
    "tb_labels d' = tb_labels d" "tb_rel_types d' = tb_rel_types d" "tb_prop_keys d' = tb_prop_keys d"
proof -
  obtain a b e f g h i j k l m n p where "d' = d\<lparr>tb_commits := a, tb_commit_data := b, tb_layers := e, tb_schema_objects := f,
           tb_checkpoints := g, tb_cp_nodes := h, tb_cp_labels := i, tb_cp_relationships := j, tb_cp_properties := k, tb_node_delta := l,
           tb_label_delta := m, tb_rel_delta := n, tb_property_delta := p\<rparr>"
    using assms unfolding pruned_def by blast
  then show "tb_sequences d' = tb_sequences d" "tb_branches d' = tb_branches d" "tb_tags d' = tb_tags d"
    "tb_merge_sessions d' = tb_merge_sessions d" "tb_merge_resolutions d' = tb_merge_resolutions d"
    "tb_labels d' = tb_labels d" "tb_rel_types d' = tb_rel_types d" "tb_prop_keys d' = tb_prop_keys d" by simp_all
qed

lemma pruned_keeps:
  assumes "pruned d d'"
  shows "keeps_layers P d' d" "keeps_commits d' d"
proof -
  have "sub_table (tb_layers d') (tb_layers d)" "om_all (\<lambda>i _. same_layer d d' i) (tb_layers d')" "sub_table (tb_commits d') (tb_commits d)"
    using assms unfolding pruned_def by blast+
  then show "keeps_layers P d' d" "keeps_commits d' d"
    using same_layer_load [of d d' _ P] by (auto simp: keeps_layers_def keeps_commits_def sub_table_def om_all_iff)
qed

lemma pruned_graph:
  assumes "pruned d d'" "om_has (tb_commits d') c"
  shows "commit_graph P d' c g \<longleftrightarrow> commit_graph P d c g"
proof
  show "commit_graph P d' c g \<Longrightarrow> commit_graph P d c g" by (rule commit_graph_kept [OF _ pruned_keeps [OF assms(1)]])
  have row: "\<exists>row'. load_lineage_row d' c = Inr row' \<and> lr_parent row' = lr_parent row \<and> lr_layer_id row' = lr_layer_id row
      \<and> load_layer P d' (lr_layer_id row) = load_layer P d (lr_layer_id row) \<and> (\<forall>p. lr_parent row = Some p \<longrightarrow> om_has (tb_commits d') p)"
    if c: "load_lineage_row d c = Inr row" "om_has (tb_commits d') c" for c row
  proof -
    obtain cr where cr: "om_get (tb_commits d') c = Some cr" using c(2) by (auto simp: om_has_def)
    then have cr0: "om_get (tb_commits d) c = Some cr" using assms(1) by (simp add: pruned_def sub_table_def)
    from cr assms(1) have facts: "om_has (tb_layers d') (cr_layer_id cr)" "list_all (om_has (tb_commits d')) (row_parents d c)"
      unfolding pruned_def om_all_iff by blast+
    then obtain h where h: "om_get (tb_layers d') (cr_layer_id cr) = Some h" by (auto simp: om_has_def)
    then have h0: "om_get (tb_layers d) (cr_layer_id cr) = Some h" and "same_layer d d' (cr_layer_id cr)"
      using assms(1) unfolding pruned_def sub_table_def om_all_iff by blast+
    then have "load_layer P d' (cr_layer_id cr) = load_layer P d (cr_layer_id cr)" by (intro same_layer_load)
    then show ?thesis
      using c(1) cr cr0 h h0 facts(2) by (auto simp: load_lineage_row_def row_parents_def hash_from_slice_def split: option.splits if_splits)
  qed
  show "commit_graph P d' c g" if "commit_graph P d c g"
    using that assms(2)
  proof (induction rule: commit_graph.induct)
    case (root c r l)
    with row [OF root.hyps(1) root.prems] show ?case by (auto intro: commit_graph.root)
  next
    case (child c r p l g)
    with row [OF child.hyps(1) child.prems] show ?case by (auto intro: commit_graph.child)
  qed
qed

lemma pruned_store:
  assumes "pruned d d'" "store_ok P d"
  shows "store_ok P d'"
proof -
  note fields = pruned_fields [OF assms(1)]
  have sub: "sub_table (tb_commits d') (tb_commits d)" "sub_table (tb_layers d') (tb_layers d)"
    "sub_table (tb_node_delta d') (tb_node_delta d)" "sub_table (tb_label_delta d') (tb_label_delta d)"
    "sub_table (tb_rel_delta d') (tb_rel_delta d)" "sub_table (tb_property_delta d') (tb_property_delta d)"
    "sub_table (tb_schema_objects d') (tb_schema_objects d)"
    using assms(1) unfolding pruned_def by blast+
  note all = sub_table_all [OF sub(1)] sub_table_all [OF sub(2)] sub_table_all [OF sub(3)] sub_table_all [OF sub(4)]
    sub_table_all [OF sub(5)] sub_table_all [OF sub(6)] sub_table_all [OF sub(7)]
  have cps: "om_has (tb_checkpoints d') c \<longleftrightarrow> om_has (tb_checkpoints d) c \<and> om_has (tb_commits d') c" for c
    using assms(1) unfolding pruned_def by blast
  have cp: "if om_has (tb_commits d') c
        then om_slice c (tb_cp_nodes d') = om_slice c (tb_cp_nodes d) \<and> om_slice c (tb_cp_labels d') = om_slice c (tb_cp_labels d)
          \<and> om_slice c (tb_cp_relationships d') = om_slice c (tb_cp_relationships d)
          \<and> om_slice c (tb_cp_properties d') = om_slice c (tb_cp_properties d)
        else no_checkpoint_rows c d'" for c
    using assms(1) unfolding pruned_def by blast
  have "layer_tables_ok d'"
    using assms(2) by (auto simp: store_ok_def layer_tables_ok_def delta_rows_ok_def below_def fields split: option.splits intro: all)
  moreover have "tuples_unique d'"
    using assms(2) sub(5) unfolding store_ok_def tuples_unique_def stored_tuple_def sub_table_def by blast
  moreover have "layers_addressed P d'"
  proof -
    have "\<exists>l. load_layer P d' i = Inr l \<and> content_hash P l = Inr h" if "om_get (tb_layers d') i = Some h" for i h
    proof -
      have "om_get (tb_layers d) i = Some h" "load_layer P d i = load_layer P d' i"
        using pruned_keeps(1) [OF assms(1), of P] that by (auto simp: keeps_layers_def)
      moreover have "layers_addressed P d" using assms(2) by (simp add: store_ok_def)
      ultimately show ?thesis unfolding layers_addressed_def om_all_iff by metis
    qed
    then show ?thesis by (simp add: layers_addressed_def om_all_iff)
  qed
  moreover have "checkpoints_ok P d'"
    unfolding checkpoints_ok_def
  proof (intro allI impI)
    fix c g assume c: "om_has (tb_checkpoints d') c" and g: "commit_graph P d' c g"
    have has: "om_has (tb_commits d') c" using c cps by blast
    then have "checkpoint_holds P d c g"
      using assms(2) c cps g pruned_graph [OF assms(1) has] unfolding store_ok_def checkpoints_ok_def by blast
    moreover have "om_slice c (tb_cp_nodes d') = om_slice c (tb_cp_nodes d)" "om_slice c (tb_cp_labels d') = om_slice c (tb_cp_labels d)"
      "om_slice c (tb_cp_relationships d') = om_slice c (tb_cp_relationships d)" "om_slice c (tb_cp_properties d') = om_slice c (tb_cp_properties d)"
      using cp [of c] has by simp_all
    ultimately show "checkpoint_holds P d' c g" by (simp add: checkpoint_holds_def)
  qed
  moreover have "om_all (commit_ok P d') (tb_commits d')"
    unfolding om_all_iff
  proof (intro allI impI)
    fix c row assume row: "om_get (tb_commits d') c = Some row"
    then have has: "om_has (tb_commits d') c" and row0: "om_get (tb_commits d) c = Some row"
      using sub(1) by (auto simp: om_has_def sub_table_def)
    from row assms(1) have facts: "om_has (tb_layers d') (cr_layer_id row)" "om_has (tb_schema_objects d') (cr_schema_hash row)"
      "list_all (om_has (tb_commits d')) (row_parents d c)" unfolding pruned_def om_all_iff by blast+
    have ok: "commit_ok P d c row" using store_commit [OF assms(2) row0] .
    then have "commit_addressed P d' c row"
      using facts(1) sub(2) by (auto simp: commit_ok_def commit_addressed_def om_has_def sub_table_def)
    then show "commit_ok P d' c row"
      using ok facts(2,3) row0 pruned_graph [OF assms(1) has] by (auto simp: commit_ok_def row_parents_def split: option.splits)
  qed
  moreover have "checkpoint_rows_owned d'"
    unfolding rows_owned_iff
  proof (intro allI impI)
    fix c assume "\<not> om_has (tb_checkpoints d') c"
    then consider "\<not> om_has (tb_commits d') c" | "om_has (tb_commits d') c" "\<not> om_has (tb_checkpoints d) c" using cps by blast
    then show "no_checkpoint_rows c d'"
    proof cases
      case 1
      then show ?thesis using cp [of c] by simp
    next
      case 2
      then have "no_checkpoint_rows c d" using assms(2) by (simp add: store_ok_def rows_owned_iff)
      then show ?thesis using cp [of c] 2(1) by (simp add: no_checkpoint_rows_def)
    qed
  qed
  moreover have "om_all (\<lambda>_ c. om_has (tb_commits d') c) (tb_branches d')" using assms(1) unfolding pruned_def by blast
  moreover have "om_all (\<lambda>c _. om_has (tb_commits d') c) (tb_checkpoints d')"
    unfolding om_all_iff using cps by (metis om_has_def option.distinct(1))
  moreover have "om_all (\<lambda>h blob. h = blake3 P blob) (tb_schema_objects d')"
    using assms(2) by (intro sub_table_all [OF sub(7)]) (simp add: store_ok_def)
  ultimately show ?thesis using assms(2) by (simp add: store_ok_def fields)
qed

lemma pruned_parents: "pruned d d' \<Longrightarrow> om_has (tb_commits d') c \<Longrightarrow> row_parents d' c = row_parents d c"
  by (auto simp: pruned_def sub_table_def row_parents_def om_has_def)

lemma pruned_history:
  assumes "pruned d d'" "history_ok d"
  shows "history_ok d'"
proof -
  have "parent_rel d' \<subseteq> parent_rel d"
    using pruned_parents [OF assms(1)] row_parents_has by (fastforce simp: parent_rel_def)
  then have "acyclic (parent_rel d')" using assms(2) acyclic_subset by (auto simp: history_ok_def)
  moreover have "om_all commit_row_checks (tb_commits d')"
    using assms sub_table_all unfolding pruned_def history_ok_def by blast
  moreover have "om_all (\<lambda>c _. list_all (om_has (tb_commits d')) (row_parents d' c)) (tb_commits d')"
    using assms(1) pruned_parents [OF assms(1)] unfolding pruned_def om_all_iff by (metis om_has_def option.distinct(1))
  ultimately show ?thesis by (simp add: history_ok_def)
qed

section \<open>What the deletions compute\<close>

definition without_commits :: "hash_id set \<Rightarrow> database \<Rightarrow> database" where
  "without_commits X d =
     d\<lparr>tb_commit_data := om_filter (\<lambda>c _. c \<notin> X) (tb_commit_data d), tb_checkpoints := om_filter (\<lambda>c _. c \<notin> X) (tb_checkpoints d),
       tb_cp_nodes := om_filter (\<lambda>k _. fst k \<notin> X) (tb_cp_nodes d), tb_cp_labels := om_filter (\<lambda>k _. fst k \<notin> X) (tb_cp_labels d),
       tb_cp_relationships := om_filter (\<lambda>k _. fst k \<notin> X) (tb_cp_relationships d),
       tb_cp_properties := om_filter (\<lambda>k _. fst k \<notin> X) (tb_cp_properties d),
       tb_commits := om_filter (\<lambda>c _. c \<notin> X) (tb_commits d)\<rparr>"

definition without_layers :: "i64 set \<Rightarrow> database \<Rightarrow> database" where
  "without_layers X d =
     d\<lparr>tb_node_delta := om_filter (\<lambda>k _. fst k \<notin> X) (tb_node_delta d), tb_label_delta := om_filter (\<lambda>k _. fst k \<notin> X) (tb_label_delta d),
       tb_rel_delta := om_filter (\<lambda>k _. fst k \<notin> X) (tb_rel_delta d), tb_property_delta := om_filter (\<lambda>k _. fst k \<notin> X) (tb_property_delta d),
       tb_layers := om_filter (\<lambda>i _. i \<notin> X) (tb_layers d)\<rparr>"

lemma om_filter_True [simp]: "om_filter (\<lambda>_ _. True) t = t"
  by (rule om_ext) (simp add: om_get_filter fun_eq_iff split: option.split)

lemma without_empty [simp]: "without_commits {} d = d" "without_layers {} d = d"
  by (simp_all add: without_commits_def without_layers_def)

lemma without_insert:
  "without_commits X (without_commits {c} d) = without_commits (insert c X) d"
  "without_layers Y (without_layers {i} d) = without_layers (insert i Y) d"
  by (simp_all add: without_commits_def without_layers_def om_filter_filter conj_commute)

lemma without_layers_commits [simp]: "tb_commits (without_layers X d) = tb_commits d"
  by (simp add: without_layers_def)

lemma layer_referenced_commits [simp]: "layer_referenced (without_layers X d) i = layer_referenced d i"
  by (simp add: layer_referenced_def)

lemma st_update_Inr [simp]: "st_update f c = (Inr n, c') \<longleftrightarrow> (\<exists>d. f (db c) = Inr (n, d) \<and> c' = c\<lparr>db := d\<rparr>)"
  by (auto simp: st_update_def split: sum.splits)

lemma st_update_pair: "st_update (\<lambda>d. Inr (f d, g d)) c = (Inr (f (db c)), c\<lparr>db := g (db c)\<rparr>)"
  by (simp add: st_update_def)

lemma delete_commit_auxiliary_run:
  "delete_commit_auxiliary commit c = (Inr (fst (delete_row commit (tb_checkpoints (db c))), fst (delete_row commit (tb_commit_data (db c)))),
     c\<lparr>db := (without_commits {commit} (db c))\<lparr>tb_commits := tb_commits (db c)\<rparr>\<rparr>)"
  by (simp add: delete_commit_auxiliary_def case_prod_unfold Let_def without_commits_def delete_slice_def om_del_filter)

lemma delete_layer_rows_run:
  "delete_layer_rows i c = (Inr (), c\<lparr>db := (without_layers {i} (db c))\<lparr>tb_layers := tb_layers (db c)\<rparr>\<rparr>)"
  by (simp add: delete_layer_rows_def without_layers_def delete_slice_def)

section \<open>Counting what is deleted\<close>

definition tally :: "GcCounters \<Rightarrow> database \<Rightarrow> GcCounters" where
  "tally n d = \<lparr>gc_commits = gc_commits n + om_size (tb_commits d), gc_layers = gc_layers n + om_size (tb_layers d),
     gc_schemas = gc_schemas n + om_size (tb_schema_objects d), gc_checkpoints = gc_checkpoints n + om_size (tb_checkpoints d),
     gc_commit_data = gc_commit_data n + om_size (tb_commit_data d)\<rparr>"

lemma st_fold_runs:
  assumes "\<And>x s c. x \<in> set xs \<Longrightarrow> Q (db c) \<Longrightarrow> \<exists>s'. f x s c = (Inr s', c\<lparr>db := F x (db c)\<rparr>) \<and> tally s' (F x (db c)) = tally s (db c) \<and> Q (F x (db c))"
    and "Q (db c)"
  shows "\<exists>s'. st_fold f xs s c = (Inr s', c\<lparr>db := fold F xs (db c)\<rparr>) \<and> tally s' (fold F xs (db c)) = tally s (db c)"
  using assms
proof (induction xs arbitrary: s c)
  case (Cons x xs)
  obtain s1 where s1: "f x s c = (Inr s1, c\<lparr>db := F x (db c)\<rparr>)" "tally s1 (F x (db c)) = tally s (db c)" "Q (F x (db c))"
    using Cons.prems by force
  moreover obtain s2 where "st_fold f xs s1 (c\<lparr>db := F x (db c)\<rparr>) = (Inr s2, c\<lparr>db := F x (db c), db := fold F xs (F x (db c))\<rparr>)"
    "tally s2 (fold F xs (F x (db c))) = tally s1 (F x (db c))"
    using Cons.IH [of "c\<lparr>db := F x (db c)\<rparr>" s1] Cons.prems(1) s1(3) by force
  ultimately show ?case by (intro exI [of _ s2]) simp
qed simp

lemma fold_without:
  "fold (\<lambda>c. without_commits {c}) cs d = without_commits (set cs) d" "fold (\<lambda>i. without_layers {i}) is d = without_layers (set is) d"
  by (induction cs arbitrary: d; simp add: without_insert) (induction "is" arbitrary: d; simp add: without_insert)

lemma delete_unreachable_commits_run:
  "\<exists>s'. delete_unreachable_commits cs s c = (Inr s', c\<lparr>db := without_commits (set cs) (db c)\<rparr>)
     \<and> tally s' (without_commits (set cs) (db c)) = tally s (db c)"
  unfolding delete_unreachable_commits_def fold_without(1) [symmetric]
proof (rule st_fold_runs [where Q = "\<lambda>_. True"])
  fix x s c
  show "\<exists>s'. st_then (delete_commit_auxiliary x) (\<lambda>(checkpoints, commit_data).
       st_then (st_update (\<lambda>d. let (n, t) = delete_row x (tb_commits d) in Inr (n, d\<lparr>tb_commits := t\<rparr>))) (\<lambda>commits.
         st_ret (s\<lparr>gc_checkpoints := gc_checkpoints s + checkpoints,
                   gc_commit_data := gc_commit_data s + commit_data, gc_commits := gc_commits s + commits\<rparr>))) c
      = (Inr s', c\<lparr>db := without_commits {x} (db c)\<rparr>) \<and> tally s' (without_commits {x} (db c)) = tally s (db c) \<and> True"
    by (auto simp: delete_commit_auxiliary_run case_prod_unfold Let_def tally_def without_commits_def simp flip: om_del_filter)
qed simp

lemma delete_orphan_layers_run:
  "\<exists>s'. delete_orphan_layers s c = (Inr s', c\<lparr>db := without_layers (set (orphan_layer_ids (db c))) (db c)\<rparr>)
     \<and> tally s' (without_layers (set (orphan_layer_ids (db c))) (db c)) = tally s (db c)"
proof -
  let ?ids = "orphan_layer_ids (db c)"
  let ?f = "\<lambda>layer_id counters.
         st_then (delete_layer_rows layer_id) (\<lambda>_.
         st_then (st_update (\<lambda>d. let (n, t) = (if layer_referenced d layer_id then (0, tb_layers d) else delete_row layer_id (tb_layers d))
             in Inr (n, d\<lparr>tb_layers := t\<rparr>))) (\<lambda>layers.
           st_ret (counters\<lparr>gc_layers := gc_layers counters + layers\<rparr>)))"
  have "\<exists>s'. st_fold ?f ?ids s c = (Inr s', c\<lparr>db := fold (\<lambda>i. without_layers {i}) ?ids (db c)\<rparr>)
      \<and> tally s' (fold (\<lambda>i. without_layers {i}) ?ids (db c)) = tally s (db c)"
  proof (rule st_fold_runs [where Q = "\<lambda>d. \<forall>i \<in> set ?ids. \<not> layer_referenced d i"])
    fix i :: i64 and s :: GcCounters and c' :: conn
    assume i: "i \<in> set ?ids" "\<forall>i \<in> set ?ids. \<not> layer_referenced (db c') i"
    have ref: "layer_referenced (db c'\<lparr>tb_layers := tb_layers d\<rparr>) i = layer_referenced (db c') i" for d by (simp add: layer_referenced_def)
    have "\<not> layer_referenced (db (c'\<lparr>db := (without_layers {i} (db c'))\<lparr>tb_layers := tb_layers (db c')\<rparr>\<rparr>)) i"
      using i by (simp add: layer_referenced_def without_layers_def)
    then have "\<exists>s'. ?f i s c' = (Inr s', c'\<lparr>db := without_layers {i} (db c')\<rparr>) \<and> tally s' (without_layers {i} (db c')) = tally s (db c')"
      by (auto simp: delete_layer_rows_run case_prod_unfold Let_def tally_def without_layers_def simp flip: om_del_filter)
    with i(2) show "\<exists>s'. ?f i s c' = (Inr s', c'\<lparr>db := without_layers {i} (db c')\<rparr>) \<and> tally s' (without_layers {i} (db c')) = tally s (db c')
        \<and> (\<forall>j \<in> set ?ids. \<not> layer_referenced (without_layers {i} (db c')) j)" by auto
  qed (simp add: orphan_layer_ids_def)
  then show ?thesis by (simp add: delete_orphan_layers_def fold_without st_then_def st_query_def)
qed

text \<open>The database without a set of commits, and without the layers and schema objects no commit uses any more.\<close>

definition swept :: "hash_id set \<Rightarrow> database \<Rightarrow> database" where
  "swept X d = (let e = without_commits X d; e = without_layers (set (orphan_layer_ids e)) e
     in e\<lparr>tb_schema_objects := om_filter (\<lambda>h _. schema_referenced e h) (tb_schema_objects e)\<rparr>)"

lemma delete_orphan_schemas_run:
  "\<exists>s'. delete_orphan_schemas s c = (Inr s', c\<lparr>db := db c\<lparr>tb_schema_objects := om_filter (\<lambda>h _. schema_referenced (db c) h) (tb_schema_objects (db c))\<rparr>\<rparr>)
     \<and> tally s' (db c\<lparr>tb_schema_objects := om_filter (\<lambda>h _. schema_referenced (db c) h) (tb_schema_objects (db c))\<rparr>) = tally s (db c)"
  using om_size_filter [of "\<lambda>h _. schema_referenced (db c) h" "tb_schema_objects (db c)"]
  by (simp add: delete_orphan_schemas_def Let_def st_then_def st_update_pair tally_def st_ret_def)

lemma collect_garbage_run:
  assumes "unreachable_commits (db c) = Inr X" "X \<noteq> []"
  shows "\<exists>n. collect_garbage c = (Inr n, c\<lparr>db := swept (set X) (db c)\<rparr>) \<and> tally n (swept (set X) (db c)) = tally gc_counters_default (db c)"
proof -
  let ?c1 = "c\<lparr>db := without_commits (set X) (db c)\<rparr>"
  let ?c2 = "c\<lparr>db := without_layers (set (orphan_layer_ids (db ?c1))) (db ?c1)\<rparr>"
  obtain s1 where s1: "delete_unreachable_commits X gc_counters_default c = (Inr s1, ?c1)"
    "tally s1 (db ?c1) = tally gc_counters_default (db c)"
    using delete_unreachable_commits_run [of X gc_counters_default c] by auto
  obtain s2 where s2: "delete_orphan_layers s1 ?c1 = (Inr s2, ?c2)" "tally s2 (db ?c2) = tally s1 (db ?c1)"
    using delete_orphan_layers_run [of s1 ?c1] by auto
  obtain s3 where s3: "delete_orphan_schemas s2 ?c2 = (Inr s3, c\<lparr>db := swept (set X) (db c)\<rparr>)"
    "tally s3 (swept (set X) (db c)) = tally s2 (db ?c2)"
    using delete_orphan_schemas_run [of s2 ?c2] by (auto simp: swept_def Let_def)
  show ?thesis
    using assms s1 s2 s3 by (intro exI [of _ s3]) (simp add: collect_garbage_def st_then_def st_query_def)
qed

section \<open>References\<close>

text \<open>The commits that branches, tags and merge sessions name.\<close>

definition ref_target :: "database \<Rightarrow> hash_id \<Rightarrow> bool" where
  "ref_target d c \<longleftrightarrow> (\<exists>b. om_get (tb_branches d) b = Some c) \<or> (\<exists>t. om_get (tb_tags d) t = Some c)
     \<or> (\<exists>i s. om_get (tb_merge_sessions d) i = Some s \<and> (c = ms_ours_commit s \<or> c = ms_theirs_commit s))"

definition refs_ok :: "database \<Rightarrow> bool" where
  "refs_ok d \<longleftrightarrow> (\<forall>c. ref_target d c \<longrightarrow> om_has (tb_commits d) c) \<and> om_has (tb_branches d) main_branch
     \<and> om_all (\<lambda>c _. om_has (tb_commits d) c) (tb_commit_data d)"

definition live :: "database \<Rightarrow> hash_id \<Rightarrow> bool" where
  "live d c \<longleftrightarrow> (\<exists>r. ref_target d r \<and> ancestor d c r)"

lemma list_named_refs_ok:
  assumes "\<And>n c. om_get t n = Some c \<Longrightarrow> length c = 32"
  shows "\<exists>rs. list_named_refs t = Inr rs \<and> (\<forall>c. c \<in> nr_commit ` set rs \<longleftrightarrow> (\<exists>n. om_get t n = Some c))"
proof -
  have "list_named_refs t = Inr (map (\<lambda>(n, c). \<lparr>nr_name = n, nr_commit = c\<rparr>) (om_entries t))"
    unfolding list_named_refs_def by (rule map_res_map) (use assms in \<open>auto simp: om_entries_iff hash_from_slice_def\<close>)
  moreover have "c \<in> nr_commit ` set (map (\<lambda>(n, c). \<lparr>nr_name = n, nr_commit = c\<rparr>) (om_entries t)) \<longleftrightarrow> (\<exists>n. om_get t n = Some c)" for c
    by (force simp: om_entries_iff)
  ultimately show ?thesis by blast
qed

lemma om_keys_of_units: "c \<in> set (om_keys (om_of (map (\<lambda>h. (h, ())) hs))) \<longleftrightarrow> c \<in> set hs"
proof -
  have "om_has (om_put_all (map (\<lambda>h. (h, ())) hs) s) c \<longleftrightarrow> c \<in> set hs \<or> om_has s c" for s
    by (induction hs arbitrary: s) (auto simp: om_put_all_def)
  then show ?thesis by (simp add: om_keys_has om_of_def)
qed

lemma unreachable_commits_exact:
  assumes "history_ok d" "refs_ok d"
  shows "\<exists>X. unreachable_commits d = Inr X \<and> set X = {c. om_has (tb_commits d) c \<and> \<not> live d c}"
proof -
  have len: "length c = 32" if "ref_target d c" for c
    using that assms commit_id_length by (auto simp: refs_ok_def)
  have len3: "om_get (tb_branches d) n = Some c \<Longrightarrow> length c = 32" "om_get (tb_tags d) n = Some c \<Longrightarrow> length c = 32" for n c
    using len [of c] unfolding ref_target_def by blast+
  obtain bs where bs: "list_branches d = Inr bs" "\<And>c. c \<in> nr_commit ` set bs \<longleftrightarrow> (\<exists>n. om_get (tb_branches d) n = Some c)"
    using list_named_refs_ok [of "tb_branches d"] len3(1) unfolding list_branches_def by blast
  obtain ts where ts: "list_tags d = Inr ts" "\<And>c. c \<in> nr_commit ` set ts \<longleftrightarrow> (\<exists>n. om_get (tb_tags d) n = Some c)"
    using list_named_refs_ok [of "tb_tags d"] len3(2) unfolding list_tags_def by blast
  define ss where "ss = om_keys (om_of (map (\<lambda>h. (h, ())) (map ms_ours_commit (om_values (tb_merge_sessions d)) @ map ms_theirs_commit (om_values (tb_merge_sessions d)))))"
  have ss: "c \<in> set ss \<longleftrightarrow> (\<exists>i s. om_get (tb_merge_sessions d) i = Some s \<and> (c = ms_ours_commit s \<or> c = ms_theirs_commit s))" for c
    proof -
    have "c \<in> set ss \<longleftrightarrow> (\<exists>s \<in> set (om_values (tb_merge_sessions d)). c = ms_ours_commit s \<or> c = ms_theirs_commit s)"
      unfolding ss_def om_keys_of_units by auto
    then show ?thesis unfolding Bex_def om_values_iff by blast
  qed
  have "merge_session_roots d = Inr ss"
    unfolding merge_session_roots_def ss_def [symmetric]
    by (rule map_res_map [where g = id, simplified]) (use ss len in \<open>auto simp: ref_target_def hash_from_slice_def\<close>)
  let ?roots = "map nr_commit bs @ map nr_commit ts @ ss"
  have roots: "c \<in> set ?roots \<longleftrightarrow> ref_target d c" for c using bs(2) [of c] ts(2) [of c] ss [of c] by (simp add: ref_target_def)
  then obtain R where R: "reachable_commits d ?roots = Inr R" "\<And>a. om_has R a \<longleftrightarrow> (\<exists>c \<in> set ?roots. ancestor d a c)"
    using reachable_commits_exact [OF assms(1), of ?roots] assms(2) by (auto simp: refs_ok_def)
  have "all_commits d = Inr (fold (\<lambda>k. om_put k ()) (om_keys (tb_commits d)) om_empty)"
    unfolding all_commits_def
    by (rule fold_res_Inr_fold) (use commit_id_length [OF assms(1)] in \<open>simp add: hash_from_slice_def om_keys_has\<close>)
  moreover have "om_has (fold (\<lambda>k. om_put k ()) ks s) c \<longleftrightarrow> c \<in> set ks \<or> om_has s c" for ks s and c :: hash_id
    by (induction ks arbitrary: s) auto
  ultimately obtain A where A: "all_commits d = Inr A" "\<And>c. om_has A c \<longleftrightarrow> om_has (tb_commits d) c"
    by (auto simp: om_keys_has)
  have "live d c \<longleftrightarrow> om_has R c" for c unfolding R(2) live_def using roots by blast
  then show ?thesis
    using bs(1) ts(1) \<open>merge_session_roots d = Inr ss\<close> R(1) A by (auto simp: unreachable_commits_def om_keys_has)
qed

lemma live_has: "history_ok d \<Longrightarrow> refs_ok d \<Longrightarrow> live d c \<Longrightarrow> om_has (tb_commits d) c"
  using ancestor_has by (auto simp: live_def refs_ok_def)

lemma live_parent: "live d c \<Longrightarrow> p \<in> set (row_parents d c) \<Longrightarrow> live d p"
  using ancestor_parent ancestor_trans unfolding live_def by blast

end
