(* ===== verification/Gc_Sweep.thy ===== *)
theory Gc_Sweep
  imports Gc_Laws
begin

text \<open>
  The database garbage collection computes: it is without exactly the commits no reference reaches.
\<close>

section \<open>The swept database\<close>

lemma om_slice_without: "om_slice a (om_filter (\<lambda>k _. fst k \<notin> X) t) = (if a \<in> X then om_empty else om_slice a t)"
  by (rule om_ext) (auto simp: om_get_filter fun_eq_iff split: option.split)

lemma list_ex_values: "list_ex Q (om_values t) \<longleftrightarrow> (\<exists>k v. om_get t k = Some v \<and> Q v)"
  unfolding list_ex_iff Bex_def om_values_iff by blast

lemma swept_tables:
  "tb_commits (swept X d) = om_filter (\<lambda>c _. c \<notin> X) (tb_commits d)"
  "tb_commit_data (swept X d) = om_filter (\<lambda>c _. c \<notin> X) (tb_commit_data d)"
  "tb_layers (swept X d) = om_filter (\<lambda>i _. layer_referenced (swept X d) i) (tb_layers d)"
  "tb_schema_objects (swept X d) = om_filter (\<lambda>h _. schema_referenced (swept X d) h) (tb_schema_objects d)"
proof -
  let ?e = "without_commits X d"
  have orphan: "i \<in> set (orphan_layer_ids ?e) \<longleftrightarrow> om_has (tb_layers d) i \<and> \<not> layer_referenced (swept X d) i" for i
    by (simp add: orphan_layer_ids_def om_keys_has) (simp add: layer_referenced_def swept_def without_commits_def without_layers_def Let_def)
  show "tb_commits (swept X d) = om_filter (\<lambda>c _. c \<notin> X) (tb_commits d)"
    "tb_commit_data (swept X d) = om_filter (\<lambda>c _. c \<notin> X) (tb_commit_data d)"
    by (simp_all add: swept_def Let_def without_commits_def without_layers_def)
  show "tb_schema_objects (swept X d) = om_filter (\<lambda>h _. schema_referenced (swept X d) h) (tb_schema_objects d)"
    by (simp add: swept_def Let_def without_commits_def without_layers_def schema_referenced_def)
  have "tb_layers (swept X d) = om_filter (\<lambda>i _. i \<notin> set (orphan_layer_ids ?e)) (tb_layers d)"
    by (simp add: swept_def Let_def without_layers_def) (simp add: without_commits_def)
  also have "\<dots> = om_filter (\<lambda>i _. layer_referenced (swept X d) i) (tb_layers d)"
    by (rule om_filter_cong) (use orphan in \<open>auto simp: om_has_def\<close>)
  finally show "tb_layers (swept X d) = om_filter (\<lambda>i _. layer_referenced (swept X d) i) (tb_layers d)" .
qed

lemma swept_same_layer: "om_has (tb_layers (swept X d)) i \<Longrightarrow> same_layer d (swept X d) i"
  by (auto simp: same_layer_def swept_def Let_def without_layers_def om_slice_without om_has_def om_get_filter split: option.splits if_splits)
     (simp_all add: without_commits_def)

lemma swept_checkpoints:
  "om_has (tb_checkpoints (swept X d)) c \<longleftrightarrow> om_has (tb_checkpoints d) c \<and> c \<notin> X"
  "om_slice c (tb_cp_nodes (swept X d)) = (if c \<in> X then om_empty else om_slice c (tb_cp_nodes d))"
  "om_slice c (tb_cp_labels (swept X d)) = (if c \<in> X then om_empty else om_slice c (tb_cp_labels d))"
  "om_slice c (tb_cp_relationships (swept X d)) = (if c \<in> X then om_empty else om_slice c (tb_cp_relationships d))"
  "om_slice c (tb_cp_properties (swept X d)) = (if c \<in> X then om_empty else om_slice c (tb_cp_properties d))"
  by (auto simp: swept_def Let_def without_layers_def without_commits_def om_slice_without om_has_def om_get_filter split: option.splits)

lemma swept_fields:
  "swept X d = d\<lparr>tb_commits := tb_commits (swept X d), tb_commit_data := tb_commit_data (swept X d),
       tb_layers := tb_layers (swept X d), tb_schema_objects := tb_schema_objects (swept X d), tb_checkpoints := tb_checkpoints (swept X d),
       tb_cp_nodes := tb_cp_nodes (swept X d), tb_cp_labels := tb_cp_labels (swept X d),
       tb_cp_relationships := tb_cp_relationships (swept X d), tb_cp_properties := tb_cp_properties (swept X d),
       tb_node_delta := tb_node_delta (swept X d), tb_label_delta := tb_label_delta (swept X d), tb_rel_delta := tb_rel_delta (swept X d),
       tb_property_delta := tb_property_delta (swept X d)\<rparr>"
  "tb_branches (swept X d) = tb_branches d"
  by (simp_all add: swept_def Let_def without_layers_def without_commits_def)

lemma swept_subtables:
  "sub_table (tb_node_delta (swept X d)) (tb_node_delta d)" "sub_table (tb_label_delta (swept X d)) (tb_label_delta d)"
  "sub_table (tb_rel_delta (swept X d)) (tb_rel_delta d)" "sub_table (tb_property_delta (swept X d)) (tb_property_delta d)"
  by (simp_all add: swept_def Let_def without_layers_def without_commits_def)

lemma swept_pruned:
  assumes "store_ok P d" "history_ok d" "refs_ok d"
  shows "pruned d (swept {c. om_has (tb_commits d) c \<and> \<not> live d c} d)"
proof -
  let ?X = "{c. om_has (tb_commits d) c \<and> \<not> live d c}"
  let ?d = "swept ?X d"
  have row: "om_get (tb_commits ?d) c = (if live d c then om_get (tb_commits d) c else None)" for c
    by (auto simp: swept_tables om_get_filter om_has_def split: option.splits)
  have has: "om_has (tb_commits ?d) c \<longleftrightarrow> live d c" for c
    using live_has [OF assms(2,3), of c] row [of c] by (cases "live d c") (auto simp: om_has_def [of "tb_commits ?d" c] om_has_def [of "tb_commits d" c])
  have "om_all (\<lambda>c row. om_has (tb_layers ?d) (cr_layer_id row) \<and> om_has (tb_schema_objects ?d) (cr_schema_hash row)
        \<and> list_all (om_has (tb_commits ?d)) (row_parents d c)) (tb_commits ?d)"
    unfolding om_all_iff
  proof (intro allI impI conjI)
    fix c r assume c: "om_get (tb_commits ?d) c = Some r"
    then have l: "live d c" and r: "om_get (tb_commits d) c = Some r" by (auto simp: row split: if_splits)
    from c have "layer_referenced ?d (cr_layer_id r)" "schema_referenced ?d (cr_schema_hash r)"
      by (auto simp: layer_referenced_def schema_referenced_def list_ex_values)
    then show "om_has (tb_layers ?d) (cr_layer_id r)" "om_has (tb_schema_objects ?d) (cr_schema_hash r)"
      using store_commit [OF assms(1) r] by (auto simp: swept_tables(3,4) commit_ok_def commit_addressed_def om_has_def om_get_filter)
    show "list_all (om_has (tb_commits ?d)) (row_parents d c)"
      using live_parent [OF l] by (auto simp: list_all_iff has)
  qed
  moreover have "om_all (\<lambda>i _. same_layer d ?d i) (tb_layers ?d)"
    unfolding om_all_iff using swept_same_layer [of ?X d] by (auto simp: om_has_def)
  moreover have "if om_has (tb_commits ?d) c
        then om_slice c (tb_cp_nodes ?d) = om_slice c (tb_cp_nodes d) \<and> om_slice c (tb_cp_labels ?d) = om_slice c (tb_cp_labels d)
          \<and> om_slice c (tb_cp_relationships ?d) = om_slice c (tb_cp_relationships d)
          \<and> om_slice c (tb_cp_properties ?d) = om_slice c (tb_cp_properties d)
        else no_checkpoint_rows c ?d" for c
  proof (cases "live d c")
    case True
    then show ?thesis by (simp add: has swept_checkpoints)
  next
    case dead: False
    show ?thesis
    proof (cases "om_has (tb_commits d) c")
      case True
      with dead show ?thesis by (simp add: has swept_checkpoints no_checkpoint_rows_def)
    next
      case False
      then have "\<not> om_has (tb_checkpoints d) c" using store_checkpoint [OF assms(1), of c] by (auto simp: om_has_def)
      then have "no_checkpoint_rows c d" using assms(1) by (simp add: store_ok_def rows_owned_iff)
      with dead False show ?thesis by (simp add: has swept_checkpoints no_checkpoint_rows_def)
    qed
  qed
  moreover have "om_has (tb_checkpoints ?d) c \<longleftrightarrow> om_has (tb_checkpoints d) c \<and> om_has (tb_commits ?d) c" for c
    unfolding has swept_checkpoints using store_checkpoint [OF assms(1), of c] by (auto simp: om_has_def [of "tb_commits d" c])
  moreover have "live d c" if "om_get (tb_branches d) b = Some c" for b c
    unfolding live_def using that ancestor_refl [of d c] by (auto simp: ref_target_def intro: exI [of _ c])
  then have "om_all (\<lambda>_ c. om_has (tb_commits ?d) c) (tb_branches ?d)"
    unfolding om_all_iff has swept_fields(2) by blast
  moreover have "sub_table (tb_commits ?d) (tb_commits d)" "sub_table (tb_layers ?d) (tb_layers d)" "sub_table (tb_schema_objects ?d) (tb_schema_objects d)"
    unfolding swept_tables by (rule sub_table_filter)+
  ultimately show ?thesis unfolding pruned_def using swept_subtables [of ?X d] swept_fields(1) [of ?X d] by blast
qed

lemma pruned_refs:
  assumes "pruned d d'" "refs_ok d" "\<And>c. ref_target d c \<Longrightarrow> om_has (tb_commits d') c"
    "om_all (\<lambda>c _. om_has (tb_commits d') c) (tb_commit_data d')"
  shows "refs_ok d'" "ref_target d' c \<longleftrightarrow> ref_target d c"
  using assms(2-) by (auto simp: refs_ok_def ref_target_def pruned_fields [OF assms(1)])

lemma pruned_ancestor:
  assumes "pruned d d'" "om_has (tb_commits d') c"
  shows "ancestor d' a c \<longleftrightarrow> ancestor d a c"
proof
  have "parent_rel d' \<subseteq> parent_rel d"
    using pruned_parents [OF assms(1)] row_parents_has by (fastforce simp: parent_rel_def)
  then show "ancestor d' a c \<Longrightarrow> ancestor d a c" unfolding ancestor_def using rtrancl_mono by blast
  show "ancestor d' a c" if "ancestor d a c"
  proof -
    have "ancestor d' a c \<and> om_has (tb_commits d') a"
      using that unfolding ancestor_def
    proof (induction rule: converse_rtrancl_induct)
      case base
      then show ?case using assms(2) by simp
    next
      case (step y z)
      then have y: "y \<in> set (row_parents d z)" by (simp add: parent_rel_def)
      obtain row where "om_get (tb_commits d') z = Some row" using step.IH by (auto simp: om_has_def)
      then have "om_has (tb_commits d') y" using assms(1) y unfolding pruned_def om_all_iff list_all_iff by blast
      moreover have "(y, z) \<in> parent_rel d'" using y pruned_parents [OF assms(1)] step.IH by (simp add: parent_rel_def)
      ultimately show ?case using step.IH by (blast intro: converse_rtrancl_into_rtrancl)
    qed
    then show ?thesis by blast
  qed
qed

section \<open>Collection\<close>

lemma tally_default: "tally n d' = tally gc_counters_default d \<Longrightarrow> gc_commits n + om_size (tb_commits d') = om_size (tb_commits d)
    \<and> gc_layers n + om_size (tb_layers d') = om_size (tb_layers d) \<and> gc_schemas n + om_size (tb_schema_objects d') = om_size (tb_schema_objects d)
    \<and> gc_checkpoints n + om_size (tb_checkpoints d') = om_size (tb_checkpoints d)
    \<and> gc_commit_data n + om_size (tb_commit_data d') = om_size (tb_commit_data d)"
  by (simp add: tally_def gc_counters_default_def)

lemma collect_nothing: "unreachable_commits (db c) = Inr [] \<Longrightarrow> collect_garbage c = (Inr gc_counters_default, c)"
  by (simp add: collect_garbage_def st_then_def st_query_def st_ret_def)

text \<open>What collection leaves: the live commits with their rows, a sound store, and counters that add up.\<close>

definition collected :: "platform \<Rightarrow> database \<Rightarrow> GcCounters \<Rightarrow> database \<Rightarrow> bool" where
  "collected P d n d' \<longleftrightarrow> store_ok P d' \<and> history_ok d' \<and> refs_ok d'
     \<and> (\<forall>c. om_get (tb_commits d') c = (if live d c then om_get (tb_commits d) c else None))
     \<and> (\<forall>c g. live d c \<longrightarrow> commit_graph P d' c g = commit_graph P d c g)
     \<and> tb_branches d' = tb_branches d \<and> tb_tags d' = tb_tags d \<and> tb_merge_sessions d' = tb_merge_sessions d
     \<and> (\<forall>c. om_get (tb_commit_data d') c = (if live d c then om_get (tb_commit_data d) c else None))
     \<and> (\<forall>c. om_has (tb_checkpoints d') c \<longleftrightarrow> om_has (tb_checkpoints d) c \<and> live d c)
     \<and> ((\<exists>c. om_has (tb_commits d) c \<and> \<not> live d c) \<longrightarrow>
          tb_layers d' = om_filter (\<lambda>i _. layer_referenced d' i) (tb_layers d)
        \<and> tb_schema_objects d' = om_filter (\<lambda>h _. schema_referenced d' h) (tb_schema_objects d))
     \<and> tally n d' = tally gc_counters_default d"

lemma collect_garbage_collected:
  assumes "store_ok P (db c)" "history_ok (db c)" "refs_ok (db c)"
  shows "\<exists>n c'. collect_garbage c = (Inr n, c') \<and> collected P (db c) n (db c') \<and> unreachable_commits (db c') = Inr []"
proof -
  obtain X where X: "unreachable_commits (db c) = Inr X" "set X = {k. om_has (tb_commits (db c)) k \<and> \<not> live (db c) k}"
    using unreachable_commits_exact [OF assms(2,3)] by blast
  show ?thesis
  proof (cases "X = []")
    case True
    then have "om_get (tb_commits (db c)) k = (if live (db c) k then om_get (tb_commits (db c)) k else None)" for k
      using X(2) by (auto simp: om_has_def)
    moreover have live: "live (db c) k" if "om_has (tb_commits (db c)) k" for k using True X(2) that by auto
    then have "om_get (tb_commit_data (db c)) k = (if live (db c) k then om_get (tb_commit_data (db c)) k else None)" for k
      using assms(3) by (cases "om_get (tb_commit_data (db c)) k") (auto simp: refs_ok_def om_all_iff)
    moreover have "om_has (tb_checkpoints (db c)) k \<longleftrightarrow> om_has (tb_checkpoints (db c)) k \<and> live (db c) k" for k
      using live store_checkpoint [OF assms(1), of k] by (auto simp: om_has_def [of "tb_commits (db c)"])
    ultimately show ?thesis using True assms X(1) collect_nothing [of c] live by (auto simp: collected_def)
  next
    case False
    let ?d' = "swept (set X) (db c)"
    obtain n where n: "collect_garbage c = (Inr n, c\<lparr>db := ?d'\<rparr>)" "tally n ?d' = tally gc_counters_default (db c)"
      using collect_garbage_run [OF X(1) False] by blast
    have p: "pruned (db c) ?d'" unfolding X(2) by (rule swept_pruned [OF assms])
    have row: "om_get (tb_commits ?d') k = (if live (db c) k then om_get (tb_commits (db c)) k else None)" for k
      by (auto simp: swept_tables X(2) om_get_filter om_has_def split: option.splits)
    have has: "om_has (tb_commits ?d') k \<longleftrightarrow> live (db c) k" for k
      using live_has [OF assms(2,3), of k] unfolding om_has_def row by simp
    have targets: "om_has (tb_commits ?d') k" if "ref_target (db c) k" for k
      using that by (auto simp: has live_def intro: exI [of _ k])
    have "om_all (\<lambda>k _. om_has (tb_commits ?d') k) (tb_commit_data ?d')"
      using assms(3) unfolding om_all_iff swept_tables(2) has refs_ok_def by (auto simp: X(2) om_get_filter split: option.splits if_splits)
    note refs = pruned_refs [OF p assms(3) targets this]
    have hist: "history_ok ?d'" by (rule pruned_history [OF p assms(2)])
    have "om_get (tb_commit_data ?d') k = (if live (db c) k then om_get (tb_commit_data (db c)) k else None)" for k
      using assms(3) by (auto simp: swept_tables(2) X(2) om_get_filter refs_ok_def om_all_iff split: option.splits)
    moreover have "om_has (tb_checkpoints ?d') k \<longleftrightarrow> om_has (tb_checkpoints (db c)) k \<and> live (db c) k" for k
      unfolding swept_checkpoints(1) X(2) using store_checkpoint [OF assms(1), of k] by (auto simp: om_has_def [of "tb_commits (db c)"])
    moreover have "tb_layers ?d' = om_filter (\<lambda>i _. layer_referenced ?d' i) (tb_layers (db c))"
      "tb_schema_objects ?d' = om_filter (\<lambda>h _. schema_referenced ?d' h) (tb_schema_objects (db c))"
      by (rule swept_tables(3), rule swept_tables(4))
    ultimately have "collected P (db c) n ?d'"
      using pruned_store [OF p assms(1)] hist refs(1) row pruned_graph [OF p] has n(2) pruned_fields [OF p] by (simp add: collected_def)
    moreover obtain Y where Y: "unreachable_commits ?d' = Inr Y" "set Y = {k. om_has (tb_commits ?d') k \<and> \<not> live ?d' k}"
      using unreachable_commits_exact [OF hist refs(1)] by blast
    have "live ?d' k" if "om_has (tb_commits ?d') k" for k
    proof -
      obtain r where r: "ref_target (db c) r" "ancestor (db c) k r" using \<open>om_has (tb_commits ?d') k\<close> unfolding has live_def by blast
      then have "ancestor ?d' k r" using pruned_ancestor [OF p targets [OF r(1)]] by blast
      with r(1) show ?thesis using refs(2) by (auto simp: live_def)
    qed
    then have "set Y = {}" unfolding Y(2) by blast
    then have "unreachable_commits ?d' = Inr []" using Y(1) by simp
    ultimately show ?thesis using n(1) by (intro exI [of _ n] exI [of _ "c\<lparr>db := ?d'\<rparr>"]) simp
  qed
qed

end
