(* ===== verification/Version_Laws.thy ===== *)
theory Version_Laws
  imports Gc_Sweep
begin

text \<open>
  The soundness of a version store (the store, its history, its references and its one root), and that every operation
  on it keeps this: commits, references, tags, commit data, merge sessions, checkpoints, identities and collection.
\<close>

section \<open>Soundness\<close>

definition sound :: "platform \<Rightarrow> hash_id \<Rightarrow> database \<Rightarrow> bool" where
  "sound P root d \<longleftrightarrow> store_ok P d \<and> history_ok d \<and> refs_ok d \<and> om_has (tb_commits d) root
     \<and> om_all (\<lambda>c row. (cr_parent1 row = None \<longleftrightarrow> c = root) \<and> (c = root \<longrightarrow> cr_parent2 row = None)) (tb_commits d)"

text \<open>Databases with the same commits, layers, schema objects and checkpoints.\<close>

definition same_history :: "database \<Rightarrow> database \<Rightarrow> bool" where
  "same_history d d' \<longleftrightarrow>
     d' = d\<lparr>tb_sequences := tb_sequences d', tb_labels := tb_labels d', tb_rel_types := tb_rel_types d', tb_prop_keys := tb_prop_keys d',
           tb_branches := tb_branches d', tb_tags := tb_tags d', tb_commit_data := tb_commit_data d',
           tb_merge_sessions := tb_merge_sessions d', tb_merge_resolutions := tb_merge_resolutions d'\<rparr>
   \<and> (om_has (tb_sequences d) 6 \<longrightarrow> om_has (tb_sequences d') 6 \<and> the (om_get (tb_sequences d) 6) \<le> the (om_get (tb_sequences d') 6))
   \<and> (om_has (tb_sequences d) 1 \<longrightarrow> om_has (tb_sequences d') 1) \<and> (om_has (tb_sequences d) 2 \<longrightarrow> om_has (tb_sequences d') 2)"

lemma same_history_obtain:
  assumes "same_history d d'"
  obtains a b e f g h i j k where "d' = d\<lparr>tb_sequences := a, tb_labels := b, tb_rel_types := e, tb_prop_keys := f,
           tb_branches := g, tb_tags := h, tb_commit_data := i, tb_merge_sessions := j, tb_merge_resolutions := k\<rparr>"
  using assms unfolding same_history_def by blast

lemma same_history_tables:
  assumes "same_history d d'"
  shows "tb_commits d' = tb_commits d" "tb_layers d' = tb_layers d" "tb_schema_objects d' = tb_schema_objects d"
    "same_checkpoints d d'" "tb_node_delta d' = tb_node_delta d" "tb_label_delta d' = tb_label_delta d" "tb_rel_delta d' = tb_rel_delta d"
    "tb_property_delta d' = tb_property_delta d"
  by (rule same_history_obtain [OF assms]; simp add: same_checkpoints_def)+

lemma same_history_keeps:
  assumes "same_history d d'"
  shows "keeps_layers P d d'" "keeps_commits d d'" "keeps_layers P d' d" "keeps_commits d' d"
proof -
  have "load_layer P d' i = load_layer P d i" for i
    by (rule same_layer_load) (simp add: same_layer_def same_history_tables [OF assms])
  then show "keeps_layers P d d'" "keeps_commits d d'" "keeps_layers P d' d" "keeps_commits d' d"
    by (simp_all add: keeps_layers_def keeps_commits_def same_history_tables [OF assms])
qed

lemma same_history_graph: "same_history d d' \<Longrightarrow> commit_graph P d' k g \<longleftrightarrow> commit_graph P d k g"
  using same_history_keeps commit_graph_kept by blast

lemma below_mono: "below n t \<Longrightarrow> n \<le> n' \<Longrightarrow> below n' t"
  by (force simp: below_def om_all_iff)

lemma same_history_layer_tables:
  assumes "same_history d d'" "layer_tables_ok d"
  shows "layer_tables_ok d'"
proof -
  note tables = same_history_tables [OF assms(1)]
  obtain n where n: "om_get (tb_sequences d) 6 = Some n" using assms(2) by (auto simp: layer_tables_ok_def split: option.splits)
  then obtain n' where n': "om_get (tb_sequences d') 6 = Some n'" "n \<le> n'"
    using assms(1) by (auto simp: same_history_def om_has_def)
  have old: "0 < n" "om_all (\<lambda>i h. 0 < i \<and> i < n \<and> length h = 32) (tb_layers d)" "below n (tb_node_delta d)" "below n (tb_label_delta d)"
    "below n (tb_rel_delta d)" "below n (tb_property_delta d)" "delta_rows_ok d"
    using assms(2) unfolding layer_tables_ok_def by (simp_all add: n)
  have "delta_rows_ok d'" using old(7) by (simp add: delta_rows_ok_def tables cong: option.case_cong)
  moreover have "om_all (\<lambda>i h. 0 < i \<and> i < n' \<and> length h = 32) (tb_layers d)" using old(2) n'(2) by (force simp: om_all_iff)
  moreover note old(3-6) [THEN below_mono, OF n'(2)]
  ultimately show ?thesis using old(1) n'(2) by (simp add: layer_tables_ok_def n'(1) tables)
qed

lemma same_history_store:
  assumes "same_history d d'" "store_ok P d" "om_all (\<lambda>_ c. om_has (tb_commits d) c) (tb_branches d')"
  shows "store_ok P d'"
proof -
  note tables = same_history_tables [OF assms(1)] and keep = same_history_keeps [OF assms(1)]
  have load: "load_layer P d' i = load_layer P d i" for i
    by (rule same_layer_load) (simp add: same_layer_def tables)
  have "checkpoints_ok P d'" by (rule checkpoints_kept [OF assms(2) keep(1,2) tables(4)])
  moreover have "commit_ok P d' c row" if "om_get (tb_commits d) c = Some row" for c row
    by (rule commit_ok_kept [OF store_commit [OF assms(2) that] keep(1,2)]) (simp add: tables)
  moreover have "layer_tables_ok d'" by (rule same_history_layer_tables [OF assms(1)]) (use assms(2) in \<open>simp add: store_ok_def\<close>)
  moreover have "tuples_unique d'"
    using assms(2) by (simp add: store_ok_def tuples_unique_def stored_tuple_def tables)
  moreover have "layers_addressed P d'" using assms(2) by (simp add: store_ok_def layers_addressed_def load tables)
  moreover have "checkpoint_rows_owned d'"
    using assms(2) tables(4) by (simp add: store_ok_def checkpoint_rows_owned_def same_checkpoints_def)
  moreover have "om_has (tb_sequences d') 1" "om_has (tb_sequences d') 2"
    using assms(1,2) by (simp_all add: same_history_def store_ok_def)
  ultimately show ?thesis
    using assms(2,3) tables(4) by (simp add: store_ok_def om_all_iff tables same_checkpoints_def)
qed

lemma history_cong: "tb_commits d' = tb_commits d \<Longrightarrow> history_ok d' = history_ok d" "tb_commits d' = tb_commits d \<Longrightarrow> ancestor d' = ancestor d"
proof -
  assume commits: "tb_commits d' = tb_commits d"
  then have "row_parents d' = row_parents d" by (simp add: row_parents_def fun_eq_iff)
  with commits show "history_ok d' = history_ok d" "ancestor d' = ancestor d"
    by (simp_all add: history_ok_def parent_rel_def ancestor_def fun_eq_iff)
qed

lemma sound_same_history:
  assumes "sound P root d" "same_history d d'" "refs_ok d'"
  shows "sound P root d'"
proof -
  have commits: "tb_commits d' = tb_commits d" by (rule same_history_tables [OF assms(2)])
  have "om_all (\<lambda>_ c. om_has (tb_commits d) c) (tb_branches d')"
    using assms(3) commits by (auto simp: om_all_iff refs_ok_def ref_target_def)
  then have "store_ok P d'" using same_history_store [OF assms(2)] assms(1) by (simp add: sound_def)
  then show ?thesis using assms(1,3) history_cong(1) [OF commits] by (simp add: sound_def commits)
qed

lemma sound_graph:
  assumes "sound P root d" "om_has (tb_commits d) k"
  shows "\<exists>g. commit_graph P d k g \<and> wf_graph g"
proof -
  obtain row where "om_get (tb_commits d) k = Some row" using assms(2) by (auto simp: om_has_def)
  then have "commit_ok P d k row" using store_commit assms(1) by (auto simp: sound_def)
  then show ?thesis by (auto simp: commit_ok_def)
qed

text \<open>Every commit and layer is still there, unchanged.\<close>

definition history_extends :: "platform \<Rightarrow> database \<Rightarrow> database \<Rightarrow> bool" where
  "history_extends P d d' \<longleftrightarrow> keeps_layers P d d' \<and> keeps_commits d d'"

lemma history_extends_refl [simp]: "history_extends P d d"
  by (simp add: history_extends_def)

lemma distinct_singleton: "distinct xs \<Longrightarrow> set xs = {a} \<Longrightarrow> xs = [a]"
  by (cases xs; cases "tl xs") auto

lemma root_commit_sound:
  assumes "sound P root d"
  shows "root_commit d = Inr root"
proof -
  obtain row where row: "om_get (tb_commits d) root = Some row" using assms by (auto simp: sound_def om_has_def)
  have mem: "(c, r) \<in> set (filter (\<lambda>(_, row). cr_parent1 row = None \<and> cr_parent2 row = None) (om_entries (tb_commits d))) \<longleftrightarrow> c = root \<and> r = row" for c r
    using assms row by (auto simp: sound_def om_all_iff om_entries_iff)
  have "distinct (filter (\<lambda>(_, row). cr_parent1 row = None \<and> cr_parent2 row = None) (om_entries (tb_commits d)))"
    using distinct_om_keys(1) [of "tb_commits d"] by (simp add: distinct_map)
  moreover have "set (filter (\<lambda>(_, row). cr_parent1 row = None \<and> cr_parent2 row = None) (om_entries (tb_commits d))) = {(root, row)}"
    using mem by (auto simp del: set_filter)
  ultimately have "filter (\<lambda>(_, row). cr_parent1 row = None \<and> cr_parent2 row = None) (om_entries (tb_commits d)) = [(root, row)]"
    by (rule distinct_singleton)
  moreover have "length root = 32" using assms commit_id_length by (auto simp: sound_def)
  ultimately show ?thesis by (simp add: root_commit_def hash_from_slice_def)
qed

section \<open>Commits\<close>

text \<open>A node without successors added to an acyclic relation.\<close>

lemma acyclic_new_node:
  assumes "acyclic r" "h \<notin> Domain r" "h \<notin> ps"
  shows "acyclic (r \<union> (\<lambda>p. (p, h)) ` ps)"
proof -
  let ?r = "r \<union> (\<lambda>p. (p, h)) ` ps"
  have dom: "h \<notin> Domain ?r" using assms(2,3) by auto
  have "(a, b) \<in> r\<^sup>+ \<or> b = h" if "(a, b) \<in> ?r\<^sup>+" for a b
    using that
  proof (induction rule: trancl_induct)
    case (step b c)
    then have "b \<noteq> h" using dom by auto
    with step show ?case by (auto intro: trancl_into_trancl)
  qed auto
  moreover have "(h, h) \<notin> ?r\<^sup>+" using dom by (metis Domain.DomainI tranclD)
  ultimately show ?thesis using assms(1) unfolding acyclic_def by metis
qed

lemma sound_commit:
  assumes "run \<in> commit_runs P branch e second l sh md" "run c = (Inr h, c')" "sound P root (db c)" "wf_layer l" "layer_fits P l"
  shows "sound P root (db c') \<and> history_extends P (db c) (db c')"
proof -
  let ?d = "db c" and ?d' = "db c'"
  have store: "store_ok P ?d" and hist: "history_ok ?d" and refs: "refs_ok ?d" using assms(3) by (simp_all add: sound_def)
  have post: "store_ok P ?d'" "history_extends P ?d ?d'"
    using commit_run_spec [OF assms(1,2) store assms(4,5)] unfolding history_extends_def by blast+
  obtain sh' c0 where c0: "commit_change_inner P branch e second (l, sh') md c0 = (Inr h, c')" "db c0 = ?d"
    using commit_run_Inr [OF assms(1,2)] by blast
  from commit_change_Inr [OF c0(1)] obtain c1 c2 i lh where
    c1: "db c1 = ?d" "persist_layer_checked P l c1 = (Inr (i, lh), c2)" and h: "h = nc_id (new_commit P e second i lh sh' md)" "length h = 32"
    and e: "om_get (tb_branches ?d) branch = Some e" "length e = 32"
    and second: "case second of None \<Rightarrow> True | Some p \<Rightarrow> om_has (tb_commits ?d) p" and schema: "om_has (tb_schema_objects ?d) sh'"
    and checks: "om_get (tb_commits (db c2)) h = None \<longrightarrow> commit_row_checks h (commit_row (new_commit P e second i lh sh' md))"
    and new: "om_get (tb_commits (db c2)) h \<in> {None, Some (commit_row (new_commit P e second i lh sh' md))}"
    and c': "?d' = db c2\<lparr>tb_commits := om_put h (commit_row (new_commit P e second i lh sh' md)) (tb_commits (db c2)),
                      tb_branches := om_put branch h (tb_branches (db c2))\<rparr>"
    unfolding c0(2) by (auto simp: Let_def)
  let ?row = "commit_row (new_commit P e second i lh sh' md)"
  have c2: "tb_commits (db c2) = tb_commits ?d \<and> tb_branches (db c2) = tb_branches ?d \<and> tb_tags (db c2) = tb_tags ?d
      \<and> tb_merge_sessions (db c2) = tb_merge_sessions ?d \<and> tb_commit_data (db c2) = tb_commit_data ?d"
    using persist_layer_checked_Inr [OF c1(2) assms(4)] c1(1) by (auto simp: with_layer_def)
  have commits: "tb_commits ?d' = om_put h ?row (tb_commits ?d)" "tb_branches ?d' = om_put branch h (tb_branches ?d)"
    "tb_tags ?d' = tb_tags ?d" "tb_merge_sessions ?d' = tb_merge_sessions ?d" "tb_commit_data ?d' = tb_commit_data ?d"
    using c' c2 by simp_all
  have e_has: "om_has (tb_commits ?d) e" using store_branch [OF store e(1)] by (auto simp: om_has_def)
  have row: "cr_parent1 ?row = Some e" "cr_parent2 ?row = second" by (simp_all add: commit_row_def new_commit_def)
  have parents: "row_parents ?d' b = (if b = h then e # (case second of None \<Rightarrow> [] | Some p \<Rightarrow> [p]) else row_parents ?d b)" for b
    by (simp add: row_parents_def commits(1) row)
  have parents_has: "om_has (tb_commits ?d) p" if "p \<in> set (row_parents ?d' h)" for p
    using that second e_has by (auto simp: parents split: option.splits)
  show ?thesis
  proof (cases "om_has (tb_commits ?d) h")
    case True
    then have "om_get (tb_commits ?d) h = Some ?row" using new c2 by (auto simp: om_has_def)
    then have same: "tb_commits ?d' = tb_commits ?d" unfolding commits(1) by (rule om_put_same)
    have "history_ok ?d'" using hist history_cong(1) [OF same] by simp
    moreover have "refs_ok ?d'" using refs True unfolding refs_ok_def ref_target_def same commits(2-5) by (auto split: if_splits)
    ultimately show ?thesis using assms(3) post by (simp add: sound_def same)
  next
    case False
    then have fresh: "om_get (tb_commits ?d) h = None" by (simp add: om_has_def)
    with checks c2 have checked: "commit_row_checks h ?row" by simp
    have old: "row_parents ?d h = []" using fresh by (simp add: row_parents_def)
    have rel: "parent_rel ?d' = parent_rel ?d \<union> (\<lambda>p. (p, h)) ` set (row_parents ?d' h)"
      using old by (auto simp: parent_rel_def parents)
    have "acyclic (parent_rel ?d')"
      unfolding rel
    proof (rule acyclic_new_node)
      show "acyclic (parent_rel ?d)" using hist by (simp add: history_ok_def)
      show "h \<notin> Domain (parent_rel ?d)" using history_parent [OF hist] False by (auto simp: parent_rel_def)
      show "h \<notin> set (row_parents ?d' h)" using parents_has False by blast
    qed
    moreover have "om_all commit_row_checks (tb_commits ?d')"
      using hist checked by (simp add: history_ok_def commits(1) om_all_put)
    moreover have "om_all (\<lambda>b _. list_all (om_has (tb_commits ?d')) (row_parents ?d' b)) (tb_commits ?d')"
      using history_parent [OF hist] parents_has parents by (auto simp: om_all_iff list_all_iff commits(1) split: if_splits)
    ultimately have "history_ok ?d'" by (simp add: history_ok_def)
    moreover have "refs_ok ?d'"
      using refs unfolding refs_ok_def ref_target_def commits by (auto simp: om_all_iff split: if_splits)
    moreover have "om_all (\<lambda>b row. (cr_parent1 row = None \<longleftrightarrow> b = root) \<and> (b = root \<longrightarrow> cr_parent2 row = None)) (tb_commits ?d')"
      using assms(3) False row unfolding sound_def commits(1) om_all_iff by auto
    ultimately show ?thesis using assms(3) post by (simp add: sound_def commits(1))
  qed
qed

section \<open>References and sessions\<close>

text \<open>The operations that keep the history: what each needs is that references still name commits.\<close>

lemma sound_refs:
  assumes "sound P root d"
  shows "om_get (tb_branches d) n = Some k \<Longrightarrow> om_has (tb_commits d) k" "om_get (tb_tags d) n = Some k \<Longrightarrow> om_has (tb_commits d) k"
    "om_get (tb_merge_sessions d) n = Some s \<Longrightarrow> om_has (tb_commits d) (ms_ours_commit s)"
    "om_get (tb_merge_sessions d) n = Some s \<Longrightarrow> om_has (tb_commits d) (ms_theirs_commit s)"
    "om_has (tb_branches d) main_branch" "om_get (tb_commit_data d) k = Some v \<Longrightarrow> om_has (tb_commits d) k"
proof -
  have "\<And>k. ref_target d k \<Longrightarrow> om_has (tb_commits d) k" "om_has (tb_branches d) main_branch"
    "\<And>k v. om_get (tb_commit_data d) k = Some v \<Longrightarrow> om_has (tb_commits d) k"
    using assms by (auto simp: sound_def refs_ok_def om_all_iff)
  then show "om_get (tb_branches d) n = Some k \<Longrightarrow> om_has (tb_commits d) k" "om_get (tb_tags d) n = Some k \<Longrightarrow> om_has (tb_commits d) k"
    "om_get (tb_merge_sessions d) n = Some s \<Longrightarrow> om_has (tb_commits d) (ms_ours_commit s)"
    "om_get (tb_merge_sessions d) n = Some s \<Longrightarrow> om_has (tb_commits d) (ms_theirs_commit s)"
    "om_has (tb_branches d) main_branch" "om_get (tb_commit_data d) k = Some v \<Longrightarrow> om_has (tb_commits d) k"
    unfolding ref_target_def by blast+
qed

lemma refs_same_history:
  assumes "sound P root (db c)" "same_history (db c) (db c')"
    and "\<And>n k. om_get (tb_branches (db c')) n = Some k \<Longrightarrow> om_has (tb_commits (db c)) k"
    and "\<And>n k. om_get (tb_tags (db c')) n = Some k \<Longrightarrow> om_has (tb_commits (db c)) k"
    and "\<And>n s. om_get (tb_merge_sessions (db c')) n = Some s \<Longrightarrow> om_has (tb_commits (db c)) (ms_ours_commit s) \<and> om_has (tb_commits (db c)) (ms_theirs_commit s)"
    and "om_has (tb_branches (db c')) main_branch"
    and "\<And>k v. om_get (tb_commit_data (db c')) k = Some v \<Longrightarrow> om_has (tb_commits (db c)) k"
  shows "sound P root (db c') \<and> history_extends P (db c) (db c')"
proof -
  have "refs_ok (db c')"
    unfolding refs_ok_def ref_target_def om_all_iff same_history_tables(1) [OF assms(2)] using assms(3-7) by blast
  with sound_same_history [OF assms(1,2)] same_history_keeps(1,2) [OF assms(2)] show ?thesis unfolding history_extends_def by blast
qed

declare st_res_iff [simp del]

lemma st_res_read [simp]: "st_res r' c = (r, c') \<longleftrightarrow> r' = r \<and> c' = c"
  by (auto simp: st_res_def)

lemma sound_create_branch:
  assumes "create_branch_ref name start c = (Inr u, c')" "sound P root (db c)"
  shows "sound P root (db c') \<and> history_extends P (db c) (db c')"
proof -
  from assms(1) have eff: "om_has (tb_commits (db c)) start" "db c' = db c\<lparr>tb_branches := om_put name start (tb_branches (db c))\<rparr>"
    by (auto simp: create_branch_ref_def create_branch_def split: if_splits)
  show ?thesis
    by (rule refs_same_history [OF assms(2)])
       (use eff sound_refs [OF assms(2)] in \<open>auto simp: same_history_def split: if_splits\<close>)
qed

lemma sound_delete_branch:
  assumes "delete_branch_ref temp name c = (Inr u, c')" "sound P root (db c)"
  shows "sound P root (db c') \<and> history_extends P (db c) (db c')"
proof -
  from assms(1) have eff: "c' = c \<or> name \<noteq> main_branch \<and> db c' = db c\<lparr>tb_branches := om_del name (tb_branches (db c))\<rparr>"
    by (auto simp: delete_branch_ref_def split: if_splits)
  then show ?thesis
  proof
    assume eff: "name \<noteq> main_branch \<and> db c' = db c\<lparr>tb_branches := om_del name (tb_branches (db c))\<rparr>"
    show ?thesis
      by (rule refs_same_history [OF assms(2)])
         (use eff sound_refs [OF assms(2)] in \<open>auto simp: same_history_def split: if_splits\<close>)
  qed (use assms(2) in simp)
qed

lemma update_row_Inr:
  "update_row ok k Q f t = Inr (n, t') \<longleftrightarrow>
     (case om_get t k of None \<Rightarrow> n = 0 \<and> t' = t
      | Some v \<Rightarrow> if Q v then ok \<and> n = 1 \<and> t' = om_put k (f v) t else n = 0 \<and> t' = t)"
  by (auto simp: update_row_def split: option.splits)

lemma lookup_named_ref_Inr:
  "lookup_named_ref t name = Inr r \<longleftrightarrow> r = om_get t name \<and> (case om_get t name of None \<Rightarrow> True | Some h \<Rightarrow> length h = 32)"
  by (auto simp: lookup_named_ref_def hash_from_slice_def split: option.splits)

lemma move_branch_ref_Inr:
  assumes "move_branch_ref name expected new c = (Inr r, c')"
  shows "r = om_get (tb_branches (db c)) name \<and> om_has (tb_commits (db c)) new
    \<and> (case r of None \<Rightarrow> c' = c
       | Some old \<Rightarrow> expected \<in> {None, Some old} \<and> db c' = db c\<lparr>tb_branches := om_put name new (tb_branches (db c))\<rparr>)"
  using assms by (auto simp: move_branch_ref_def lookup_named_ref_Inr update_row_Inr split: option.splits if_splits)

lemma sound_move_branch:
  assumes "move_branch_ref name expected new c = (Inr u, c')" "sound P root (db c)"
  shows "sound P root (db c') \<and> history_extends P (db c) (db c')"
proof (cases u)
  case None
  with move_branch_ref_Inr [OF assms(1)] assms(2) show ?thesis by simp
next
  case (Some old)
  with move_branch_ref_Inr [OF assms(1)]
  have eff: "om_has (tb_commits (db c)) new" "db c' = db c\<lparr>tb_branches := om_put name new (tb_branches (db c))\<rparr>" by auto
  show ?thesis
    by (rule refs_same_history [OF assms(2)])
       (use eff sound_refs [OF assms(2)] in \<open>auto simp: same_history_def split: if_splits\<close>)
qed

lemma tag_effect:
  "create_tag name new c = (Inr u, c') \<Longrightarrow> om_has (tb_commits (db c)) new \<and> db c' = db c\<lparr>tb_tags := om_put name new (tb_tags (db c))\<rparr>"
  "move_tag name new c = (Inr r, c') \<Longrightarrow> om_has (tb_commits (db c)) new \<and> r = om_get (tb_tags (db c)) name
     \<and> (c' = c \<or> db c' = db c\<lparr>tb_tags := om_put name new (tb_tags (db c))\<rparr>)"
  "delete_tag name c = (Inr r, c') \<Longrightarrow> c' = c \<or> db c' = db c\<lparr>tb_tags := om_del name (tb_tags (db c))\<rparr>"
  by (auto simp: create_tag_def move_tag_def delete_tag_def lookup_named_ref_Inr update_row_Inr split: option.splits if_splits)

lemma sound_tags:
  assumes "sound P root (db c)" "db c' = db c\<lparr>tb_tags := t\<rparr>" "\<And>n k. om_get t n = Some k \<Longrightarrow> om_has (tb_commits (db c)) k"
  shows "sound P root (db c') \<and> history_extends P (db c) (db c')"
  by (rule refs_same_history [OF assms(1)])
     (use assms(2,3) sound_refs [OF assms(1)] in \<open>auto simp: same_history_def split: if_splits\<close>)

lemma sound_tag_steps:
  assumes "create_tag name new c = (Inr u, c') \<or> move_tag name new c = (Inr r, c') \<or> delete_tag name c = (Inr r, c')" "sound P root (db c)"
  shows "sound P root (db c') \<and> history_extends P (db c) (db c')"
proof -
  have tags: "om_get (tb_tags (db c)) n = Some k \<Longrightarrow> om_has (tb_commits (db c)) k" for n k
    by (rule sound_refs(2) [OF assms(2)])
  from assms(1) tag_effect have "c' = c \<or> om_has (tb_commits (db c)) new \<and> db c' = db c\<lparr>tb_tags := om_put name new (tb_tags (db c))\<rparr>
      \<or> db c' = db c\<lparr>tb_tags := om_del name (tb_tags (db c))\<rparr>" by blast
  then show ?thesis
  proof (elim disjE conjE)
    assume new: "om_has (tb_commits (db c)) new" and eff: "db c' = db c\<lparr>tb_tags := om_put name new (tb_tags (db c))\<rparr>"
    show ?thesis by (rule sound_tags [OF assms(2) eff]) (use new tags in \<open>auto split: if_splits\<close>)
  next
    assume eff: "db c' = db c\<lparr>tb_tags := om_del name (tb_tags (db c))\<rparr>"
    show ?thesis by (rule sound_tags [OF assms(2) eff]) (use tags in \<open>auto split: if_splits\<close>)
  qed (use assms(2) in simp)
qed

lemma set_commit_data_Inr:
  "set_commit_data J commit data c = (Inr u, c') \<Longrightarrow>
     om_has (tb_commits (db c)) commit \<and> db c' = db c\<lparr>tb_commit_data := om_put commit data (tb_commit_data (db c))\<rparr>"
  by (auto simp: set_commit_data_def split: option.splits if_splits)

lemma clear_commit_data_Inr:
  "clear_commit_data commit c = (Inr u, c') \<Longrightarrow> db c' = db c\<lparr>tb_commit_data := om_del commit (tb_commit_data (db c))\<rparr>"
  by (auto simp: clear_commit_data_def)

lemma sound_data:
  assumes "sound P root (db c)" "db c' = db c\<lparr>tb_commit_data := t\<rparr>" "\<And>k v. om_get t k = Some v \<Longrightarrow> om_has (tb_commits (db c)) k"
  shows "sound P root (db c') \<and> history_extends P (db c) (db c')"
  by (rule refs_same_history [OF assms(1)])
     (use assms(2,3) sound_refs [OF assms(1)] in \<open>auto simp: same_history_def\<close>)

lemma sound_commit_data:
  assumes "set_commit_data J commit data c = (Inr u, c') \<or> clear_commit_data commit c = (Inr u, c')" "sound P root (db c)"
  shows "sound P root (db c') \<and> history_extends P (db c) (db c')"
  using assms(1)
proof
  assume "set_commit_data J commit data c = (Inr u, c')"
  note eff = set_commit_data_Inr [OF this]
  show ?thesis
    by (rule sound_data [OF assms(2) conjunct2 [OF eff]]) (use eff sound_refs(6) [OF assms(2)] in \<open>auto split: if_splits\<close>)
next
  assume "clear_commit_data commit c = (Inr u, c')"
  from clear_commit_data_Inr [OF this] show ?thesis
    by (rule sound_data [OF assms(2)]) (use sound_refs(6) [OF assms(2)] in \<open>auto split: if_splits\<close>)
qed

lemma create_merge_session_Inr:
  assumes "create_merge_session random branch ours theirs expected now c = (Inr r, c')"
  shows "\<exists>i. generate_session_id random = Inr i \<and> om_has (tb_commits (db c)) ours \<and> om_has (tb_commits (db c)) theirs
    \<and> om_get (tb_merge_sessions (db c)) i = None
    \<and> db c' = db c\<lparr>tb_merge_sessions := om_put i
         \<lparr>ms_target_branch = branch, ms_ours_commit = ours, ms_theirs_commit = theirs, ms_revision = 1, ms_created_at = now\<rparr>
         (tb_merge_sessions (db c))\<rparr>"
  using assms by (auto simp: create_merge_session_def commit_exists_def split: if_splits)

lemma load_merge_session_Inr: "load_merge_session d i = Inr None \<longleftrightarrow> om_get (tb_merge_sessions d) i = None"
  by (auto simp: load_merge_session_def split: option.splits)

lemma put_resolutions:
  assumes "st_all (\<lambda>(conflict_id, resolution). st_exec (\<lambda>d. if length conflict_id = 32
               then Inr (d\<lparr>tb_merge_resolutions := om_put (session, conflict_id) resolution (tb_merge_resolutions d)\<rparr>)
               else Inl (Sqlite ConstraintViolation))) kvs c = (Inr u, c')"
  shows "\<exists>t. db c' = db c\<lparr>tb_merge_resolutions := t\<rparr>"
proof (rule st_all_invariant [OF assms, of "\<lambda>d. \<exists>t. d = db c\<lparr>tb_merge_resolutions := t\<rparr>"])
  show "\<exists>t. db c = db c\<lparr>tb_merge_resolutions := t\<rparr>" by (rule exI [of _ "tb_merge_resolutions (db c)"]) simp
qed (auto split: if_splits prod.splits)

lemma update_session_run:
  "st_update (\<lambda>d. and_then (update_row ok k Q f (tb_merge_sessions d)) (\<lambda>(n, t). Inr (n, d\<lparr>tb_merge_sessions := t\<rparr>))) c = (Inr n, c')
     \<longleftrightarrow> (\<exists>t. update_row ok k Q f (tb_merge_sessions (db c)) = Inr (n, t) \<and> c' = c\<lparr>db := db c\<lparr>tb_merge_sessions := t\<rparr>\<rparr>)"
  by auto

lemma update_merge_resolutions_Inr:
  assumes "update_merge_resolutions session revn reps changed c = (Inr r, c')"
  shows "\<exists>row t. om_get (tb_merge_sessions (db c)) session = Some row \<and> ms_revision row = revn \<and> r = (if changed then revn + 1 else revn)
    \<and> db c' = db c\<lparr>tb_merge_sessions := om_put session (row\<lparr>ms_revision := r\<rparr>) (tb_merge_sessions (db c)), tb_merge_resolutions := t\<rparr>"
proof -
  from assms obtain touched t1 where t1: "update_row True session (\<lambda>row. ms_revision row = revn) (\<lambda>row. row) (tb_merge_sessions (db c)) = Inr (touched, t1)"
    and rest: "(if touched \<noteq> 1 then
         st_then (st_query (\<lambda>d. load_merge_session d session)) (\<lambda>found.
           if found = None then st_err (NotFound ''Merge Session '') else st_err BranchHeadMoved)
       else
         st_then (st_all (\<lambda>(conflict_id, resolution).
             st_exec (\<lambda>d. if length conflict_id = 32
               then Inr (d\<lparr>tb_merge_resolutions := om_put (session, conflict_id) resolution (tb_merge_resolutions d)\<rparr>)
               else Inl (Sqlite ConstraintViolation))) (om_entries reps)) (\<lambda>_.
           if \<not> changed then st_ret revn
           else if revn = i64_max then st_err (Corrupt ''attempt to add with overflow'')
           else
             st_then (st_update (\<lambda>d. and_then (update_row (revn + 1 > 0) session (\<lambda>row. ms_revision row = revn)
                 (\<lambda>row. row\<lparr>ms_revision := ms_revision row + 1\<rparr>) (tb_merge_sessions d)) (\<lambda>(n, t). Inr (n, d\<lparr>tb_merge_sessions := t\<rparr>)))) (\<lambda>changed_rows.
               if changed_rows \<noteq> 1 then st_err BranchHeadMoved else st_ret (revn + 1)))) (c\<lparr>db := db c\<lparr>tb_merge_sessions := t1\<rparr>\<rparr>) = (Inr r, c')"
    unfolding update_merge_resolutions_def st_then_Inr update_session_run by blast
  have touched: "touched = 1" using rest by (auto split: if_splits)
  obtain row where row: "om_get (tb_merge_sessions (db c)) session = Some row" "ms_revision row = revn"
    "t1 = om_put session row (tb_merge_sessions (db c))"
    using t1 unfolding touched by (auto simp: update_row_Inr split: option.splits if_splits)
  obtain c2 t where c2: "db c2 = db c\<lparr>tb_merge_sessions := t1, tb_merge_resolutions := t\<rparr>"
    and last: "(if \<not> changed then st_ret revn
           else if revn = i64_max then st_err (Corrupt ''attempt to add with overflow'')
           else
             st_then (st_update (\<lambda>d. and_then (update_row (revn + 1 > 0) session (\<lambda>row. ms_revision row = revn)
                 (\<lambda>row. row\<lparr>ms_revision := ms_revision row + 1\<rparr>) (tb_merge_sessions d)) (\<lambda>(n, t). Inr (n, d\<lparr>tb_merge_sessions := t\<rparr>)))) (\<lambda>changed_rows.
               if changed_rows \<noteq> 1 then st_err BranchHeadMoved else st_ret (revn + 1))) c2 = (Inr r, c')"
    using rest unfolding touched by (force dest!: put_resolutions)
  have put: "om_put session x (om_put session row m) = om_put session x m" for x m by (rule om_ext) (simp add: fun_eq_iff)
  show ?thesis
  proof (cases changed)
    case False
    have same: "row\<lparr>ms_revision := revn\<rparr> = row" using row(2) by (cases row) simp
    have r: "r = revn" and c2': "c' = c2" using last False by simp_all
    have "db c' = db c\<lparr>tb_merge_sessions := om_put session (row\<lparr>ms_revision := r\<rparr>) (tb_merge_sessions (db c)), tb_merge_resolutions := t\<rparr>"
      unfolding r same c2' c2 row(3) ..
    with row(1,2) r False show ?thesis by (intro exI conjI) (assumption | simp)+
  next
    case True
    with last obtain n u where u: "update_row (revn + 1 > 0) session (\<lambda>row. ms_revision row = revn)
        (\<lambda>row. row\<lparr>ms_revision := ms_revision row + 1\<rparr>) (tb_merge_sessions (db c2)) = Inr (n, u)"
      "n = 1" "r = revn + 1" "db c' = db c2\<lparr>tb_merge_sessions := u\<rparr>"
      by (auto simp: update_session_run split: if_splits)
    with row have "u = om_put session (row\<lparr>ms_revision := revn + 1\<rparr>) t1" by (simp add: update_row_Inr c2 split: if_splits)
    with True u(3,4) row c2 put show ?thesis by (intro exI [of _ row] exI [of _ t]) simp
  qed
qed

lemma delete_merge_session_Inr:
  assumes "delete_merge_session session revn c = (Inr r, c')"
  shows "if r then \<exists>t. db c' = db c\<lparr>tb_merge_sessions := om_del session (tb_merge_sessions (db c)), tb_merge_resolutions := t\<rparr>
    else c' = c"
proof -
  define gone where "gone = (case om_get (tb_merge_sessions (db c)) session of None \<Rightarrow> False | Some row \<Rightarrow> ms_revision row = revn)"
  let ?d = "db c\<lparr>tb_merge_sessions := om_del session (tb_merge_sessions (db c))\<rparr>"
  define upd where "upd = st_update (\<lambda>d. case om_get (tb_merge_sessions d) session of
         None \<Rightarrow> Inr (0, d)
       | Some row \<Rightarrow> if ms_revision row = revn
           then Inr (1 :: nat, d\<lparr>tb_merge_sessions := om_del session (tb_merge_sessions d)\<rparr>) else Inr (0, d))"
  have run: "upd c = (Inr (if gone then 1 else 0), if gone then c\<lparr>db := ?d\<rparr> else c)"
    by (cases "om_get (tb_merge_sessions (db c)) session") (simp_all add: upd_def st_update_def gone_def)
  have "st_then upd (\<lambda>changed.
       if changed = 0 then
         st_then (st_query (\<lambda>d. load_merge_session d session)) (\<lambda>found.
           if found = None then st_ret False else st_err BranchHeadMoved)
       else
         st_then (st_exec (\<lambda>d. Inr (d\<lparr>tb_merge_resolutions := om_filter (\<lambda>(i, _) _. i \<noteq> session) (tb_merge_resolutions d)\<rparr>))) (\<lambda>_.
           st_ret True)) c = (Inr r, c')"
    using assms unfolding delete_merge_session_def upd_def [symmetric] .
  then show ?thesis unfolding st_then_def [of upd] run by (cases gone) (auto split: if_splits)
qed

lemma sound_sessions:
  assumes "create_merge_session random branch ours theirs expected now c = (Inr s, c')
      \<or> update_merge_resolutions session revn reps changed c = (Inr n, c') \<or> delete_merge_session session revn c = (Inr b, c')"
    and "sound P root (db c)"
  shows "sound P root (db c') \<and> history_extends P (db c) (db c')"
proof -
  note old = sound_refs(3,4) [OF assms(2)]
  have "c' = c \<or> (\<exists>t u. db c' = db c\<lparr>tb_merge_sessions := t, tb_merge_resolutions := u\<rparr>
      \<and> (\<forall>i row. om_get t i = Some row \<longrightarrow> om_has (tb_commits (db c)) (ms_ours_commit row) \<and> om_has (tb_commits (db c)) (ms_theirs_commit row)))"
    using assms(1)
  proof (elim disjE)
    assume "create_merge_session random branch ours theirs expected now c = (Inr s, c')"
    from create_merge_session_Inr [OF this] obtain i row where eff: "db c' = db c\<lparr>tb_merge_sessions := om_put i row (tb_merge_sessions (db c))\<rparr>"
      "om_has (tb_commits (db c)) (ms_ours_commit row)" "om_has (tb_commits (db c)) (ms_theirs_commit row)" by force
    then show ?thesis using old by (intro disjI2 exI [of _ "om_put i row (tb_merge_sessions (db c))"] exI [of _ "tb_merge_resolutions (db c)"]) (auto split: if_splits)
  next
    assume "update_merge_resolutions session revn reps changed c = (Inr n, c')"
    from update_merge_resolutions_Inr [OF this] obtain row t where row: "om_get (tb_merge_sessions (db c)) session = Some row"
      and eff: "db c' = db c\<lparr>tb_merge_sessions := om_put session (row\<lparr>ms_revision := n\<rparr>) (tb_merge_sessions (db c)), tb_merge_resolutions := t\<rparr>" by blast
    then show ?thesis using old old [OF row]
      by (intro disjI2 exI [of _ "om_put session (row\<lparr>ms_revision := n\<rparr>) (tb_merge_sessions (db c))"] exI [of _ t]) (auto split: if_splits)
  next
    assume "delete_merge_session session revn c = (Inr b, c')"
    from delete_merge_session_Inr [OF this] show ?thesis
    proof (cases b)
      case True
      with delete_merge_session_Inr [OF \<open>delete_merge_session session revn c = (Inr b, c')\<close>]
      obtain t where "db c' = db c\<lparr>tb_merge_sessions := om_del session (tb_merge_sessions (db c)), tb_merge_resolutions := t\<rparr>" by auto
      then show ?thesis using old
        by (intro disjI2 exI [of _ "om_del session (tb_merge_sessions (db c))"] exI [of _ t]) (auto split: if_splits)
    qed simp
  qed
  then show ?thesis
  proof (elim disjE exE conjE)
    fix t u assume eff: "db c' = db c\<lparr>tb_merge_sessions := t, tb_merge_resolutions := u\<rparr>"
      "\<forall>i row. om_get t i = Some row \<longrightarrow> om_has (tb_commits (db c)) (ms_ours_commit row) \<and> om_has (tb_commits (db c)) (ms_theirs_commit row)"
    show ?thesis
      by (rule refs_same_history [OF assms(2)])
         (use eff sound_refs [OF assms(2)] in \<open>auto simp: same_history_def split: if_splits\<close>)
  qed (use assms(2) in simp)
qed

section \<open>Checkpoints, schema objects, identities\<close>

lemma checkpoint_change_tables:
  assumes "checkpoint_change c d d'"
  shows "tb_commits d' = tb_commits d" "tb_branches d' = tb_branches d" "tb_tags d' = tb_tags d" "tb_merge_sessions d' = tb_merge_sessions d"
    "tb_commit_data d' = tb_commit_data d"
proof -
  obtain u v x y z where "d' = d\<lparr>tb_checkpoints := u, tb_cp_nodes := v, tb_cp_labels := x, tb_cp_relationships := y, tb_cp_properties := z\<rparr>"
    using assms unfolding checkpoint_change_def by blast
  then show "tb_commits d' = tb_commits d" "tb_branches d' = tb_branches d" "tb_tags d' = tb_tags d" "tb_merge_sessions d' = tb_merge_sessions d"
    "tb_commit_data d' = tb_commit_data d" by simp_all
qed

lemma sound_tables:
  assumes "sound P root d" "store_ok P d'" "tb_commits d' = tb_commits d" "tb_branches d' = tb_branches d" "tb_tags d' = tb_tags d"
    "tb_merge_sessions d' = tb_merge_sessions d" "tb_commit_data d' = tb_commit_data d" "keeps_layers P d d'"
  shows "sound P root d' \<and> history_extends P d d'"
  using assms(1,2,8) unfolding sound_def refs_ok_def ref_target_def history_extends_def keeps_commits_def assms(3-7) history_cong(1) [OF assms(3)] by blast

lemma sound_checkpoint:
  assumes "checkpoint_change k d d'" "store_ok P d'" "sound P root d"
  shows "sound P root d' \<and> history_extends P d d'"
  using sound_tables [OF assms(3,2)] checkpoint_change_tables [OF assms(1)] checkpoint_change_keeps(1) [OF assms(1)] by blast

lemma create_checkpoint_missing:
  assumes "create_checkpoint J now k c = Some (Inr u, c')" "\<not> om_has (tb_checkpoints (db c)) k"
  shows "om_has (tb_commits (db c)) k"
proof (rule ccontr)
  assume no: "\<not> om_has (tb_commits (db c)) k"
  from assms obtain c1 where c1: "insert_checkpoint now k c = (Inr (), c1)"
    by (auto simp: create_checkpoint_def checkpoint_exists_def split: prod.splits sum.splits dest!: with_savepoint_Inr [THEN iffD1])
  then have "tb_commits (db c1) = tb_commits (db c)" by (auto simp: insert_checkpoint_def)
  with no have "om_get (tb_commits (db c1)) k = None" by (simp add: om_has_def)
  then have "first_parent_layers (db c1) k = Some (Inl (Sqlite QueryReturnedNoRows))"
    by (simp add: first_parent_layers_def first_parent_loop.simps [of "db c1" "Some k"])
  with assms c1 show False by (simp add: create_checkpoint_def checkpoint_exists_def)
qed

lemma sound_create_checkpoint:
  assumes "create_checkpoint J now k c = Some (Inr u, c')" "sound P root (db c)"
  shows "sound P root (db c') \<and> history_extends P (db c) (db c')"
proof (cases "om_has (tb_checkpoints (db c)) k")
  case True
  with assms show ?thesis by (simp add: create_checkpoint_def checkpoint_exists_def)
next
  case False
  have store: "store_ok P (db c)" and hist: "history_ok (db c)" using assms(2) by (simp_all add: sound_def)
  have has: "om_has (tb_commits (db c)) k" by (rule create_checkpoint_missing [OF assms(1) False])
  then obtain g where g: "commit_graph P (db c) k g"
    using store_commit [OF store] by (fastforce simp: om_has_def commit_ok_def)
  from create_checkpoint_run [OF store g commit_id_length [OF hist has] False, of J now] assms(1)
  have run: "checkpoint_holds P (db c') k g" "checkpoint_change k (db c) (db c')" "om_has (tb_checkpoints (db c')) k"
    by (auto simp: om_has_def)
  have "store_ok P (db c')"
    by (rule checkpoint_change_store [OF run(2) store conjI]) (use has run(1,3) commit_graph_unique [OF g] in auto)
  then show ?thesis by (rule sound_checkpoint [OF run(2) _ assms(2)])
qed

lemma sound_delete_checkpoint:
  assumes "delete_checkpoint k c = (Inr u, c')" "sound P root (db c)"
  shows "sound P root (db c') \<and> history_extends P (db c) (db c')"
proof -
  have "store_ok P (without_checkpoint k (db c))"
    by (rule checkpoint_change_store [OF without_checkpoint_change]) (use assms(2) without_checkpoint_rows in \<open>auto simp: sound_def\<close>)
  with sound_checkpoint [OF without_checkpoint_change _ assms(2)] assms(1) show ?thesis by (auto simp: delete_checkpoint_run)
qed

lemma sound_schema:
  assumes "persist_schema_blob P blob c = (Inr h, c')" "sound P root (db c)"
  shows "sound P root (db c') \<and> history_extends P (db c) (db c')"
proof -
  from assms(1) have "db c' = db c \<or> om_get (tb_schema_objects (db c)) (blake3 P blob) = None
      \<and> db c' = db c\<lparr>tb_schema_objects := om_put (blake3 P blob) blob (tb_schema_objects (db c))\<rparr>"
    by (auto simp: persist_schema_blob_def Let_def insert_or_ignore_def om_has_def split: if_splits)
  then show ?thesis
  proof (elim disjE conjE)
    assume "om_get (tb_schema_objects (db c)) (blake3 P blob) = None"
      and eff: "db c' = db c\<lparr>tb_schema_objects := om_put (blake3 P blob) blob (tb_schema_objects (db c))\<rparr>"
    then have "store_ok P (db c')" unfolding eff using assms(2) by (intro store_add_schema) (simp_all add: sound_def)
    moreover have "load_layer P (db c') i = load_layer P (db c) i" for i by (rule same_layer_load) (simp add: same_layer_def eff)
    then have "keeps_layers P (db c) (db c')" by (simp add: keeps_layers_def eff)
    ultimately show ?thesis by (intro sound_tables [OF assms(2)]) (simp_all add: eff)
  qed (use assms(2) in simp)
qed

lemma sound_allocate:
  assumes "allocate_id_range kind n c = (Inr i, c')" "kind \<noteq> 6" "sound P root (db c)"
  shows "sound P root (db c') \<and> history_extends P (db c) (db c')"
  by (rule refs_same_history [OF assms(3)])
     (use allocate_id_range_Inr [OF assms(1)] assms(2) sound_refs [OF assms(3)] in \<open>auto simp: same_history_def\<close>)

lemma sound_intern:
  assumes "intern_name table kind name c = (Inr i, c')" "(table, kind) \<in> {(labels_table, 3), (rel_types_table, 4), (prop_keys_table, 5)}"
    and "sound P root (db c)"
  shows "sound P root (db c') \<and> history_extends P (db c) (db c')"
proof (cases "om_find ((=) name) (fst table (db c))")
  case None
  with assms(1) obtain c1 t where c1: "allocate_id kind c = (Inr i, c1)" "db c' = snd table t (db c1)"
    by (auto simp: intern_name_def find_name_def)
  have s1: "sound P root (db c1)" "history_extends P (db c) (db c1)"
    using sound_allocate [of kind 1 c i c1] c1(1) assms(2,3) by (auto simp: allocate_id_def)
  have "sound P root (db c') \<and> history_extends P (db c1) (db c')"
    by (rule refs_same_history [OF s1(1)])
       (use c1(2) assms(2) sound_refs [OF s1(1)] in \<open>auto simp: same_history_def labels_table_def rel_types_table_def prop_keys_table_def\<close>)
  with s1(2) show ?thesis by (auto simp: history_extends_def intro: keeps_trans)
next
  case (Some j)
  with assms show ?thesis by (auto simp: intern_name_def find_name_def)
qed

lemma sound_root_live:
  assumes "sound P root d"
  shows "live d root"
proof -
  obtain h where h: "om_get (tb_branches d) main_branch = Some h"
    using sound_refs(5) [OF assms] by (auto simp: om_has_def)
  have "ancestor d root k" if has: "om_has (tb_commits d) k" for k
  proof -
    obtain g where "commit_graph P d k g" using sound_graph [OF assms has] by blast
    then show ?thesis
    proof (induction rule: commit_graph.induct)
      case (root k r l)
      then obtain cr where "om_get (tb_commits d) k = Some cr" "cr_parent1 cr = None" by (auto simp: load_lineage_row_def split: option.splits)
      then have "k = root" using assms by (auto simp: sound_def om_all_iff)
      then show ?case by simp
    next
      case (child k r p l g)
      then have "p \<in> set (row_parents d k)"
        by (auto simp: load_lineage_row_def row_parents_def hash_from_slice_def split: option.splits if_splits)
      then show ?case using child.IH ancestor_parent ancestor_trans by blast
    qed
  qed
  then have "ancestor d root h" using sound_refs(1) [OF assms h] by blast
  then show ?thesis using h by (auto simp: live_def ref_target_def)
qed

lemma sound_collect:
  assumes "collect_garbage c = (Inr n, c')" "sound P root (db c)"
  shows "sound P root (db c') \<and> (\<forall>k. om_get (tb_commits (db c')) k = (if live (db c) k then om_get (tb_commits (db c)) k else None))
    \<and> (\<forall>k g. live (db c) k \<longrightarrow> commit_graph P (db c') k g = commit_graph P (db c) k g)"
proof -
  have "store_ok P (db c)" "history_ok (db c)" "refs_ok (db c)" using assms(2) by (simp_all add: sound_def)
  from collect_garbage_collected [OF this] assms(1) have c': "collected P (db c) n (db c')" by auto
  have "live (db c) root" by (rule sound_root_live [OF assms(2)])
  then have "om_has (tb_commits (db c')) root" using c' assms(2) by (simp add: collected_def om_has_def sound_def)
  moreover have "om_all (\<lambda>k row. (cr_parent1 row = None \<longleftrightarrow> k = root) \<and> (k = root \<longrightarrow> cr_parent2 row = None)) (tb_commits (db c'))"
    using c' assms(2) by (auto simp: collected_def sound_def om_all_iff)
  ultimately show ?thesis using c' by (simp add: collected_def sound_def)
qed

end
