(* ===== verification/State.thy ===== *)
theory State
  imports Version_Laws
begin

text \<open>
  Whole snapshots in memory, the layer between two of them, and the net layer between a commit and a first-parent descendant
  (\<^verbatim>\<open>storage/version/state.rs\<close>). The graph part of a snapshot state is a \<open>graph\<close>; its schema is the object the schema
  component loads and takes no part in the layer.
\<close>

section \<open>Loading a snapshot\<close>

definition load_snapshot_state :: "platform \<Rightarrow> database \<Rightarrow> hash_id \<Rightarrow> graph res" where
  "load_snapshot_state P d commit =
     and_then (resolve P d commit) (\<lambda>s.
     and_then (snd (visit_nodes d s (\<lambda>node t. chk_ok (om_put node () t)) om_empty)) (\<lambda>nodes.
     and_then (snd (visit_labels_checked d s (\<lambda>node label t. chk_ok (om_put (node, label) () t)) om_empty)) (\<lambda>labels.
     and_then (snd (visit_relationships_checked d s (\<lambda>r t. chk_ok (om_put (rel_id r) r t)) om_empty)) (\<lambda>relationships.
     and_then (snd (visit_properties_observed P d s (\<lambda>kind owner key v t. chk_ok (om_put (kind, owner, key) v t)) om_empty)) (\<lambda>properties.
       Inr \<lparr>g_nodes = nodes, g_labels = labels, g_relationships = relationships, g_properties = properties\<rparr>)))))"

section \<open>The layer between two states\<close>

text \<open>The merge walk over two sorted sets.\<close>

fun visit_set_changes :: "('k::linorder \<Rightarrow> bool \<Rightarrow> 's \<Rightarrow> 's res) \<Rightarrow> 'k list \<Rightarrow> 'k list \<Rightarrow> 's \<Rightarrow> 's chk" where
  "visit_set_changes visitor (l # ls) (r # rs) s =
     chk_then check (\<lambda>_.
       if l < r then chk_then (chk_res (visitor l False s)) (visit_set_changes visitor ls (r # rs))
       else if r < l then chk_then (chk_res (visitor r True s)) (visit_set_changes visitor (l # ls) rs)
       else visit_set_changes visitor ls rs s)"
| "visit_set_changes visitor (l # ls) [] s =
     chk_then check (\<lambda>_. chk_then (chk_res (visitor l False s)) (visit_set_changes visitor ls []))"
| "visit_set_changes visitor [] (r # rs) s =
     chk_then check (\<lambda>_. chk_then (chk_res (visitor r True s)) (visit_set_changes visitor [] rs))"
| "visit_set_changes visitor [] [] s = chk_ok s"

definition append_node_label_delta :: "graph \<Rightarrow> graph \<Rightarrow> LayerBuilder \<Rightarrow> LayerBuilder chk" where
  "append_node_label_delta before after layer =
     chk_then (visit_set_changes (\<lambda>node added. if added then add_node node else remove_node node)
                 (om_keys (g_nodes before)) (om_keys (g_nodes after)) layer)
       (visit_set_changes (\<lambda>(node, label) added. if added then add_label node label else remove_label node label)
          (om_keys (g_labels before)) (om_keys (g_labels after)))"

definition append_relationship_delta :: "graph \<Rightarrow> graph \<Rightarrow> LayerBuilder \<Rightarrow> LayerBuilder chk" where
  "append_relationship_delta before after layer =
     chk_then (chk_fold (\<lambda>(i, r) l. chk_then check (\<lambda>_. chk_res (
         case om_get (g_relationships after) i of
           None \<Rightarrow> remove_relationship r l
         | Some r' \<Rightarrow> if r' \<noteq> r then Inl (Corrupt ''RelationshipId changed immutable endpoints or type'') else Inr l)))
       (om_entries (g_relationships before)) layer) (\<lambda>layer.
     chk_fold (\<lambda>(i, r) l. chk_then check (\<lambda>_. chk_res (
         if \<not> om_has (g_relationships before) i then add_relationship r l else Inr l)))
       (om_entries (g_relationships after)) layer)"

definition property_changed_checked :: "PropertyValue \<Rightarrow> PropertyValue \<Rightarrow> bool chk" where
  "property_changed_checked before after =
     chk_then (canonical_bytes_checked before) (\<lambda>b.
     chk_then (canonical_bytes_checked after) (\<lambda>a.
     chk_then (equal_bytes_checked b a) (\<lambda>same. chk_ok (\<not> same))))"

definition append_property_delta :: "graph \<Rightarrow> graph \<Rightarrow> LayerBuilder \<Rightarrow> LayerBuilder chk" where
  "append_property_delta before after layer =
     chk_then (chk_fold (\<lambda>((kind, owner, key), v) l. chk_then check (\<lambda>_.
         case om_get (g_properties after) (kind, owner, key) of
           None \<Rightarrow> chk_res (remove_property kind owner key l)
         | Some w \<Rightarrow>
             chk_then (property_changed_checked v w) (\<lambda>changed.
               if changed then chk_then (clone_value_checked w) (\<lambda>w. chk_res (set_property kind owner key w l)) else chk_ok l)))
       (om_entries (g_properties before)) layer) (\<lambda>layer.
     chk_fold (\<lambda>((kind, owner, key), w) l. chk_then check (\<lambda>_.
         if \<not> om_has (g_properties before) (kind, owner, key)
         then chk_then (clone_value_checked w) (\<lambda>w. chk_res (set_property kind owner key w l)) else chk_ok l))
       (om_entries (g_properties after)) layer)"

definition layer_between_checked :: "graph \<Rightarrow> graph \<Rightarrow> LayerBuilder chk" where
  "layer_between_checked before after =
     chk_then check (\<lambda>_.
     chk_then (append_node_label_delta before after layer_default) (\<lambda>layer.
     chk_then (append_relationship_delta before after layer) (\<lambda>layer.
     chk_then (append_property_delta before after layer) (\<lambda>layer.
     chk_then check (\<lambda>_. chk_ok layer)))))"

definition layer_between :: "graph \<Rightarrow> graph \<Rightarrow> LayerBuilder res" where
  "layer_between before after = snd (layer_between_checked before after)"

section \<open>The net layer between commits\<close>

text \<open>\<^verbatim>\<open>entry(k).or_insert(v)\<close> for the entries of a table.\<close>

definition om_or_insert :: "('k::linorder \<times> 'v) list \<Rightarrow> ('k, 'v) omap \<Rightarrow> ('k, 'v) omap" where
  "om_or_insert kvs t = fold (\<lambda>(k, v) t. if om_has t k then t else om_put k v t) kvs t"

definition or_insert_layer :: "LayerBuilder \<Rightarrow> LayerBuilder \<Rightarrow> LayerBuilder" where
  "or_insert_layer layer latest =
     \<lparr>lb_nodes = om_or_insert (om_entries (lb_nodes layer)) (lb_nodes latest),
      lb_labels = om_or_insert (om_entries (lb_labels layer)) (lb_labels latest),
      lb_relationships = om_or_insert (om_entries (lb_relationships layer)) (lb_relationships latest),
      lb_properties = om_or_insert (om_entries (lb_properties layer)) (lb_properties latest)\<rparr>"

text \<open>The walk has no cycle check of its own.\<close>

partial_function (option) touched_layer_loop ::
    "platform \<Rightarrow> database \<Rightarrow> hash_id \<Rightarrow> hash_id \<Rightarrow> LayerBuilder \<Rightarrow> LayerBuilder res option" where
  "touched_layer_loop P d base current latest =
     (if current = base then Some (Inr latest)
      else case om_get (tb_commits d) current of
          None \<Rightarrow> Some (Inl (Sqlite QueryReturnedNoRows))
        | Some row \<Rightarrow>
            (case load_layer P d (cr_layer_id row) of
               Inl e \<Rightarrow> Some (Inl e)
             | Inr layer \<Rightarrow>
                 (case cr_parent1 row of
                    None \<Rightarrow> Some (Inl (Corrupt ''Commit is not a first-parent descendant''))
                  | Some parent \<Rightarrow>
                      (case hash_from_slice parent of
                         Inl e \<Rightarrow> Some (Inl e)
                       | Inr parent \<Rightarrow> touched_layer_loop P d base parent (or_insert_layer layer latest)))))"

declare touched_layer_loop.simps [code]

definition touched_layer_between_commits :: "platform \<Rightarrow> database \<Rightarrow> hash_id \<Rightarrow> hash_id \<Rightarrow> LayerBuilder res option" where
  "touched_layer_between_commits P d base descendant =
     (if base = descendant then Some (Inr layer_default) else touched_layer_loop P d base descendant layer_default)"

definition normalize_touched_nodes ::
    "database \<Rightarrow> SnapshotState \<Rightarrow> (i64, DeltaOp) omap \<Rightarrow> LayerBuilder \<Rightarrow> LayerBuilder res" where
  "normalize_touched_nodes d base nodes result =
     fold_res (\<lambda>(node, p) l.
       and_then (node_exists d base node) (\<lambda>before.
         case (before, p = Add) of
           (False, True) \<Rightarrow> add_node node l
         | (True, False) \<Rightarrow> remove_node node l
         | _ \<Rightarrow> Inr l)) (om_entries nodes) result"

definition base_labels_of ::
    "database \<Rightarrow> SnapshotState \<Rightarrow> i64 \<Rightarrow> (i64, i64 list) omap \<Rightarrow> (i64 list \<times> (i64, i64 list) omap) res" where
  "base_labels_of d base node cache =
     (case om_get cache node of
        Some ls \<Rightarrow> Inr (ls, cache)
      | None \<Rightarrow> and_then (labels d base node) (\<lambda>ls. Inr (ls, om_put node ls cache)))"

definition normalize_touched_labels ::
    "database \<Rightarrow> SnapshotState \<Rightarrow> (i64 \<times> i64, DeltaOp) omap \<Rightarrow> LayerBuilder \<Rightarrow> LayerBuilder res" where
  "normalize_touched_labels d base touched result =
     and_then (fold_res (\<lambda>((node, label), p) (cache, l).
       and_then (base_labels_of d base node cache) (\<lambda>(ls, cache).
         and_then (case (label \<in> set ls, p = Add) of
             (False, True) \<Rightarrow> add_label node label l
           | (True, False) \<Rightarrow> remove_label node label l
           | _ \<Rightarrow> Inr l) (\<lambda>l. Inr (cache, l)))) (om_entries touched) (om_empty, result)) (\<lambda>(_, l). Inr l)"

definition normalize_touched_relationships ::
    "database \<Rightarrow> SnapshotState \<Rightarrow> (i64, RelationshipDelta) omap \<Rightarrow> LayerBuilder \<Rightarrow> LayerBuilder res" where
  "normalize_touched_relationships d base touched result =
     fold_res (\<lambda>(i, delta) l.
       and_then (relationship d base i) (\<lambda>before.
         case (before, if rd_op delta = Add then Some (rd_record delta) else None) of
           (None, Some r) \<Rightarrow> add_relationship r l
         | (Some r, None) \<Rightarrow> remove_relationship r l
         | (Some r, Some r') \<Rightarrow>
             if r \<noteq> r' then Inl (Corrupt ''RelationshipId changed immutable endpoints or type'') else Inr l
         | (None, None) \<Rightarrow> Inr l)) (om_entries touched) result"

definition normalize_touched_properties ::
    "platform \<Rightarrow> database \<Rightarrow> SnapshotState \<Rightarrow> (OwnerKind \<times> i64 \<times> i64, PropertyDelta) omap \<Rightarrow> LayerBuilder \<Rightarrow> LayerBuilder res" where
  "normalize_touched_properties P d base touched result =
     fold_res (\<lambda>((kind, owner, key), delta) l.
       and_then (property P d base kind owner key) (\<lambda>before.
         case (before, if pd_op delta = Add then pd_value delta else None) of
           (None, Some v) \<Rightarrow> set_property kind owner key v l
         | (Some _, None) \<Rightarrow> remove_property kind owner key l
         | (Some v, Some w) \<Rightarrow>
             and_then (canonical_bytes v) (\<lambda>b. and_then (canonical_bytes w) (\<lambda>a.
               if b \<noteq> a then set_property kind owner key w l else Inr l))
         | (None, None) \<Rightarrow> Inr l)) (om_entries touched) result"

definition normalize_touched_layer :: "platform \<Rightarrow> database \<Rightarrow> hash_id \<Rightarrow> LayerBuilder \<Rightarrow> LayerBuilder res" where
  "normalize_touched_layer P d base_commit latest =
     and_then (resolve P d base_commit) (\<lambda>base.
     and_then (normalize_touched_nodes d base (lb_nodes latest) layer_default) (\<lambda>result.
     and_then (normalize_touched_labels d base (lb_labels latest) result) (\<lambda>result.
     and_then (normalize_touched_relationships d base (lb_relationships latest) result)
       (normalize_touched_properties P d base (lb_properties latest)))))"

definition layer_between_commits :: "platform \<Rightarrow> database \<Rightarrow> hash_id \<Rightarrow> hash_id \<Rightarrow> LayerBuilder res option" where
  "layer_between_commits P d base descendant =
     map_option (\<lambda>r. and_then r (normalize_touched_layer P d base)) (touched_layer_between_commits P d base descendant)"

partial_function (option) is_first_parent_descendant :: "database \<Rightarrow> hash_id \<Rightarrow> hash_id \<Rightarrow> bool res option" where
  "is_first_parent_descendant d base descendant =
     (if descendant = base then Some (Inr True)
      else case load_commit d descendant of
          Inl e \<Rightarrow> Some (Inl e)
        | Inr record \<Rightarrow>
            (case rec_parent1 record of
               None \<Rightarrow> Some (Inr False)
             | Some parent \<Rightarrow> is_first_parent_descendant d base parent))"

declare is_first_parent_descendant.simps [code]

section \<open>Identities kept across a rewrite\<close>

record AllocationState =
  as_sequences :: "(i64 \<times> i64) list"
  as_labels :: "(i64 \<times> ustr) list"
  as_relationship_types :: "(i64 \<times> ustr) list"
  as_property_keys :: "(i64 \<times> ustr) list"

definition capture_allocation_state :: "database \<Rightarrow> AllocationState" where
  "capture_allocation_state d =
     \<lparr>as_sequences = om_entries (tb_sequences d), as_labels = om_entries (tb_labels d),
      as_relationship_types = om_entries (tb_rel_types d), as_property_keys = om_entries (tb_prop_keys d)\<rparr>"

text \<open>\<^verbatim>\<open>INSERT OR IGNORE\<close> into a dictionary: the identifier is its key, positive, and the name is unique.\<close>

definition restore_dictionary :: "(i64 \<times> ustr) list \<Rightarrow> (i64, ustr) omap \<Rightarrow> (i64, ustr) omap" where
  "restore_dictionary values t = fold (\<lambda>(i, name) t. insert_or_ignore (i > 0 \<and> name \<notin> set (om_values t)) i name t) values t"

definition restore_allocation_state :: "AllocationState \<Rightarrow> database \<Rightarrow> database" where
  "restore_allocation_state a d =
     (let d = d\<lparr>tb_labels := restore_dictionary (as_labels a) (tb_labels d),
                tb_rel_types := restore_dictionary (as_relationship_types a) (tb_rel_types d),
                tb_prop_keys := restore_dictionary (as_property_keys a) (tb_prop_keys d)\<rparr> in
      fold (\<lambda>(kind, next) d.
        case om_get (tb_sequences d) kind of
          None \<Rightarrow> d
        | Some n \<Rightarrow> d\<lparr>tb_sequences := om_put kind (max n next) (tb_sequences d)\<rparr>) (as_sequences a) d)"

end
