(* ===== verification/Discard_Laws.thy ===== *)
theory Discard_Laws
  imports State
begin

text \<open>
  Undoing work inside a transaction: discarding the chain of commits a transaction has staged
  (\<^verbatim>\<open>version/history.rs\<close>), and restoring the identities that were allocated
  (\<^verbatim>\<open>version/state.rs\<close>). Neither touches what a reference reaches.
\<close>

section \<open>The database without a chain\<close>

text \<open>
  Commits that are local to a transaction: no reference names one, and no other commit has one as a parent. The
  caller discards only such a chain (\<^verbatim>\<open>lithograph-extension/src/transaction.rs\<close>).
\<close>

definition uncommitted :: "database \<Rightarrow> hash_id set \<Rightarrow> bool" where
  "uncommitted d X \<longleftrightarrow> (\<forall>k \<in> X. \<not> ref_target d k) \<and> (\<forall>c. \<forall>k \<in> set (row_parents d c). k \<in> X \<longrightarrow> c \<in> X)"

definition discarded :: "hash_id set \<Rightarrow> i64 set \<Rightarrow> hash_id set \<Rightarrow> database \<Rightarrow> database" where
  "discarded X Y Z d = (without_layers Y (without_commits X d))\<lparr>tb_schema_objects := om_filter (\<lambda>h _. h \<notin> Z) (tb_schema_objects d)\<rparr>"

text \<open>Only layers and schema objects that no remaining commit uses go with the chain.\<close>

definition unused :: "hash_id set \<Rightarrow> i64 set \<Rightarrow> hash_id set \<Rightarrow> database \<Rightarrow> bool" where
  "unused X Y Z d \<longleftrightarrow> (\<forall>i \<in> Y. \<not> layer_referenced (without_commits X d) i) \<and> (\<forall>h \<in> Z. \<not> schema_referenced (without_commits X d) h)"

lemma discarded_tables:
  "tb_commits (discarded X Y Z d) = om_filter (\<lambda>c _. c \<notin> X) (tb_commits d)"
  "tb_commit_data (discarded X Y Z d) = om_filter (\<lambda>c _. c \<notin> X) (tb_commit_data d)"
  "tb_layers (discarded X Y Z d) = om_filter (\<lambda>i _. i \<notin> Y) (tb_layers d)"
  "tb_schema_objects (discarded X Y Z d) = om_filter (\<lambda>h _. h \<notin> Z) (tb_schema_objects d)"
  "tb_branches (discarded X Y Z d) = tb_branches d"
  "om_has (tb_checkpoints (discarded X Y Z d)) c \<longleftrightarrow> om_has (tb_checkpoints d) c \<and> c \<notin> X"
  "om_slice c (tb_cp_nodes (discarded X Y Z d)) = (if c \<in> X then om_empty else om_slice c (tb_cp_nodes d))"
  "om_slice c (tb_cp_labels (discarded X Y Z d)) = (if c \<in> X then om_empty else om_slice c (tb_cp_labels d))"
  "om_slice c (tb_cp_relationships (discarded X Y Z d)) = (if c \<in> X then om_empty else om_slice c (tb_cp_relationships d))"
  "om_slice c (tb_cp_properties (discarded X Y Z d)) = (if c \<in> X then om_empty else om_slice c (tb_cp_properties d))"
  by (simp_all add: discarded_def without_layers_def without_commits_def om_slice_without om_has_def om_get_filter split: option.splits)

lemma discarded_fields:
  "discarded X Y Z d = d\<lparr>tb_commits := tb_commits (discarded X Y Z d), tb_commit_data := tb_commit_data (discarded X Y Z d),
       tb_layers := tb_layers (discarded X Y Z d), tb_schema_objects := tb_schema_objects (discarded X Y Z d),
       tb_checkpoints := tb_checkpoints (discarded X Y Z d),
       tb_cp_nodes := tb_cp_nodes (discarded X Y Z d), tb_cp_labels := tb_cp_labels (discarded X Y Z d),
       tb_cp_relationships := tb_cp_relationships (discarded X Y Z d), tb_cp_properties := tb_cp_properties (discarded X Y Z d),
       tb_node_delta := tb_node_delta (discarded X Y Z d), tb_label_delta := tb_label_delta (discarded X Y Z d),
       tb_rel_delta := tb_rel_delta (discarded X Y Z d), tb_property_delta := tb_property_delta (discarded X Y Z d)\<rparr>"
  "sub_table (tb_node_delta (discarded X Y Z d)) (tb_node_delta d)" "sub_table (tb_label_delta (discarded X Y Z d)) (tb_label_delta d)"
  "sub_table (tb_rel_delta (discarded X Y Z d)) (tb_rel_delta d)" "sub_table (tb_property_delta (discarded X Y Z d)) (tb_property_delta d)"
  by (simp_all add: discarded_def without_layers_def without_commits_def)

lemma discarded_same_layer: "om_has (tb_layers (discarded X Y Z d)) i \<Longrightarrow> same_layer d (discarded X Y Z d) i"
  by (auto simp: same_layer_def discarded_def without_layers_def om_slice_without om_has_def om_get_filter split: option.splits if_splits)
     (simp_all add: without_commits_def)

lemma discarded_pruned:
  assumes "store_ok P d" "history_ok d" "refs_ok d" "uncommitted d X" "unused X Y Z d"
  shows "pruned d (discarded X Y Z d)"
proof -
  let ?d = "discarded X Y Z d"
  have has: "om_has (tb_commits ?d) c \<longleftrightarrow> om_has (tb_commits d) c \<and> c \<notin> X" for c
    by (auto simp: discarded_tables om_has_def om_get_filter split: option.splits)
  have commits: "tb_commits (without_commits X d) = tb_commits ?d" by (simp add: discarded_tables without_commits_def)
  have kept: "om_has (tb_layers ?d) (cr_layer_id r) \<and> om_has (tb_schema_objects ?d) (cr_schema_hash r)
      \<and> list_all (om_has (tb_commits ?d)) (row_parents d c)" if c: "om_get (tb_commits ?d) c = Some r" for c r
  proof -
    from c have r: "om_get (tb_commits d) c = Some r" "c \<notin> X" by (auto simp: discarded_tables om_get_filter split: option.splits if_splits)
    have "layer_referenced (without_commits X d) (cr_layer_id r)" "schema_referenced (without_commits X d) (cr_schema_hash r)"
      unfolding layer_referenced_def schema_referenced_def commits using c by (auto simp: list_ex_values)
    then have "cr_layer_id r \<notin> Y" "cr_schema_hash r \<notin> Z" using assms(5) by (auto simp: unused_def)
    then have "om_has (tb_layers ?d) (cr_layer_id r)" "om_has (tb_schema_objects ?d) (cr_schema_hash r)"
      using store_commit [OF assms(1) r(1)]
      by (auto simp: discarded_tables(3,4) commit_ok_def commit_addressed_def om_has_def om_get_filter)
    moreover have "list_all (om_has (tb_commits d)) (row_parents d c)" using assms(2) r(1) by (simp add: history_ok_def om_all_iff)
    moreover have "k \<notin> X" if "k \<in> set (row_parents d c)" for k using assms(4) r(2) that by (auto simp: uncommitted_def)
    ultimately show ?thesis by (simp add: list_all_iff has)
  qed
  have "om_all (\<lambda>i _. same_layer d ?d i) (tb_layers ?d)"
    unfolding om_all_iff using discarded_same_layer [of X Y Z d] by (auto simp: om_has_def)
  moreover have "if om_has (tb_commits ?d) c
        then om_slice c (tb_cp_nodes ?d) = om_slice c (tb_cp_nodes d) \<and> om_slice c (tb_cp_labels ?d) = om_slice c (tb_cp_labels d)
          \<and> om_slice c (tb_cp_relationships ?d) = om_slice c (tb_cp_relationships d)
          \<and> om_slice c (tb_cp_properties ?d) = om_slice c (tb_cp_properties d)
        else no_checkpoint_rows c ?d" for c
  proof (cases "om_has (tb_commits d) c")
    case False
    then have "\<not> om_has (tb_checkpoints d) c" using store_checkpoint [OF assms(1), of c] by (auto simp: om_has_def)
    then have "no_checkpoint_rows c d" using assms(1) by (simp add: store_ok_def rows_owned_iff)
    with False show ?thesis by (simp add: has discarded_tables(7-10) no_checkpoint_rows_def)
  qed (simp add: has discarded_tables(7-10) no_checkpoint_rows_def)
  moreover have "om_has (tb_checkpoints ?d) c \<longleftrightarrow> om_has (tb_checkpoints d) c \<and> om_has (tb_commits ?d) c" for c
    unfolding has discarded_tables(6) using store_checkpoint [OF assms(1), of c] by (auto simp: om_has_def [of "tb_commits d" c])
  moreover have "om_has (tb_commits ?d) c" if "om_get (tb_branches d) b = Some c" for b c
  proof -
    have "ref_target d c" using that by (auto simp: ref_target_def)
    then show ?thesis using assms(3,4) by (auto simp: has refs_ok_def uncommitted_def)
  qed
  then have "om_all (\<lambda>_ c. om_has (tb_commits ?d) c) (tb_branches ?d)" unfolding om_all_iff discarded_tables(5) by blast
  moreover have "om_all (\<lambda>c r. om_has (tb_layers ?d) (cr_layer_id r) \<and> om_has (tb_schema_objects ?d) (cr_schema_hash r)
      \<and> list_all (om_has (tb_commits ?d)) (row_parents d c)) (tb_commits ?d)"
    unfolding om_all_iff using kept by blast
  moreover have "sub_table (tb_commits ?d) (tb_commits d)" "sub_table (tb_layers ?d) (tb_layers d)" "sub_table (tb_schema_objects ?d) (tb_schema_objects d)"
    unfolding discarded_tables by (rule sub_table_filter)+
  ultimately show ?thesis unfolding pruned_def using discarded_fields [of X Y Z d] by blast
qed

section \<open>What discarding computes\<close>

lemma delete_staged_commits_Inr:
  "delete_staged_commits chain c = (Inr (), c') \<Longrightarrow> c' = c\<lparr>db := without_commits (fst ` set chain) (db c)\<rparr>"
proof (induction chain arbitrary: c)
  case (Cons x chain)
  obtain k i h where x: "x = (k, i, h)" by (cases x)
  from Cons.prems have "delete_staged_commits chain (c\<lparr>db := without_commits {k} (db c)\<rparr>) = (Inr (), c')"
    by (auto simp: delete_staged_commits_def x delete_commit_auxiliary_run case_prod_unfold Let_def without_commits_def
        split: if_splits simp flip: om_del_filter)
  from Cons.IH [OF this] show ?case by (simp add: x without_insert insert_commute)
qed (simp add: delete_staged_commits_def)

text \<open>A loop that goes on after a step that succeeds.\<close>

lemma st_all_step: "f x c = (Inr (), c1) \<Longrightarrow> st_all f (x # xs) c = st_all f xs c1"
  by (simp add: st_then_def)

lemma delete_orphan_staged_layers_Inr:
  assumes "delete_orphan_staged_layers chain c = (Inr (), c')"
  shows "\<exists>Y. c' = c\<lparr>db := without_layers Y (db c)\<rparr> \<and> (\<forall>i \<in> Y. \<not> layer_referenced (db c) i)"
proof -
  define f where "f = (\<lambda>layer_id.
       st_then (st_query (\<lambda>d. Inr (layer_referenced d layer_id))) (\<lambda>referenced.
         if referenced then st_ret ()
         else st_then (delete_layer_rows layer_id) (\<lambda>_.
           st_exec (\<lambda>d. Inr (d\<lparr>tb_layers := om_del layer_id (tb_layers d)\<rparr>)))))"
  have run: "f i c = (Inr (), if layer_referenced (db c) i then c else c\<lparr>db := without_layers {i} (db c)\<rparr>)" for i c
    by (simp add: f_def delete_layer_rows_run om_del_filter) (simp add: without_layers_def)
  have "\<exists>Y. c' = c\<lparr>db := without_layers Y (db c)\<rparr> \<and> (\<forall>i \<in> Y. \<not> layer_referenced (db c) i)" if "st_all f ids c = (Inr (), c')" for ids
    using that
  proof (induction ids arbitrary: c)
    case Nil
    then show ?case by (intro exI [of _ "{}"]) simp
  next
    case (Cons i ids)
    note rest = Cons.prems [unfolded st_all_step [where f = f, OF run]]
    show ?case
    proof (cases "layer_referenced (db c) i")
      case True
      with rest Cons.IH show ?thesis by simp
    next
      case False
      let ?c1 = "c\<lparr>db := without_layers {i} (db c)\<rparr>"
      from False rest Cons.IH [of ?c1] obtain Y where Y: "c' = ?c1\<lparr>db := without_layers Y (db ?c1)\<rparr>" "\<forall>i \<in> Y. \<not> layer_referenced (db ?c1) i"
        by auto
      with False show ?thesis by (intro exI [of _ "insert i Y"]) (simp add: without_insert)
    qed
  qed
  with assms show ?thesis by (simp add: delete_orphan_staged_layers_def f_def)
qed

lemma delete_orphan_staged_schemas_Inr:
  assumes "delete_orphan_staged_schemas chain c = (Inr (), c')"
  shows "\<exists>Z. c' = c\<lparr>db := db c\<lparr>tb_schema_objects := om_filter (\<lambda>h _. h \<notin> Z) (tb_schema_objects (db c))\<rparr>\<rparr>
    \<and> (\<forall>h \<in> Z. \<not> schema_referenced (db c) h)"
proof -
  define f where "f = (\<lambda>h. st_exec (\<lambda>d. Inr (if schema_referenced d h then d
         else d\<lparr>tb_schema_objects := om_del h (tb_schema_objects d)\<rparr>)))"
  have run: "f h c = (Inr (), if schema_referenced (db c) h then c else c\<lparr>db := db c\<lparr>tb_schema_objects := om_del h (tb_schema_objects (db c))\<rparr>\<rparr>)" for h c
    by (simp add: f_def)
  have "\<exists>Z. c' = c\<lparr>db := db c\<lparr>tb_schema_objects := om_filter (\<lambda>h _. h \<notin> Z) (tb_schema_objects (db c))\<rparr>\<rparr>
      \<and> (\<forall>h \<in> Z. \<not> schema_referenced (db c) h)" if "st_all f hs c = (Inr (), c')" for hs
    using that
  proof (induction hs arbitrary: c)
    case Nil
    then show ?case by (intro exI [of _ "{}"]) simp
  next
    case (Cons h hs)
    note rest = Cons.prems [unfolded st_all_step [where f = f, OF run]]
    show ?case
    proof (cases "schema_referenced (db c) h")
      case True
      with rest Cons.IH show ?thesis by simp
    next
      case False
      let ?c1 = "c\<lparr>db := db c\<lparr>tb_schema_objects := om_del h (tb_schema_objects (db c))\<rparr>\<rparr>"
      have ref: "schema_referenced (db ?c1) k = schema_referenced (db c) k" for k by (simp add: schema_referenced_def)
      from False rest Cons.IH [of ?c1] obtain Z where
        Z: "c' = ?c1\<lparr>db := db ?c1\<lparr>tb_schema_objects := om_filter (\<lambda>h _. h \<notin> Z) (tb_schema_objects (db ?c1))\<rparr>\<rparr>"
        "\<forall>h \<in> Z. \<not> schema_referenced (db c) h" unfolding ref by auto
      with False show ?thesis by (intro exI [of _ "insert h Z"]) (simp add: om_del_filter om_filter_filter)
    qed
  qed
  with assms show ?thesis by (simp add: delete_orphan_staged_schemas_def f_def)
qed

lemma discard_uncommitted_chain_Inr:
  assumes "staged_chain (db c) base head = Some (Inr chain)" "discard_uncommitted_chain base head c = Some (Inr (), c')"
  shows "\<exists>Y Z. db c' = discarded (fst ` set chain) Y Z (db c) \<and> unused (fst ` set chain) Y Z (db c)"
proof (cases "base = head")
  case True
  then have "chain = []" using assms(1) by (simp add: staged_chain_def staged_chain_loop.simps)
  moreover have "om_filter (\<lambda>_ _. True) t = t" for t :: "(hash_id, bytes) omap" by simp
  ultimately show ?thesis using assms(2) True
    by (intro exI [of _ "{}"]) (simp add: discard_uncommitted_chain_def discarded_def unused_def)
next
  case False
  let ?X = "fst ` set chain"
  from False assms obtain c1 c2 where c1: "delete_staged_commits chain c = (Inr (), c1)"
    and c2: "delete_orphan_staged_layers chain c1 = (Inr (), c2)" and c3: "delete_orphan_staged_schemas chain c2 = (Inr (), c')"
    by (auto simp: discard_uncommitted_chain_def)
  have d1: "db c1 = without_commits ?X (db c)" using delete_staged_commits_Inr [OF c1] by simp
  obtain Y where Y: "db c2 = without_layers Y (db c1)" "\<forall>i \<in> Y. \<not> layer_referenced (db c1) i"
    using delete_orphan_staged_layers_Inr [OF c2] by auto
  obtain Z where Z: "db c' = db c2\<lparr>tb_schema_objects := om_filter (\<lambda>h _. h \<notin> Z) (tb_schema_objects (db c2))\<rparr>"
    "\<forall>h \<in> Z. \<not> schema_referenced (db c2) h"
    using delete_orphan_staged_schemas_Inr [OF c3] by auto
  have "schema_referenced (db c2) h = schema_referenced (db c1) h" for h by (simp add: schema_referenced_def Y(1))
  moreover have "tb_schema_objects (db c2) = tb_schema_objects (db c)" by (simp add: Y(1) d1 without_layers_def without_commits_def)
  ultimately show ?thesis using Y Z d1 by (intro exI [of _ Y] exI [of _ Z]) (simp add: discarded_def unused_def)
qed

section \<open>What is kept\<close>

lemma uncommitted_dead:
  assumes "uncommitted d X" "live d k"
  shows "k \<notin> X"
proof
  assume k: "k \<in> X"
  obtain r where r: "ref_target d r" "(k, r) \<in> (parent_rel d)\<^sup>*" using assms(2) by (auto simp: live_def ancestor_def)
  from r(2) have "r \<in> X"
  proof (induction rule: rtrancl_induct)
    case base
    show ?case by (rule k)
  next
    case (step y z)
    then show ?case using assms(1) by (auto simp: uncommitted_def parent_rel_def)
  qed
  with r(1) assms(1) show False by (auto simp: uncommitted_def)
qed

lemma sound_discard:
  assumes "discard_uncommitted_chain base head c = Some (Inr u, c')" "staged_chain (db c) base head = Some (Inr chain)"
    and "uncommitted (db c) (fst ` set chain)" "sound P root (db c)"
  shows "sound P root (db c')
    \<and> (\<forall>k. om_get (tb_commits (db c')) k = (if k \<in> fst ` set chain then None else om_get (tb_commits (db c)) k))
    \<and> (\<forall>k g. om_has (tb_commits (db c')) k \<longrightarrow> commit_graph P (db c') k g = commit_graph P (db c) k g)"
proof -
  let ?X = "fst ` set chain"
  obtain Y Z where d': "db c' = discarded ?X Y Z (db c)" "unused ?X Y Z (db c)"
    using discard_uncommitted_chain_Inr [OF assms(2)] assms(1) by auto
  have s: "store_ok P (db c)" "history_ok (db c)" "refs_ok (db c)" using assms(4) by (simp_all add: sound_def)
  have p: "pruned (db c) (db c')" unfolding d'(1) by (rule discarded_pruned [OF s assms(3) d'(2)])
  have row: "om_get (tb_commits (db c')) k = (if k \<in> ?X then None else om_get (tb_commits (db c)) k)" for k
    by (simp add: d'(1) discarded_tables om_get_filter split: option.split)
  have has: "om_has (tb_commits (db c')) k \<longleftrightarrow> om_has (tb_commits (db c)) k \<and> k \<notin> ?X" for k by (simp add: om_has_def row)
  have targets: "om_has (tb_commits (db c')) k" if "ref_target (db c) k" for k
    using that s(3) assms(3) by (auto simp: has refs_ok_def uncommitted_def)
  have "om_get (tb_commit_data (db c')) k = (if k \<in> ?X then None else om_get (tb_commit_data (db c)) k)" for k
    by (simp add: d'(1) discarded_tables om_get_filter split: option.split)
  then have "om_all (\<lambda>k _. om_has (tb_commits (db c')) k) (tb_commit_data (db c'))"
    using s(3) unfolding om_all_iff has refs_ok_def by (auto split: if_splits)
  from pruned_refs(1) [OF p s(3) targets this] have "refs_ok (db c')" .
  moreover have "om_has (tb_commits (db c')) root"
    using assms(4) uncommitted_dead [OF assms(3) sound_root_live [OF assms(4)]] by (simp add: has sound_def)
  moreover have "om_all (\<lambda>k row. (cr_parent1 row = None \<longleftrightarrow> k = root) \<and> (k = root \<longrightarrow> cr_parent2 row = None)) (tb_commits (db c'))"
    using assms(4) by (auto simp: sound_def om_all_iff row split: if_splits)
  ultimately have "sound P root (db c')" using pruned_store [OF p s(1)] pruned_history [OF p s(2)] by (simp add: sound_def)
  then show ?thesis using row pruned_graph [OF p] by blast
qed

lemma sound_restore:
  assumes "db c' = restore_allocation_state a (db c)" "sound P root (db c)"
  shows "sound P root (db c') \<and> history_extends P (db c) (db c')"
proof -
  define raise :: "(i64 \<times> i64) list \<Rightarrow> database \<Rightarrow> database" where "raise = fold (\<lambda>(kind, top) d.
        case om_get (tb_sequences d) kind of
          None \<Rightarrow> d
        | Some n \<Rightarrow> d\<lparr>tb_sequences := om_put kind (max n top) (tb_sequences d)\<rparr>)"
  have raise: "\<exists>t. raise ns d = d\<lparr>tb_sequences := t\<rparr> \<and> (\<forall>k n. om_get (tb_sequences d) k = Some n \<longrightarrow> (\<exists>n'. om_get t k = Some n' \<and> n \<le> n'))" for ns d
  proof (induction ns arbitrary: d)
    case Nil
    show ?case by (intro exI [of _ "tb_sequences d"]) (simp add: raise_def)
  next
    case (Cons x ns)
    obtain kind top where x: "x = (kind, top)" by (cases x)
    show ?case
    proof (cases "om_get (tb_sequences d) kind")
      case None
      with Cons.IH [of d] show ?thesis by (simp add: raise_def x)
    next
      case (Some n)
      let ?d = "d\<lparr>tb_sequences := om_put kind (max n top) (tb_sequences d)\<rparr>"
      have "raise (x # ns) d = raise ns ?d" using Some by (simp add: raise_def x)
      moreover obtain t where t: "raise ns ?d = ?d\<lparr>tb_sequences := t\<rparr>"
        "\<And>k n. om_get (tb_sequences ?d) k = Some n \<Longrightarrow> \<exists>n'. om_get t k = Some n' \<and> n \<le> n'" using Cons.IH [of ?d] by blast
      moreover have "\<exists>n'. om_get t k = Some n' \<and> m \<le> n'" if "om_get (tb_sequences d) k = Some m" for k m
        using t(2) [of k "if k = kind then max n top else m"] that Some by (cases "k = kind") auto
      ultimately show ?thesis by (intro exI [of _ t]) simp
    qed
  qed
  obtain l r p where dict: "restore_allocation_state a (db c) = raise (as_sequences a) (db c\<lparr>tb_labels := l, tb_rel_types := r, tb_prop_keys := p\<rparr>)"
    by (simp add: restore_allocation_state_def raise_def Let_def)
  from raise [of "as_sequences a" "db c\<lparr>tb_labels := l, tb_rel_types := r, tb_prop_keys := p\<rparr>"] obtain t where
    t: "db c' = db c\<lparr>tb_labels := l, tb_rel_types := r, tb_prop_keys := p, tb_sequences := t\<rparr>"
    "\<And>k n. om_get (tb_sequences (db c)) k = Some n \<Longrightarrow> \<exists>n'. om_get t k = Some n' \<and> n \<le> n'"
    unfolding assms(1) dict by auto
  have "om_has (tb_sequences (db c)) k \<Longrightarrow> om_has t k \<and> the (om_get (tb_sequences (db c)) k) \<le> the (om_get t k)" for k
    using t(2) [of k] by (auto simp: om_has_def)
  then have "same_history (db c) (db c')" by (simp add: same_history_def t(1))
  then show ?thesis by (rule refs_same_history [OF assms(2)]) (use sound_refs [OF assms(2)] in \<open>auto simp: t(1)\<close>)
qed

end
