(* ===== verification/Version_Theorems.thy ===== *)
theory Version_Theorems
  imports Discard_Laws
begin

text \<open>
  The version store as a state machine, whose steps are the operations of the storage layer in any order, and the
  theorems about it: it stays sound, history is immutable, nothing that is referenced disappears. Names resolve to
  the commits they were given.
\<close>

section \<open>The machine\<close>

text \<open>
  A step is an operation that succeeds, or one that fails and whose effects the enclosing savepoint takes back, or a
  change of connection: the database is then the same. The steps are the operations that the storage layer offers on
  the version tables and the identities; the writes they are made of are no steps of their own. The chain of
  commits a transaction has staged is discarded only while it is local to the transaction.
\<close>

inductive version_step :: "platform \<Rightarrow> serde_json \<Rightarrow> conn \<Rightarrow> conn \<Rightarrow> bool" for P J where
  same_database: "db c' = db c \<Longrightarrow> version_step P J c c'"
| commits: "run \<in> commit_runs P branch e second l sh md \<Longrightarrow> wf_layer l \<Longrightarrow> layer_fits P l \<Longrightarrow> run c = (Inr h, c') \<Longrightarrow> version_step P J c c'"
| schema_object: "persist_schema_blob P blob c = (Inr h, c') \<Longrightarrow> version_step P J c c'"
| branch_created: "create_branch_ref name start c = (Inr u, c') \<Longrightarrow> version_step P J c c'"
| branch_deleted: "delete_branch_ref temp name c = (Inr r, c') \<Longrightarrow> version_step P J c c'"
| branch_moved: "move_branch_ref name expected new c = (Inr r, c') \<Longrightarrow> version_step P J c c'"
| tag_created: "create_tag name new c = (Inr u, c') \<Longrightarrow> version_step P J c c'"
| tag_moved: "move_tag name new c = (Inr r, c') \<Longrightarrow> version_step P J c c'"
| tag_deleted: "delete_tag name c = (Inr r, c') \<Longrightarrow> version_step P J c c'"
| data_set: "set_commit_data J k data c = (Inr u, c') \<Longrightarrow> version_step P J c c'"
| data_cleared: "clear_commit_data k c = (Inr u, c') \<Longrightarrow> version_step P J c c'"
| session_created: "create_merge_session random branch ours theirs expected now c = (Inr s, c') \<Longrightarrow> version_step P J c c'"
| session_updated: "update_merge_resolutions session revn reps changed c = (Inr n, c') \<Longrightarrow> version_step P J c c'"
| session_deleted: "delete_merge_session session revn c = (Inr b, c') \<Longrightarrow> version_step P J c c'"
| checkpoint_made: "create_checkpoint J now k c = Some (Inr u, c') \<Longrightarrow> version_step P J c c'"
| checkpoint_dropped: "delete_checkpoint k c = (Inr u, c') \<Longrightarrow> version_step P J c c'"
| nodes_allocated: "allocate_node_id_range n c = (Inr i, c') \<Longrightarrow> version_step P J c c'"
| relationships_allocated: "allocate_relationship_id_range n c = (Inr i, c') \<Longrightarrow> version_step P J c c'"
| label_interned: "intern_label name c = (Inr i, c') \<Longrightarrow> version_step P J c c'"
| type_interned: "intern_relationship_type name c = (Inr i, c') \<Longrightarrow> version_step P J c c'"
| key_interned: "intern_property_key name c = (Inr i, c') \<Longrightarrow> version_step P J c c'"
| chain_discarded: "staged_chain (db c) base head = Some (Inr chain) \<Longrightarrow> uncommitted (db c) (fst ` set chain) \<Longrightarrow>
     discard_uncommitted_chain base head c = Some (Inr u, c') \<Longrightarrow> version_step P J c c'"
| allocation_restored: "db c' = restore_allocation_state a (db c) \<Longrightarrow> version_step P J c c'"
| collected: "collect_garbage c = (Inr n, c') \<Longrightarrow> version_step P J c c'"

text \<open>What every step keeps: what is live stays, and what stays means the same.\<close>

definition history_kept :: "platform \<Rightarrow> database \<Rightarrow> database \<Rightarrow> bool" where
  "history_kept P d d' \<longleftrightarrow> (\<forall>k. live d k \<longrightarrow> om_has (tb_commits d') k)
     \<and> (\<forall>k. om_has (tb_commits d) k \<longrightarrow> om_has (tb_commits d') k \<longrightarrow> om_get (tb_commits d') k = om_get (tb_commits d) k
          \<and> (\<forall>g. commit_graph P d k g \<longrightarrow> commit_graph P d' k g))"

lemma history_extends_kept:
  assumes "sound P root d" "history_extends P d d'"
  shows "history_kept P d d'"
proof -
  have "om_has (tb_commits d) k" if "live d k" for k using live_has assms(1) that by (auto simp: sound_def)
  moreover have "om_get (tb_commits d') k = om_get (tb_commits d) k" if "om_has (tb_commits d) k" for k
    using assms(2) that by (auto simp: history_extends_def keeps_commits_def om_has_def)
  ultimately show ?thesis
    using assms(2) commit_graph_kept by (auto simp: history_kept_def history_extends_def om_has_def)
qed

lemma version_step_extends:
  assumes "sound P root (db c)" "sound P root (db c') \<and> history_extends P (db c) (db c')"
  shows "sound P root (db c') \<and> history_kept P (db c) (db c')"
  using assms history_extends_kept by blast

lemma version_step_sound:
  assumes "version_step P J c c'" "sound P root (db c)"
  shows "sound P root (db c') \<and> history_kept P (db c) (db c')"
  using assms(1)
proof cases
  case same_database
  then show ?thesis using history_extends_kept [OF assms(2) history_extends_refl] assms(2) by simp
next
  case (nodes_allocated n i)
  show ?thesis by (rule version_step_extends [OF assms(2) sound_allocate [OF nodes_allocated [unfolded allocate_node_id_range_def] _ assms(2)]]) simp
next
  case (relationships_allocated n i)
  show ?thesis
    by (rule version_step_extends [OF assms(2) sound_allocate [OF relationships_allocated [unfolded allocate_relationship_id_range_def] _ assms(2)]]) simp
next
  case (label_interned name i)
  show ?thesis by (rule version_step_extends [OF assms(2) sound_intern [OF label_interned [unfolded intern_label_def] _ assms(2)]]) simp
next
  case (type_interned name i)
  show ?thesis by (rule version_step_extends [OF assms(2) sound_intern [OF type_interned [unfolded intern_relationship_type_def] _ assms(2)]]) simp
next
  case (key_interned name i)
  show ?thesis by (rule version_step_extends [OF assms(2) sound_intern [OF key_interned [unfolded intern_property_key_def] _ assms(2)]]) simp
next
  case (commits run branch e second l sh md h)
  show ?thesis by (rule version_step_extends [OF assms(2) sound_commit [OF commits(1,4) assms(2) commits(2,3)]])
next
  case (schema_object blob h)
  show ?thesis by (rule version_step_extends [OF assms(2) sound_schema [OF schema_object assms(2)]])
next
  case (branch_created name start u)
  show ?thesis by (rule version_step_extends [OF assms(2) sound_create_branch [OF branch_created assms(2)]])
next
  case (branch_deleted temp name r)
  show ?thesis by (rule version_step_extends [OF assms(2) sound_delete_branch [OF branch_deleted assms(2)]])
next
  case (branch_moved name expected new r)
  show ?thesis by (rule version_step_extends [OF assms(2) sound_move_branch [OF branch_moved assms(2)]])
next
  case (tag_created name new u)
  show ?thesis by (rule version_step_extends [OF assms(2) sound_tag_steps [OF disjI1 [OF tag_created] assms(2)]])
next
  case (tag_moved name new r)
  show ?thesis by (rule version_step_extends [OF assms(2) sound_tag_steps [OF disjI2 [OF disjI1 [OF tag_moved]] assms(2)]])
next
  case (tag_deleted name r)
  show ?thesis by (rule version_step_extends [OF assms(2) sound_tag_steps [OF disjI2 [OF disjI2 [OF tag_deleted]] assms(2)]])
next
  case (data_set k data u)
  show ?thesis by (rule version_step_extends [OF assms(2) sound_commit_data [OF disjI1 [OF data_set] assms(2)]])
next
  case (data_cleared k u)
  show ?thesis by (rule version_step_extends [OF assms(2) sound_commit_data [OF disjI2 [OF data_cleared] assms(2)]])
next
  case (session_created random branch ours theirs expected now s)
  show ?thesis by (rule version_step_extends [OF assms(2) sound_sessions [OF disjI1 [OF session_created] assms(2)]])
next
  case (session_updated session revn reps changed n)
  show ?thesis by (rule version_step_extends [OF assms(2) sound_sessions [OF disjI2 [OF disjI1 [OF session_updated]] assms(2)]])
next
  case (session_deleted session revn b)
  show ?thesis by (rule version_step_extends [OF assms(2) sound_sessions [OF disjI2 [OF disjI2 [OF session_deleted]] assms(2)]])
next
  case (checkpoint_made now k u)
  show ?thesis by (rule version_step_extends [OF assms(2) sound_create_checkpoint [OF checkpoint_made assms(2)]])
next
  case (checkpoint_dropped k u)
  show ?thesis by (rule version_step_extends [OF assms(2) sound_delete_checkpoint [OF checkpoint_dropped assms(2)]])
next
  case (chain_discarded base head chain u)
  have "sound P root (db c')" and c': "\<And>k. om_get (tb_commits (db c')) k = (if k \<in> fst ` set chain then None else om_get (tb_commits (db c)) k)"
    "\<And>k g. om_has (tb_commits (db c')) k \<Longrightarrow> commit_graph P (db c') k g = commit_graph P (db c) k g"
    using sound_discard [OF chain_discarded(3,1,2) assms(2)] by blast+
  moreover have "om_has (tb_commits (db c')) k" if "live (db c) k" for k
    using that live_has [of "db c" k] uncommitted_dead [OF chain_discarded(2) that] assms(2) by (auto simp: om_has_def c'(1) sound_def)
  moreover have "om_get (tb_commits (db c')) k = om_get (tb_commits (db c)) k" if "om_has (tb_commits (db c')) k" for k
    using that by (simp add: om_has_def c'(1) split: if_splits)
  ultimately show ?thesis by (simp add: history_kept_def)
next
  case (allocation_restored a)
  show ?thesis by (rule version_step_extends [OF assms(2) sound_restore [OF allocation_restored assms(2)]])
next
  case (collected n)
  from sound_collect [OF collected assms(2)]
  have c': "sound P root (db c')" "\<And>k. om_get (tb_commits (db c')) k = (if live (db c) k then om_get (tb_commits (db c)) k else None)"
    "\<And>k g. live (db c) k \<Longrightarrow> commit_graph P (db c') k g = commit_graph P (db c) k g" by blast+
  have "om_has (tb_commits (db c')) k \<longleftrightarrow> live (db c) k" for k
    using live_has [of "db c" k] assms(2) by (auto simp: om_has_def c'(2) sound_def)
  with c' show ?thesis by (simp add: history_kept_def)
qed

section \<open>Initial states\<close>

definition unreferenced :: "database \<Rightarrow> bool" where
  "unreferenced d \<longleftrightarrow> tb_commits d = om_empty \<and> tb_branches d = om_empty \<and> tb_tags d = om_empty \<and> tb_merge_sessions d = om_empty
     \<and> tb_commit_data d = om_empty"

lemma sound_initialized:
  assumes "initialize_root P c = (Inr info, c')" "store_ok P (db c)" "unreferenced (db c)"
  shows "sound P (ri_root info) (db c')"
proof -
  have empty: "tb_commits (db c) = om_empty" using assms(3) by (simp add: unreferenced_def)
  have store: "store_ok P (db c')" using initialize_root_Inr [OF assms(1) empty assms(2)] by blast
  have "om_size (tb_commits (db c)) = 0" by (simp add: empty om_size_def om_empty.rep_eq)
  with assms(1) obtain c1 c2 i lh row where
    persist: "persist_layer_checked P layer_default c1 = (Inr (i, lh), c2)"
    and c1: "tb_branches (db c1) = tb_branches (db c)" "tb_tags (db c1) = tb_tags (db c)" "tb_merge_sessions (db c1) = tb_merge_sessions (db c)"
      "tb_commit_data (db c1) = tb_commit_data (db c)" "tb_commits (db c1) = tb_commits (db c)"
    and checks: "commit_row_checks (ri_root info) row" "cr_parent1 row = None" "cr_parent2 row = None"
    and c': "db c' = with_commit main_branch (ri_root info) row (db c2)"
    unfolding initialize_root_def Let_def by (auto simp: with_commit_def)
  have "wf_layer layer_default" by (simp add: wf_layer_iff layer_default_def)
  then have c2: "tb_branches (db c2) = om_empty" "tb_tags (db c2) = om_empty" "tb_merge_sessions (db c2) = om_empty" "tb_commit_data (db c2) = om_empty"
    "tb_commits (db c2) = om_empty"
    using persist_layer_checked_Inr [OF persist] assms(3) c1 by (auto simp: unreferenced_def with_layer_def)
  have parents: "row_parents (db c') k = []" for k by (simp add: row_parents_def c' with_commit_def c2 checks)
  then have "history_ok (db c')"
    using checks(1) by (simp add: history_ok_def parent_rel_def c' with_commit_def c2 om_all_put acyclic_def)
  moreover have "refs_ok (db c')" by (simp add: refs_ok_def ref_target_def c' with_commit_def c2)
  ultimately show ?thesis
    using store checks by (simp add: sound_def c' with_commit_def c2 om_all_put)
qed

section \<open>Descriptors\<close>

lemma split_once_prefix: "sep \<notin> set kind \<Longrightarrow> split_once sep (kind @ sep # value) = Some (kind, value)"
  by (induction kind) auto

lemma split_once_Some: "split_once sep s = Some (kind, value) \<Longrightarrow> s = kind @ sep # value"
  by (induction s arbitrary: kind) (auto split: if_splits)

text \<open>A descriptor of each kind.\<close>

definition branch_descriptor :: "ustr \<Rightarrow> ustr" where
  "branch_descriptor name = ascii ''branch'' @ slash # name"

definition tag_descriptor :: "ustr \<Rightarrow> ustr" where
  "tag_descriptor name = ascii ''tag'' @ slash # name"

definition commit_descriptor :: "hash_id \<Rightarrow> ustr" where
  "commit_descriptor k = ascii ''commit'' @ slash # hash_to_hex k"

lemma descriptor_kinds:
  "split_once slash (branch_descriptor name) = Some (ascii ''branch'', name)"
  "split_once slash (tag_descriptor name) = Some (ascii ''tag'', name)"
  "split_once slash (commit_descriptor k) = Some (ascii ''commit'', hash_to_hex k)"
  "ascii ''tag'' \<noteq> ascii ''branch''" "ascii ''commit'' \<noteq> ascii ''branch''" "ascii ''commit'' \<noteq> ascii ''tag''"
  unfolding branch_descriptor_def tag_descriptor_def commit_descriptor_def
  by ((rule split_once_prefix; simp add: ascii_def slash_def) | simp add: ascii_def)+

lemma hex_char_no_slash: "slash \<notin> set (hash_to_hex k)"
proof
  assume "slash \<in> set (hash_to_hex k)"
  then have "\<exists>b::byte. slash = hex_char (unat b div 16) \<or> slash = hex_char (unat b mod 16)" by (auto simp: hash_to_hex_def)
  then obtain b :: byte where "slash = hex_char (unat b div 16) \<or> slash = hex_char (unat b mod 16)" by blast
  moreover have "unat b div 16 < 16" using unat_byte_less [of b] by simp
  ultimately obtain d where "d < 16" "slash = hex_char d" by (metis mod_less_divisor zero_less_numeral)
  with hex_digit_char [of d] show False by (simp add: slash_def hex_digit_def)
qed

lemma sound_lengths:
  assumes "sound P root d"
  shows "om_get (tb_branches d) n = Some k \<Longrightarrow> length k = 32" "om_get (tb_tags d) n = Some k \<Longrightarrow> length k = 32"
    "om_has (tb_commits d) k \<Longrightarrow> length k = 32"
proof -
  have "om_has (tb_commits d) k \<Longrightarrow> length k = 32" for k using assms commit_id_length by (auto simp: sound_def)
  then show "om_get (tb_branches d) n = Some k \<Longrightarrow> length k = 32" "om_get (tb_tags d) n = Some k \<Longrightarrow> length k = 32"
    "om_has (tb_commits d) k \<Longrightarrow> length k = 32" using sound_refs(1,2) [OF assms] by blast+
qed

section \<open>An example run\<close>

definition second_store :: conn where
  "second_store = snd (commit_layer_checked platform_len main_branch (len_id 104) None one_node metadata_root (on_db first_db))"

definition rewound :: conn where
  "rewound = snd (move_branch_ref main_branch None (len_id 104) second_store)"

lemma first_db_sound: "sound platform_len (len_id 104) first_db"
proof -
  have "store_ok platform_len (db (on_db fresh_store))" "unreferenced (db (on_db fresh_store))"
    using fresh_store_ok by (simp_all add: on_db_def unreferenced_def fresh_store_def create_storage_schema_def)
  from sound_initialized [OF first_store_init this] show ?thesis by (simp add: first_store_db)
qed

lemma second_store_run:
  "commit_layer_checked platform_len main_branch (len_id 104) None one_node metadata_root (on_db first_db) = (Inr (len_id 136), second_store)"
  using first_commit_run by (simp add: second_store_def prod_eq_iff)

lemma second_store_sound: "sound platform_len (len_id 104) (db second_store)"
  using sound_commit [OF commit_layer_runs second_store_run _ one_node_facts(1) one_node_fits] first_db_sound by (simp add: on_db_def)

lemma rewound_run: "move_branch_ref main_branch None (len_id 104) second_store = (Inr (Some (len_id 136)), rewound)"
proof -
  have "fst (move_branch_ref main_branch None (len_id 104) second_store) = Inr (Some (len_id 136))"
    unfolding second_store_def by code_simp
  then show ?thesis by (simp add: rewound_def prod_eq_iff)
qed

lemma rewound_sound: "sound platform_len (len_id 104) (db rewound)"
  using sound_move_branch [OF rewound_run second_store_sound] by blast

section \<open>Theorems\<close>

text \<open>C3. The version store, under every sequence of the steps above (commits of all kinds, schema objects, branches, tags,
  commit data, merge sessions, checkpoints, allocations and names, the undoing of a transaction, garbage collection)
  from the initialisation of storage: the database stays
  sound (every commit has a well-formed graph, is filed under its digest, and has its parents; every branch, tag
  and merge session names a commit; the branch main is never lost), the root is the one root, and no step
  changes or hides what a reference reaches: live commits stay, and a commit that stays has the row
  and the graph it had.\<close>

theorem version_store_safe:
  assumes "initialize_root P c0 = (Inr info, c1)" and "store_ok P (db c0)" and "unreferenced (db c0)"
    and "(version_step P J)\<^sup>*\<^sup>* c1 c" and "version_step P J c c'"
  shows "store_ok P (db c) \<and> history_ok (db c) \<and> root_commit (db c) = Inr (ri_root info)
    \<and> (\<forall>k. ref_target (db c) k \<longrightarrow> (\<exists>g. commit_graph P (db c) k g \<and> wf_graph g))
    \<and> (\<exists>h. branch_head (db c) main_branch = Inr h)
    \<and> (\<forall>k. live (db c) k \<longrightarrow> commit_exists (db c') k)
    \<and> (\<forall>k. commit_exists (db c) k \<longrightarrow> commit_exists (db c') k \<longrightarrow> load_commit (db c') k = load_commit (db c) k
         \<and> (\<forall>g. commit_graph P (db c) k g \<longrightarrow> commit_graph P (db c') k g))"
proof -
  have s: "sound P (ri_root info) (db c)"
    using assms(4)
  proof (induction rule: rtranclp_induct)
    case base
    show ?case by (rule sound_initialized [OF assms(1-3)])
  next
    case (step y z)
    with version_step_sound show ?case by blast
  qed
  have kept: "history_kept P (db c) (db c')" using version_step_sound [OF assms(5) s] by blast
  obtain h where "om_get (tb_branches (db c)) main_branch = Some h" using sound_refs(5) [OF s] by (auto simp: om_has_def)
  then have "branch_head (db c) main_branch = Inr h" using sound_lengths(1) [OF s] by (simp add: branch_head_Inr)
  moreover have "\<exists>g. commit_graph P (db c) k g \<and> wf_graph g" if "ref_target (db c) k" for k
    using sound_graph [OF s] s that by (auto simp: sound_def refs_ok_def)
  moreover have "load_commit (db c') k = load_commit (db c) k" if "om_has (tb_commits (db c)) k" "om_has (tb_commits (db c')) k" for k
    using kept that by (simp add: history_kept_def load_commit_def)
  ultimately show ?thesis
    using s root_commit_sound [OF s] kept by (auto simp: sound_def history_kept_def commit_exists_def)
qed

theorem version_store_safe_witness:
  "branch_head (db second_store) main_branch = Inr (len_id 136) \<and> root_commit (db second_store) = Inr (len_id 104)
    \<and> load_commit (db rewound) (len_id 136) = load_commit (db second_store) (len_id 136)"
proof -
  let ?J = "\<lparr>json_to_string = \<lambda>_. [], json_from_slice = \<lambda>_. None\<rparr>"
  have "version_step platform_len ?J first_store (on_db first_db)"
    by (rule version_step.same_database) (simp add: on_db_def first_store_db)
  moreover have "version_step platform_len ?J (on_db first_db) second_store"
    by (rule version_step.commits [OF commit_layer_runs one_node_facts(1) one_node_fits second_store_run])
  ultimately have reach: "(version_step platform_len ?J)\<^sup>*\<^sup>* first_store second_store" by simp
  have step: "version_step platform_len ?J second_store rewound" by (rule version_step.branch_moved [OF rewound_run])
  have init: "store_ok platform_len (db (on_db fresh_store))" "unreferenced (db (on_db fresh_store))"
    using fresh_store_ok by (simp_all add: on_db_def unreferenced_def fresh_store_def create_storage_schema_def)
  have main: "om_get (tb_branches (db second_store)) main_branch = Some (len_id 136)"
    using move_branch_ref_Inr [OF rewound_run] by simp
  have "live (db second_store) (len_id 136)" using main by (auto simp: live_def ref_target_def intro: exI [of _ "len_id 136"])
  moreover have "om_has (tb_commits (db second_store)) (len_id 136)" using sound_refs(1) [OF second_store_sound main] .
  ultimately show ?thesis
    using version_store_safe [OF first_store_init init reach step] main by (auto simp: branch_head_Inr commit_exists_def)
qed

text \<open>C30. Descriptors round trip: in a sound store the descriptor of a branch, a tag or a commit resolves to the commit that
  the branch or tag names, or to the commit itself; a branch that has just been created or moved resolves to the
  commit it was given; and whatever any descriptor resolves to is a commit of the store.\<close>

theorem resolve_descriptor_round_trip:
  assumes "sound P root (db c)"
  shows "(\<forall>name. name \<noteq> [] \<longrightarrow> resolve_version_descriptor (db c) (branch_descriptor name) =
            ok_or (om_get (tb_branches (db c)) name) (NotFound ''branch ''))
    \<and> (\<forall>name. name \<noteq> [] \<longrightarrow> resolve_version_descriptor (db c) (tag_descriptor name) =
            ok_or (om_get (tb_tags (db c)) name) (NotFound ''tag ''))
    \<and> (\<forall>k. commit_exists (db c) k \<longrightarrow> resolve_version_descriptor (db c) (commit_descriptor k) = Inr k)
    \<and> (\<forall>name k c'. create_branch_ref name k c = (Inr (), c') \<longrightarrow> resolve_version_descriptor (db c') (branch_descriptor name) = Inr k)
    \<and> (\<forall>name e k old c'. move_branch_ref name e k c = (Inr (Some old), c') \<longrightarrow> resolve_version_descriptor (db c') (branch_descriptor name) = Inr k)
    \<and> (\<forall>desc k. resolve_version_descriptor (db c) desc = Inr k \<longrightarrow> commit_exists (db c) k)"
proof (intro conjI allI impI)
  note len = sound_lengths [OF assms]
  have branch: "resolve_version_descriptor d (branch_descriptor name) = ok_or (om_get (tb_branches d) name) (NotFound ''branch '')"
    if "name \<noteq> []" "\<And>k. om_get (tb_branches d) name = Some k \<Longrightarrow> length k = 32" for d name
    using that by (cases "om_get (tb_branches d) name") (simp_all add: resolve_version_descriptor_def descriptor_kinds branch_head_def hash_from_slice_def)
  show "resolve_version_descriptor (db c) (branch_descriptor name) = ok_or (om_get (tb_branches (db c)) name) (NotFound ''branch '')"
    if "name \<noteq> []" for name
    by (rule branch [OF that len(1)])
  show "resolve_version_descriptor (db c) (tag_descriptor name) = ok_or (om_get (tb_tags (db c)) name) (NotFound ''tag '')"
    if "name \<noteq> []" for name
    using that len(2) [of name]
    by (cases "om_get (tb_tags (db c)) name") (simp_all add: resolve_version_descriptor_def descriptor_kinds lookup_named_ref_def hash_from_slice_def)
  show "resolve_version_descriptor (db c) (commit_descriptor k) = Inr k" if "commit_exists (db c) k" for k
  proof -
    have k: "length k = 32" "om_has (tb_commits (db c)) k" using that len(3) by (simp_all add: commit_exists_def)
    then have "hash_to_hex k \<noteq> []" by (cases k) (simp_all add: hash_to_hex_def)
    then show ?thesis
      using k hex_char_no_slash [of k] descriptor_kinds
      by (simp add: resolve_version_descriptor_def hash_from_to_hex require_commit_def)
  qed
  show "resolve_version_descriptor (db c') (branch_descriptor name) = Inr k" if "create_branch_ref name k c = (Inr (), c')" for name k c'
  proof -
    have "name \<noteq> []" "length k = 32" "db c' = db c\<lparr>tb_branches := om_put name k (tb_branches (db c))\<rparr>"
      using that by (auto simp: create_branch_ref_def create_branch_def split: if_splits)
    then show ?thesis using branch [of name "db c'"] by simp
  qed
  show "resolve_version_descriptor (db c') (branch_descriptor name) = Inr k"
    if "move_branch_ref name e k c = (Inr (Some old), c')" for name e k old c'
  proof -
    have "validate_ref_name name = Inr ()" using that by (auto simp: move_branch_ref_def)
    then have "name \<noteq> []" by (auto simp: validate_ref_name_def)
    moreover have "length k = 32" using move_branch_ref_Inr [OF that] len(3) by simp
    moreover have "db c' = db c\<lparr>tb_branches := om_put name k (tb_branches (db c))\<rparr>" using move_branch_ref_Inr [OF that] by simp
    ultimately show ?thesis using branch [of name "db c'"] by simp
  qed
  show "commit_exists (db c) k" if "resolve_version_descriptor (db c) desc = Inr k" for desc k
    using that sound_refs(1,2) [OF assms]
    by (auto simp: resolve_version_descriptor_def commit_exists_def branch_head_Inr lookup_named_ref_Inr split: option.splits prod.splits if_splits)
qed

theorem resolve_descriptor_round_trip_witness:
  "resolve_version_descriptor (db rewound) (branch_descriptor main_branch) = Inr (len_id 104)"
  using resolve_descriptor_round_trip [OF second_store_sound] rewound_run by blast

text \<open>C4. Garbage collection: on a sound store it always succeeds; it keeps exactly the commits that a branch, a tag or a
  merge session reaches, with their rows, graphs, data and checkpoints, and leaves every reference and the soundness of
  the store as they were. When some commit is not reached, the layers and schema objects that remain are
  exactly those a remaining commit uses (otherwise it stops early and removes nothing). The five counters count
  what is deleted, and a second run finds nothing to do.\<close>

theorem collect_garbage_exact:
  assumes "store_ok P (db c)" and "history_ok (db c)" and "refs_ok (db c)"
  shows "\<exists>n c'. collect_garbage c = (Inr n, c') \<and> store_ok P (db c') \<and> history_ok (db c') \<and> refs_ok (db c')
    \<and> (\<forall>k. om_get (tb_commits (db c')) k = (if live (db c) k then om_get (tb_commits (db c)) k else None))
    \<and> (\<forall>k g. live (db c) k \<longrightarrow> commit_graph P (db c') k g = commit_graph P (db c) k g)
    \<and> (\<forall>k. om_get (tb_commit_data (db c')) k = (if live (db c) k then om_get (tb_commit_data (db c)) k else None))
    \<and> (\<forall>k. checkpoint_exists (db c') k \<longleftrightarrow> checkpoint_exists (db c) k \<and> live (db c) k)
    \<and> ((\<exists>k. commit_exists (db c) k \<and> \<not> live (db c) k) \<longrightarrow>
          tb_layers (db c') = om_filter (\<lambda>i _. layer_referenced (db c') i) (tb_layers (db c))
        \<and> tb_schema_objects (db c') = om_filter (\<lambda>h _. schema_referenced (db c') h) (tb_schema_objects (db c)))
    \<and> tb_branches (db c') = tb_branches (db c) \<and> tb_tags (db c') = tb_tags (db c) \<and> tb_merge_sessions (db c') = tb_merge_sessions (db c)
    \<and> gc_commits n + om_size (tb_commits (db c')) = om_size (tb_commits (db c))
    \<and> gc_layers n + om_size (tb_layers (db c')) = om_size (tb_layers (db c))
    \<and> gc_schemas n + om_size (tb_schema_objects (db c')) = om_size (tb_schema_objects (db c))
    \<and> gc_checkpoints n + om_size (tb_checkpoints (db c')) = om_size (tb_checkpoints (db c))
    \<and> gc_commit_data n + om_size (tb_commit_data (db c')) = om_size (tb_commit_data (db c))
    \<and> collect_garbage c' = (Inr gc_counters_default, c')"
proof -
  obtain n c' where run: "collect_garbage c = (Inr n, c')" "collected P (db c) n (db c')" "unreachable_commits (db c') = Inr []"
    using collect_garbage_collected [OF assms] by blast
  then have "tally n (db c') = tally gc_counters_default (db c)" by (simp add: collected_def)
  from tally_default [OF this] run collect_nothing [OF run(3)] show ?thesis
    by (intro exI [of _ n] exI [of _ c']) (simp add: collected_def checkpoint_exists_def commit_exists_def)
qed

theorem collect_garbage_exact_witness:
  "\<exists>n c'. collect_garbage rewound = (Inr n, c') \<and> commit_exists (db c') (len_id 104)
     \<and> tb_branches (db c') = tb_branches (db rewound) \<and> collect_garbage c' = (Inr gc_counters_default, c')"
proof -
  have "store_ok platform_len (db rewound)" "history_ok (db rewound)" "refs_ok (db rewound)"
    using rewound_sound by (simp_all add: sound_def)
  from collect_garbage_exact [OF this] obtain n c' where run: "collect_garbage rewound = (Inr n, c')"
    "tb_branches (db c') = tb_branches (db rewound)" "collect_garbage c' = (Inr gc_counters_default, c')" by blast
  then have "sound platform_len (len_id 104) (db c')" using sound_collect [OF run(1) rewound_sound] by blast
  with run show ?thesis by (auto simp: sound_def commit_exists_def)
qed

end
