(* ===== verification/Temporal.thy ===== *)
theory Temporal
  imports Utf8 "HOL-Library.Signed_Division"
begin

text \<open>
  Temporal values of the query language (\<^verbatim>\<open>cypher/temporal.rs\<close>, \<^verbatim>\<open>cypher/temporal_format.rs\<close>, the local half of
  \<^verbatim>\<open>cypher/temporal_datetime.rs\<close>): the parsers and printers of dates, local and zoned times, local date-times
  and durations, and the calendar arithmetic they share. A value keeps its canonical text beside the
  numbers it was parsed to.

  Numbers that the parsers bound (hours, months, nanoseconds of a day) are \<open>nat\<close>; days, years and offsets are \<open>int\<close>.
  \<^verbatim>\<open>i64\<close> arithmetic that can leave its range wraps around, as in the release profile.
\<close>

section \<open>Numbers as text\<close>

datatype value_error = ValueError string

type_synonym 'a vres = "value_error + 'a"

definition vok_or :: "'a option \<Rightarrow> string \<Rightarrow> 'a vres" where
  "vok_or x e = (case x of None \<Rightarrow> Inl (ValueError e) | Some y \<Rightarrow> Inr y)"

definition is_ascii_digit :: "byte \<Rightarrow> bool" where
  "is_ascii_digit = between 48 57"

definition digits_nat :: "bytes \<Rightarrow> nat" where
  "digits_nat bs = foldl (\<lambda>n b. 10 * n + (unat b - 48)) 0 bs"

text \<open>\<^verbatim>\<open>str::parse::<u32>\<close> and \<^verbatim>\<open>str::parse::<i64>\<close>: an optional sign, at least one digit, and the range.\<close>

definition parse_u32 :: "ustr \<Rightarrow> nat option" where
  "parse_u32 s =
     (let ds = (case s of b # bs \<Rightarrow> if b = 43 then bs else s | [] \<Rightarrow> s) in
      if ds = [] \<or> \<not> list_all is_ascii_digit ds \<or> digits_nat ds \<ge> 2 ^ 32 then None else Some (digits_nat ds))"

definition parse_i64 :: "ustr \<Rightarrow> i64 option" where
  "parse_i64 s =
     (let (negative, ds) = (case s of b # bs \<Rightarrow> if b = 43 then (False, bs) else if b = 45 then (True, bs) else (False, s) | [] \<Rightarrow> (False, s));
          v = (if negative then - int (digits_nat ds) else int (digits_nat ds)) in
      if ds = [] \<or> \<not> list_all is_ascii_digit ds \<or> \<not> in_i64 v then None else Some v)"

text \<open>The formatter: \<^verbatim>\<open>{}\<close> of an unsigned and of a signed number, and \<^verbatim>\<open>{:0w}\<close>.\<close>

fun dec :: "nat \<Rightarrow> bytes" where
  "dec n = (if n < 10 then [of_nat (48 + n)] else dec (n div 10) @ [of_nat (48 + n mod 10)])"

declare dec.simps [simp del]

definition dec_int :: "int \<Rightarrow> bytes" where
  "dec_int i = (if i < 0 then 45 # dec (nat (- i)) else dec (nat i))"

definition pad :: "nat \<Rightarrow> bytes \<Rightarrow> bytes" where
  "pad w s = replicate (w - length s) 48 @ s"

definition trim_zeros :: "bytes \<Rightarrow> bytes" where
  "trim_zeros s = rev (dropWhile ((=) 48) (rev s))"

text \<open>\<^verbatim>\<open>str::rsplit_once\<close>.\<close>

definition rsplit_once :: "byte \<Rightarrow> bytes \<Rightarrow> (bytes \<times> bytes) option" where
  "rsplit_once sep s = map_option (\<lambda>(l, r). (rev r, rev l)) (split_once sep (rev s))"

definition parse_two_digits :: "ustr \<Rightarrow> string \<Rightarrow> nat vres" where
  "parse_two_digits s name =
     (if length s \<noteq> 2 \<or> \<not> list_all is_ascii_digit s then Inl (ValueError (name @ '' must contain exactly two digits''))
      else vok_or (parse_u32 s) (name @ '' is invalid''))"

section \<open>The calendar\<close>

definition wrap_i64 :: "int \<Rightarrow> int" where
  "wrap_i64 v = signed_take_bit 63 v"

definition is_leap_year :: "int \<Rightarrow> bool" where
  "is_leap_year year \<longleftrightarrow> year smod 4 = 0 \<and> (year smod 100 \<noteq> 0 \<or> year smod 400 = 0)"

definition days_in_month :: "int \<Rightarrow> nat \<Rightarrow> nat" where
  "days_in_month year month =
     (if month \<in> {1, 3, 5, 7, 8, 10, 12} then 31
      else if month \<in> {4, 6, 9, 11} then 30
      else if month = 2 \<and> is_leap_year year then 29
      else if month = 2 then 28
      else 0)"

definition days_from_civil :: "int \<Rightarrow> nat \<Rightarrow> nat \<Rightarrow> int" where
  "days_from_civil year month day =
     (let y = year - (if month \<le> 2 then 1 else 0);
          era = (if y \<ge> 0 then y else y - 399) sdiv 400;
          year_of_era = y - era * 400;
          m = int month;
          d = int day;
          day_of_year = (153 * (m + (if m > 2 then - 3 else 9)) + 2) sdiv 5 + d - 1;
          day_of_era = year_of_era * 365 + year_of_era sdiv 4 - year_of_era sdiv 100 + day_of_year in
      era * 146097 + day_of_era - 719468)"

definition civil_from_days :: "int \<Rightarrow> int \<times> nat \<times> nat" where
  "civil_from_days days =
     (let z = wrap_i64 (days + 719468);
          era = (if z \<ge> 0 then z else wrap_i64 (z - 146096)) sdiv 146097;
          doe = wrap_i64 (z - era * 146097);
          yoe = (doe - doe sdiv 1460 + doe sdiv 36524 - doe sdiv 146096) sdiv 365;
          year = yoe + era * 400;
          doy = doe - (365 * yoe + yoe sdiv 4 - yoe sdiv 100);
          mp = (5 * doy + 2) sdiv 153;
          day = doy - (153 * mp + 2) sdiv 5 + 1;
          month = mp + (if mp < 10 then 3 else - 9) in
      (year + (if month \<le> 2 then 1 else 0), nat month, nat day))"

section \<open>Dates\<close>

record DateValue =
  date_text :: ustr
  date_days :: i64

definition parse_year :: "ustr \<Rightarrow> int vres" where
  "parse_year s =
     (let digits = (case s of b # bs \<Rightarrow> if b = 43 \<or> b = 45 then bs else s | [] \<Rightarrow> s) in
      if length digits < 4 \<or> \<not> list_all is_ascii_digit digits
      then Inl (ValueError ''Date year must contain at least four digits'')
      else and_then (vok_or (parse_i64 s) ''Date year is outside the supported range'') (\<lambda>year.
        if year < -999999999 \<or> 999999999 < year then Inl (ValueError ''Date year is outside the Cypher range'')
        else Inr year))"

definition parse_date :: "ustr \<Rightarrow> (int \<times> nat \<times> nat) vres" where
  "parse_date s =
     and_then (vok_or (rsplit_once 45 s) ''Date must use calendar YYYY-MM-DD form'') (\<lambda>(year_month, day).
     and_then (vok_or (rsplit_once 45 year_month) ''Date must use calendar YYYY-MM-DD form'') (\<lambda>(year, month).
     and_then (parse_year year) (\<lambda>year.
     and_then (parse_two_digits month ''Date month'') (\<lambda>month.
     and_then (parse_two_digits day ''Date day'') (\<lambda>day.
       if month < 1 \<or> 12 < month then Inl (ValueError ''Date month must be between 01 and 12'')
       else if day = 0 \<or> day > days_in_month year month then Inl (ValueError ''Date day is outside the selected month'')
       else Inr (year, month, day))))))"

definition month_day_text :: "nat \<Rightarrow> nat \<Rightarrow> ustr" where
  "month_day_text month day = 45 # pad 2 (dec month) @ 45 # pad 2 (dec day)"

definition format_date :: "int \<Rightarrow> nat \<Rightarrow> nat \<Rightarrow> ustr" where
  "format_date year month day =
     (if 0 \<le> year \<and> year \<le> 9999 then pad 4 (dec (nat year)) @ month_day_text month day
      else if -9999 \<le> year \<and> year < 0 then 45 # pad 4 (dec (nat \<bar>year\<bar>)) @ month_day_text month day
      else if year > 9999 then 43 # dec_int year @ month_day_text month day
      else dec_int year @ month_day_text month day)"

definition format_date_from_days :: "int \<Rightarrow> ustr" where
  "format_date_from_days days =
     (case civil_from_days days of (year, month, day) \<Rightarrow>
        if 0 \<le> year \<and> year \<le> 9999 then pad 4 (dec (nat year)) @ month_day_text month day
        else dec_int year @ month_day_text month day)"

definition date_parse :: "ustr \<Rightarrow> DateValue vres" where
  "date_parse s =
     and_then (parse_date s) (\<lambda>(year, month, day).
       Inr \<lparr>date_text = format_date year month day, date_days = days_from_civil year month day\<rparr>)"

definition date_from_days :: "i64 \<Rightarrow> DateValue vres" where
  "date_from_days days = date_parse (format_date_from_days days)"

definition date_from_components :: "int \<Rightarrow> nat \<Rightarrow> nat \<Rightarrow> DateValue vres" where
  "date_from_components year month day = date_parse (format_date year month day)"

section \<open>Local times\<close>

record LocalTimeValue =
  lt_text :: ustr
  lt_nanoseconds :: nat

definition parse_second :: "ustr \<Rightarrow> (nat \<times> nat) vres" where
  "parse_second s =
     (let (second, fraction) = (case split_once 46 s of None \<Rightarrow> (s, None) | Some (second, fraction) \<Rightarrow> (second, Some fraction)) in
      and_then (parse_two_digits second ''Time second'') (\<lambda>second.
        case fraction of
          None \<Rightarrow> Inr (second, 0)
        | Some value \<Rightarrow>
            if value \<noteq> [] \<and> length value \<le> 9 \<and> list_all is_ascii_digit value
            then and_then (vok_or (parse_u32 value) ''Time fractional second is invalid'') (\<lambda>parsed.
                   Inr (second, parsed * 10 ^ (9 - length value)))
            else Inl (ValueError ''Time fractional second must contain one to nine digits'')))"

definition clock_text :: "nat \<Rightarrow> nat \<Rightarrow> nat \<Rightarrow> ustr" where
  "clock_text hour minute second = pad 2 (dec hour) @ 58 # pad 2 (dec minute) @ 58 # pad 2 (dec second)"

definition fraction_text :: "nat \<Rightarrow> ustr" where
  "fraction_text nanosecond = (if nanosecond = 0 then [] else 46 # trim_zeros (pad 9 (dec nanosecond)))"

definition clock_value :: "nat \<Rightarrow> nat \<Rightarrow> nat \<times> nat \<Rightarrow> (nat \<times> ustr) vres" where
  "clock_value hour minute = (\<lambda>(second, nanosecond).
     if hour > 23 \<or> minute > 59 \<or> second > 59 then Inl (ValueError ''Time components are outside their valid ranges'')
     else Inr ((hour * 3600 + minute * 60 + second) * 1000000000 + nanosecond,
               clock_text hour minute second @ fraction_text nanosecond))"

definition parse_local_time :: "ustr \<Rightarrow> (nat \<times> ustr) vres" where
  "parse_local_time s =
     (let parts = split_at_byte 58 s in
      and_then (parse_two_digits (hd parts) ''Time hour'') (\<lambda>hour.
      and_then (parse_two_digits (if length parts < 2 then [] else parts ! 1) ''Time minute'') (\<lambda>minute.
        if length parts < 3 then Inl (ValueError ''Time must use HH:MM:SS form'')
        else if length parts > 3 then Inl (ValueError ''Time contains too many separators'')
        else and_then (parse_second (parts ! 2)) (clock_value hour minute))))"

definition format_local_time :: "nat \<Rightarrow> ustr" where
  "format_local_time nanoseconds =
     (let hour = nanoseconds div 3600000000000;
          minute = nanoseconds div 60000000000 mod 60;
          second = nanoseconds div 1000000000 mod 60;
          fraction = nanoseconds mod 1000000000 in
      clock_text hour minute second @ fraction_text fraction)"

definition local_time_parse :: "ustr \<Rightarrow> LocalTimeValue vres" where
  "local_time_parse s = and_then (parse_local_time s) (\<lambda>(nanoseconds, canonical). Inr \<lparr>lt_text = canonical, lt_nanoseconds = nanoseconds\<rparr>)"

definition local_time_from_nanoseconds :: "nat \<Rightarrow> LocalTimeValue vres" where
  "local_time_from_nanoseconds nanoseconds =
     (if nanoseconds \<ge> 86400 * 1000000000 then Inl (ValueError ''LocalTime nanoseconds exceed one day'')
      else local_time_parse (format_local_time nanoseconds))"

section \<open>Zoned times\<close>

record TimeValue =
  time_text :: ustr
  time_local_nanoseconds :: nat
  time_offset_seconds :: i32

definition split_time_offset :: "ustr \<Rightarrow> (ustr \<times> ustr) vres" where
  "split_time_offset s =
     (if s \<noteq> [] \<and> last s = 90 then Inr (butlast s, [90])
      else let rest = takeWhile (\<lambda>b. \<not> (b = 43 \<or> b = 45)) (rev s) in
           if length rest = length s then Inl (ValueError ''Zoned Time requires a UTC offset'')
           else let index = length s - length rest - 1 in
                if index = 0 then Inl (ValueError ''Zoned Time requires a local time before its offset'')
                else Inr (take index s, drop index s))"

definition invalid_offset_form :: "'a vres" where
  "invalid_offset_form = Inl (ValueError ''Time zone offset has an invalid form'')"

definition offset_fields :: "ustr \<Rightarrow> (nat \<times> nat \<times> nat) vres" where
  "offset_fields digits =
     (if 58 \<in> set digits then
        (case split_at_byte 58 digits of
           [h, m] \<Rightarrow>
             and_then (parse_two_digits h ''Offset hour'') (\<lambda>h.
             and_then (parse_two_digits m ''Offset minute'') (\<lambda>m. Inr (h, m, 0)))
         | [h, m, s] \<Rightarrow>
             and_then (parse_two_digits h ''Offset hour'') (\<lambda>h.
             and_then (parse_two_digits m ''Offset minute'') (\<lambda>m.
             and_then (parse_two_digits s ''Offset second'') (\<lambda>s. Inr (h, m, s))))
         | _ \<Rightarrow> invalid_offset_form)
      else if length digits = 2 then
        and_then (parse_two_digits digits ''Offset hour'') (\<lambda>h. Inr (h, 0, 0))
      else if length digits = 4 then
        and_then (parse_two_digits (take 2 digits) ''Offset hour'') (\<lambda>h.
        and_then (parse_two_digits (drop 2 digits) ''Offset minute'') (\<lambda>m. Inr (h, m, 0)))
      else if length digits = 6 then
        and_then (parse_two_digits (take 2 digits) ''Offset hour'') (\<lambda>h.
        and_then (parse_two_digits (take 2 (drop 2 digits)) ''Offset minute'') (\<lambda>m.
        and_then (parse_two_digits (drop 4 digits) ''Offset second'') (\<lambda>s. Inr (h, m, s))))
      else invalid_offset_form)"

definition offset_sign :: "ustr \<Rightarrow> (int \<times> ustr) vres" where
  "offset_sign s =
     (case s of
        b # bs \<Rightarrow> if b = 43 then Inr (1, bs) else if b = 45 then Inr (- 1, bs)
                  else Inl (ValueError ''Time zone offset must start with +, -, or Z'')
      | [] \<Rightarrow> Inl (ValueError ''Time zone offset must start with +, -, or Z''))"

definition parse_offset :: "ustr \<Rightarrow> i32 vres" where
  "parse_offset s =
     (if length s > 9 \<or> \<not> list_all (\<lambda>b. b < 128) s then invalid_offset_form
      else if s = [90] then Inr 0
      else and_then (offset_sign s) (\<lambda>(sign, digits).
           and_then (offset_fields digits) (\<lambda>(hour, minute, second).
             if hour > 18 \<or> minute > 59 \<or> second > 59 \<or> (hour = 18 \<and> (minute \<noteq> 0 \<or> second \<noteq> 0))
             then Inl (ValueError ''Time zone offset is outside the 18:00 range'')
             else Inr (sign * (int hour * 3600 + int minute * 60 + int second)))))"

definition format_offset :: "i32 \<Rightarrow> ustr" where
  "format_offset offset_seconds =
     (if offset_seconds = 0 then [90]
      else let sign = (if offset_seconds < 0 then 45 else 43);
               absolute = nat \<bar>offset_seconds\<bar>;
               hour = absolute div 3600;
               minute = absolute mod 3600 div 60;
               second = absolute mod 60 in
           if second = 0 then sign # pad 2 (dec hour) @ 58 # pad 2 (dec minute)
           else sign # clock_text hour minute second)"

definition time_parse :: "ustr \<Rightarrow> TimeValue vres" where
  "time_parse s =
     (if length s > 27 then Inl (ValueError ''Zoned Time exceeds the supported text length'')
      else and_then (split_time_offset s) (\<lambda>(local, offset_text).
        and_then (parse_local_time local) (\<lambda>(local_nanoseconds, local_text).
        and_then (parse_offset offset_text) (\<lambda>offset_seconds.
          Inr \<lparr>time_text = local_text @ format_offset offset_seconds,
               time_local_nanoseconds = local_nanoseconds, time_offset_seconds = offset_seconds\<rparr>))))"

definition time_from_components :: "nat \<Rightarrow> i32 \<Rightarrow> TimeValue vres" where
  "time_from_components local_nanoseconds offset_seconds =
     time_parse (format_local_time local_nanoseconds @ format_offset offset_seconds)"

definition time_instant_key :: "TimeValue \<Rightarrow> int" where
  "time_instant_key t = int (time_local_nanoseconds t) - time_offset_seconds t * 1000000000"

definition time_comparison_key :: "TimeValue \<Rightarrow> int \<times> i32" where
  "time_comparison_key t = (time_instant_key t, time_offset_seconds t)"

section \<open>Local date-times\<close>

record LocalDateTimeValue =
  ldt_text :: ustr
  ldt_days :: i64
  ldt_nanoseconds :: nat

definition local_datetime_parse :: "ustr \<Rightarrow> LocalDateTimeValue vres" where
  "local_datetime_parse s =
     and_then (vok_or (split_once 84 s) ''LocalDateTime must contain a date and time separated by T'') (\<lambda>(date, time).
     and_then (date_parse date) (\<lambda>date.
     and_then (local_time_parse time) (\<lambda>time.
       Inr \<lparr>ldt_text = date_text date @ 84 # lt_text time, ldt_days = date_days date, ldt_nanoseconds = lt_nanoseconds time\<rparr>)))"

definition local_datetime_from_components :: "i64 \<Rightarrow> nat \<Rightarrow> LocalDateTimeValue vres" where
  "local_datetime_from_components days nanoseconds =
     local_datetime_parse (format_date_from_days days @ 84 # format_local_time nanoseconds)"

definition local_datetime_comparison_key :: "LocalDateTimeValue \<Rightarrow> i64 \<times> nat" where
  "local_datetime_comparison_key v = (ldt_days v, ldt_nanoseconds v)"

section \<open>Durations\<close>

record DurationValue =
  dur_text :: ustr
  dur_months :: i64
  dur_days :: i64
  dur_seconds :: i64
  dur_nanoseconds :: i64

definition format_duration_time :: "int \<Rightarrow> ustr" where
  "format_duration_time total_nanos =
     (if total_nanos = 0 then [48, 83]
      else let sign = (if total_nanos < 0 then [45] else []);
               remaining = nat \<bar>total_nanos\<bar>;
               hours = remaining div 3600000000000;
               remaining = remaining mod 3600000000000;
               minutes = remaining div 60000000000;
               remaining = remaining mod 60000000000;
               seconds = remaining div 1000000000;
               nanos = remaining mod 1000000000 in
           (if hours \<noteq> 0 then sign @ dec hours @ [72] else [])
           @ (if minutes \<noteq> 0 then sign @ dec minutes @ [77] else [])
           @ (if seconds \<noteq> 0 \<or> nanos \<noteq> 0 then sign @ dec seconds @ fraction_text nanos @ [83] else []))"

definition format_duration :: "i64 \<Rightarrow> i64 \<Rightarrow> i64 \<Rightarrow> i64 \<Rightarrow> ustr" where
  "format_duration months days seconds nanoseconds =
     (let years = months sdiv 12;
          remaining_months = months smod 12;
          date = 80 # (if years \<noteq> 0 then dec_int years @ [89] else [])
                    @ (if remaining_months \<noteq> 0 then dec_int remaining_months @ [77] else [])
                    @ (if days \<noteq> 0 then dec_int days @ [68] else []);
          total_nanos = seconds * 1000000000 + nanoseconds in
      if total_nanos \<noteq> 0 \<or> length date = 1 then date @ 84 # format_duration_time total_nanos else date)"

definition duration_from_components :: "i64 \<Rightarrow> i64 \<Rightarrow> i64 \<Rightarrow> i64 \<Rightarrow> DurationValue" where
  "duration_from_components months days seconds nanoseconds =
     \<lparr>dur_text = format_duration months days seconds nanoseconds, dur_months = months, dur_days = days,
      dur_seconds = seconds, dur_nanoseconds = nanoseconds\<rparr>"

definition duration_components :: "DurationValue \<Rightarrow> i64 \<times> i64 \<times> i64 \<times> i64" where
  "duration_components d = (dur_months d, dur_days d, dur_seconds d, dur_nanoseconds d)"

end
