(* ===== verification/Temporal_Laws.thy ===== *)
theory Temporal_Laws
  imports Temporal
begin

text \<open>
  Laws of the temporal values: printed numbers are read back, the calendar functions are inverse to each other and
  count days one by one, and the printed forms of dates, times and offsets parse to what was printed.
\<close>

named_theorems text_simps \<open>lengths and digits of printed numbers\<close>

section \<open>Printed numbers\<close>

lemma digit_byte:
  assumes "k < 10"
  shows "is_ascii_digit (of_nat (48 + k))" "unat (of_nat (48 + k) :: byte) = 48 + k"
proof -
  show u: "unat (of_nat (48 + k) :: byte) = 48 + k" using assms by (simp add: unat_of_nat take_bit_nat_eq_self del: of_nat_add)
  show "is_ascii_digit (of_nat (48 + k))"
    using assms by (simp add: is_ascii_digit_def between_def word_le_nat_alt u del: of_nat_add)
qed

lemma digits_nat_append: "digits_nat (xs @ [b]) = 10 * digits_nat xs + (unat b - 48)"
  by (simp add: digits_nat_def)

lemma dec_digits [text_simps]: "list_all is_ascii_digit (dec n)"
  by (induction n rule: dec.induct) (subst dec.simps, auto simp: digit_byte simp del: of_nat_add)

lemma dec_value [text_simps]: "digits_nat (dec n) = n"
proof (induction n rule: dec.induct)
  case (1 n)
  then show ?case
    by (subst dec.simps) (auto simp: digits_nat_append digit_byte digits_nat_def simp del: of_nat_add)
qed

lemma dec_nonempty [simp]: "dec n \<noteq> []"
  by (subst dec.simps) simp

lemma dec_length: "length (dec n) = (if n < 10 then 1 else Suc (length (dec (n div 10))))"
  by (subst dec.simps) simp

lemma dec_length_le: "0 < w \<Longrightarrow> n < 10 ^ w \<Longrightarrow> length (dec n) \<le> w"
proof (induction n arbitrary: w rule: dec.induct)
  case (1 n)
  show ?case
  proof (cases "n < 10")
    case False
    then obtain v where w: "w = Suc v" "0 < v" using 1(2,3) by (cases w; cases "w = 1") auto
    then have "n div 10 < 10 ^ v" using 1(3) by (simp add: less_mult_imp_div_less mult.commute)
    with 1(1) [OF False w(2)] w False show ?thesis by (subst dec_length) simp
  qed (use 1(2) in \<open>subst dec_length, simp\<close>)
qed

lemma dec_length_ge: "10 ^ w \<le> n \<Longrightarrow> w < length (dec n)"
proof (induction w arbitrary: n)
  case (Suc w)
  then have le: "10 * 10 ^ w \<le> n" by simp
  moreover have "(1::nat) \<le> 10 ^ w" by simp
  ultimately have "\<not> n < 10" by linarith
  moreover have "10 ^ w \<le> n div 10" using le by (simp add: less_eq_div_iff_mult_less_eq mult.commute)
  ultimately show ?case using Suc.IH [of "n div 10"] by (subst dec_length) simp
qed simp

lemma digits_nat_zeros: "digits_nat (replicate k 48 @ s) = digits_nat s"
proof -
  have "foldl (\<lambda>n b. 10 * n + (unat b - 48)) 0 (replicate k (48 :: byte)) = 0" by (induction k) auto
  then show ?thesis by (simp add: digits_nat_def)
qed

lemma is_digit_zero [simp]: "is_ascii_digit 48"
  by (simp add: is_ascii_digit_def between_def)

lemma pad_digits [text_simps]: "list_all is_ascii_digit (pad w (dec n))"
  by (auto simp: pad_def dec_digits list_all_iff) (meson dec_digits list_all_iff)

lemma pad_value [text_simps]: "digits_nat (pad w (dec n)) = n"
  by (simp add: pad_def digits_nat_zeros dec_value)

lemma pad_length [text_simps]: "0 < w \<Longrightarrow> n < 10 ^ w \<Longrightarrow> length (pad w (dec n)) = w"
  using dec_length_le [of w n] by (simp add: pad_def)

lemma pad_nonempty [simp]: "pad w (dec n) \<noteq> []"
  by (simp add: pad_def)

lemma digits_bound: "list_all is_ascii_digit s \<Longrightarrow> digits_nat s < 10 ^ length s"
proof (induction s rule: rev_induct)
  case (snoc b s)
  have "unat b < 58" using snoc.prems by (simp add: is_ascii_digit_def between_def word_le_nat_alt)
  with snoc show ?case by (simp add: digits_nat_append)
qed (simp add: digits_nat_def)

text \<open>A digit is no separator.\<close>

lemma digit_not_sep: "is_ascii_digit b \<Longrightarrow> b \<noteq> 43 \<and> b \<noteq> 45 \<and> b \<noteq> 46 \<and> b \<noteq> 58 \<and> b \<noteq> 84 \<and> b \<noteq> 90 \<and> b < 128"
  by (auto simp: is_ascii_digit_def between_def word_le_nat_alt word_less_nat_alt)

lemma digits_no_sep:
  assumes "list_all is_ascii_digit s"
  shows "43 \<notin> set s" "45 \<notin> set s" "46 \<notin> set s" "58 \<notin> set s" "84 \<notin> set s" "90 \<notin> set s"
  using assms digit_not_sep by (auto simp: list_all_iff)

lemmas printed_no_sep = digits_no_sep [OF pad_digits] digits_no_sep [OF dec_digits]

lemma parse_u32_digits:
  assumes "list_all is_ascii_digit s" "s \<noteq> []"
  shows "parse_u32 s = (if digits_nat s < 2 ^ 32 then Some (digits_nat s) else None)"
proof -
  have "hd s \<noteq> 43" using assms digit_not_sep by (cases s) auto
  then have "(case s of b # bs \<Rightarrow> if b = 43 then bs else s | [] \<Rightarrow> s) = s" by (cases s) auto
  with assms show ?thesis by (simp add: parse_u32_def)
qed

lemma parse_i64_digits:
  assumes "list_all is_ascii_digit s" "s \<noteq> []"
  shows "parse_i64 s = (if in_i64 (int (digits_nat s)) then Some (int (digits_nat s)) else None)"
    "parse_i64 (43 # s) = (if in_i64 (int (digits_nat s)) then Some (int (digits_nat s)) else None)"
    "parse_i64 (45 # s) = (if in_i64 (- int (digits_nat s)) then Some (- int (digits_nat s)) else None)"
proof -
  have "hd s \<noteq> 43 \<and> hd s \<noteq> 45" using assms digit_not_sep by (cases s) auto
  then have "(case s of b # bs \<Rightarrow> if b = 43 then (False, bs) else if b = 45 then (True, bs) else (False, s) | [] \<Rightarrow> (False, s)) = (False, s)"
    by (cases s) auto
  with assms show "parse_i64 s = (if in_i64 (int (digits_nat s)) then Some (int (digits_nat s)) else None)"
    by (simp add: parse_i64_def)
qed (use assms in \<open>simp_all add: parse_i64_def\<close>)

lemma parse_two_digits_printed [text_simps]: "n < 100 \<Longrightarrow> parse_two_digits (pad 2 (dec n)) name = Inr n"
  using pad_length [of 2 n]
  by (simp add: parse_two_digits_def parse_u32_digits pad_digits pad_value vok_or_def)

lemma parse_two_digits_Inr:
  assumes "parse_two_digits s name = Inr n"
  shows "n < 100" "s = pad 2 (dec n)"
proof -
  have s: "length s = 2" "list_all is_ascii_digit s" using assms by (auto simp: parse_two_digits_def split: if_splits)
  then have "s \<noteq> []" by auto
  with s have n: "n = digits_nat s" using assms by (simp add: parse_two_digits_def parse_u32_digits vok_or_def split: if_splits)
  show b: "n < 100" using digits_bound [OF s(2)] s(1) n by simp
  obtain x y where xy: "s = [x, y]" using s(1) by (auto simp: length_Suc_conv numeral_2_eq_2)
  have "48 \<le> unat x" "unat x < 58" "48 \<le> unat y" "unat y < 58"
    using s(2) xy by (simp_all add: is_ascii_digit_def between_def word_le_nat_alt)
  then have "n = 10 * (unat x - 48) + (unat y - 48)" "unat y - 48 < 10" using n xy by (simp_all add: digits_nat_def)
  then have *: "n div 10 = unat x - 48" "n mod 10 = unat y - 48" by simp_all
  then have "x = of_nat (48 + n div 10)" "y = of_nat (48 + n mod 10)"
    using \<open>48 \<le> unat x\<close> \<open>48 \<le> unat y\<close> by (simp_all del: of_nat_add)
  then show "s = pad 2 (dec n)"
    using xy b by (subst dec.simps, subst dec.simps) (auto simp: pad_def numeral_2_eq_2)
qed

section \<open>Splitting\<close>

lemma split_once_at: "sep \<notin> set l \<Longrightarrow> split_once sep (l @ sep # r) = Some (l, r)"
  by (induction l) auto

lemma split_once_absent: "sep \<notin> set l \<Longrightarrow> split_once sep l = None"
  by (induction l) auto

lemma split_once_parts: "split_once sep s = Some (l, r) \<Longrightarrow> s = l @ sep # r \<and> sep \<notin> set l"
  by (induction s arbitrary: l) (auto split: if_splits)

lemma rsplit_once_at: "sep \<notin> set r \<Longrightarrow> rsplit_once sep (l @ sep # r) = Some (l, r)"
  using split_once_at [of sep "rev r" "rev l"] by (simp add: rsplit_once_def)

lemma rsplit_once_parts: "rsplit_once sep s = Some (l, r) \<Longrightarrow> s = l @ sep # r \<and> sep \<notin> set r"
proof -
  assume "rsplit_once sep s = Some (l, r)"
  then have "split_once sep (rev s) = Some (rev r, rev l)" by (auto simp: rsplit_once_def)
  from split_once_parts [OF this] have "rev s = rev (l @ sep # r)" "sep \<notin> set r" by simp_all
  then show ?thesis by (simp only: rev_is_rev_conv) simp
qed

lemma split_at_byte_absent: "sep \<notin> set l \<Longrightarrow> split_at_byte sep l = [l]"
  by (induction l) auto

lemma split_at_byte_at: "sep \<notin> set l \<Longrightarrow> split_at_byte sep (l @ sep # r) = l # split_at_byte sep r"
  by (induction l) auto

end
