(* ===== verification/Calendar_Laws.thy ===== *)
theory Calendar_Laws
  imports Temporal_Laws
begin

text \<open>
  The calendar of \<^verbatim>\<open>cypher/temporal.rs\<close>: the closed formulas of \<open>days_from_civil\<close> and \<open>civil_from_days\<close> against the day-by-day
  definition of the proleptic Gregorian calendar.
\<close>

section \<open>The reference calendar\<close>

definition leap :: "int \<Rightarrow> bool" where
  "leap y \<longleftrightarrow> 4 dvd y \<and> (\<not> 100 dvd y \<or> 400 dvd y)"

definition valid_date :: "int \<Rightarrow> nat \<Rightarrow> nat \<Rightarrow> bool" where
  "valid_date y m d \<longleftrightarrow> 1 \<le> m \<and> m \<le> 12 \<and> 1 \<le> d \<and> d \<le> days_in_month y m"

definition next_date :: "int \<times> nat \<times> nat \<Rightarrow> int \<times> nat \<times> nat" where
  "next_date = (\<lambda>(y, m, d). if d < days_in_month y m then (y, m, d + 1) else if m < 12 then (y, m + 1, 1) else (y + 1, 1, 1))"

definition days_of :: "int \<times> nat \<times> nat \<Rightarrow> int" where
  "days_of = (\<lambda>(y, m, d). days_from_civil y m d)"

section \<open>Truncated and floored division\<close>

lemma sdiv_nonneg: "0 \<le> a \<Longrightarrow> 0 < b \<Longrightarrow> (a :: int) sdiv b = a div b"
  by (simp add: signed_divide_int_def sgn_if)

lemma sdiv_neg: "a < 0 \<Longrightarrow> 0 < b \<Longrightarrow> (a :: int) sdiv b = - ((- a) div b)"
  by (simp add: signed_divide_int_def sgn_if)

lemma div_exact: "(a :: int) = b * q + r \<Longrightarrow> 0 \<le> r \<Longrightarrow> r < b \<Longrightarrow> a div b = q"
  by (rule int_div_pos_eq)

lemma div_pred:
  assumes "0 < (b :: int)"
  shows "(y - 1) div b = (if b dvd y then y div b - 1 else y div b)"
proof (cases "b dvd y")
  case True
  then have "y - 1 = b * (y div b - 1) + (b - 1)" by (simp add: algebra_simps)
  with assms True show ?thesis using div_exact [of "y - 1" b "y div b - 1" "b - 1"] by simp
next
  case False
  then have "0 < y mod b" using assms by (simp add: dvd_eq_mod_eq_0 order_less_le)
  moreover have "y - 1 = b * (y div b) + (y mod b - 1)" by (simp add: algebra_simps)
  ultimately show ?thesis using False div_exact [of "y - 1" b "y div b" "y mod b - 1"] pos_mod_bound [OF assms, of y] by simp
qed

lemma floor_by_sdiv:
  assumes "0 < b" "c = b - 1"
  shows "(if y \<ge> 0 then y else y - c) sdiv b = y div (b :: int)"
proof (cases "y \<ge> 0")
  case False
  have "b - 1 - y = b * (- (y div b)) + (b - 1 - y mod b)" by (simp add: algebra_simps)
  then have "(b - 1 - y) div b = - (y div b)"
    by (rule div_exact) (use pos_mod_bound [OF assms(1), of y] pos_mod_sign [OF assms(1), of y] in simp_all)
  then show ?thesis using False assms by (simp add: sdiv_neg)
qed (use assms in \<open>simp add: sdiv_nonneg\<close>)

lemma smod_zero: "0 < b \<Longrightarrow> (a :: int) smod b = 0 \<longleftrightarrow> b dvd a"
  by (cases a "0 :: int" rule: linorder_cases) (auto simp: signed_modulo_int_def sgn_if dvd_eq_mod_eq_0 [symmetric])

lemma is_leap_year_leap [simp]: "is_leap_year y \<longleftrightarrow> leap y"
  by (simp add: is_leap_year_def leap_def smod_zero)

section \<open>Counting days\<close>

definition year_days :: "int \<Rightarrow> int" where
  "year_days y = 365 * y + y div 4 - y div 100 + y div 400"

definition month_days :: "nat \<Rightarrow> int" where
  "month_days m = [306, 337, 0, 31, 61, 92, 122, 153, 184, 214, 245, 275] ! (m - 1)"

lemma month_cases: "1 \<le> m \<Longrightarrow> m \<le> 12 \<Longrightarrow> m \<in> {1, 2, 3, 4, 5, 6, 7, 8, 9, 10, 11, 12 :: nat}"
  unfolding insert_iff empty_iff by presburger

lemma month_days_formula:
  assumes "1 \<le> m" "m \<le> 12"
  shows "(153 * (int m + (if int m > 2 then - 3 else 9)) + 2) sdiv 5 = month_days m"
proof -
  have "0 \<le> 153 * (int m + (if int m > 2 then - 3 else 9)) + 2" by auto
  then show ?thesis using month_cases [OF assms] by (auto simp: sdiv_nonneg month_days_def)
qed

definition march_year :: "int \<Rightarrow> nat \<Rightarrow> int" where
  "march_year y m = y - (if m \<le> 2 then 1 else 0)"

lemma year_days_era: "0 \<le> r \<Longrightarrow> r < 400 \<Longrightarrow> year_days (400 * e + r) = 146097 * e + 365 * r + r div 4 - r div 100"
proof -
  assume r: "0 \<le> r" "r < 400"
  have "(r + (100 * e) * 4) div 4 = 100 * e + r div 4" "(r + (4 * e) * 100) div 100 = 4 * e + r div 100" "(r + e * 400) div 400 = e"
    using r by simp_all
  then show ?thesis by (simp add: year_days_def algebra_simps)
qed

lemma days_from_civil_eq:
  assumes "1 \<le> m" "m \<le> 12"
  shows "days_from_civil y m d = year_days (march_year y m) + month_days m + int d - 719469"
proof -
  let ?y = "march_year y m"
  define e r where "e = ?y div 400" and "r = ?y - ?y div 400 * 400"
  have r: "0 \<le> r" "r < 400" "?y = 400 * e + r" by (simp_all add: e_def r_def minus_div_mult_eq_mod)
  have era: "(if ?y \<ge> 0 then ?y else ?y - 399) sdiv 400 = ?y div 400" by (rule floor_by_sdiv) simp_all
  have "days_from_civil y m d = e * 146097 + (r * 365 + r sdiv 4 - r sdiv 100 + (month_days m + int d - 1)) - 719468"
    unfolding days_from_civil_def Let_def month_days_formula [OF assms] march_year_def [symmetric] era e_def r_def by simp
  then show ?thesis unfolding r(3) year_days_era [OF r(1,2)] using r by (simp add: sdiv_nonneg)
qed

lemma div_pred_of_bool: "0 < (b :: int) \<Longrightarrow> (y - 1) div b = y div b - of_bool (b dvd y)"
  by (simp add: div_pred)

lemma year_step: "year_days y - year_days (y - 1) = (if leap y then 366 else 365)"
proof -
  have d: "(y - 1) div 4 = y div 4 - of_bool (4 dvd y)" "(y - 1) div 100 = y div 100 - of_bool (100 dvd y)"
    "(y - 1) div 400 = y div 400 - of_bool (400 dvd y)"
    by (rule div_pred_of_bool, simp)+
  have "year_days y - year_days (y - 1) = 365 + of_bool (4 dvd y) - of_bool (100 dvd y) + of_bool (400 dvd y)"
  proof -
    have *: "365 * y + a - b + c - (365 * (y - 1) + (a - p) - (b - q) + (c - r)) = 365 + p - q + r" for a b c p q r :: int
      by simp
    show ?thesis unfolding year_days_def d by (rule *)
  qed
  also have "\<dots> = (if leap y then 366 else 365)"
  proof (cases "4 dvd y")
    case True
    show ?thesis
      by (cases "100 dvd y"; cases "400 dvd y")
        (use True dvd_trans [of 100 400 y] in \<open>simp_all only: leap_def of_bool_eq if_True if_False simp_thms HOL.simp_thms\<close>; simp)+
  next
    case False
    then have "\<not> 100 dvd y" "\<not> 400 dvd y" using dvd_trans [of 4 100 y] dvd_trans [of 4 400 y] by auto
    then show ?thesis using False by (simp only: leap_def of_bool_eq if_False simp_thms)
  qed
  finally show ?thesis .
qed

lemma next_date_valid:
  assumes "valid_date y m d" and "next_date (y, m, d) = (y', m', d')"
  shows "valid_date y' m' d'"
  using assms month_cases [of m] by (auto simp: valid_date_def next_date_def days_in_month_def split: if_splits)

lemma next_date_days:
  assumes "valid_date y m d"
  shows "days_of (next_date (y, m, d)) = days_of (y, m, d) + 1"
proof -
  have m: "1 \<le> m" "m \<le> 12" using assms by (simp_all add: valid_date_def)
  show ?thesis
  proof (cases "d < days_in_month y m")
    case True
    then show ?thesis using m by (simp add: next_date_def days_of_def days_from_civil_eq)
  next
    case False
    then have d: "d = days_in_month y m" using assms by (simp add: valid_date_def)
    have "m \<in> {1, 2, 3, 4, 5, 6, 7, 8, 9, 10, 11, 12}" by (rule month_cases [OF m])
    then show ?thesis
      using year_step [of y] unfolding d
      by (elim insertE emptyE)
        (simp_all add: next_date_def days_of_def days_from_civil_eq march_year_def month_days_def days_in_month_def split: if_splits)
  qed
qed

section \<open>The inverse\<close>

lemma year_of_era_exact:
  fixes yoe :: int
  assumes "0 \<le> yoe" "yoe \<le> 399" "0 \<le> doy" "doy \<le> 365" "doy = 365 \<Longrightarrow> leap (yoe + 1)"
    and doe: "doe = 365 * yoe + yoe div 4 - yoe div 100 + doy"
  shows "(doe - doe div 1460 + doe div 36524 - doe div 146096) div 365 = yoe" "0 \<le> doe" "doe < 146097"
proof -
  define f e s r where "f = yoe div 100" and "e = yoe div 4" and "s = yoe mod 4" and "r = yoe mod 100"
  have yoe: "yoe = 100 * f + r" "yoe = 4 * e + s" "0 \<le> r" "r < 100" "0 \<le> s" "s < 4"
    by (simp_all add: f_def e_def s_def r_def)
  have "0 \<le> f" "f \<le> 3" using assms(1,2) yoe(1,3,4) by linarith+
  note yoe = yoe this
  have "(r + (25 * f) * 4) div 4 = 25 * f + r div 4" by simp
  then have e: "e = 25 * f + r div 4" unfolding e_def yoe(1) by (simp add: algebra_simps)
  have r4: "0 \<le> r div 4" "r div 4 \<le> 24" using yoe(3,4) zdiv_mono1 [of r 99 4] by (simp_all add: pos_imp_zdiv_nonneg_iff)
  have last: "s = 3 \<and> (r = 99 \<longrightarrow> f = 3)" if "doy = 365"
  proof -
    have "leap (yoe + 1)" by (rule assms(5) [OF that])
    then have dvd: "4 dvd yoe + 1" "100 dvd yoe + 1 \<longrightarrow> 400 dvd yoe + 1" by (auto simp: leap_def)
    have "s = 3" using dvd(1) yoe(2,5,6) by presburger
    moreover have "f = 3" if "r = 99"
    proof -
      have "yoe + 1 = 100 * (f + 1)" using yoe(1) that by simp
      then have "400 dvd 100 * (f + 1)" by (metis dvd(2) dvd_triv_left)
      then show ?thesis using yoe(7,8) by presburger
    qed
    ultimately show ?thesis by blast
  qed
  define q t where "q = r div 4" and "t = 365 * r + q + doy"
  have q: "0 \<le> q" "q \<le> 24" using r4 by (simp_all add: q_def)
  have doe': "doe = 36524 * f + t" "doe = 1460 * e + (365 * s + (e - f) + doy)"
    using doe e yoe unfolding e_def [symmetric] f_def [symmetric] t_def q_def [symmetric] by linarith+
  have century: "0 \<le> t" "t \<le> 36524" using yoe(3,4) q assms(3,4) unfolding t_def by linarith+
  have full: "f = 3" if "t = 36524"
  proof -
    have "r = 99" "doy = 365" using that yoe(4) q assms(4) unfolding t_def by linarith+
    then show ?thesis using last by simp
  qed
  show "0 \<le> doe" using doe'(1) yoe century by linarith
  show "doe < 146097" using doe'(1) yoe(8) century by linarith
  have b: "doe div 36524 = (if t = 36524 then f + 1 else f)"
    using div_exact [of doe 36524 f t] div_exact [of doe 36524 "f + 1" 0] doe'(1) century by auto
  have c: "doe div 146096 = (if t = 36524 then 1 else 0)"
  proof (cases "t = 36524")
    case True
    then show ?thesis using full doe'(1) by simp
  next
    case False
    then have "doe < 146096" using doe'(1) yoe(8) century by linarith
    then show ?thesis using False \<open>0 \<le> doe\<close> by simp
  qed
  have bc: "doe div 36524 - doe div 146096 = f" using b c by simp
  let ?t = "365 * s + (e - f) + doy"
  have ef: "0 \<le> e - f" "e - f \<le> 96" using e r4 yoe(7,8) by auto
  have t: "0 \<le> ?t" "?t < 2920" using ef yoe(5,6) assms(3,4) by auto
  have "(?t + e * 1460) div 1460 = e + ?t div 1460" by simp
  then have a: "doe div 1460 = e + ?t div 1460" using doe'(2) by (simp add: algebra_simps)
  have "0 \<le> doy - ?t div 1460 \<and> doy - ?t div 1460 < 365"
  proof (cases "?t < 1460")
    case True
    then have "?t div 1460 = 0" using t by simp
    moreover have "doy \<noteq> 365" using True ef last by linarith
    ultimately show ?thesis using assms(3,4) by linarith
  next
    case False
    then have "?t div 1460 = 1" using t div_exact [of ?t 1460 1 "?t - 1460"] by simp
    moreover have "1 \<le> doy" using False ef yoe(6) by linarith
    ultimately show ?thesis using assms(4) by linarith
  qed
  moreover have "doe - doe div 1460 + doe div 36524 - doe div 146096 = 365 * yoe + (doy - ?t div 1460)"
    using bc a doe unfolding e_def [symmetric] f_def [symmetric] by linarith
  ultimately show "(doe - doe div 1460 + doe div 36524 - doe div 146096) div 365 = yoe" by simp
qed

text \<open>The days whose conversion does not overflow \<^verbatim>\<open>i64\<close>.\<close>

definition civil_range :: "int \<Rightarrow> bool" where
  "civil_range days \<longleftrightarrow> - (2 ^ 63) + 146096 \<le> days + 719468 \<and> days + 719468 < 2 ^ 63"

lemma wrap_i64_id: "in_i64 v \<Longrightarrow> wrap_i64 v = v"
  by (simp add: wrap_i64_def in_i64_def signed_take_bit_int_eq_self)

lemma days_in_month_28: "1 \<le> m \<Longrightarrow> m \<le> 12 \<Longrightarrow> 28 \<le> days_in_month y m \<and> days_in_month y m \<le> 31"
  by (drule (1) month_cases) (auto simp: days_in_month_def)

lemma leap_era: "leap (400 * e + k) = leap k"
proof -
  have "b dvd 400 * e + k \<longleftrightarrow> b dvd k" if "b dvd 400" for b :: int
    using that by (meson dvd_add_right_iff dvd_mult2)
  from this [of 4] this [of 100] this [of 400] show ?thesis by (simp add: leap_def)
qed

lemma day_of_year_month:
  assumes "valid_date y m d" and doy: "doy = month_days m + int d - 1"
  shows "0 \<le> doy" "doy \<le> 365" "doy = 365 \<Longrightarrow> leap (march_year y m + 1)"
    "(5 * doy + 2) div 153 = int m + (if m \<le> 2 then 9 else - 3)"
    "doy - (153 * ((5 * doy + 2) div 153) + 2) div 5 + 1 = int d"
proof -
  have d: "1 \<le> d" "d \<le> days_in_month y m" and m: "1 \<le> m" "m \<le> 12" using assms(1) by (simp_all add: valid_date_def)
  note * = month_cases [OF m] days_in_month_28 [OF m, of y]
  show "0 \<le> doy" "doy \<le> 365" "doy = 365 \<Longrightarrow> leap (march_year y m + 1)"
    using * d unfolding doy
    by (elim insertE emptyE; simp add: month_days_def days_in_month_def march_year_def split: if_splits)+
  show mp: "(5 * doy + 2) div 153 = int m + (if m \<le> 2 then 9 else - 3)"
    by (rule div_exact [where r = "5 * doy + 2 - 153 * (int m + (if m \<le> 2 then 9 else - 3))"])
      (use * d in \<open>unfold doy; elim insertE emptyE; simp add: month_days_def days_in_month_def split: if_splits\<close>)+
  show "doy - (153 * ((5 * doy + 2) div 153) + 2) div 5 + 1 = int d"
    unfolding mp using *(1) by (elim insertE emptyE) (simp_all add: doy month_days_def)
qed

lemma civil_from_days_of:
  assumes v: "valid_date y m d" and range: "civil_range (days_from_civil y m d)"
  shows "civil_from_days (days_from_civil y m d) = (y, m, d)"
proof -
  have m: "1 \<le> m" "m \<le> 12" using v by (simp_all add: valid_date_def)
  define e r doy doe where "e = march_year y m div 400" and "r = march_year y m mod 400"
    and "doy = month_days m + int d - 1" and "doe = 365 * r + r div 4 - r div 100 + doy"
  have r: "0 \<le> r" "r \<le> 399" "march_year y m = 400 * e + r" by (simp_all add: e_def r_def)
  note doy = day_of_year_month [OF v doy_def]
  have "leap (r + 1)" if "doy = 365" using doy(3) [OF that] leap_era [of e "r + 1"] r(3) by (simp add: algebra_simps)
  note yoe = year_of_era_exact [OF r(1,2) doy(1,2) this doe_def]
  have z: "days_from_civil y m d + 719468 = 146097 * e + doe"
    using r by (simp add: days_from_civil_eq [OF m] year_days_era doe_def doy_def)
  let ?z = "146097 * e + doe"
  have "in_i64 ?z" "in_i64 (?z - 146096)" using range z by (simp_all add: civil_range_def in_i64_def)
  then have wz: "wrap_i64 ?z = ?z" "wrap_i64 (?z - 146096) = ?z - 146096" by (simp_all add: wrap_i64_id)
  have era: "(if ?z \<ge> 0 then ?z else ?z - 146096) sdiv 146097 = e"
    using yoe(2,3) by (subst floor_by_sdiv) (simp_all add: div_exact [of ?z 146097 e doe])
  have wd: "wrap_i64 (?z - e * 146097) = doe" using yoe(2,3) by (simp add: wrap_i64_id in_i64_def)
  have yy: "(doe - doe sdiv 1460 + doe sdiv 36524 - doe sdiv 146096) sdiv 365 = r"
  proof -
    have "0 \<le> (doe - doe div 1460 + doe div 36524 - doe div 146096)" using yoe(1) r(1) by (metis div_neg_pos_less0 not_less zero_less_numeral)
    then show ?thesis using yoe by (simp add: sdiv_nonneg)
  qed
  have dd: "doe - (365 * r + r sdiv 4 - r sdiv 100) = doy" using r(1) by (simp add: sdiv_nonneg doe_def)
  have mm: "(5 * doy + 2) sdiv 153 = int m + (if m \<le> 2 then 9 else - 3)" using doy(1,4) by (simp add: sdiv_nonneg)
  have "0 \<le> int m + (if m \<le> 2 then 9 else - 3)" using m by simp
  then have day: "doy - (153 * (int m + (if m \<le> 2 then 9 else - 3)) + 2) sdiv 5 + 1 = int d" using doy(4,5) by (simp add: sdiv_nonneg)
  show ?thesis
    unfolding civil_from_days_def Let_def z wz era wd yy dd mm day
    using m r(3) by (auto simp: march_year_def)
qed

section \<open>Every day has a date\<close>

lemma days_reach: "valid_date y m d \<Longrightarrow> \<exists>y' m' d'. valid_date y' m' d' \<and> days_from_civil y' m' d' = days_from_civil y m d + int n"
proof (induction n)
  case (Suc n)
  then obtain y' m' d' where 1: "valid_date y' m' d'" "days_from_civil y' m' d' = days_from_civil y m d + int n" by blast
  obtain y2 m2 d2 where 2: "next_date (y', m', d') = (y2, m2, d2)" by (cases "next_date (y', m', d')") auto
  have "valid_date y2 m2 d2" by (rule next_date_valid [OF 1(1) 2])
  moreover have "days_from_civil y2 m2 d2 = days_from_civil y' m' d' + 1"
    using next_date_days [OF 1(1)] 2 by (simp add: days_of_def)
  ultimately show ?case using 1(2) by (intro exI [of _ y2] exI [of _ m2] exI [of _ d2]) simp
qed auto

lemma every_day_has_date: "\<exists>y m d. valid_date y m d \<and> days_from_civil y m d = n"
proof -
  let ?y = "- \<bar>n\<bar> - 1"
  have bound: "year_days k \<le> k + 1" if "k < 0" for k
  proof -
    have "k div 4 \<le> 0" "k div 400 \<le> 0" using that by (simp_all add: div_nonpos_pos_le0)
    moreover have "k - 99 \<le> 100 * (k div 100)" by (simp add: mult.commute)
    ultimately show ?thesis using that unfolding year_days_def by linarith
  qed
  have "year_days (?y - 1) \<le> ?y" by (rule order_trans [OF bound]) simp_all
  then have "days_from_civil ?y 1 1 \<le> n" by (simp add: days_from_civil_eq march_year_def month_days_def)
  then have "days_from_civil ?y 1 1 + int (nat (n - days_from_civil ?y 1 1)) = n" by simp
  moreover have "valid_date ?y 1 1" by (simp add: valid_date_def days_in_month_def)
  ultimately show ?thesis using days_reach [of ?y 1 1 "nat (n - days_from_civil ?y 1 1)"] by metis
qed

lemma civil_valid:
  assumes "civil_range n" and "civil_from_days n = (y, m, d)"
  shows "valid_date y m d" "days_from_civil y m d = n"
proof -
  obtain y' m' d' where *: "valid_date y' m' d'" "days_from_civil y' m' d' = n" using every_day_has_date by blast
  then have "civil_from_days n = (y', m', d')" using civil_from_days_of assms(1) by blast
  with * assms(2) show "valid_date y m d" "days_from_civil y m d = n" by simp_all
qed

end
