(* ===== verification/Date_Laws.thy ===== *)
theory Date_Laws
  imports Calendar_Laws
begin

text \<open>
  The text of dates: what \<open>parse_date\<close> accepts of what the two printers write. \<open>format_date\<close> pads every year to the four
  digits the parser asks for, \<open>format_date_from_days\<close> does so only for the years 0 to 9999.
\<close>

section \<open>Years\<close>

lemma parse_two_digits_iff [text_simps]: "parse_two_digits (pad 2 (dec n)) name = Inr k \<longleftrightarrow> n < 100 \<and> k = n"
proof (cases "n < 100")
  case False
  then have "2 < length (dec n)" using dec_length_ge [of 2 n] by simp
  with False show ?thesis by (simp add: parse_two_digits_def pad_def)
qed (auto simp: text_simps)

lemma not_i64: "999999999 < v \<Longrightarrow> in_i64 v \<or> \<not> in_i64 v" by blast

lemma parse_year_digits:
  assumes "list_all is_ascii_digit s"
  shows "parse_year s = Inr y \<longleftrightarrow> 4 \<le> length s \<and> digits_nat s \<le> 999999999 \<and> y = int (digits_nat s)"
    "parse_year (43 # s) = Inr y \<longleftrightarrow> 4 \<le> length s \<and> digits_nat s \<le> 999999999 \<and> y = int (digits_nat s)"
    "parse_year (45 # s) = Inr y \<longleftrightarrow> 4 \<le> length s \<and> digits_nat s \<le> 999999999 \<and> y = - int (digits_nat s)"
proof -
  have hd: "(case s of b # bs \<Rightarrow> if b = 43 \<or> b = 45 then bs else s | [] \<Rightarrow> s) = s"
    using assms digit_not_sep by (cases s) auto
  show "parse_year s = Inr y \<longleftrightarrow> 4 \<le> length s \<and> digits_nat s \<le> 999999999 \<and> y = int (digits_nat s)"
  proof (cases "s = []")
    case False
    note p = parse_i64_digits [OF assms False]
    show ?thesis unfolding parse_year_def Let_def hd p by (auto simp: assms vok_or_def in_i64_def)
  qed (simp add: parse_year_def)
  show "parse_year (43 # s) = Inr y \<longleftrightarrow> 4 \<le> length s \<and> digits_nat s \<le> 999999999 \<and> y = int (digits_nat s)"
  proof (cases "s = []")
    case False
    note p = parse_i64_digits [OF assms False]
    show ?thesis unfolding parse_year_def Let_def p by (auto simp: assms vok_or_def in_i64_def)
  qed (simp add: parse_year_def)
  show "parse_year (45 # s) = Inr y \<longleftrightarrow> 4 \<le> length s \<and> digits_nat s \<le> 999999999 \<and> y = - int (digits_nat s)"
  proof (cases "s = []")
    case False
    note p = parse_i64_digits [OF assms False]
    show ?thesis unfolding parse_year_def Let_def p by (auto simp: assms vok_or_def in_i64_def)
  qed (simp add: parse_year_def)
qed

lemma parse_year_range: "parse_year s = Inr y \<Longrightarrow> \<bar>y\<bar> \<le> 999999999"
  by (auto simp: parse_year_def Let_def split: if_splits)

definition year_text :: "int \<Rightarrow> ustr" where
  "year_text y =
     (if 0 \<le> y \<and> y \<le> 9999 then pad 4 (dec (nat y))
      else if -9999 \<le> y \<and> y < 0 then 45 # pad 4 (dec (nat \<bar>y\<bar>))
      else if y > 9999 then 43 # dec_int y
      else dec_int y)"

definition plain_year_text :: "int \<Rightarrow> ustr" where
  "plain_year_text y = (if 0 \<le> y \<and> y \<le> 9999 then pad 4 (dec (nat y)) else dec_int y)"

lemma format_date_year: "format_date y m d = year_text y @ month_day_text m d"
  by (simp add: format_date_def year_text_def)

lemma format_date_from_days_year:
  "format_date_from_days n = (case civil_from_days n of (y, m, d) \<Rightarrow> plain_year_text y @ month_day_text m d)"
  by (cases "civil_from_days n") (simp add: format_date_from_days_def plain_year_text_def)

lemma parse_year_text: "parse_year (year_text y) = Inr k \<longleftrightarrow> \<bar>y\<bar> \<le> 999999999 \<and> k = y"
proof -
  have "4 \<le> length (dec n)" if "1000 \<le> n" for n using dec_length_ge [of 3 n] that by simp
  then show ?thesis
    by (auto simp: year_text_def dec_int_def parse_year_digits text_simps)
qed

lemma parse_plain_year_text:
  "parse_year (plain_year_text y) = Inr k \<longleftrightarrow> \<bar>y\<bar> \<le> 999999999 \<and> \<not> (-1000 < y \<and> y < 0) \<and> k = y"
proof -
  have len: "4 \<le> length (dec n) \<longleftrightarrow> 1000 \<le> n" for n
    using dec_length_ge [of 3 n] dec_length_le [of 3 n] by (cases "n < 1000") auto
  consider "0 \<le> y" "y \<le> 9999" | "y > 9999" | "y < 0" by linarith
  then show ?thesis
  proof cases
    case 1
    then show ?thesis by (simp add: plain_year_text_def parse_year_digits text_simps) linarith
  next
    case 2
    then show ?thesis by (simp add: plain_year_text_def dec_int_def parse_year_digits text_simps len) linarith
  next
    case 3
    then obtain n where n: "y = - int n" "0 < n" by (metis minus_minus neg_less_0_iff_less nat_int zero_less_imp_eq_int)
    with 3 show ?thesis by (simp add: plain_year_text_def dec_int_def parse_year_digits text_simps len) linarith
  qed
qed

lemma parse_short_year:
  assumes "-1000 < y" "y < 0"
  shows "parse_year (plain_year_text y) = Inl (ValueError ''Date year must contain at least four digits'')"
proof -
  have "nat (- y) < 1000" using assms by simp
  then have "length (dec (nat (- y))) < 4" using dec_length_le [of 3 "nat (- y)"] by simp
  then show ?thesis using assms by (simp add: plain_year_text_def dec_int_def parse_year_def)
qed

section \<open>Dates\<close>

lemma parse_date_text:
  "parse_date (yt @ month_day_text m d) =
     and_then (parse_year yt) (\<lambda>y.
     and_then (parse_two_digits (pad 2 (dec m)) ''Date month'') (\<lambda>m.
     and_then (parse_two_digits (pad 2 (dec d)) ''Date day'') (\<lambda>d.
       if m < 1 \<or> 12 < m then Inl (ValueError ''Date month must be between 01 and 12'')
       else if d = 0 \<or> d > days_in_month y m then Inl (ValueError ''Date day is outside the selected month'')
       else Inr (y, m, d))))"
proof -
  have "rsplit_once 45 (yt @ month_day_text m d) = Some (yt @ 45 # pad 2 (dec m), pad 2 (dec d))"
    using rsplit_once_at [of 45 "pad 2 (dec d)" "yt @ 45 # pad 2 (dec m)"] printed_no_sep by (simp add: month_day_text_def)
  moreover have "rsplit_once 45 (yt @ 45 # pad 2 (dec m)) = Some (yt, pad 2 (dec m))"
    by (rule rsplit_once_at) (rule printed_no_sep)
  ultimately show ?thesis by (simp add: parse_date_def vok_or_def)
qed

lemma valid_date_iff: "valid_date y m d \<longleftrightarrow> \<not> (m < 1 \<or> 12 < m) \<and> \<not> (d = 0 \<or> d > days_in_month y m)"
  by (auto simp: valid_date_def)

lemma valid_date_small: "valid_date y m d \<Longrightarrow> m < 100 \<and> d < 100"
  using days_in_month_28 [of m y] by (auto simp: valid_date_def)

lemma parse_date_year_text:
  "parse_date (yt @ month_day_text m d) = Inr (y', m', d') \<longleftrightarrow>
     parse_year yt = Inr y' \<and> valid_date y' m d \<and> m' = m \<and> d' = d"
  using valid_date_small [of y' m d]
  unfolding parse_date_text by (auto simp: text_simps valid_date_iff split: if_splits)

lemma parse_date_valid:
  assumes "parse_date s = Inr (y, m, d)"
  shows "valid_date y m d" "\<bar>y\<bar> \<le> 999999999"
  using assms by (auto simp: parse_date_def valid_date_iff dest: parse_year_range split: if_splits prod.splits)

definition date_value :: "int \<Rightarrow> nat \<Rightarrow> nat \<Rightarrow> DateValue" where
  "date_value y m d = \<lparr>date_text = format_date y m d, date_days = days_from_civil y m d\<rparr>"

lemma date_parse_value: "date_parse s = Inr v \<longleftrightarrow> (\<exists>y m d. parse_date s = Inr (y, m, d) \<and> v = date_value y m d)"
  by (auto simp: date_parse_def date_value_def split: prod.splits)

lemma date_parse_Inr:
  assumes "date_parse s = Inr v"
  obtains y m d where "valid_date y m d" "\<bar>y\<bar> \<le> 999999999" "v = date_value y m d"
  using assms parse_date_valid unfolding date_parse_value by blast

lemma date_from_components_iff:
  "date_from_components y m d = Inr v \<longleftrightarrow> valid_date y m d \<and> \<bar>y\<bar> \<le> 999999999 \<and> v = date_value y m d"
  by (auto simp: date_from_components_def date_parse_value format_date_year parse_date_year_text parse_year_text)

lemma date_reparse:
  assumes "date_parse s = Inr v"
  shows "date_parse (date_text v) = Inr v"
proof -
  obtain y m d where v: "valid_date y m d" "\<bar>y\<bar> \<le> 999999999" "v = date_value y m d" by (rule date_parse_Inr [OF assms])
  then have "date_from_components y m d = Inr v" by (simp add: date_from_components_iff)
  then show ?thesis by (simp add: date_from_components_def v(3) date_value_def)
qed

lemma year_days_bounds: "year_days k \<le> 366 * \<bar>k\<bar> + 400" "- 366 * \<bar>k\<bar> - 400 \<le> year_days k"
proof -
  have "k - 3 \<le> 4 * (k div 4)" "4 * (k div 4) \<le> k" "k - 99 \<le> 100 * (k div 100)" "100 * (k div 100) \<le> k"
    "k - 399 \<le> 400 * (k div 400)" "400 * (k div 400) \<le> k" by (simp_all add: mult.commute)
  then show "year_days k \<le> 366 * \<bar>k\<bar> + 400" "- 366 * \<bar>k\<bar> - 400 \<le> year_days k"
    unfolding year_days_def by linarith+
qed

lemma date_civil_range:
  assumes "valid_date y m d" "\<bar>y\<bar> \<le> 999999999"
  shows "civil_range (days_from_civil y m d)"
proof -
  have m: "1 \<le> m" "m \<le> 12" "d \<le> 31" using assms(1) days_in_month_28 [of m y] by (auto simp: valid_date_def)
  have "0 \<le> month_days m" "month_days m \<le> 400" using month_cases [OF m(1,2)] by (auto simp: month_days_def)
  moreover have "\<bar>march_year y m\<bar> \<le> 1000000000" using assms(2) unfolding march_year_def by (cases "m \<le> 2"; simp; linarith)
  ultimately show ?thesis
    using year_days_bounds [of "march_year y m"] m(3) unfolding civil_range_def days_from_civil_eq [OF m(1,2)] by (intro conjI; simp; linarith)
qed

lemma date_from_days_value:
  assumes "valid_date y m d" "\<bar>y\<bar> \<le> 999999999"
  shows "date_from_days (days_from_civil y m d) =
    (if -1000 < y \<and> y < 0 then Inl (ValueError ''Date year must contain at least four digits'') else Inr (date_value y m d))"
proof -
  have civil: "civil_from_days (days_from_civil y m d) = (y, m, d)"
    by (rule civil_from_days_of [OF assms(1) date_civil_range [OF assms]])
  show ?thesis
  proof (cases "-1000 < y \<and> y < 0")
    case True
    then show ?thesis
      by (simp add: date_from_days_def date_parse_def format_date_from_days_year civil parse_date_text parse_short_year)
  next
    case False
    then have "parse_date (plain_year_text y @ month_day_text m d) = Inr (y, m, d)"
      using assms by (simp add: parse_date_year_text parse_plain_year_text)
    then show ?thesis using False
      by (auto simp: date_from_days_def date_parse_def format_date_from_days_year civil date_value_def)
  qed
qed

end
