(* ===== verification/Time_Laws.thy ===== *)
theory Time_Laws
  imports Date_Laws
begin

text \<open>The text of local times, offsets and zoned times.\<close>

abbreviation (input) day_nanos :: nat where "day_nanos \<equiv> 86400000000000"

section \<open>Fractions\<close>

lemma trim_zeros_split: "\<exists>j. s = trim_zeros s @ replicate j 48"
proof -
  have "rev s = takeWhile ((=) 48) (rev s) @ dropWhile ((=) 48) (rev s)" by simp
  then have "s = trim_zeros s @ rev (takeWhile ((=) 48) (rev s))" by (metis rev_append rev_rev_ident trim_zeros_def)
  moreover have "rev (takeWhile ((=) 48) (rev s)) = replicate (length (takeWhile ((=) (48 :: byte)) (rev s))) 48"
    by (rule replicate_eqI) (auto dest: set_takeWhileD)
  ultimately show ?thesis by metis
qed

lemma digits_nat_trailing: "digits_nat (s @ replicate j 48) = digits_nat s * 10 ^ j"
proof (induction j)
  case (Suc j)
  have "s @ replicate (Suc j) 48 = (s @ replicate j 48) @ [48]" by (simp add: replicate_append_same)
  then show ?case using Suc by (simp only: digits_nat_append) simp
qed simp

lemma fraction_digits:
  assumes "0 < n" "n < 1000000000"
  defines "t \<equiv> trim_zeros (pad 9 (dec n))"
  shows "list_all is_ascii_digit t" "t \<noteq> []" "length t \<le> 9" "digits_nat t * 10 ^ (9 - length t) = n" "digits_nat t < 2 ^ 32"
proof -
  obtain j where j: "pad 9 (dec n) = t @ replicate j 48" unfolding t_def using trim_zeros_split by blast
  have len: "length t + j = 9" using arg_cong [OF j, of length] pad_length [of 9 n] assms(2) by simp
  show d: "list_all is_ascii_digit t" using pad_digits [of 9 n] unfolding j by simp
  have "digits_nat t * 10 ^ j = n" using digits_nat_trailing [of t j] pad_value [of 9 n] j by simp
  moreover have "j = 9 - length t" using len by simp
  ultimately show v: "digits_nat t * 10 ^ (9 - length t) = n" by simp
  show "t \<noteq> []" using v assms(1) by (auto simp: digits_nat_def)
  show "length t \<le> 9" using len by simp
  then have "(10 :: nat) ^ length t \<le> 10 ^ 9" by (intro power_increasing) simp_all
  then show "digits_nat t < 2 ^ 32" using digits_bound [OF d] by simp
qed

lemma fraction_text_no_colon: "58 \<notin> set (fraction_text n)" "84 \<notin> set (fraction_text n)"
  "43 \<notin> set (fraction_text n)" "45 \<notin> set (fraction_text n)" "90 \<notin> set (fraction_text n)"
proof -
  have "set (trim_zeros (pad 9 (dec n))) \<subseteq> set (pad 9 (dec n))"
    using trim_zeros_split [of "pad 9 (dec n)"] by (metis Un_upper1 set_append)
  then show "58 \<notin> set (fraction_text n)" "84 \<notin> set (fraction_text n)" "43 \<notin> set (fraction_text n)"
    "45 \<notin> set (fraction_text n)" "90 \<notin> set (fraction_text n)"
    using printed_no_sep by (auto simp: fraction_text_def)
qed

lemma parse_second_printed:
  assumes "n < 1000000000"
  shows "parse_second (pad 2 (dec s) @ fraction_text n) = and_then (parse_two_digits (pad 2 (dec s)) ''Time second'') (\<lambda>s. Inr (s, n))"
proof (cases "n = 0")
  case True
  then show ?thesis using split_once_absent [of 46 "pad 2 (dec s)"] printed_no_sep by (simp add: parse_second_def fraction_text_def)
next
  case False
  then have "0 < n" by simp
  note f = fraction_digits [OF this assms]
  let ?t = "trim_zeros (pad 9 (dec n))"
  have "split_once 46 (pad 2 (dec s) @ fraction_text n) = Some (pad 2 (dec s), ?t)"
    using split_once_at [of 46 "pad 2 (dec s)" ?t] printed_no_sep False by (simp add: fraction_text_def)
  moreover have "parse_u32 ?t = Some (digits_nat ?t)" using f by (simp add: parse_u32_digits)
  ultimately show ?thesis using f by (simp add: parse_second_def vok_or_def)
qed

lemma parse_second_Inr:
  assumes "parse_second s = Inr (k, n)"
  shows "k < 100" "n < 1000000000"
proof -
  obtain a f where s: "(case split_once 46 s of None \<Rightarrow> (s, None) | Some (second, fraction) \<Rightarrow> (second, Some fraction)) = (a, f)"
    by (metis surj_pair)
  show "k < 100" using assms s parse_two_digits_Inr(1) by (auto simp: parse_second_def split: option.splits if_splits)
  show "n < 1000000000"
  proof (cases f)
    case (Some v)
    with assms s have v: "v \<noteq> []" "length v \<le> 9" "list_all is_ascii_digit v" "\<exists>p. parse_u32 v = Some p \<and> n = p * 10 ^ (9 - length v)"
      by (auto simp: parse_second_def vok_or_def split: if_splits option.splits)
    then have "n = digits_nat v * 10 ^ (9 - length v)" by (auto simp: parse_u32_digits split: if_splits)
    also have "\<dots> < 10 ^ length v * 10 ^ (9 - length v)" using digits_bound [OF v(3)] by simp
    also have "\<dots> = 1000000000" using v(2) by (simp flip: power_add)
    finally show ?thesis .
  qed (use assms s in \<open>auto simp: parse_second_def\<close>)
qed

section \<open>Local times\<close>

lemma clock_parts:
  assumes "58 \<notin> set f"
  shows "split_at_byte 58 (clock_text h m s @ f) = [pad 2 (dec h), pad 2 (dec m), pad 2 (dec s) @ f]"
  using assms printed_no_sep by (simp add: clock_text_def split_at_byte_at split_at_byte_absent)

lemma parse_local_time_printed:
  assumes "n < 1000000000"
  shows "parse_local_time (clock_text h m s @ fraction_text n) = Inr (t, c) \<longleftrightarrow>
    h < 24 \<and> m < 60 \<and> s < 60 \<and> t = (h * 3600 + m * 60 + s) * 1000000000 + n \<and> c = clock_text h m s @ fraction_text n"
  unfolding parse_local_time_def Let_def clock_parts [OF fraction_text_no_colon(1)]
  by (auto simp: parse_second_printed [OF assms] clock_value_def text_simps split: if_splits)

lemma time_fields:
  fixes h m s n :: nat
  assumes "m < 60" "s < 60" "n < 1000000000"
  defines "t \<equiv> (h * 3600 + m * 60 + s) * 1000000000 + n"
  shows "t div 3600000000000 = h" "t div 60000000000 mod 60 = m" "t div 1000000000 mod 60 = s" "t mod 1000000000 = n"
proof -
  have s': "t div 1000000000 = h * 3600 + m * 60 + s" using assms by (simp add: t_def)
  have m': "t div 60000000000 = (t div 1000000000) div 60" "t div 3600000000000 = (t div 1000000000) div 60 div 60"
    by (simp_all add: div_mult2_eq [symmetric])
  have m'': "(h * 3600 + m * 60 + s) div 60 = h * 60 + m"
  proof -
    have "h * 3600 + m * 60 + s = (h * 60 + m) * 60 + s" by simp
    then show ?thesis using assms(2) by simp
  qed
  show "t mod 1000000000 = n" unfolding t_def mod_mult_self3 using assms(3) by simp
  show "t div 1000000000 mod 60 = s"
  proof -
    have "h * 3600 + m * 60 + s = s + (h * 60 + m) * 60" by simp
    then show ?thesis unfolding s' using assms(2) by (simp only: mod_mult_self1) simp
  qed
  show "t div 60000000000 mod 60 = m" "t div 3600000000000 = h"
    using assms(1) by (simp_all add: m' s' m'')
qed

lemma time_unfold:
  fixes t :: nat
  shows "t = (t div 3600000000000 * 3600 + t div 60000000000 mod 60 * 60 + t div 1000000000 mod 60) * 1000000000 + t mod 1000000000"
proof -
  have "t div 60000000000 = (t div 1000000000) div 60" "t div 3600000000000 = (t div 1000000000) div 60 div 60"
    by (simp_all add: div_mult2_eq [symmetric])
  moreover have "q div 60 div 60 * 60 + q div 60 mod 60 = q div 60" "q div 60 * 60 + q mod 60 = q" for q :: nat by simp_all
  from this [of "t div 1000000000"]
  have "t div 1000000000 div 60 div 60 * 3600 + t div 1000000000 div 60 mod 60 * 60 + t div 1000000000 mod 60 = t div 1000000000" by linarith
  ultimately have "t div 3600000000000 * 3600 + t div 60000000000 mod 60 * 60 + t div 1000000000 mod 60 = t div 1000000000" by simp
  then show ?thesis by simp
qed

lemma format_local_time_fields:
  assumes "m < 60" "s < 60" "n < 1000000000"
  shows "format_local_time ((h * 3600 + m * 60 + s) * 1000000000 + n) = clock_text h m s @ fraction_text n"
  unfolding format_local_time_def Let_def time_fields [OF assms] ..

lemma parse_format_local_time:
  "parse_local_time (format_local_time t) = Inr (t', c) \<longleftrightarrow> t < day_nanos \<and> t' = t \<and> c = format_local_time t"
proof -
  let ?h = "t div 3600000000000" and ?m = "t div 60000000000 mod 60" and ?s = "t div 1000000000 mod 60" and ?n = "t mod 1000000000"
  have "?h < 24 \<longleftrightarrow> t < day_nanos" by (simp add: div_less_iff_less_mult)
  then show ?thesis
    using parse_local_time_printed [of ?n ?h ?m ?s t' c] time_unfold [of t] by (auto simp: format_local_time_def Let_def)
qed

lemma parse_local_time_Inr:
  assumes "parse_local_time s = Inr (t, c)"
  shows "t < day_nanos" "c = format_local_time t"
proof -
  have "\<exists>h m z r. parse_second z = Inr r \<and> clock_value h m r = Inr (t, c)"
    using assms by (auto simp: parse_local_time_def Let_def split: if_splits) blast
  then obtain h m sec n where z: "\<exists>z. parse_second z = Inr (sec, n)" "clock_value h m (sec, n) = Inr (t, c)" by (metis surj_pair)
  then have p: "h < 24" "m < 60" "sec < 60" "n < 1000000000"
    "t = (h * 3600 + m * 60 + sec) * 1000000000 + n" "c = clock_text h m sec @ fraction_text n"
    using parse_second_Inr(2) by (auto simp: clock_value_def split: if_splits)
  show "t < day_nanos" using p by simp
  show "c = format_local_time t" unfolding p(5,6) by (rule format_local_time_fields [OF p(2-4), symmetric])
qed

definition local_time_value :: "nat \<Rightarrow> LocalTimeValue" where
  "local_time_value t = \<lparr>lt_text = format_local_time t, lt_nanoseconds = t\<rparr>"

lemma local_time_parse_Inr:
  assumes "local_time_parse s = Inr v"
  shows "v = local_time_value (lt_nanoseconds v)" "lt_nanoseconds v < day_nanos"
  using assms parse_local_time_Inr by (auto simp: local_time_parse_def local_time_value_def split: prod.splits)

lemma local_time_parse_text: "local_time_parse (format_local_time t) = Inr v \<longleftrightarrow> t < day_nanos \<and> v = local_time_value t"
  by (auto simp: local_time_parse_def local_time_value_def parse_format_local_time split: prod.splits)

section \<open>Offsets\<close>

abbreviation (input) offset_range :: "int \<Rightarrow> bool" where "offset_range off \<equiv> - 64800 \<le> off \<and> off \<le> 64800"

lemma offset_fields_Inr:
  "parse_offset s = Inr off \<Longrightarrow> offset_range off"
proof -
  assume p: "parse_offset s = Inr off"
  show ?thesis
  proof (cases "s = [90]")
    case False
    with p obtain sg ds h m sec where *: "offset_sign s = Inr (sg, ds)" "\<not> (h > 18 \<or> m > 59 \<or> sec > 59 \<or> (h = 18 \<and> (m \<noteq> 0 \<or> sec \<noteq> 0)))"
      "off = sg * (int h * 3600 + int m * 60 + int sec)"
      by (auto simp: parse_offset_def invalid_offset_form_def split: if_splits)
    have "sg = 1 \<or> sg = - 1" using *(1) by (auto simp: offset_sign_def split: list.splits if_splits)
    moreover have "int h * 3600 + int m * 60 + int sec \<le> 64800" using *(2) by (cases "h = 18") auto
    ultimately show ?thesis using *(3) by auto
  qed (use p in \<open>simp add: parse_offset_def\<close>)
qed

lemma clock_text_plain: "clock_text h m s @ [] = clock_text h m s"
  by simp

lemma pad2_length: "n < 100 \<Longrightarrow> length (pad 2 (dec n)) = 2"
  using pad_length [of 2 n] by simp

lemma pad_ascii: "list_all (\<lambda>b. b < 128) (pad w (dec n))"
  using pad_digits [of w n] digit_not_sep by (auto simp: list_all_iff)

lemma offset_fields_printed:
  assumes "h < 100" "m < 100"
  shows "offset_fields (pad 2 (dec h) @ 58 # pad 2 (dec m)) = Inr (h, m, 0)"
    "s < 100 \<Longrightarrow> offset_fields (clock_text h m s) = Inr (h, m, s)"
proof -
  show "offset_fields (pad 2 (dec h) @ 58 # pad 2 (dec m)) = Inr (h, m, 0)"
    using assms printed_no_sep by (simp add: offset_fields_def split_at_byte_at split_at_byte_absent parse_two_digits_printed)
  show "offset_fields (clock_text h m s) = Inr (h, m, s)" if "s < 100"
    using assms that clock_parts [of "[]" h m s] by (simp add: offset_fields_def parse_two_digits_printed) (simp add: clock_text_def)
qed

text \<open>The sign and the digits of a printed offset.\<close>

definition offset_digits :: "nat \<Rightarrow> ustr" where
  "offset_digits a =
     (if a mod 60 = 0 then pad 2 (dec (a div 3600)) @ 58 # pad 2 (dec (a mod 3600 div 60))
      else clock_text (a div 3600) (a mod 3600 div 60) (a mod 60))"

definition sign_byte :: "int \<Rightarrow> byte" where
  "sign_byte off = (if off < 0 then 45 else 43)"

lemma format_offset_sign: "off \<noteq> 0 \<Longrightarrow> format_offset off = sign_byte off # offset_digits (nat \<bar>off\<bar>)"
  by (simp add: format_offset_def offset_digits_def sign_byte_def Let_def)

lemma seconds_fields: "(a :: nat) div 3600 * 3600 + a mod 3600 div 60 * 60 + a mod 60 = a"
proof -
  have "a mod 3600 mod 60 = a mod 60" by (rule mod_mod_cancel) simp
  moreover have "a div 3600 * 3600 + a mod 3600 = a" "a mod 3600 div 60 * 60 + a mod 3600 mod 60 = a mod 3600"
    by (rule div_mult_mod_eq)+
  ultimately show ?thesis by linarith
qed

lemma seconds_bounds: "(a :: nat) mod 3600 div 60 < 60" "a mod 60 < 60"
  by (simp_all add: div_less_iff_less_mult)

lemma offset_digits_facts:
  assumes "a \<le> 64800"
  shows "offset_fields (offset_digits a) = Inr (a div 3600, a mod 3600 div 60, a mod 60)"
    "length (offset_digits a) \<le> 8" "list_all (\<lambda>b. b < 128) (offset_digits a)"
proof -
  have h: "a div 3600 < 100" using assms by (simp add: div_less_iff_less_mult)
  show "offset_fields (offset_digits a) = Inr (a div 3600, a mod 3600 div 60, a mod 60)"
    using h seconds_bounds [of a] offset_fields_printed(1) [of "a div 3600" "a mod 3600 div 60"]
      offset_fields_printed(2) [of "a div 3600" "a mod 3600 div 60" "a mod 60"] by (simp add: offset_digits_def)
  show "length (offset_digits a) \<le> 8" using h seconds_bounds [of a] by (simp add: offset_digits_def clock_text_def pad2_length)
  show "list_all (\<lambda>b. b < 128) (offset_digits a)" using pad_ascii by (simp add: offset_digits_def clock_text_def)
qed

lemma offset_digits_plain: "43 \<notin> set (offset_digits a)" "45 \<notin> set (offset_digits a)" "90 \<notin> set (offset_digits a)" "offset_digits a \<noteq> []"
  using printed_no_sep by (auto simp: offset_digits_def clock_text_def)

lemma parse_format_offset:
  assumes "offset_range off"
  shows "parse_offset (format_offset off) = Inr off"
proof (cases "off = 0")
  case True
  then show ?thesis by (simp add: format_offset_def parse_offset_def)
next
  case False
  define a where "a = nat \<bar>off\<bar>"
  have a: "a \<le> 64800" using assms by (simp add: a_def nat_le_iff abs_le_iff)
  note f = offset_digits_facts [OF a]
  define h m s where "h = a div 3600" and "m = a mod 3600 div 60" and "s = a mod 60"
  have sum: "h * 3600 + m * 60 + s = a" "m < 60" "s < 60" using seconds_fields [of a] seconds_bounds [of a] by (simp_all add: h_def m_def s_def)
  have ok: "\<not> (h > 18 \<or> m > 59 \<or> s > 59 \<or> (h = 18 \<and> (m \<noteq> 0 \<or> s \<noteq> 0)))" using sum a by auto
  have sign: "offset_sign (sign_byte off # offset_digits a) = Inr (if off < 0 then - 1 else 1, offset_digits a)"
    by (simp add: offset_sign_def sign_byte_def)
  have "sign_byte off < 128" "sign_byte off \<noteq> 90" by (simp_all add: sign_byte_def)
  then have "parse_offset (sign_byte off # offset_digits a) = Inr ((if off < 0 then - 1 else 1) * (int h * 3600 + int m * 60 + int s))"
    using f ok by (simp add: parse_offset_def sign h_def [symmetric] m_def [symmetric] s_def [symmetric])
  also have "int h * 3600 + int m * 60 + int s = int a" using arg_cong [OF sum(1), of int] by simp
  finally show ?thesis using False by (simp add: format_offset_sign a_def [symmetric]) (simp add: a_def)
qed

section \<open>Zoned times\<close>

lemma no_sign_text: "43 \<notin> set (clock_text h m s)" "45 \<notin> set (clock_text h m s)" "90 \<notin> set (clock_text h m s)" "84 \<notin> set (clock_text h m s)"
  using printed_no_sep by (auto simp: clock_text_def)

lemma split_offset_printed:
  assumes "l \<noteq> []"
  shows "split_time_offset (l @ format_offset off) = Inr (l, format_offset off)"
proof (cases "off = 0")
  case True
  then show ?thesis by (simp add: split_time_offset_def format_offset_def)
next
  case False
  define d where "d = offset_digits (nat \<bar>off\<bar>)"
  note d = offset_digits_plain [of "nat \<bar>off\<bar>", folded d_def]
  have "\<forall>b \<in> set (rev d). \<not> (b = 43 \<or> b = 45)" using d(1,2) by auto
  moreover have "sign_byte off = 43 \<or> sign_byte off = 45" by (simp add: sign_byte_def)
  ultimately have tw: "takeWhile (\<lambda>b. \<not> (b = 43 \<or> b = 45)) (rev d @ sign_byte off # rev l) = rev d"
    by (subst takeWhile_append2) auto
  have "last (l @ sign_byte off # d) \<in> set d" using d(4) by (cases d) auto
  then have "last (l @ sign_byte off # d) \<noteq> 90" using d(3) by metis
  moreover have "format_offset off = sign_byte off # d" using False by (simp add: format_offset_sign d_def)
  ultimately show ?thesis using assms tw by (simp add: split_time_offset_def)
qed

definition time_value_of :: "nat \<Rightarrow> int \<Rightarrow> TimeValue" where
  "time_value_of t off = \<lparr>time_text = format_local_time t @ format_offset off, time_local_nanoseconds = t, time_offset_seconds = off\<rparr>"

lemma clock_length: "h < 100 \<Longrightarrow> m < 100 \<Longrightarrow> s < 100 \<Longrightarrow> length (clock_text h m s) = 8"
  by (simp add: clock_text_def pad2_length)

lemma fraction_length: "n < 1000000000 \<Longrightarrow> length (fraction_text n) \<le> 10"
  using fraction_digits(3) [of n] by (simp add: fraction_text_def)

lemma time_text_length:
  assumes "t < day_nanos" "offset_range off"
  shows "length (format_local_time t @ format_offset off) \<le> 27"
proof -
  have "t div 3600000000000 < 100" using assms(1) by (simp add: div_less_iff_less_mult)
  then have "length (format_local_time t) \<le> 18"
    using fraction_length [of "t mod 1000000000"] by (simp add: format_local_time_def Let_def clock_length less_imp_le)
  moreover have "length (format_offset off) \<le> 9"
    using assms(2) offset_digits_facts(2) [of "nat \<bar>off\<bar>"]
    by (cases "off = 0") (simp_all add: format_offset_sign nat_le_iff abs_le_iff, simp add: format_offset_def)
  ultimately show ?thesis by simp
qed

lemma time_parse_text:
  assumes "t < day_nanos" "offset_range off"
  shows "time_parse (format_local_time t @ format_offset off) = Inr (time_value_of t off)"
proof -
  have "parse_local_time (format_local_time t) = Inr (t, format_local_time t)" using assms(1) by (simp add: parse_format_local_time)
  moreover have "format_local_time t \<noteq> []" by (simp add: format_local_time_def Let_def clock_text_def)
  ultimately show ?thesis
    using time_text_length [OF assms] by (simp add: time_parse_def split_offset_printed parse_format_offset [OF assms(2)] time_value_of_def)
qed

lemma time_parse_Inr:
  assumes "time_parse s = Inr v"
  shows "v = time_value_of (time_local_nanoseconds v) (time_offset_seconds v)" "time_local_nanoseconds v < day_nanos"
    "offset_range (time_offset_seconds v)"
proof -
  obtain a b t c off where *: "parse_local_time a = Inr (t, c)" "parse_offset b = Inr off"
    "v = \<lparr>time_text = c @ format_offset off, time_local_nanoseconds = t, time_offset_seconds = off\<rparr>"
    using assms by (auto simp: time_parse_def split: if_splits)
  note t = parse_local_time_Inr [OF *(1)] and off = offset_fields_Inr [OF *(2)]
  show "v = time_value_of (time_local_nanoseconds v) (time_offset_seconds v)" "time_local_nanoseconds v < day_nanos"
    "offset_range (time_offset_seconds v)"
    using t off by (simp_all add: *(3) time_value_of_def)
qed

section \<open>Local date-times\<close>

definition local_datetime_value_of :: "DateValue \<Rightarrow> nat \<Rightarrow> LocalDateTimeValue" where
  "local_datetime_value_of d t = \<lparr>ldt_text = date_text d @ 84 # format_local_time t, ldt_days = date_days d, ldt_nanoseconds = t\<rparr>"

lemma date_text_no_T: "84 \<notin> set (year_text y @ month_day_text m d)" "84 \<notin> set (plain_year_text y @ month_day_text m d)"
  using printed_no_sep by (auto simp: year_text_def plain_year_text_def month_day_text_def dec_int_def)

lemma local_datetime_parse_text:
  assumes "84 \<notin> set ds"
  shows "local_datetime_parse (ds @ 84 # format_local_time t) = and_then (date_parse ds) (\<lambda>d. and_then (local_time_parse (format_local_time t)) (\<lambda>v.
    Inr (local_datetime_value_of d (lt_nanoseconds v))))"
proof -
  have "lt_text v = format_local_time (lt_nanoseconds v)" if "local_time_parse s = Inr v" for s v
    using local_time_parse_Inr(1) [OF that] by (metis LocalTimeValue.select_convs(1) local_time_value_def)
  then show ?thesis
    unfolding local_datetime_parse_def split_once_at [OF assms] vok_or_def local_datetime_value_of_def
    by (auto intro!: and_then_cong)
qed

lemma local_datetime_parse_Inr:
  assumes "local_datetime_parse s = Inr v"
  obtains y m d where "valid_date y m d" "\<bar>y\<bar> \<le> 999999999" "v = local_datetime_value_of (date_value y m d) (ldt_nanoseconds v)"
    "ldt_nanoseconds v < day_nanos"
proof -
  obtain a b d t where *: "date_parse a = Inr d" "local_time_parse b = Inr t"
    "v = \<lparr>ldt_text = date_text d @ 84 # lt_text t, ldt_days = date_days d, ldt_nanoseconds = lt_nanoseconds t\<rparr>"
    using assms by (auto simp: local_datetime_parse_def)
  obtain y m dd where d: "valid_date y m dd" "\<bar>y\<bar> \<le> 999999999" "d = date_value y m dd" by (rule date_parse_Inr [OF *(1)])
  have t: "t = local_time_value (lt_nanoseconds t)" "lt_nanoseconds t < day_nanos" by (rule local_time_parse_Inr [OF *(2)])+
  have "lt_text t = format_local_time (lt_nanoseconds t)" by (subst t(1)) (simp add: local_time_value_def)
  then show ?thesis using that [OF d(1,2)] t(2) d(3) by (simp add: *(3) local_datetime_value_of_def)
qed

lemma local_datetime_from_components_value:
  assumes "valid_date y m d" "\<bar>y\<bar> \<le> 999999999" "t < day_nanos"
  shows "local_datetime_from_components (days_from_civil y m d) t =
    (if -1000 < y \<and> y < 0 then Inl (ValueError ''Date year must contain at least four digits'')
     else Inr (local_datetime_value_of (date_value y m d) t))"
proof -
  have "civil_from_days (days_from_civil y m d) = (y, m, d)"
    by (rule civil_from_days_of [OF assms(1) date_civil_range [OF assms(1,2)]])
  then have ft: "format_date_from_days (days_from_civil y m d) = plain_year_text y @ month_day_text m d"
    by (simp add: format_date_from_days_year)
  have "local_time_parse (format_local_time t) = Inr (local_time_value t)" using assms(3) by (simp add: local_time_parse_text)
  then show ?thesis
    using date_from_days_value [OF assms(1,2)]
    unfolding local_datetime_from_components_def ft local_datetime_parse_text [OF date_text_no_T(2)] date_from_days_def
    by (auto simp: local_time_value_def)
qed

lemma local_datetime_reparse:
  assumes "local_datetime_parse s = Inr v"
  shows "local_datetime_parse (ldt_text v) = Inr v"
proof -
  obtain y m d where *: "valid_date y m d" "\<bar>y\<bar> \<le> 999999999" "v = local_datetime_value_of (date_value y m d) (ldt_nanoseconds v)"
    "ldt_nanoseconds v < day_nanos" by (rule local_datetime_parse_Inr [OF assms])
  have "ldt_text v = (year_text y @ month_day_text m d) @ 84 # format_local_time (ldt_nanoseconds v)"
    by (subst *(3)) (simp add: local_datetime_value_of_def date_value_def format_date_year)
  moreover have "date_parse (year_text y @ month_day_text m d) = Inr (date_value y m d)"
    using *(1,2) date_from_components_iff [of y m d] by (simp add: date_from_components_def format_date_year)
  ultimately show ?thesis
    using *(3,4) by (simp add: local_datetime_parse_text [OF date_text_no_T(1)] local_time_parse_text local_time_value_def del: append.simps append_assoc) 
qed

end
