(* ===== verification/Zoned.thy ===== *)
theory Zoned
  imports Time_Laws
begin

text \<open>
  Zoned date-times (\<^verbatim>\<open>ZonedDateTimeValue\<close> in \<^verbatim>\<open>cypher/temporal_datetime.rs\<close>, \<^verbatim>\<open>validate_zone_id\<close> in \<^verbatim>\<open>cypher/temporal.rs\<close>). The
  rules of the IANA zones belong to the crates \<^verbatim>\<open>chrono\<close> and \<^verbatim>\<open>chrono_tz\<close>: the record \<open>chrono\<close> stands for them, and a theorem
  that needs a law of theirs names it.
\<close>

section \<open>The time zone crates\<close>

text \<open>
  \<^item> \<open>tz_known\<close>: \<^verbatim>\<open>zone.parse::<Tz>()\<close> succeeds;
  \<^item> \<open>tz_timestamp\<close>: \<^verbatim>\<open>Utc.timestamp_opt(seconds, nanoseconds).single()\<close> is a value;
  \<^item> \<open>tz_offset\<close>: the offset of a zone at an instant, in seconds;
  \<^item> \<open>tz_local_ok\<close>: \<^verbatim>\<open>NaiveDate::from_ymd_opt\<close> has the day;
  \<^item> \<open>tz_from_local\<close>: \<^verbatim>\<open>from_local_datetime\<close> of a day and a time, as instants in nanoseconds with their offsets.
\<close>

datatype local_result = LocalSingle "int \<times> i32" | LocalAmbiguous "int \<times> i32" "int \<times> i32" | LocalNone

record chrono =
  tz_known :: "ustr \<Rightarrow> bool"
  tz_timestamp :: "i64 \<Rightarrow> nat \<Rightarrow> bool"
  tz_offset :: "ustr \<Rightarrow> i64 \<Rightarrow> nat \<Rightarrow> i32"
  tz_local_ok :: "int \<times> nat \<times> nat \<Rightarrow> bool"
  tz_from_local :: "ustr \<Rightarrow> int \<Rightarrow> nat \<Rightarrow> local_result"

section \<open>Zones\<close>

definition is_ascii_alphanumeric :: "byte \<Rightarrow> bool" where
  "is_ascii_alphanumeric b \<longleftrightarrow> is_ascii_digit b \<or> between 65 90 b \<or> between 97 122 b"

definition zone_part_ok :: "ustr \<Rightarrow> bool" where
  "zone_part_ok part \<longleftrightarrow> part \<noteq> [] \<and> part \<noteq> ascii ''.'' \<and> part \<noteq> ascii ''..''
     \<and> list_all (\<lambda>b. is_ascii_alphanumeric b \<or> b = 95 \<or> b = 45 \<or> b = 43 \<or> b = 46) part"

definition validate_zone_id :: "chrono \<Rightarrow> ustr \<Rightarrow> i32 option vres" where
  "validate_zone_id tz zone =
     (if zone = [90] then Inr (Some 0)
      else if zone \<noteq> [] \<and> (hd zone = 43 \<or> hd zone = 45) then and_then (parse_offset zone) (\<lambda>off. Inr (Some off))
      else if zone \<in> {ascii ''UTC'', ascii ''GMT'', ascii ''GMT0''} then Inr (Some 0)
      else if zone = [] \<or> hd zone = 47 \<or> last zone = 47 \<or> \<not> list_all zone_part_ok (split_at_byte 47 zone)
           then Inl (ValueError ''ZonedDateTime zone id has invalid syntax'')
      else if tz_known tz zone then Inr None
      else Inl (ValueError ''ZonedDateTime zone id is not a recognized IANA zone''))"

definition in_i128 :: "int \<Rightarrow> bool" where
  "in_i128 v \<longleftrightarrow> - (2 ^ 127) \<le> v \<and> v < 2 ^ 127"

definition named_zone_offset :: "chrono \<Rightarrow> ustr \<Rightarrow> int \<Rightarrow> i32 vres" where
  "named_zone_offset tz zone instant =
     (if \<not> tz_known tz zone then Inl (ValueError ''ZonedDateTime zone id is not a recognized IANA zone'')
      else let seconds = instant div 1000000000; nanoseconds = nat (instant mod 1000000000) in
        if \<not> in_i64 seconds then Inl (ValueError ''ZonedDateTime is outside the IANA timezone range'')
        else if \<not> tz_timestamp tz seconds nanoseconds then Inl (ValueError ''ZonedDateTime is outside the IANA timezone range'')
        else Inr (tz_offset tz zone seconds nanoseconds))"

definition zone_offset :: "chrono \<Rightarrow> ustr \<Rightarrow> int \<Rightarrow> i32 vres" where
  "zone_offset tz zone instant =
     and_then (validate_zone_id tz zone) (\<lambda>fixed.
       case fixed of Some off \<Rightarrow> Inr off | None \<Rightarrow> named_zone_offset tz zone instant)"

section \<open>Values\<close>

record ZonedDateTime =
  zdt_value :: ustr
  zdt_zone :: ustr
  zdt_instant :: int
  zdt_offset :: i32

definition zoned_parse :: "chrono \<Rightarrow> ustr \<Rightarrow> ustr \<Rightarrow> ZonedDateTime vres" where
  "zoned_parse tz value zone =
     and_then (vok_or (split_once 84 value) ''ZonedDateTime must contain a date and time separated by T'') (\<lambda>(date_part, time_part).
     and_then (date_parse date_part) (\<lambda>date.
     and_then (time_parse time_part) (\<lambda>time.
       let instant = date_days date * 86400000000000 + time_instant_key time in
       and_then (zone_offset tz zone instant) (\<lambda>expected.
         if expected \<noteq> time_offset_seconds time then Inl (ValueError ''ZonedDateTime zone rules do not match the value UTC offset'')
         else Inr \<lparr>zdt_value = date_text date @ 84 # time_text time, zdt_zone = zone, zdt_instant = instant,
                   zdt_offset = time_offset_seconds time\<rparr>))))"

definition local_components :: "int \<Rightarrow> i32 \<Rightarrow> (i64 \<times> nat) vres" where
  "local_components instant off =
     (let local = instant + off * 1000000000 in
      if \<not> in_i128 local then Inl (ValueError ''ZonedDateTime local value overflow'')
      else let days = local div 86400000000000 in
        if \<not> in_i64 days then Inl (ValueError ''ZonedDateTime exceeds the Cypher date range'')
        else Inr (days, nat (local mod 86400000000000)))"

definition zoned_from_instant :: "chrono \<Rightarrow> int \<Rightarrow> ustr \<Rightarrow> ZonedDateTime vres" where
  "zoned_from_instant tz instant zone =
     and_then (zone_offset tz zone instant) (\<lambda>off.
     and_then (local_components instant off) (\<lambda>(days, nanoseconds).
       zoned_parse tz (format_date_from_days days @ 84 # format_local_time nanoseconds @ format_offset off) zone))"

definition zoned_from_local :: "chrono \<Rightarrow> i64 \<Rightarrow> nat \<Rightarrow> ustr \<Rightarrow> i32 option \<Rightarrow> ZonedDateTime vres" where
  "zoned_from_local tz days nanoseconds zone preferred =
     (if nanoseconds \<ge> 86400000000000 then Inl (ValueError ''ZonedDateTime local nanoseconds exceed one day'')
      else and_then (validate_zone_id tz zone) (\<lambda>fixed.
        case fixed of
          Some off \<Rightarrow> zoned_from_instant tz (days * 86400000000000 + int nanoseconds - off * 1000000000) zone
        | None \<Rightarrow>
            if \<not> tz_known tz zone then Inl (ValueError ''ZonedDateTime zone id is not a recognized IANA zone'')
            else let (year, month, day) = civil_from_days days in
              if \<not> in_i32 year then Inl (ValueError ''ZonedDateTime is outside the IANA timezone range'')
              else if \<not> tz_local_ok tz (year, month, day) then Inl (ValueError ''ZonedDateTime local date is invalid'')
              else (case tz_from_local tz zone days nanoseconds of
                      LocalSingle (instant, _) \<Rightarrow> zoned_from_instant tz instant zone
                    | LocalAmbiguous first second \<Rightarrow>
                        let selected = (case preferred of
                              None \<Rightarrow> first
                            | Some p \<Rightarrow> if snd first = p then first else if snd second = p then second else first) in
                        zoned_from_instant tz (fst selected) zone
                    | LocalNone \<Rightarrow> Inl (ValueError ''ZonedDateTime local value falls in a timezone transition gap''))))"

definition zoned_comparison_key :: "ZonedDateTime \<Rightarrow> int \<times> i32 \<times> ustr" where
  "zoned_comparison_key z = (zdt_instant z, zdt_offset z, zdt_zone z)"

definition zoned_storage_components :: "ZonedDateTime \<Rightarrow> (i64 \<times> nat \<times> ustr) vres" where
  "zoned_storage_components z =
     (let seconds = zdt_instant z div 1000000000; nanoseconds = zdt_instant z mod 1000000000 in
      if \<not> in_i64 seconds then Inl (ValueError ''ZonedDateTime exceeds the persistent value range'')
      else Inr (seconds, nat nanoseconds, zdt_zone z))"

section \<open>Laws\<close>

text \<open>The offset that a value is checked against is the one of its zone at its instant, so it can be rebuilt from the two.\<close>

definition zoned_value_of :: "DateValue \<Rightarrow> nat \<Rightarrow> int \<Rightarrow> ustr \<Rightarrow> ZonedDateTime" where
  "zoned_value_of d t off zone =
     \<lparr>zdt_value = date_text d @ 84 # format_local_time t @ format_offset off, zdt_zone = zone,
      zdt_instant = date_days d * 86400000000000 + int t - off * 1000000000, zdt_offset = off\<rparr>"

lemma zoned_value_simps [simp]:
  "zdt_zone (zoned_value_of d t off zone) = zone" "zdt_offset (zoned_value_of d t off zone) = off"
  "zdt_instant (zoned_value_of d t off zone) = date_days d * 86400000000000 + int t - off * 1000000000"
  by (simp_all add: zoned_value_of_def)

lemma zoned_parse_Inr:
  assumes "zoned_parse tz s zone = Inr v"
  obtains y m d t off where "valid_date y m d" "\<bar>y\<bar> \<le> 999999999" "t < day_nanos" "offset_range off"
    "v = zoned_value_of (date_value y m d) t off zone" "zone_offset tz zone (zdt_instant v) = Inr off"
proof -
  obtain a b d t where *: "date_parse a = Inr d" "time_parse b = Inr t"
    "zone_offset tz zone (date_days d * 86400000000000 + time_instant_key t) = Inr (time_offset_seconds t)"
    "v = \<lparr>zdt_value = date_text d @ 84 # time_text t, zdt_zone = zone,
          zdt_instant = date_days d * 86400000000000 + time_instant_key t, zdt_offset = time_offset_seconds t\<rparr>"
    using assms by (auto simp: zoned_parse_def Let_def split: if_splits)
  obtain y m dd where d: "valid_date y m dd" "\<bar>y\<bar> \<le> 999999999" "d = date_value y m dd" by (rule date_parse_Inr [OF *(1)])
  define n off where "n = time_local_nanoseconds t" and "off = time_offset_seconds t"
  have t: "t = time_value_of n off" "n < day_nanos" "offset_range off"
    using time_parse_Inr [OF *(2)] by (simp_all add: n_def off_def)
  have v: "v = zoned_value_of (date_value y m dd) n off zone"
    unfolding *(4) t(1) d(3) zoned_value_of_def by (simp add: time_value_of_def time_instant_key_def)
  moreover have "zone_offset tz zone (zdt_instant v) = Inr off" using *(3,4) by (simp add: off_def)
  ultimately show ?thesis using that [OF d(1,2) t(2,3)] by blast
qed

lemma zoned_parse_text:
  assumes "84 \<notin> set ds" "t < day_nanos" "offset_range off"
  shows "zoned_parse tz (ds @ 84 # format_local_time t @ format_offset off) zone =
    and_then (date_parse ds) (\<lambda>d. and_then (zone_offset tz zone (date_days d * 86400000000000 + int t - off * 1000000000)) (\<lambda>expected.
      if expected \<noteq> off then Inl (ValueError ''ZonedDateTime zone rules do not match the value UTC offset'')
      else Inr (zoned_value_of d t off zone)))"
  unfolding zoned_parse_def split_once_at [OF assms(1)] vok_or_def
  by (auto simp: time_parse_text [OF assms(2,3)] time_value_of_def time_instant_key_def zoned_value_of_def Let_def algebra_simps
      intro!: and_then_cong)

lemma days_bound: "valid_date y m d \<Longrightarrow> \<bar>y\<bar> \<le> 999999999 \<Longrightarrow> \<bar>days_from_civil y m d\<bar> \<le> 400000000000"
proof -
  assume v: "valid_date y m d" "\<bar>y\<bar> \<le> 999999999"
  then have m: "1 \<le> m" "m \<le> 12" "d \<le> 31" using days_in_month_28 [of m y] by (auto simp: valid_date_def)
  have "0 \<le> month_days m" "month_days m \<le> 400" using month_cases [OF m(1,2)] by (auto simp: month_days_def)
  moreover have "\<bar>march_year y m\<bar> \<le> 1000000000" using v(2) unfolding march_year_def by (cases "m \<le> 2"; simp; linarith)
  ultimately show ?thesis
    using year_days_bounds [of "march_year y m"] m(3) unfolding days_from_civil_eq [OF m(1,2)] by linarith
qed

lemma local_components_value:
  assumes "\<bar>days\<bar> \<le> 400000000000" "t < day_nanos"
  shows "local_components (days * 86400000000000 + int t - off * 1000000000) off = Inr (days, t)"
proof -
  let ?l = "days * 86400000000000 + int t"
  have l: "days * 86400000000000 + int t - off * 1000000000 + off * 1000000000 = ?l" by simp
  have t: "int t < 86400000000000" using assms(2) by simp
  have "?l div 86400000000000 = days" "?l mod 86400000000000 = int t" using t by simp_all
  moreover have "\<bar>?l\<bar> \<le> 400000000001 * 86400000000000" using assms(1) t by linarith
  then have "in_i128 ?l" by (simp add: in_i128_def abs_le_iff)
  moreover have "in_i64 days" using assms(1) by (simp add: in_i64_def abs_le_iff)
  ultimately show ?thesis unfolding local_components_def Let_def l by simp
qed

lemma zoned_from_instant_value:
  assumes "valid_date y m d" "\<bar>y\<bar> \<le> 999999999" "t < day_nanos" "offset_range off"
    and v: "v = zoned_value_of (date_value y m d) t off zone" and z: "zone_offset tz zone (zdt_instant v) = Inr off"
  shows "zoned_from_instant tz (zdt_instant v) zone =
    (if -1000 < y \<and> y < 0 then Inl (ValueError ''Date year must contain at least four digits'') else Inr v)"
proof -
  let ?days = "days_from_civil y m d"
  have instant: "zdt_instant v = ?days * 86400000000000 + int t - off * 1000000000" by (simp add: v date_value_def)
  have civil: "civil_from_days ?days = (y, m, d)" by (rule civil_from_days_of [OF assms(1) date_civil_range [OF assms(1,2)]])
  then have ft: "format_date_from_days ?days = plain_year_text y @ month_day_text m d" by (simp add: format_date_from_days_year)
  have dp: "date_parse (plain_year_text y @ month_day_text m d) =
      (if -1000 < y \<and> y < 0 then Inl (ValueError ''Date year must contain at least four digits'') else Inr (date_value y m d))"
    using date_from_days_value [OF assms(1,2)] by (simp add: date_from_days_def ft)
  have "zoned_from_instant tz (zdt_instant v) zone = zoned_parse tz ((plain_year_text y @ month_day_text m d) @ 84 # format_local_time t @ format_offset off) zone"
    by (simp add: zoned_from_instant_def z instant local_components_value [OF days_bound [OF assms(1,2)] assms(3)] ft [symmetric])
      (simp add: z [unfolded instant] local_components_value [OF days_bound [OF assms(1,2)] assms(3)])
  also have "\<dots> = (if -1000 < y \<and> y < 0 then Inl (ValueError ''Date year must contain at least four digits'') else Inr v)"
    unfolding zoned_parse_text [OF date_text_no_T(2) assms(3,4)] dp
    using z by (simp add: instant v date_value_def)
  finally show ?thesis .
qed

lemma zoned_reparse:
  assumes "zoned_parse tz s zone = Inr v"
  shows "zoned_parse tz (zdt_value v) zone = Inr v"
proof -
  obtain y m d t off where *: "valid_date y m d" "\<bar>y\<bar> \<le> 999999999" "t < day_nanos" "offset_range off"
    "v = zoned_value_of (date_value y m d) t off zone" "zone_offset tz zone (zdt_instant v) = Inr off"
    by (rule zoned_parse_Inr [OF assms])
  have "zdt_value v = (year_text y @ month_day_text m d) @ 84 # format_local_time t @ format_offset off"
    unfolding *(5) by (simp add: zoned_value_of_def date_value_def format_date_year)
  moreover have "date_parse (year_text y @ month_day_text m d) = Inr (date_value y m d)"
    using *(1,2) date_from_components_iff [of y m d] by (simp add: date_from_components_def format_date_year)
  ultimately show ?thesis using zoned_parse_text [OF date_text_no_T(1) *(3,4)] *(5,6) by simp
qed

end
