(* ===== verification/Float_Bits.thy ===== *)
theory Float_Bits
  imports Encoding "HOL-Library.Signed_Division"
begin

text \<open>
  The floats of the query values (\<^verbatim>\<open>f64\<close>, \<^verbatim>\<open>f32\<close>) as their IEEE bits, read exactly: every finite double is an integer multiple of
  \<open>2 ^ -1074\<close>, so a number is kept as that integer, and the infinities lie beyond all of them. Comparisons, truncation and the
  widening of \<^verbatim>\<open>f32\<close> are exact on these integers; sums are rounded to the nearest double, ties to even.
\<close>

section \<open>Reading\<close>

definition f64_unit :: int where
  "f64_unit = 2 ^ 1074"

definition float_scaled :: "bool \<Rightarrow> nat \<Rightarrow> nat \<Rightarrow> nat \<Rightarrow> int" where
  "float_scaled negative mantissa_bits e m =
     (let v = int ((if e = 0 then m else 2 ^ mantissa_bits + m) * 2 ^ (max e 1 - 1)) in if negative then - v else v)"

definition f64_exponent :: "u64 \<Rightarrow> nat" where
  "f64_exponent b = unat (drop_bit 52 b AND 0x7ff)"

definition f64_scaled :: "u64 \<Rightarrow> int" where
  "f64_scaled b = float_scaled (bit b 63) 52 (f64_exponent b) (unat (b AND 0x000fffffffffffff))"

definition f32_scaled :: "u32 \<Rightarrow> int" where
  "f32_scaled b = float_scaled (bit b 31) 23 (unat (drop_bit 23 b AND 0xff)) (unat (b AND 0x007fffff)) * 2 ^ 925"

definition f64_is_finite :: "u64 \<Rightarrow> bool" where
  "f64_is_finite b \<longleftrightarrow> f64_exponent b \<noteq> 0x7ff"

definition f32_is_finite :: "u32 \<Rightarrow> bool" where
  "f32_is_finite b \<longleftrightarrow> unat (drop_bit 23 b AND 0xff) \<noteq> 0xff"

text \<open>A number as the comparisons see it: \<open>None\<close> is a NaN.\<close>

type_synonym number = "int option"

definition f64_number :: "u64 \<Rightarrow> number" where
  "f64_number b = (if f64_is_nan b then None else Some (f64_scaled b))"

text \<open>\<^verbatim>\<open>f64::from(f32)\<close> keeps the number.\<close>

definition f32_number :: "u32 \<Rightarrow> number" where
  "f32_number b = (if f32_is_nan b then None else Some (f32_scaled b))"

text \<open>\<^verbatim>\<open>f64::INFINITY\<close>.\<close>

definition f64_infinity :: int where
  "f64_infinity = 2 ^ 52 * 2 ^ 2046"

section \<open>Writing\<close>

fun bit_length :: "nat \<Rightarrow> nat" where
  "bit_length n = (if n = 0 then 0 else Suc (bit_length (n div 2)))"

declare bit_length.simps [simp del]

definition round_even :: "nat \<Rightarrow> nat \<Rightarrow> nat" where
  "round_even n shift =
     (let q = n div 2 ^ shift; r = n mod 2 ^ shift; half = 2 ^ shift in
      if 2 * r < half \<or> (2 * r = half \<and> even q) then q else q + 1)"

text \<open>The double nearest to a multiple of the unit.\<close>

definition f64_of_scaled :: "int \<Rightarrow> u64" where
  "f64_of_scaled v =
     (let n = nat \<bar>v\<bar>;
          shift = bit_length n - 53;
          q = (if shift = 0 then n else round_even n shift);
          (q, shift) = (if q = 2 ^ 53 then (2 ^ 52, shift + 1) else (q, shift));
          magnitude = (if q < 2 ^ 52 then of_nat q
                       else if shift + 1 \<ge> 0x7ff then 0x7ff0000000000000
                       else push_bit 52 (of_nat (shift + 1)) OR (of_nat q AND 0x000fffffffffffff)) in
      if v < 0 then magnitude OR 0x8000000000000000 else magnitude)"

definition f64_add :: "u64 \<Rightarrow> u64 \<Rightarrow> u64" where
  "f64_add a b = f64_of_scaled (f64_scaled a + f64_scaled b)"

text \<open>\<^verbatim>\<open>f64::rem_euclid\<close> of finite numbers: the exact remainder, moved up by the divisor when it is negative.\<close>

definition f64_rem_euclid :: "u64 \<Rightarrow> u64 \<Rightarrow> u64" where
  "f64_rem_euclid a b =
     (let r = f64_scaled a smod f64_scaled b in
      f64_of_scaled (if r < 0 then r + \<bar>f64_scaled b\<bar> else r))"

end
