(* ===== verification/Cypher_Value.thy ===== *)
theory Cypher_Value
  imports Zoned Float_Bits Value
begin

text \<open>
  Runtime values of the query language (\<^verbatim>\<open>cypher/value.rs\<close>, \<^verbatim>\<open>cypher/uuid.rs\<close>), their three-valued equality, the comparison
  operators, and the total order of \<^verbatim>\<open>ORDER BY\<close> (\<^verbatim>\<open>cypher/value_order.rs\<close>).

  A \<^verbatim>\<open>BTreeMap\<close> is its entries in key order; a float is its bits; a \<^verbatim>\<open>match\<close> arm that the source proves unreachable is an error.
\<close>

section \<open>Values\<close>

record PointData =
  pt_crs :: ustr
  pt_srid :: u32
  pt_coordinates :: "u64 list"

datatype VectorValues =
    VI8 "int list" | VI16 "int list" | VI32 "int list" | VI64 "int list" | VF32 "u32 list" | VF64 "u64 list"

record VectorData =
  vec_type :: VectorCoordinateType
  vec_values :: VectorValues

datatype CypherValue =
    CNull
  | CBoolean bool
  | CInteger i64
  | CFloat u64
  | CString ustr
  | CList "CypherValue list"
  | CMap "(ustr \<times> CypherValue) list"
  | CNode NodeValue
  | CRelationship RelationshipValue
  | CPath PathValue
  | CDate DateValue
  | CLocalTime LocalTimeValue
  | CTime TimeValue
  | CLocalDateTime LocalDateTimeValue
  | CZonedDateTime ZonedDateTime
  | CDuration DurationValue
  | CPoint PointData
  | CVector VectorData
  | CUuid bytes
and NodeValue = NodeValue (node_element: ustr) (node_labels: "ustr list") (node_properties: "(ustr \<times> CypherValue) list")
and RelationshipValue = RelationshipValue (rel_element: ustr) (rel_type_name: ustr) (rel_start: ustr) (rel_end: ustr)
    (rel_properties: "(ustr \<times> CypherValue) list")
and PathValue = PathValue (path_nodes: "NodeValue list") (path_relationships: "RelationshipValue list")

fun is_parameter_value :: "CypherValue \<Rightarrow> bool" where
  "is_parameter_value (CNode _) = False"
| "is_parameter_value (CRelationship _) = False"
| "is_parameter_value (CPath _) = False"
| "is_parameter_value (CList values) = list_all is_parameter_value values"
| "is_parameter_value (CMap entries) = list_all (\<lambda>e. is_parameter_value (snd e)) entries"
| "is_parameter_value _ = True"

fun property_list_family :: "CypherValue \<Rightarrow> nat option" where
  "property_list_family (CBoolean _) = Some 1"
| "property_list_family (CInteger _) = Some 2"
| "property_list_family (CFloat _) = Some 3"
| "property_list_family (CString _) = Some 4"
| "property_list_family (CDate _) = Some 5"
| "property_list_family (CLocalTime _) = Some 6"
| "property_list_family (CTime _) = Some 7"
| "property_list_family (CLocalDateTime _) = Some 8"
| "property_list_family (CZonedDateTime _) = Some 9"
| "property_list_family (CDuration _) = Some 10"
| "property_list_family (CPoint _) = Some 11"
| "property_list_family (CUuid _) = Some 12"
| "property_list_family _ = None"

definition property_list_is_valid :: "CypherValue list \<Rightarrow> bool" where
  "property_list_is_valid values =
     (case values of
        [] \<Rightarrow> True
      | first # _ \<Rightarrow>
          (case property_list_family first of
             None \<Rightarrow> False
           | Some family \<Rightarrow> list_all (\<lambda>v. property_list_family v = Some family) values))"

fun cypher_is_property_value :: "CypherValue \<Rightarrow> bool" where
  "cypher_is_property_value CNull = False"
| "cypher_is_property_value (CMap _) = False"
| "cypher_is_property_value (CNode _) = False"
| "cypher_is_property_value (CRelationship _) = False"
| "cypher_is_property_value (CPath _) = False"
| "cypher_is_property_value (CList values) = property_list_is_valid values"
| "cypher_is_property_value _ = True"

section \<open>Points, vectors and UUIDs\<close>

definition to_ascii_lowercase :: "ustr \<Rightarrow> ustr" where
  "to_ascii_lowercase s = map (\<lambda>b. if between 65 90 b then b + 32 else b) s"

definition to_ascii_uppercase :: "ustr \<Rightarrow> ustr" where
  "to_ascii_uppercase s = map (\<lambda>b. if between 97 122 b then b - 32 else b) s"

definition point_crs :: "ustr \<Rightarrow> (ustr \<times> u32 \<times> nat \<times> bool) option" where
  "point_crs text_name =
     (let name = to_ascii_lowercase text_name in
      if name = ascii ''wgs-84'' then Some (name, 4326, 2, True)
      else if name = ascii ''wgs-84-3d'' then Some (name, 4979, 3, True)
      else if name = ascii ''cartesian'' then Some (name, 7203, 2, False)
      else if name = ascii ''cartesian-3d'' then Some (name, 9157, 3, False)
      else None)"

text \<open>The constants 180.0, -180.0 and 360.0.\<close>

definition f64_180 :: u64 where "f64_180 = 0x4066800000000000"
definition f64_minus_180 :: u64 where "f64_minus_180 = 0xc066800000000000"
definition f64_360 :: u64 where "f64_360 = 0x4076800000000000"

definition within :: "int \<Rightarrow> u64 \<Rightarrow> bool" where
  "within limit b \<longleftrightarrow> - limit * f64_unit \<le> f64_scaled b \<and> f64_scaled b \<le> limit * f64_unit"

definition wrap_longitude :: "u64 \<Rightarrow> u64" where
  "wrap_longitude c = f64_add (f64_rem_euclid (f64_add c f64_180) f64_360) f64_minus_180"

definition point_new :: "ustr \<Rightarrow> u64 list \<Rightarrow> PointData vres" where
  "point_new name cs =
     and_then (vok_or (point_crs name) ''Point crs is unsupported'') (\<lambda>(canonical, srid, dim, geographic).
       if length cs \<noteq> dim then Inl (ValueError ''Point requires its number of coordinates'')
       else if list_ex (\<lambda>c. \<not> f64_is_finite c) cs then Inl (ValueError ''Point coordinates must be finite'')
       else if geographic \<and> \<not> within 90 (cs ! 1) then Inl (ValueError ''WGS-84 latitude is outside its valid range'')
       else Inr \<lparr>pt_crs = canonical, pt_srid = srid,
                 pt_coordinates = (if geographic \<and> \<not> within 180 (cs ! 0)
                                   then cs[0 := wrap_longitude (cs ! 0)] else cs)\<rparr>)"

fun vector_values_len :: "VectorValues \<Rightarrow> nat" where
  "vector_values_len (VI8 vs) = length vs"
| "vector_values_len (VI16 vs) = length vs"
| "vector_values_len (VI32 vs) = length vs"
| "vector_values_len (VI64 vs) = length vs"
| "vector_values_len (VF32 vs) = length vs"
| "vector_values_len (VF64 vs) = length vs"

fun vector_matches :: "VectorCoordinateType \<Rightarrow> VectorValues \<Rightarrow> bool" where
  "vector_matches I8 (VI8 _) = True"
| "vector_matches I16 (VI16 _) = True"
| "vector_matches I32 (VI32 _) = True"
| "vector_matches I64 (VI64 _) = True"
| "vector_matches F32 (VF32 _) = True"
| "vector_matches F64 (VF64 _) = True"
| "vector_matches _ _ = False"

fun vector_finite :: "VectorValues \<Rightarrow> bool" where
  "vector_finite (VF32 vs) = list_all f32_is_finite vs"
| "vector_finite (VF64 vs) = list_all f64_is_finite vs"
| "vector_finite _ = True"

definition vector_new :: "VectorCoordinateType \<Rightarrow> VectorValues \<Rightarrow> VectorData vres" where
  "vector_new t vs =
     (if \<not> vector_matches t vs then Inl (ValueError ''Vector values do not match their coordinateType'')
      else if vector_values_len vs < 1 \<or> 4096 < vector_values_len vs then Inl (ValueError ''Vector dimension must be between 1 and 4096'')
      else if \<not> vector_finite vs then Inl (ValueError ''Vector coordinates cannot contain NaN or Infinity'')
      else Inr \<lparr>vec_type = t, vec_values = vs\<rparr>)"

definition coordinate_type_as_str :: "VectorCoordinateType \<Rightarrow> ustr" where
  "coordinate_type_as_str t =
     ascii (case t of I8 \<Rightarrow> ''I8'' | I16 \<Rightarrow> ''I16'' | I32 \<Rightarrow> ''I32'' | I64 \<Rightarrow> ''I64'' | F32 \<Rightarrow> ''F32'' | F64 \<Rightarrow> ''F64'')"

definition coordinate_type_parse :: "ustr \<Rightarrow> VectorCoordinateType option" where
  "coordinate_type_parse s =
     (let name = to_ascii_uppercase s in
      if name \<in> {ascii ''I8'', ascii ''INTEGER8''} then Some I8
      else if name \<in> {ascii ''I16'', ascii ''INTEGER16''} then Some I16
      else if name \<in> {ascii ''I32'', ascii ''INTEGER32''} then Some I32
      else if name \<in> {ascii ''I64'', ascii ''INTEGER'', ascii ''INTEGER64''} then Some I64
      else if name \<in> {ascii ''F32'', ascii ''FLOAT32''} then Some F32
      else if name \<in> {ascii ''F64'', ascii ''FLOAT'', ascii ''FLOAT64''} then Some F64
      else None)"

definition matches_hyphens :: "bytes \<Rightarrow> bool" where
  "matches_hyphens bs \<longleftrightarrow> list_all (\<lambda>i. i < length bs \<and> bs ! i = 45) [8, 13, 18, 23]"

definition uuid_hex :: "byte \<Rightarrow> byte vres" where
  "uuid_hex b =
     (if between 48 57 b then Inr (b - 48)
      else if between 97 102 b then Inr (b - 97 + 10)
      else if between 65 70 b then Inr (b - 65 + 10)
      else Inl (ValueError ''UUID contains a non-hexadecimal digit''))"

fun uuid_bytes :: "bytes \<Rightarrow> bytes vres" where
  "uuid_bytes (h # l # rest) =
     and_then (uuid_hex h) (\<lambda>high. and_then (uuid_hex l) (\<lambda>low.
       and_then (uuid_bytes rest) (\<lambda>bs. Inr ((push_bit 4 high OR low) # bs))))"
| "uuid_bytes _ = Inr []"

definition uuid_parse :: "ustr \<Rightarrow> bytes vres" where
  "uuid_parse s =
     (if length s \<noteq> 36 \<or> \<not> matches_hyphens s then Inl (ValueError ''UUID must use canonical 8-4-4-4-12 text form'')
      else let compact = filter (\<lambda>b. b \<noteq> 45) s in
        if length compact \<noteq> 32 then Inl (ValueError ''UUID must contain 32 hexadecimal digits'')
        else uuid_bytes compact)"

definition hex_byte :: "byte \<Rightarrow> bytes" where
  "hex_byte b = (let digit = (\<lambda>d. of_nat (if d < 10 then d + 48 else d + 87)) in [digit (unat b div 16), digit (unat b mod 16)])"

definition uuid_to_canonical :: "bytes \<Rightarrow> ustr" where
  "uuid_to_canonical bs =
     concat (map (\<lambda>(i, b). (if i \<in> {4, 6, 8, 10} then [45] else []) @ hex_byte b) (enumerate 0 bs))"

section \<open>Comparisons\<close>

datatype Ordering = Less | Equal | Greater

definition cmp :: "'a::linorder \<Rightarrow> 'a \<Rightarrow> Ordering" where
  "cmp a b = (if a < b then Less else if a = b then Equal else Greater)"

fun ord_reverse :: "Ordering \<Rightarrow> Ordering" where
  "ord_reverse Less = Greater"
| "ord_reverse Equal = Equal"
| "ord_reverse Greater = Less"

text \<open>\<^verbatim>\<open>f64::partial_cmp\<close>: no order with a NaN.\<close>

definition partial_number_cmp :: "number \<Rightarrow> number \<Rightarrow> Ordering option" where
  "partial_number_cmp a b = (case (a, b) of (Some x, Some y) \<Rightarrow> Some (cmp x y) | _ \<Rightarrow> None)"

definition numeric_equal :: "number \<Rightarrow> number \<Rightarrow> bool" where
  "numeric_equal a b \<longleftrightarrow> (case (a, b) of (Some x, Some y) \<Rightarrow> x = y | _ \<Rightarrow> False)"

definition integer_float_cmp :: "i64 \<Rightarrow> number \<Rightarrow> Ordering option" where
  "integer_float_cmp i f =
     (case f of
        None \<Rightarrow> None
      | Some x \<Rightarrow>
          if x = f64_infinity then Some Less
          else if x = - f64_infinity then Some Greater
          else if x \<ge> 9223372036854775808 * f64_unit then Some Less
          else if x < - 9223372036854775808 * f64_unit then Some Greater
          else let truncated = x sdiv f64_unit in
            (case cmp i truncated of
               Equal \<Rightarrow>
                 let fractional = x - truncated * f64_unit in
                 if fractional > 0 then Some Less else if fractional < 0 then Some Greater else Some Equal
             | order \<Rightarrow> Some order))"

section \<open>Equality\<close>

fun value_type_name :: "CypherValue \<Rightarrow> string" where
  "value_type_name CNull = ''NULL''"
| "value_type_name (CBoolean _) = ''BOOLEAN''"
| "value_type_name (CInteger _) = ''INTEGER''"
| "value_type_name (CFloat _) = ''FLOAT''"
| "value_type_name (CString _) = ''STRING''"
| "value_type_name (CList _) = ''LIST''"
| "value_type_name (CMap _) = ''MAP''"
| "value_type_name (CNode _) = ''NODE''"
| "value_type_name (CRelationship _) = ''RELATIONSHIP''"
| "value_type_name (CPath _) = ''PATH''"
| "value_type_name (CDate _) = ''DATE''"
| "value_type_name (CLocalTime _) = ''LOCAL TIME''"
| "value_type_name (CTime _) = ''ZONED TIME''"
| "value_type_name (CLocalDateTime _) = ''LOCAL DATETIME''"
| "value_type_name (CZonedDateTime _) = ''ZONED DATETIME''"
| "value_type_name (CDuration _) = ''DURATION''"
| "value_type_name (CPoint _) = ''POINT''"
| "value_type_name (CVector _) = ''VECTOR''"
| "value_type_name (CUuid _) = ''UUID''"

definition path_identity_equals :: "PathValue \<Rightarrow> PathValue \<Rightarrow> bool" where
  "path_identity_equals l r \<longleftrightarrow>
     length (path_nodes l) = length (path_nodes r) \<and> length (path_relationships l) = length (path_relationships r)
     \<and> list_all (\<lambda>(a, b). node_element a = node_element b) (zip (path_nodes l) (path_nodes r))
     \<and> list_all (\<lambda>(a, b). rel_element a = rel_element b) (zip (path_relationships l) (path_relationships r))"

text \<open>The elements of a list must be the nodes and relationships of the path, in turn.\<close>

fun alternates :: "NodeValue list \<Rightarrow> RelationshipValue list \<Rightarrow> CypherValue list \<Rightarrow> bool" where
  "alternates [] rs vs = True"
| "alternates (n # ns) rs (CNode m # vs) =
     (node_element n = node_element m \<and>
      (case rs of
         [] \<Rightarrow> alternates ns [] (tl vs)
       | r # rs \<Rightarrow> (case vs of CRelationship q # vs \<Rightarrow> rel_element r = rel_element q \<and> alternates ns rs vs | _ \<Rightarrow> False)))"
| "alternates (n # ns) rs _ = False"

definition path_list_equals :: "PathValue \<Rightarrow> CypherValue list \<Rightarrow> bool" where
  "path_list_equals p values \<longleftrightarrow>
     \<not> (length (path_nodes p) \<noteq> length (path_relationships p) + 1
        \<or> length values \<noteq> length (path_nodes p) + length (path_relationships p))
     \<and> alternates (path_nodes p) (path_relationships p) values"

definition float_lists_equal :: "number list \<Rightarrow> number list \<Rightarrow> bool" where
  "float_lists_equal xs ys \<longleftrightarrow> list_all (\<lambda>(a, b). numeric_equal a b) (zip xs ys)"

definition vector_equal :: "VectorData \<Rightarrow> VectorData \<Rightarrow> bool option vres" where
  "vector_equal l r =
     (if vec_type l \<noteq> vec_type r \<or> vector_values_len (vec_values l) \<noteq> vector_values_len (vec_values r)
      then Inl (ValueError ''VECTOR values with different coordinate types or dimensions are not equality-comparable'')
      else Inr (Some (case (vec_values l, vec_values r) of
          (VI8 a, VI8 b) \<Rightarrow> a = b
        | (VI16 a, VI16 b) \<Rightarrow> a = b
        | (VI32 a, VI32 b) \<Rightarrow> a = b
        | (VI64 a, VI64 b) \<Rightarrow> a = b
        | (VF32 a, VF32 b) \<Rightarrow> float_lists_equal (map f32_number a) (map f32_number b)
        | (VF64 a, VF64 b) \<Rightarrow> float_lists_equal (map f64_number a) (map f64_number b)
        | _ \<Rightarrow> False)))"

definition point_equal :: "PointData \<Rightarrow> PointData \<Rightarrow> bool" where
  "point_equal l r \<longleftrightarrow>
     pt_crs l = pt_crs r \<and> pt_srid l = pt_srid r \<and> length (pt_coordinates l) = length (pt_coordinates r)
     \<and> float_lists_equal (map f64_number (pt_coordinates l)) (map f64_number (pt_coordinates r))"

definition if_no_null :: "bool \<Rightarrow> bool option" where
  "if_no_null has_null = (if has_null then None else Some True)"

text \<open>The arms of \<^verbatim>\<open>cypher_equals\<close> that do not compare elements.\<close>

definition flat_equals :: "CypherValue \<Rightarrow> CypherValue \<Rightarrow> bool option vres" where
  "flat_equals l r =
     (case (l, r) of
        (CInteger a, CInteger b) \<Rightarrow> Inr (Some (a = b))
      | (CInteger a, CFloat b) \<Rightarrow> Inr (Some (integer_float_cmp a (f64_number b) = Some Equal))
      | (CFloat a, CInteger b) \<Rightarrow> Inr (Some (integer_float_cmp b (f64_number a) = Some Equal))
      | (CFloat a, CFloat b) \<Rightarrow> Inr (Some (numeric_equal (f64_number a) (f64_number b)))
      | (CBoolean a, CBoolean b) \<Rightarrow> Inr (Some (a = b))
      | (CString a, CString b) \<Rightarrow> Inr (Some (a = b))
      | (CUuid a, CUuid b) \<Rightarrow> Inr (Some (a = b))
      | (CDate a, CDate b) \<Rightarrow> Inr (Some (date_days a = date_days b))
      | (CLocalTime a, CLocalTime b) \<Rightarrow> Inr (Some (lt_nanoseconds a = lt_nanoseconds b))
      | (CTime a, CTime b) \<Rightarrow> Inr (Some (time_comparison_key a = time_comparison_key b))
      | (CLocalDateTime a, CLocalDateTime b) \<Rightarrow> Inr (Some (local_datetime_comparison_key a = local_datetime_comparison_key b))
      | (CDuration a, CDuration b) \<Rightarrow> Inr (Some (duration_components a = duration_components b))
      | (CZonedDateTime a, CZonedDateTime b) \<Rightarrow> Inr (Some (zoned_comparison_key a = zoned_comparison_key b))
      | (CPoint a, CPoint b) \<Rightarrow> Inr (Some (point_equal a b))
      | (CVector a, CVector b) \<Rightarrow> vector_equal a b
      | (CNode a, CNode b) \<Rightarrow> Inr (Some (node_element a = node_element b))
      | (CRelationship a, CRelationship b) \<Rightarrow> Inr (Some (rel_element a = rel_element b))
      | (CPath a, CPath b) \<Rightarrow> Inr (Some (path_identity_equals a b))
      | (CPath p, CList vs) \<Rightarrow> Inr (Some (path_list_equals p vs))
      | (CList vs, CPath p) \<Rightarrow> Inr (Some (path_list_equals p vs))
      | _ \<Rightarrow> Inl (ValueError (''Cypher equality cannot compare '' @ value_type_name l @ '' with '' @ value_type_name r)))"

fun cypher_equals :: "CypherValue \<Rightarrow> CypherValue \<Rightarrow> bool option vres"
  and equals_loop :: "CypherValue list \<Rightarrow> CypherValue list \<Rightarrow> bool \<Rightarrow> bool option vres"
  and equals_fields :: "(ustr \<times> CypherValue) list \<Rightarrow> (ustr \<times> CypherValue) list \<Rightarrow> bool \<Rightarrow> bool option vres" where
  "cypher_equals l r =
     (if l = CNull \<or> r = CNull then Inr None
      else case l of
        CList a \<Rightarrow>
          (case r of
             CList b \<Rightarrow> if length a \<noteq> length b then Inr (Some False) else equals_loop a b False
           | _ \<Rightarrow> flat_equals l r)
      | CMap a \<Rightarrow>
          (case r of
             CMap b \<Rightarrow> if map fst a \<noteq> map fst b then Inr (Some False) else equals_fields a b False
           | _ \<Rightarrow> flat_equals l r)
      | _ \<Rightarrow> flat_equals l r)"
| "equals_loop (a # as) (b # bs) has_null =
     and_then (cypher_equals a b) (\<lambda>e.
       case e of
         Some True \<Rightarrow> equals_loop as bs has_null
       | Some False \<Rightarrow> Inr (Some False)
       | None \<Rightarrow> equals_loop as bs True)"
| "equals_loop _ _ has_null = Inr (if_no_null has_null)"
| "equals_fields ((k, a) # as) ((k', b) # bs) has_null =
     and_then (cypher_equals a b) (\<lambda>e.
       case e of
         Some True \<Rightarrow> equals_fields as bs has_null
       | Some False \<Rightarrow> Inr (Some False)
       | None \<Rightarrow> equals_fields as bs True)"
| "equals_fields _ _ has_null = Inr (if_no_null has_null)"

section \<open>The order of \<^verbatim>\<open>ORDER BY\<close>\<close>

fun value_order_rank :: "CypherValue \<Rightarrow> nat" where
  "value_order_rank (CMap _) = 0"
| "value_order_rank (CNode _) = 1"
| "value_order_rank (CRelationship _) = 2"
| "value_order_rank (CList _) = 3"
| "value_order_rank (CPath _) = 4"
| "value_order_rank (CVector _) = 5"
| "value_order_rank (CPoint _) = 6"
| "value_order_rank (CZonedDateTime _) = 7"
| "value_order_rank (CLocalDateTime _) = 8"
| "value_order_rank (CDate _) = 9"
| "value_order_rank (CTime _) = 10"
| "value_order_rank (CLocalTime _) = 11"
| "value_order_rank (CDuration _) = 12"
| "value_order_rank (CString _) = 13"
| "value_order_rank (CBoolean _) = 14"
| "value_order_rank (CUuid _) = 15"
| "value_order_rank (CInteger _) = 16"
| "value_order_rank (CFloat _) = 16"
| "value_order_rank CNull = 17"

fun vector_type_rank :: "VectorCoordinateType \<Rightarrow> nat" where
  "vector_type_rank I8 = 0"
| "vector_type_rank I16 = 1"
| "vector_type_rank I32 = 2"
| "vector_type_rank I64 = 3"
| "vector_type_rank F32 = 4"
| "vector_type_rank F64 = 5"

definition sort_float :: "number \<Rightarrow> number \<Rightarrow> Ordering" where
  "sort_float a b =
     (case (a, b) of
        (None, None) \<Rightarrow> Equal
      | (None, Some _) \<Rightarrow> Greater
      | (Some _, None) \<Rightarrow> Less
      | (Some x, Some y) \<Rightarrow> cmp x y)"

definition sort_integer_float :: "i64 \<Rightarrow> number \<Rightarrow> Ordering" where
  "sort_integer_float i f =
     (if f = None then Less else case integer_float_cmp i f of Some order \<Rightarrow> order | None \<Rightarrow> Equal)"

text \<open>The loop over a zip that stops at the first difference.\<close>

fun zip_compare :: "('a \<Rightarrow> 'a \<Rightarrow> Ordering) \<Rightarrow> 'a list \<Rightarrow> 'a list \<Rightarrow> Ordering" where
  "zip_compare f (a # as) (b # bs) = (if f a b \<noteq> Equal then f a b else zip_compare f as bs)"
| "zip_compare f _ _ = Equal"

definition float_sequence_compare :: "number list \<Rightarrow> number list \<Rightarrow> Ordering" where
  "float_sequence_compare = zip_compare sort_float"

definition vector_order_compare :: "VectorData \<Rightarrow> VectorData \<Rightarrow> Ordering vres" where
  "vector_order_compare l r =
     (let types = cmp (vector_type_rank (vec_type l)) (vector_type_rank (vec_type r));
          dims = cmp (vector_values_len (vec_values l)) (vector_values_len (vec_values r)) in
      if types \<noteq> Equal then Inr types
      else if dims \<noteq> Equal then Inr dims
      else case (vec_values l, vec_values r) of
          (VI8 a, VI8 b) \<Rightarrow> Inr (cmp a b)
        | (VI16 a, VI16 b) \<Rightarrow> Inr (cmp a b)
        | (VI32 a, VI32 b) \<Rightarrow> Inr (cmp a b)
        | (VI64 a, VI64 b) \<Rightarrow> Inr (cmp a b)
        | (VF32 a, VF32 b) \<Rightarrow> Inr (float_sequence_compare (map f32_number a) (map f32_number b))
        | (VF64 a, VF64 b) \<Rightarrow> Inr (float_sequence_compare (map f64_number a) (map f64_number b))
        | _ \<Rightarrow> Inl (ValueError ''coordinate type rank equality guarantees matching vector storage''))"

definition point_order_compare :: "PointData \<Rightarrow> PointData \<Rightarrow> Ordering" where
  "point_order_compare l r =
     (let srid = cmp (pt_srid l) (pt_srid r) in
      if srid \<noteq> Equal then srid
      else zip_compare (\<lambda>a b. case partial_number_cmp a b of Some order \<Rightarrow> order | None \<Rightarrow> Equal)
             (map f64_number (pt_coordinates l)) (map f64_number (pt_coordinates r)))"

definition path_step_id :: "PathValue \<Rightarrow> nat \<Rightarrow> ustr" where
  "path_step_id p i = (if even i then node_element (path_nodes p ! (i div 2)) else rel_element (path_relationships p ! (i div 2)))"

definition path_order_compare :: "PathValue \<Rightarrow> PathValue \<Rightarrow> Ordering vres" where
  "path_order_compare l r =
     (if length (path_nodes l) \<noteq> length (path_relationships l) + 1 \<or> length (path_nodes r) \<noteq> length (path_relationships r) + 1
      then Inl (ValueError ''PATH requires exactly one more node than relationship'')
      else let left_len = length (path_nodes l) + length (path_relationships l);
               right_len = length (path_nodes r) + length (path_relationships r);
               steps = [0..<min left_len right_len];
               order = zip_compare cmp (map (path_step_id l) steps) (map (path_step_id r) steps) in
        if order \<noteq> Equal then Inr order else Inr (cmp left_len right_len))"

definition duration_sort_key :: "i64 \<times> i64 \<times> i64 \<times> i64 \<Rightarrow> int" where
  "duration_sort_key = (\<lambda>(months, days, seconds, nanoseconds).
     months * 48699 * 86400000000000 + days * 1600 * 86400000000000 + seconds * 1600 * 1000000000 + nanoseconds * 1600)"

text \<open>The arms of \<^verbatim>\<open>cypher_order_compare\<close> that do not compare elements.\<close>

definition flat_order :: "CypherValue \<Rightarrow> CypherValue \<Rightarrow> Ordering vres" where
  "flat_order l r =
     (case (l, r) of
        (CNode a, CNode b) \<Rightarrow> Inr (cmp (node_element a) (node_element b))
      | (CRelationship a, CRelationship b) \<Rightarrow> Inr (cmp (rel_element a) (rel_element b))
      | (CPath a, CPath b) \<Rightarrow> path_order_compare a b
      | (CVector a, CVector b) \<Rightarrow> vector_order_compare a b
      | (CPoint a, CPoint b) \<Rightarrow> Inr (point_order_compare a b)
      | (CZonedDateTime a, CZonedDateTime b) \<Rightarrow> Inr (cmp (zoned_comparison_key a) (zoned_comparison_key b))
      | (CLocalDateTime a, CLocalDateTime b) \<Rightarrow> Inr (cmp (local_datetime_comparison_key a) (local_datetime_comparison_key b))
      | (CDate a, CDate b) \<Rightarrow> Inr (cmp (date_days a) (date_days b))
      | (CTime a, CTime b) \<Rightarrow> Inr (cmp (time_comparison_key a) (time_comparison_key b))
      | (CLocalTime a, CLocalTime b) \<Rightarrow> Inr (cmp (lt_nanoseconds a) (lt_nanoseconds b))
      | (CDuration a, CDuration b) \<Rightarrow> Inr (cmp (duration_sort_key (duration_components a)) (duration_sort_key (duration_components b)))
      | (CString a, CString b) \<Rightarrow> Inr (cmp a b)
      | (CBoolean a, CBoolean b) \<Rightarrow> Inr (cmp a b)
      | (CUuid a, CUuid b) \<Rightarrow> Inr (cmp a b)
      | (CInteger a, CInteger b) \<Rightarrow> Inr (cmp a b)
      | (CInteger a, CFloat b) \<Rightarrow> Inr (sort_integer_float a (f64_number b))
      | (CFloat a, CInteger b) \<Rightarrow> Inr (ord_reverse (sort_integer_float b (f64_number a)))
      | (CFloat a, CFloat b) \<Rightarrow> Inr (sort_float (f64_number a) (f64_number b))
      | (CNull, CNull) \<Rightarrow> Inr Equal
      | _ \<Rightarrow> Inl (ValueError ''internal value ordering rank collision between different Cypher value families''))"

definition map_shape_order :: "(ustr \<times> CypherValue) list \<Rightarrow> (ustr \<times> CypherValue) list \<Rightarrow> Ordering" where
  "map_shape_order a b =
     (if cmp (length a) (length b) \<noteq> Equal then cmp (length a) (length b) else cmp (map fst a) (map fst b))"

fun cypher_order_compare :: "CypherValue \<Rightarrow> CypherValue \<Rightarrow> Ordering vres"
  and sequence_order_loop :: "CypherValue list \<Rightarrow> CypherValue list \<Rightarrow> Ordering vres"
  and map_order_loop :: "(ustr \<times> CypherValue) list \<Rightarrow> (ustr \<times> CypherValue) list \<Rightarrow> Ordering vres" where
  "cypher_order_compare l r =
     (if value_order_rank l \<noteq> value_order_rank r then Inr (cmp (value_order_rank l) (value_order_rank r))
      else case l of
        CMap a \<Rightarrow>
          (case r of
             CMap b \<Rightarrow> if map_shape_order a b \<noteq> Equal then Inr (map_shape_order a b) else map_order_loop a b
           | _ \<Rightarrow> flat_order l r)
      | CList a \<Rightarrow>
          (case r of
             CList b \<Rightarrow>
               and_then (sequence_order_loop a b) (\<lambda>order. if order \<noteq> Equal then Inr order else Inr (cmp (length a) (length b)))
           | _ \<Rightarrow> flat_order l r)
      | _ \<Rightarrow> flat_order l r)"
| "sequence_order_loop (a # as) (b # bs) =
     and_then (cypher_order_compare a b) (\<lambda>order. if order \<noteq> Equal then Inr order else sequence_order_loop as bs)"
| "sequence_order_loop _ _ = Inr Equal"
| "map_order_loop ((k, a) # as) ((k', b) # bs) =
     and_then (cypher_order_compare a b) (\<lambda>order. if order \<noteq> Equal then Inr order else map_order_loop as bs)"
| "map_order_loop _ _ = Inr Equal"

section \<open>The comparison operators\<close>

datatype CypherComparison = Ordered Ordering | Unordered

definition list_compare_step :: "CypherValue \<Rightarrow> CypherValue \<Rightarrow> bool" where
  "list_compare_step a b \<longleftrightarrow> a = CNull \<or> b = CNull"

fun list_compare :: "nat \<Rightarrow> nat \<Rightarrow> CypherValue list \<Rightarrow> CypherValue list \<Rightarrow> CypherComparison option vres" where
  "list_compare m n (a # as) (b # bs) =
     (if list_compare_step a b then Inr None
      else and_then (cypher_order_compare a b) (\<lambda>order.
        if order \<noteq> Equal then Inr (Some (Ordered order)) else list_compare m n as bs))"
| "list_compare m n _ _ = Inr (Some (Ordered (cmp m n)))"

definition comparison_of :: "Ordering option \<Rightarrow> CypherComparison" where
  "comparison_of order = (case order of Some order \<Rightarrow> Ordered order | None \<Rightarrow> Unordered)"

definition cypher_compare :: "CypherValue \<Rightarrow> CypherValue \<Rightarrow> CypherComparison option vres" where
  "cypher_compare l r =
     (if l = CNull \<or> r = CNull then Inr None
      else case (l, r) of
        (CInteger a, CInteger b) \<Rightarrow> Inr (Some (Ordered (cmp a b)))
      | (CInteger a, CFloat b) \<Rightarrow> Inr (Some (comparison_of (integer_float_cmp a (f64_number b))))
      | (CFloat a, CInteger b) \<Rightarrow> Inr (Some (comparison_of (map_option ord_reverse (integer_float_cmp b (f64_number a)))))
      | (CFloat a, CFloat b) \<Rightarrow> Inr (Some (comparison_of (partial_number_cmp (f64_number a) (f64_number b))))
      | (CString a, CString b) \<Rightarrow> Inr (Some (Ordered (cmp a b)))
      | (CBoolean a, CBoolean b) \<Rightarrow> Inr (Some (Ordered (cmp a b)))
      | (CDate a, CDate b) \<Rightarrow> Inr (Some (Ordered (cmp (date_days a) (date_days b))))
      | (CLocalTime a, CLocalTime b) \<Rightarrow> Inr (Some (Ordered (cmp (lt_nanoseconds a) (lt_nanoseconds b))))
      | (CTime a, CTime b) \<Rightarrow> Inr (Some (Ordered (cmp (time_comparison_key a) (time_comparison_key b))))
      | (CLocalDateTime a, CLocalDateTime b) \<Rightarrow>
          Inr (Some (Ordered (cmp (local_datetime_comparison_key a) (local_datetime_comparison_key b))))
      | (CZonedDateTime a, CZonedDateTime b) \<Rightarrow> Inr (Some (Ordered (cmp (zoned_comparison_key a) (zoned_comparison_key b))))
      | (CUuid a, CUuid b) \<Rightarrow> Inr (Some (Ordered (cmp a b)))
      | (CList a, CList b) \<Rightarrow> list_compare (length a) (length b) a b
      | (CDuration _, CDuration _) \<Rightarrow> Inr None
      | (CPoint _, CPoint _) \<Rightarrow> Inr None
      | (CVector _, CVector _) \<Rightarrow> Inr None
      | _ \<Rightarrow> and_then (cypher_order_compare l r) (\<lambda>order. Inr (Some (Ordered order))))"

end
