(* ===== verification/Temporal_Theorems.thy ===== *)
theory Temporal_Theorems
  imports Zoned
begin

text \<open>The properties of dates and times (\<^verbatim>\<open>cypher/temporal.rs\<close>, \<^verbatim>\<open>temporal_format.rs\<close>, \<^verbatim>\<open>temporal_datetime.rs\<close>).\<close>

lemma calendar_laws:
  shows "days_from_civil 1970 1 1 = 0"
    and "valid_date y m d \<Longrightarrow>
      (case next_date (y, m, d) of (y', m', d') \<Rightarrow> valid_date y' m' d' \<and> days_from_civil y' m' d' = days_from_civil y m d + 1)"
    and "valid_date y m d \<Longrightarrow> civil_range (days_from_civil y m d) \<Longrightarrow> civil_from_days (days_from_civil y m d) = (y, m, d)"
    and "civil_range n \<Longrightarrow> (case civil_from_days n of (y', m', d') \<Rightarrow> valid_date y' m' d' \<and> days_from_civil y' m' d' = n)"
    and "parse_date s = Inr (y, m, d) \<Longrightarrow> valid_date y m d \<and> civil_range (days_from_civil y m d)"
proof -
  show "days_from_civil 1970 1 1 = 0"
    by (simp add: days_from_civil_def sdiv_nonneg)
  show "case next_date (y, m, d) of (y', m', d') \<Rightarrow> valid_date y' m' d' \<and> days_from_civil y' m' d' = days_from_civil y m d + 1"
    if "valid_date y m d"
    using next_date_valid [OF that] next_date_days [OF that] by (auto simp: days_of_def split: prod.splits)
  show "civil_from_days (days_from_civil y m d) = (y, m, d)" if "valid_date y m d" "civil_range (days_from_civil y m d)"
    by (rule civil_from_days_of [OF that])
  show "case civil_from_days n of (y', m', d') \<Rightarrow> valid_date y' m' d' \<and> days_from_civil y' m' d' = n" if "civil_range n"
    using civil_valid [OF that] by (auto split: prod.splits)
  show "valid_date y m d \<and> civil_range (days_from_civil y m d)" if "parse_date s = Inr (y, m, d)"
    using parse_date_valid [OF that] date_civil_range by blast
qed

text \<open>C15. The closed formulas of \<open>days_from_civil\<close> and \<open>civil_from_days\<close> are the proleptic Gregorian calendar: 1970-01-01 is
  day 0, the date after a date is the next day, in both directions of time, and the two functions are inverse to each other
  as long as the shifted day number fits \<^verbatim>\<open>i64\<close>, which every date the parser accepts satisfies.\<close>

theorem calendar_exact:
  "days_from_civil 1970 1 1 = 0
   \<and> (\<forall>y m d. valid_date y m d \<longrightarrow>
        (case next_date (y, m, d) of (y', m', d') \<Rightarrow> valid_date y' m' d' \<and> days_from_civil y' m' d' = days_from_civil y m d + 1)
      \<and> (civil_range (days_from_civil y m d) \<longrightarrow> civil_from_days (days_from_civil y m d) = (y, m, d)))
   \<and> (\<forall>n. civil_range n \<longrightarrow> (case civil_from_days n of (y, m, d) \<Rightarrow> valid_date y m d \<and> days_from_civil y m d = n))
   \<and> (\<forall>s y m d. parse_date s = Inr (y, m, d) \<longrightarrow> valid_date y m d \<and> civil_range (days_from_civil y m d))"
  using calendar_laws(1) by (intro conjI allI impI calendar_laws(2-4)) (simp_all, (blast dest: calendar_laws(5))+)

theorem calendar_exact_witness:
  "civil_from_days (days_from_civil 2000 2 29) = (2000, 2, 29)"
proof -
  have "valid_date 2000 2 29" by (simp add: valid_date_def days_in_month_def is_leap_year_def leap_def)
  moreover have "civil_range (days_from_civil 2000 2 29)"
    by (simp add: civil_range_def days_from_civil_def sdiv_nonneg)
  ultimately show ?thesis using calendar_exact by blast
qed

text \<open>C39. Printing a DATE and parsing it gives it back; rebuilding it from its day number, which is what is stored, gives it
  back exactly when its year is not one of -999 to -1: those years \<open>format_date_from_days\<close> prints with fewer than the four
  digits the parser wants, and such a date cannot be read again.\<close>

theorem date_round_trip:
  assumes "date_parse s = Inr v"
  shows "date_parse (date_text v) = Inr v
    \<and> (\<exists>y m d. civil_from_days (date_days v) = (y, m, d) \<and> days_from_civil y m d = date_days v \<and>
        date_from_days (date_days v) =
          (if -1000 < y \<and> y < 0 then Inl (ValueError ''Date year must contain at least four digits'') else Inr v))"
proof -
  obtain y m d where d: "valid_date y m d" "\<bar>y\<bar> \<le> 999999999" "v = date_value y m d" by (rule date_parse_Inr [OF assms])
  then have "date_days v = days_from_civil y m d" by (simp add: date_value_def)
  moreover have "civil_from_days (days_from_civil y m d) = (y, m, d)"
    by (rule civil_from_days_of [OF d(1) date_civil_range [OF d(1,2)]])
  ultimately show ?thesis using date_from_days_value [OF d(1,2)] d(3) date_reparse [OF assms] by auto
qed

lemma date_round_trip_witness:
  "\<exists>v. date_parse (ascii ''-0005-03-01'') = Inr v \<and> date_parse (date_text v) = Inr v
    \<and> date_from_days (date_days v) = Inl (ValueError ''Date year must contain at least four digits'')"
proof -
  have *: "date_parse (ascii ''-0005-03-01'') = Inr (date_value (-5) 3 1)"
    by code_simp
  have civil: "civil_from_days (date_days (date_value (-5) 3 1)) = (-5, 3, 1)"
    by code_simp
  from date_round_trip [OF *] civil show ?thesis using * by (auto split: if_splits)
qed

text \<open>A LOCAL TIME and a ZONED TIME come back from the numbers they are stored as, and from their text.\<close>

theorem time_round_trip:
  shows "local_time_parse s = Inr t \<Longrightarrow>
      local_time_from_nanoseconds (lt_nanoseconds t) = Inr t \<and> local_time_parse (lt_text t) = Inr t \<and> lt_nanoseconds t < day_nanos"
    and "time_parse s = Inr z \<Longrightarrow>
      time_from_components (time_local_nanoseconds z) (time_offset_seconds z) = Inr z \<and> time_parse (time_text z) = Inr z
      \<and> \<bar>time_offset_seconds z\<bar> \<le> 64800"
proof -
  show "local_time_from_nanoseconds (lt_nanoseconds t) = Inr t \<and> local_time_parse (lt_text t) = Inr t \<and> lt_nanoseconds t < day_nanos"
    if "local_time_parse s = Inr t"
  proof -
    note t = local_time_parse_Inr [OF that]
    have "lt_text t = format_local_time (lt_nanoseconds t)" by (subst t(1)) (simp add: local_time_value_def)
    then show ?thesis using t by (simp add: local_time_from_nanoseconds_def local_time_parse_text not_le)
  qed
  show "time_from_components (time_local_nanoseconds z) (time_offset_seconds z) = Inr z \<and> time_parse (time_text z) = Inr z
      \<and> \<bar>time_offset_seconds z\<bar> \<le> 64800" if "time_parse s = Inr z"
  proof -
    note z = time_parse_Inr [OF that]
    have "time_text z = format_local_time (time_local_nanoseconds z) @ format_offset (time_offset_seconds z)"
      by (subst z(1)) (simp add: time_value_of_def)
    then show ?thesis using time_parse_text [OF z(2,3)] z by (simp add: time_from_components_def abs_le_iff)
  qed
qed

lemma time_round_trip_witness:
  "\<exists>z. time_parse (ascii ''09:30:00+05:30'') = Inr z \<and> time_from_components (time_local_nanoseconds z) (time_offset_seconds z) = Inr z"
proof -
  have *: "time_parse (ascii ''09:30:00+05:30'') = Inr (time_value_of 34200000000000 19800)" by code_simp
  from time_round_trip(2) [OF *] * show ?thesis by blast
qed

lemma datetime_laws:
  shows "local_datetime_parse s = Inr l \<Longrightarrow>
      local_datetime_from_components (ldt_days l) (ldt_nanoseconds l) =
        (if -1000 < fst (civil_from_days (ldt_days l)) \<and> fst (civil_from_days (ldt_days l)) < 0
         then Inl (ValueError ''Date year must contain at least four digits'') else Inr l)"
    and "zoned_parse tz s zone = Inr v \<Longrightarrow>
      zoned_parse tz (zdt_value v) zone = Inr v \<and> zdt_zone v = zone \<and>
      (\<exists>days. local_components (zdt_instant v) (zdt_offset v) = Inr days \<and>
        zoned_from_instant tz (zdt_instant v) zone =
          (if -1000 < fst (civil_from_days (fst days)) \<and> fst (civil_from_days (fst days)) < 0
           then Inl (ValueError ''Date year must contain at least four digits'') else Inr v))"
proof -
  show "local_datetime_from_components (ldt_days l) (ldt_nanoseconds l) =
        (if -1000 < fst (civil_from_days (ldt_days l)) \<and> fst (civil_from_days (ldt_days l)) < 0
         then Inl (ValueError ''Date year must contain at least four digits'') else Inr l)"
    if l: "local_datetime_parse s = Inr l"
  proof -
    obtain y m d where *: "valid_date y m d" "\<bar>y\<bar> \<le> 999999999" "l = local_datetime_value_of (date_value y m d) (ldt_nanoseconds l)"
      "ldt_nanoseconds l < day_nanos" by (rule local_datetime_parse_Inr [OF l])
    have days: "ldt_days l = days_from_civil y m d" by (subst *(3)) (simp add: local_datetime_value_of_def date_value_def)
    show ?thesis
      using local_datetime_from_components_value [OF *(1,2,4)] *(3) civil_from_days_of [OF *(1) date_civil_range [OF *(1,2)]]
      by (simp add: days)
  qed
  show "zoned_parse tz (zdt_value v) zone = Inr v \<and> zdt_zone v = zone \<and>
      (\<exists>days. local_components (zdt_instant v) (zdt_offset v) = Inr days \<and>
        zoned_from_instant tz (zdt_instant v) zone =
          (if -1000 < fst (civil_from_days (fst days)) \<and> fst (civil_from_days (fst days)) < 0
           then Inl (ValueError ''Date year must contain at least four digits'') else Inr v))"
    if v: "zoned_parse tz s zone = Inr v"
  proof -
    obtain y m d t off where *: "valid_date y m d" "\<bar>y\<bar> \<le> 999999999" "t < day_nanos" "offset_range off"
      "v = zoned_value_of (date_value y m d) t off zone" "zone_offset tz zone (zdt_instant v) = Inr off"
      by (rule zoned_parse_Inr [OF v])
    have "local_components (zdt_instant v) (zdt_offset v) = Inr (days_from_civil y m d, t)"
      using local_components_value [OF days_bound [OF *(1,2)] *(3)] by (simp add: *(5) date_value_def)
    moreover have "zdt_zone v = zone" by (simp add: *(5))
    ultimately show ?thesis
      using zoned_from_instant_value [OF *(1-6)] zoned_reparse [OF v] civil_from_days_of [OF *(1) date_civil_range [OF *(1,2)]]
      by simp
  qed
qed

text \<open>C40. A LOCAL DATETIME and a ZONED DATETIME are rebuilt from the numbers they are stored as, with the exception of the years
  -999 to -1: a zoned one from its instant and its zone, whatever the time zone rules say, because the offset it was accepted
  with is the one those rules give at that instant.\<close>

theorem datetime_round_trip:
  "(\<forall>s l. local_datetime_parse s = Inr l \<longrightarrow>
      local_datetime_from_components (ldt_days l) (ldt_nanoseconds l) =
        (if -1000 < fst (civil_from_days (ldt_days l)) \<and> fst (civil_from_days (ldt_days l)) < 0
         then Inl (ValueError ''Date year must contain at least four digits'') else Inr l))
   \<and> (\<forall>tz s zone v. zoned_parse tz s zone = Inr v \<longrightarrow>
      zoned_parse tz (zdt_value v) zone = Inr v \<and> zdt_zone v = zone \<and>
      (\<exists>days. local_components (zdt_instant v) (zdt_offset v) = Inr days \<and>
        zoned_from_instant tz (zdt_instant v) zone =
          (if -1000 < fst (civil_from_days (fst days)) \<and> fst (civil_from_days (fst days)) < 0
           then Inl (ValueError ''Date year must contain at least four digits'') else Inr v)))"
  by (intro conjI allI impI datetime_laws)

theorem datetime_round_trip_witness:
  "\<exists>tz v. zoned_parse tz (ascii ''2024-05-06T07:08:09Z'') (ascii ''UTC'') = Inr v \<and> zoned_from_instant tz (zdt_instant v) (ascii ''UTC'') = Inr v"
proof -
  define tz where "tz = \<lparr>tz_known = (\<lambda>_. False), tz_timestamp = (\<lambda>_ _. True), tz_offset = (\<lambda>_ _ _. 0),
      tz_local_ok = (\<lambda>_. True), tz_from_local = (\<lambda>_ _ _. LocalNone)\<rparr>"
  define v where "v = zoned_value_of (date_value 2024 5 6) 25689000000000 0 (ascii ''UTC'')"
  have *: "zoned_parse tz (ascii ''2024-05-06T07:08:09Z'') (ascii ''UTC'') = Inr v" unfolding tz_def v_def by code_simp
  have lc: "local_components (zdt_instant v) (zdt_offset v) = Inr (19849, 25689000000000)" unfolding v_def by code_simp
  have "civil_from_days 19849 = (2024, 5, 6)" by code_simp
  with conjunct2 [OF datetime_round_trip, rule_format, OF *] lc have "zoned_from_instant tz (zdt_instant v) (ascii ''UTC'') = Inr v" by auto
  with * show ?thesis by blast
qed

end
