(* ===== verification/Value_Bridge.thy ===== *)
theory Value_Bridge
  imports Cypher_Value Temporal_Theorems
begin

text \<open>
  Between a query value and the property value that is stored: \<^verbatim>\<open>property_from_value\<close> (\<^verbatim>\<open>query/mutation/execute/value.rs\<close>) on a
  write and \<^verbatim>\<open>property_value\<close> (\<^verbatim>\<open>query/graph.rs\<close>) on a read. The cancellation checks of the write are those of a caller without
  an execution control.
\<close>

datatype query_error = TypeError string | InternalError string | FromValue value_error

type_synonym 'a qres = "query_error + 'a"

definition from_value :: "'a vres \<Rightarrow> 'a qres" where
  "from_value r = (case r of Inl e \<Rightarrow> Inl (FromValue e) | Inr v \<Rightarrow> Inr v)"

lemma from_value_simps [simp]: "from_value (Inl e) = Inl (FromValue e)" "from_value (Inr v) = Inr v"
  by (simp_all add: from_value_def)

section \<open>Writing\<close>

text \<open>The little-endian bytes of a signed coordinate of \<open>w\<close> bytes, and back.\<close>

definition int_le_bytes :: "nat \<Rightarrow> int \<Rightarrow> bytes" where
  "int_le_bytes w v = le_bytes w (nat (v mod 2 ^ (8 * w)))"

definition int_from_le_bytes :: "nat \<Rightarrow> bytes \<Rightarrow> int" where
  "int_from_le_bytes w bs = (let n = int (le_value bs) in if n < 2 ^ (8 * w - 1) then n else n - 2 ^ (8 * w))"

definition pack_coordinates :: "'a list \<Rightarrow> ('a \<Rightarrow> bytes) \<Rightarrow> bytes" where
  "pack_coordinates values encode = concat (map encode values)"

definition storage_vector :: "VectorData \<Rightarrow> VectorValue" where
  "storage_vector v =
     (let (coordinate, bs) = (case vec_values v of
            VI8 vs \<Rightarrow> (I8, pack_coordinates vs (int_le_bytes 1))
          | VI16 vs \<Rightarrow> (I16, pack_coordinates vs (int_le_bytes 2))
          | VI32 vs \<Rightarrow> (I32, pack_coordinates vs (int_le_bytes 4))
          | VI64 vs \<Rightarrow> (I64, pack_coordinates vs (int_le_bytes 8))
          | VF32 vs \<Rightarrow> (F32, pack_coordinates vs u32_bytes)
          | VF64 vs \<Rightarrow> (F64, pack_coordinates vs u64_bytes)) in
      \<lparr>coordinate_type = coordinate, dimension = of_nat (vector_values_len (vec_values v)), packed = bs\<rparr>)"

definition checked_property :: "PropertyValue \<Rightarrow> PropertyValue option qres" where
  "checked_property p =
     (if \<not> is_property_value p then Inl (TypeError ''value is not a valid Cypher persistent property value'') else Inr (Some p))"

definition zoned_property :: "ZonedDateTime \<Rightarrow> PropertyValue qres" where
  "zoned_property z =
     and_then (from_value (zoned_storage_components z)) (\<lambda>(seconds, nanoseconds, zone).
       Inr (VZonedDateTime \<lparr>epoch_seconds = seconds, zdt_nanoseconds = of_nat nanoseconds, zone_id = zone\<rparr>))"

definition point_property :: "PointData \<Rightarrow> PointValue" where
  "point_property p = \<lparr>crs = uint (pt_srid p), coordinates = pt_coordinates p\<rparr>"

definition duration_property :: "DurationValue \<Rightarrow> PropertyValue" where
  "duration_property d =
     (case duration_components d of (months, days, seconds, nanoseconds) \<Rightarrow> VDuration months days seconds nanoseconds)"

fun property_from_value :: "CypherValue \<Rightarrow> PropertyValue option qres"
  and property_list :: "CypherValue list \<Rightarrow> PropertyValue list qres" where
  "property_from_value CNull = Inr None"
| "property_from_value (CBoolean b) = checked_property (VBoolean b)"
| "property_from_value (CInteger i) = checked_property (VInteger i)"
| "property_from_value (CFloat f) = checked_property (VFloat f)"
| "property_from_value (CString s) = checked_property (VString s)"
| "property_from_value (CList vs) = and_then (property_list vs) (\<lambda>ps. checked_property (VList ps))"
| "property_from_value (CDate d) = checked_property (VDate (date_days d))"
| "property_from_value (CLocalTime t) = checked_property (VLocalTime (of_nat (lt_nanoseconds t)))"
| "property_from_value (CTime t) = checked_property (VTime (of_nat (time_local_nanoseconds t)) (time_offset_seconds t))"
| "property_from_value (CLocalDateTime t) = checked_property (VLocalDateTime (ldt_days t) (of_nat (ldt_nanoseconds t)))"
| "property_from_value (CZonedDateTime z) = and_then (zoned_property z) checked_property"
| "property_from_value (CDuration d) = checked_property (duration_property d)"
| "property_from_value (CPoint p) = checked_property (VPoint (point_property p))"
| "property_from_value (CVector v) = checked_property (VVector (storage_vector v))"
| "property_from_value (CUuid u) = checked_property (VUuid u)"
| "property_from_value _ = Inl (TypeError ''graph properties cannot store Map, Node, Relationship, or Path values'')"
| "property_list [] = Inr []"
| "property_list (v # vs) =
     and_then (property_from_value v) (\<lambda>p.
       case p of
         None \<Rightarrow> Inl (TypeError ''property List cannot contain null'')
       | Some p \<Rightarrow> and_then (property_list vs) (\<lambda>ps. Inr (p # ps)))"

section \<open>Reading\<close>

definition parse_i32 :: "ustr \<Rightarrow> i32 option" where
  "parse_i32 s = (case parse_i64 s of Some v \<Rightarrow> if in_i32 v then Some v else None | None \<Rightarrow> None)"

definition fixed_zone_offset :: "ustr \<Rightarrow> i32 option" where
  "fixed_zone_offset zone =
     (if zone \<in> {[90], ascii ''UTC'', ascii ''GMT'', ascii ''GMT0''} then Some 0
      else if length zone \<noteq> 6 \<or> \<not> (zone ! 0 = 43 \<or> zone ! 0 = 45) \<or> zone ! 3 \<noteq> 58 then None
      else case parse_i32 (take 2 (drop 1 zone)) of
          None \<Rightarrow> None
        | Some hour \<Rightarrow>
            (case parse_i32 (drop 4 zone) of
               None \<Rightarrow> None
             | Some minute \<Rightarrow> Some ((if zone ! 0 = 45 then - 1 else 1) * (hour * 3600 + minute * 60))))"

definition zone_offset_at :: "chrono \<Rightarrow> ustr \<Rightarrow> i64 \<Rightarrow> nat \<Rightarrow> i32 qres" where
  "zone_offset_at tz zone seconds nanoseconds =
     (case fixed_zone_offset zone of
        Some off \<Rightarrow> Inr off
      | None \<Rightarrow>
          if \<not> tz_known tz zone then Inl (InternalError ''persisted ZonedDateTime has unknown IANA zone'')
          else if \<not> tz_timestamp tz seconds nanoseconds
          then Inl (InternalError ''persisted ZonedDateTime is outside the IANA timezone range'')
          else Inr (tz_offset tz zone seconds nanoseconds))"

definition query_zoned_value :: "chrono \<Rightarrow> ZonedDateTimeValue \<Rightarrow> CypherValue qres" where
  "query_zoned_value tz v =
     and_then (zone_offset_at tz (zone_id v) (epoch_seconds v) (unat (zdt_nanoseconds v))) (\<lambda>off.
       let local_seconds = epoch_seconds v + off in
       if \<not> in_i64 local_seconds then Inl (InternalError ''persisted ZonedDateTime overflows local representation'')
       else let day = local_seconds div 86400;
                nanos = nat (local_seconds mod 86400) * 1000000000 + unat (zdt_nanoseconds v) in
         and_then (from_value (zoned_parse tz (format_date_from_days day @ 84 # format_local_time nanos @ format_offset off) (zone_id v)))
           (\<lambda>z. Inr (CZonedDateTime z)))"

definition point_value :: "PointValue \<Rightarrow> CypherValue qres" where
  "point_value v =
     and_then (if crs v = 4326 then Inr (ascii ''wgs-84'')
               else if crs v = 4979 then Inr (ascii ''wgs-84-3d'')
               else if crs v = 7203 then Inr (ascii ''cartesian'')
               else if crs v = 9157 then Inr (ascii ''cartesian-3d'')
               else Inl (InternalError ''unsupported persisted point CRS'')) (\<lambda>name.
     and_then (from_value (point_new name (coordinates v))) (\<lambda>p. Inr (CPoint p)))"

definition vector_value :: "VectorValue \<Rightarrow> CypherValue qres" where
  "vector_value v =
     (let chunks = (\<lambda>w. fst (as_chunks w (packed v)));
          values = (case coordinate_type v of
              I8 \<Rightarrow> VI8 (map (\<lambda>b. int_from_le_bytes 1 [b]) (packed v))
            | I16 \<Rightarrow> VI16 (map (int_from_le_bytes 2) (chunks 2))
            | I32 \<Rightarrow> VI32 (map (int_from_le_bytes 4) (chunks 4))
            | I64 \<Rightarrow> VI64 (map (int_from_le_bytes 8) (chunks 8))
            | F32 \<Rightarrow> VF32 (map (\<lambda>c. of_nat (le_value c)) (chunks 4))
            | F64 \<Rightarrow> VF64 (map (\<lambda>c. of_nat (le_value c)) (chunks 8))) in
      and_then (from_value (vector_new (coordinate_type v) values)) (\<lambda>v. Inr (CVector v)))"

definition uuid_text :: "bytes \<Rightarrow> ustr" where
  "uuid_text bs =
     (let part = (\<lambda>i j. concat (map hex_byte (take (j - i) (drop i bs)))) in
      part 0 4 @ 45 # part 4 6 @ 45 # part 6 8 @ 45 # part 8 10 @ 45 # part 10 16)"

fun property_value :: "chrono \<Rightarrow> PropertyValue \<Rightarrow> CypherValue qres"
  and property_values :: "chrono \<Rightarrow> PropertyValue list \<Rightarrow> CypherValue list qres" where
  "property_value tz (VBoolean b) = Inr (CBoolean b)"
| "property_value tz (VInteger i) = Inr (CInteger i)"
| "property_value tz (VFloat f) = Inr (CFloat f)"
| "property_value tz (VString s) = Inr (CString s)"
| "property_value tz (VList vs) = and_then (property_values tz vs) (\<lambda>vs. Inr (CList vs))"
| "property_value tz (VDate days) =
     and_then (from_value (date_parse (format_date_from_days days))) (\<lambda>d. Inr (CDate d))"
| "property_value tz (VLocalTime nanoseconds) =
     and_then (from_value (local_time_parse (format_local_time (unat nanoseconds)))) (\<lambda>t. Inr (CLocalTime t))"
| "property_value tz (VTime nanoseconds offset_seconds) =
     and_then (from_value (time_parse (format_local_time (unat nanoseconds) @ format_offset offset_seconds))) (\<lambda>t. Inr (CTime t))"
| "property_value tz (VLocalDateTime day nanoseconds) =
     and_then (from_value (local_datetime_parse (format_date_from_days day @ 84 # format_local_time (unat nanoseconds))))
       (\<lambda>t. Inr (CLocalDateTime t))"
| "property_value tz (VZonedDateTime v) = query_zoned_value tz v"
| "property_value tz (VDuration months days seconds nanoseconds) =
     Inr (CDuration (duration_from_components months days seconds nanoseconds))"
| "property_value tz (VPoint v) = point_value v"
| "property_value tz (VVector v) = vector_value v"
| "property_value tz (VUuid bs) = and_then (from_value (uuid_parse (uuid_text bs))) (\<lambda>u. Inr (CUuid u))"
| "property_values tz [] = Inr []"
| "property_values tz (v # vs) =
     and_then (property_value tz v) (\<lambda>v. and_then (property_values tz vs) (\<lambda>vs. Inr (v # vs)))"

end
