(* ===== verification/Cypher_Order.thy ===== *)
theory Cypher_Order
  imports Cypher_Value
begin

text \<open>
  The order of \<^verbatim>\<open>ORDER BY\<close> is a total preorder. The laws of a comparison are stated for three arguments at a time, in a
  form that passes from the parts of a value to the whole: through lexicographic composition and through the loops over
  lists and maps.
\<close>

section \<open>Lawful comparisons\<close>

definition ord_then :: "Ordering \<Rightarrow> Ordering \<Rightarrow> Ordering" where
  "ord_then a b = (if a = Equal then b else a)"

text \<open>What comparing \<open>x\<close> with \<open>z\<close> must give when \<open>x\<close> with \<open>y\<close> and \<open>y\<close> with \<open>z\<close> are known.\<close>

definition composes :: "Ordering \<Rightarrow> Ordering \<Rightarrow> Ordering \<Rightarrow> bool" where
  "composes xy yz xz \<longleftrightarrow> (xy = Equal \<longrightarrow> xz = yz) \<and> (yz = Equal \<longrightarrow> xz = xy) \<and> (xy = yz \<longrightarrow> xz = xy)"

locale lawful_comparison =
  fixes c :: "'a \<Rightarrow> 'a \<Rightarrow> Ordering" and D :: "'a \<Rightarrow> bool"
  assumes reflexive: "D x \<Longrightarrow> c x x = Equal"
    and flips: "D x \<Longrightarrow> D y \<Longrightarrow> c y x = ord_reverse (c x y)"
    and chains: "D x \<Longrightarrow> D y \<Longrightarrow> D z \<Longrightarrow> composes (c x y) (c y z) (c x z)"
begin

lemma transitive:
  assumes "D x" "D y" "D z" "c x y \<noteq> Greater" "c y z \<noteq> Greater"
  shows "c x z \<noteq> Greater"
  using chains [OF assms(1-3)] assms(4,5) unfolding composes_def
  by (cases "c x y"; cases "c y z"; simp)

lemma strict:
  assumes "D x" "D y" "D z" "c x y \<noteq> Greater" "c y z \<noteq> Greater" "c x y = Less \<or> c y z = Less"
  shows "c x z = Less"
  using chains [OF assms(1-3)] assms(4-6) unfolding composes_def
  by (cases "c x y"; cases "c y z"; simp)

lemma equal_symmetric: "D x \<Longrightarrow> D y \<Longrightarrow> c x y = Equal \<longleftrightarrow> c y x = Equal"
  using flips [of x y] by (cases "c x y") simp_all

end

lemma ord_reverse_reverse [simp]: "ord_reverse (ord_reverse o1) = o1"
  by (cases o1) simp_all

lemma cmp_iff [simp]:
  "cmp a b = Less \<longleftrightarrow> a < b" "cmp a b = Equal \<longleftrightarrow> a = b" "cmp a b = Greater \<longleftrightarrow> b < a"
  for a b :: "'a::linorder"
  by (auto simp: cmp_def)

lemma cmp_reverse: "cmp b a = ord_reverse (cmp a b)" for a b :: "'a::linorder"
  by (cases a b rule: linorder_cases) (auto simp: cmp_def)

lemma cmp_composes: "composes (cmp a b) (cmp b c) (cmp a c)" for a b c :: "'a::linorder"
  by (cases a b rule: linorder_cases; cases b c rule: linorder_cases) (auto simp: composes_def cmp_def)

text \<open>Comparing by a key in a linear order is lawful.\<close>

lemma lawful_key: "lawful_comparison (\<lambda>a b. cmp (key a) (key b :: 'k::linorder)) D"
  by unfold_locales (auto simp: cmp_composes intro: cmp_reverse)

interpretation key: lawful_comparison "\<lambda>a b. cmp (f a) (f b :: 'k::linorder)" D for f D
  by (rule lawful_key)

lemma composes_then:
  "composes a b c \<Longrightarrow> composes a' b' c' \<Longrightarrow> composes (ord_then a a') (ord_then b b') (ord_then c c')"
  by (cases a; cases b; cases c) (auto simp: composes_def ord_then_def)

lemma reverse_then: "ord_reverse (ord_then a b) = ord_then (ord_reverse a) (ord_reverse b)"
  by (cases a) (simp_all add: ord_then_def)

section \<open>Numbers\<close>

definition number_key :: "number \<Rightarrow> bool \<times> int" where
  "number_key n = (case n of None \<Rightarrow> (True, 0) | Some v \<Rightarrow> (False, v))"

lemma sort_float_key: "sort_float a b = cmp (number_key a) (number_key b)"
  by (auto simp: sort_float_def number_key_def cmp_def split: option.splits)

lemma f64_unit_pos: "0 < f64_unit"
  by (simp add: f64_unit_def)

text \<open>Comparing an integer with a float compares the numbers they stand for.\<close>

lemma truncation:
  fixes x u :: int
  assumes "u > 0"
  shows "\<bar>x - (x sdiv u) * u\<bar> < u" "x - (x sdiv u) * u > 0 \<Longrightarrow> x > 0" "x - (x sdiv u) * u < 0 \<Longrightarrow> x < 0"
    "0 \<le> x \<Longrightarrow> 0 \<le> x - (x sdiv u) * u" "x \<le> 0 \<Longrightarrow> x - (x sdiv u) * u \<le> 0"
proof -
  have pos: "x - (x sdiv u) * u = x mod u" if "0 \<le> x"
    using that assms by (simp add: sdiv_nonneg minus_div_mult_eq_mod)
  have neg: "x - (x sdiv u) * u = - ((- x) mod u)" if "x < 0"
    using that assms minus_div_mult_eq_mod [of "- x" u] by (simp add: sdiv_neg)
  note bounds = pos_mod_bound [OF assms, of x] pos_mod_bound [OF assms, of "- x"]
    pos_mod_sign [OF assms, of x] pos_mod_sign [OF assms, of "- x"]
  have all: "\<bar>r\<bar> < u \<and> (r > 0 \<longrightarrow> x > 0) \<and> (r < 0 \<longrightarrow> x < 0) \<and> (0 \<le> x \<longrightarrow> 0 \<le> r) \<and> (x \<le> 0 \<longrightarrow> r \<le> 0)"
    if "r = x - (x sdiv u) * u" for r
  proof (cases "0 \<le> x")
    case True
    with pos that have r: "r = x mod u" by simp
    show ?thesis using True bounds unfolding r by (cases "x = 0") (simp_all del: pos_mod_bound pos_mod_sign)
  next
    case False
    then have neg_x: "x < 0" by simp
    with neg that have r: "r = - ((- x) mod u)" by simp
    show ?thesis using neg_x bounds unfolding r by (auto simp del: pos_mod_bound pos_mod_sign)
  qed
  show "\<bar>x - (x sdiv u) * u\<bar> < u" "x - (x sdiv u) * u > 0 \<Longrightarrow> x > 0" "x - (x sdiv u) * u < 0 \<Longrightarrow> x < 0"
    "0 \<le> x \<Longrightarrow> 0 \<le> x - (x sdiv u) * u" "x \<le> 0 \<Longrightarrow> x - (x sdiv u) * u \<le> 0"
    using all [OF refl] by simp_all
qed

lemma integer_float_cmp_exact:
  assumes "in_i64 i"
  shows "integer_float_cmp i f = map_option (\<lambda>x. cmp (i * f64_unit) x) f"
proof (cases f)
  case (Some x)
  define u where "u = f64_unit"
  have u: "0 < u" by (simp add: u_def f64_unit_pos)
  have inf: "9223372036854775808 * u < f64_infinity" by (simp add: u_def f64_unit_def f64_infinity_def)
  have i: "- 9223372036854775808 \<le> i" "i < 9223372036854775808" using assms by (simp_all add: in_i64_def)
  have iu: "- 9223372036854775808 * u \<le> i * u" "i * u < 9223372036854775808 * u"
    using i u by (simp_all only: mult_right_mono less_imp_le mult_strict_right_mono)
  show ?thesis
  proof (cases "x \<ge> 9223372036854775808 * u \<or> x < - 9223372036854775808 * u")
    case True
    with inf iu show ?thesis
      unfolding integer_float_cmp_def Some option.case u_def [symmetric] by (auto simp: cmp_def simp del: mult_minus_left)
  next
    case False
    then have ninf: "x \<noteq> f64_infinity" "x \<noteq> - f64_infinity" using inf u by (auto simp: not_less)
    define t where "t = x sdiv u"
    note tr = truncation [OF u, of x, folded t_def]
    have less: "i * u < x" if "i < t"
    proof -
      have "(i + 1) * u \<le> t * u" using that u by (intro mult_right_mono) simp_all
      then show ?thesis using tr(1) by (simp add: algebra_simps)
    qed
    have greater: "x < i * u" if "t < i"
    proof -
      have "(t + 1) * u \<le> i * u" using that u by (intro mult_right_mono) simp_all
      then show ?thesis using tr(1) by (simp add: algebra_simps)
    qed
    have "integer_float_cmp i f = Some (cmp (i * u) x)"
      using False ninf less greater unfolding integer_float_cmp_def Some option.case u_def [symmetric] Let_def t_def [symmetric]
      by (cases i t rule: linorder_cases) (auto simp: cmp_def)
    then show ?thesis by (simp add: Some u_def)
  qed
qed (simp add: integer_float_cmp_def)

section \<open>Well-formed values\<close>

definition wf_path :: "PathValue \<Rightarrow> bool" where
  "wf_path p \<longleftrightarrow> length (path_nodes p) = length (path_relationships p) + 1"

text \<open>What the constructors of the source establish.\<close>

fun wf_cypher :: "CypherValue \<Rightarrow> bool" where
  "wf_cypher (CInteger i) = in_i64 i"
| "wf_cypher (CList vs) = list_all wf_cypher vs"
| "wf_cypher (CMap es) = list_all (\<lambda>e. wf_cypher (snd e)) es"
| "wf_cypher (CPath p) = wf_path p"
| "wf_cypher (CVector v) = vector_matches (vec_type v) (vec_values v)"
| "wf_cypher (CPoint p) = (list_all f64_is_finite (pt_coordinates p)
     \<and> pt_srid p \<in> {4326, 4979, 7203, 9157} \<and> length (pt_coordinates p) = (if pt_srid p \<in> {4326, 7203} then 2 else 3))"
| "wf_cypher _ = True"

section \<open>Leaves by their keys\<close>

lemma zip_compare_key:
  "zip_compare (\<lambda>a b. cmp (f a) (f b)) xs ys = cmp (map f xs) (map f ys)" if "length xs = length ys" for f :: "'a \<Rightarrow> 'k::linorder"
  using that by (induction xs ys rule: list_induct2) (auto simp: cmp_def)

lemma zip_compare_cong: "(\<And>a b. a \<in> set xs \<Longrightarrow> b \<in> set ys \<Longrightarrow> f a b = g a b) \<Longrightarrow> zip_compare f xs ys = zip_compare g xs ys"
  by (induction f xs ys rule: zip_compare.induct) auto

definition path_ids :: "PathValue \<Rightarrow> ustr list" where
  "path_ids p = map (path_step_id p) [0..<length (path_nodes p) + length (path_relationships p)]"

lemma zip_compare_prefix:
  "ord_then (zip_compare cmp (take (min (length xs) (length ys)) xs) (take (min (length xs) (length ys)) ys)) (cmp (length xs) (length ys))
     = cmp xs ys" for xs ys :: "'k::linorder list"
proof (induction xs arbitrary: ys)
  case Nil
  then show ?case by (cases ys) (auto simp: ord_then_def cmp_def)
next
  case (Cons x xs)
  show ?case
  proof (cases ys)
    case (Cons y ys')
    with Cons.IH [of ys'] show ?thesis by (auto simp: ord_then_def cmp_def split: if_splits)
  qed (auto simp: ord_then_def cmp_def)
qed

lemma zip_compare_upt:
  fixes f g :: "nat \<Rightarrow> 'k::linorder"
  shows "ord_then (zip_compare cmp (map f [0..<min m n]) (map g [0..<min m n])) (cmp m n) = cmp (map f [0..<m]) (map g [0..<n])"
  using zip_compare_prefix [of "map f [0..<m]" "map g [0..<n]"] by (simp add: take_map min_def)

lemma path_order_key:
  assumes "wf_path l" "wf_path r"
  shows "path_order_compare l r = Inr (cmp (path_ids l) (path_ids r))"
  using assms unfolding path_order_compare_def wf_path_def path_ids_def zip_compare_upt [symmetric] ord_then_def Let_def
  by (simp only: if_distrib [of Inr] simp_thms if_False split: if_split) blast

fun leaf_key :: "CypherValue \<Rightarrow> (bool \<times> int) list \<times> ustr list" where
  "leaf_key (CNode n) = ([], [node_element n])"
| "leaf_key (CRelationship r) = ([], [rel_element r])"
| "leaf_key (CPath p) = ([], path_ids p)"
| "leaf_key (CVector v) =
     ((False, int (vector_type_rank (vec_type v))) # (False, int (vector_values_len (vec_values v))) #
      (case vec_values v of
         VI8 xs \<Rightarrow> map (Pair False) xs
       | VI16 xs \<Rightarrow> map (Pair False) xs
       | VI32 xs \<Rightarrow> map (Pair False) xs
       | VI64 xs \<Rightarrow> map (Pair False) xs
       | VF32 xs \<Rightarrow> map (number_key \<circ> f32_number) xs
       | VF64 xs \<Rightarrow> map (number_key \<circ> f64_number) xs), [])"
| "leaf_key (CPoint p) = ((False, uint (pt_srid p)) # map (number_key \<circ> f64_number) (pt_coordinates p), [])"
| "leaf_key (CZonedDateTime z) = ([(False, zdt_instant z), (False, zdt_offset z)], [zdt_zone z])"
| "leaf_key (CLocalDateTime v) = ([(False, ldt_days v), (False, int (ldt_nanoseconds v))], [])"
| "leaf_key (CDate d) = ([(False, date_days d)], [])"
| "leaf_key (CTime t) = ([(False, time_instant_key t), (False, time_offset_seconds t)], [])"
| "leaf_key (CLocalTime t) = ([(False, int (lt_nanoseconds t))], [])"
| "leaf_key (CDuration d) = ([(False, duration_sort_key (duration_components d))], [])"
| "leaf_key (CString s) = ([], [s])"
| "leaf_key (CBoolean b) = ([(False, of_bool b)], [])"
| "leaf_key (CUuid u) = ([], [u])"
| "leaf_key (CInteger i) = ([(False, i * f64_unit)], [])"
| "leaf_key (CFloat f) = ([number_key (f64_number f)], [])"
| "leaf_key _ = ([], [])"

lemma cmp_pair [simp]: "cmp (a, b) (c, d) = ord_then (cmp a c) (cmp b d)"
  for a c :: "'a::linorder" and b d :: "'b::linorder"
  by (auto simp: cmp_def ord_then_def)

lemma cmp_Cons [simp]: "cmp (x # xs) (y # ys) = ord_then (cmp x y) (cmp xs ys)" for x y :: "'a::linorder"
  by (auto simp: cmp_def ord_then_def)

lemma cmp_same [simp]: "cmp x x = Equal" for x :: "'a::linorder"
  by (simp add: cmp_def)

lemma ord_then_simps [simp]: "ord_then Equal b = b" "ord_then a Equal = a"
  by (auto simp: ord_then_def)

lemma ord_then_assoc: "ord_then (ord_then a b) c = ord_then a (ord_then b c)"
  by (simp add: ord_then_def)

lemma cmp_mono: "strict_mono f \<Longrightarrow> cmp (f a) (f b) = cmp a b" for f :: "'a::linorder \<Rightarrow> 'b::linorder"
  by (auto simp: cmp_def strict_mono_less strict_mono_eq)

lemma cmp_int [simp]: "cmp (int a) (int b) = cmp a b"
  by (rule cmp_mono) (simp add: strict_mono_def)

lemma cmp_of_bool: "cmp (of_bool a :: int) (of_bool b) = cmp a b"
  by (cases a; cases b) (simp_all add: cmp_def)

lemma cmp_uint [simp]: "cmp (uint a) (uint b) = cmp a b"
  by (rule cmp_mono) (simp add: strict_mono_def word_less_def)

lemma cmp_map_pair [simp]: "cmp (map (Pair False) xs) (map (Pair False) ys) = cmp xs ys" for xs ys :: "int list"
proof (induction xs arbitrary: ys)
  case (Cons x xs)
  then show ?case by (cases ys) (simp_all, simp add: cmp_def)
next
  case Nil
  then show ?case by (cases ys) (auto simp: cmp_def)
qed

lemma cmp_scaled [simp]: "cmp (i * f64_unit) (j * f64_unit) = cmp i j"
  using f64_unit_pos by (auto simp: cmp_def)

lemma vector_order_key:
  assumes "vector_matches (vec_type l) (vec_values l)" "vector_matches (vec_type r) (vec_values r)"
  shows "vector_order_compare l r = Inr (cmp (leaf_key (CVector l)) (leaf_key (CVector r)))"
proof -
  have floats: "float_sequence_compare (map f xs) (map f ys) = cmp (map (number_key \<circ> f) xs) (map (number_key \<circ> f) ys)"
    if "length xs = length ys" for f :: "'b \<Rightarrow> number" and xs ys
    unfolding float_sequence_compare_def sort_float_key [abs_def] using zip_compare_key [of "map f xs" "map f ys" number_key] that by simp
  show ?thesis
    using assms
    by (cases "vec_type l"; cases "vec_values l"; cases "vec_type r"; cases "vec_values r")
      (simp_all add: vector_order_compare_def floats Let_def, auto simp: cmp_def ord_then_def)
qed

lemma f64_finite_not_nan: "f64_is_finite b \<Longrightarrow> \<not> f64_is_nan b"
proof
  assume "f64_is_finite b" and nan: "f64_is_nan b"
  have "drop_bit 52 b AND 0x7ff = drop_bit 52 (b AND 0x7ff0000000000000)" by (simp add: drop_bit_and)
  also have "\<dots> = 0x7ff" using nan by (simp add: f64_is_nan_def)
  finally show False using \<open>f64_is_finite b\<close> by (simp add: f64_is_finite_def f64_exponent_def)
qed

lemma f32_finite_not_nan: "f32_is_finite b \<Longrightarrow> \<not> f32_is_nan b"
proof
  assume "f32_is_finite b" and nan: "f32_is_nan b"
  have "drop_bit 23 b AND 0xff = drop_bit 23 (b AND 0x7f800000)" by (simp add: drop_bit_and)
  also have "\<dots> = 0xff" using nan by (simp add: f32_is_nan_def)
  finally show False using \<open>f32_is_finite b\<close> by (simp add: f32_is_finite_def)
qed

lemma point_order_key:
  assumes "wf_cypher (CPoint l)" "wf_cypher (CPoint r)"
  shows "point_order_compare l r = cmp (leaf_key (CPoint l)) (leaf_key (CPoint r))"
proof -
  let ?c = "\<lambda>a b. case partial_number_cmp a b of Some order \<Rightarrow> order | None \<Rightarrow> Equal"
  have some: "\<exists>v. n = Some v" if "n \<in> set (map f64_number (pt_coordinates p))" "wf_cypher (CPoint p)" for n p
    using that f64_finite_not_nan by (auto simp: list_all_iff f64_number_def)
  have "?c a b = cmp (number_key a) (number_key b)"
    if "a \<in> set (map f64_number (pt_coordinates l))" "b \<in> set (map f64_number (pt_coordinates r))" for a b
    using some [OF that(1) assms(1)] some [OF that(2) assms(2)] by (auto simp: partial_number_cmp_def number_key_def)
  then have zip: "zip_compare ?c (map f64_number (pt_coordinates l)) (map f64_number (pt_coordinates r))
      = zip_compare (\<lambda>a b. cmp (number_key a) (number_key b)) (map f64_number (pt_coordinates l)) (map f64_number (pt_coordinates r))"
    by (rule zip_compare_cong)
  show ?thesis
  proof (cases "pt_srid l = pt_srid r")
    case True
    then have "length (pt_coordinates l) = length (pt_coordinates r)" using assms by simp
    then show ?thesis unfolding point_order_compare_def Let_def zip using True zip_compare_key [of "map f64_number (pt_coordinates l)" "map f64_number (pt_coordinates r)" number_key]
      by simp
  next
    case False
    then show ?thesis by (simp add: point_order_compare_def ord_then_def)
  qed
qed

text \<open>A leaf is a value other than a list and a map.\<close>

fun is_leaf :: "CypherValue \<Rightarrow> bool" where
  "is_leaf (CList _) = False"
| "is_leaf (CMap _) = False"
| "is_leaf _ = True"

lemma sort_integer_float_key:
  assumes "in_i64 i"
  shows "sort_integer_float i f = cmp (number_key (Some (i * f64_unit))) (number_key f)"
  by (cases f) (simp_all add: sort_integer_float_def integer_float_cmp_exact [OF assms] number_key_def cmp_def)

lemma flat_order_key:
  assumes "value_order_rank l = value_order_rank r" "is_leaf l" "wf_cypher l" "wf_cypher r"
  shows "flat_order l r = Inr (cmp (leaf_key l) (leaf_key r))"
proof -
  have int_key: "number_key (Some v) = (False, v)" for v by (simp add: number_key_def)
  note ints = sort_integer_float_key [unfolded int_key]
  show ?thesis
    using assms
    by (cases l; cases r)
      (simp_all del: leaf_key.simps wf_cypher.simps, simp_all add: flat_order_def path_order_key vector_order_key point_order_key sort_float_key ints cmp_reverse [symmetric]
        zoned_comparison_key_def local_datetime_comparison_key_def time_comparison_key_def ord_then_assoc cmp_of_bool del: leaf_key.simps(4,5) wf_cypher.simps(6) of_bool_eq_iff)
qed

section \<open>Lists and maps\<close>

text \<open>Lexicographic comparison; a proper prefix is smaller.\<close>

fun lex :: "('a \<Rightarrow> 'a \<Rightarrow> Ordering) \<Rightarrow> 'a list \<Rightarrow> 'a list \<Rightarrow> Ordering" where
  "lex c (x # xs) (y # ys) = ord_then (c x y) (lex c xs ys)"
| "lex c [] [] = Equal"
| "lex c [] (_ # _) = Less"
| "lex c (_ # _) [] = Greater"

lemma lex_reflexive: "(\<And>x. x \<in> set xs \<Longrightarrow> c x x = Equal) \<Longrightarrow> lex c xs xs = Equal"
  by (induction xs) simp_all

lemma lex_flips:
  "(\<And>x y. x \<in> set xs \<Longrightarrow> y \<in> set ys \<Longrightarrow> c y x = ord_reverse (c x y)) \<Longrightarrow> lex c ys xs = ord_reverse (lex c xs ys)"
  by (induction c xs ys rule: lex.induct) (simp_all add: reverse_then)

lemma composes_ends [simp]:
  "composes Less b Less" "composes a Greater Greater" "composes Greater Less c" "composes Less Greater c" "composes Equal b b" "composes a Equal a"
  by (auto simp: composes_def)

lemma lex_chains:
  "(\<And>x y z. x \<in> set xs \<Longrightarrow> y \<in> set ys \<Longrightarrow> z \<in> set zs \<Longrightarrow> composes (c x y) (c y z) (c x z))
   \<Longrightarrow> composes (lex c xs ys) (lex c ys zs) (lex c xs zs)"
proof (induction xs arbitrary: ys zs)
  case Nil
  show ?case by (cases ys; cases zs) simp_all
next
  case (Cons x xs)
  show ?case
  proof (cases ys)
    case Nil
    then show ?thesis by (cases zs) simp_all
  next
    case (Cons y ys')
    show ?thesis
    proof (cases zs)
      case Nil
      with \<open>ys = y # ys'\<close> show ?thesis by simp
    next
      case (Cons z zs')
      have "composes (lex c xs ys') (lex c ys' zs') (lex c xs zs')"
        by (rule Cons.IH, rule Cons.prems) (simp_all add: Cons \<open>ys = y # ys'\<close>)
      moreover have "composes (c x y) (c y z) (c x z)"
        by (rule Cons.prems) (simp_all add: Cons \<open>ys = y # ys'\<close>)
      ultimately show ?thesis by (simp add: Cons \<open>ys = y # ys'\<close> composes_then)
    qed
  qed
qed

section \<open>The order of values\<close>

declare cypher_order_compare.simps [simp del]

definition value_cmp :: "CypherValue \<Rightarrow> CypherValue \<Rightarrow> Ordering" where
  "value_cmp l r = (case cypher_order_compare l r of Inr order \<Rightarrow> order | Inl _ \<Rightarrow> Equal)"

lemma and_then_Inr_ex: "\<exists>o1. m = Inr o1 \<Longrightarrow> (\<And>o1. m = Inr o1 \<Longrightarrow> \<exists>o2. f o1 = Inr o2) \<Longrightarrow> \<exists>o2. and_then m f = Inr o2"
  by auto

lemma leaf_by_rank: "value_order_rank l = value_order_rank r \<Longrightarrow> is_leaf l = is_leaf r"
  by (cases l; cases r) simp_all

text \<open>On values the constructors accept the comparison never fails.\<close>

lemma compares:
  "wf_cypher l \<Longrightarrow> wf_cypher r \<Longrightarrow> \<exists>order. cypher_order_compare l r = Inr order"
  "list_all wf_cypher ls \<Longrightarrow> list_all wf_cypher rs \<Longrightarrow> \<exists>order. sequence_order_loop ls rs = Inr order"
  "list_all (\<lambda>e. wf_cypher (snd e)) lm \<Longrightarrow> list_all (\<lambda>e. wf_cypher (snd e)) rm \<Longrightarrow> \<exists>order. map_order_loop lm rm = Inr order"
proof (induction l r and ls rs and lm rm rule: cypher_order_compare_sequence_order_loop_map_order_loop.induct)
  case (1 l r)
  note cypher_order_compare.simps [simp]
  show ?case
  proof (cases "value_order_rank l = value_order_rank r")
    case True
    consider (list) a where "l = CList a" | (map) a where "l = CMap a" | (leaf) "is_leaf l" by (cases l) simp_all
    then show ?thesis
    proof cases
      case list
      with True obtain b where b: "r = CList b" by (cases r) simp_all
      with 1 True list obtain order where "sequence_order_loop a b = Inr order" by auto
      with b list show ?thesis by (cases order) simp_all
    next
      case map
      with True obtain b where "r = CMap b" by (cases r) simp_all
      with 1 True map show ?thesis by auto
    next
      case leaf
      with True 1(3,4) show ?thesis by (cases l) (simp_all add: flat_order_key del: wf_cypher.simps leaf_key.simps)
    qed
  qed simp
next
  case (2 a as b bs)
  then obtain order where "cypher_order_compare a b = Inr order" by auto
  with 2 show ?case by (cases order) simp_all
next
  case (4 k a as k' b bs)
  then obtain order where "cypher_order_compare a b = Inr order" by auto
  with 4 show ?case by (cases order) simp_all
qed simp_all

lemma value_cmp_rank: "value_order_rank l \<noteq> value_order_rank r \<Longrightarrow> value_cmp l r = cmp (value_order_rank l) (value_order_rank r)"
  by (simp add: value_cmp_def cypher_order_compare.simps)

lemma value_cmp_leaf:
  "value_order_rank l = value_order_rank r \<Longrightarrow> is_leaf l \<Longrightarrow> wf_cypher l \<Longrightarrow> wf_cypher r \<Longrightarrow> value_cmp l r = cmp (leaf_key l) (leaf_key r)"
  using flat_order_key [of l r] by (cases l) (simp_all add: value_cmp_def cypher_order_compare.simps del: wf_cypher.simps leaf_key.simps)

lemma compare_value_cmp: "wf_cypher l \<Longrightarrow> wf_cypher r \<Longrightarrow> cypher_order_compare l r = Inr (value_cmp l r)"
  using compares(1) [of l r] by (auto simp: value_cmp_def)

lemma sequence_loop_lex:
  "list_all wf_cypher as \<Longrightarrow> list_all wf_cypher bs \<Longrightarrow>
   \<exists>order. sequence_order_loop as bs = Inr order \<and> ord_then order (cmp (length as) (length bs)) = lex value_cmp as bs"
proof (induction as arbitrary: bs)
  case Nil
  then show ?case by (cases bs) (simp_all add: cmp_def)
next
  case (Cons x xs)
  show ?case
  proof (cases bs)
    case (Cons y ys)
    with Cons.IH [of ys] Cons.prems obtain order
      where loop: "sequence_order_loop xs ys = Inr order" "ord_then order (cmp (length xs) (length ys)) = lex value_cmp xs ys"
      by auto
    have head: "cypher_order_compare x y = Inr (value_cmp x y)"
      using Cons.prems Cons by (intro compare_value_cmp) simp_all
    have len: "cmp (length (x # xs)) (length (y # ys)) = cmp (length xs) (length ys)" by (simp add: cmp_def)
    show ?thesis unfolding Cons len
      by (cases "value_cmp x y") (simp_all add: head loop, simp_all add: ord_then_def flip: loop(2))
  qed (simp add: cmp_def)
qed

lemma map_loop_lex:
  "list_all (\<lambda>e. wf_cypher (snd e)) as \<Longrightarrow> list_all (\<lambda>e. wf_cypher (snd e)) bs \<Longrightarrow> length as = length bs \<Longrightarrow>
   map_order_loop as bs = Inr (lex value_cmp (map snd as) (map snd bs))"
proof (induction as arbitrary: bs)
  case (Cons e as)
  then show ?case by (cases bs; cases e) (auto simp: compare_value_cmp ord_then_def)
qed simp

lemma value_cmp_list:
  assumes "wf_cypher (CList as)" "wf_cypher (CList bs)"
  shows "value_cmp (CList as) (CList bs) = lex value_cmp as bs"
  using sequence_loop_lex [of as bs] assms by (auto simp: value_cmp_def [of "CList as"] cypher_order_compare.simps ord_then_def)

lemma value_cmp_map:
  assumes "wf_cypher (CMap as)" "wf_cypher (CMap bs)"
  shows "value_cmp (CMap as) (CMap bs) =
    (if length as = length bs \<and> map fst as = map fst bs then lex value_cmp (map snd as) (map snd bs)
     else cmp (length as, map fst as) (length bs, map fst bs))"
  using map_loop_lex [of as bs] assms
  by (auto simp: value_cmp_def [of "CMap as"] cypher_order_compare.simps map_shape_order_def ord_then_def)

text \<open>A comparison by a key first and by another comparison among equal keys.\<close>

lemma composes_by_key:
  fixes k :: "'a \<Rightarrow> 'k::linorder"
  assumes "k x = k y \<Longrightarrow> k y = k z \<Longrightarrow> composes (d x y) (d y z) (d x z)"
  shows "composes (if k x = k y then d x y else cmp (k x) (k y)) (if k y = k z then d y z else cmp (k y) (k z))
    (if k x = k z then d x z else cmp (k x) (k z))"
  using assms by (cases "k x" "k y" rule: linorder_cases; cases "k y" "k z" rule: linorder_cases)
    (auto simp: composes_def cmp_def)

lemma size_list_elem: "x \<in> set xs \<Longrightarrow> size x < size (CList xs)"
  by (induction xs) auto

lemma size_map_elem: "(k, v) \<in> set es \<Longrightarrow> size v < size (CMap es)"
  by (induction es) auto

lemma value_cmp_reflexive: "wf_cypher x \<Longrightarrow> value_cmp x x = Equal"
proof (induction "size x" arbitrary: x rule: less_induct)
  case less
  consider (list) xs where "x = CList xs" | (map) es where "x = CMap es" | (leaf) "is_leaf x" by (cases x) simp_all
  then show ?case
  proof cases
    case list
    with less show ?thesis
      by (auto simp: value_cmp_list list_all_iff intro!: lex_reflexive less.hyps dest: size_list_elem)
  next
    case map
    have "lex value_cmp (map snd es) (map snd es) = Equal"
      using less.prems map by (intro lex_reflexive less.hyps) (force simp: list_all_iff intro: size_map_elem [simplified])+
    with less.prems map show ?thesis by (simp add: value_cmp_map)
  qed (simp add: value_cmp_leaf less.prems)
qed

lemma value_cmp_flips: "wf_cypher x \<Longrightarrow> wf_cypher y \<Longrightarrow> value_cmp y x = ord_reverse (value_cmp x y)"
proof (induction "size x" arbitrary: x y rule: less_induct)
  case less
  show ?case
  proof (cases "value_order_rank x = value_order_rank y")
    case True
    consider (list) xs where "x = CList xs" | (map) es where "x = CMap es" | (leaf) "is_leaf x" by (cases x) simp_all
    then show ?thesis
    proof cases
      case list
      with True obtain ys where y: "y = CList ys" by (cases y) simp_all
      have "lex value_cmp ys xs = ord_reverse (lex value_cmp xs ys)"
        using less.prems list y by (intro lex_flips less.hyps) (auto simp: list_all_iff dest: size_list_elem)
      with less.prems list y show ?thesis by (simp add: value_cmp_list)
    next
      case map
      with True obtain fs where y: "y = CMap fs" by (cases y) simp_all
      have "lex value_cmp (map snd fs) (map snd es) = ord_reverse (lex value_cmp (map snd es) (map snd fs))"
        using less.prems map y by (intro lex_flips less.hyps) (force simp: list_all_iff intro: size_map_elem [simplified])+
      with less.prems map y show ?thesis
        by (simp add: value_cmp_map cmp_reverse [of "(length fs, map fst fs)"] eq_commute del: cmp_pair)
    next
      case leaf
      with True less.prems leaf_by_rank [OF True] show ?thesis
        by (simp add: value_cmp_leaf cmp_reverse [of "leaf_key y"])
    qed
  next
    case False
    then show ?thesis by (simp add: value_cmp_rank cmp_reverse [of "value_order_rank y"])
  qed
qed

text \<open>Comparing values is comparing ranks, and then values of one rank.\<close>

lemma value_cmp_by_rank:
  "value_cmp x y = (if value_order_rank x = value_order_rank y then value_cmp x y else cmp (value_order_rank x) (value_order_rank y))"
  by (simp add: value_cmp_rank)

lemma value_cmp_chains:
  "wf_cypher x \<Longrightarrow> wf_cypher y \<Longrightarrow> wf_cypher z \<Longrightarrow> composes (value_cmp x y) (value_cmp y z) (value_cmp x z)"
proof (induction "size x" arbitrary: x y z rule: less_induct)
  case less
  have "composes (value_cmp x y) (value_cmp y z) (value_cmp x z)"
    if xy: "value_order_rank x = value_order_rank y" and yz: "value_order_rank y = value_order_rank z"
  proof -
    consider (list) xs where "x = CList xs" | (map) es where "x = CMap es" | (leaf) "is_leaf x" by (cases x) simp_all
    then show ?thesis
    proof cases
      case list
      with xy obtain ys where y: "y = CList ys" by (cases y) simp_all
      with yz obtain zs where z: "z = CList zs" by (cases z) simp_all
      have "composes (lex value_cmp xs ys) (lex value_cmp ys zs) (lex value_cmp xs zs)"
        using less.prems list y z by (intro lex_chains less.hyps) (auto simp: list_all_iff dest: size_list_elem)
      with less.prems list y z show ?thesis by (simp add: value_cmp_list)
    next
      case map
      with xy obtain fs where y: "y = CMap fs" by (cases y) simp_all
      with yz obtain gs where z: "z = CMap gs" by (cases z) simp_all
      have "composes (lex value_cmp (map snd es) (map snd fs)) (lex value_cmp (map snd fs) (map snd gs)) (lex value_cmp (map snd es) (map snd gs))"
        using less.prems map y z by (intro lex_chains less.hyps) (force simp: list_all_iff intro: size_map_elem [simplified])+
      then show ?thesis
        using less.prems map y z
          composes_by_key [of "\<lambda>es. (length es, map fst es)" es fs gs "\<lambda>as bs. lex value_cmp (map snd as) (map snd bs)"]
        by (simp add: value_cmp_map del: cmp_pair)
    next
      case leaf
      with xy yz less.prems leaf_by_rank [OF xy] leaf_by_rank [OF yz] show ?thesis
        by (simp add: value_cmp_leaf cmp_composes)
    qed
  qed
  from composes_by_key [of value_order_rank x y z value_cmp, OF this] show ?case
    by (subst value_cmp_by_rank [of x y], subst value_cmp_by_rank [of y z], subst value_cmp_by_rank [of x z]) assumption
qed

interpretation order_by: lawful_comparison value_cmp wf_cypher
  by unfold_locales (fact value_cmp_reflexive value_cmp_flips value_cmp_chains)+

text \<open>C14. \<open>ORDER BY\<close> sorts by a total preorder, with NULL last: on values the constructors accept the comparison never
  fails, every value equals itself, exchanging the arguments reverses the answer, and comparing is transitive, strictly as
  soon as one step is strict; across INTEGER and FLOAT, NaN, nested lists, maps, paths, points and vectors.\<close>

theorem order_total:
  assumes "wf_cypher x" "wf_cypher y" "wf_cypher z"
  shows "cypher_order_compare x x = Inr Equal
    \<and> (\<exists>o1. cypher_order_compare x y = Inr o1 \<and> cypher_order_compare y x = Inr (ord_reverse o1))
    \<and> (\<forall>o1 o2. cypher_order_compare x y = Inr o1 \<and> cypher_order_compare y z = Inr o2 \<and> o1 \<noteq> Greater \<and> o2 \<noteq> Greater \<longrightarrow>
        cypher_order_compare x z = Inr (if o1 = Equal then o2 else o1))
    \<and> (x \<noteq> CNull \<longrightarrow> cypher_order_compare x CNull = Inr Less)"
proof -
  have "value_cmp x z = (if value_cmp x y = Equal then value_cmp y z else value_cmp x y)"
    if "value_cmp x y \<noteq> Greater" "value_cmp y z \<noteq> Greater"
    using order_by.chains [OF assms] that by (cases "value_cmp x y"; cases "value_cmp y z") (simp_all add: composes_def)
  moreover have "cypher_order_compare x CNull = Inr Less" if "x \<noteq> CNull" using that by (cases x) (simp_all add: cmp_def cypher_order_compare.simps)
  ultimately show ?thesis
    using assms order_by.reflexive [of x] order_by.flips [of x y]
    by (simp add: compare_value_cmp)
qed

lemma order_total_witness:
  "cypher_order_compare (CList [CInteger 2]) (CList [CInteger 2]) = Inr Equal"
  using order_total [of "CList [CInteger 2]" "CList [CInteger 2, CNull]" "CString (ascii ''a'')"]
  by (simp add: in_i64_def)

end
