(* ===== verification/Value_Bridge_Laws.thy ===== *)
theory Value_Bridge_Laws
  imports Value_Bridge Cypher_Order
begin

text \<open>A query value that is written as a property and read again.\<close>

lemma checked_property_Inr: "checked_property p = Inr q \<Longrightarrow> q = Some p"
  by (auto simp: checked_property_def split: if_splits)

section \<open>UUIDs\<close>

definition hex_digit :: "nat \<Rightarrow> byte" where
  "hex_digit d = of_nat (if d < 10 then d + 48 else d + 87)"

lemma hex_digit_facts:
  assumes "d < 16"
  shows "uuid_hex (hex_digit d) = Inr (of_nat d)" "hex_digit d \<noteq> 45"
proof -
  have "d = 0 \<or> d = 1 \<or> d = 2 \<or> d = 3 \<or> d = 4 \<or> d = 5 \<or> d = 6 \<or> d = 7 \<or> d = 8 \<or> d = 9 \<or> d = 10 \<or> d = 11 \<or> d = 12
    \<or> d = 13 \<or> d = 14 \<or> d = 15"
    using assms by presburger
  then have d: "d \<in> {0, 1, 2, 3, 4, 5, 6, 7, 8, 9, 10, 11, 12, 13, 14, 15}" by simp
  show "uuid_hex (hex_digit d) = Inr (of_nat d)" "hex_digit d \<noteq> 45"
    using d by (elim insertE emptyE; simp add: uuid_hex_def between_def hex_digit_def)+
qed

lemma nibbles: "push_bit 4 (of_nat (unat b div 16)) OR of_nat (unat b mod 16) = b" for b :: byte
proof -
  have "unat b div 16 = unat (drop_bit 4 b)" by (simp add: drop_bit_eq_div unat_div_distrib)
  moreover have "unat b mod 16 = unat (take_bit 4 b)" by (simp add: take_bit_eq_mod unat_mod_distrib)
  ultimately show ?thesis by (simp only: of_nat_unat ucast_id) (auto intro!: bit_word_eqI simp: bit_simps)
qed

definition hex_high :: "byte \<Rightarrow> byte" where "hex_high b = hex_digit (unat b div 16)"
definition hex_low :: "byte \<Rightarrow> byte" where "hex_low b = hex_digit (unat b mod 16)"

lemma hex_byte_digits: "hex_byte b = [hex_high b, hex_low b]"
  by (simp add: hex_byte_def hex_digit_def hex_high_def hex_low_def Let_def)

lemma unat_byte_nibble: "unat (b :: byte) div 16 < 16"
  using unsigned_less [of b] by (simp add: div_less_iff_less_mult)

lemma hex_byte_facts:
  "hex_high b \<noteq> 45" "hex_low b \<noteq> 45" "uuid_bytes (hex_high b # hex_low b # rest) = and_then (uuid_bytes rest) (\<lambda>bs. Inr (b # bs))"
  using hex_digit_facts [OF unat_byte_nibble [of b]] hex_digit_facts [of "unat b mod 16"] nibbles [of b]
  by (simp_all add: hex_high_def hex_low_def)

lemma uuid_round_trip:
  assumes "length bs = 16"
  shows "uuid_parse (uuid_text bs) = Inr bs"
proof -
  obtain b0 b1 b2 b3 b4 b5 b6 b7 b8 b9 b10 b11 b12 b13 b14 b15
    where bs: "bs = [b0, b1, b2, b3, b4, b5, b6, b7, b8, b9, b10, b11, b12, b13, b14, b15]"
    using assms by (auto simp: length_Suc_conv numeral_eq_Suc)
  show ?thesis
    unfolding bs uuid_text_def uuid_parse_def
    by (simp add: hex_byte_digits Let_def matches_hyphens_def hex_byte_facts del: uuid_bytes.simps(1))
qed

section \<open>Vectors\<close>

lemma int_from_le_bytes_of:
  assumes "0 < w" "- (2 ^ (8 * w - 1)) \<le> v" "v < 2 ^ (8 * w - 1)"
  shows "int_from_le_bytes w (int_le_bytes w v) = v"
proof -
  define h :: int where "h = 2 ^ (8 * w - 1)"
  have "8 * w = Suc (8 * w - 1)" using assms(1) by simp
  then have h: "2 ^ (8 * w) = 2 * h" "0 < h" unfolding h_def by (metis power_Suc, simp)
  have "int (256 ^ w) = 2 * h" unfolding h(1) [symmetric] by (simp add: power_mult)
  then have p: "256 ^ w = nat (2 * h)" by linarith
  have range: "0 \<le> v mod (2 * h)" "v mod (2 * h) < 2 * h" using h(2) by simp_all
  then have "le_value (int_le_bytes w v) = nat (v mod (2 * h))"
    by (simp add: int_le_bytes_def le_value_le_bytes p h(1) nat_mod_distrib [symmetric])
  then have n: "int (le_value (int_le_bytes w v)) = v mod (2 * h)" using range by simp
  note a = assms(2,3) [folded h_def]
  show ?thesis
  proof (cases "0 \<le> v")
    case True
    then have "v mod (2 * h) = v" using a by simp
    then show ?thesis using True a n unfolding int_from_le_bytes_def h(1) h_def [symmetric] Let_def by simp
  next
    case False
    then have "v mod (2 * h) = v + 2 * h" using a mod_pos_pos_trivial [of "v + 2 * h" "2 * h"] by simp
    then show ?thesis using False a n unfolding int_from_le_bytes_def h(1) h_def [symmetric] Let_def by simp
  qed
qed

lemma unsigned_from_le: "of_nat (le_value (u32_bytes a)) = a" "of_nat (le_value (u64_bytes b)) = b"
  using unsigned_less [of a, where 'a = nat] unsigned_less [of b, where 'a = nat] by (simp_all add: u32_bytes_def u64_bytes_def le_value_le_bytes)

lemma packed_chunks:
  assumes "0 < w" "\<And>x. x \<in> set xs \<Longrightarrow> length (encode x) = w"
  shows "fst (as_chunks w (pack_coordinates xs encode)) = map encode xs"
proof -
  have "as_chunks w (concat (map encode xs) @ []) = (map encode xs, [])"
    by (rule as_chunks_concat) (use assms in auto)
  then show ?thesis by (simp add: pack_coordinates_def)
qed

lemma packed_length: "(\<And>x. x \<in> set xs \<Longrightarrow> length (encode x) = w) \<Longrightarrow> length (pack_coordinates xs encode) = length xs * w"
  by (induction xs) (simp_all add: pack_coordinates_def)

lemma int_le_bytes_length [simp]: "length (int_le_bytes w v) = w"
  by (simp add: int_le_bytes_def)

lemma byte_word_lengths [simp]: "length (u32_bytes a) = 4" "length (u64_bytes b) = 8"
  by (simp_all add: u32_bytes_def u64_bytes_def)

text \<open>The range of the coordinates of each type.\<close>

fun vector_in_range :: "VectorValues \<Rightarrow> bool" where
  "vector_in_range (VI8 vs) = list_all (\<lambda>v. - 128 \<le> v \<and> v < 128) vs"
| "vector_in_range (VI16 vs) = list_all (\<lambda>v. - 32768 \<le> v \<and> v < 32768) vs"
| "vector_in_range (VI32 vs) = list_all in_i32 vs"
| "vector_in_range (VI64 vs) = list_all in_i64 vs"
| "vector_in_range _ = True"

lemma int_le_bytes_1: "int_le_bytes 1 v = [hd (int_le_bytes 1 v)]"
  by (simp add: int_le_bytes_def)

lemma packed_bytes: "map (\<lambda>b. f [b]) (pack_coordinates vs (int_le_bytes 1)) = map (\<lambda>v. f (int_le_bytes 1 v)) vs"
proof (induction vs)
  case (Cons v vs)
  have "map (\<lambda>b. f [b]) (int_le_bytes 1 v) = [f (int_le_bytes 1 v)]" by (subst (1 2) int_le_bytes_1) simp
  then show ?case using Cons by (simp add: pack_coordinates_def)
qed (simp add: pack_coordinates_def)

lemma map_ident: "(\<And>x. x \<in> set xs \<Longrightarrow> f x = x) \<Longrightarrow> map f xs = xs"
  by (induction xs) auto

lemma vector_round_trip:
  assumes "vector_new (vec_type v) (vec_values v) = Inr v" "vector_in_range (vec_values v)"
  shows "vector_value (storage_vector v) = Inr (CVector v)"
proof -
  have "vector_matches (vec_type v) (vec_values v)" using assms(1) by (auto simp: vector_new_def split: if_splits)
  then show ?thesis
    using assms(2) assms(1)
    by (cases "vec_type v"; cases "vec_values v")
      (simp_all add: vector_value_def storage_vector_def packed_chunks packed_bytes o_def unsigned_from_le
        map_ident packed_bytes [simplified] int_from_le_bytes_of list_all_iff in_i32_def in_i64_def)
qed

section \<open>Zones\<close>

lemma split_first:
  "split_at_byte sep s = a # rest \<Longrightarrow> (if rest = [] then s = a else \<exists>t. s = a @ sep # t \<and> split_at_byte sep t = rest)"
proof (induction s arbitrary: a)
  case (Cons b s)
  show ?case
  proof (cases "b = sep")
    case False
    obtain c r where c: "split_at_byte sep s = c # r" by (cases "split_at_byte sep s") (cases s; auto split: list.splits if_splits)+
    with Cons.prems False have "a = b # c" "rest = r" by simp_all
    with Cons.IH [of c] c show ?thesis by (auto split: if_splits)
  qed (use Cons.prems in \<open>cases s; auto split: list.splits if_splits\<close>)
qed auto

text \<open>A zone id that is an offset is read back only in the form \<^verbatim>\<open>+HH:MM\<close>.\<close>

definition signed_zone :: "ustr \<Rightarrow> bool" where
  "signed_zone zone \<longleftrightarrow> zone \<noteq> [] \<and> (hd zone = 43 \<or> hd zone = 45)"

definition readable_zone :: "ustr \<Rightarrow> bool" where
  "readable_zone zone \<longleftrightarrow> (signed_zone zone \<longrightarrow> length zone = 6)"

text \<open>What is known of the IANA data base: no name begins with a sign.\<close>

definition unsigned_names :: "chrono \<Rightarrow> bool" where
  "unsigned_names tz \<longleftrightarrow> (\<forall>zone. tz_known tz zone \<longrightarrow> \<not> signed_zone zone)"

lemma utc_names:
  assumes "zone \<in> {[90], ascii ''UTC'', ascii ''GMT'', ascii ''GMT0''}"
  shows "\<not> signed_zone zone" "validate_zone_id tz zone = Inr (Some 0)"
proof -
  have "\<not> signed_zone [90]" "\<not> signed_zone (ascii ''UTC'')" "\<not> signed_zone (ascii ''GMT'')" "\<not> signed_zone (ascii ''GMT0'')"
    by code_simp+
  then show u: "\<not> signed_zone zone" using assms by auto
  have "\<not> (zone \<noteq> [] \<and> (hd zone = 43 \<or> hd zone = 45))" using u by (simp add: signed_zone_def)
  then show "validate_zone_id tz zone = Inr (Some 0)" using assms by (auto simp: validate_zone_id_def)
qed

lemma parse_i32_two_digits:
  assumes "parse_two_digits s name = Inr n"
  shows "parse_i32 s = Some (int n)"
proof -
  have s: "length s = 2" "list_all is_ascii_digit s" "vok_or (parse_u32 s) (name @ '' is invalid'') = Inr n"
    using assms by (auto simp: parse_two_digits_def split: if_splits)
  then have "s \<noteq> []" "hd s \<noteq> 43" "hd s \<noteq> 45" by (cases s; auto simp: is_ascii_digit_def between_def)+
  moreover from this s have "digits_nat s = n" by (cases s) (auto simp: parse_u32_def vok_or_def Let_def split: if_splits)
  moreover have "n < 100" by (rule parse_two_digits_Inr(1) [OF assms])
  ultimately show ?thesis using s by (cases s) (auto simp: parse_i32_def parse_i64_def in_i64_def in_i32_def)
qed

lemma parse_offset_fields:
  assumes "parse_offset zone = Inr off" "signed_zone zone"
  obtains h m s where "offset_fields (tl zone) = Inr (h, m, s)"
    "off = (if hd zone = 45 then - 1 else 1) * (int h * 3600 + int m * 60 + int s)"
proof -
  obtain b ds where z: "zone = b # ds" "b = 43 \<or> b = 45" using assms(2) by (cases zone) (auto simp: signed_zone_def)
  have "zone \<noteq> [90]" using z by auto
  with assms(1) obtain sg ds' h m s where *: "offset_sign zone = Inr (sg, ds')" "offset_fields ds' = Inr (h, m, s)"
    "off = sg * (int h * 3600 + int m * 60 + int s)"
    by (auto simp: parse_offset_def invalid_offset_form_def split: if_splits)
  then show ?thesis using z that by (auto simp: offset_sign_def split: if_splits)
qed

lemma fixed_zone_offset_signed:
  assumes "parse_offset zone = Inr off" "signed_zone zone"
  shows "fixed_zone_offset zone = (if length zone = 6 then Some off else None)"
proof (cases "length zone = 6")
  case True
  obtain h m s where f: "offset_fields (tl zone) = Inr (h, m, s)"
    "off = (if hd zone = 45 then - 1 else 1) * (int h * 3600 + int m * 60 + int s)" by (rule parse_offset_fields [OF assms])
  obtain b ds where z: "zone = b # ds" "b = 43 \<or> b = 45" using assms(2) by (cases zone) (auto simp: signed_zone_def)
  then have len: "length ds = 5" using True by simp
  have two: "length x = 2" if "parse_two_digits x n = Inr k" for x n k
    using that by (simp add: parse_two_digits_def split: if_splits)
  obtain x y hn mn where parts: "split_at_byte 58 ds = [x, y]" "parse_two_digits x hn = Inr h" "parse_two_digits y mn = Inr m" "s = 0"
  proof -
    have *: "58 \<in> set ds" using f(1) len z(1) by (auto simp: offset_fields_def invalid_offset_form_def split: if_splits)
    obtain x r where x: "split_at_byte 58 ds = x # r" using f(1) z(1) * by (auto simp: offset_fields_def invalid_offset_form_def split: list.splits)
    then obtain t where t: "ds = x @ 58 # t" "split_at_byte 58 t = r" using split_first [OF x] * 
      f(1) z(1) by (auto simp: offset_fields_def invalid_offset_form_def split: list.splits if_splits)
    obtain y r2 where y: "r = y # r2" using f(1) z(1) * x by (auto simp: offset_fields_def invalid_offset_form_def split: list.splits)
    show ?thesis
    proof (cases r2)
      case Nil
      then show ?thesis using f(1) z(1) * x y that by (auto simp: offset_fields_def)
    next
      case (Cons w r3)
      then have "length x = 2" "length y = 2" "length w = 2" using f(1) z(1) * x y two
        by (auto simp: offset_fields_def invalid_offset_form_def split: list.splits)
      moreover have "\<exists>u. t = y @ 58 # u \<and> split_at_byte 58 u = r2" using split_first [of 58 t y r2] t(2) y Cons by auto
      ultimately have "6 \<le> length ds" using t(1) by auto
      then show ?thesis using len by simp
    qed
  qed
  have lens: "length x = 2" "length y = 2" using two parts(2,3) by blast+
  have ds: "ds = x @ 58 # y" using split_first [OF parts(1)] split_first [of 58 y y "[]"] split_first by force
  have "zone ! 3 = 58" "take 2 (drop 1 zone) = x" "drop 4 zone = y" "zone ! 0 = b" "hd zone = b"
    using ds lens z(1) by (simp_all add: nth_append)
  moreover have "zone \<notin> {[90], ascii ''UTC'', ascii ''GMT'', ascii ''GMT0''}" using utc_names(1) assms(2) by blast
  ultimately show ?thesis
    using True z(2) f(2) parts(4) parse_i32_two_digits [OF parts(2)] parse_i32_two_digits [OF parts(3)]
    by (simp add: fixed_zone_offset_def)
next
  case False
  moreover have "zone \<notin> {[90], ascii ''UTC'', ascii ''GMT'', ascii ''GMT0''}" using utc_names(1) assms(2) by blast
  ultimately show ?thesis by (simp add: fixed_zone_offset_def)
qed

lemma zone_offset_at_value:
  assumes z: "zone_offset tz zone instant = Inr off" and tz: "unsigned_names tz"
  shows "zone_offset_at tz zone (instant div 1000000000) (nat (instant mod 1000000000)) =
    (if readable_zone zone then Inr off else Inl (InternalError ''persisted ZonedDateTime has unknown IANA zone''))"
proof (cases "zone \<in> {[90], ascii ''UTC'', ascii ''GMT'', ascii ''GMT0''}")
  case True
  then have "off = 0" "fixed_zone_offset zone = Some 0" using z utc_names(2) [OF True, of tz] True by (simp_all add: zone_offset_def fixed_zone_offset_def)
  then show ?thesis using utc_names [OF True] by (simp add: zone_offset_at_def readable_zone_def)
next
  case False
  show ?thesis
  proof (cases "signed_zone zone")
    case True
    then have "parse_offset zone = Inr off" using z False by (auto simp: zone_offset_def validate_zone_id_def signed_zone_def)
    moreover have "\<not> tz_known tz zone" using tz True by (auto simp: unsigned_names_def)
    ultimately show ?thesis
      using fixed_zone_offset_signed [of zone off] True by (simp add: zone_offset_at_def readable_zone_def)
  next
    case unsigned: False
    have "tz_known tz zone \<and> named_zone_offset tz zone instant = Inr off"
      using z False unsigned by (auto simp: zone_offset_def validate_zone_id_def signed_zone_def split: if_splits)
    moreover have "fixed_zone_offset zone = None"
      using False unsigned by (cases zone) (auto simp: fixed_zone_offset_def signed_zone_def)
    ultimately show ?thesis
      using unsigned by (auto simp: zone_offset_at_def readable_zone_def named_zone_offset_def Let_def split: if_splits)
  qed
qed

section \<open>The values of the query language\<close>

abbreviation short_year :: "int \<Rightarrow> bool" where
  "short_year y \<equiv> - 1000 < y \<and> y < 0"

text \<open>What the constructors of the values establish.\<close>

fun accepted :: "chrono \<Rightarrow> CypherValue \<Rightarrow> bool" where
  "accepted tz (CInteger i) = in_i64 i"
| "accepted tz (CString s) = utf8_valid s"
| "accepted tz (CList vs) = list_all (accepted tz) vs"
| "accepted tz (CDate d) = (\<exists>s. date_parse s = Inr d)"
| "accepted tz (CLocalTime t) = (\<exists>s. local_time_parse s = Inr t)"
| "accepted tz (CTime t) = (\<exists>s. time_parse s = Inr t)"
| "accepted tz (CLocalDateTime t) = (\<exists>s. local_datetime_parse s = Inr t)"
| "accepted tz (CZonedDateTime z) = (utf8_valid (zdt_zone z) \<and> (\<exists>s. zoned_parse tz s (zdt_zone z) = Inr z))"
| "accepted tz (CDuration d) = (case duration_components d of (m, dd, s, n) \<Rightarrow>
     d = duration_from_components m dd s n \<and> in_i64 m \<and> in_i64 dd \<and> in_i64 s \<and> in_i64 n)"
| "accepted tz (CPoint p) = (point_new (pt_crs p) (pt_coordinates p) = Inr p)"
| "accepted tz (CVector v) = (vector_new (vec_type v) (vec_values v) = Inr v \<and> vector_in_range (vec_values v))"
| "accepted tz (CUuid u) = (length u = 16)"
| "accepted tz _ = True"

text \<open>What can be read back.\<close>

definition zoned_year :: "ZonedDateTime \<Rightarrow> int" where
  "zoned_year z = fst (civil_from_days ((zdt_instant z + zdt_offset z * 1000000000) div 86400000000000))"

fun readable :: "CypherValue \<Rightarrow> bool" where
  "readable (CList vs) = list_all readable vs"
| "readable (CDate d) = (\<not> short_year (fst (civil_from_days (date_days d))))"
| "readable (CLocalDateTime t) = (\<not> short_year (fst (civil_from_days (ldt_days t))))"
| "readable (CZonedDateTime z) = (readable_zone (zdt_zone z) \<and> \<not> short_year (zoned_year z))"
| "readable _ = True"

lemma zoned_components:
  assumes "zoned_storage_components z = Inr (sec, n, zn)"
  shows "zn = zdt_zone z" "n < 1000000000" "in_i64 sec" "sec = zdt_instant z div 1000000000" "n = nat (zdt_instant z mod 1000000000)"
proof -
  show z: "zn = zdt_zone z" "in_i64 sec" "sec = zdt_instant z div 1000000000" "n = nat (zdt_instant z mod 1000000000)"
    using assms unfolding zoned_storage_components_def Let_def by (simp_all split: if_splits)
  show "n < 1000000000" unfolding z(4) by (simp add: nat_less_iff)
qed

lemma euclid_split:
  fixes q n :: int
  assumes "0 \<le> n" "n < 1000000000"
  shows "(q * 1000000000 + n) div 86400000000000 = q div 86400"
    "(q * 1000000000 + n) mod 86400000000000 = q mod 86400 * 1000000000 + n"
proof -
  have q: "q = q div 86400 * 86400 + q mod 86400" by simp
  have r: "0 \<le> q mod 86400" "q mod 86400 < 86400" by simp_all
  have e: "q * 1000000000 + n = q div 86400 * 86400000000000 + (q mod 86400 * 1000000000 + n)" using q by linarith
  have b: "0 \<le> q mod 86400 * 1000000000 + n" "q mod 86400 * 1000000000 + n < 86400000000000" using r assms by linarith+
  show "(q * 1000000000 + n) div 86400000000000 = q div 86400"
    by (rule div_exact [OF _ b]) (use e in linarith)
  moreover have "(q * 1000000000 + n) mod 86400000000000 = (q * 1000000000 + n) - (q * 1000000000 + n) div 86400000000000 * 86400000000000"
    by (rule minus_div_mult_eq_mod [symmetric])
  ultimately show "(q * 1000000000 + n) mod 86400000000000 = q mod 86400 * 1000000000 + n" using e by linarith
qed

lemma zoned_datetime_round_trip:
  assumes z: "zoned_parse tz s (zdt_zone z) = Inr z" and tz: "unsigned_names tz"
    and c: "zoned_storage_components z = Inr (sec, n, zone)"
  defines "stored \<equiv> \<lparr>epoch_seconds = sec, zdt_nanoseconds = of_nat n, zone_id = zone\<rparr>"
  shows "if readable (CZonedDateTime z) then query_zoned_value tz stored = Inr (CZonedDateTime z)
    else \<exists>e. query_zoned_value tz stored = Inl e"
proof -
  obtain y m d t off where v: "valid_date y m d" "\<bar>y\<bar> \<le> 999999999" "t < day_nanos" "offset_range off"
    "z = zoned_value_of (date_value y m d) t off (zdt_zone z)" "zone_offset tz (zdt_zone z) (zdt_instant z) = Inr off"
    by (rule zoned_parse_Inr [OF z])
  note comp = zoned_components [OF c]
  define days where "days = days_from_civil y m d"
  have off: "zdt_offset z = off" and instant: "zdt_instant z + off * 1000000000 = days * 86400000000000 + int t"
    by (subst v(5), simp add: days_def date_value_def)+
  have at: "zone_offset_at tz (zdt_zone z) sec n =
      (if readable_zone (zdt_zone z) then Inr off else Inl (InternalError ''persisted ZonedDateTime has unknown IANA zone''))"
    using zone_offset_at_value [OF v(6) tz] by (simp add: comp(4,5))
  have n: "unat (of_nat n :: u32) = n" using comp(2) by (simp add: unat_of_nat)
  have i: "zdt_instant z = sec * 1000000000 + int n" unfolding comp(4,5) by simp
  then have local: "(sec + off) * 1000000000 + int n = days * 86400000000000 + int t" using instant by simp
  have t: "int t < 86400000000000" using v(3) by simp
  have "(sec + off) div 86400 = days" "(sec + off) mod 86400 * 1000000000 + int n = int t"
    using euclid_split [of "int n" "sec + off", unfolded local] comp(2) t by simp_all
  then have day: "(sec + off) div 86400 = days" "nat ((sec + off) mod 86400) * 1000000000 + n = t"
    by (simp, linarith)
  have "\<bar>days\<bar> \<le> 400000000000" unfolding days_def by (rule days_bound [OF v(1,2)])
  moreover have "sec + off = days * 86400 + (sec + off) mod 86400" "0 \<le> (sec + off) mod 86400" "(sec + off) mod 86400 < 86400"
    using div_mult_mod_eq [of "sec + off" 86400] unfolding day(1) by simp_all
  ultimately have "- 9223372036854775808 \<le> sec + off" "sec + off < 9223372036854775808"
    unfolding abs_le_iff by linarith+
  then have range: "in_i64 (sec + off)" by (simp add: in_i64_def)
  have year: "zoned_year z = y"
    using civil_from_days_of [OF v(1) date_civil_range [OF v(1,2)]] t by (simp add: zoned_year_def off instant days_def)
  have parse: "zoned_from_instant tz (zdt_instant z) (zdt_zone z) =
      zoned_parse tz (format_date_from_days days @ 84 # format_local_time t @ format_offset off) (zdt_zone z)"
  proof -
    have zi: "days * 86400000000000 + int t - off * 1000000000 = zdt_instant z" using instant by simp
    have "local_components (zdt_instant z) off = Inr (days, t)"
      using local_components_value [OF days_bound [OF v(1,2)] v(3), of off] unfolding days_def [symmetric] zi .
    then show ?thesis by (simp add: zoned_from_instant_def v(6))
  qed
  have "query_zoned_value tz stored =
      (if readable_zone (zdt_zone z) then and_then (from_value (zoned_from_instant tz (zdt_instant z) (zdt_zone z))) (\<lambda>z. Inr (CZonedDateTime z))
       else Inl (InternalError ''persisted ZonedDateTime has unknown IANA zone''))"
    by (simp add: query_zoned_value_def stored_def n at comp(1) range day parse Let_def)
  then show ?thesis
    using zoned_from_instant_value [OF v(1-6)] by (simp add: year)
qed

lemma point_new_crs:
  "point_new nm cs = Inr q \<Longrightarrow> point_crs nm = Some (name, srid, dim, geographic) \<Longrightarrow> pt_crs q = name \<and> pt_srid q = srid"
  by (auto simp: point_new_def vok_or_def split: if_splits)

lemma point_round_trip:
  assumes "point_new (pt_crs p) (pt_coordinates p) = Inr p"
  shows "point_value (point_property p) = Inr (CPoint p)"
proof -
  obtain name srid dim geographic where crs: "point_crs (pt_crs p) = Some (name, srid, dim, geographic)"
    using assms by (cases "point_crs (pt_crs p)") (auto simp: point_new_def vok_or_def)
  then have "pt_crs p = name" "pt_srid p = srid" using point_new_crs [OF assms] by blast+
  note * = crs this
  have "(name, srid) \<in> {(ascii ''wgs-84'', 4326), (ascii ''wgs-84-3d'', 4979), (ascii ''cartesian'', 7203), (ascii ''cartesian-3d'', 9157)}"
    using *(1) by (auto simp: point_crs_def Let_def split: if_splits)
  then show ?thesis
    using assms *(2,3) by (auto simp: point_value_def point_property_def)
qed

text \<open>Reading what was written: the value itself when it is readable, an error when it is not.\<close>

definition reads_back :: "CypherValue \<Rightarrow> CypherValue qres \<Rightarrow> bool" where
  "reads_back v r \<longleftrightarrow> (if readable v then r = Inr v else \<exists>e. r = Inl e)"

lemma date_reads_back:
  assumes "date_parse s = Inr d"
  shows "reads_back (CDate d) (property_value tz (VDate (date_days d)))"
proof -
  obtain y m dd where d: "valid_date y m dd" "\<bar>y\<bar> \<le> 999999999" "d = date_value y m dd" by (rule date_parse_Inr [OF assms])
  then have "date_days d = days_from_civil y m dd" by (simp add: date_value_def)
  moreover have "civil_from_days (days_from_civil y m dd) = (y, m, dd)"
    by (rule civil_from_days_of [OF d(1) date_civil_range [OF d(1,2)]])
  ultimately show ?thesis
    using date_from_days_value [OF d(1,2)] d(3) by (auto simp: reads_back_def date_from_days_def)
qed

lemma local_datetime_reads_back:
  assumes "local_datetime_parse s = Inr l"
  shows "reads_back (CLocalDateTime l) (property_value tz (VLocalDateTime (ldt_days l) (of_nat (ldt_nanoseconds l))))"
proof -
  obtain y m d where *: "valid_date y m d" "\<bar>y\<bar> \<le> 999999999" "l = local_datetime_value_of (date_value y m d) (ldt_nanoseconds l)"
    "ldt_nanoseconds l < day_nanos" by (rule local_datetime_parse_Inr [OF assms])
  have days: "ldt_days l = days_from_civil y m d" by (subst *(3)) (simp add: local_datetime_value_of_def date_value_def)
  have "unat (of_nat (ldt_nanoseconds l) :: u64) = ldt_nanoseconds l" using *(4) by (simp add: unat_of_nat)
  then show ?thesis
    using local_datetime_from_components_value [OF *(1,2,4)] *(3) civil_from_days_of [OF *(1) date_civil_range [OF *(1,2)]]
    by (auto simp: reads_back_def days local_datetime_from_components_def)
qed

lemma time_reads_back:
  "local_time_parse s = Inr t \<Longrightarrow> property_value tz (VLocalTime (of_nat (lt_nanoseconds t))) = Inr (CLocalTime t)"
  "time_parse s' = Inr z \<Longrightarrow>
   property_value tz (VTime (of_nat (time_local_nanoseconds z)) (time_offset_seconds z)) = Inr (CTime z)"
proof -
  show "property_value tz (VLocalTime (of_nat (lt_nanoseconds t))) = Inr (CLocalTime t)" if "local_time_parse s = Inr t"
  proof -
    have "local_time_parse (format_local_time (lt_nanoseconds t)) = Inr t"
      using local_time_parse_Inr [OF that] by (simp add: local_time_parse_text)
    then show ?thesis using local_time_parse_Inr(2) [OF that] by (simp add: unat_of_nat)
  qed
  show "property_value tz (VTime (of_nat (time_local_nanoseconds z)) (time_offset_seconds z)) = Inr (CTime z)"
    if "time_parse s' = Inr z"
    using time_parse_Inr [OF that] time_parse_text [of "time_local_nanoseconds z" "time_offset_seconds z"] by (simp add: unat_of_nat)
qed

lemma property_reads_back:
  "unsigned_names tz \<Longrightarrow> accepted tz v \<Longrightarrow> property_from_value v = Inr (Some p) \<Longrightarrow> reads_back v (property_value tz p)"
  "unsigned_names tz \<Longrightarrow> list_all (accepted tz) vs \<Longrightarrow> property_list vs = Inr ps \<Longrightarrow>
   if list_all readable vs then property_values tz ps = Inr vs else \<exists>e. property_values tz ps = Inl e"
proof (induction v and vs arbitrary: p and ps rule: property_from_value_property_list.induct)
  case (6 vs)
  then obtain ps where "property_list vs = Inr ps" "p = VList ps" by (auto dest: checked_property_Inr)
  with 6 show ?case by (auto simp: reads_back_def split: if_splits)
next
  case (7 d)
  then show ?case using date_reads_back by (auto dest!: checked_property_Inr simp del: property_value.simps)
next
  case (8 t)
  then show ?case using time_reads_back(1) by (auto dest!: checked_property_Inr simp: reads_back_def simp del: property_value.simps)
next
  case (9 t)
  then show ?case using time_reads_back(2) by (auto dest!: checked_property_Inr simp: reads_back_def simp del: property_value.simps)
next
  case (10 t)
  then show ?case using local_datetime_reads_back by (auto dest!: checked_property_Inr simp del: property_value.simps)
next
  case (11 z)
  then obtain sec n zone s where z: "zoned_storage_components z = Inr (sec, n, zone)" "zoned_parse tz s (zdt_zone z) = Inr z"
    "p = VZonedDateTime \<lparr>epoch_seconds = sec, zdt_nanoseconds = of_nat n, zone_id = zone\<rparr>"
    by (cases "zoned_storage_components z") (auto simp: zoned_property_def dest!: checked_property_Inr)
  then show ?case
    using zoned_datetime_round_trip [OF z(2) 11(1) z(1)] by (simp add: reads_back_def)
next
  case (12 d)
  then show ?case by (auto dest!: checked_property_Inr simp: reads_back_def duration_property_def split: prod.splits)
next
  case (13 x)
  then show ?case using point_round_trip [of x] by (auto dest!: checked_property_Inr simp: reads_back_def)
next
  case (14 x)
  then show ?case using vector_round_trip [of x] by (auto dest!: checked_property_Inr simp: reads_back_def)
next
  case (15 u)
  then show ?case using uuid_round_trip [of u] by (auto dest!: checked_property_Inr simp: reads_back_def)
next
  case (18 v vs)
  then obtain q qs where q: "property_from_value v = Inr (Some q)" "property_list vs = Inr qs" "ps = q # qs"
    by (auto split: option.splits)
  have h: "reads_back v (property_value tz q)" using 18 q by simp
  have t: "if list_all readable vs then property_values tz qs = Inr vs else \<exists>e. property_values tz qs = Inl e"
    using 18 q by simp
  show ?case
    using h t by (cases "property_value tz q"; cases "property_values tz qs") (auto simp: q(3) reads_back_def split: if_splits)
qed (auto dest!: checked_property_Inr simp: reads_back_def)

section \<open>Through the bytes\<close>

fun canonical_cypher :: "CypherValue \<Rightarrow> CypherValue" where
  "canonical_cypher (CFloat f) = CFloat (canonical_f64_bits f)"
| "canonical_cypher (CList vs) = CList (map canonical_cypher vs)"
| "canonical_cypher v = v"

lemma canonical_finite: "f64_is_finite b \<Longrightarrow> canonical_f64_bits b = b" "f32_is_finite c \<Longrightarrow> canonical_f32_bits c = c"
  using f64_finite_not_nan f32_finite_not_nan by (simp_all add: canonical_f64_bits_def canonical_f32_bits_def)

lemma canonical_chunks_same:
  assumes "0 < w" "\<And>x. x \<in> set xs \<Longrightarrow> length (encode x) = w" "\<And>x. x \<in> set xs \<Longrightarrow> f (encode x) = encode x"
  shows "canonical_chunks w f (pack_coordinates xs encode) = pack_coordinates xs encode"
proof -
  have "as_chunks w (concat (map encode xs) @ []) = (map encode xs, [])"
    by (rule as_chunks_concat) (use assms in auto)
  moreover have "map f (map encode xs) = map encode xs" using assms(3) by simp
  ultimately show ?thesis by (simp add: canonical_chunks_def pack_coordinates_def del: map_map)
qed

lemma canonical_vector:
  assumes "vector_new (vec_type v) (vec_values v) = Inr v"
  shows "canonical_value (VVector (storage_vector v)) = VVector (storage_vector v)"
proof -
  have "vector_matches (vec_type v) (vec_values v)" "vector_finite (vec_values v)"
    using assms by (auto simp: vector_new_def split: if_splits)
  then show ?thesis
    by (cases "vec_values v")
      (simp_all add: storage_vector_def canonical_payload_def canonical_chunks_same unsigned_from_le canonical_finite list_all_iff)
qed

lemma canonical_point:
  assumes "point_new (pt_crs p) (pt_coordinates p) = Inr p"
  shows "canonical_value (VPoint (point_property p)) = VPoint (point_property p)"
proof -
  have "list_all f64_is_finite (pt_coordinates p)"
    using assms by (auto simp: point_new_def vok_or_def list_ex_iff list_all_iff split: if_splits option.splits)
  then show ?thesis by (simp add: point_property_def map_ident canonical_finite list_all_iff)
qed

lemma point_wf:
  assumes "point_new (pt_crs p) (pt_coordinates p) = Inr p"
  shows "wf_value (VPoint (point_property p))"
proof -
  have len: "length (pt_coordinates p) = dim \<Longrightarrow> dim \<le> 3 \<Longrightarrow> 8 * length (pt_coordinates p) \<le> usize_max" for dim
    by (simp add: usize_max_def)
  obtain name srid dim geographic where crs: "point_crs (pt_crs p) = Some (name, srid, dim, geographic)"
    using assms by (cases "point_crs (pt_crs p)") (auto simp: point_new_def vok_or_def)
  then have "pt_srid p = srid" "srid \<in> {4326, 4979, 7203, 9157}" "dim \<le> 3"
    using point_new_crs [OF assms crs] by (auto simp: point_crs_def Let_def split: if_splits)
  moreover have "length (pt_coordinates p) = dim" using assms by (simp add: point_new_def crs vok_or_def split: if_splits)
  ultimately show ?thesis using len by (auto simp: point_property_def in_i64_def)
qed

lemma date_in_i64: "date_parse s = Inr d \<Longrightarrow> in_i64 (date_days d)"
  by (erule date_parse_Inr) (use days_bound in \<open>fastforce simp: date_value_def in_i64_def abs_le_iff\<close>)

lemma local_datetime_in_i64:
  assumes "local_datetime_parse s = Inr t"
  shows "in_i64 (ldt_days t)"
proof -
  obtain y m d where *: "valid_date y m d" "\<bar>y\<bar> \<le> 999999999" "t = local_datetime_value_of (date_value y m d) (ldt_nanoseconds t)"
    by (rule local_datetime_parse_Inr [OF assms])
  have "ldt_days t = days_from_civil y m d" by (subst *(3)) (simp add: local_datetime_value_of_def date_value_def)
  then show ?thesis using days_bound [OF *(1,2)] by (simp add: in_i64_def abs_le_iff)
qed

lemma canonical_family [simp]: "list_element_family (canonical_value p) = list_element_family p"
  by (cases p) simp_all

lemma checked_property_canonical:
  "checked_property p = Inr (Some q) \<Longrightarrow> checked_property (canonical_value p) = Inr (Some (canonical_value p))"
  by (cases p) (auto simp: checked_property_def is_property_value_def snd_is_property_value split: if_splits)

lemma property_canonical:
  "accepted tz v \<Longrightarrow> property_from_value v = Inr (Some p) \<Longrightarrow>
   property_from_value (canonical_cypher v) = Inr (Some (canonical_value p)) \<and> accepted tz (canonical_cypher v) \<and>
   readable (canonical_cypher v) = readable v \<and> wf_value p"
  "list_all (accepted tz) vs \<Longrightarrow> property_list vs = Inr ps \<Longrightarrow>
   property_list (map canonical_cypher vs) = Inr (map canonical_value ps) \<and> list_all (accepted tz) (map canonical_cypher vs) \<and>
   list_all readable (map canonical_cypher vs) = list_all readable vs \<and> (\<forall>p \<in> set ps. wf_value p)"
proof (induction v and vs arbitrary: p and ps rule: property_from_value_property_list.induct)
  case (6 vs)
  then obtain ps where ps: "property_list vs = Inr ps" "p = VList ps" "checked_property (VList ps) = Inr (Some p)"
    by (auto dest: checked_property_Inr)
  with 6 checked_property_canonical [OF ps(3)] show ?case by simp
next
  case (18 v vs)
  then obtain q qs where "property_from_value v = Inr (Some q)" "property_list vs = Inr qs" "ps = q # qs"
    by (auto split: option.splits)
  with 18 show ?case by simp
next
  case (4 f)
  then show ?case by (auto dest: checked_property_Inr simp: checked_property_def is_property_value_def snd_is_property_value)
next
  case (7 d)
  then obtain s where "date_parse s = Inr d" by auto
  then have "in_i64 (date_days d)" using date_in_i64 by blast
  with 7 show ?case by (auto dest: checked_property_Inr)
next
  case (9 t)
  then obtain s where "time_parse s = Inr t" by auto
  from time_parse_Inr(3) [OF this] have "in_i32 (time_offset_seconds t)" by (simp add: in_i32_def)
  with 9 show ?case by (auto dest: checked_property_Inr)
next
  case (10 t)
  then obtain s where "local_datetime_parse s = Inr t" by auto
  then have "in_i64 (ldt_days t)" using local_datetime_in_i64 by blast
  with 10 show ?case by (auto dest: checked_property_Inr)
next
  case (11 z)
  then obtain sec n zone where z: "zoned_storage_components z = Inr (sec, n, zone)"
    "p = VZonedDateTime \<lparr>epoch_seconds = sec, zdt_nanoseconds = of_nat n, zone_id = zone\<rparr>"
    by (cases "zoned_storage_components z") (auto simp: zoned_property_def dest!: checked_property_Inr)
  with 11 zoned_components [OF z(1)] show ?case by simp
next
  case (12 d)
  then show ?case by (auto dest: checked_property_Inr simp: duration_property_def split: prod.splits)
next
  case (13 x)
  then have p: "p = VPoint (point_property x)" by (auto dest: checked_property_Inr)
  with 13 canonical_point [of x] point_wf [of x] show ?case by simp
next
  case (14 x)
  then have p: "p = VVector (storage_vector x)" by (auto dest: checked_property_Inr)
  with 14 canonical_vector [of x] show ?case by simp
qed (auto dest: checked_property_Inr)

section \<open>What can be stored\<close>

lemma zoned_storable:
  assumes "zoned_parse tz s zone = Inr z"
  shows "\<exists>c. zoned_storage_components z = Inr c"
proof -
  obtain y m d t off where v: "valid_date y m d" "\<bar>y\<bar> \<le> 999999999" "t < day_nanos" "offset_range off"
    "z = zoned_value_of (date_value y m d) t off zone" by (rule zoned_parse_Inr [OF assms])
  define days where "days = days_from_civil y m d"
  have i: "zdt_instant z = days * 86400000000000 + int t - off * 1000000000" by (simp add: v(5) days_def date_value_def)
  have "\<bar>days\<bar> \<le> 400000000000" unfolding days_def by (rule days_bound [OF v(1,2)])
  moreover have "int t < 86400000000000" "0 \<le> int t" using v(3) by simp_all
  ultimately have "- 100000000000000000 * 1000000000 \<le> zdt_instant z" "zdt_instant z < 100000000000000000 * 1000000000"
    unfolding i abs_le_iff using v(4) by linarith+
  then have "- 100000000000000000 \<le> zdt_instant z div 1000000000" "zdt_instant z div 1000000000 < 100000000000000000"
    by linarith+
  then have "in_i64 (zdt_instant z div 1000000000)" by (simp add: in_i64_def)
  then show ?thesis by (simp add: zoned_storage_components_def Let_def)
qed

lemma property_none: "property_from_value v = Inr None \<longleftrightarrow> v = CNull"
  by (cases v) (auto simp: checked_property_def)

lemma property_family: "property_from_value v = Inr (Some p) \<Longrightarrow> list_element_family p = property_list_family v"
  by (cases v) (auto dest!: checked_property_Inr simp: zoned_property_def duration_property_def split: prod.splits)

lemma checked_property_scalar: "(\<And>vs. p \<noteq> VList vs) \<Longrightarrow> checked_property p = Inr (Some p)"
  by (simp add: checked_property_def is_property_value_def snd_is_property_value)

lemma zoned_property_storable:
  assumes "zoned_parse tz s zone = Inr z"
  shows "\<exists>p. and_then (zoned_property z) checked_property = Inr (Some p)"
proof -
  obtain sec n zn where "zoned_storage_components z = Inr (sec, n, zn)" using zoned_storable [OF assms] by auto
  then show ?thesis by (simp add: zoned_property_def checked_property_scalar)
qed

lemma scalar_storable:
  assumes "accepted tz v" "\<And>vs. v \<noteq> CList vs" "cypher_is_property_value v"
  shows "\<exists>p. property_from_value v = Inr (Some p)"
  using assms
  by (cases v) (auto simp: checked_property_scalar duration_property_def simp del: and_then_Inr_iff
      intro: zoned_property_storable split: prod.splits)

lemma property_list_families:
  "property_list vs = Inr ps \<Longrightarrow> map list_element_family ps = map property_list_family vs"
  by (induction vs arbitrary: ps) (auto simp: property_family split: option.splits)

lemma property_list_storable:
  "list_all (\<lambda>v. \<exists>p. property_from_value v = Inr (Some p)) vs \<Longrightarrow> \<exists>ps. property_list vs = Inr ps"
  by (induction vs) auto

lemma family_valid:
  assumes "map list_element_family ps = map property_list_family vs"
  shows "is_property_value (VList ps) \<longleftrightarrow> property_list_is_valid vs"
proof (cases vs)
  case Nil
  with assms show ?thesis by (simp add: is_property_value_def snd_is_property_value property_list_is_valid_def)
next
  case (Cons v ws)
  then obtain q qs where ps: "ps = q # qs" using assms by (cases ps) simp_all
  have "(\<exists>family. \<forall>w \<in> set ps. list_element_family w = Some family) \<longleftrightarrow> (\<exists>family. set (map list_element_family ps) \<subseteq> {Some family})"
    by auto
  also have "\<dots> \<longleftrightarrow> property_list_is_valid vs"
    unfolding assms using Cons by (auto simp: property_list_is_valid_def list_all_iff split: option.splits)
  finally show ?thesis using ps by (auto simp: is_property_value_def snd_is_property_value)
qed

lemma storable_iff:
  assumes "accepted tz v"
  shows "(\<exists>p. property_from_value v = Inr (Some p)) \<longleftrightarrow> cypher_is_property_value v"
proof (cases "\<exists>vs. v = CList vs")
  case True
  then obtain vs where v: "v = CList vs" by blast
  have "\<exists>ps. property_list vs = Inr ps" if "property_list_is_valid vs"
  proof -
    have "\<exists>p. property_from_value w = Inr (Some p)" if "w \<in> set vs" for w
    proof (rule scalar_storable)
      show "accepted tz w" using assms that by (simp add: v list_all_iff)
      have "property_list_family w \<noteq> None"
        using \<open>property_list_is_valid vs\<close> that by (auto simp: property_list_is_valid_def list_all_iff split: list.splits option.splits)
      then show "w \<noteq> CList us" "cypher_is_property_value w" for us by (cases w; simp)+
    qed
    then show ?thesis by (intro property_list_storable) (simp add: list_all_iff)
  qed
  then show ?thesis
    using property_list_families [of vs] family_valid [of _ vs] by (auto simp: v checked_property_def)
next
  case False
  then show ?thesis using scalar_storable [OF assms] by (cases v) auto
qed

end
