(* ===== verification/Value_Bridge_Theorems.thy ===== *)
theory Value_Bridge_Theorems
  imports Value_Bridge_Laws
begin

text \<open>The properties of the way of a value into the store and back.\<close>

text \<open>C12. A value written as a property, encoded, decoded and read again is the value that was written, with the one NaN for
  every NaN: all types, lists included, for values as their constructors return them (a point is one the constructor returns
  unchanged, its longitude being within range already). The exceptions are exact, and then the read fails instead of giving another value: a
  DATE, LOCAL DATETIME or ZONED DATETIME whose year is -999 to -1, and a ZONED DATETIME whose zone is an offset in another form
  than \<^verbatim>\<open>+HH:MM\<close>, all of which the write accepts.\<close>

theorem stored_value_round_trip:
  assumes "unsigned_names tz" and "accepted tz v" and "property_from_value v = Inr (Some p)" and "canonical_bytes p = Inr bs"
  shows "\<exists>q. from_canonical_bytes bs = Inr q
    \<and> (if readable v then property_value tz q = Inr (canonical_cypher v) else \<exists>e. property_value tz q = Inl e)"
proof -
  note c = property_canonical(1) [OF assms(2,3)]
  then have "from_canonical_bytes bs = Inr (canonical_value p)" using canonical_round_trip [OF _ assms(4)] by blast
  moreover have "reads_back (canonical_cypher v) (property_value tz (canonical_value p))"
    using property_reads_back(1) [OF assms(1)] c by blast
  ultimately show ?thesis using c by (auto simp: reads_back_def)
qed

definition no_chrono :: chrono where
  "no_chrono = \<lparr>tz_known = (\<lambda>_. False), tz_timestamp = (\<lambda>_ _. True), tz_offset = (\<lambda>_ _ _. 0),
     tz_local_ok = (\<lambda>_. True), tz_from_local = (\<lambda>_ _ _. LocalNone)\<rparr>"

lemma stored_value_round_trip_witness:
  "\<exists>z bs q. zoned_parse no_chrono (ascii ''2024-05-06T07:08:09+05'') (ascii ''+05'') = Inr z
    \<and> property_from_value (CZonedDateTime z) \<noteq> Inr None \<and> from_canonical_bytes bs = Inr q
    \<and> (\<exists>e. property_value no_chrono q = Inl e)"
proof -
  define z where "z = zoned_value_of (date_value 2024 5 6) 25689000000000 18000 (ascii ''+05'')"
  define p where "p = VZonedDateTime \<lparr>epoch_seconds = 1714961289, zdt_nanoseconds = 0, zone_id = ascii ''+05''\<rparr>"
  let ?fields = "[[ZONED_DATETIME], i64_bytes 1714961289, u32_bytes 0, ascii ''+05'']"
  have z: "zoned_parse no_chrono (ascii ''2024-05-06T07:08:09+05'') (ascii ''+05'') = Inr z"
    unfolding z_def no_chrono_def by code_simp
  have zone: "zdt_zone z = ascii ''+05''" by (simp add: z_def)
  have "zoned_storage_components z = Inr (1714961289, 0, ascii ''+05'')" unfolding z_def by code_simp
  then have w: "property_from_value (CZonedDateTime z) = Inr (Some p)"
    by (simp add: zoned_property_def checked_property_def is_property_value_def snd_is_property_value p_def)
  have bs: "canonical_bytes p = Inr (lce1_record (ascii ''VALUE'') ?fields)"
    unfolding p_def by (rule canonical_bytes_ok) (simp add: value_fields_def, code_simp)
  have utf8: "utf8_valid (ascii ''+05'')" by code_simp
  have tz: "unsigned_names no_chrono" by (simp add: unsigned_names_def no_chrono_def)
  have acc: "accepted no_chrono (CZonedDateTime z)" using z zone utf8 by auto
  have "\<not> readable_zone (ascii ''+05'')" by code_simp
  then have "\<not> readable (CZonedDateTime z)" by (simp add: zone)
  with stored_value_round_trip [OF tz acc w bs] obtain q e
    where "from_canonical_bytes (lce1_record (ascii ''VALUE'') ?fields) = Inr q" "property_value no_chrono q = Inl e" by auto
  moreover have "property_from_value (CZonedDateTime z) \<noteq> Inr None" unfolding w by simp
  ultimately show ?thesis using z by blast
qed

text \<open>C24. What may be stored is decided in the same way on both sides: of the values the constructors accept, the write of a
  property succeeds exactly on those that \<open>is_property_value\<close> of the query values names, and NULL removes the property. In
  particular no zoned value is out of the range of the stored seconds.\<close>

theorem storable_exact:
  assumes "accepted tz v"
  shows "((\<exists>p. property_from_value v = Inr (Some p)) \<longleftrightarrow> cypher_is_property_value v)
    \<and> (property_from_value v = Inr None \<longleftrightarrow> v = CNull)"
  using storable_iff [OF assms] property_none [of v] by blast

theorem storable_exact_witness:
  "\<nexists>p. property_from_value (CList [CInteger 1, CString []]) = Inr (Some p)"
proof -
  have "utf8_valid []" by code_simp
  then have "accepted no_chrono (CList [CInteger 1, CString []])" by (simp add: in_i64_def)
  from storable_exact [OF this] show ?thesis by (simp add: property_list_is_valid_def)
qed

end
