(* ===== verification/State_Laws.thy ===== *)
theory State_Laws
  imports State
begin

text \<open>The layer between two graphs, computed from whole states or from the commits between them, is the net layer.\<close>

section \<open>The net layer\<close>

text \<open>What a slot needs to go from one state to another.\<close>

definition net_op :: "unit option \<Rightarrow> unit option \<Rightarrow> DeltaOp option" where
  "net_op b a = (case (b, a) of (None, Some _) \<Rightarrow> Some Add | (Some _, None) \<Rightarrow> Some Remove | _ \<Rightarrow> None)"

definition net_relationship :: "RelationshipRecord option \<Rightarrow> RelationshipRecord option \<Rightarrow> RelationshipDelta option" where
  "net_relationship b a =
     (case (b, a) of
        (None, Some r) \<Rightarrow> Some \<lparr>rd_op = Add, rd_record = r\<rparr>
      | (Some r, None) \<Rightarrow> Some \<lparr>rd_op = Remove, rd_record = r\<rparr>
      | _ \<Rightarrow> None)"

definition net_property :: "PropertyValue option \<Rightarrow> PropertyValue option \<Rightarrow> PropertyDelta option" where
  "net_property b a =
     (case (b, a) of
        (None, Some v) \<Rightarrow> Some \<lparr>pd_op = Add, pd_value = Some v\<rparr>
      | (Some _, None) \<Rightarrow> Some \<lparr>pd_op = Remove, pd_value = None\<rparr>
      | (Some v, Some w) \<Rightarrow> if v \<noteq> w then Some \<lparr>pd_op = Add, pd_value = Some w\<rparr> else None
      | (None, None) \<Rightarrow> None)"

definition net_layer :: "graph \<Rightarrow> graph \<Rightarrow> LayerBuilder \<Rightarrow> bool" where
  "net_layer g h l \<longleftrightarrow>
     (\<forall>n. om_get (lb_nodes l) n = net_op (om_get (g_nodes g) n) (om_get (g_nodes h) n))
   \<and> (\<forall>k. om_get (lb_labels l) k = net_op (om_get (g_labels g) k) (om_get (g_labels h) k))
   \<and> (\<forall>i. om_get (lb_relationships l) i = net_relationship (om_get (g_relationships g) i) (om_get (g_relationships h) i))
   \<and> (\<forall>k. om_get (lb_properties l) k = net_property (om_get (g_properties g) k) (om_get (g_properties h) k))"

definition same_tuples :: "graph \<Rightarrow> graph \<Rightarrow> bool" where
  "same_tuples g h \<longleftrightarrow> (\<forall>i r r'. om_get (g_relationships g) i = Some r \<longrightarrow> om_get (g_relationships h) i = Some r' \<longrightarrow> r = r')"

lemma net_layer_unique: "net_layer g h l \<Longrightarrow> net_layer g h l' \<Longrightarrow> l = l'"
  unfolding net_layer_def by (cases l; cases l') (auto intro!: om_ext)

lemma graph_ext:
  "(\<And>n. om_get (g_nodes g) n = om_get (g_nodes h) n) \<Longrightarrow> (\<And>k. om_get (g_labels g) k = om_get (g_labels h) k) \<Longrightarrow>
   (\<And>i. om_get (g_relationships g) i = om_get (g_relationships h) i) \<Longrightarrow>
   (\<And>k. om_get (g_properties g) k = om_get (g_properties h) k) \<Longrightarrow> g = h" for g h :: graph
  by (cases g; cases h) (auto intro!: om_ext)

lemma net_layer_applies:
  assumes "net_layer g h l" "same_tuples g h"
  shows "apply_layer l g = h"
proof (rule graph_ext)
  have n: "\<And>n. om_get (lb_nodes l) n = net_op (om_get (g_nodes g) n) (om_get (g_nodes h) n)"
    "\<And>k. om_get (lb_labels l) k = net_op (om_get (g_labels g) k) (om_get (g_labels h) k)"
    "\<And>i. om_get (lb_relationships l) i = net_relationship (om_get (g_relationships g) i) (om_get (g_relationships h) i)"
    "\<And>k. om_get (lb_properties l) k = net_property (om_get (g_properties g) k) (om_get (g_properties h) k)"
    using assms(1) unfolding net_layer_def by blast+
  show "om_get (g_nodes (apply_layer l g)) k = om_get (g_nodes h) k" for k
    using n by (cases "om_get (g_nodes g) k"; cases "om_get (g_nodes h) k") (simp_all add: apply_layer_get net_op_def op_change_def)
  show "om_get (g_labels (apply_layer l g)) k = om_get (g_labels h) k" for k
    using n by (cases "om_get (g_labels g) k"; cases "om_get (g_labels h) k") (simp_all add: apply_layer_get net_op_def op_change_def)
  show "om_get (g_relationships (apply_layer l g)) k = om_get (g_relationships h) k" for k
    using n assms(2) [unfolded same_tuples_def]
    by (cases "om_get (g_relationships g) k"; cases "om_get (g_relationships h) k")
      (simp_all add: apply_layer_get net_relationship_def relationship_change_def)
  show "om_get (g_properties (apply_layer l g)) k = om_get (g_properties h) k" for k
    using n by (cases "om_get (g_properties g) k"; cases "om_get (g_properties h) k") (simp_all add: apply_layer_get net_property_def)
qed

section \<open>Loops that put entries\<close>

definition picks :: "('k \<Rightarrow> 'v \<Rightarrow> 'w option) \<Rightarrow> ('k \<times> 'v) list \<Rightarrow> ('k \<times> 'w) list" where
  "picks G kvs = List.map_filter (\<lambda>(k, v). map_option (Pair k) (G k v)) kvs"

lemma picks_simps [simp]:
  "picks G [] = []"
  "picks G ((k, v) # kvs) = (case G k v of None \<Rightarrow> picks G kvs | Some w \<Rightarrow> (k, w) # picks G kvs)"
  by (simp_all add: picks_def List.map_filter_def split: option.splits)

lemma fold_res_picks:
  assumes "\<And>k v l. (k, v) \<in> set kvs \<Longrightarrow> F (k, v) l = Inr (case G k v of None \<Rightarrow> l | Some w \<Rightarrow> upd k w l)"
  shows "fold_res F kvs l = Inr (fold (\<lambda>(k, w). upd k w) (picks G kvs) l)"
  using assms
proof (induction kvs arbitrary: l)
  case (Cons kv kvs)
  obtain k v where kv: "kv = (k, v)" by (cases kv)
  have "F (k, v) l = Inr (case G k v of None \<Rightarrow> l | Some w \<Rightarrow> upd k w l)" using Cons.prems kv by simp
  moreover have "fold_res F kvs l' = Inr (fold (\<lambda>(k, w). upd k w) (picks G kvs) l')" for l'
    by (rule Cons.IH, rule Cons.prems) simp
  ultimately show ?case by (simp add: kv split: option.splits)
qed simp

lemma picks_key: "x \<in> set (picks G kvs) \<Longrightarrow> fst x \<in> fst ` set kvs"
  by (induction kvs) (auto split: option.splits)

lemma picks_keys: "fst ` set (picks G kvs) \<subseteq> fst ` set kvs"
  using picks_key by blast

lemma distinct_picks: "distinct (map fst kvs) \<Longrightarrow> distinct (map fst (picks G kvs))"
proof (induction kvs)
  case (Cons kv kvs)
  obtain k v where "kv = (k, v)" by (cases kv)
  with Cons show ?case using picks_keys [of G kvs] by (cases "G k v") (simp_all, blast)
qed simp

lemma map_of_picks:
  "distinct (map fst kvs) \<Longrightarrow> map_of (picks G kvs) k = (case map_of kvs k of None \<Rightarrow> None | Some v \<Rightarrow> G k v)"
proof (induction kvs)
  case (Cons kv kvs)
  obtain a v where kv: "kv = (a, v)" by (cases kv)
  have "map_of kvs a = None" using Cons.prems by (simp add: kv map_of_eq_None_iff)
  then show ?case using Cons by (auto simp: kv split: option.splits)
qed simp

lemma om_get_puts:
  assumes "distinct (map fst kvs)"
  shows "om_get (om_put_all (picks G kvs) t) k =
    (case map_of kvs k of None \<Rightarrow> om_get t k | Some v \<Rightarrow> (case G k v of None \<Rightarrow> om_get t k | Some w \<Rightarrow> Some w))"
  using map_of_picks [OF assms, of G k] map_of_rev [OF distinct_picks [OF assms, of G]]
  by (auto simp: om_get_put_all map_add_def split: option.splits)

lemma map_of_entries [simp]: "map_of (om_entries t) k = om_get t k"
  by (simp add: om_get_def)

section \<open>The merge walk\<close>

fun set_changes :: "'k::linorder list \<Rightarrow> 'k list \<Rightarrow> ('k \<times> bool) list" where
  "set_changes (l # ls) (r # rs) =
     (if l < r then (l, False) # set_changes ls (r # rs)
      else if r < l then (r, True) # set_changes (l # ls) rs
      else set_changes ls rs)"
| "set_changes (l # ls) [] = (l, False) # set_changes ls []"
| "set_changes [] (r # rs) = (r, True) # set_changes [] rs"
| "set_changes [] [] = []"

lemma visit_set_changes: "snd (visit_set_changes visitor ls rs s) = fold_res (\<lambda>(k, added). visitor k added) (set_changes ls rs) s"
  by (induction visitor ls rs s rule: visit_set_changes.induct) (auto intro!: and_then_cong)

lemma set_changes_key: "x \<in> set (set_changes ls rs) \<Longrightarrow> fst x \<in> set ls \<union> set rs"
  by (induction ls rs rule: set_changes.induct) (auto split: if_splits)

lemma set_changes_keys: "fst ` set (set_changes ls rs) \<subseteq> set ls \<union> set rs"
  using set_changes_key by blast

lemma set_changes_exact:
  "sorted_wrt (<) ls \<Longrightarrow> sorted_wrt (<) rs \<Longrightarrow>
   distinct (map fst (set_changes ls rs)) \<and>
   map_of (set_changes ls rs) k =
     (if k \<in> set ls then if k \<in> set rs then None else Some False else if k \<in> set rs then Some True else None)"
proof (induction ls rs rule: set_changes.induct)
  case (1 l ls r rs)
  consider "l < r" | "r < l" | "l = r" by (cases l r rule: linorder_cases)
  then show ?case
  proof cases
    case a: 1
    then have "l \<notin> set ls" "l \<notin> set (r # rs)" using 1(4,5) by auto
    with 1 a set_changes_keys [of ls "r # rs"] show ?thesis by auto
  next
    case a: 2
    then have "r \<notin> set rs" "r \<notin> set (l # ls)" using 1(4,5) by auto
    with 1 a set_changes_keys [of "l # ls" rs] show ?thesis by auto
  next
    case a: 3
    then have "l \<notin> set ls" "l \<notin> set rs" using 1(4,5) by auto
    with 1 a set_changes_keys [of ls rs] show ?thesis by auto
  qed
next
  case (2 l ls)
  then show ?case using set_changes_keys [of ls "[]"] by auto
next
  case (3 r rs)
  then show ?case using set_changes_keys [of "[]" rs] by auto
qed simp

lemma om_keys_sorted [simp]: "sorted_wrt (<) (om_keys t)"
  using asc_om_entries [of t] by (simp add: om_keys_def sorted_wrt_map)

lemma changes_of_tables:
  "distinct (map fst (set_changes (om_keys t) (om_keys u)))"
  "map_of (set_changes (om_keys t) (om_keys u)) k =
    (if om_get t k \<noteq> None then if om_get u k \<noteq> None then None else Some False else if om_get u k \<noteq> None then Some True else None)"
  using set_changes_exact [of "om_keys t" "om_keys u" k] by (auto simp: om_keys_iff)

text \<open>The key of a change is a key of one of the tables.\<close>

lemma changes_key: "(k, a) \<in> set (set_changes (om_keys t) (om_keys u)) \<Longrightarrow> om_get t k \<noteq> None \<or> om_get u k \<noteq> None"
  using set_changes_keys [of "om_keys t" "om_keys u"] by (force simp: om_keys_iff)

section \<open>The layer between two states\<close>

definition op_of :: "bool \<Rightarrow> DeltaOp" where
  "op_of added = (if added then Add else Remove)"

lemma require_positive_ok [simp]: "id_ok i \<Longrightarrow> require_positive i = Inr ()"
  by (simp add: require_positive_def id_ok_def)

lemma builder_ops:
  "id_ok n \<Longrightarrow> add_node n l = Inr (l\<lparr>lb_nodes := om_put n Add (lb_nodes l)\<rparr>)"
  "id_ok n \<Longrightarrow> remove_node n l = Inr (l\<lparr>lb_nodes := om_put n Remove (lb_nodes l)\<rparr>)"
  "id_ok n \<Longrightarrow> id_ok k \<Longrightarrow> add_label n k l = Inr (l\<lparr>lb_labels := om_put (n, k) Add (lb_labels l)\<rparr>)"
  "id_ok n \<Longrightarrow> id_ok k \<Longrightarrow> remove_label n k l = Inr (l\<lparr>lb_labels := om_put (n, k) Remove (lb_labels l)\<rparr>)"
  "wf_relationship r \<Longrightarrow> add_relationship r l = Inr (l\<lparr>lb_relationships := om_put (rel_id r) \<lparr>rd_op = Add, rd_record = r\<rparr> (lb_relationships l)\<rparr>)"
  "wf_relationship r \<Longrightarrow> remove_relationship r l = Inr (l\<lparr>lb_relationships := om_put (rel_id r) \<lparr>rd_op = Remove, rd_record = r\<rparr> (lb_relationships l)\<rparr>)"
  "id_ok n \<Longrightarrow> id_ok k \<Longrightarrow> set_property kind n k v l = Inr (l\<lparr>lb_properties := om_put (kind, n, k) \<lparr>pd_op = Add, pd_value = Some v\<rparr> (lb_properties l)\<rparr>)"
  "id_ok n \<Longrightarrow> id_ok k \<Longrightarrow> remove_property kind n k l = Inr (l\<lparr>lb_properties := om_put (kind, n, k) \<lparr>pd_op = Remove, pd_value = None\<rparr> (lb_properties l)\<rparr>)"
  by (simp_all add: add_node_def remove_node_def add_label_def remove_label_def add_relationship_def remove_relationship_def
      set_property_def remove_property_def require_positive_pair_def validate_relationship_def wf_relationship_def)

lemma graph_ok_ids:
  "graph_ok g \<Longrightarrow> om_get (g_nodes g) n = Some u \<Longrightarrow> id_ok n"
  "graph_ok g \<Longrightarrow> om_get (g_labels g) (m, k) = Some u \<Longrightarrow> id_ok m \<and> id_ok k"
  "graph_ok g \<Longrightarrow> om_get (g_relationships g) i = Some r \<Longrightarrow> rel_id r = i \<and> wf_relationship r"
  "graph_ok g \<Longrightarrow> om_get (g_properties g) (kind, m, k) = Some v \<Longrightarrow> id_ok m \<and> id_ok k \<and> wf_value v"
  by (force simp: graph_ok_def om_all_iff)+

lemma append_node_label_result:
  assumes "graph_ok g" "graph_ok h"
  shows "snd (append_node_label_delta g h l) = Inr (l\<lparr>
    lb_nodes := om_put_all (picks (\<lambda>_ a. Some (op_of a)) (set_changes (om_keys (g_nodes g)) (om_keys (g_nodes h)))) (lb_nodes l),
    lb_labels := om_put_all (picks (\<lambda>_ a. Some (op_of a)) (set_changes (om_keys (g_labels g)) (om_keys (g_labels h)))) (lb_labels l)\<rparr>)"
proof -
  have nodes: "(if a then add_node n else remove_node n) l = Inr (l\<lparr>lb_nodes := om_put n (op_of a) (lb_nodes l)\<rparr>)"
    if "(n, a) \<in> set (set_changes (om_keys (g_nodes g)) (om_keys (g_nodes h)))" for n a l
  proof -
    have "id_ok n" using changes_key [OF that] graph_ok_ids(1) assms by auto
    then show ?thesis by (simp add: builder_ops op_of_def)
  qed
  have labels: "(case k of (node, label) \<Rightarrow> \<lambda>a. if a then add_label node label else remove_label node label) a l
      = Inr (l\<lparr>lb_labels := om_put k (op_of a) (lb_labels l)\<rparr>)"
    if "(k, a) \<in> set (set_changes (om_keys (g_labels g)) (om_keys (g_labels h)))" for k a l
  proof -
    obtain n i where k: "k = (n, i)" by (cases k)
    have "id_ok n \<and> id_ok i" using changes_key [OF that] graph_ok_ids(2) assms unfolding k by blast
    then show ?thesis by (simp add: builder_ops op_of_def k)
  qed
  have 1: "fold_res (\<lambda>(n, a). if a then add_node n else remove_node n) (set_changes (om_keys (g_nodes g)) (om_keys (g_nodes h))) l =
      Inr (fold (\<lambda>(k, w) l. l\<lparr>lb_nodes := om_put k w (lb_nodes l)\<rparr>) (picks (\<lambda>_ a. Some (op_of a)) (set_changes (om_keys (g_nodes g)) (om_keys (g_nodes h)))) l)" for l
    by (rule fold_res_picks) (simp only: option.case prod.case nodes)
  have 2: "fold_res (\<lambda>(k, a). (case k of (node, label) \<Rightarrow> \<lambda>a. if a then add_label node label else remove_label node label) a)
        (set_changes (om_keys (g_labels g)) (om_keys (g_labels h))) l =
      Inr (fold (\<lambda>(k, w) l. l\<lparr>lb_labels := om_put k w (lb_labels l)\<rparr>) (picks (\<lambda>_ a. Some (op_of a)) (set_changes (om_keys (g_labels g)) (om_keys (g_labels h)))) l)" for l
    by (rule fold_res_picks) (simp only: option.case prod.case labels)
  show ?thesis
    by (simp add: append_node_label_delta_def visit_set_changes 1 2 fold_put_nodes fold_put_labels)
qed

lemma append_relationship_result:
  assumes "graph_ok g" "graph_ok h" "same_tuples g h"
  shows "snd (append_relationship_delta g h l) = Inr (l\<lparr>lb_relationships :=
    om_put_all (picks (\<lambda>i r. if om_get (g_relationships g) i = None then Some \<lparr>rd_op = Add, rd_record = r\<rparr> else None) (om_entries (g_relationships h)))
    (om_put_all (picks (\<lambda>i r. if om_get (g_relationships h) i = None then Some \<lparr>rd_op = Remove, rd_record = r\<rparr> else None) (om_entries (g_relationships g)))
      (lb_relationships l))\<rparr>)"
proof -
  let ?removed = "picks (\<lambda>i r. if om_get (g_relationships h) i = None then Some \<lparr>rd_op = Remove, rd_record = r\<rparr> else None) (om_entries (g_relationships g))"
  let ?added = "picks (\<lambda>i r. if om_get (g_relationships g) i = None then Some \<lparr>rd_op = Add, rd_record = r\<rparr> else None) (om_entries (g_relationships h))"
  have 1: "fold_res (\<lambda>(i, r) l. case om_get (g_relationships h) i of None \<Rightarrow> remove_relationship r l
        | Some r' \<Rightarrow> if r' \<noteq> r then Inl (Corrupt ''RelationshipId changed immutable endpoints or type'') else Inr l) (om_entries (g_relationships g)) l
      = Inr (fold (\<lambda>(k, w) l. l\<lparr>lb_relationships := om_put k w (lb_relationships l)\<rparr>) ?removed l)" for l
  proof (rule fold_res_picks)
    fix i r l' assume "(i, r) \<in> set (om_entries (g_relationships g))"
    then have i: "om_get (g_relationships g) i = Some r" by (simp add: om_entries_iff)
    show "(case (i, r) of (i, r) \<Rightarrow> \<lambda>l. case om_get (g_relationships h) i of None \<Rightarrow> remove_relationship r l
        | Some r' \<Rightarrow> if r' \<noteq> r then Inl (Corrupt ''RelationshipId changed immutable endpoints or type'') else Inr l) l' =
        Inr (case if om_get (g_relationships h) i = None then Some \<lparr>rd_op = Remove, rd_record = r\<rparr> else None of None \<Rightarrow> l'
          | Some w \<Rightarrow> l'\<lparr>lb_relationships := om_put i w (lb_relationships l')\<rparr>)"
      using graph_ok_ids(3) [OF assms(1) i] assms(3) i by (auto simp: builder_ops same_tuples_def split: option.splits)
  qed
  have 2: "fold_res (\<lambda>(i, r) l. if \<not> om_has (g_relationships g) i then add_relationship r l else Inr l) (om_entries (g_relationships h)) l
      = Inr (fold (\<lambda>(k, w) l. l\<lparr>lb_relationships := om_put k w (lb_relationships l)\<rparr>) ?added l)" for l
  proof (rule fold_res_picks)
    fix i r l' assume "(i, r) \<in> set (om_entries (g_relationships h))"
    then have i: "om_get (g_relationships h) i = Some r" by (simp add: om_entries_iff)
    show "(case (i, r) of (i, r) \<Rightarrow> \<lambda>l. if \<not> om_has (g_relationships g) i then add_relationship r l else Inr l) l' =
        Inr (case if om_get (g_relationships g) i = None then Some \<lparr>rd_op = Add, rd_record = r\<rparr> else None of None \<Rightarrow> l'
          | Some w \<Rightarrow> l'\<lparr>lb_relationships := om_put i w (lb_relationships l')\<rparr>)"
      using graph_ok_ids(3) [OF assms(2) i] by (auto simp: builder_ops om_has_def)
  qed
  show ?thesis
    by (simp add: append_relationship_delta_def split_def) (simp add: 1 [unfolded split_def] 2 [unfolded split_def] fold_put_relationships [unfolded split_def])
qed

text \<open>Values that are stored canonically and can be encoded are equal exactly when their bytes are.\<close>

definition encodable :: "graph \<Rightarrow> bool" where
  "encodable g \<longleftrightarrow> om_all (\<lambda>_ v. canonical_value v = v \<and> (\<exists>b. canonical_bytes v = Inr b)) (g_properties g)"

lemma bytes_equal:
  assumes "wf_value v" "wf_value w" "canonical_value v = v" "canonical_value w = w" "canonical_bytes v = Inr b" "canonical_bytes w = Inr a"
  shows "b = a \<longleftrightarrow> v = w"
  using canonical_round_trip [OF assms(1,5)] canonical_round_trip [OF assms(2,6)] assms(3-6) by auto

lemma property_slots:
  assumes "graph_ok g" "encodable g" "om_get (g_properties g) (kind, m, k) = Some v"
  shows "id_ok m" "id_ok k" "wf_value v" "canonical_value v = v" "\<exists>b. canonical_bytes v = Inr b" "snd (clone_value_checked v) = Inr v"
  using graph_ok_ids(4) [OF assms(1,3)] om_allD [OF assms(2) [unfolded encodable_def] assms(3)] by (auto intro: clone_value_ok)

lemma changed_property:
  assumes "graph_ok g" "graph_ok h" "encodable g" "encodable h"
    "om_get (g_properties g) (kind, m, k) = Some v" "om_get (g_properties h) (kind', m', k') = Some w"
  shows "snd (property_changed_checked v w) = Inr (v \<noteq> w)"
    "\<exists>b a. canonical_bytes v = Inr b \<and> canonical_bytes w = Inr a \<and> (b = a \<longleftrightarrow> v = w)"
proof -
  note v = property_slots [OF assms(1,3,5)] and w = property_slots [OF assms(2,4,6)]
  obtain b a where "canonical_bytes v = Inr b" "canonical_bytes w = Inr a" using v(5) w(5) by blast
  moreover have "b = a \<longleftrightarrow> v = w" by (rule bytes_equal) (use v w calculation in auto)
  ultimately show "snd (property_changed_checked v w) = Inr (v \<noteq> w)"
    "\<exists>b a. canonical_bytes v = Inr b \<and> canonical_bytes w = Inr a \<and> (b = a \<longleftrightarrow> v = w)"
    by (auto simp: property_changed_checked_def canonical_bytes_def)
qed

definition removed_or_changed :: "graph \<Rightarrow> OwnerKind \<times> i64 \<times> i64 \<Rightarrow> PropertyValue \<Rightarrow> PropertyDelta option" where
  "removed_or_changed h k v =
     (case om_get (g_properties h) k of
        None \<Rightarrow> Some \<lparr>pd_op = Remove, pd_value = None\<rparr>
      | Some w \<Rightarrow> if v \<noteq> w then Some \<lparr>pd_op = Add, pd_value = Some w\<rparr> else None)"

definition added_property :: "graph \<Rightarrow> OwnerKind \<times> i64 \<times> i64 \<Rightarrow> PropertyValue \<Rightarrow> PropertyDelta option" where
  "added_property g k w = (if om_get (g_properties g) k = None then Some \<lparr>pd_op = Add, pd_value = Some w\<rparr> else None)"

lemma append_property_result:
  assumes "graph_ok g" "graph_ok h" "encodable g" "encodable h"
  shows "snd (append_property_delta g h l) = Inr (l\<lparr>lb_properties :=
    om_put_all (picks (added_property g) (om_entries (g_properties h)))
    (om_put_all (picks (removed_or_changed h) (om_entries (g_properties g))) (lb_properties l))\<rparr>)"
proof -
  define F1 where "F1 = (\<lambda>x l. snd ((case x of (k, v) \<Rightarrow> case k of (kind, owner, key) \<Rightarrow> \<lambda>l. chk_then check (\<lambda>_.
         case om_get (g_properties h) (kind, owner, key) of
           None \<Rightarrow> chk_res (remove_property kind owner key l)
         | Some w \<Rightarrow>
             chk_then (property_changed_checked v w) (\<lambda>changed.
               if changed then chk_then (clone_value_checked w) (\<lambda>w. chk_res (set_property kind owner key w l)) else chk_ok l))) l))"
  define F2 where "F2 = (\<lambda>x l. snd ((case x of (k, w) \<Rightarrow> case k of (kind, owner, key) \<Rightarrow> \<lambda>l. chk_then check (\<lambda>_.
         if \<not> om_has (g_properties g) (kind, owner, key)
         then chk_then (clone_value_checked w) (\<lambda>w. chk_res (set_property kind owner key w l)) else chk_ok l)) l))"
  have 1: "fold_res F1 (om_entries (g_properties g)) l =
      Inr (fold (\<lambda>(k, w) l. l\<lparr>lb_properties := om_put k w (lb_properties l)\<rparr>) (picks (removed_or_changed h) (om_entries (g_properties g))) l)" for l
  proof (rule fold_res_picks)
    fix k v l' assume "(k, v) \<in> set (om_entries (g_properties g))"
    moreover obtain kind m i where k: "k = (kind, m, i)" by (cases k)
    ultimately have i: "om_get (g_properties g) (kind, m, i) = Some v" by (simp add: om_entries_iff)
    show "F1 (k, v) l' = Inr (case removed_or_changed h k v of None \<Rightarrow> l' | Some w \<Rightarrow> l'\<lparr>lb_properties := om_put k w (lb_properties l')\<rparr>)"
    proof (cases "om_get (g_properties h) (kind, m, i)")
      case None
      then show ?thesis using property_slots [OF assms(1,3) i] by (simp add: F1_def k removed_or_changed_def builder_ops)
    next
      case (Some w)
      then show ?thesis
        using property_slots [OF assms(1,3) i] property_slots [OF assms(2,4) Some] changed_property(1) [OF assms i Some]
        by (simp add: F1_def k removed_or_changed_def builder_ops)
    qed
  qed
  have 2: "fold_res F2 (om_entries (g_properties h)) l =
      Inr (fold (\<lambda>(k, w) l. l\<lparr>lb_properties := om_put k w (lb_properties l)\<rparr>) (picks (added_property g) (om_entries (g_properties h))) l)" for l
  proof (rule fold_res_picks)
    fix k w l' assume "(k, w) \<in> set (om_entries (g_properties h))"
    moreover obtain kind m i where k: "k = (kind, m, i)" by (cases k)
    ultimately have i: "om_get (g_properties h) (kind, m, i) = Some w" by (simp add: om_entries_iff)
    show "F2 (k, w) l' = Inr (case added_property g k w of None \<Rightarrow> l' | Some w \<Rightarrow> l'\<lparr>lb_properties := om_put k w (lb_properties l')\<rparr>)"
      using property_slots [OF assms(2,4) i] by (simp add: F2_def k added_property_def builder_ops om_has_def)
  qed
  have "snd (append_property_delta g h l) = and_then (fold_res F1 (om_entries (g_properties g)) l) (fold_res F2 (om_entries (g_properties h)))"
    unfolding append_property_delta_def F1_def F2_def by (simp add: split_def)
  then show ?thesis by (simp add: 1 2 fold_put_properties)
qed

lemma net_entries:
  "om_get (om_put_all (picks (\<lambda>_ a. Some (op_of a)) (set_changes (om_keys t) (om_keys u))) om_empty) k = net_op (om_get t k) (om_get u k)"
  unfolding om_get_puts [OF changes_of_tables(1)] changes_of_tables(2)
  by (auto simp: net_op_def op_of_def split: option.splits)

lemma layer_between_net:
  assumes "graph_ok g" "graph_ok h" "same_tuples g h" "encodable g" "encodable h"
  shows "\<exists>l. layer_between g h = Inr l \<and> net_layer g h l"
proof -
  have d: "distinct (map fst (om_entries t))" for t :: "('x::linorder, 'y) omap" by simp
  have rel: "om_get (om_put_all (picks (\<lambda>i r. if om_get (g_relationships g) i = None then Some \<lparr>rd_op = Add, rd_record = r\<rparr> else None) (om_entries (g_relationships h)))
      (om_put_all (picks (\<lambda>i r. if om_get (g_relationships h) i = None then Some \<lparr>rd_op = Remove, rd_record = r\<rparr> else None) (om_entries (g_relationships g))) om_empty)) i
      = net_relationship (om_get (g_relationships g) i) (om_get (g_relationships h) i)" for i
    unfolding om_get_puts [OF d] map_of_entries by (auto simp: net_relationship_def split: option.splits)
  have properties: "om_get (om_put_all (picks (added_property g) (om_entries (g_properties h)))
      (om_put_all (picks (removed_or_changed h) (om_entries (g_properties g))) om_empty)) k
      = net_property (om_get (g_properties g) k) (om_get (g_properties h) k)" for k
    unfolding om_get_puts [OF d] map_of_entries
    by (auto simp: net_property_def added_property_def removed_or_changed_def split: option.splits)
  show ?thesis
    unfolding layer_between_def layer_between_checked_def
    by (simp add: append_node_label_result [OF assms(1,2)] append_relationship_result [OF assms(1-3)]
        append_property_result [OF assms(1,2,4,5)] net_layer_def net_entries rel properties layer_default_def)
qed

section \<open>Loading a state\<close>

lemma fold_put_entries:
  assumes "\<And>k v. (k, v) \<in> set (om_entries t) \<Longrightarrow> f (k, v) = om_put k v"
  shows "fold f (om_entries t) om_empty = t"
proof -
  have "fold f (om_entries t) om_empty = om_put_all (om_entries t) om_empty"
    unfolding om_put_all_def by (rule fold_cong) (use assms in auto)
  then show ?thesis by simp
qed

lemma load_snapshot_state_graph:
  assumes "resolve P d c = Inr s" "commit_graph P d c g" "checkpoints_ok P d" "delta_rows_ok d"
  shows "load_snapshot_state P d c = Inr g"
proof -
  obtain b where b: "snapshot_of P d s b g" using resolved_snapshot [OF assms(1) [unfolded resolve_def] assms(2-4)] by blast
  then have base: "base_graph P d s b" and v: "view b s = g" by (auto simp: snapshot_of_def)
  have ok: "graph_ok g" by (rule snapshot_of_graph_ok [OF b])
  have nodes: "fold (\<lambda>n. om_put n ()) (om_keys (g_nodes g)) om_empty = g_nodes g"
    unfolding om_keys_def fold_map by (rule fold_put_entries) auto
  have labels: "fold (\<lambda>k. om_put k ()) (om_keys (g_labels g)) om_empty = g_labels g"
    unfolding om_keys_def fold_map by (rule fold_put_entries) auto
  have rels: "fold (\<lambda>r. om_put (rel_id r) r) (om_values (g_relationships g)) om_empty = g_relationships g"
    unfolding om_values_def fold_map
    by (rule fold_put_entries) (use graph_ok_ids(3) [OF ok] in \<open>auto simp: om_entries_iff\<close>)
  have properties: "fold (\<lambda>p. om_put (fst p) (snd p)) (om_entries (g_properties g)) om_empty = g_properties g"
    by (rule fold_put_entries) auto
  show ?thesis
    unfolding load_snapshot_state_def assms(1)
    by (simp add: visit_nodes_view [OF base] visit_labels_view [OF base] visit_relationships_view [OF base] visit_properties_view [OF b]
        v nodes labels rels split_def properties)
qed

section \<open>The net layer between commits\<close>

inductive first_parent_path :: "database \<Rightarrow> hash_id \<Rightarrow> hash_id \<Rightarrow> bool" for d base where
  here: "first_parent_path d base base"
| up: "om_get (tb_commits d) c = Some row \<Longrightarrow> cr_parent1 row = Some p \<Longrightarrow> length p = 32 \<Longrightarrow> first_parent_path d base p \<Longrightarrow>
    first_parent_path d base c"

lemma first_parent_descendant_path:
  assumes "is_first_parent_descendant d base c = Some (Inr True)"
  shows "first_parent_path d base c"
proof -
  have "(Inr True :: bool res) = Inr True \<longrightarrow> first_parent_path d base c"
  proof (rule is_first_parent_descendant.raw_induct [where P = "\<lambda>d base c r. r = Inr True \<longrightarrow> first_parent_path d base c", OF _ assms], intro impI)
    fix f d base c and r :: "bool res"
    assume ih: "\<And>d base c r. f d base c = Some r \<Longrightarrow> r = Inr True \<longrightarrow> first_parent_path d base c"
      and step: "(if c = base then Some (Inr True) else case load_commit d c of Inl e \<Rightarrow> Some (Inl e)
         | Inr entry \<Rightarrow> (case rec_parent1 entry of None \<Rightarrow> Some (Inr False) | Some parent \<Rightarrow> f d base parent)) = Some r" and r: "r = Inr True"
    show "first_parent_path d base c"
    proof (cases "c = base")
      case False
      with step r obtain entry p where rec: "load_commit d c = Inr entry" "rec_parent1 entry = Some p" "f d base p = Some (Inr True)"
        by (auto split: sum.splits option.splits)
      have "first_parent_path d base p" using ih [OF rec(3)] by simp
      moreover obtain row where "om_get (tb_commits d) c = Some row" "cr_parent1 row = Some p" "length p = 32"
        using rec(1,2) by (auto simp: load_commit_def parent_from_slice_def hash_from_slice_def ok_or_def split: option.splits if_splits)
      ultimately show ?thesis by (blast intro: first_parent_path.up)
    qed (simp add: first_parent_path.here)
  qed
  then show ?thesis by simp
qed

lemma om_get_or_insert:
  "om_get (om_or_insert kvs t) k = (case om_get t k of Some v \<Rightarrow> Some v | None \<Rightarrow> map_of kvs k)"
proof (induction kvs arbitrary: t)
  case Nil
  then show ?case by (simp add: om_or_insert_def split: option.splits)
next
  case (Cons kv kvs)
  obtain a v where kv: "kv = (a, v)" by (cases kv)
  have "om_or_insert (kv # kvs) t = om_or_insert kvs (if om_has t a then t else om_put a v t)" by (simp add: om_or_insert_def kv)
  then show ?case using Cons by (auto simp: kv om_has_def split: option.splits)
qed

lemma or_insert_layer_get:
  "om_get (lb_nodes (or_insert_layer l m)) n = (case om_get (lb_nodes m) n of Some v \<Rightarrow> Some v | None \<Rightarrow> om_get (lb_nodes l) n)"
  "om_get (lb_labels (or_insert_layer l m)) k = (case om_get (lb_labels m) k of Some v \<Rightarrow> Some v | None \<Rightarrow> om_get (lb_labels l) k)"
  "om_get (lb_relationships (or_insert_layer l m)) i = (case om_get (lb_relationships m) i of Some v \<Rightarrow> Some v | None \<Rightarrow> om_get (lb_relationships l) i)"
  "om_get (lb_properties (or_insert_layer l m)) q = (case om_get (lb_properties m) q of Some v \<Rightarrow> Some v | None \<Rightarrow> om_get (lb_properties l) q)"
  by (simp_all add: or_insert_layer_def om_get_or_insert split: option.splits)

text \<open>Older layers under newer ones: applying the union is applying both.\<close>

lemma apply_or_insert: "apply_layer (or_insert_layer l m) g = apply_layer m (apply_layer l g)"
  by (rule graph_ext) (simp_all add: apply_layer_get or_insert_layer_get split: option.splits)

text \<open>What the layers of a store keep.\<close>

definition stored_layer :: "database \<Rightarrow> LayerBuilder \<Rightarrow> bool" where
  "stored_layer d l \<longleftrightarrow> wf_layer l \<and> om_all (\<lambda>i delta. stored_tuple d i (rd_record delta)) (lb_relationships l)
     \<and> om_all (\<lambda>_ delta. \<forall>v. pd_value delta = Some v \<longrightarrow> canonical_value v = v) (lb_properties l)"

lemma stored_layer_default: "stored_layer d layer_default"
  by (simp add: stored_layer_def wf_layer_iff layer_default_def)

lemma stored_layer_or_insert: "stored_layer d l \<Longrightarrow> stored_layer d m \<Longrightarrow> stored_layer d (or_insert_layer l m)"
  unfolding stored_layer_def wf_layer_iff om_all_iff or_insert_layer_get
  by (auto split: option.splits)

lemma load_layer_stored:
  assumes "load_layer P d i = Inr l" "delta_rows_ok d"
  shows "stored_layer d l"
proof -
  have "canonical_value v = v" if k: "om_get (lb_properties l) k = Some delta" "pd_value delta = Some v" for k delta v
  proof -
    obtain k' r where r: "om_get (tb_property_delta d) (i, k') = Some r" "property_decode P k' r = Inr (k, delta)"
      using decoded_row [OF load_layer_rows(4) [OF assms(1)] k(1)] by blast
    obtain a b e where k': "k' = (a, b, e)" by (cases k')
    have row: "row_ok r" using r(1) assms(2) unfolding k' delta_rows_ok_def om_all_iff by force
    have "snd (property_delta_from_row P r) = Inr delta" using r(2) by (auto simp: property_decode_def split: prod.splits)
    note row = row this
    obtain tag where "to_value (row_columns tag r) = Inr v"
      using row(2) k(2) by (auto simp: property_delta_from_row_def dest: property_from_row_Inr split: if_splits)
    then show ?thesis using row(1) to_value_canonical [of "row_columns tag r" v] by (auto simp: row_columns_def row_ok_def)
  qed
  then show ?thesis using load_layer_wf [OF assms] load_layer_tuples [OF assms(1)] by (auto simp: stored_layer_def om_all_iff)
qed

lemma commit_graph_row:
  assumes "commit_graph P d c g" "om_get (tb_commits d) c = Some row" "cr_parent1 row = Some p" "length p = 32"
  shows "\<exists>l gp. load_layer P d (cr_layer_id row) = Inr l \<and> commit_graph P d p gp \<and> g = apply_layer l gp"
  using assms(1)
proof (cases rule: commit_graph.cases)
  case (root lr l)
  then show ?thesis using assms(2-4) by (auto simp: load_lineage_row_def hash_from_slice_def split: option.splits)
next
  case (child lr p' l gp)
  then have "p' = p" "lr_layer_id lr = cr_layer_id row"
    using assms(2-4) by (auto simp: load_lineage_row_def hash_from_slice_def split: option.splits if_splits)
  with child(1,4,5) show ?thesis by (intro exI [of _ l] exI [of _ gp]) simp
qed

lemma touched_layer_loop_path:
  assumes "first_parent_path d base c" "commit_graph P d base g" "commit_graph P d c gc" "delta_rows_ok d" "stored_layer d latest"
  shows "\<exists>l. touched_layer_loop P d base c latest = Some (Inr l) \<and> stored_layer d l \<and> apply_layer l g = apply_layer latest gc"
  using assms(1,3,5)
proof (induction arbitrary: gc latest rule: first_parent_path.induct)
  case here
  then show ?case using commit_graph_unique [OF assms(2) here(1)] by (subst touched_layer_loop.simps) auto
next
  case (up c row p)
  show ?case
  proof (cases "c = base")
    case True
    then show ?thesis using up.prems commit_graph_unique [OF assms(2)] by (subst touched_layer_loop.simps) auto
  next
    case False
    obtain l gp where l: "load_layer P d (cr_layer_id row) = Inr l" "commit_graph P d p gp" "gc = apply_layer l gp"
      using commit_graph_row [OF up.prems(1) up.hyps(1-3)] by blast
    have "stored_layer d (or_insert_layer l latest)"
      using load_layer_stored [OF l(1) assms(4)] up.prems(2) by (rule stored_layer_or_insert)
    from up.IH [OF l(2) this] obtain l' where l': "touched_layer_loop P d base p (or_insert_layer l latest) = Some (Inr l')" "stored_layer d l'"
      "apply_layer l' g = apply_layer (or_insert_layer l latest) gp" by blast
    have "touched_layer_loop P d base c latest = Some (Inr l')"
      using False up.hyps(1-3) l(1) l'(1) by (subst touched_layer_loop.simps) (simp add: hash_from_slice_def)
    then show ?thesis using l' l(3) by (simp add: apply_or_insert)
  qed
qed

text \<open>Normalising against the base drops what does not change it.\<close>

lemma stored_layer_ids:
  assumes "stored_layer d l"
  shows "om_get (lb_nodes l) n = Some p \<Longrightarrow> id_ok n"
    "om_get (lb_labels l) (m, k) = Some p \<Longrightarrow> id_ok m \<and> id_ok k"
    "om_get (lb_relationships l) i = Some rd \<Longrightarrow> rel_id (rd_record rd) = i \<and> wf_relationship (rd_record rd) \<and> stored_tuple d i (rd_record rd)"
    "om_get (lb_properties l) (kind, m, k) = Some pd \<Longrightarrow> id_ok m \<and> id_ok k \<and> wf_delta pd"
proof -
  have w: "om_all (\<lambda>n _. id_ok n) (lb_nodes l)" "om_all (\<lambda>(n, k) _. id_ok n \<and> id_ok k) (lb_labels l)"
    "om_all (\<lambda>i d. rel_id (rd_record d) = i \<and> wf_relationship (rd_record d)) (lb_relationships l)"
    "om_all (\<lambda>(kind, n, k) d. id_ok n \<and> id_ok k \<and> wf_delta d) (lb_properties l)"
    "om_all (\<lambda>i delta. stored_tuple d i (rd_record delta)) (lb_relationships l)"
    using assms by (simp_all add: stored_layer_def wf_layer_iff)
  show "om_get (lb_nodes l) n = Some p \<Longrightarrow> id_ok n" by (rule om_allD [OF w(1)])
  show "om_get (lb_labels l) (m, k) = Some p \<Longrightarrow> id_ok m \<and> id_ok k" using om_allD [OF w(2)] by fastforce
  show "om_get (lb_relationships l) i = Some rd \<Longrightarrow> rel_id (rd_record rd) = i \<and> wf_relationship (rd_record rd) \<and> stored_tuple d i (rd_record rd)"
    using om_allD [OF w(3)] om_allD [OF w(5)] by blast
  show "om_get (lb_properties l) (kind, m, k) = Some pd \<Longrightarrow> id_ok m \<and> id_ok k \<and> wf_delta pd" using om_allD [OF w(4)] by fastforce
qed

lemma normalize_nodes_result:
  assumes "\<And>n. node_exists d s n = Inr (om_has (g_nodes g) n)" "stored_layer d t"
  shows "normalize_touched_nodes d s (lb_nodes t) l = Inr (l\<lparr>lb_nodes :=
    om_put_all (picks (\<lambda>n p. net_op (om_get (g_nodes g) n) (op_change p)) (om_entries (lb_nodes t))) (lb_nodes l)\<rparr>)"
proof -
  let ?G = "\<lambda>n p. net_op (om_get (g_nodes g) n) (op_change p)"
  have "normalize_touched_nodes d s (lb_nodes t) l = Inr (fold (\<lambda>(k, w) l. l\<lparr>lb_nodes := om_put k w (lb_nodes l)\<rparr>) (picks ?G (om_entries (lb_nodes t))) l)"
    unfolding normalize_touched_nodes_def
  proof (rule fold_res_picks)
    fix n p l' assume "(n, p) \<in> set (om_entries (lb_nodes t))"
    then have "id_ok n" using stored_layer_ids(1) [OF assms(2)] by (simp add: om_entries_iff)
    then show "(case (n, p) of (node, p) \<Rightarrow> \<lambda>l. and_then (node_exists d s node) (\<lambda>before. case (before, p = Add) of
          (False, True) \<Rightarrow> add_node node l | (True, False) \<Rightarrow> remove_node node l | _ \<Rightarrow> Inr l)) l' =
        Inr (case ?G n p of None \<Rightarrow> l' | Some w \<Rightarrow> l'\<lparr>lb_nodes := om_put n w (lb_nodes l')\<rparr>)"
      by (cases "om_get (g_nodes g) n") (auto simp: assms(1) builder_ops net_op_def op_change_def om_has_def)
  qed
  then show ?thesis by (simp add: fold_put_nodes)
qed

lemma normalize_relationships_result:
  assumes "\<And>i. relationship d s i = Inr (om_get (g_relationships g) i)" "stored_layer d t"
    "graph_ok g" "om_all (stored_tuple d) (g_relationships g)" "tuples_unique d"
  shows "normalize_touched_relationships d s (lb_relationships t) l = Inr (l\<lparr>lb_relationships :=
    om_put_all (picks (\<lambda>i p. net_relationship (om_get (g_relationships g) i) (relationship_change p)) (om_entries (lb_relationships t))) (lb_relationships l)\<rparr>)"
proof -
  let ?G = "\<lambda>i p. net_relationship (om_get (g_relationships g) i) (relationship_change p)"
  have "normalize_touched_relationships d s (lb_relationships t) l =
      Inr (fold (\<lambda>(k, w) l. l\<lparr>lb_relationships := om_put k w (lb_relationships l)\<rparr>) (picks ?G (om_entries (lb_relationships t))) l)"
    unfolding normalize_touched_relationships_def
  proof (rule fold_res_picks)
    fix i p l' assume "(i, p) \<in> set (om_entries (lb_relationships t))"
    then have p: "rel_id (rd_record p) = i" "wf_relationship (rd_record p)" "stored_tuple d i (rd_record p)"
      using stored_layer_ids(3) [OF assms(2)] by (simp_all add: om_entries_iff)
    have same: "r = rd_record p" if "om_get (g_relationships g) i = Some r" for r
      using om_allD [OF assms(4) that] p(3) assms(5) unfolding tuples_unique_def by blast
    show "(case (i, p) of (i, delta) \<Rightarrow> \<lambda>l. and_then (relationship d s i) (\<lambda>before.
         case (before, if rd_op delta = Add then Some (rd_record delta) else None) of
           (None, Some r) \<Rightarrow> add_relationship r l
         | (Some r, None) \<Rightarrow> remove_relationship r l
         | (Some r, Some r') \<Rightarrow>
             if r \<noteq> r' then Inl (Corrupt ''RelationshipId changed immutable endpoints or type'') else Inr l
         | (None, None) \<Rightarrow> Inr l)) l' =
        Inr (case ?G i p of None \<Rightarrow> l' | Some w \<Rightarrow> l'\<lparr>lb_relationships := om_put i w (lb_relationships l')\<rparr>)"
    proof (cases "om_get (g_relationships g) i")
      case None
      then show ?thesis using p by (auto simp: assms(1) builder_ops net_relationship_def relationship_change_def)
    next
      case (Some r)
      have "rel_id r = i" "wf_relationship r" using graph_ok_ids(3) [OF assms(3) Some] by simp_all
      then show ?thesis using Some same [OF Some] by (auto simp: assms(1) builder_ops net_relationship_def relationship_change_def)
    qed
  qed
  then show ?thesis by (simp add: fold_put_relationships)
qed

lemma normalize_properties_result:
  assumes "\<And>kind n k. property P d s kind n k = Inr (om_get (g_properties g) (kind, n, k))" "stored_layer d t"
    "graph_ok g" "encodable g" "graph_ok (apply_layer t g)" "encodable (apply_layer t g)"
  shows "normalize_touched_properties P d s (lb_properties t) l = Inr (l\<lparr>lb_properties :=
    om_put_all (picks (\<lambda>k p. net_property (om_get (g_properties g) k) (pd_value p)) (om_entries (lb_properties t))) (lb_properties l)\<rparr>)"
proof -
  let ?G = "\<lambda>k p. net_property (om_get (g_properties g) k) (pd_value p)"
  have "normalize_touched_properties P d s (lb_properties t) l =
      Inr (fold (\<lambda>(k, w) l. l\<lparr>lb_properties := om_put k w (lb_properties l)\<rparr>) (picks ?G (om_entries (lb_properties t))) l)"
    unfolding normalize_touched_properties_def
  proof (rule fold_res_picks)
    fix k p l' assume "(k, p) \<in> set (om_entries (lb_properties t))"
    moreover obtain kind m i where k: "k = (kind, m, i)" by (cases k)
    ultimately have t: "om_get (lb_properties t) (kind, m, i) = Some p" by (simp add: om_entries_iff)
    have ids: "id_ok m" "id_ok i" "wf_delta p" using stored_layer_ids(4) [OF assms(2) t] by simp_all
    have after: "(if pd_op p = Add then pd_value p else None) = pd_value p" using ids(3) by (auto simp: wf_delta_def)
    have h: "om_get (g_properties (apply_layer t g)) (kind, m, i) = pd_value p" by (simp add: apply_layer_get t)
    have "and_then (property P d s kind m i) (\<lambda>before.
         case (before, pd_value p) of
           (None, Some v) \<Rightarrow> set_property kind m i v l'
         | (Some _, None) \<Rightarrow> remove_property kind m i l'
         | (Some v, Some w) \<Rightarrow>
             and_then (canonical_bytes v) (\<lambda>b. and_then (canonical_bytes w) (\<lambda>a.
               if b \<noteq> a then set_property kind m i w l' else Inr l'))
         | (None, None) \<Rightarrow> Inr l') =
        Inr (case ?G k p of None \<Rightarrow> l' | Some w \<Rightarrow> l'\<lparr>lb_properties := om_put k w (lb_properties l')\<rparr>)"
    proof (cases "om_get (g_properties g) (kind, m, i)")
      case None
      then show ?thesis using ids by (cases "pd_value p") (auto simp: assms(1) k builder_ops net_property_def)
    next
      case (Some v)
      show ?thesis
      proof (cases "pd_value p")
        case None
        then show ?thesis using ids Some by (simp add: assms(1) k builder_ops net_property_def)
      next
        case w: (Some w)
        from changed_property(2) [OF assms(3,5,4,6) Some h [unfolded w]]
        obtain b a where "canonical_bytes v = Inr b" "canonical_bytes w = Inr a" "b = a \<longleftrightarrow> v = w" by blast
        then show ?thesis using ids Some w by (auto simp: assms(1) k builder_ops net_property_def)
      qed
    qed
    then show "(case (k, p) of (x, y) \<Rightarrow> (case x of (kind, owner, key) \<Rightarrow> \<lambda>delta l. and_then (property P d s kind owner key) (\<lambda>before.
         case (before, if pd_op delta = Add then pd_value delta else None) of
           (None, Some v) \<Rightarrow> set_property kind owner key v l
         | (Some _, None) \<Rightarrow> remove_property kind owner key l
         | (Some v, Some w) \<Rightarrow>
             and_then (canonical_bytes v) (\<lambda>b. and_then (canonical_bytes w) (\<lambda>a.
               if b \<noteq> a then set_property kind owner key w l else Inr l))
         | (None, None) \<Rightarrow> Inr l)) y) l' =
        Inr (case ?G k p of None \<Rightarrow> l' | Some w \<Rightarrow> l'\<lparr>lb_properties := om_put k w (lb_properties l')\<rparr>)"
      by (simp only: k prod.case after)
  qed
  then show ?thesis by (simp add: fold_put_properties)
qed

definition label_change :: "graph \<Rightarrow> i64 \<times> i64 \<Rightarrow> DeltaOp \<Rightarrow> DeltaOp option" where
  "label_change g k p = net_op (om_get (g_labels g) k) (op_change p)"

definition label_step :: "database \<Rightarrow> SnapshotState \<Rightarrow> (i64 \<times> i64) \<times> DeltaOp \<Rightarrow> (i64, i64 list) omap \<times> LayerBuilder \<Rightarrow> ((i64, i64 list) omap \<times> LayerBuilder) res" where
  "label_step d s = (\<lambda>((node, label), p) (cache, l).
       and_then (base_labels_of d s node cache) (\<lambda>(ls, cache).
         and_then (case (label \<in> set ls, p = Add) of
             (False, True) \<Rightarrow> add_label node label l
           | (True, False) \<Rightarrow> remove_label node label l
           | _ \<Rightarrow> Inr l) (\<lambda>l. Inr (cache, l))))"

lemma normalize_labels_step:
  assumes "\<And>n. labels d s n = Inr (om_keys (node_labels g n))" "om_all (\<lambda>n ls. ls = om_keys (node_labels g n)) cache" "id_ok n" "id_ok k"
  shows "\<exists>cache'. label_step d s ((n, k), p) (cache, l) =
     Inr (cache', case label_change g (n, k) p of None \<Rightarrow> l | Some w \<Rightarrow> l\<lparr>lb_labels := om_put (n, k) w (lb_labels l)\<rparr>)
   \<and> om_all (\<lambda>n ls. ls = om_keys (node_labels g n)) cache'"
proof -
  obtain cache' where c: "base_labels_of d s n cache = Inr (om_keys (node_labels g n), cache')"
    "om_all (\<lambda>n ls. ls = om_keys (node_labels g n)) cache'"
  proof (cases "om_get cache n")
    case None
    then show ?thesis using that assms(1,2) by (simp add: base_labels_of_def om_all_put)
  next
    case (Some ls)
    then show ?thesis using that assms(2) om_allD [OF assms(2) Some] by (simp add: base_labels_of_def)
  qed
  have has: "k \<in> set (om_keys (node_labels g n)) \<longleftrightarrow> om_get (g_labels g) (n, k) \<noteq> None"
    unfolding om_keys_iff by (simp add: node_labels_def)
  show ?thesis
    unfolding label_step_def prod.case c(1) using c(2) assms(3,4)
    by (cases "om_get (g_labels g) (n, k)"; cases p) (auto simp: has label_change_def net_op_def op_change_def builder_ops)
qed

lemma normalize_labels_loop:
  assumes "\<And>n. labels d s n = Inr (om_keys (node_labels g n))"
    and "\<And>n k p. ((n, k), p) \<in> set kvs \<Longrightarrow> id_ok n \<and> id_ok k"
    and "om_all (\<lambda>n ls. ls = om_keys (node_labels g n)) cache"
  shows "\<exists>cache'. fold_res (label_step d s) kvs (cache, l) =
     Inr (cache', fold (\<lambda>(k, w) l. l\<lparr>lb_labels := om_put k w (lb_labels l)\<rparr>) (picks (label_change g) kvs) l)"
  using assms(2,3)
proof (induction kvs arbitrary: cache l)
  case (Cons kv kvs)
  obtain n k p where kv: "kv = ((n, k), p)" by (metis surj_pair)
  have ids: "id_ok n" "id_ok k" using Cons.prems(1) [of n k p] kv by simp_all
  obtain cache' where step: "label_step d s ((n, k), p) (cache, l) =
     Inr (cache', case label_change g (n, k) p of None \<Rightarrow> l | Some w \<Rightarrow> l\<lparr>lb_labels := om_put (n, k) w (lb_labels l)\<rparr>)"
    and c': "om_all (\<lambda>n ls. ls = om_keys (node_labels g n)) cache'"
    using normalize_labels_step [OF assms(1) Cons.prems(2) ids, of p l] by blast
  have "((n', k'), p') \<in> set kvs \<Longrightarrow> id_ok n' \<and> id_ok k'" for n' k' p' by (rule Cons.prems(1) [of n' k' p']) simp
  note rest = Cons.IH [where l = "case label_change g (n, k) p of None \<Rightarrow> l | Some w \<Rightarrow> l\<lparr>lb_labels := om_put (n, k) w (lb_labels l)\<rparr>", OF this c']
  show ?case
    unfolding kv fold_res.simps step and_then.simps
    using rest by (cases "label_change g (n, k) p") simp_all
qed simp

lemma normalize_labels_result:
  assumes "\<And>n. labels d s n = Inr (om_keys (node_labels g n))" "stored_layer d t"
  shows "normalize_touched_labels d s (lb_labels t) l = Inr (l\<lparr>lb_labels :=
    om_put_all (picks (label_change g) (om_entries (lb_labels t))) (lb_labels l)\<rparr>)"
proof -
  have "((n, k), p) \<in> set (om_entries (lb_labels t)) \<Longrightarrow> id_ok n \<and> id_ok k" for n k p
    using stored_layer_ids(2) [OF assms(2)] by (simp add: om_entries_iff)
  from normalize_labels_loop [where l = l, OF assms(1) this om_all_empty]
  show ?thesis unfolding normalize_touched_labels_def label_step_def [symmetric] by (auto simp: fold_put_labels)
qed

lemma net_same [simp]: "net_op x x = None" "net_relationship y y = None" "net_property z z = None"
  by (simp_all add: net_op_def net_relationship_def net_property_def split: option.splits)

lemma normalize_touched_layer_net:
  assumes "resolve P d base = Inr s" "commit_graph P d base g" "checkpoints_ok P d" "delta_rows_ok d" "tuples_unique d"
    and t: "stored_layer d t" and "encodable g" "encodable (apply_layer t g)"
  shows "\<exists>l. normalize_touched_layer P d base t = Inr l \<and> net_layer g (apply_layer t g) l"
proof -
  obtain b where b: "snapshot_of P d s b g" "ss_property_cache s = om_empty"
    using resolved_snapshot [OF assms(1) [unfolded resolve_def] assms(2-4)] by blast
  then have base: "base_graph P d s b" and v: "view b s = g" by (auto simp: snapshot_of_def)
  have cache: "cache_ok b s" using b(2) by (simp add: cache_ok_def)
  have ok: "graph_ok g" by (rule snapshot_of_graph_ok [OF b(1)])
  have ok': "graph_ok (apply_layer t g)" using t ok by (auto simp: stored_layer_def intro: apply_layer_graph_ok)
  have nodes: "node_exists d s n = Inr (om_has (g_nodes g) n)" for n using node_exists_view [OF base] v by simp
  have rels: "relationship d s i = Inr (om_get (g_relationships g) i)" for i using relationship_view [OF base] v by simp
  note labels = labels_view [OF b(1)] and properties = property_view [OF b(1) cache]
  have dist: "distinct (map fst (om_entries u))" for u :: "('x::linorder, 'y) omap" by simp
  show ?thesis
    unfolding normalize_touched_layer_def assms(1)
    by (simp add: normalize_nodes_result [OF nodes t] normalize_labels_result [OF labels t]
        normalize_relationships_result [OF rels t ok commit_graph_tuples [OF assms(2)] assms(5)]
        normalize_properties_result [OF properties t ok assms(7) ok' assms(8)] net_layer_def layer_default_def
        om_get_puts [OF dist] apply_layer_get label_change_def split: option.splits)
qed

lemma commit_graph_canonical:
  "commit_graph P d c g \<Longrightarrow> delta_rows_ok d \<Longrightarrow> om_all (\<lambda>_ v. canonical_value v = v) (g_properties g)"
proof (induction rule: commit_graph.induct)
  case (root c row l)
  then show ?case using load_layer_stored [of P d "lr_layer_id row" l]
    by (auto simp: stored_layer_def om_all_iff apply_layer_get empty_graph_def split: option.splits)
next
  case (child c row p l g)
  then show ?case using load_layer_stored [of P d "lr_layer_id row" l]
    by (auto simp: stored_layer_def om_all_iff apply_layer_get split: option.splits)
qed

lemma layer_between_commits_net:
  assumes "is_first_parent_descendant d base c = Some (Inr True)" "commit_graph P d base g" "commit_graph P d c h"
    and "resolve P d base = Inr s" "checkpoints_ok P d" "delta_rows_ok d" "tuples_unique d" "encodable g" "encodable h"
  shows "\<exists>l. layer_between_commits P d base c = Some (Inr l) \<and> net_layer g h l"
proof -
  have "\<exists>t. touched_layer_between_commits P d base c = Some (Inr t) \<and> stored_layer d t \<and> apply_layer t g = h"
  proof (cases "base = c")
    case True
    then show ?thesis using commit_graph_unique [OF assms(2), of h] assms(3) by (simp add: touched_layer_between_commits_def stored_layer_default)
  next
    case False
    then show ?thesis
      using touched_layer_loop_path [OF first_parent_descendant_path [OF assms(1)] assms(2,3,6) stored_layer_default]
      by (simp add: touched_layer_between_commits_def)
  qed
  then obtain t where t: "touched_layer_between_commits P d base c = Some (Inr t)" "stored_layer d t" "apply_layer t g = h" by blast
  show ?thesis
    using normalize_touched_layer_net [OF assms(4,2,5,6,7) t(2) assms(8)] assms(9) t(1,3)
    by (auto simp: layer_between_commits_def)
qed

section \<open>Allocation state\<close>

lemma restore_dictionary_present:
  "\<forall>kv \<in> set kvs. om_has t (fst kv) \<Longrightarrow> restore_dictionary kvs t = t"
  unfolding restore_dictionary_def
  by (induction kvs) (auto simp: insert_or_ignore_def om_has_def)

text \<open>Restoring what was captured from a store changes nothing in it.\<close>

lemma restore_captured: "restore_allocation_state (capture_allocation_state d) d = d"
proof -
  have dict: "restore_dictionary (om_entries t) t = t" for t :: "(i64, ustr) omap"
    by (rule restore_dictionary_present) (auto simp: om_entries_iff om_has_def)
  have "fold (\<lambda>(kind, next) d. case om_get (tb_sequences d) kind of None \<Rightarrow> d
      | Some n \<Rightarrow> d\<lparr>tb_sequences := om_put kind (max n next) (tb_sequences d)\<rparr>) kvs d = d"
    if "\<And>k n. (k, n) \<in> set kvs \<Longrightarrow> om_get (tb_sequences d) k = Some n" for kvs
    using that
  proof (induction kvs)
    case (Cons kv kvs)
    have "om_get (tb_sequences d) (fst kv) = Some (snd kv)" using Cons.prems [of "fst kv" "snd kv"] by simp
    then show ?case using Cons.IH [OF Cons.prems] by (simp add: split_def om_put_same)
  qed simp
  from this [of "om_entries (tb_sequences d)"] show ?thesis
    by (simp add: restore_allocation_state_def capture_allocation_state_def dict om_entries_iff)
qed

end
