(* ===== verification/State_Theorems.thy ===== *)
theory State_Theorems imports State_Laws begin

text \<open>
  The property of the snapshot states (\<^verbatim>\<open>storage/version/state.rs\<close>): the two ways of computing the layer between a commit
  and a descendant give the same layer, which is the exact difference of the two graphs.
\<close>

section \<open>Only what changed\<close>

lemma net_op_changes [simp]: "net_op x y = None \<longleftrightarrow> x = y"
  by (auto simp: net_op_def split: option.splits)

lemma net_property_changes [simp]: "net_property x y = None \<longleftrightarrow> x = y"
  by (auto simp: net_property_def split: option.splits if_splits)

lemma net_relationship_changes: "(\<forall>r r'. x = Some r \<longrightarrow> y = Some r' \<longrightarrow> r = r') \<Longrightarrow> net_relationship x y = None \<longleftrightarrow> x = y"
  by (auto simp: net_relationship_def split: option.splits)

lemma net_layer_touches:
  assumes "net_layer g h l" "same_tuples g h"
  shows "om_has (lb_nodes l) n \<longleftrightarrow> om_get (g_nodes g) n \<noteq> om_get (g_nodes h) n"
    and "om_has (lb_labels l) k \<longleftrightarrow> om_get (g_labels g) k \<noteq> om_get (g_labels h) k"
    and "om_has (lb_relationships l) i \<longleftrightarrow> om_get (g_relationships g) i \<noteq> om_get (g_relationships h) i"
    and "om_has (lb_properties l) p \<longleftrightarrow> om_get (g_properties g) p \<noteq> om_get (g_properties h) p"
proof -
  note net = assms(1) [unfolded net_layer_def]
  have rel: "net_relationship (om_get (g_relationships g) i) (om_get (g_relationships h) i) = None
      \<longleftrightarrow> om_get (g_relationships g) i = om_get (g_relationships h) i"
    by (rule net_relationship_changes) (use assms(2) in \<open>auto simp: same_tuples_def\<close>)
  show "om_has (lb_nodes l) n \<longleftrightarrow> om_get (g_nodes g) n \<noteq> om_get (g_nodes h) n"
    and "om_has (lb_labels l) k \<longleftrightarrow> om_get (g_labels g) k \<noteq> om_get (g_labels h) k"
    and "om_has (lb_relationships l) i \<longleftrightarrow> om_get (g_relationships g) i \<noteq> om_get (g_relationships h) i"
    and "om_has (lb_properties l) p \<longleftrightarrow> om_get (g_properties g) p \<noteq> om_get (g_properties h) p"
    using net by (simp_all add: om_has_def rel del: split_paired_All not_None_eq)
qed

lemma same_tuples_store:
  assumes "commit_graph P d b g" "commit_graph P d c h" "tuples_unique d"
  shows "same_tuples g h"
  using commit_graph_tuples [OF assms(1)] commit_graph_tuples [OF assms(2)] assms(3)
  unfolding same_tuples_def tuples_unique_def om_all_iff by blast

lemma commit_graph_encodable:
  assumes "commit_graph P d c g" "delta_rows_ok d" "om_all (\<lambda>_ v. \<exists>b. canonical_bytes v = Inr b) (g_properties g)"
  shows "encodable g"
  using commit_graph_canonical [OF assms(1,2)] assms(3) by (simp add: encodable_def om_all_iff)

lemma resolved_graph_ok:
  assumes "resolve P d c = Inr s" "commit_graph P d c g" "checkpoints_ok P d" "delta_rows_ok d"
  shows "graph_ok g"
  using resolved_snapshot [OF assms(1) [unfolded resolve_def] assms(2-4)] snapshot_of_graph_ok by blast

section \<open>The layer between two commits\<close>

text \<open>C7. Between a commit and one of its first-parent descendants there is one net layer: loading both states and comparing
  them gives it, and so does folding the layers on the way (the last change of each entity winning) and normalizing the result
  against the base. It turns the graph of the base into that of the descendant and touches exactly the nodes, labels,
  relationships and property slots in which the two graphs differ. This is about the graph of a state; loading its schema, which
  no layer depends on, is left out.\<close>

theorem layer_between_exact:
  assumes "is_first_parent_descendant d base c = Some (Inr True)"
    and "commit_graph P d base g" and "commit_graph P d c h"
    and "checkpoints_ok P d" and "empty_layers_ok P d" and "delta_rows_ok d" and "tuples_unique d"
    and "2 * om_size (tb_commits d) \<le> usize_max"
    and "om_all (\<lambda>_ v. \<exists>b. canonical_bytes v = Inr b) (g_properties g)"
    and "om_all (\<lambda>_ v. \<exists>b. canonical_bytes v = Inr b) (g_properties h)"
  shows "load_snapshot_state P d base = Inr g \<and> load_snapshot_state P d c = Inr h
    \<and> (\<exists>l. layer_between g h = Inr l \<and> layer_between_commits P d base c = Some (Inr l) \<and> apply_layer l g = h
      \<and> (\<forall>n. om_has (lb_nodes l) n \<longleftrightarrow> om_get (g_nodes g) n \<noteq> om_get (g_nodes h) n)
      \<and> (\<forall>k. om_has (lb_labels l) k \<longleftrightarrow> om_get (g_labels g) k \<noteq> om_get (g_labels h) k)
      \<and> (\<forall>i. om_has (lb_relationships l) i \<longleftrightarrow> om_get (g_relationships g) i \<noteq> om_get (g_relationships h) i)
      \<and> (\<forall>p. om_has (lb_properties l) p \<longleftrightarrow> om_get (g_properties g) p \<noteq> om_get (g_properties h) p))"
proof -
  obtain s s' where s: "resolve P d base = Inr s" "resolve P d c = Inr s'"
    using resolve_total [OF assms(2,5,4,8), of None] resolve_total [OF assms(3,5,4,8), of None] by (auto simp: resolve_def)
  have enc: "encodable g" "encodable h" using commit_graph_encodable assms(2,3,6,9,10) by blast+
  have same: "same_tuples g h" by (rule same_tuples_store [OF assms(2,3,7)])
  obtain l where l: "layer_between_commits P d base c = Some (Inr l)" "net_layer g h l"
    using layer_between_commits_net [OF assms(1-3) s(1) assms(4,6,7) enc] by blast
  obtain l' where l': "layer_between g h = Inr l'" "net_layer g h l'"
    using layer_between_net [OF _ _ same enc] resolved_graph_ok [OF s(1) assms(2,4,6)] resolved_graph_ok [OF s(2) assms(3,4,6)] by blast
  have "l' = l" by (rule net_layer_unique [OF l'(2) l(2)])
  with l l' show ?thesis
    using load_snapshot_state_graph [OF s(1) assms(2,4,6)] load_snapshot_state_graph [OF s(2) assms(3,4,6)]
      net_layer_applies [OF l(2) same] net_layer_touches [OF l(2) same] by blast
qed

lemma example_tuples: "tuples_unique example"
  by (simp add: tuples_unique_def stored_tuple_def example_def create_storage_schema_def)

theorem layer_between_exact_witness:
  "\<exists>l. layer_between (example_graph 7) (example_graph 8) = Inr l
    \<and> layer_between_commits platform64 example (commit_id 2) (commit_id 3) = Some (Inr l)
    \<and> apply_layer l (example_graph 7) = example_graph 8 \<and> om_has (lb_nodes l) 7 \<and> om_has (lb_nodes l) 8 \<and> \<not> om_has (lb_nodes l) 9"
proof -
  have "map_sum id rec_parent1 (load_commit example (commit_id 3)) = Inr (Some (commit_id 2))" "commit_id 3 \<noteq> commit_id 2" by code_simp+
  then have "is_first_parent_descendant example (commit_id 2) (commit_id 3) = Some (Inr True)"
    by (cases "load_commit example (commit_id 3)") (simp_all add: is_first_parent_descendant.simps)
  moreover have "om_all (\<lambda>_ v. \<exists>b. canonical_bytes v = Inr b) (g_properties (example_graph n))" for n
    by (simp add: example_graph_def empty_graph_def)
  moreover have "om_get (g_nodes (example_graph n)) m = (if m = n then Some () else None)" for n m
    by (simp add: example_graph_def om_of_def om_put_all_def)
  ultimately show ?thesis
    using layer_between_exact [OF _ example_graphs example_checkpoints example_ok(2,1) example_tuples example_ok(3)] by auto
qed

end
