(* ===== verification/Spec2Isabelle.thy ===== *)
theory Spec2Isabelle
  imports Version_Theorems Value_Bridge_Theorems State_Theorems
begin

text \<open>
  \<^bold>\<open>Lithograph: the versioned property-graph store.\<close>

  Lithograph is an SQLite extension. A database holds a property graph under version control: a commit is a layer
  of changes on top of its first parent, branches and tags name commits, checkpoints are graphs that were
  materialised to shorten the walk over a history, and queries in Cypher read and write the graph of a branch. This
  development models the storage layer, \<^verbatim>\<open>crates/lithograph-core/src/storage\<close>, and the values of the query language with their
  way into the store and back (\<^verbatim>\<open>src/cypher\<close>, \<^verbatim>\<open>src/query\<close> of the same crate). All paths below are in \<^verbatim>\<open>crates/lithograph-core/src\<close>.

  \<^bold>\<open>How the model corresponds to the code.\<close>

  \<^item> The state is the record \<open>database\<close> of theory Database, one field per table of \<^verbatim>\<open>storage/schema.rs\<close>, with the primary key of the
    table as the key of an ordered map. A \<^verbatim>\<open>SELECT ... ORDER BY\<close> of the key is the list of entries; a constraint or a trigger of
    the schema is a condition of the write. \<open>conn\<close> adds the state of the connection, and \<open>'a st\<close> is a function on it
    that returns a result and the connection after it: what a failing call has written before the error stays
    written, unless the code runs in a savepoint, which \<open>with_savepoint\<close> rolls back.
  \<^item> A \<^verbatim>\<open>StorageResult\<close> is \<open>'a res\<close>, the error on the left. Code that polls a cancellation callback is in \<open>'a chk\<close>, the number of
    polls with the result: a cancelled call is one that stops at a poll, so counting them shows where it may stop, and the
    results are those of a callback that never cancels.
  \<^item> Bytes, \<^verbatim>\<open>f64\<close> and \<^verbatim>\<open>f32\<close> bit patterns and the unsigned integers that wrap are words; the signed identifiers, counts and times are integers with
    the range checks written where the code has them (\<^verbatim>\<open>checked_add\<close>, \<^verbatim>\<open>try_from\<close>). Strings are lists of UTF-8 bytes.
  \<^item> \<^verbatim>\<open>BTreeMap\<close> and \<^verbatim>\<open>BTreeSet\<close> are \<open>omap\<close> of theory Ordered_Map. \<^verbatim>\<open>HashMap\<close> and \<^verbatim>\<open>HashSet\<close> are too where the code does not iterate over them.
  \<^item> Code outside of the repository is an argument of the definitions that use it: \<open>platform\<close> (the digest of the
    \<^verbatim>\<open>blake3\<close> crate and the sizes of three Rust types), \<open>serde_json\<close> (JSON text and values) and \<open>chrono\<close> (the IANA zones of
    \<^verbatim>\<open>chrono_tz\<close>). What is assumed of one of them is a hypothesis of the theorem.

  \<^bold>\<open>The theories.\<close>

  \<^item> Prelude, Ordered_Map, Utf8, Storage_Base (\<^verbatim>\<open>storage/mod.rs\<close>), Database (\<^verbatim>\<open>storage/schema.rs\<close>): machine types, the two result types,
    ordered maps (the locale \<open>kv_store\<close> states what their clients use), text, hashes and records, tables.
  \<^item> Encoding (\<^verbatim>\<open>storage/encoding.rs\<close>), Value (\<^verbatim>\<open>storage/value.rs\<close>), Property (\<^verbatim>\<open>storage/property.rs\<close>), Read_Memory (\<^verbatim>\<open>storage/read_memory.rs\<close>): the
    canonical byte form of property values, their columns, and the size that is known before a value is read. Encoding
    round trips, the decoder accepts canonical bytes only, and the size is exact.
  \<^item> Identity (\<^verbatim>\<open>storage/identity.rs\<close>): ranges of identifiers and the dictionaries of names; the locale \<open>dictionary_table\<close>
    is interpreted for labels, relationship types and property keys.
  \<^item> Graph: the specification. A graph, what a layer does to it, when it is well formed.
  \<^item> Layer, Layer_Laws, Layer_Store (\<^verbatim>\<open>storage/layer.rs\<close>, \<^verbatim>\<open>storage/layer_read.rs\<close>): the builder of layers, content hashes, the delta tables. The
    hash determines a layer up to the canonical NaN and collisions of the digest; a stored layer reads back.
  \<^item> Snapshot, Snapshot_Read, Overlay_Stream, Snapshot_Laws, Snapshot_Views, Snapshot_Spec, Snapshot_Theorems
    (\<^verbatim>\<open>storage/snapshot*.rs\<close>): the resolution of a commit to a checkpoint and an overlay, point reads, streams, the page cache. Every read returns what the
    specification \<open>commit_graph\<close> says, whichever checkpoint is used; the locale \<open>overlay_stream\<close> proves the merge loop once.
  \<^item> Snapshot_Scan, Scan_Laws, Scan_Theorems (\<^verbatim>\<open>storage/snapshot_scan.rs\<close>): resumable pages, complete up to their cursor; reading page after page
    ends and returns everything once.
  \<^item> Snapshot_Validate, Validate_Laws (\<^verbatim>\<open>storage/snapshot.rs\<close>): the checks of a layer and of a whole graph accept exactly the well-formed ones.
  \<^item> Commit, Commit_Laws, Commit_Theorems (\<^verbatim>\<open>storage/commit.rs\<close>): the write path. \<open>store_ok\<close> is the invariant of a store; a commit keeps it,
    means \<open>apply_layer\<close> on the graph of the branch, and changes nothing when the branch is not at the expected head.
  \<^item> Checkpoint, Checkpoint_Laws, Checkpoint_Theorems (\<^verbatim>\<open>storage/checkpoint.rs\<close>): creating and deleting checkpoints.
  \<^item> History, History_Laws, History_Theorems (\<^verbatim>\<open>storage/version/history.rs\<close>): reachability, best common ancestors, the log.
  \<^item> Refs (\<^verbatim>\<open>storage/version/refs.rs\<close>, \<^verbatim>\<open>storage/version/session.rs\<close>): branches, tags, descriptors and merge sessions.
  \<^item> Gc, Gc_Laws, Gc_Sweep (\<^verbatim>\<open>storage/version/gc.rs\<close>): the collection of unreachable commits, layers, schemas and checkpoints.
  \<^item> State, State_Laws, State_Theorems (\<^verbatim>\<open>storage/version/state.rs\<close>): whole snapshots, the layer between two of them, the net layer of a history.
  \<^item> Version_Laws, Discard_Laws, Version_Theorems: the operations on the store as an inductive step relation, the undoing of a transaction
    included; \<open>sound\<close> holds in all reachable stores, commits do not change, and what is referenced stays.
  \<^item> Temporal, Temporal_Laws, Calendar_Laws, Date_Laws, Time_Laws, Zoned, Temporal_Theorems (\<^verbatim>\<open>cypher/temporal.rs\<close>, \<^verbatim>\<open>temporal_format.rs\<close>,
    \<^verbatim>\<open>temporal_datetime.rs\<close>): calendar arithmetic, parsing and printing of dates, times, offsets and zones.
  \<^item> Float_Bits, Cypher_Value, Cypher_Order (\<^verbatim>\<open>cypher/value.rs\<close>, \<^verbatim>\<open>cypher/value_order.rs\<close>, \<^verbatim>\<open>cypher/uuid.rs\<close>): the values of queries, equality, comparison and the total preorder
    of \<^verbatim>\<open>ORDER BY\<close> (locale \<open>lawful_comparison\<close>). Finite floats are read exactly, as integer multiples of the least double, so that comparing them is exact.
  \<^item> Value_Bridge, Value_Bridge_Laws, Value_Bridge_Theorems (\<^verbatim>\<open>query/mutation/execute/value.rs\<close>, \<^verbatim>\<open>query/graph.rs\<close>): which values may be stored, and that a stored
    value is read back.

  \<^bold>\<open>Bounds and loops.\<close> The recursive queries over histories carry the map of the commits visited and end because it grows within
  the finite table; the walk to a checkpoint has the bound of the code on its length. A loop of the code that no check of its own ends is a \<open>partial_function\<close> with
  result \<open>None\<close> when it does not end, and the theorems that use it show or assume \<open>Some\<close>. Every other loop is a
  \<open>function\<close> with a termination proof, without fuel; a client that reads page after page ends because every page moves its cursor. The counts of \<^verbatim>\<open>usize\<close> are bounded by hypotheses such as
  \<open>2 * om_size (tb_commits d) \<le> usize_max\<close>, and a witness shows each of these to be satisfiable.

  \<^bold>\<open>What was found.\<close> A stored date of the years -999 to -1 cannot be read back, and neither can a zoned date-time whose zone is an
  offset not of the form \<^verbatim>\<open>+HH:MM\<close> (properties of Temporal_Theorems and Value_Bridge_Theorems state exactly which values are affected). A column with a
  negative local time is accepted (Property).

  \<^bold>\<open>What is not modelled.\<close> The parser and the semantic analysis of Cypher, the planner and the executor of queries, indexes, full-text and vector
  search, three-way merges above the layer between two states, schema objects beyond their bytes and digests, the integrity report, the extension's C interface and the providers of
  embeddings. They call the storage operations modelled here.
\<close>

end
